(* ===== verification/Prelude.thy ===== *)
theory Prelude
  imports Main "HOL-Library.AList"
begin

text \<open>
  Shared vocabulary of the development.

  \<^item> \<open>outcome\<close>: what a Go function hands back. \<open>Ok\<close> is a normal return, \<open>Fail\<close> a
    returned error, \<open>Panic\<close> a run-time panic (a nil dereference, a failed type assertion).
  \<^item> \<open>gomap\<close>: a Go map is an association list with distinct keys. The order of the list
    stands for one iteration order of the runtime. Every theorem is stated for an
    arbitrary list, that is for every iteration order.
  \<^item> lemmas on these lists and on closed relations, used by every component.
\<close>

section \<open>Outcomes\<close>

datatype ('e, 'a) outcome = Ok 'a | Fail 'e | Panic

fun is_ok :: "('e, 'a) outcome \<Rightarrow> bool" where
  "is_ok (Ok _) = True"
| "is_ok _ = False"

fun bind_outcome :: "('e, 'a) outcome \<Rightarrow> ('a \<Rightarrow> ('e, 'b) outcome) \<Rightarrow> ('e, 'b) outcome" where
  "bind_outcome (Ok x) f = f x"
| "bind_outcome (Fail e) f = Fail e"
| "bind_outcome Panic f = Panic"

lemma is_ok_iff: "is_ok r \<longleftrightarrow> (\<exists>x. r = Ok x)"
  by (cases r) auto

lemma bind_outcome_Ok_iff: "bind_outcome r f = Ok y \<longleftrightarrow> (\<exists>x. r = Ok x \<and> f x = Ok y)"
  by (cases r) auto

section \<open>Go maps\<close>

type_synonym ('k, 'v) gomap = "('k \<times> 'v) list"

abbreviation mkeys :: "('k, 'v) gomap \<Rightarrow> 'k list" where
  "mkeys m \<equiv> map fst m"

abbreviation mok :: "('k, 'v) gomap \<Rightarrow> bool" where
  "mok m \<equiv> distinct (mkeys m)"

abbreviation mput :: "'k \<Rightarrow> 'v \<Rightarrow> ('k, 'v) gomap \<Rightarrow> ('k, 'v) gomap" where
  "mput k v m \<equiv> AList.update k v m"

abbreviation mdel :: "'k \<Rightarrow> ('k, 'v) gomap \<Rightarrow> ('k, 'v) gomap" where
  "mdel k m \<equiv> AList.delete k m"

text \<open>\<open>maps.Copy\<close>: every entry of the source overwrites the destination.\<close>

definition mcopy :: "('k, 'v) gomap \<Rightarrow> ('k, 'v) gomap \<Rightarrow> ('k, 'v) gomap" where
  "mcopy dst src = foldl (\<lambda>m (k, v). mput k v m) dst src"

text \<open>Writing through a pointer stored under a key.\<close>

definition mupd :: "'k \<Rightarrow> ('v \<Rightarrow> 'v) \<Rightarrow> ('k, 'v) gomap \<Rightarrow> ('k, 'v) gomap" where
  "mupd k f m = map (\<lambda>(k', v). (k', if k' = k then f v else v)) m"

text \<open>\<open>maps.Equal\<close>: same length and every entry of the first map is in the second.\<close>

definition mequal :: "('k, 'v) gomap \<Rightarrow> ('k, 'v) gomap \<Rightarrow> bool" where
  "mequal a b \<longleftrightarrow> length a = length b \<and> (\<forall>(k, v) \<in> set a. map_of b k = Some v)"

lemma map_of_mput [simp]: "map_of (mput k v m) = (map_of m)(k \<mapsto> v)"
  by (simp add: update_conv')

lemma map_of_mdel [simp]: "map_of (mdel k m) = (map_of m)(k := None)"
  by (simp add: delete_conv')

lemma mok_mput [simp]: "mok m \<Longrightarrow> mok (mput k v m)"
  by (rule distinct_update)

lemma mok_mdel [simp]: "mok m \<Longrightarrow> mok (mdel k m)"
  by (rule distinct_delete)

lemma set_mkeys: "set (mkeys m) = dom (map_of m)"
  by (simp add: dom_map_of_conv_image_fst)

lemma mem_mkeys_iff: "k \<in> set (mkeys m) \<longleftrightarrow> (\<exists>v. map_of m k = Some v)"
  unfolding set_mkeys by auto

lemma mkeys_mput: "k \<notin> set (mkeys m) \<Longrightarrow> mkeys (mput k v m) = mkeys m @ [k]"
  by (induction m) auto

lemma mput_fresh: "k \<notin> set (mkeys m) \<Longrightarrow> mput k v m = m @ [(k, v)]"
  by (induction m) auto

lemma keys_mput [simp]: "fst ` set (mput k v m) = insert k (fst ` set m)"
  by (simp flip: dom_map_of_conv_image_fst)

lemma keys_mdel [simp]: "fst ` set (mdel k m) = fst ` set m - {k}"
  by (simp flip: dom_map_of_conv_image_fst)

lemma keys_mupd [simp]: "fst ` set (mupd k f m) = fst ` set m"
  by (induction m) (auto simp: mupd_def)

lemma set_mput: "set (mput k v m) \<subseteq> insert (k, v) (set m)"
  by (induction m) auto

lemma length_mput: "length (mput k v m) = (if k \<in> set (mkeys m) then length m else Suc (length m))"
  by (induction m) auto

lemma mdel_snoc: "k \<notin> fst ` set m \<Longrightarrow> mdel k (m @ [(k, v)]) = m"
  by (induction m) auto

lemma mok_length: "mok m \<Longrightarrow> length m = card (dom (map_of m))"
  by (metis distinct_card length_map set_mkeys)

lemma length_mdel:
  assumes "mok m"
  shows "length (mdel k m) = (if k \<in> set (mkeys m) then length m - 1 else length m)"
  using assms by (simp add: mok_length card_Diff_singleton_if finite_dom_map_of dom_map_of_conv_image_fst)

lemma mcopy_Nil [simp]: "mcopy d [] = d"
  by (simp add: mcopy_def)

lemma mcopy_Cons [simp]: "mcopy d ((k, v) # s) = mcopy (mput k v d) s"
  by (simp add: mcopy_def)

lemma mok_mcopy [simp]: "mok d \<Longrightarrow> mok (mcopy d s)"
  by (induction s arbitrary: d) (auto simp del: map_of_mput)

lemma map_of_mcopy: "mok s \<Longrightarrow> map_of (mcopy d s) = map_of d ++ map_of s"
proof (induction s arbitrary: d)
  case (Cons a s)
  obtain k v where a: "a = (k, v)" by (cases a)
  with Cons.prems have "map_of s k = None" and "mok s"
    by (auto simp: map_of_eq_None_iff)
  with Cons.IH [of "mput k v d"] show ?case
    by (auto simp: a fun_eq_iff map_add_def split: option.splits)
qed simp

lemma mkeys_mupd [simp]: "mkeys (mupd k f m) = mkeys m"
  by (induction m) (auto simp: mupd_def)

lemma length_mupd [simp]: "length (mupd k f m) = length m"
  by (simp add: mupd_def)

lemma map_of_mupd:
  "map_of (mupd k f m) k' = (if k' = k then map_option f (map_of m k) else map_of m k')"
  by (induction m) (auto simp: mupd_def)

lemma mupd_simps [simp]:
  "mupd k f [] = []"
  "mupd k f ((k', v) # m) = (k', if k' = k then f v else v) # mupd k f m"
  by (simp_all add: mupd_def)

lemma mequal_iff:
  assumes "mok a" and "mok b"
  shows "mequal a b \<longleftrightarrow> map_of a = map_of b"
proof
  assume eq: "mequal a b"
  have sub: "map_of a \<subseteq>\<^sub>m map_of b"
    using eq by (fastforce simp: mequal_def map_le_def dest: map_of_SomeD)
  have "card (dom (map_of a)) = card (dom (map_of b))"
    using eq assms by (simp add: mequal_def flip: mok_length)
  moreover have "dom (map_of a) \<subseteq> dom (map_of b)"
    using sub by (rule map_le_implies_dom_le)
  ultimately have "dom (map_of a) = dom (map_of b)"
    by (intro card_subset_eq) (auto simp: finite_dom_map_of)
  with sub show "map_of a = map_of b"
    by (intro map_le_antisym) (auto simp: map_le_def)
next
  assume eq: "map_of a = map_of b"
  have "length a = card (dom (map_of a))" and "length b = card (dom (map_of b))"
    using assms by (simp_all add: mok_length)
  with eq assms(1) show "mequal a b"
    by (auto simp: mequal_def simp flip: eq intro: map_of_is_SomeI)
qed

section \<open>Relations\<close>

lemma rtrancl_closed_subset:
  assumes "(a, b) \<in> r\<^sup>*" and "a \<in> S" and "\<And>x y. x \<in> S \<Longrightarrow> (x, y) \<in> r \<Longrightarrow> y \<in> S"
  shows "b \<in> S"
  using assms(1,2) by induction (auto intro: assms(3))

lemma trancl_last_step:
  "(a, c) \<in> r\<^sup>+ \<longleftrightarrow> (\<exists>b. (a, b) \<in> r\<^sup>* \<and> (b, c) \<in> r)"
  by (meson rtrancl_into_trancl1 tranclD2)

lemma acyclic_insert_edge:
  assumes "acyclic r" and "(v, u) \<notin> r\<^sup>*"
  shows "acyclic (insert (u, v) r)"
  using assms by simp

end
