(* ===== verification/Dag.thy ===== *)
theory Dag
  imports Prelude "HOL-Library.Product_Lexorder"
begin

text \<open>
  The directed acyclic graph of \<open>bindings/go/dag/dag.go\<close>.

  A vertex keeps its outgoing edges (with attributes) and two counters, the graph is a map
  from identifiers to vertices. Operations take the graph and return the graph they leave
  behind together with an outcome, so that a failing operation shows what it did to the
  graph. Reading \<open>d.Vertices[n].Edges\<close> of a missing vertex is a nil dereference: \<open>Panic\<close>.
\<close>

section \<open>State\<close>

record ('k, 'a) vertex =
  ID :: 'k
  Attributes :: "(string, 'a) gomap"
  Edges :: "('k, (string, 'a) gomap) gomap"
  InDegree :: int
  OutDegree :: int

record ('k, 'a) dag =
  Vertices :: "('k, ('k, 'a) vertex) gomap"

datatype 'k dag_error =
    NodeExists 'k
  | NodeMissing 'k
  | EdgeMissing 'k 'k
  | SelfReference
  | WouldCycle 'k 'k "'k list"
  | CycleFound "'k list"

type_synonym ('k, 'a) dag_step = "('k, 'a) dag \<times> ('k dag_error, unit) outcome"

definition new_dag :: "('k, 'a) dag" where
  "new_dag = \<lparr>Vertices = []\<rparr>"

abbreviation get_vertex :: "('k, 'a) dag \<Rightarrow> 'k \<Rightarrow> ('k, 'a) vertex option" where
  "get_vertex g k \<equiv> map_of (Vertices g) k"

definition contains_vertex :: "('k, 'a) dag \<Rightarrow> 'k \<Rightarrow> bool" where
  "contains_vertex g k \<longleftrightarrow> get_vertex g k \<noteq> None"

definition upd_vertex :: "'k \<Rightarrow> (('k, 'a) vertex \<Rightarrow> ('k, 'a) vertex) \<Rightarrow> ('k, 'a) dag \<Rightarrow> ('k, 'a) dag" where
  "upd_vertex k f g = g\<lparr>Vertices := mupd k f (Vertices g)\<rparr>"

section \<open>Vertices and edges\<close>

definition add_vertex :: "('k, 'a) dag \<Rightarrow> 'k \<Rightarrow> (string, 'a) gomap list \<Rightarrow> ('k, 'a) dag_step" where
  "add_vertex g k attributes =
     (case get_vertex g k of
        Some _ \<Rightarrow> (g, Fail (NodeExists k))
      | None \<Rightarrow>
          (g\<lparr>Vertices := mput k \<lparr>ID = k, Attributes = foldl mcopy [] attributes, Edges = [],
                                 InDegree = 0, OutDegree = 0\<rparr> (Vertices g)\<rparr>, Ok ()))"

definition link :: "'k \<Rightarrow> 'k \<Rightarrow> ('k, 'a) dag \<Rightarrow> ('k, 'a) dag" where
  "link u w g =
     upd_vertex w (\<lambda>x. x\<lparr>InDegree := InDegree x + 1\<rparr>)
       (upd_vertex u (\<lambda>x. x\<lparr>Edges := mput w [] (Edges x), OutDegree := OutDegree x + 1\<rparr>) g)"

definition unlink :: "'k \<Rightarrow> 'k \<Rightarrow> ('k, 'a) dag \<Rightarrow> ('k, 'a) dag" where
  "unlink u w g =
     upd_vertex w (\<lambda>x. x\<lparr>InDegree := InDegree x - 1\<rparr>)
       (upd_vertex u (\<lambda>x. x\<lparr>Edges := mdel w (Edges x), OutDegree := OutDegree x - 1\<rparr>) g)"

definition delete_edge :: "('k, 'a) dag \<Rightarrow> 'k \<Rightarrow> 'k \<Rightarrow> ('k, 'a) dag_step" where
  "delete_edge g u w =
     (case get_vertex g u of
        None \<Rightarrow> (g, Fail (NodeMissing u))
      | Some x \<Rightarrow>
          (case get_vertex g w of
             None \<Rightarrow> (g, Fail (NodeMissing w))
           | Some _ \<Rightarrow>
               if map_of (Edges x) w = None then (g, Fail (EdgeMissing u w))
               else (unlink u w g, Ok ())))"

fun delete_edges :: "('k, 'a) dag \<Rightarrow> 'k \<Rightarrow> 'k list \<Rightarrow> ('k, 'a) dag_step" where
  "delete_edges g u [] = (g, Ok ())"
| "delete_edges g u (w # ws) =
     (case delete_edge g u w of
        (g', Ok _) \<Rightarrow> delete_edges g' u ws
      | (g', r) \<Rightarrow> (g', r))"

definition delete_vertex :: "('k, 'a) dag \<Rightarrow> 'k \<Rightarrow> ('k, 'a) dag_step" where
  "delete_vertex g k =
     (case get_vertex g k of
        None \<Rightarrow> (g, Fail (NodeMissing k))
      | Some x \<Rightarrow>
          (case delete_edges g k (mkeys (Edges x)) of
             (g', Ok _) \<Rightarrow> (g'\<lparr>Vertices := mdel k (Vertices g')\<rparr>, Ok ())
           | (g', r) \<Rightarrow> (g', r)))"

definition succs :: "('k, 'a) dag \<Rightarrow> 'k \<Rightarrow> 'k list option" where
  "succs g n = map_option (\<lambda>x. mkeys (Edges x)) (get_vertex g n)"

definition roots :: "('k, 'a) dag \<Rightarrow> 'k list" where
  "roots g = mkeys (filter (\<lambda>(k, x). InDegree x = 0) (Vertices g))"

definition get_vertices :: "('k::linorder, 'a) dag \<Rightarrow> 'k list" where
  "get_vertices g = sort (mkeys (Vertices g))"

definition get_edges :: "('k::linorder, 'a) dag \<Rightarrow> ('k \<times> 'k) list" where
  "get_edges g = sort (concat (map (\<lambda>(u, x). map (Pair u) (mkeys (Edges x))) (Vertices g)))"

section \<open>Reachability walks\<close>

text \<open>
  The body of the inner loop of \<open>findPath\<close>: \<open>None\<close> when a neighbour is the target,
  otherwise the extended visited set and stack. The stack's top is the head of the list.
\<close>

fun path_scan :: "'k \<Rightarrow> 'k list \<Rightarrow> 'k list \<Rightarrow> 'k list \<Rightarrow> ('k list \<times> 'k list) option" where
  "path_scan goal [] vis st = Some (vis, st)"
| "path_scan goal (n # ns) vis st =
     (if n = goal then None
      else if n \<in> set vis then path_scan goal ns vis st
      else path_scan goal ns (n # vis) (n # st))"

definition graph_nodes :: "('k, 'a) dag \<Rightarrow> 'k set" where
  "graph_nodes g = set (mkeys (Vertices g)) \<union> (\<Union>(k, x) \<in> set (Vertices g). set (mkeys (Edges x)))"

lemma finite_graph_nodes [simp]: "finite (graph_nodes g)"
  by (auto simp: graph_nodes_def)

lemma succs_graph_nodes: "succs g n = Some ns \<Longrightarrow> n \<in> graph_nodes g \<and> set ns \<subseteq> graph_nodes g"
  by (force simp: succs_def graph_nodes_def dest: map_of_SomeD)

lemma path_scan_Some:
  assumes "path_scan goal ns vis st = Some (vis', st')"
  shows "\<exists>new. vis' = new @ vis \<and> st' = new @ st \<and> distinct new \<and> set new \<inter> set vis = {}
           \<and> set new \<subseteq> set ns \<and> set ns \<subseteq> set vis' \<and> goal \<notin> set ns"
  using assms
proof (induction goal ns vis st rule: path_scan.induct)
  case (2 goal n ns vis st)
  show ?case
  proof (cases "n \<in> set vis")
    case True
    with 2 show ?thesis by (auto split: if_splits)
  next
    case False
    with 2 obtain new where "vis' = new @ n # vis" "st' = new @ n # st" "distinct new"
      "set new \<inter> set (n # vis) = {}" "set new \<subseteq> set ns" "set ns \<subseteq> set vis'" "goal \<notin> set ns"
      by (auto split: if_splits)
    with False 2 show ?thesis
      by (intro exI [of _ "new @ [n]"]) (auto split: if_splits)
  qed
qed simp

lemma path_scan_None: "path_scan goal ns vis st = None \<longleftrightarrow> goal \<in> set ns"
  by (induction goal ns vis st rule: path_scan.induct) auto

lemma visited_card_less:
  assumes "set new \<subseteq> graph_nodes g" and "set new \<inter> set vis = {}" and "new \<noteq> []"
  shows "card (graph_nodes g - set (new @ vis)) < card (graph_nodes g - set vis)"
proof (rule psubset_card_mono)
  obtain x where "x \<in> set new" using assms(3) by (cases new) auto
  then show "graph_nodes g - set (new @ vis) \<subset> graph_nodes g - set vis"
    using assms(1,2) by auto
qed simp

function path_loop :: "('k, 'a) dag \<Rightarrow> 'k \<Rightarrow> 'k list \<Rightarrow> 'k list \<Rightarrow> ('k dag_error, bool) outcome" where
  "path_loop g goal vis [] = Ok False"
| "path_loop g goal vis (n # st) =
     (case succs g n of
        None \<Rightarrow> Panic
      | Some ns \<Rightarrow>
          (case path_scan goal ns vis st of
             None \<Rightarrow> Ok True
           | Some (vis', st') \<Rightarrow> path_loop g goal vis' st'))"
  by pat_completeness auto
termination
proof (relation "measures [\<lambda>(g, goal, vis, st). card (graph_nodes g - set vis),
                           \<lambda>(g, goal, vis, st). length st]", goal_cases)
  case (2 g goal vis n st ns p vis' st')
  then obtain new where
    new: "vis' = new @ vis" "st' = new @ st" "set new \<inter> set vis = {}" "set new \<subseteq> set ns"
    using path_scan_Some [of goal ns vis st vis' st'] by auto
  show ?case
  proof (cases "new = []")
    case False
    then show ?thesis
      using new visited_card_less [of new g vis] succs_graph_nodes [OF 2(1)] by auto
  qed (use new in auto)
qed simp

definition find_path_reaches :: "('k, 'a) dag \<Rightarrow> 'k \<Rightarrow> 'k \<Rightarrow> ('k dag_error, bool) outcome" where
  "find_path_reaches g start goal = path_loop g goal [start] [start]"

text \<open>The deterministic variant keeps the parent of every node it discovers.\<close>

fun sorted_scan :: "'k \<Rightarrow> 'k \<Rightarrow> 'k list \<Rightarrow> 'k list \<Rightarrow> ('k, 'k) gomap \<Rightarrow> 'k list
    \<Rightarrow> ('k list \<times> ('k, 'k) gomap \<times> 'k list) option" where
  "sorted_scan node goal [] vis par st = Some (vis, par, st)"
| "sorted_scan node goal (n # ns) vis par st =
     (if n = goal then None
      else if n \<in> set vis then sorted_scan node goal ns vis par st
      else sorted_scan node goal ns (n # vis) (mput n node par) (n # st))"

text \<open>
  The parent walk \<open>for cur := node; ; cur = parent[cur]\<close>, which collects the path in reverse
  and reverses it at the end. The fuel bounds the number of steps; the number of recorded
  parents plus one is enough (\<open>walk_back_enough\<close>).
\<close>

fun walk_back :: "nat \<Rightarrow> ('k, 'k) gomap \<Rightarrow> 'k \<Rightarrow> 'k \<Rightarrow> 'k list \<Rightarrow> 'k list option" where
  "walk_back 0 par start cur acc = None"
| "walk_back (Suc f) par start cur acc =
     (if cur = start then Some (cur # acc)
      else (case map_of par cur of
              None \<Rightarrow> None
            | Some c \<Rightarrow> walk_back f par start c (cur # acc)))"

lemma sorted_scan_path_scan:
  "path_scan goal ns vis st = map_option (\<lambda>(v, p, s). (v, s)) (sorted_scan node goal ns vis par st)"
  by (induction node goal ns vis par st rule: sorted_scan.induct) auto

function sorted_loop :: "('k::linorder, 'a) dag \<Rightarrow> 'k \<Rightarrow> 'k \<Rightarrow> 'k list \<Rightarrow> ('k, 'k) gomap \<Rightarrow> 'k list
    \<Rightarrow> ('k dag_error, 'k list option) outcome" where
  "sorted_loop g start goal vis par [] = Ok None"
| "sorted_loop g start goal vis par (n # st) =
     (case succs g n of
        None \<Rightarrow> Panic
      | Some ns \<Rightarrow>
          (case sorted_scan n goal (sort ns) vis par st of
             None \<Rightarrow> (case walk_back (Suc (length par)) par start n [goal] of
                        None \<Rightarrow> Panic
                      | Some path \<Rightarrow> Ok (Some path))
           | Some (vis', par', st') \<Rightarrow> sorted_loop g start goal vis' par' st'))"
  by pat_completeness auto
termination
proof (relation "measures [\<lambda>(g, start, goal, vis, par, st). card (graph_nodes g - set vis),
                           \<lambda>(g, start, goal, vis, par, st). length st]", goal_cases)
  case (2 g start goal vis par n st ns p vis' q par' st')
  then have "sorted_scan n goal (sort ns) vis par st = Some (vis', par', st')"
    by simp
  then have "path_scan goal (sort ns) vis st = Some (vis', st')"
    by (subst sorted_scan_path_scan [where node = n and par = par]) simp
  then obtain new where
    new: "vis' = new @ vis" "st' = new @ st" "set new \<inter> set vis = {}" "set new \<subseteq> set ns"
    using path_scan_Some [of goal "sort ns" vis st vis' st'] by auto
  show ?case
  proof (cases "new = []")
    case False
    then show ?thesis
      using new visited_card_less [of new g vis] succs_graph_nodes [OF 2(1)] by auto
  qed (use new in auto)
qed simp

definition find_sorted_path :: "('k::linorder, 'a) dag \<Rightarrow> 'k \<Rightarrow> 'k \<Rightarrow> ('k dag_error, 'k list option) outcome" where
  "find_sorted_path g start goal = sorted_loop g start goal [start] [] [start]"

definition find_path :: "('k::linorder, 'a) dag \<Rightarrow> 'k \<Rightarrow> 'k \<Rightarrow> ('k dag_error, 'k list option) outcome" where
  "find_path g start goal =
     (case path_loop g goal [start] [start] of
        Ok True \<Rightarrow> find_sorted_path g start goal
      | Ok False \<Rightarrow> Ok None
      | Fail e \<Rightarrow> Fail e
      | Panic \<Rightarrow> Panic)"

section \<open>Adding an edge\<close>

definition copy_edge_attributes ::
    "'k \<Rightarrow> 'k \<Rightarrow> (string, 'a) gomap list \<Rightarrow> ('k, 'a) dag \<Rightarrow> ('k, 'a) dag" where
  "copy_edge_attributes u w attributes g =
     upd_vertex u (\<lambda>x. x\<lparr>Edges := mupd w (\<lambda>m. foldl mcopy m attributes) (Edges x)\<rparr>) g"

definition add_edge :: "('k::linorder, 'a) dag \<Rightarrow> 'k \<Rightarrow> 'k \<Rightarrow> (string, 'a) gomap list \<Rightarrow> ('k, 'a) dag_step" where
  "add_edge g u w attributes =
     (case get_vertex g u of
        None \<Rightarrow> (g, Fail (NodeMissing u))
      | Some x \<Rightarrow>
          (case get_vertex g w of
             None \<Rightarrow> (g, Fail (NodeMissing w))
           | Some _ \<Rightarrow>
               if u = w then (g, Fail SelfReference)
               else if map_of (Edges x) w \<noteq> None then (copy_edge_attributes u w attributes g, Ok ())
               else
                 let g' = link u w g in
                 (case find_path g' w u of
                    Ok None \<Rightarrow> (copy_edge_attributes u w attributes g', Ok ())
                  | Ok (Some path) \<Rightarrow> (unlink u w g', Fail (WouldCycle u w (u # path)))
                  | Fail e \<Rightarrow> (g', Fail e)
                  | Panic \<Rightarrow> (g', Panic))))"

section \<open>Cycle detection\<close>

text \<open>
  The recursive closure \<open>dfs\<close> of \<open>hasCycle\<close>, as a function on the list of neighbours still to
  be tried. The state is the visited set, the recursion stack and the current path.
\<close>

type_synonym 'k cycle_state = "'k list \<times> 'k list \<times> 'k list"

function cycle_nbrs :: "('k::linorder, 'a) dag \<Rightarrow> 'k list \<Rightarrow> 'k cycle_state
    \<Rightarrow> ('k dag_error, bool \<times> 'k cycle_state) outcome" where
  "cycle_nbrs g [] s = Ok (False, s)"
| "cycle_nbrs g (n # ns) (vis, rec, path) =
     (if n \<notin> set vis then
        (case succs g n of
           None \<Rightarrow> Panic
         | Some es \<Rightarrow>
             (case cycle_nbrs g (sort es) (n # vis, n # rec, path @ [n]) of
                Ok (False, (vis', rec', path')) \<Rightarrow> cycle_nbrs g ns (vis', removeAll n rec', butlast path')
              | r \<Rightarrow> r))
      else if n \<in> set rec then Ok (True, (vis, rec, path @ [n]))
      else cycle_nbrs g ns (vis, rec, path))"
  by pat_completeness auto

lemma cycle_nbrs_visited:
  "cycle_nbrs_dom (g, ns, s) \<Longrightarrow> cycle_nbrs g ns s = Ok (False, s') \<Longrightarrow> set (fst s) \<subseteq> set (fst s')"
proof (induction g ns s arbitrary: s' rule: cycle_nbrs.pinduct)
  case (2 g n ns vis rec path)
  note step = cycle_nbrs.psimps(2) [OF "2.hyps"]
  show ?case
  proof (cases "n \<in> set vis")
    case True
    then show ?thesis
      using "2.IH"(3) "2.prems" by (auto simp: step split: if_splits)
  next
    case False
    with "2.prems" obtain es v r q where es: "succs g n = Some es"
      and inner: "cycle_nbrs g (sort es) (n # vis, n # rec, path @ [n]) = Ok (False, (v, r, q))"
      and outer: "cycle_nbrs g ns (v, removeAll n r, butlast q) = Ok (False, s')"
      by (auto simp: step split: option.splits outcome.splits prod.splits bool.splits)
    have "set (n # vis) \<subseteq> set v"
      using "2.IH"(1) [OF False es inner] by simp
    moreover have "set v \<subseteq> set (fst s')"
      using "2.IH"(2) [OF False es inner refl _ refl refl outer] by simp
    ultimately show ?thesis by auto
  qed
qed (simp add: cycle_nbrs.psimps)

termination cycle_nbrs
proof (relation "measures [\<lambda>(g, ns, s). card (graph_nodes g - set (fst s)), \<lambda>(g, ns, s). length ns]", goal_cases)
  case (2 g n ns vis rec path es)
  then have "card (graph_nodes g - set ([n] @ vis)) < card (graph_nodes g - set vis)"
    using succs_graph_nodes [OF 2(2)] by (intro visited_card_less) auto
  then show ?case by simp
next
  case (3 g n ns vis rec path es p b st vis' q rec' path')
  then have "set vis \<subseteq> set vis'"
    using cycle_nbrs_visited [of g "sort es" "(n # vis, n # rec, path @ [n])" st] by auto
  then have "card (graph_nodes g - set vis') \<le> card (graph_nodes g - set vis)"
    by (intro card_mono) auto
  then show ?case by auto
qed auto

definition cycle_dfs :: "('k::linorder, 'a) dag \<Rightarrow> 'k \<Rightarrow> 'k cycle_state
    \<Rightarrow> ('k dag_error, bool \<times> 'k cycle_state) outcome" where
  "cycle_dfs g n s = (case s of (vis, rec, path) \<Rightarrow>
     (case succs g n of
        None \<Rightarrow> Panic
      | Some es \<Rightarrow>
          (case cycle_nbrs g (sort es) (n # vis, n # rec, path @ [n]) of
             Ok (False, (vis', rec', path')) \<Rightarrow> Ok (False, (vis', removeAll n rec', butlast path'))
           | r \<Rightarrow> r)))"

text \<open>Trimming the path to the first occurrence of its last node; the index defaults to 0.\<close>

fun first_index :: "'k \<Rightarrow> 'k list \<Rightarrow> nat option" where
  "first_index x [] = None"
| "first_index x (y # ys) = (if y = x then Some 0 else map_option Suc (first_index x ys))"

definition trim_cycle :: "'k list \<Rightarrow> 'k list" where
  "trim_cycle p = drop (case first_index (last p) (butlast p) of None \<Rightarrow> 0 | Some i \<Rightarrow> i) p"

fun cycle_roots :: "('k::linorder, 'a) dag \<Rightarrow> 'k list \<Rightarrow> 'k list \<Rightarrow> 'k list
    \<Rightarrow> ('k dag_error, 'k list option) outcome" where
  "cycle_roots g [] vis rec = Ok None"
| "cycle_roots g (n # ns) vis rec =
     (if n \<in> set vis then cycle_roots g ns vis rec
      else (case cycle_dfs g n (vis, rec, []) of
              Ok (False, (vis', rec', _)) \<Rightarrow> cycle_roots g ns vis' rec'
            | Ok (True, (_, _, path)) \<Rightarrow> Ok (Some (trim_cycle path))
            | Fail e \<Rightarrow> Fail e
            | Panic \<Rightarrow> Panic))"

definition has_cycle :: "('k::linorder, 'a) dag \<Rightarrow> ('k dag_error, 'k list option) outcome" where
  "has_cycle g = cycle_roots g (sort (mkeys (Vertices g))) [] []"

section \<open>Topological sort\<close>

function topo_nbrs :: "('k::linorder, 'a) dag \<Rightarrow> 'k list \<Rightarrow> 'k list \<times> 'k list
    \<Rightarrow> ('k dag_error, 'k list \<times> 'k list) outcome" where
  "topo_nbrs g [] s = Ok s"
| "topo_nbrs g (n # ns) (vis, ord) =
     (if n \<in> set vis then topo_nbrs g ns (vis, ord)
      else (case succs g n of
              None \<Rightarrow> Panic
            | Some es \<Rightarrow>
                (case topo_nbrs g (sort es) (n # vis, ord) of
                   Ok (vis', ord') \<Rightarrow> topo_nbrs g ns (vis', ord' @ [n])
                 | r \<Rightarrow> r)))"
  by pat_completeness auto

lemma topo_nbrs_visited:
  "topo_nbrs_dom (g, ns, s) \<Longrightarrow> topo_nbrs g ns s = Ok s' \<Longrightarrow> set (fst s) \<subseteq> set (fst s')"
proof (induction g ns s arbitrary: s' rule: topo_nbrs.pinduct)
  case (2 g n ns vis ord)
  note step = topo_nbrs.psimps(2) [OF "2.hyps"]
  show ?case
  proof (cases "n \<in> set vis")
    case True
    then show ?thesis
      using "2.IH"(1) "2.prems" by (auto simp: step)
  next
    case False
    with "2.prems" obtain es v q where es: "succs g n = Some es"
      and inner: "topo_nbrs g (sort es) (n # vis, ord) = Ok (v, q)"
      and outer: "topo_nbrs g ns (v, q @ [n]) = Ok s'"
      by (auto simp: step split: option.splits outcome.splits)
    have "set (n # vis) \<subseteq> set v"
      using "2.IH"(2) [OF False es inner] by simp
    moreover have "set v \<subseteq> set (fst s')"
      using "2.IH"(3) [OF False es inner refl outer] by simp
    ultimately show ?thesis by auto
  qed
qed (simp add: topo_nbrs.psimps)

termination topo_nbrs
proof (relation "measures [\<lambda>(g, ns, s). card (graph_nodes g - set (fst s)), \<lambda>(g, ns, s). length ns]", goal_cases)
  case (3 g n ns vis ord es)
  then have "card (graph_nodes g - set ([n] @ vis)) < card (graph_nodes g - set vis)"
    using succs_graph_nodes [OF 3(2)] by (intro visited_card_less) auto
  then show ?case by simp
next
  case (4 g n ns vis ord es p vis' ord')
  then have "set vis \<subseteq> set vis'"
    using topo_nbrs_visited [of g "sort es" "(n # vis, ord)" p] by auto
  then have "card (graph_nodes g - set vis') \<le> card (graph_nodes g - set vis)"
    by (intro card_mono) auto
  then show ?case by auto
qed auto

definition topological_sort :: "('k::linorder, 'a) dag \<Rightarrow> ('k dag_error, 'k list) outcome" where
  "topological_sort g =
     (case has_cycle g of
        Ok (Some nodes) \<Rightarrow> Fail (CycleFound nodes)
      | Ok None \<Rightarrow>
          (case topo_nbrs g (get_vertices g) ([], []) of
             Ok (_, ord) \<Rightarrow> Ok ord
           | Fail e \<Rightarrow> Fail e
           | Panic \<Rightarrow> Panic)
      | Fail e \<Rightarrow> Fail e
      | Panic \<Rightarrow> Panic)"

section \<open>Reversal\<close>

fun add_vertices :: "('k, 'a) dag \<Rightarrow> ('k, 'a) vertex list \<Rightarrow> ('k, 'a) dag_step" where
  "add_vertices r [] = (r, Ok ())"
| "add_vertices r (x # xs) =
     (case add_vertex r (ID x) [Attributes x] of
        (r', Ok _) \<Rightarrow> add_vertices r' xs
      | (r', e) \<Rightarrow> (r', e))"

fun add_edges :: "('k::linorder, 'a) dag \<Rightarrow> ('k \<times> 'k \<times> (string, 'a) gomap) list \<Rightarrow> ('k, 'a) dag_step" where
  "add_edges r [] = (r, Ok ())"
| "add_edges r ((u, w, attributes) # es) =
     (case add_edge r u w [attributes] of
        (r', Ok _) \<Rightarrow> add_edges r' es
      | (r', e) \<Rightarrow> (r', e))"

text \<open>The two nested loops of \<open>Reverse\<close> visit these (child, parent, attributes) triples in order.\<close>

definition reversed_edges :: "('k, 'a) dag \<Rightarrow> ('k \<times> 'k \<times> (string, 'a) gomap) list" where
  "reversed_edges g =
     concat (map (\<lambda>(_, x). map (\<lambda>(c, attributes). (c, ID x, attributes)) (Edges x)) (Vertices g))"

definition reverse_dag :: "('k::linorder, 'a) dag \<Rightarrow> ('k dag_error, ('k, 'a) dag) outcome" where
  "reverse_dag g =
     (case add_vertices new_dag (map snd (Vertices g)) of
        (r, Ok _) \<Rightarrow>
          (case add_edges r (reversed_edges g) of
             (r', Ok _) \<Rightarrow> Ok r'
           | (_, Fail e) \<Rightarrow> Fail e
           | (_, Panic) \<Rightarrow> Panic)
      | (_, Fail e) \<Rightarrow> Fail e
      | (_, Panic) \<Rightarrow> Panic)"


end
