(* ===== verification/Dag_Correctness.thy ===== *)
theory Dag_Correctness
  imports Dag
begin

text \<open>
  What the graph of \<open>Dag\<close> guarantees: reachability walks decide reachability and report real
  paths, \<open>add_edge\<close> keeps the graph acyclic with exact degree counters, cycle detection is
  sound and complete, and the topological order lists every vertex after its successors.
\<close>

section \<open>The edge relation and the invariant\<close>

definition edge_rel :: "('k, 'a) dag \<Rightarrow> ('k \<times> 'k) set" where
  "edge_rel g = {(u, w). \<exists>ns. succs g u = Some ns \<and> w \<in> set ns}"

definition closed_dag :: "('k, 'a) dag \<Rightarrow> bool" where
  "closed_dag g \<longleftrightarrow> (\<forall>(k, x) \<in> set (Vertices g). \<forall>w \<in> set (mkeys (Edges x)). w \<in> set (mkeys (Vertices g)))"

definition in_edges :: "('k, 'a) dag \<Rightarrow> 'k \<Rightarrow> ('k, ('k, 'a) vertex) gomap" where
  "in_edges g k = filter (\<lambda>(u, x). k \<in> set (mkeys (Edges x))) (Vertices g)"

definition vertex_ok :: "('k, 'a) dag \<Rightarrow> 'k \<Rightarrow> ('k, 'a) vertex \<Rightarrow> bool" where
  "vertex_ok g k x \<longleftrightarrow> ID x = k \<and> mok (Edges x)
     \<and> InDegree x = int (length (in_edges g k)) \<and> OutDegree x = int (length (Edges x))"

definition wf_dag :: "('k, 'a) dag \<Rightarrow> bool" where
  "wf_dag g \<longleftrightarrow> mok (Vertices g) \<and> (\<forall>(k, x) \<in> set (Vertices g). vertex_ok g k x)
     \<and> closed_dag g \<and> acyclic (edge_rel g)"

lemma edge_relI: "succs g u = Some ns \<Longrightarrow> w \<in> set ns \<Longrightarrow> (u, w) \<in> edge_rel g"
  by (auto simp: edge_rel_def)

lemma edge_rel_iff:
  "(u, w) \<in> edge_rel g \<longleftrightarrow> (\<exists>x e. get_vertex g u = Some x \<and> map_of (Edges x) w = Some e)"
  by (force simp: edge_rel_def succs_def mem_mkeys_iff simp del: set_map)

lemma succs_edge_rel: "succs g u = Some ns \<Longrightarrow> set ns = edge_rel g `` {u}"
  by (auto simp: edge_rel_def)

lemma succs_None_iff: "succs g u = None \<longleftrightarrow> get_vertex g u = None"
  by (simp add: succs_def)

lemma closed_dag_edge: "closed_dag g \<Longrightarrow> (u, w) \<in> edge_rel g \<Longrightarrow> \<exists>ns. succs g w = Some ns"
  by (fastforce simp: closed_dag_def edge_rel_iff succs_def mem_mkeys_iff simp del: set_map dest: map_of_SomeD)

lemma closed_dag_succs:
  "closed_dag g \<Longrightarrow> succs g n = Some ns \<Longrightarrow> w \<in> set ns \<Longrightarrow> \<exists>ms. succs g w = Some ms"
  by (rule closed_dag_edge [OF _ edge_relI])

section \<open>Reachability\<close>

text \<open>
  Invariant of both stack walks: nodes off the stack are explored, that is their successors
  are visited and none of them is the target.
\<close>

definition walk_inv :: "('k \<times> 'k) set \<Rightarrow> 'k \<Rightarrow> 'k list \<Rightarrow> 'k list \<Rightarrow> bool" where
  "walk_inv E goal vis st \<longleftrightarrow> set st \<subseteq> set vis
     \<and> (\<forall>n \<in> set vis - set st. \<forall>m. (n, m) \<in> E \<longrightarrow> m \<in> set vis \<and> m \<noteq> goal)"

lemma walk_inv_step:
  assumes "walk_inv (edge_rel g) goal vis (n # st)" and "succs g n = Some ns"
    and "path_scan goal ns' vis st = Some (vis', st')" and "set ns' = set ns"
  shows "walk_inv (edge_rel g) goal vis' st'"
proof -
  obtain new where new: "vis' = new @ vis" "st' = new @ st" "set ns \<subseteq> set vis'" "goal \<notin> set ns"
    using path_scan_Some [OF assms(3)] assms(4) by auto
  have "m \<in> set vis' \<and> m \<noteq> goal" if x: "x \<in> set vis' - set st'" and m: "(x, m) \<in> edge_rel g" for x m
  proof (cases "x = n")
    case True
    with m have "m \<in> set ns" using succs_edge_rel [OF assms(2)] by simp
    with new show ?thesis by blast
  next
    case False
    with x new have "x \<in> set vis - set (n # st)" by auto
    with m assms(1) new(1) show ?thesis by (simp add: walk_inv_def)
  qed
  moreover have "set st' \<subseteq> set vis'"
    using assms(1) new(1,2) by (auto simp: walk_inv_def)
  ultimately show ?thesis by (simp add: walk_inv_def)
qed

lemma walk_inv_done:
  assumes "walk_inv E goal vis []" and "start \<in> set vis"
  shows "(start, goal) \<notin> E\<^sup>+"
proof
  assume "(start, goal) \<in> E\<^sup>+"
  then obtain b where b: "(start, b) \<in> E\<^sup>*" "(b, goal) \<in> E"
    by (auto simp: trancl_last_step)
  have "b \<in> set vis"
    using b(1) assms(2) by (rule rtrancl_closed_subset) (use assms(1) in \<open>auto simp: walk_inv_def\<close>)
  with b(2) assms(1) show False by (auto simp: walk_inv_def)
qed

lemma walk_inv_start: "walk_inv E goal [start] [start]"
  by (simp add: walk_inv_def)

lemma path_loop_False:
  "path_loop g goal vis st = Ok False \<Longrightarrow> walk_inv (edge_rel g) goal vis st \<Longrightarrow> start \<in> set vis
    \<Longrightarrow> (start, goal) \<notin> (edge_rel g)\<^sup>+"
proof (induction g goal vis st rule: path_loop.induct)
  case (1 g goal vis)
  then show ?case by (intro walk_inv_done)
next
  case (2 g goal vis n st)
  from "2.prems"(1) obtain ns vis' st' where ns: "succs g n = Some ns"
    and sc: "path_scan goal ns vis st = Some (vis', st')" and rest: "path_loop g goal vis' st' = Ok False"
    by (auto split: option.splits)
  have "walk_inv (edge_rel g) goal vis' st'"
    by (rule walk_inv_step [OF "2.prems"(2) ns sc refl])
  moreover have "start \<in> set vis'"
    using path_scan_Some [OF sc] "2.prems"(3) by auto
  ultimately show ?case
    using "2.IH" [OF ns sc refl rest] by simp
qed

lemma path_scan_reach:
  assumes "\<forall>x \<in> set (n # st). (start, x) \<in> (edge_rel g)\<^sup>*" and "succs g n = Some ns"
    and "path_scan goal ns' vis st = Some (vis', st')" and "set ns' = set ns"
  shows "\<forall>x \<in> set st'. (start, x) \<in> (edge_rel g)\<^sup>*"
proof -
  obtain new where "st' = new @ st" "set new \<subseteq> set ns"
    using path_scan_Some [OF assms(3)] assms(4) by auto
  then show ?thesis
    using assms(1) succs_edge_rel [OF assms(2)] by (auto intro: rtrancl_into_rtrancl)
qed

lemma path_loop_True:
  "path_loop g goal vis st = Ok True \<Longrightarrow> \<forall>x \<in> set st. (start, x) \<in> (edge_rel g)\<^sup>*
    \<Longrightarrow> (start, goal) \<in> (edge_rel g)\<^sup>+"
proof (induction g goal vis st rule: path_loop.induct)
  case (2 g goal vis n st)
  from "2.prems"(1) obtain ns where ns: "succs g n = Some ns"
    by (auto split: option.splits)
  show ?case
  proof (cases "path_scan goal ns vis st")
    case None
    then have "(n, goal) \<in> edge_rel g"
      using succs_edge_rel [OF ns] by (auto simp: path_scan_None)
    with "2.prems"(2) show ?thesis by (auto intro: rtrancl_into_trancl1)
  next
    case (Some p)
    obtain vis' st' where p: "p = (vis', st')" by (cases p)
    with Some have sc: "path_scan goal ns vis st = Some (vis', st')" by simp
    have "\<forall>x \<in> set st'. (start, x) \<in> (edge_rel g)\<^sup>*"
      by (rule path_scan_reach [OF "2.prems"(2) ns sc refl])
    moreover have "path_loop g goal vis' st' = Ok True"
      using "2.prems"(1) by (simp add: ns sc)
    ultimately show ?thesis
      using "2.IH" [OF ns sc refl] by blast
  qed
qed simp

lemma path_scan_vertices:
  assumes "closed_dag g" and "\<forall>x \<in> set (n # st). get_vertex g x \<noteq> None" and "succs g n = Some ns"
    and "path_scan goal ns' vis st = Some (vis', st')" and "set ns' = set ns"
  shows "\<forall>x \<in> set st'. get_vertex g x \<noteq> None"
proof -
  obtain new where "st' = new @ st" "set new \<subseteq> set ns"
    using path_scan_Some [OF assms(4)] assms(5) by auto
  moreover have "\<forall>x \<in> set ns. get_vertex g x \<noteq> None"
    using closed_dag_succs [OF assms(1,3)] by (fastforce simp: succs_def)
  ultimately show ?thesis
    using assms(2) by auto
qed

lemma path_loop_total:
  "closed_dag g \<Longrightarrow> \<forall>x \<in> set st. get_vertex g x \<noteq> None \<Longrightarrow> is_ok (path_loop g goal vis st)"
proof (induction g goal vis st rule: path_loop.induct)
  case (2 g goal vis n st)
  from "2.prems"(2) obtain ns where ns: "succs g n = Some ns"
    by (auto simp: succs_def)
  show ?case
  proof (cases "path_scan goal ns vis st")
    case (Some p)
    obtain vis' st' where p: "p = (vis', st')" by (cases p)
    with Some have sc: "path_scan goal ns vis st = Some (vis', st')" by simp
    show ?thesis
      using "2.IH" [OF ns sc refl "2.prems"(1)] path_scan_vertices [OF "2.prems" ns sc refl]
      by (simp add: ns sc)
  qed (auto simp: ns)
qed simp

subsection \<open>The parent walk\<close>

inductive par_ok :: "('k \<times> 'k) set \<Rightarrow> 'k \<Rightarrow> ('k, 'k) gomap \<Rightarrow> bool" for E start where
  par_Nil: "par_ok E start []"
| par_snoc: "par_ok E start par \<Longrightarrow> c \<notin> insert start (set (mkeys par)) \<Longrightarrow> (p, c) \<in> E
     \<Longrightarrow> p \<in> insert start (set (mkeys par)) \<Longrightarrow> par_ok E start (par @ [(c, p)])"

abbreviation chain :: "('k \<times> 'k) set \<Rightarrow> 'k list \<Rightarrow> bool" where
  "chain E p \<equiv> successively (\<lambda>u w. (u, w) \<in> E) p"

lemma chain_trancl: "chain E (a # b # q) \<Longrightarrow> (a, last (b # q)) \<in> E\<^sup>+"
  by (induction q arbitrary: a b) (auto intro: trancl_into_trancl2)

lemma walk_back_fuel:
  "walk_back f par start cur acc = Some r \<Longrightarrow> f \<le> f' \<Longrightarrow> walk_back f' (par @ par') start cur acc = Some r"
proof (induction f par start cur acc arbitrary: f' rule: walk_back.induct)
  case (2 f par start cur acc)
  then obtain f'' where f': "f' = Suc f''" by (cases f') auto
  from 2 show ?case by (auto simp: f' split: if_splits option.splits)
qed simp

lemma walk_back_enough:
  assumes "par_ok E start par" and "cur \<in> insert start (set (mkeys par))"
  shows "\<exists>q. walk_back (Suc (length par)) par start cur acc = Some (q @ acc)
           \<and> q \<noteq> [] \<and> hd q = start \<and> last q = cur \<and> chain E q"
  using assms
proof (induction arbitrary: cur acc rule: par_ok.induct)
  case par_Nil
  then show ?case by (intro exI [of _ "[start]"]) simp
next
  case (par_snoc par c p)
  let ?par = "par @ [(c, p)]"
  show ?case
  proof (cases "cur = c")
    case True
    obtain q where q: "walk_back (Suc (length par)) par start p (c # acc) = Some (q @ c # acc)"
      "q \<noteq> []" "hd q = start" "last q = p" "chain E q"
      using par_snoc.IH [OF par_snoc.hyps(4)] by blast
    have "map_of ?par c = Some p" and "c \<noteq> start"
      using par_snoc.hyps(2) by (auto simp: map_add_Some_iff map_of_eq_None_iff)
    then have "walk_back (Suc (length ?par)) ?par start c acc = Some ((q @ [c]) @ acc)"
      using walk_back_fuel [OF q(1), of "Suc (length par)" "[(c, p)]"] by simp
    then show ?thesis
      using q par_snoc.hyps(3) True by (intro exI [of _ "q @ [c]"]) (auto simp: successively_append_iff)
  next
    case False
    with par_snoc.prems have "cur \<in> insert start (set (mkeys par))" by auto
    then obtain q where q: "walk_back (Suc (length par)) par start cur acc = Some (q @ acc)"
      "q \<noteq> []" "hd q = start" "last q = cur" "chain E q"
      using par_snoc.IH by blast
    then show ?thesis
      using walk_back_fuel [OF q(1), of "Suc (length ?par)" "[(c, p)]"] by (intro exI [of _ q]) simp
  qed
qed

lemma par_ok_keys: "par_ok E start par \<Longrightarrow> start \<notin> set (mkeys par) \<and> mok par"
  by (induction rule: par_ok.induct) auto

lemma sorted_scan_par:
  "sorted_scan node goal ns vis par st = Some (vis', par', st') \<Longrightarrow> par_ok E start par
    \<Longrightarrow> set vis = insert start (set (mkeys par)) \<Longrightarrow> node \<in> set vis \<Longrightarrow> \<forall>n \<in> set ns. (node, n) \<in> E
    \<Longrightarrow> par_ok E start par' \<and> set vis' = insert start (set (mkeys par'))"
proof (induction node goal ns vis par st rule: sorted_scan.induct)
  case (2 node goal n ns vis par st)
  show ?case
  proof (cases "n \<in> set vis")
    case True
    with 2 show ?thesis by (auto split: if_splits)
  next
    case False
    with "2.prems"(3) have fresh: "n \<notin> insert start (set (mkeys par))" by simp
    then have put: "mput n node par = par @ [(n, node)]"
      by (intro mput_fresh) simp
    have "par_ok E start (mput n node par)"
      unfolding put using "2.prems" fresh by (intro par_snoc) auto
    moreover have "n \<noteq> goal" and "sorted_scan node goal ns (n # vis) (mput n node par) (n # st) = Some (vis', par', st')"
      using "2.prems"(1) False by (auto split: if_splits)
    ultimately show ?thesis
      using "2.IH"(2) [OF _ False] "2.prems" by auto
  qed
qed auto

lemma sorted_loop_spec:
  assumes "closed_dag g"
  shows "par_ok (edge_rel g) start par \<Longrightarrow> set vis = insert start (set (mkeys par))
    \<Longrightarrow> \<forall>x \<in> set st. get_vertex g x \<noteq> None \<Longrightarrow> walk_inv (edge_rel g) goal vis st
    \<Longrightarrow> (case sorted_loop g start goal vis par st of
           Ok None \<Rightarrow> (start, goal) \<notin> (edge_rel g)\<^sup>+
         | Ok (Some p) \<Rightarrow> chain (edge_rel g) p \<and> hd p = start \<and> last p = goal \<and> 2 \<le> length p
         | Fail _ \<Rightarrow> False | Panic \<Rightarrow> False)"
proof (induction g\<equiv>g start goal vis par st rule: sorted_loop.induct)
  case (1 start goal vis par)
  then show ?case using walk_inv_done [of "edge_rel g" goal vis start] by simp
next
  case (2 start goal vis par n st)
  from "2.prems"(3) obtain ns where ns: "succs g n = Some ns"
    by (auto simp: succs_def)
  have nvis: "n \<in> set vis"
    using "2.prems"(4) by (auto simp: walk_inv_def)
  have es: "\<forall>m \<in> set (sort ns). (n, m) \<in> edge_rel g"
    using succs_edge_rel [OF ns] by auto
  show ?case
  proof (cases "sorted_scan n goal (sort ns) vis par st")
    case None
    obtain q where q: "walk_back (Suc (length par)) par start n [goal] = Some (q @ [goal])"
      "q \<noteq> []" "hd q = start" "last q = n" "chain (edge_rel g) q"
      using walk_back_enough [OF "2.prems"(1), of n "[goal]"] nvis "2.prems"(2) by auto
    have "path_scan goal (sort ns) vis st = None"
      using None by (simp add: sorted_scan_path_scan [of goal _ vis st n par])
    then have "(n, goal) \<in> edge_rel g"
      using es by (simp add: path_scan_None)
    then have "chain (edge_rel g) (q @ [goal]) \<and> hd (q @ [goal]) = start \<and> 2 \<le> length (q @ [goal])"
      using q by (cases "length q") (auto simp: successively_append_iff)
    then show ?thesis
      using q(1) by (simp add: ns None del: walk_back.simps)
  next
    case (Some r)
    obtain vis' par' st' where r: "r = (vis', par', st')" by (cases r)
    have sc: "path_scan goal (sort ns) vis st = Some (vis', st')"
      using Some r by (simp add: sorted_scan_path_scan [of goal _ vis st n par])
    have "par_ok (edge_rel g) start par' \<and> set vis' = insert start (set (mkeys par'))"
      using sorted_scan_par [OF Some [unfolded r] "2.prems"(1,2) nvis es] .
    moreover have "\<forall>x \<in> set st'. get_vertex g x \<noteq> None"
      using path_scan_vertices [OF assms "2.prems"(3) ns sc] by simp
    moreover have "walk_inv (edge_rel g) goal vis' st'"
      using walk_inv_step [OF "2.prems"(4) ns sc] by simp
    ultimately show ?thesis
      using "2.hyps" [OF ns Some r [symmetric] refl] by (simp add: ns Some r)
  qed
qed

lemma find_path_spec:
  assumes "closed_dag g" and "get_vertex g start \<noteq> None"
  shows "(\<exists>p. find_path g start goal = Ok (Some p) \<and> (start, goal) \<in> (edge_rel g)\<^sup>+
             \<and> chain (edge_rel g) p \<and> hd p = start \<and> last p = goal \<and> 2 \<le> length p)
       \<or> (find_path g start goal = Ok None \<and> (start, goal) \<notin> (edge_rel g)\<^sup>+)"
proof -
  have start: "\<forall>x \<in> set [start]. get_vertex g x \<noteq> None" using assms(2) by simp
  obtain b where b: "path_loop g goal [start] [start] = Ok b"
    using path_loop_total [OF assms(1) start] by (auto simp: is_ok_iff)
  show ?thesis
  proof (cases b)
    case False
    with b path_loop_False [of g goal "[start]" "[start]" start] show ?thesis
      by (simp add: find_path_def walk_inv_start)
  next
    case True
    with b have reach: "(start, goal) \<in> (edge_rel g)\<^sup>+"
      by (intro path_loop_True [of g goal "[start]" "[start]"]) auto
    have "case find_sorted_path g start goal of
           Ok None \<Rightarrow> (start, goal) \<notin> (edge_rel g)\<^sup>+
         | Ok (Some p) \<Rightarrow> chain (edge_rel g) p \<and> hd p = start \<and> last p = goal \<and> 2 \<le> length p
         | Fail _ \<Rightarrow> False | Panic \<Rightarrow> False"
      unfolding find_sorted_path_def
      by (rule sorted_loop_spec [OF assms(1) par_Nil _ start walk_inv_start]) simp
    with reach b True show ?thesis
      by (auto simp: find_path_def split: outcome.splits option.splits)
  qed
qed


section \<open>Operations and the invariant\<close>

lemma get_vertex_upd [simp]:
  "get_vertex (upd_vertex k f g) k' = (if k' = k then map_option f (get_vertex g k) else get_vertex g k')"
  by (simp add: upd_vertex_def map_of_mupd)

lemma mkeys_upd_vertex [simp]: "mkeys (Vertices (upd_vertex k f g)) = mkeys (Vertices g)"
  by (simp add: upd_vertex_def)

lemma mkeys_link [simp]: "mkeys (Vertices (link u w g)) = mkeys (Vertices g)"
  by (simp add: link_def)

lemma mkeys_unlink [simp]: "mkeys (Vertices (unlink u w g)) = mkeys (Vertices g)"
  by (simp add: unlink_def)

lemma mkeys_copy_edge_attributes [simp]:
  "mkeys (Vertices (copy_edge_attributes u w as g)) = mkeys (Vertices g)"
  by (simp add: copy_edge_attributes_def)

lemma get_vertex_None_iff: "get_vertex g k = None \<longleftrightarrow> k \<notin> set (mkeys (Vertices g))"
  by (simp add: map_of_eq_None_iff)

lemma in_edges_card:
  assumes "mok (Vertices g)"
  shows "length (in_edges g k) = card ((edge_rel g)\<inverse> `` {k})"
proof -
  have "mok (in_edges g k)"
    unfolding in_edges_def using assms by (rule distinct_map_filter)
  then have "length (in_edges g k) = card (fst ` set (in_edges g k))"
    by (metis distinct_card length_map set_map)
  moreover have "fst ` set (in_edges g k) = (edge_rel g)\<inverse> `` {k}"
    using assms by (force simp: in_edges_def edge_rel_iff mem_mkeys_iff simp del: set_map)
  ultimately show ?thesis by simp
qed

lemma closed_dag_iff:
  assumes "mok (Vertices g)"
  shows "closed_dag g \<longleftrightarrow> (\<forall>u w. (u, w) \<in> edge_rel g \<longrightarrow> get_vertex g w \<noteq> None)"
proof
  assume "closed_dag g"
  then show "\<forall>u w. (u, w) \<in> edge_rel g \<longrightarrow> get_vertex g w \<noteq> None"
    using closed_dag_edge [of g] by (fastforce simp: succs_def)
next
  assume R: "\<forall>u w. (u, w) \<in> edge_rel g \<longrightarrow> get_vertex g w \<noteq> None"
  have "w \<in> set (mkeys (Vertices g))" if "(k, x) \<in> set (Vertices g)" "w \<in> set (mkeys (Edges x))" for k x w
  proof -
    have "(k, w) \<in> edge_rel g"
      using that assms by (auto simp: edge_rel_iff mem_mkeys_iff simp del: set_map)
    then show ?thesis using R by (auto simp: mem_mkeys_iff simp del: set_map)
  qed
  then show "closed_dag g" unfolding closed_dag_def by blast
qed

lemma wf_dag_iff:
  "wf_dag g \<longleftrightarrow> mok (Vertices g)
     \<and> (\<forall>k x. get_vertex g k = Some x \<longrightarrow> ID x = k \<and> mok (Edges x)
          \<and> InDegree x = int (card ((edge_rel g)\<inverse> `` {k})) \<and> OutDegree x = int (length (Edges x)))
     \<and> (\<forall>u w. (u, w) \<in> edge_rel g \<longrightarrow> get_vertex g w \<noteq> None)
     \<and> acyclic (edge_rel g)"
proof (cases "mok (Vertices g)")
  case True
  have "closed_dag g \<longleftrightarrow> (\<forall>u w. (u, w) \<in> edge_rel g \<longrightarrow> get_vertex g w \<noteq> None)"
    using True by (rule closed_dag_iff)
  moreover have "(\<forall>(k, x) \<in> set (Vertices g). vertex_ok g k x)
      \<longleftrightarrow> (\<forall>k x. get_vertex g k = Some x \<longrightarrow> vertex_ok g k x)"
    using True by auto
  ultimately show ?thesis
    using True by (simp add: wf_dag_def vertex_ok_def in_edges_card)
qed (simp add: wf_dag_def)

lemma wf_dag_closed: "wf_dag g \<Longrightarrow> closed_dag g"
  by (simp add: wf_dag_def)

lemma edge_rel_link:
  "get_vertex g u = Some x \<Longrightarrow> u \<noteq> w \<Longrightarrow> edge_rel (link u w g) = insert (u, w) (edge_rel g)"
  by (auto simp: edge_rel_iff link_def split: if_splits)

lemma unlink_link:
  assumes "get_vertex g u = Some x" and "map_of (Edges x) w = None" and "u \<noteq> w" and "mok (Vertices g)"
  shows "unlink u w (link u w g) = g"
proof -
  have "mdel w (mput w [] (Edges x)) = Edges x"
    using assms(2) by (simp add: map_of_eq_None_iff mput_fresh mdel_snoc)
  moreover have "b = x" if "(u, b) \<in> set (Vertices g)" for b
    using that assms(1,4) by simp
  ultimately show ?thesis
    using assms(3)
    by (cases g) (auto simp: unlink_def link_def upd_vertex_def mupd_def intro!: map_idI)
qed

lemma get_vertex_link:
  "u \<noteq> w \<Longrightarrow> get_vertex (link u w g) k =
    (if k = u then map_option (\<lambda>x. x\<lparr>Edges := mput w [] (Edges x), OutDegree := OutDegree x + 1\<rparr>) (get_vertex g u)
     else if k = w then map_option (\<lambda>x. x\<lparr>InDegree := InDegree x + 1\<rparr>) (get_vertex g w)
     else get_vertex g k)"
  by (simp add: link_def)

lemma wf_dag_finite_in: "wf_dag g \<Longrightarrow> finite ((edge_rel g)\<inverse> `` {k})"
  by (rule finite_subset [of _ "dom (map_of (Vertices g))"]) (auto simp: edge_rel_iff finite_dom_map_of)

lemma wf_dag_link:
  assumes "wf_dag g" and "get_vertex g u = Some x" and "get_vertex g w \<noteq> None" and "u \<noteq> w"
    and "map_of (Edges x) w = None" and "(w, u) \<notin> (edge_rel g)\<^sup>*"
  shows "wf_dag (link u w g)"
proof -
  have fresh: "(u, w) \<notin> edge_rel g"
    using assms(2,5) by (auto simp: edge_rel_iff)
  have E: "edge_rel (link u w g) = insert (u, w) (edge_rel g)"
    using assms(2,4) by (rule edge_rel_link)
  have inv: "(edge_rel (link u w g))\<inverse> `` {k}
      = (if k = w then insert u ((edge_rel g)\<inverse> `` {k}) else (edge_rel g)\<inverse> `` {k})" for k
    by (auto simp: E)
  have card: "card ((edge_rel (link u w g))\<inverse> `` {k})
      = (if k = w then card ((edge_rel g)\<inverse> `` {k}) + 1 else card ((edge_rel g)\<inverse> `` {k}))" for k
    using fresh wf_dag_finite_in [OF assms(1)] by (simp add: inv)
  have "\<forall>k y. get_vertex (link u w g) k = Some y \<longrightarrow> ID y = k \<and> mok (Edges y)
          \<and> InDegree y = int (card ((edge_rel (link u w g))\<inverse> `` {k})) \<and> OutDegree y = int (length (Edges y))"
    using assms(1,2,4,5)
    by (auto simp: get_vertex_link card wf_dag_iff length_mput map_of_eq_None_iff split: if_splits)
  moreover have "\<forall>v y. (v, y) \<in> edge_rel (link u w g) \<longrightarrow> get_vertex (link u w g) y \<noteq> None"
    using assms(1,3,4) by (auto simp: E wf_dag_iff get_vertex_link simp del: not_None_eq)
  moreover have "acyclic (edge_rel (link u w g))"
    using assms(1,6) by (simp add: E wf_dag_iff)
  moreover have "mok (Vertices (link u w g))"
    using assms(1) by (simp add: wf_dag_iff)
  ultimately show ?thesis by (simp add: wf_dag_iff)
qed

lemma get_vertex_copy_edge_attributes:
  "get_vertex (copy_edge_attributes u w as g) k =
    (if k = u then map_option (\<lambda>x. x\<lparr>Edges := mupd w (\<lambda>m. foldl mcopy m as) (Edges x)\<rparr>) (get_vertex g u)
     else get_vertex g k)"
  by (simp add: copy_edge_attributes_def)

lemma edge_rel_copy_edge_attributes [simp]: "edge_rel (copy_edge_attributes u w as g) = edge_rel g"
  by (auto simp: edge_rel_iff get_vertex_copy_edge_attributes map_of_mupd split: if_splits)

lemma wf_dag_copy_edge_attributes:
  assumes "wf_dag g"
  shows "wf_dag (copy_edge_attributes u w as g)"
proof -
  have "get_vertex (copy_edge_attributes u w as g) k \<noteq> None" if "get_vertex g k \<noteq> None" for k
    using that by (auto simp: get_vertex_copy_edge_attributes)
  with assms show ?thesis
    by (auto simp: wf_dag_iff get_vertex_copy_edge_attributes)
qed

lemma find_path_link:
  assumes "wf_dag g" and "get_vertex g u = Some x" and "get_vertex g w \<noteq> None" and "u \<noteq> w"
  shows "(\<exists>p. find_path (link u w g) w u = Ok (Some p) \<and> (w, u) \<in> (edge_rel g)\<^sup>*
             \<and> chain (insert (u, w) (edge_rel g)) p \<and> hd p = w \<and> last p = u \<and> 2 \<le> length p)
       \<or> (find_path (link u w g) w u = Ok None \<and> (w, u) \<notin> (edge_rel g)\<^sup>*)"
proof -
  let ?E = "edge_rel g"
  have E: "edge_rel (link u w g) = insert (u, w) ?E"
    using assms(2,4) by (rule edge_rel_link)
  have cl: "closed_dag (link u w g)"
  proof -
    have "mok (Vertices (link u w g))"
      using assms(1) by (simp add: wf_dag_iff)
    then show ?thesis
      using assms by (auto simp: closed_dag_iff E wf_dag_iff get_vertex_link simp del: not_None_eq)
  qed
  have iff: "(w, u) \<in> (insert (u, w) ?E)\<^sup>+ \<longleftrightarrow> (w, u) \<in> ?E\<^sup>*"
  proof -
    have "(w, u) \<in> (insert (u, w) ?E)\<^sup>+ \<longleftrightarrow> (w, u) \<in> ?E\<^sup>+ \<or> (w, u) \<in> ?E\<^sup>* \<and> (w, u) \<in> ?E\<^sup>*"
      by (simp add: trancl_insert)
    then show ?thesis by (auto intro: trancl_into_rtrancl)
  qed
  have "get_vertex (link u w g) w \<noteq> None"
    using assms(3,4) by (simp add: get_vertex_link)
  from find_path_spec [OF cl this, of u] show ?thesis
    unfolding E iff by blast
qed

text \<open>Every branch of \<open>AddEdge\<close> on a graph that satisfies the invariant.\<close>

lemma add_edge_cases:
  assumes "wf_dag g"
  obtains (missing_from) "get_vertex g u = None" "add_edge g u w as = (g, Fail (NodeMissing u))"
  | (missing_to) "get_vertex g u \<noteq> None" "get_vertex g w = None" "add_edge g u w as = (g, Fail (NodeMissing w))"
  | (self) "get_vertex g u \<noteq> None" "u = w" "add_edge g u w as = (g, Fail SelfReference)"
  | (present) x where "get_vertex g u = Some x" "get_vertex g w \<noteq> None" "u \<noteq> w" "(u, w) \<in> edge_rel g"
      "add_edge g u w as = (copy_edge_attributes u w as g, Ok ())"
  | (added) x where "get_vertex g u = Some x" "get_vertex g w \<noteq> None" "u \<noteq> w" "map_of (Edges x) w = None"
      "(u, w) \<notin> edge_rel g" "(w, u) \<notin> (edge_rel g)\<^sup>*"
      "add_edge g u w as = (copy_edge_attributes u w as (link u w g), Ok ())"
  | (cycle) p where "get_vertex g u \<noteq> None" "get_vertex g w \<noteq> None" "u \<noteq> w" "(u, w) \<notin> edge_rel g"
      "(w, u) \<in> (edge_rel g)\<^sup>*" "add_edge g u w as = (g, Fail (WouldCycle u w (u # p)))"
      "chain (insert (u, w) (edge_rel g)) (u # p)" "last p = u" "2 \<le> length p"
proof (cases "get_vertex g u")
  case None
  with missing_from show ?thesis by (simp add: add_edge_def)
next
  case u: (Some x)
  show ?thesis
  proof (cases "get_vertex g w")
    case None
    with u missing_to show ?thesis by (simp add: add_edge_def)
  next
    case w: (Some y)
    show ?thesis
    proof (cases "u = w \<or> map_of (Edges x) w \<noteq> None")
      case True
      with u w self present show ?thesis by (auto simp: add_edge_def edge_rel_iff)
    next
      case False
      then have fresh: "(u, w) \<notin> edge_rel g" using u by (auto simp: edge_rel_iff)
      have mok: "mok (Vertices g)" using assms by (simp add: wf_dag_iff)
      consider p where "find_path (link u w g) w u = Ok (Some p)" "(w, u) \<in> (edge_rel g)\<^sup>*"
          "chain (insert (u, w) (edge_rel g)) p" "hd p = w" "last p = u" "2 \<le> length p"
        | "find_path (link u w g) w u = Ok None" "(w, u) \<notin> (edge_rel g)\<^sup>*"
        using find_path_link [OF assms u, of w] w False by auto
      then show ?thesis
      proof cases
        case (1 p)
        then have "add_edge g u w as = (g, Fail (WouldCycle u w (u # p)))"
          using u w False unlink_link [OF u _ _ mok, of w] by (simp add: add_edge_def)
        moreover have "chain (insert (u, w) (edge_rel g)) (u # p)"
          using 1 by (cases p) auto
        ultimately show ?thesis
          using cycle [of p] u w False fresh 1 by simp
      next
        case 2
        then show ?thesis
          using added [of x] u w False fresh by (simp add: add_edge_def)
      qed
    qed
  qed
qed


lemma wf_dag_add_edge: "wf_dag g \<Longrightarrow> wf_dag (fst (add_edge g u w as))"
  by (cases rule: add_edge_cases [of g u w as])
     (auto intro: wf_dag_copy_edge_attributes wf_dag_link)

lemma wf_dag_new [simp]: "wf_dag new_dag"
  by (simp add: wf_dag_def new_dag_def closed_dag_def edge_rel_def succs_def acyclic_def)

lemma get_vertex_add_vertex:
  "get_vertex g k = None \<Longrightarrow> get_vertex (fst (add_vertex g k as)) j =
     (if j = k then Some \<lparr>ID = k, Attributes = foldl mcopy [] as, Edges = [], InDegree = 0, OutDegree = 0\<rparr>
      else get_vertex g j)"
  by (simp add: add_vertex_def)

lemma edge_rel_add_vertex [simp]: "edge_rel (fst (add_vertex g k as)) = edge_rel g"
  by (cases "get_vertex g k") (auto simp: edge_rel_iff add_vertex_def split: if_splits)

lemma wf_dag_add_vertex:
  assumes "wf_dag g"
  shows "wf_dag (fst (add_vertex g k as))"
proof (cases "get_vertex g k")
  case None
  have "(edge_rel g)\<inverse> `` {k} = {}"
  proof -
    have "(v, k) \<notin> edge_rel g" for v
      using None assms unfolding wf_dag_iff by metis
    then show ?thesis by auto
  qed
  then have "\<forall>j x. get_vertex (fst (add_vertex g k as)) j = Some x \<longrightarrow> ID x = j \<and> mok (Edges x)
      \<and> InDegree x = int (card ((edge_rel g)\<inverse> `` {j})) \<and> OutDegree x = int (length (Edges x))"
    using assms by (auto simp: get_vertex_add_vertex [OF None] wf_dag_iff)
  moreover have "mok (Vertices (fst (add_vertex g k as)))"
    using None assms by (simp add: add_vertex_def wf_dag_iff)
  moreover have "\<forall>u w. (u, w) \<in> edge_rel g \<longrightarrow> get_vertex (fst (add_vertex g k as)) w \<noteq> None"
    using assms by (auto simp: get_vertex_add_vertex [OF None] wf_dag_iff simp del: not_None_eq)
  ultimately show ?thesis
    using assms by (simp add: wf_dag_iff)
qed (use assms in \<open>simp add: add_vertex_def\<close>)

lemma get_vertex_unlink:
  "u \<noteq> w \<Longrightarrow> get_vertex (unlink u w g) k =
    (if k = u then map_option (\<lambda>x. x\<lparr>Edges := mdel w (Edges x), OutDegree := OutDegree x - 1\<rparr>) (get_vertex g u)
     else if k = w then map_option (\<lambda>x. x\<lparr>InDegree := InDegree x - 1\<rparr>) (get_vertex g w)
     else get_vertex g k)"
  by (simp add: unlink_def)

lemma edge_rel_unlink: "u \<noteq> w \<Longrightarrow> edge_rel (unlink u w g) = edge_rel g - {(u, w)}"
  by (auto simp: edge_rel_iff get_vertex_unlink split: if_splits)

lemma wf_dag_irrefl: "wf_dag g \<Longrightarrow> (u, u) \<notin> edge_rel g"
  by (auto simp: wf_dag_def acyclic_def)

lemma wf_dag_unlink:
  assumes "wf_dag g" and "get_vertex g u = Some x" and "map_of (Edges x) w = Some e"
  shows "wf_dag (unlink u w g)"
proof -
  have edge: "(u, w) \<in> edge_rel g" using assms(2,3) by (auto simp: edge_rel_iff)
  then have neq: "u \<noteq> w" using wf_dag_irrefl [OF assms(1)] by auto
  have E: "edge_rel (unlink u w g) = edge_rel g - {(u, w)}" using neq by (rule edge_rel_unlink)
  have inv: "(edge_rel (unlink u w g))\<inverse> `` {k}
      = (if k = w then (edge_rel g)\<inverse> `` {k} - {u} else (edge_rel g)\<inverse> `` {k})" for k
    by (auto simp: E)
  have card: "int (card ((edge_rel (unlink u w g))\<inverse> `` {k}))
      = (if k = w then int (card ((edge_rel g)\<inverse> `` {k})) - 1 else int (card ((edge_rel g)\<inverse> `` {k})))" for k
  proof -
    have "0 < card ((edge_rel g)\<inverse> `` {w})"
      using edge wf_dag_finite_in [OF assms(1), of w] by (auto simp: card_gt_0_iff)
    then show ?thesis
      using edge by (auto simp: inv card_Diff_singleton of_nat_diff)
  qed
  have len: "int (length (mdel w (Edges x))) = int (length (Edges x)) - 1"
  proof -
    have "mok (Edges x)" using assms(1,2) by (simp add: wf_dag_iff)
    moreover have "w \<in> set (mkeys (Edges x))"
      using assms(3) by (auto simp: mem_mkeys_iff simp del: set_map)
    moreover have "Suc 0 \<le> length (Edges x)" using assms(3) by (cases "Edges x") auto
    ultimately show ?thesis by (simp add: length_mdel of_nat_diff)
  qed
  have "\<forall>k y. get_vertex (unlink u w g) k = Some y \<longrightarrow> ID y = k \<and> mok (Edges y)
          \<and> InDegree y = int (card ((edge_rel (unlink u w g))\<inverse> `` {k})) \<and> OutDegree y = int (length (Edges y))"
    using assms(1,2) neq len by (auto simp: get_vertex_unlink card wf_dag_iff split: if_splits)
  moreover have "\<forall>v y. (v, y) \<in> edge_rel (unlink u w g) \<longrightarrow> get_vertex (unlink u w g) y \<noteq> None"
    using assms(1) neq by (auto simp: E wf_dag_iff get_vertex_unlink simp del: not_None_eq)
  moreover have "acyclic (edge_rel (unlink u w g))"
    using assms(1) by (auto simp: E wf_dag_iff intro: acyclic_subset)
  moreover have "mok (Vertices (unlink u w g))"
    using assms(1) by (simp add: wf_dag_iff)
  ultimately show ?thesis by (simp add: wf_dag_iff)
qed

lemma wf_dag_delete_edge:
  assumes "wf_dag g"
  shows "wf_dag (fst (delete_edge g u w))"
  using assms wf_dag_unlink [OF assms] by (auto simp: delete_edge_def split: option.splits)


section \<open>Topological order\<close>

text \<open>Every element comes after all its successors.\<close>

definition deps_first :: "('k \<times> 'k) set \<Rightarrow> 'k list \<Rightarrow> bool" where
  "deps_first E ord \<longleftrightarrow> (\<forall>i < length ord. \<forall>m. (ord ! i, m) \<in> E \<longrightarrow> m \<in> set (take i ord))"

lemma deps_first_Nil [simp]: "deps_first E []"
  by (simp add: deps_first_def)

lemma deps_first_snoc:
  "deps_first E (ord @ [n]) \<longleftrightarrow> deps_first E ord \<and> (\<forall>m. (n, m) \<in> E \<longrightarrow> m \<in> set ord)"
  by (auto simp: deps_first_def nth_append less_Suc_eq)

definition topo_inv :: "('k, 'a) dag \<Rightarrow> 'k list \<Rightarrow> 'k list \<Rightarrow> bool" where
  "topo_inv g vis ord \<longleftrightarrow> set ord \<subseteq> set vis \<and> distinct ord \<and> deps_first (edge_rel g) ord
     \<and> (\<forall>n \<in> set ord. get_vertex g n \<noteq> None)"

lemma topo_nbrs_spec:
  assumes "closed_dag g" and "acyclic (edge_rel g)"
  shows "\<forall>n \<in> set ns. get_vertex g n \<noteq> None \<Longrightarrow> topo_inv g (fst s) (snd s)
    \<Longrightarrow> \<forall>x \<in> set (fst s) - set (snd s). \<forall>n \<in> set ns. (x, n) \<in> (edge_rel g)\<^sup>+
    \<Longrightarrow> \<exists>vis' ord'. topo_nbrs g ns s = Ok (vis', ord') \<and> topo_inv g vis' ord'
          \<and> set (snd s) \<subseteq> set ord' \<and> set ns \<subseteq> set ord' \<and> set vis' - set ord' = set (fst s) - set (snd s)"
proof (induction g\<equiv>g ns s rule: topo_nbrs.induct)
  case (2 n ns vis ord)
  show ?case
  proof (cases "n \<in> set vis")
    case True
    have "n \<in> set ord"
    proof (rule ccontr)
      assume "n \<notin> set ord"
      with True "2.prems"(3) have "(n, n) \<in> (edge_rel g)\<^sup>+" by simp
      with assms(2) show False by (auto simp: acyclic_def)
    qed
    with True "2.hyps"(1) "2.prems" show ?thesis by auto
  next
    case False
    from "2.prems"(1) obtain es where es: "succs g n = Some es"
      by (auto simp: succs_def)
    have edge: "(n, e) \<in> edge_rel g" if "e \<in> set es" for e
      using succs_edge_rel [OF es] that by simp
    have "\<forall>e \<in> set (sort es). get_vertex g e \<noteq> None"
      using closed_dag_succs [OF assms(1) es] by (fastforce simp: succs_def)
    moreover have "topo_inv g (n # vis) ord"
      using "2.prems"(2) by (auto simp: topo_inv_def)
    moreover have "\<forall>x \<in> set (n # vis) - set ord. \<forall>e \<in> set (sort es). (x, e) \<in> (edge_rel g)\<^sup>+"
      using "2.prems"(3) by (auto intro: edge trancl_into_trancl)
    ultimately obtain v q where inner: "topo_nbrs g (sort es) (n # vis, ord) = Ok (v, q)"
      and inv: "topo_inv g v q" and sub: "set ord \<subseteq> set q" "set es \<subseteq> set q"
      and grey: "set v - set q = set (n # vis) - set ord"
      using "2.hyps"(2) [OF False es] by auto
    have nq: "n \<notin> set q" "n \<in> set v"
      using grey False "2.prems"(2) by (auto simp: topo_inv_def)
    have "topo_inv g v (q @ [n])"
      using inv nq sub(2) succs_edge_rel [OF es] "2.prems"(1)
      by (auto simp: topo_inv_def deps_first_snoc)
    moreover have grey': "set v - set (q @ [n]) = set vis - set ord"
      using grey False by auto
    ultimately obtain v' q' where "topo_nbrs g ns (v, q @ [n]) = Ok (v', q')" "topo_inv g v' q'"
      "set (q @ [n]) \<subseteq> set q'" "set ns \<subseteq> set q'" "set v' - set q' = set v - set (q @ [n])"
      using "2.hyps"(3) [OF False es inner refl] "2.prems"(1,3) by auto
    then show ?thesis
      using sub grey' by (simp add: False es inner) blast
  qed
next
  case (1 s)
  then show ?case by (cases s) auto
qed

section \<open>Cycle detection\<close>

text \<open>A set of nodes that is closed under edges and lies on no cycle.\<close>

definition explored :: "('k \<times> 'k) set \<Rightarrow> 'k set \<Rightarrow> bool" where
  "explored E F \<longleftrightarrow> E `` F \<subseteq> F \<and> (\<forall>u \<in> F. (u, u) \<notin> E\<^sup>+)"

lemma explored_insert:
  assumes "explored E F" and "E `` {n} \<subseteq> F" and "n \<notin> F"
  shows "explored E (insert n F)"
proof -
  have "(n, n) \<notin> E\<^sup>+"
  proof
    assume "(n, n) \<in> E\<^sup>+"
    then obtain m where m: "(n, m) \<in> E" "(m, n) \<in> E\<^sup>*" by (meson tranclD)
    have "n \<in> F"
    proof (rule rtrancl_closed_subset [OF m(2)])
      show "m \<in> F" using assms(2) m(1) by auto
    qed (use assms(1) in \<open>auto simp: explored_def\<close>)
    with assms(3) show False by simp
  qed
  with assms(1,2) show ?thesis by (auto simp: explored_def)
qed

definition cycle_inv :: "('k \<times> 'k) set \<Rightarrow> 'k cycle_state \<Rightarrow> bool" where
  "cycle_inv E s \<longleftrightarrow> (case s of (vis, rec, path) \<Rightarrow>
     set rec = set path \<and> distinct path \<and> chain E path \<and> set path \<subseteq> set vis
     \<and> explored E (set vis - set path))"

definition closing :: "('k \<times> 'k) set \<Rightarrow> 'k list \<Rightarrow> bool" where
  "closing E p \<longleftrightarrow> chain E p \<and> distinct (butlast p) \<and> last p \<in> set (butlast p)"

lemma cycle_inv_finish:
  assumes "cycle_inv E (vis, rec, path @ [n])" and "E `` {n} \<subseteq> set vis - set (path @ [n])"
  shows "cycle_inv E (vis, removeAll n rec, path)"
proof -
  have F: "set vis - set path = insert n (set vis - set (path @ [n]))" and np: "n \<notin> set path"
    using assms(1) by (auto simp: cycle_inv_def)
  have "explored E (set vis - set path)"
    unfolding F using assms by (intro explored_insert) (simp_all add: cycle_inv_def)
  then show ?thesis
    using assms(1) np by (simp add: cycle_inv_def successively_append_iff)
qed

definition cycle_post :: "('k, 'a) dag \<Rightarrow> 'k list \<Rightarrow> 'k cycle_state
    \<Rightarrow> ('k dag_error, bool \<times> 'k cycle_state) outcome \<Rightarrow> bool" where
  "cycle_post g ns s r \<longleftrightarrow> (case r of
      Ok (False, (vis', rec', path')) \<Rightarrow> cycle_inv (edge_rel g) (vis', rec', path')
         \<and> path' = snd (snd s) \<and> set (fst s) \<subseteq> set vis' \<and> set ns \<subseteq> set vis' - set path'
    | Ok (True, (_, _, path')) \<Rightarrow> closing (edge_rel g) path'
    | Fail _ \<Rightarrow> False | Panic \<Rightarrow> False)"

lemma cycle_inv_enter:
  assumes "cycle_inv E (vis, rec, path)" and "n \<notin> set vis" and "path \<noteq> [] \<longrightarrow> (last path, n) \<in> E"
  shows "cycle_inv E (n # vis, n # rec, path @ [n])"
proof -
  have "set (n # vis) - set (path @ [n]) = set vis - set path"
    using assms(2) by auto
  moreover have "n \<notin> set path"
    using assms(1,2) by (auto simp: cycle_inv_def)
  moreover have "chain E (path @ [n])"
    using assms(1,3) by (cases "path = []") (auto simp: cycle_inv_def successively_append_iff)
  ultimately show ?thesis
    using assms(1) by (auto simp: cycle_inv_def)
qed

lemma cycle_post_simps:
  "cycle_post g ns (vis, rec, path) (Ok (False, (v, r, q))) \<longleftrightarrow> cycle_inv (edge_rel g) (v, r, q)
      \<and> q = path \<and> set vis \<subseteq> set v \<and> set ns \<subseteq> set v - set q"
  "cycle_post g ns (vis, rec, path) (Ok (True, (v, r, q))) \<longleftrightarrow> closing (edge_rel g) q"
  "\<not> cycle_post g ns (vis, rec, path) (Fail e)"
  "\<not> cycle_post g ns (vis, rec, path) Panic"
  by (simp_all add: cycle_post_def)

lemma cycle_result_cases:
  fixes res :: "('k dag_error, bool \<times> 'k cycle_state) outcome"
  obtains (no) v r q where "res = Ok (False, (v, r, q))" | (yes) v r q where "res = Ok (True, (v, r, q))"
  | (fail) e where "res = Fail e" | (panic) "res = Panic"
proof (cases res)
  case (Ok x)
  with no yes show ?thesis by (cases x; cases "fst x") auto
qed (use fail panic in auto)

lemma cycle_post_Cons:
  "n \<in> set vis - set path \<Longrightarrow> cycle_post g ns (vis, rec, path) r \<Longrightarrow> cycle_post g (n # ns) (vis, rec, path) r"
  by (cases r rule: cycle_result_cases) (auto simp: cycle_post_simps)

lemma cycle_post_mono:
  "set vis \<subseteq> set vis' \<Longrightarrow> cycle_post g ns (vis', rec', path) r \<Longrightarrow> cycle_post g ns (vis, rec, path) r"
  by (cases r rule: cycle_result_cases) (auto simp: cycle_post_simps)

lemma cycle_nbrs_spec:
  assumes "closed_dag g"
  shows "\<forall>n \<in> set ns. get_vertex g n \<noteq> None \<Longrightarrow> cycle_inv (edge_rel g) s
    \<Longrightarrow> snd (snd s) \<noteq> [] \<longrightarrow> (\<forall>n \<in> set ns. (last (snd (snd s)), n) \<in> edge_rel g)
    \<Longrightarrow> cycle_post g ns s (cycle_nbrs g ns s)"
proof (induction g\<equiv>g ns s rule: cycle_nbrs.induct)
  case (1 s)
  then show ?case by (cases s) (simp add: cycle_post_simps)
next
  case (2 n ns vis rec path)
  show ?case
  proof (cases "n \<in> set vis")
    case seen: True
    show ?thesis
    proof (cases "n \<in> set rec")
      case True
      with "2.prems"(2) have path: "n \<in> set path" "path \<noteq> []" "distinct path" "chain (edge_rel g) path"
        by (auto simp: cycle_inv_def)
      moreover have "(last path, n) \<in> edge_rel g"
        using "2.prems"(3) path(2) by simp
      ultimately have "closing (edge_rel g) (path @ [n])"
        by (simp add: closing_def successively_append_iff)
      then show ?thesis
        using seen True by (simp add: cycle_post_simps)
    next
      case False
      then have "n \<in> set vis - set path"
        using seen "2.prems"(2) by (auto simp: cycle_inv_def)
      moreover have "cycle_post g ns (vis, rec, path) (cycle_nbrs g ns (vis, rec, path))"
        using "2.hyps"(3) [OF _ False] seen "2.prems" by simp
      ultimately show ?thesis
        using seen False by (simp add: cycle_post_Cons)
    qed
  next
    case new: False
    from "2.prems"(1) obtain es where es: "succs g n = Some es"
      by (auto simp: succs_def)
    have edge: "(n, m) \<in> edge_rel g \<longleftrightarrow> m \<in> set es" for m
      using succs_edge_rel [OF es] by auto
    have "\<forall>e \<in> set (sort es). get_vertex g e \<noteq> None"
      using closed_dag_succs [OF assms es] by (fastforce simp: succs_def)
    moreover have inv: "cycle_inv (edge_rel g) (n # vis, n # rec, path @ [n])"
      using "2.prems"(2,3) new by (intro cycle_inv_enter) simp_all
    ultimately have post: "cycle_post g (sort es) (n # vis, n # rec, path @ [n])
        (cycle_nbrs g (sort es) (n # vis, n # rec, path @ [n]))"
      using "2.hyps"(1) [OF new es] edge by simp
    let ?inner = "cycle_nbrs g (sort es) (n # vis, n # rec, path @ [n])"
    show ?thesis
    proof (cases ?inner rule: cycle_result_cases)
      case (yes v r q)
      with post show ?thesis by (simp add: new es cycle_post_simps)
    next
      case inner: (no v r q)
      have *: "cycle_inv (edge_rel g) (v, r, q) \<and> q = path @ [n] \<and> set (n # vis) \<subseteq> set v
          \<and> set (sort es) \<subseteq> set v - set q"
        using post unfolding inner cycle_post_simps .
      then have q: "q = path @ [n]" and sub: "set (n # vis) \<subseteq> set v" by blast+
      from * have iv: "cycle_inv (edge_rel g) (v, r, path @ [n])"
        and dn: "set es \<subseteq> set v - set (path @ [n])"
        unfolding q set_sort by blast+
      have fin: "cycle_inv (edge_rel g) (v, removeAll n r, path)"
        using iv dn by (intro cycle_inv_finish) (auto simp: edge simp flip: succs_edge_rel [OF es])
      then have rest: "cycle_post g ns (v, removeAll n r, path) (cycle_nbrs g ns (v, removeAll n r, path))"
        using "2.hyps"(2) [OF new es inner refl _ refl refl] "2.prems" q by simp
      have "n \<in> set v - set path"
        using sub iv by (auto simp: cycle_inv_def)
      then have "cycle_post g (n # ns) (v, removeAll n r, path) (cycle_nbrs g ns (v, removeAll n r, path))"
        using rest by (rule cycle_post_Cons)
      then have "cycle_post g (n # ns) (vis, rec, path) (cycle_nbrs g ns (v, removeAll n r, path))"
        by (rule cycle_post_mono [rotated]) (use sub in simp)
      then show ?thesis
        by (simp add: new es inner q)
    qed (use post in \<open>simp_all add: cycle_post_simps\<close>)
  qed
qed


lemma cycle_dfs_cycle_nbrs:
  "n \<notin> set vis \<Longrightarrow> cycle_nbrs g [n] (vis, rec, path) = cycle_dfs g n (vis, rec, path)"
  by (auto simp: cycle_dfs_def split: option.splits outcome.splits prod.splits bool.splits)

lemma first_index_Some:
  "x \<in> set xs \<Longrightarrow> \<exists>i < length xs. first_index x xs = Some i \<and> xs ! i = x"
  by (induction xs) (auto intro: exI [of _ 0])

definition is_cycle :: "('k \<times> 'k) set \<Rightarrow> 'k list \<Rightarrow> bool" where
  "is_cycle E p \<longleftrightarrow> 2 \<le> length p \<and> chain E p \<and> hd p = last p \<and> distinct (tl p)"

lemma trim_cycle:
  assumes "closing E p"
  shows "is_cycle E (trim_cycle p)"
proof -
  obtain i where i: "i < length (butlast p)" "first_index (last p) (butlast p) = Some i" "butlast p ! i = last p"
    using assms first_index_Some [of "last p" "butlast p"] by (auto simp: closing_def)
  define b l where "b = butlast p" and "l = last p"
  have p: "p = b @ [l]"
    using i(1) unfolding b_def l_def by (metis append_butlast_last_id butlast.simps(1) length_0_conv not_less0)
  have drop: "trim_cycle p = l # drop (Suc i) b @ [l]"
    using i by (simp add: trim_cycle_def flip: b_def l_def) (metis p Cons_nth_drop_Suc append_Cons drop_append diff_is_0_eq' drop0 less_imp_le)
  have "chain E (take i p @ drop i p)" and d: "distinct b"
    using assms by (simp_all add: closing_def b_def)
  then have "chain E (trim_cycle p)"
    using i(2) by (simp only: successively_append_iff trim_cycle_def option.case)
  moreover have "distinct (l # drop (Suc i) b)"
    using distinct_drop [OF d, of i] i(1,3) unfolding b_def l_def by (metis Cons_nth_drop_Suc)
  ultimately show ?thesis
    by (auto simp: is_cycle_def drop)
qed

lemma cycle_roots_spec:
  assumes "closed_dag g"
  shows "\<forall>n \<in> set ns. get_vertex g n \<noteq> None \<Longrightarrow> cycle_inv (edge_rel g) (vis, rec, [])
    \<Longrightarrow> (\<exists>p. cycle_roots g ns vis rec = Ok (Some p) \<and> is_cycle (edge_rel g) p)
      \<or> (cycle_roots g ns vis rec = Ok None
          \<and> (\<exists>F. explored (edge_rel g) F \<and> set vis \<subseteq> F \<and> set ns \<subseteq> F))"
proof (induction g\<equiv>g ns vis rec rule: cycle_roots.induct)
  case (1 vis rec)
  then show ?case by (auto simp: cycle_inv_def)
next
  case (2 n ns vis rec)
  show ?case
  proof (cases "n \<in> set vis")
    case True
    with "2.hyps"(1) "2.prems" show ?thesis by auto
  next
    case new: False
    have post: "cycle_post g [n] (vis, rec, []) (cycle_dfs g n (vis, rec, []))"
      using cycle_nbrs_spec [OF assms, of "[n]" "(vis, rec, [])"] "2.prems" new
      by (simp add: cycle_dfs_cycle_nbrs del: cycle_nbrs.simps)
    show ?thesis
    proof (cases "cycle_dfs g n (vis, rec, [])" rule: cycle_result_cases)
      case (yes v r q)
      then show ?thesis using post by (simp add: new cycle_post_simps trim_cycle)
    next
      case (no v r q)
      with post have "cycle_inv (edge_rel g) (v, r, [])" and "set vis \<subseteq> set v" and "n \<in> set v"
        by (auto simp: cycle_post_simps)
      then show ?thesis
        using "2.hyps"(2) [OF new no refl refl refl] "2.prems" by (auto simp: new no)
    qed (use post in \<open>simp_all add: cycle_post_simps\<close>)
  qed
qed

lemma has_cycle_spec:
  assumes "closed_dag g"
  shows "(\<exists>p. has_cycle g = Ok (Some p) \<and> is_cycle (edge_rel g) p \<and> \<not> acyclic (edge_rel g))
       \<or> (has_cycle g = Ok None \<and> acyclic (edge_rel g))"
proof -
  let ?ns = "sort (mkeys (Vertices g))"
  have vs: "\<forall>n \<in> set ?ns. get_vertex g n \<noteq> None"
    by (auto simp: map_of_eq_None_iff)
  consider (cyc) p where "has_cycle g = Ok (Some p)" "is_cycle (edge_rel g) p"
    | (none) F where "has_cycle g = Ok None" "explored (edge_rel g) F" "set ?ns \<subseteq> F"
    using cycle_roots_spec [OF assms vs, of "[]" "[]"]
    by (auto simp: has_cycle_def cycle_inv_def explored_def)
  then show ?thesis
  proof cases
    case (cyc p)
    then obtain a b q where p: "p = a # b # q"
      by (cases p; cases "tl p") (auto simp: is_cycle_def)
    have "chain (edge_rel g) (a # b # q)" and last: "last (b # q) = a"
      using cyc(2) by (auto simp: is_cycle_def p)
    then have "(a, last (b # q)) \<in> (edge_rel g)\<^sup>+"
      by (intro chain_trancl)
    then have "(a, a) \<in> (edge_rel g)\<^sup>+" unfolding last .
    with cyc show ?thesis by (auto simp: acyclic_def)
  next
    case (none F)
    have "(u, u) \<notin> (edge_rel g)\<^sup>+" for u
    proof
      assume u: "(u, u) \<in> (edge_rel g)\<^sup>+"
      then obtain m where "(u, m) \<in> edge_rel g" by (meson tranclD)
      then have "u \<in> set (mkeys (Vertices g))"
        by (auto simp: edge_rel_iff mem_mkeys_iff simp del: set_map)
      with none(3) have "u \<in> F" by auto
      with none(2) u show False by (auto simp: explored_def)
    qed
    with none(1) show ?thesis by (auto simp: acyclic_def)
  qed
qed

text \<open>On a graph that satisfies the invariant the sort succeeds and orders dependencies first.\<close>

lemma topological_sort_spec:
  assumes "wf_dag g"
  shows "\<exists>ord. topological_sort g = Ok ord \<and> distinct ord
           \<and> set ord = set (mkeys (Vertices g)) \<and> deps_first (edge_rel g) ord"
proof -
  have cl: "closed_dag g" and ac: "acyclic (edge_rel g)"
    using assms by (auto simp: wf_dag_def)
  have hc: "has_cycle g = Ok None"
    using has_cycle_spec [OF cl] ac by auto
  have vs: "\<forall>n \<in> set (get_vertices g). get_vertex g n \<noteq> None"
    by (auto simp: get_vertices_def map_of_eq_None_iff)
  obtain vis ord where t: "topo_nbrs g (get_vertices g) ([], []) = Ok (vis, ord)"
    and inv: "topo_inv g vis ord" and all: "set (get_vertices g) \<subseteq> set ord"
    using topo_nbrs_spec [OF cl ac vs, of "([], [])"] by (auto simp: topo_inv_def)
  have "set ord = set (mkeys (Vertices g))"
    using inv all by (auto simp: topo_inv_def get_vertices_def mem_mkeys_iff simp del: set_map)
  then show ?thesis
    using inv t hc by (auto simp: topological_sort_def topo_inv_def)
qed


end
