(* ===== verification/Dag_Operations.thy ===== *)
theory Dag_Operations
  imports Dag_Correctness
begin

text \<open>
  Deletion, reversal and the growth interface of the graph of \<open>Dag\<close>: what \<open>DeleteVertex\<close>
  really leaves behind, that \<open>Reverse\<close> always succeeds and flips the edge relation, and the
  contract (\<open>graph_store\<close>) on which the graph's clients rely.
\<close>

definition nodes :: "('k, 'a) dag \<Rightarrow> 'k set" where
  "nodes g = set (mkeys (Vertices g))"

lemma nodes_iff: "k \<in> nodes g \<longleftrightarrow> get_vertex g k \<noteq> None"
  by (simp add: nodes_def map_of_eq_None_iff)

lemma nodes_new [simp]: "nodes new_dag = {}"
  by (simp add: nodes_def new_dag_def)

lemma edge_rel_new [simp]: "edge_rel new_dag = {}"
  by (auto simp: edge_rel_iff new_dag_def)

lemma nodes_link [simp]: "nodes (link u w g) = nodes g"
  by (simp add: nodes_def del: set_map)

lemma nodes_copy_edge_attributes [simp]: "nodes (copy_edge_attributes u w as g) = nodes g"
  by (simp add: nodes_def del: set_map)

lemma wf_dag_edge_nodes: "wf_dag g \<Longrightarrow> (u, w) \<in> edge_rel g \<Longrightarrow> u \<in> nodes g \<and> w \<in> nodes g"
  unfolding nodes_iff wf_dag_iff by (force simp: edge_rel_iff)

section \<open>Deletion\<close>

lemma delete_edge_Ok:
  assumes "wf_dag g" and "(u, w) \<in> edge_rel g"
  shows "delete_edge g u w = (unlink u w g, Ok ())" and "wf_dag (unlink u w g)" and "u \<noteq> w"
proof -
  obtain x e where x: "get_vertex g u = Some x" "map_of (Edges x) w = Some e"
    using assms(2) by (auto simp: edge_rel_iff)
  moreover obtain y where "get_vertex g w = Some y"
    using assms unfolding wf_dag_iff by blast
  ultimately show "delete_edge g u w = (unlink u w g, Ok ())"
    by (simp add: delete_edge_def)
  show "wf_dag (unlink u w g)"
    using assms(1) x by (rule wf_dag_unlink)
  show "u \<noteq> w"
    using wf_dag_irrefl [OF assms(1)] assms(2) by auto
qed

lemma delete_edges_spec:
  "wf_dag g \<Longrightarrow> distinct ws \<Longrightarrow> \<forall>w \<in> set ws. (k, w) \<in> edge_rel g
    \<Longrightarrow> \<exists>g'. delete_edges g k ws = (g', Ok ()) \<and> wf_dag g' \<and> edge_rel g' = edge_rel g - {k} \<times> set ws
           \<and> mkeys (Vertices g') = mkeys (Vertices g)"
proof (induction ws arbitrary: g)
  case (Cons w ws)
  have edge: "(k, w) \<in> edge_rel g" using Cons.prems(3) by simp
  note step = delete_edge_Ok [OF Cons.prems(1) edge]
  have E: "edge_rel (unlink k w g) = edge_rel g - {(k, w)}"
    using step(3) by (rule edge_rel_unlink)
  have "\<forall>v \<in> set ws. (k, v) \<in> edge_rel (unlink k w g)"
    using Cons.prems(2,3) by (auto simp: E)
  then obtain g' where "delete_edges (unlink k w g) k ws = (g', Ok ())" "wf_dag g'"
    "edge_rel g' = edge_rel (unlink k w g) - {k} \<times> set ws" "mkeys (Vertices g') = mkeys (Vertices g)"
    using Cons.IH [OF step(2)] Cons.prems(2) by auto
  then show ?case
    by (auto simp: step(1) E)
qed auto

lemma edge_rel_drop:
  assumes "\<And>w. (k, w) \<notin> edge_rel h"
  shows "edge_rel (h\<lparr>Vertices := mdel k (Vertices h)\<rparr>) = edge_rel h"
proof -
  have "(u, w) \<in> edge_rel (h\<lparr>Vertices := mdel k (Vertices h)\<rparr>) \<longleftrightarrow> (u, w) \<in> edge_rel h" for u w
  proof (cases "u = k")
    case True
    with assms [of w] show ?thesis by (simp add: edge_rel_def succs_def)
  qed (simp add: edge_rel_def succs_def)
  then show ?thesis by auto
qed

lemma wf_dag_drop:
  assumes "wf_dag h" and "\<And>w. (k, w) \<notin> edge_rel h" and "\<And>u. (u, k) \<notin> edge_rel h"
  shows "wf_dag (h\<lparr>Vertices := mdel k (Vertices h)\<rparr>)" (is "wf_dag ?g")
proof -
  have E: "edge_rel ?g = edge_rel h"
    using assms(2) by (rule edge_rel_drop)
  have vs: "get_vertex ?g j = (if j = k then None else get_vertex h j)" for j
    by simp
  have "mok (Vertices ?g)" using assms(1) by (simp add: wf_dag_iff)
  moreover have "get_vertex ?g w \<noteq> None" if "(u, w) \<in> edge_rel ?g" for u w
    using that assms(1,3) unfolding E vs wf_dag_iff by metis
  ultimately show ?thesis
    using assms(1) unfolding wf_dag_iff E vs by auto
qed

lemma delete_vertex_spec:
  assumes "wf_dag g" and "get_vertex g k = Some x"
  obtains g' where "delete_vertex g k = (g', Ok ())"
    and "edge_rel g' = {(u, w) \<in> edge_rel g. u \<noteq> k}"
    and "nodes g' = nodes g - {k}"
    and "(edge_rel g)\<inverse> `` {k} = {} \<longrightarrow> wf_dag g'"
proof -
  let ?ws = "mkeys (Edges x)"
  have ws: "(k, w) \<in> edge_rel g \<longleftrightarrow> w \<in> set ?ws" for w
    using assms(2) by (auto simp: edge_rel_iff mem_mkeys_iff simp del: set_map)
  have "distinct ?ws" using assms by (simp add: wf_dag_iff)
  moreover have "\<forall>w \<in> set ?ws. (k, w) \<in> edge_rel g" using ws by blast
  ultimately obtain h where h: "delete_edges g k ?ws = (h, Ok ())" "wf_dag h"
    "edge_rel h = edge_rel g - {k} \<times> set ?ws" "mkeys (Vertices h) = mkeys (Vertices g)"
    using delete_edges_spec [OF assms(1), of ?ws k] by blast
  have E: "edge_rel h = {(u, w) \<in> edge_rel g. u \<noteq> k}"
    using h(3) ws by auto
  let ?g = "h\<lparr>Vertices := mdel k (Vertices h)\<rparr>"
  have out: "(k, w) \<notin> edge_rel h" for w by (simp add: E)
  show ?thesis
  proof (rule that [of ?g])
    show "delete_vertex g k = (?g, Ok ())"
      by (simp add: delete_vertex_def assms(2) h(1))
    show "edge_rel ?g = {(u, w) \<in> edge_rel g. u \<noteq> k}"
      using edge_rel_drop [OF out] E by simp
    show "nodes ?g = nodes g - {k}"
      unfolding nodes_def by (simp flip: h(4))
    show "(edge_rel g)\<inverse> `` {k} = {} \<longrightarrow> wf_dag ?g"
      using wf_dag_drop [OF h(2) out] by (auto simp: E)
  qed
qed

section \<open>Reversal\<close>

lemma add_vertex_nodes:
  "nodes (fst (add_vertex g k as)) = insert k (nodes g)"
  by (cases "get_vertex g k") (auto simp: nodes_iff add_vertex_def split: if_splits)

lemma add_vertices_spec:
  "wf_dag r \<Longrightarrow> distinct (map ID xs) \<Longrightarrow> nodes r \<inter> ID ` set xs = {}
    \<Longrightarrow> \<exists>r'. add_vertices r xs = (r', Ok ()) \<and> wf_dag r' \<and> edge_rel r' = edge_rel r
         \<and> nodes r' = nodes r \<union> ID ` set xs"
proof (induction xs arbitrary: r)
  case (Cons x xs)
  let ?r = "fst (add_vertex r (ID x) [Attributes x])"
  have "ID x \<notin> nodes r" using Cons.prems(3) by auto
  then have step: "add_vertex r (ID x) [Attributes x] = (?r, Ok ())"
    by (simp add: nodes_iff add_vertex_def)
  have "wf_dag ?r" using Cons.prems(1) by (rule wf_dag_add_vertex)
  moreover have "nodes ?r \<inter> ID ` set xs = {}"
    using Cons.prems(2,3) by (auto simp: add_vertex_nodes)
  ultimately obtain r' where "add_vertices ?r xs = (r', Ok ())" "wf_dag r'" "edge_rel r' = edge_rel ?r"
    "nodes r' = nodes ?r \<union> ID ` set xs"
    using Cons.IH [of ?r] Cons.prems(2) by auto
  then show ?case
    by (subst add_vertices.simps(2), subst step) (auto simp: add_vertex_nodes)
qed simp

lemma add_edge_post:
  assumes "wf_dag r" and "add_edge r u w as = (r', Ok ())"
  shows "nodes r' = nodes r" and "edge_rel r' = insert (u, w) (edge_rel r)"
  using add_edge_cases [OF assms(1), of u w as, where thesis = "nodes r' = nodes r \<and> edge_rel r' = insert (u, w) (edge_rel r)"]
    assms(2) by (force simp: edge_rel_link insert_absorb)+

lemma add_edge_succeeds:
  assumes "wf_dag r" and "u \<in> nodes r" and "w \<in> nodes r" and "u \<noteq> w" and "(w, u) \<notin> (edge_rel r)\<^sup>*"
  shows "\<exists>r'. add_edge r u w as = (r', Ok ())"
  using assms(1) by (cases rule: add_edge_cases [of r u w as]) (use assms in \<open>auto simp: nodes_iff\<close>)

lemma wf_dag_no_back_path:
  assumes "wf_dag g" and "E \<subseteq> (edge_rel g)\<inverse>" and "(p, c) \<in> edge_rel g"
  shows "(p, c) \<notin> E\<^sup>*"
proof
  assume "(p, c) \<in> E\<^sup>*"
  then have "(p, c) \<in> ((edge_rel g)\<inverse>)\<^sup>*" using assms(2) by (meson rtrancl_mono subsetD)
  then have "(c, p) \<in> (edge_rel g)\<^sup>*" by (simp add: rtrancl_converse)
  then have "(c, c) \<in> (edge_rel g)\<^sup>+" using assms(3) by (rule rtrancl_into_trancl1)
  with assms(1) show False by (auto simp: wf_dag_def acyclic_def)
qed

lemma add_edges_spec:
  assumes "wf_dag g"
  shows "wf_dag r \<Longrightarrow> edge_rel r \<subseteq> (edge_rel g)\<inverse> \<Longrightarrow> \<forall>(c, p, _) \<in> set es. (p, c) \<in> edge_rel g
    \<Longrightarrow> nodes r = nodes g
    \<Longrightarrow> \<exists>r'. add_edges r es = (r', Ok ()) \<and> wf_dag r' \<and> edge_rel r' = edge_rel r \<union> {(c, p). \<exists>a. (c, p, a) \<in> set es}
         \<and> nodes r' = nodes g"
proof (induction es arbitrary: r)
  case (Cons e es)
  obtain c p a where e: "e = (c, p, a)" by (cases e)
  have edge: "(p, c) \<in> edge_rel g" using Cons.prems(3) by (simp add: e)
  have "c \<in> nodes r" "p \<in> nodes r"
    using wf_dag_edge_nodes [OF assms edge] Cons.prems(4) by simp_all
  moreover have "c \<noteq> p" using edge wf_dag_irrefl [OF assms] by auto
  moreover have "(p, c) \<notin> (edge_rel r)\<^sup>*"
    using assms Cons.prems(2) edge by (rule wf_dag_no_back_path)
  ultimately obtain r' where r': "add_edge r c p [a] = (r', Ok ())"
    using add_edge_succeeds [OF Cons.prems(1)] by blast
  have wf: "wf_dag r'" using wf_dag_add_edge [OF Cons.prems(1), of c p "[a]"] by (simp add: r')
  note post = add_edge_post [OF Cons.prems(1) r']
  have "edge_rel r' \<subseteq> (edge_rel g)\<inverse>" using Cons.prems(2) edge by (auto simp: post(2))
  then obtain r'' where "add_edges r' es = (r'', Ok ())" "wf_dag r''"
    "edge_rel r'' = edge_rel r' \<union> {(c, p). \<exists>a. (c, p, a) \<in> set es}" "nodes r'' = nodes g"
    using Cons.IH [OF wf] Cons.prems(3,4) post(1) by auto
  then show ?case
    by (auto simp: e r' post(2))
qed simp

lemma reversed_edges_iff:
  assumes "wf_dag g"
  shows "(\<exists>a. (c, p, a) \<in> set (reversed_edges g)) \<longleftrightarrow> (p, c) \<in> edge_rel g"
proof -
  have ok: "ID x = k" "mok (Edges x)" if "get_vertex g k = Some x" for k x
    using assms that by (auto simp: wf_dag_iff)
  have mok: "mok (Vertices g)" using assms by (simp add: wf_dag_iff)
  have "(\<exists>a. (c, p, a) \<in> set (reversed_edges g))
      \<longleftrightarrow> (\<exists>k x a. get_vertex g k = Some x \<and> p = ID x \<and> (c, a) \<in> set (Edges x))"
    using mok by (force simp: reversed_edges_def)
  also have "\<dots> \<longleftrightarrow> (p, c) \<in> edge_rel g"
    using ok by (fastforce simp: edge_rel_iff)
  finally show ?thesis .
qed

lemma reverse_dag_spec:
  assumes "wf_dag g"
  shows "\<exists>r. reverse_dag g = Ok r \<and> wf_dag r \<and> edge_rel r = (edge_rel g)\<inverse> \<and> nodes r = nodes g"
proof -
  let ?xs = "map snd (Vertices g)"
  have mok: "mok (Vertices g)" using assms by (simp add: wf_dag_iff)
  have ids: "map ID ?xs = mkeys (Vertices g)"
    using assms mok by (auto simp: wf_dag_iff)
  then have idset: "ID ` set ?xs = nodes g"
    unfolding nodes_def by (metis set_map)
  obtain r where r: "add_vertices new_dag ?xs = (r, Ok ())" "wf_dag r" "edge_rel r = {}"
    "nodes r = ID ` set ?xs"
    using add_vertices_spec [of "new_dag :: ('a, 'b) dag" ?xs] ids mok
    by (auto simp del: map_map)
  have ns: "nodes r = nodes g" unfolding r(4) by (rule idset)
  have sub: "edge_rel r \<subseteq> (edge_rel g)\<inverse>" by (simp add: r(3))
  have es: "\<forall>(c, p, _) \<in> set (reversed_edges g). (p, c) \<in> edge_rel g"
    using reversed_edges_iff [OF assms] by blast
  obtain r' where r': "add_edges r (reversed_edges g) = (r', Ok ())" "wf_dag r'"
    "edge_rel r' = edge_rel r \<union> {(c, p). \<exists>a. (c, p, a) \<in> set (reversed_edges g)}" "nodes r' = nodes g"
    using add_edges_spec [OF assms r(2) sub es ns] by blast
  have "edge_rel r' = (edge_rel g)\<inverse>"
    using r'(3) reversed_edges_iff [OF assms] by (auto simp: r(3))
  with r r' show ?thesis
    by (simp add: reverse_dag_def)
qed

section \<open>The growth interface\<close>

text \<open>
  What a client that builds a graph relies on: vertices and edges are only ever added, an
  edge is refused exactly when it is a self-loop, has an unknown endpoint or closes a cycle.
\<close>

locale graph_store =
  fixes inv :: "'g \<Rightarrow> bool"
    and vs :: "'g \<Rightarrow> 'k set"
    and es :: "'g \<Rightarrow> ('k \<times> 'k) set"
    and put_vertex :: "'g \<Rightarrow> 'k \<Rightarrow> 'g"
    and put_edge :: "'g \<Rightarrow> 'k \<Rightarrow> 'k \<Rightarrow> 'g"
  assumes inv_put_vertex: "inv g \<Longrightarrow> inv (put_vertex g k)"
    and vs_put_vertex: "inv g \<Longrightarrow> vs (put_vertex g k) = insert k (vs g)"
    and es_put_vertex: "inv g \<Longrightarrow> es (put_vertex g k) = es g"
    and inv_put_edge: "inv g \<Longrightarrow> inv (put_edge g u w)"
    and vs_put_edge: "inv g \<Longrightarrow> vs (put_edge g u w) = vs g"
    and es_put_edge: "inv g \<Longrightarrow> es (put_edge g u w) =
          (if u \<in> vs g \<and> w \<in> vs g \<and> (w, u) \<notin> (es g)\<^sup>* then insert (u, w) (es g) else es g)"
    and inv_acyclic: "inv g \<Longrightarrow> acyclic (es g)"
    and inv_finite: "inv g \<Longrightarrow> finite (es g)"
begin

definition build :: "'g \<Rightarrow> 'k list \<Rightarrow> ('k \<times> 'k) list \<Rightarrow> 'g" where
  "build g ks ps = foldl (\<lambda>h (u, w). put_edge h u w) (foldl put_vertex g ks) ps"

lemma inv_vertices:
  "inv g \<Longrightarrow> inv (foldl put_vertex g ks) \<and> vs (foldl put_vertex g ks) = vs g \<union> set ks
    \<and> es (foldl put_vertex g ks) = es g"
  by (induction ks arbitrary: g) (auto simp: inv_put_vertex vs_put_vertex es_put_vertex)

lemma inv_edges:
  "inv g \<Longrightarrow> inv (foldl (\<lambda>h (u, w). put_edge h u w) g ps)
    \<and> vs (foldl (\<lambda>h (u, w). put_edge h u w) g ps) = vs g
    \<and> es g \<subseteq> es (foldl (\<lambda>h (u, w). put_edge h u w) g ps)
    \<and> es (foldl (\<lambda>h (u, w). put_edge h u w) g ps) \<subseteq> es g \<union> set ps"
proof (induction ps arbitrary: g)
  case (Cons p ps)
  obtain u w where p: "p = (u, w)" by (cases p)
  have "es g \<subseteq> es (put_edge g u w)" and "es (put_edge g u w) \<subseteq> insert (u, w) (es g)"
    using Cons.prems by (auto simp: es_put_edge)
  with Cons.IH [OF inv_put_edge [OF Cons.prems, of u w]] vs_put_edge [OF Cons.prems, of u w]
  show ?case by (auto simp: p)
qed simp

lemma inv_build: "inv g \<Longrightarrow> inv (build g ks ps)"
  using inv_vertices inv_edges by (simp add: build_def)

lemma build_bounds:
  assumes "inv g"
  shows "vs (build g ks ps) = vs g \<union> set ks"
    and "es g \<subseteq> es (build g ks ps)" and "es (build g ks ps) \<subseteq> es g \<union> set ps"
  using inv_vertices [OF assms, of ks] inv_edges [of "foldl put_vertex g ks" ps] by (auto simp: build_def)

lemma wf_build: "inv g \<Longrightarrow> wf ((es (build g ks ps))\<inverse>)"
  by (intro finite_acyclic_wf_converse inv_finite inv_acyclic inv_build)

lemma edges_accepted:
  "inv g \<Longrightarrow> set ps \<subseteq> vs g \<times> vs g \<Longrightarrow> acyclic (es g \<union> set ps)
    \<Longrightarrow> es (foldl (\<lambda>h (u, w). put_edge h u w) g ps) = es g \<union> set ps"
proof (induction ps arbitrary: g)
  case (Cons p ps)
  obtain u w where p: "p = (u, w)" by (cases p)
  have "(w, u) \<notin> (es g)\<^sup>*"
  proof
    assume "(w, u) \<in> (es g)\<^sup>*"
    then have "(w, u) \<in> (es g \<union> set (p # ps))\<^sup>*" by (rule rtrancl_mono [THEN subsetD, rotated]) auto
    then have "(u, u) \<in> (es g \<union> set (p # ps))\<^sup>+" by (rule rtrancl_into_trancl2 [rotated]) (simp add: p)
    with Cons.prems(3) show False by (auto simp: acyclic_def)
  qed
  then have E: "es (put_edge g u w) = insert (u, w) (es g)"
    using Cons.prems(1,2) by (simp add: es_put_edge p)
  have V: "vs (put_edge g u w) = vs g" and I: "inv (put_edge g u w)"
    using Cons.prems(1) by (simp_all add: vs_put_edge inv_put_edge)
  have "es (foldl (\<lambda>h (u, w). put_edge h u w) (put_edge g u w) ps) = es (put_edge g u w) \<union> set ps"
    using Cons.prems(2,3) by (intro Cons.IH I) (simp_all add: V E p)
  then show ?case by (auto simp: p E)
qed simp

lemma build_accepts:
  assumes "inv g" and "set ps \<subseteq> (vs g \<union> set ks) \<times> (vs g \<union> set ks)"
  shows "es (build g ks ps) = es g \<union> set ps \<longleftrightarrow> acyclic (es g \<union> set ps)"
proof
  assume "es (build g ks ps) = es g \<union> set ps"
  then show "acyclic (es g \<union> set ps)" using inv_acyclic [OF inv_build [OF assms(1)]] by metis
next
  assume "acyclic (es g \<union> set ps)"
  then show "es (build g ks ps) = es g \<union> set ps"
    using edges_accepted [of "foldl put_vertex g ks" ps] inv_vertices [OF assms(1), of ks] assms(2)
    by (simp add: build_def)
qed

end

text \<open>The graph of \<open>Dag\<close> keeps the contract; attributes play no role in it.\<close>

definition put_vertex :: "('k, 'a) dag \<Rightarrow> 'k \<Rightarrow> ('k, 'a) dag" where
  "put_vertex g k = fst (add_vertex g k [])"

definition put_edge :: "('k::linorder, 'a) dag \<Rightarrow> 'k \<Rightarrow> 'k \<Rightarrow> ('k, 'a) dag" where
  "put_edge g u w = fst (add_edge g u w [])"

lemma edge_rel_add_edge:
  assumes "wf_dag g"
  shows "nodes (fst (add_edge g u w as)) = nodes g"
    and "edge_rel (fst (add_edge g u w as)) =
      (if u \<in> nodes g \<and> w \<in> nodes g \<and> (w, u) \<notin> (edge_rel g)\<^sup>* then insert (u, w) (edge_rel g) else edge_rel g)"
proof -
  have noback: "(w, u) \<notin> (edge_rel g)\<^sup>*" if "(u, w) \<in> edge_rel g"
    using assms that by (auto simp: wf_dag_def acyclic_def dest: rtrancl_into_trancl2)
  show "nodes (fst (add_edge g u w as)) = nodes g"
    by (cases rule: add_edge_cases [OF assms, of u w as]) simp_all
  show "edge_rel (fst (add_edge g u w as)) =
      (if u \<in> nodes g \<and> w \<in> nodes g \<and> (w, u) \<notin> (edge_rel g)\<^sup>* then insert (u, w) (edge_rel g) else edge_rel g)"
    by (cases rule: add_edge_cases [OF assms, of u w as])
       (use noback in \<open>auto simp: nodes_iff edge_rel_link insert_absorb\<close>)
qed

lemma wf_dag_acyclic: "wf_dag g \<Longrightarrow> acyclic (edge_rel g)"
  by (simp add: wf_dag_def)

lemma finite_edge_rel: "wf_dag g \<Longrightarrow> finite (edge_rel g)"
proof (rule finite_subset [of _ "nodes g \<times> nodes g"])
  assume "wf_dag g"
  then show "edge_rel g \<subseteq> nodes g \<times> nodes g" using wf_dag_edge_nodes [of g] by auto
qed (simp add: nodes_def)

interpretation dag_store: graph_store wf_dag nodes edge_rel put_vertex
    "put_edge :: ('k::linorder, 'a) dag \<Rightarrow> 'k \<Rightarrow> 'k \<Rightarrow> ('k, 'a) dag"
  by unfold_locales
     (simp_all add: put_vertex_def put_edge_def wf_dag_add_vertex add_vertex_nodes wf_dag_add_edge
        edge_rel_add_edge finite_edge_rel wf_dag_acyclic)


end
