(* ===== verification/Dag_Properties.thy ===== *)
theory Dag_Properties
  imports Dag_Operations
begin

text \<open>
  The properties of the graph of \<open>Dag\<close>, each with an instance on the small graph \<open>demo\<close>
  (1 depends on 2, 2 depends on 3).
\<close>

section \<open>A concrete graph\<close>

definition demo :: "(nat, unit) dag" where
  "demo = put_edge (put_edge (put_vertex (put_vertex (put_vertex new_dag 1) 2) 3) 1 2) 2 3"

lemma wf_demo: "wf_dag demo"
  by (simp add: demo_def dag_store.inv_put_edge dag_store.inv_put_vertex)

lemma demo_eval:
  "demo = \<lparr>Vertices =
     [(1, \<lparr>ID = 1, Attributes = [], Edges = [(2, [])], InDegree = 0, OutDegree = 1\<rparr>),
      (2, \<lparr>ID = 2, Attributes = [], Edges = [(3, [])], InDegree = 1, OutDegree = 1\<rparr>),
      (3, \<lparr>ID = 3, Attributes = [], Edges = [], InDegree = 1, OutDegree = 0\<rparr>)]\<rparr>"
  by code_simp

lemma demo_vertex_3:
  "get_vertex demo 3 = Some \<lparr>ID = 3, Attributes = [], Edges = [], InDegree = 1, OutDegree = 0\<rparr>"
  by (simp add: demo_eval)

lemma nodes_demo: "nodes demo = {1, 2, 3}"
  by (simp add: demo_eval nodes_def)

lemma edges_demo: "edge_rel demo = {(1, 2), (2, 3)}"
  by (auto simp: demo_eval edge_rel_def succs_def split: if_splits)

lemma in_demo: "(edge_rel demo)\<inverse> `` {1} = {}" "(edge_rel demo)\<inverse> `` {2} = {1}" "(edge_rel demo)\<inverse> `` {3} = {2}"
  unfolding edges_demo by auto

lemma reach_demo: "(1, 3) \<in> (edge_rel demo)\<^sup>*"
  by (rule converse_rtrancl_into_rtrancl [of _ 2]) (auto simp: edges_demo)

section \<open>Roots\<close>

lemma set_roots:
  assumes "wf_dag g"
  shows "set (roots g) = {k \<in> nodes g. (edge_rel g)\<inverse> `` {k} = {}}"
proof -
  have mok: "mok (Vertices g)" using assms by (simp add: wf_dag_iff)
  have "k \<in> set (roots g) \<longleftrightarrow> (\<exists>x. get_vertex g k = Some x \<and> InDegree x = 0)" for k
    using mok by (force simp: roots_def)
  also have "\<dots> k \<longleftrightarrow> k \<in> nodes g \<and> (edge_rel g)\<inverse> `` {k} = {}" for k
  proof -
    have "InDegree x = 0 \<longleftrightarrow> (edge_rel g)\<inverse> `` {k} = {}" if "get_vertex g k = Some x" for x
      using assms that wf_dag_finite_in [OF assms, of k] by (simp add: wf_dag_iff)
    then show ?thesis by (auto simp: nodes_iff)
  qed
  finally show ?thesis by blast
qed

lemma roots_exist:
  assumes "wf_dag g" and "nodes g \<noteq> {}"
  shows "set (roots g) \<noteq> {}"
proof -
  obtain j where "j \<in> nodes g" using assms(2) by auto
  have "wf (edge_rel g)"
    using assms(1) by (intro finite_acyclic_wf finite_edge_rel wf_dag_acyclic)
  then obtain k where k: "k \<in> nodes g" and "\<And>u. (u, k) \<in> edge_rel g \<Longrightarrow> u \<notin> nodes g"
    using \<open>j \<in> nodes g\<close> by (rule wfE_min) blast
  then have "(edge_rel g)\<inverse> `` {k} = {}"
    using wf_dag_edge_nodes [OF assms(1)] by auto
  with k show ?thesis by (auto simp: set_roots [OF assms(1)])
qed

section \<open>Properties\<close>

text \<open>C14: on an acyclic graph with exact degree counters, \<open>AddEdge\<close> between two distinct known
  vertices succeeds exactly when no path leads back, and then adds exactly that edge and keeps
  the invariant; otherwise it reports a genuine cycle through the new edge and leaves the graph
  as it was, including the counters it had already incremented.\<close>

theorem add_edge_decides:
  assumes "wf_dag g" and "u \<in> nodes g" and "w \<in> nodes g" and "u \<noteq> w"
  shows "((w, u) \<notin> (edge_rel g)\<^sup>* \<and> (\<exists>g'. add_edge g u w as = (g', Ok ()) \<and> wf_dag g'
            \<and> edge_rel g' = insert (u, w) (edge_rel g) \<and> nodes g' = nodes g))
       \<or> ((w, u) \<in> (edge_rel g)\<^sup>* \<and> (\<exists>p. add_edge g u w as = (g, Fail (WouldCycle u w (u # p)))
            \<and> chain (insert (u, w) (edge_rel g)) (u # p) \<and> last p = u \<and> 2 \<le> length p))"
proof (cases "(w, u) \<in> (edge_rel g)\<^sup>*")
  case False
  then obtain g' where g': "add_edge g u w as = (g', Ok ())"
    using add_edge_succeeds [OF assms] by blast
  then show ?thesis
    using False add_edge_post [OF assms(1) g'] wf_dag_add_edge [OF assms(1), of u w as] by simp
next
  case True
  then have "(u, w) \<notin> edge_rel g"
    using wf_dag_acyclic [OF assms(1)] by (auto simp: acyclic_def dest: rtrancl_into_trancl2)
  then show ?thesis
    using True assms(2-4)
    by (cases rule: add_edge_cases [OF assms(1), of u w as]) (auto simp: nodes_iff)
qed

theorem add_edge_decides_witness:
  "\<exists>p. add_edge demo 3 1 [] = (demo, Fail (WouldCycle 3 1 (3 # p))) \<and> last p = 3"
  using add_edge_decides [OF wf_demo, of 3 1 "[]"] reach_demo by (auto simp: nodes_demo)

text \<open>C26: \<open>TopologicalSort\<close> of a graph that satisfies the invariant succeeds and returns every
  vertex exactly once, each after all the vertices it has edges to.\<close>

theorem topological_sort_correct:
  assumes "wf_dag g"
  shows "\<exists>ord. topological_sort g = Ok ord \<and> distinct ord \<and> set ord = nodes g
           \<and> deps_first (edge_rel g) ord"
  using topological_sort_spec [OF assms] by (simp only: nodes_def)

theorem topological_sort_correct_witness:
  "\<exists>ord. topological_sort demo = Ok ord \<and> distinct ord \<and> set ord = {1, 2, 3} \<and> deps_first {(1, 2), (2, 3)} ord"
  using topological_sort_correct [OF wf_demo] by (simp add: nodes_demo edges_demo)

text \<open>on every graph whose edges lead to known vertices (acyclic or not), \<open>hasCycle\<close>
  terminates without a panic, finds a cycle exactly when there is one, and what it reports is a
  simple closed walk along edges of the graph.\<close>

theorem has_cycle_correct:
  assumes "closed_dag g"
  shows "(acyclic (edge_rel g) \<and> has_cycle g = Ok None)
       \<or> (\<not> acyclic (edge_rel g) \<and> (\<exists>p. has_cycle g = Ok (Some p) \<and> is_cycle (edge_rel g) p))"
  using has_cycle_spec [OF assms] by auto

definition ring :: "(nat, unit) dag" where
  "ring = link 3 1 demo"

theorem has_cycle_correct_witness:
  "\<exists>p. has_cycle ring = Ok (Some p) \<and> is_cycle {(1, 2), (2, 3), (3, 1)} p"
proof -
  have E: "edge_rel ring = {(1, 2), (2, 3), (3, 1)}"
    using edge_rel_link [of demo 3 _ 1] demo_vertex_3 by (auto simp: edges_demo ring_def)
  have "(1, 1) \<in> (edge_rel ring)\<^sup>+"
    by (rule trancl_trans [of _ 2, OF r_into_trancl trancl_trans [of _ 3]]) (auto simp: E)
  then have "\<not> acyclic (edge_rel ring)" by (auto simp: acyclic_def)
  moreover have "closed_dag ring"
    by (simp add: ring_def demo_eval link_def upd_vertex_def closed_dag_def)
  ultimately show ?thesis
    using has_cycle_correct [of ring] unfolding E by blast
qed

text \<open>\<open>findPath\<close> decides reachability by at least one edge, and the path it returns is made of
  edges and runs from the start to the target.\<close>

theorem find_path_correct:
  assumes "wf_dag g" and "start \<in> nodes g"
  shows "((start, goal) \<notin> (edge_rel g)\<^sup>+ \<and> find_path g start goal = Ok None)
       \<or> ((start, goal) \<in> (edge_rel g)\<^sup>+ \<and> (\<exists>p. find_path g start goal = Ok (Some p)
            \<and> chain (edge_rel g) p \<and> hd p = start \<and> last p = goal))"
  using find_path_spec [OF wf_dag_closed [OF assms(1)], of start goal] assms(2)
  by (auto simp: nodes_iff)

theorem find_path_correct_witness:
  "\<exists>p. find_path demo 1 3 = Ok (Some p) \<and> hd p = 1 \<and> last p = 3"
proof -
  have "(1, 3) \<in> (edge_rel demo)\<^sup>+"
    using reach_demo by (auto dest: rtranclD)
  then show ?thesis
    using find_path_correct [OF wf_demo, of 1 3] by (auto simp: nodes_demo)
qed

text \<open>any sequence of vertex and edge insertions leaves an acyclic graph; when all endpoints
  are known, all edges are accepted exactly when together they form no cycle, in whatever order
  they are offered.\<close>

theorem build_order_irrelevant:
  assumes "wf_dag g" and "set ps \<subseteq> (nodes g \<union> set ks) \<times> (nodes g \<union> set ks)"
  shows "wf_dag (dag_store.build g ks ps)
       \<and> (edge_rel (dag_store.build g ks ps) = edge_rel g \<union> set ps \<longleftrightarrow> acyclic (edge_rel g \<union> set ps))"
  by (simp add: dag_store.build_accepts [OF assms] dag_store.inv_build [OF assms(1)])

theorem build_order_irrelevant_witness:
  "edge_rel (dag_store.build demo [4] [(4, 1)]) = {(1, 2), (2, 3), (4, 1::nat)}"
proof -
  have "acyclic ({(1, 2), (2, 3), (4, 1)} :: (nat \<times> nat) set)"
    by (rule acyclicI_order [of _ "\<lambda>n. if n = 4 then 4 else 4 - n"]) auto
  then show ?thesis
    using build_order_irrelevant [OF wf_demo, of "[(4, 1)]" "[4]"]
    by (simp add: nodes_demo edges_demo insert_commute)
qed

text \<open>\<open>DeleteVertex\<close> of a known vertex succeeds, removes the vertex and its outgoing edges and
  nothing else. The graph stays well formed when no other vertex had an edge to it.\<close>

theorem delete_vertex_effect:
  assumes "wf_dag g" and "k \<in> nodes g"
  shows "\<exists>g'. delete_vertex g k = (g', Ok ()) \<and> edge_rel g' = {(u, w) \<in> edge_rel g. u \<noteq> k}
           \<and> nodes g' = nodes g - {k} \<and> ((edge_rel g)\<inverse> `` {k} = {} \<longrightarrow> wf_dag g')"
proof -
  obtain x where x: "get_vertex g k = Some x" using assms(2) by (auto simp: nodes_iff)
  show ?thesis
    by (rule delete_vertex_spec [OF assms(1) x]) blast
qed

theorem delete_vertex_effect_witness:
  "wf_dag (fst (delete_vertex demo 1)) \<and> nodes (fst (delete_vertex demo 1)) = {2, 3}"
proof -
  obtain g' where "delete_vertex demo 1 = (g', Ok ())" "wf_dag g'" "nodes g' = {1, 2, 3} - {1}"
    using delete_vertex_effect [OF wf_demo, of 1] unfolding nodes_demo in_demo by blast
  then show ?thesis by auto
qed

text \<open>deleting a vertex that others depend on leaves their edges dangling, and the next
  \<open>AddEdge\<close> or \<open>TopologicalSort\<close> that walks over such an edge panics.\<close>

theorem delete_vertex_dangles:
  "snd (delete_vertex demo 2) = Ok ()
   \<and> snd (add_edge (fst (delete_vertex demo 2)) 3 1 []) = Panic
   \<and> topological_sort (fst (delete_vertex demo 2)) = Panic"
  unfolding demo_eval by code_simp

text \<open>\<open>Reverse\<close> of a graph that satisfies the invariant never fails; the result satisfies the
  invariant, has the same vertices and exactly the flipped edges, whatever the map iteration order.\<close>

theorem reverse_dag_correct:
  assumes "wf_dag g"
  shows "\<exists>r. reverse_dag g = Ok r \<and> wf_dag r \<and> edge_rel r = (edge_rel g)\<inverse> \<and> nodes r = nodes g"
  using assms by (rule reverse_dag_spec)

theorem reverse_dag_correct_witness:
  "\<exists>r. reverse_dag demo = Ok r \<and> edge_rel r = {(2, 1), (3, 2)} \<and> nodes r = {1, 2, 3}"
  using reverse_dag_correct [OF wf_demo] by (auto simp: edges_demo nodes_demo)

text \<open>\<open>Roots\<close> returns exactly the vertices without incoming edges, and a non-empty graph has one.\<close>

theorem roots_correct:
  assumes "wf_dag g"
  shows "set (roots g) = {k \<in> nodes g. (edge_rel g)\<inverse> `` {k} = {}} \<and> (nodes g = {} \<longleftrightarrow> roots g = [])"
  using set_roots [OF assms] roots_exist [OF assms] by (metis (no_types, lifting) Collect_empty_eq empty_iff set_empty)

theorem roots_correct_witness: "set (roots demo) = {1}"
proof -
  have "{k \<in> {1, 2, 3}. (edge_rel demo)\<inverse> `` {k} = {}} = {1}"
    using in_demo by auto
  then show ?thesis
    using roots_correct [OF wf_demo] by (simp only: nodes_demo)
qed

end
