(* ===== verification/Dag_Process.thy ===== *)
theory Dag_Process
  imports Dag_Properties
begin

text \<open>
  The graph processor of \<open>bindings/go/dag/sync/process.go\<close>: a coordinator that runs Kahn's
  algorithm over a snapshot of the in-degrees and hands ready vertices to a bounded pool of
  workers.

  The run is a labelled step relation. Workers finish or fail in any order, the parent context
  may be cancelled at any point, and the coordinator's \<open>select\<close> takes either branch when both
  are possible. \<open>picked n\<close> is the coordinator blocked in \<open>eg.Go\<close> for \<open>n\<close>, after its
  check of the context, until the pool has room.
\<close>

section \<open>State and steps\<close>

datatype 'k proc_error = ProcessFailed 'k | Stalled nat nat | ContextCancelled

datatype 'k proc_phase =
    Scheduling
  | Blocked 'k
  | Checking
  | Waiting
  | Joining bool
  | Returned "('k proc_error, unit) outcome"

record 'k proc =
  phase :: "'k proc_phase"
  in_degree :: "('k, int) gomap"
  ready :: "'k list"
  in_flight :: nat
  running :: "'k list"
  sent :: "'k list"
  completed :: "'k list"
  failures :: "'k list"
  worker_error :: "'k option"
  cancelled :: bool

datatype 'k proc_event =
    Cancel | Pick 'k | Spawn 'k | Break | Exhausted | Check
  | Succeed 'k | Crash 'k | Receive 'k | Halt | Join

text \<open>\<open>gctx.Err() != nil\<close>: the group's context is done once a worker failed or the parent is done.\<close>

definition halted :: "'k proc \<Rightarrow> bool" where
  "halted s \<longleftrightarrow> cancelled s \<or> worker_error s \<noteq> None"

definition proc_total :: "('k, 'a) dag \<Rightarrow> nat" where
  "proc_total g = length (Vertices g)"

definition proc_init :: "('k, 'a) dag \<Rightarrow> 'k proc" where
  "proc_init g =
     \<lparr>phase = (if 0 < proc_total g then Scheduling else Joining False),
      in_degree = map (\<lambda>(k, x). (k, InDegree x)) (Vertices g),
      ready = roots g, in_flight = 0, running = [], sent = [], completed = [], failures = [],
      worker_error = None, cancelled = False\<rparr>"

text \<open>The loop over the children of a finished vertex. A missing counter reads as 0.\<close>

fun unlock :: "'k list \<Rightarrow> ('k, int) gomap \<Rightarrow> 'k list \<Rightarrow> ('k, int) gomap \<times> 'k list" where
  "unlock [] deg rdy = (deg, rdy)"
| "unlock (c # cs) deg rdy =
     (let d = (case map_of deg c of Some n \<Rightarrow> n | None \<Rightarrow> 0) - 1
      in unlock cs (mput c d deg) (if d = 0 then rdy @ [c] else rdy))"

definition receive :: "('k, 'a) dag \<Rightarrow> 'k \<Rightarrow> 'k proc \<Rightarrow> 'k proc" where
  "receive g n s =
     (let s' = s\<lparr>sent := tl (sent s), completed := completed s @ [n], in_flight := in_flight s - 1\<rparr>
      in (case succs g n of
            None \<Rightarrow> s'\<lparr>phase := Returned Panic\<rparr>
          | Some cs \<Rightarrow>
              (case unlock cs (in_degree s) (ready s) of
                 (deg, rdy) \<Rightarrow>
                   s'\<lparr>in_degree := deg, ready := rdy,
                      phase := if length (completed s') < proc_total g then Scheduling else Joining False\<rparr>)))"

text \<open>\<open>Joining b\<close> is \<open>eg.Wait()\<close>; \<open>b\<close> tells the exit through \<open>gctx.Done()\<close>, which falls back
  to the error of the parent context.\<close>

definition join_result :: "bool \<Rightarrow> 'k proc \<Rightarrow> ('k proc_error, unit) outcome" where
  "join_result b s =
     (case worker_error s of
        Some n \<Rightarrow> Fail (ProcessFailed n)
      | None \<Rightarrow> if b \<and> cancelled s then Fail ContextCancelled else Ok ())"

inductive proc_step :: "('k, 'a) dag \<Rightarrow> int \<Rightarrow> 'k proc \<Rightarrow> 'k proc_event \<Rightarrow> 'k proc \<Rightarrow> bool" for g limit where
  cancel: "\<not> cancelled s \<Longrightarrow> \<forall>r. phase s \<noteq> Returned r
     \<Longrightarrow> proc_step g limit s Cancel (s\<lparr>cancelled := True\<rparr>)"
| pick: "phase s = Scheduling \<Longrightarrow> ready s = n # rest \<Longrightarrow> \<not> halted s
     \<Longrightarrow> proc_step g limit s (Pick n) (s\<lparr>phase := Blocked n, ready := rest, in_flight := in_flight s + 1\<rparr>)"
| spawn: "phase s = Blocked n \<Longrightarrow> limit \<le> 0 \<or> int (length (running s)) < limit
     \<Longrightarrow> proc_step g limit s (Spawn n) (s\<lparr>phase := Scheduling, running := running s @ [n]\<rparr>)"
| break: "phase s = Scheduling \<Longrightarrow> ready s \<noteq> [] \<Longrightarrow> halted s
     \<Longrightarrow> proc_step g limit s Break (s\<lparr>phase := Checking, ready := []\<rparr>)"
| exhausted: "phase s = Scheduling \<Longrightarrow> ready s = []
     \<Longrightarrow> proc_step g limit s Exhausted (s\<lparr>phase := Checking\<rparr>)"
| check: "phase s = Checking
     \<Longrightarrow> proc_step g limit s Check
           (s\<lparr>phase := if in_flight s = 0 \<and> \<not> halted s
                      then Returned (Fail (Stalled (proc_total g - length (completed s)) (proc_total g)))
                      else Waiting\<rparr>)"
| succeed: "n \<in> set (running s) \<Longrightarrow> length (sent s) < proc_total g
     \<Longrightarrow> proc_step g limit s (Succeed n) (s\<lparr>running := remove1 n (running s), sent := sent s @ [n]\<rparr>)"
| crash: "n \<in> set (running s)
     \<Longrightarrow> proc_step g limit s (Crash n)
           (s\<lparr>running := remove1 n (running s), failures := failures s @ [n],
              worker_error := (case worker_error s of None \<Rightarrow> Some n | e \<Rightarrow> e)\<rparr>)"
| receive: "phase s = Waiting \<Longrightarrow> sent s = n # rest \<Longrightarrow> proc_step g limit s (Receive n) (receive g n s)"
| halt: "phase s = Waiting \<Longrightarrow> halted s \<Longrightarrow> proc_step g limit s Halt (s\<lparr>phase := Joining True\<rparr>)"
| join: "phase s = Joining b \<Longrightarrow> running s = []
     \<Longrightarrow> proc_step g limit s Join (s\<lparr>phase := Returned (join_result b s)\<rparr>)"

text \<open>Runs, as the list of their events.\<close>

inductive proc_run :: "('k, 'a) dag \<Rightarrow> int \<Rightarrow> 'k proc_event list \<Rightarrow> 'k proc \<Rightarrow> bool" for g limit where
  run_init: "proc_run g limit [] (proc_init g)"
| run_step: "proc_run g limit es s \<Longrightarrow> proc_step g limit s e s' \<Longrightarrow> proc_run g limit (es @ [e]) s'"

inductive_cases proc_stepE: "proc_step g limit s e s'"

text \<open>The step that an event names, when it is enabled: the same relation, executable.\<close>

fun proc_exec :: "('k, 'a) dag \<Rightarrow> int \<Rightarrow> 'k proc \<Rightarrow> 'k proc_event \<Rightarrow> 'k proc option" where
  "proc_exec g limit s Cancel =
     (if cancelled s \<or> (case phase s of Returned _ \<Rightarrow> True | _ \<Rightarrow> False) then None
      else Some (s\<lparr>cancelled := True\<rparr>))"
| "proc_exec g limit s (Pick n) =
     (if phase s = Scheduling \<and> ready s \<noteq> [] \<and> hd (ready s) = n \<and> \<not> halted s
      then Some (s\<lparr>phase := Blocked n, ready := tl (ready s), in_flight := in_flight s + 1\<rparr>) else None)"
| "proc_exec g limit s (Spawn n) =
     (if phase s = Blocked n \<and> (limit \<le> 0 \<or> int (length (running s)) < limit)
      then Some (s\<lparr>phase := Scheduling, running := running s @ [n]\<rparr>) else None)"
| "proc_exec g limit s Break =
     (if phase s = Scheduling \<and> ready s \<noteq> [] \<and> halted s
      then Some (s\<lparr>phase := Checking, ready := []\<rparr>) else None)"
| "proc_exec g limit s Exhausted =
     (if phase s = Scheduling \<and> ready s = [] then Some (s\<lparr>phase := Checking\<rparr>) else None)"
| "proc_exec g limit s Check =
     (if phase s = Checking
      then Some (s\<lparr>phase := if in_flight s = 0 \<and> \<not> halted s
                   then Returned (Fail (Stalled (proc_total g - length (completed s)) (proc_total g)))
                   else Waiting\<rparr>) else None)"
| "proc_exec g limit s (Succeed n) =
     (if n \<in> set (running s) \<and> length (sent s) < proc_total g
      then Some (s\<lparr>running := remove1 n (running s), sent := sent s @ [n]\<rparr>) else None)"
| "proc_exec g limit s (Crash n) =
     (if n \<in> set (running s)
      then Some (s\<lparr>running := remove1 n (running s), failures := failures s @ [n],
              worker_error := (case worker_error s of None \<Rightarrow> Some n | e \<Rightarrow> e)\<rparr>) else None)"
| "proc_exec g limit s (Receive n) =
     (if phase s = Waiting \<and> sent s \<noteq> [] \<and> hd (sent s) = n then Some (receive g n s) else None)"
| "proc_exec g limit s Halt =
     (if phase s = Waiting \<and> halted s then Some (s\<lparr>phase := Joining True\<rparr>) else None)"
| "proc_exec g limit s Join =
     (case phase s of
        Joining b \<Rightarrow> if running s = [] then Some (s\<lparr>phase := Returned (join_result b s)\<rparr>) else None
      | _ \<Rightarrow> None)"

lemma proc_exec_iff: "proc_step g limit s e s' \<longleftrightarrow> proc_exec g limit s e = Some s'"
proof
  show "proc_step g limit s e s' \<Longrightarrow> proc_exec g limit s e = Some s'"
    by (auto elim!: proc_stepE split: proc_phase.splits)
  assume "proc_exec g limit s e = Some s'"
  then show "proc_step g limit s e s'"
    by (cases e; cases "ready s"; cases "sent s")
       (auto simp: proc_step.simps split: if_splits proc_phase.splits)
qed

fun proc_execs :: "('k, 'a) dag \<Rightarrow> int \<Rightarrow> 'k proc \<Rightarrow> 'k proc_event list \<Rightarrow> 'k proc option" where
  "proc_execs g limit s [] = Some s"
| "proc_execs g limit s (e # es) =
     (case proc_exec g limit s e of None \<Rightarrow> None | Some s' \<Rightarrow> proc_execs g limit s' es)"

lemma proc_execs_run:
  "proc_run g limit xs s \<Longrightarrow> proc_execs g limit s es = Some s' \<Longrightarrow> proc_run g limit (xs @ es) s'"
proof (induction es arbitrary: xs s)
  case (Cons e es)
  then obtain t where "proc_exec g limit s e = Some t" "proc_execs g limit t es = Some s'"
    by (auto split: option.splits)
  then show ?case
    using Cons.IH [OF run_step [OF Cons.prems(1), of e t]] by (simp add: proc_exec_iff)
qed simp

section \<open>The invariant\<close>

text \<open>The graph's counters agree with its edges; it may be cyclic.\<close>

definition counted :: "('k, 'a) dag \<Rightarrow> bool" where
  "counted g \<longleftrightarrow> mok (Vertices g) \<and> (\<forall>(k, x) \<in> set (Vertices g). vertex_ok g k x) \<and> closed_dag g"

lemma wf_dag_counted: "wf_dag g \<longleftrightarrow> counted g \<and> acyclic (edge_rel g)"
  by (auto simp: wf_dag_def counted_def)

abbreviation preds :: "('k, 'a) dag \<Rightarrow> 'k \<Rightarrow> 'k set" where
  "preds g k \<equiv> (edge_rel g)\<inverse> `` {k}"

definition blocked :: "'k proc \<Rightarrow> 'k list" where
  "blocked s = (case phase s of Blocked n \<Rightarrow> [n] | _ \<Rightarrow> [])"

definition started :: "'k proc \<Rightarrow> 'k list" where
  "started s = running s @ sent s @ completed s @ failures s"

definition seen :: "'k proc \<Rightarrow> 'k list" where
  "seen s = ready s @ blocked s @ started s"

definition degrees_ok :: "('k, 'a) dag \<Rightarrow> 'k proc \<Rightarrow> bool" where
  "degrees_ok g s \<longleftrightarrow>
     (\<forall>k \<in> nodes g. map_of (in_degree s) k = Some (int (card (preds g k - set (completed s)))))"

definition order_inv :: "('k, 'a) dag \<Rightarrow> 'k proc \<Rightarrow> bool" where
  "order_inv g s \<longleftrightarrow> distinct (seen s) \<and> set (seen s) \<subseteq> nodes g
     \<and> (\<forall>k \<in> set (seen s). preds g k \<subseteq> set (completed s))
     \<and> deps_first ((edge_rel g)\<inverse>) (completed s)"

definition ready_inv :: "('k, 'a) dag \<Rightarrow> 'k proc \<Rightarrow> bool" where
  "ready_inv g s \<longleftrightarrow> halted s
     \<or> (\<forall>k \<in> nodes g. preds g k \<subseteq> set (completed s) \<longrightarrow> k \<in> set (seen s))"

definition count_inv :: "int \<Rightarrow> 'k proc \<Rightarrow> bool" where
  "count_inv limit s \<longleftrightarrow> in_flight s = length (blocked s @ running s @ sent s @ failures s)
     \<and> (worker_error s = None \<longleftrightarrow> failures s = [])
     \<and> (\<forall>n. worker_error s = Some n \<longrightarrow> n \<in> set (failures s))
     \<and> (0 < limit \<longrightarrow> int (length (running s)) \<le> limit)"

definition phase_inv :: "('k, 'a) dag \<Rightarrow> 'k proc \<Rightarrow> bool" where
  "phase_inv g s \<longleftrightarrow> (case phase s of
      Scheduling \<Rightarrow> length (completed s) < proc_total g
    | Blocked n \<Rightarrow> length (completed s) < proc_total g
    | Checking \<Rightarrow> length (completed s) < proc_total g \<and> ready s = []
    | Waiting \<Rightarrow> length (completed s) < proc_total g \<and> ready s = [] \<and> (0 < in_flight s \<or> halted s)
    | Joining b \<Rightarrow> (if b then halted s else length (completed s) = proc_total g)
    | Returned r \<Rightarrow> running s = [] \<and> (case r of
        Ok _ \<Rightarrow> length (completed s) = proc_total g
      | Fail (ProcessFailed n) \<Rightarrow> n \<in> set (failures s)
      | Fail (Stalled m t) \<Rightarrow> m = proc_total g - length (completed s) \<and> t = proc_total g
         \<and> length (completed s) < proc_total g \<and> seen s = completed s \<and> \<not> halted s
      | Fail ContextCancelled \<Rightarrow> cancelled s
      | Panic \<Rightarrow> False))"

definition proc_inv :: "('k, 'a) dag \<Rightarrow> int \<Rightarrow> 'k proc \<Rightarrow> bool" where
  "proc_inv g limit s \<longleftrightarrow> order_inv g s \<and> ready_inv g s \<and> degrees_ok g s \<and> count_inv limit s \<and> phase_inv g s"

lemmas proc_parts = seen_def started_def blocked_def halted_def

lemma proc_total_card: "counted g \<Longrightarrow> proc_total g = card (nodes g)"
  unfolding counted_def proc_total_def nodes_def by (metis distinct_card length_map)

lemma seen_length:
  assumes "counted g" and "order_inv g s"
  shows "length (seen s) \<le> proc_total g"
proof -
  have "length (seen s) = card (set (seen s))"
    using assms(2) by (simp add: order_inv_def distinct_card)
  also have "\<dots> \<le> card (nodes g)"
    using assms(2) by (intro card_mono) (auto simp: order_inv_def nodes_def)
  finally show ?thesis using proc_total_card [OF assms(1)] by simp
qed

lemma unlock_spec:
  "distinct cs \<Longrightarrow> \<forall>c \<in> set cs. map_of deg c = Some (val c)
    \<Longrightarrow> map_of (fst (unlock cs deg rdy)) k = (if k \<in> set cs then Some (val k - 1) else map_of deg k)
      \<and> snd (unlock cs deg rdy) = rdy @ filter (\<lambda>c. val c = 1) cs"
proof (induction cs deg rdy rule: unlock.induct)
  case (2 c cs deg rdy)
  have "\<forall>c' \<in> set cs. map_of (mput c (val c - 1) deg) c' = Some (val c')"
    using "2.prems" by auto
  with "2.IH" [OF refl] "2.prems" show ?case
    by (auto simp: Let_def)
qed simp

lemma counted_finite_preds: "counted g \<Longrightarrow> finite (preds g k)"
  by (rule finite_subset [of _ "dom (map_of (Vertices g))"]) (auto simp: edge_rel_iff finite_dom_map_of)

lemma counted_degree:
  assumes "counted g" and "get_vertex g k = Some x"
  shows "InDegree x = int (card (preds g k))"
proof -
  have "vertex_ok g k x" and "mok (Vertices g)"
    using assms by (auto simp: counted_def dest: map_of_SomeD)
  then show ?thesis by (simp add: vertex_ok_def in_edges_card)
qed

lemma set_roots_counted:
  assumes "counted g"
  shows "set (roots g) = {k \<in> nodes g. preds g k = {}}" and "distinct (roots g)"
proof -
  have mok: "mok (Vertices g)" using assms by (simp add: counted_def)
  have "k \<in> set (roots g) \<longleftrightarrow> (\<exists>x. get_vertex g k = Some x \<and> InDegree x = 0)" for k
    using mok by (force simp: roots_def)
  also have "\<dots> k \<longleftrightarrow> k \<in> nodes g \<and> preds g k = {}" for k
    using counted_degree [OF assms, of k] counted_finite_preds [OF assms, of k] by (auto simp: nodes_iff)
  finally show "set (roots g) = {k \<in> nodes g. preds g k = {}}" by blast
  show "distinct (roots g)"
    unfolding roots_def using mok by (rule distinct_map_filter)
qed

lemma proc_inv_init:
  assumes "counted g"
  shows "proc_inv g limit (proc_init g)"
proof -
  have seen: "seen (proc_init g) = roots g" and comp: "completed (proc_init g) = []"
    by (simp_all add: proc_init_def proc_parts)
  have "order_inv g (proc_init g)" and "ready_inv g (proc_init g)"
    using set_roots_counted [OF assms] by (auto simp: order_inv_def ready_inv_def seen comp)
  moreover have "degrees_ok g (proc_init g)"
    using counted_degree [OF assms] by (auto simp: degrees_ok_def proc_init_def nodes_iff map_of_map)
  moreover have "count_inv limit (proc_init g)" and "phase_inv g (proc_init g)"
    by (auto simp: count_inv_def phase_inv_def proc_init_def proc_parts)
  ultimately show ?thesis by (simp add: proc_inv_def)
qed

section \<open>Every step keeps the invariant\<close>

lemma deps_first_sub:
  "deps_first E xs \<Longrightarrow> \<forall>m. (n, m) \<in> E \<longrightarrow> m \<in> set xs \<Longrightarrow> deps_first E (xs @ [n])"
  by (simp add: deps_first_snoc)

lemma proc_inv_local:
  assumes "proc_inv g limit s" and "proc_step g limit s e s'" and "\<forall>n. e \<noteq> Receive n"
  shows "order_inv g s' \<and> degrees_ok g s'"
proof -
  have inv: "order_inv g s" "degrees_ok g s" using assms(1) by (simp_all add: proc_inv_def)
  have comp: "completed s' = completed s" and deg: "in_degree s' = in_degree s"
    using assms(2,3) by (auto elim!: proc_stepE)
  have "distinct (seen s') \<and> set (seen s') \<subseteq> set (seen s)"
    using assms(2,3) inv(1) unfolding order_inv_def
    by cases (auto simp: proc_parts split: proc_phase.splits)
  with inv show ?thesis
    unfolding order_inv_def degrees_ok_def comp deg by blast
qed

lemma ready_inv_local:
  assumes "proc_inv g limit s" and "proc_step g limit s e s'" and "\<forall>n. e \<noteq> Receive n"
  shows "ready_inv g s'"
proof (cases "halted s'")
  case False
  then have "\<not> halted s" and "set (seen s') = set (seen s)" and "completed s' = completed s"
    using assms(2,3) by (auto simp: proc_parts elim!: proc_stepE split: proc_phase.splits option.splits if_splits)
  then show ?thesis
    using assms(1) by (simp add: proc_inv_def ready_inv_def)
qed (simp add: ready_inv_def)

lemma count_inv_local:
  assumes "proc_inv g limit s" and "proc_step g limit s e s'" and "\<forall>n. e \<noteq> Receive n"
  shows "count_inv limit s'"
  using assms(2,3,1) unfolding proc_inv_def count_inv_def
  by cases (auto simp: blocked_def length_remove1 split: option.splits if_splits dest: length_pos_if_in_set)



lemma seen_started_empty:
  assumes "count_inv limit s" and "in_flight s = 0" and "ready s = []"
  shows "seen s = completed s"
  using assms by (auto simp: count_inv_def seen_def started_def)

lemma completed_all:
  assumes "counted g" and "proc_inv g limit s" and "length (completed s) = proc_total g"
  shows "seen s = completed s \<and> failures s = []"
proof -
  have "length (seen s) \<le> length (completed s)"
    using assms seen_length [OF assms(1), of s] by (simp add: proc_inv_def)
  then show ?thesis by (simp add: seen_def started_def)
qed

lemma phase_inv_local:
  assumes "counted g" and "proc_inv g limit s" and "proc_step g limit s e s'" and "\<forall>n. e \<noteq> Receive n"
  shows "phase_inv g s'"
  using assms(3)
proof cases
  case check
  then show ?thesis
    using assms(2) seen_started_empty [of limit s]
    by (auto simp: proc_inv_def phase_inv_def halted_def)
       (simp_all add: seen_def started_def blocked_def count_inv_def)
next
  case (join b)
  have "worker_error s = None" if "\<not> b"
    using completed_all [OF assms(1,2)] assms(2) that join
    by (auto simp: proc_inv_def phase_inv_def count_inv_def seen_def started_def)
  then show ?thesis
    using assms(2) join
    by (auto simp: proc_inv_def phase_inv_def join_result_def count_inv_def halted_def split: option.splits if_splits)
qed (use assms(2,4) in \<open>auto simp: proc_inv_def phase_inv_def halted_def split: proc_phase.splits option.splits\<close>)


text \<open>The bookkeeping of a received completion.\<close>

lemma receive_eqs:
  assumes "succs g n = Some cs"
  shows "completed (receive g n s) = completed s @ [n]" "sent (receive g n s) = tl (sent s)"
    "running (receive g n s) = running s" "failures (receive g n s) = failures s"
    "in_flight (receive g n s) = in_flight s - 1" "worker_error (receive g n s) = worker_error s"
    "cancelled (receive g n s) = cancelled s"
    "in_degree (receive g n s) = fst (unlock cs (in_degree s) (ready s))"
    "ready (receive g n s) = snd (unlock cs (in_degree s) (ready s))"
    "phase (receive g n s) = (if Suc (length (completed s)) < proc_total g then Scheduling else Joining False)"
  by (simp_all add: receive_def assms split: prod.splits)

lemma proc_inv_receive:
  assumes "counted g" and "proc_inv g limit s" and "phase s = Waiting" and "sent s = n # rest"
  shows "proc_inv g limit (receive g n s)"
proof -
  let ?s = "receive g n s" and ?C = "set (completed s)"
  have order: "order_inv g s" and rdy: "ready_inv g s" and deg: "degrees_ok g s"
    and cnt: "count_inv limit s" and ph: "phase_inv g s"
    using assms(2) by (simp_all add: proc_inv_def)
  have rs: "ready s = []" and bl: "blocked s = []"
    using ph assms(3) by (simp_all add: phase_inv_def blocked_def)
  have nseen: "n \<in> set (seen s)" using assms(4) by (simp add: seen_def started_def)
  then have n: "n \<in> nodes g" "preds g n \<subseteq> ?C" using order by (auto simp: order_inv_def)
  have nC: "n \<notin> ?C" using order assms(4) by (auto simp: order_inv_def seen_def started_def)
  obtain cs where cs: "succs g n = Some cs" using n(1) by (auto simp: nodes_iff succs_def)
  note eqs = receive_eqs [OF cs]
  have dcs: "distinct cs"
    using cs assms(1) by (auto simp: succs_def counted_def vertex_ok_def dest!: map_of_SomeD)
  have edge: "c \<in> set cs \<longleftrightarrow> n \<in> preds g c" for c
    using succs_edge_rel [OF cs] by auto
  have cnode: "c \<in> nodes g" if "c \<in> set cs" for c
    using closed_dag_succs [OF _ cs that] assms(1) by (auto simp: counted_def nodes_iff succs_def)
  define val where "val c = int (card (preds g c - ?C))" for c
  have val: "\<forall>c \<in> set cs. map_of (in_degree s) c = Some (val c)"
    using deg cnode by (auto simp: degrees_ok_def val_def)
  have dec: "int (card (preds g c - insert n ?C)) = val c - (if c \<in> set cs then 1 else 0)" for c
  proof (cases "c \<in> set cs")
    case True
    have "preds g c - insert n ?C = (preds g c - ?C) - {n}" by auto
    moreover have "n \<in> preds g c - ?C" using True edge nC by blast
    moreover have "finite (preds g c - ?C)" using counted_finite_preds [OF assms(1)] by blast
    ultimately show ?thesis
      using True card_Suc_Diff1 [of "preds g c - ?C" n] by (simp add: val_def)
  next
    case False
    then have "preds g c - insert n ?C = preds g c - ?C" using edge [of c] by auto
    with False show ?thesis by (simp add: val_def)
  qed
  have zero: "val c = 1 \<longleftrightarrow> preds g c \<subseteq> insert n ?C" if "c \<in> set cs" for c
  proof -
    have "val c = 1 \<longleftrightarrow> card (preds g c - insert n ?C) = 0" using dec [of c] that by auto
    then show ?thesis using counted_finite_preds [OF assms(1), of c] by auto
  qed
  have unl: "map_of (in_degree ?s) k = (if k \<in> set cs then Some (val k - 1) else map_of (in_degree s) k)"
    "ready ?s = filter (\<lambda>c. val c = 1) cs" for k
    using unlock_spec [OF dcs val, of "ready s"] by (simp_all add: eqs rs)
  have seen: "set (seen ?s) = set (seen s) \<union> set (ready ?s)"
    using assms(4) by (auto simp: seen_def started_def eqs blocked_def rs bl assms(3))
  have new: "set (ready ?s) \<inter> set (seen s) = {}"
  proof -
    have "k \<notin> set (seen s)" if "k \<in> set cs" for k
      using that edge nC order unfolding order_inv_def by blast
    then show ?thesis by (auto simp: unl)
  qed
  have "distinct (seen ?s)"
    using order new dcs assms(4)
    by (auto simp: order_inv_def seen_def started_def eqs(1-7,10) unl blocked_def rs bl)
  moreover have "\<forall>k \<in> set (seen ?s). preds g k \<subseteq> set (completed ?s)"
    using order zero by (auto simp: order_inv_def seen unl eqs(1))
  moreover have "set (seen ?s) \<subseteq> nodes g"
    using order cnode by (auto simp: order_inv_def seen unl)
  moreover have "deps_first ((edge_rel g)\<inverse>) (completed ?s)"
    using order n(2) by (auto simp: order_inv_def eqs(1) deps_first_snoc)
  ultimately have "order_inv g ?s" by (simp add: order_inv_def)
  moreover have "ready_inv g ?s"
  proof (cases "halted s")
    case False
    have "k \<in> set (seen ?s)" if "k \<in> nodes g" "preds g k \<subseteq> insert n ?C" for k
    proof (cases "k \<in> set cs")
      case True
      with zero that(2) show ?thesis by (simp add: seen unl)
    next
      case False
      with that(2) edge [of k] have "preds g k \<subseteq> ?C" by auto
      then show ?thesis using rdy \<open>\<not> halted s\<close> that(1) by (auto simp: ready_inv_def seen)
    qed
    then show ?thesis by (auto simp: ready_inv_def eqs(1))
  qed (simp add: ready_inv_def halted_def eqs)
  moreover have "degrees_ok g ?s"
    using deg dec by (auto simp: degrees_ok_def unl eqs(1) val_def)
  moreover have "count_inv limit ?s"
    using cnt assms(3,4) by (auto simp: count_inv_def eqs blocked_def split: if_splits)
  moreover have "phase_inv g ?s"
    using ph assms(3) by (auto simp: phase_inv_def eqs)
  ultimately show ?thesis by (simp add: proc_inv_def)
qed

lemma proc_inv_step:
  assumes "counted g" and "proc_inv g limit s" and "proc_step g limit s e s'"
  shows "proc_inv g limit s'"
proof (cases "\<exists>n. e = Receive n")
  case True
  then show ?thesis
    using assms proc_inv_receive by (auto elim!: proc_stepE)
next
  case False
  then have "\<forall>n. e \<noteq> Receive n" by simp
  then show ?thesis
    using assms(2,3) proc_inv_local ready_inv_local count_inv_local phase_inv_local [OF assms(1)]
    unfolding proc_inv_def [of g limit s'] by blast
qed

lemma proc_run_inv: "proc_run g limit es s \<Longrightarrow> counted g \<Longrightarrow> proc_inv g limit s"
  by (induction rule: proc_run.induct) (auto intro: proc_inv_init proc_inv_step)

section \<open>Progress and termination\<close>

fun phase_rank :: "'k proc_phase \<Rightarrow> nat" where
  "phase_rank (Returned _) = 0"
| "phase_rank (Joining _) = 1"
| "phase_rank Waiting = 2"
| "phase_rank Checking = 3"
| "phase_rank Scheduling = 4"
| "phase_rank (Blocked _) = 6"

definition proc_measure :: "('k, 'a) dag \<Rightarrow> 'k proc \<Rightarrow> nat" where
  "proc_measure g s = 4 * (proc_total g - length (completed s))
     + 3 * (proc_total g - (in_flight s + length (completed s)))
     + length (running s) + (if cancelled s then 0 else 1) + phase_rank (phase s)"

lemma in_flight_bound:
  assumes "counted g" and "proc_inv g limit s"
  shows "length (ready s) + in_flight s + length (completed s) \<le> proc_total g"
  using seen_length [OF assms(1), of s] assms(2)
  by (auto simp: proc_inv_def count_inv_def seen_def started_def)

lemma proc_measure_decreases:
  assumes "counted g" and "proc_inv g limit s" and "proc_step g limit s e s'"
  shows "proc_measure g s' < proc_measure g s"
  using assms(3)
proof cases
  case (receive n rest)
  have "0 < in_flight s"
    using assms(2) receive by (auto simp: proc_inv_def count_inv_def)
  moreover have "n \<in> nodes g"
    using assms(2) receive by (auto simp: proc_inv_def order_inv_def seen_def started_def)
  then obtain cs where "succs g n = Some cs" by (auto simp: nodes_iff succs_def)
  ultimately show ?thesis
    using in_flight_bound [OF assms(1,2)] receive
    by (simp add: proc_measure_def receive_eqs) arith
next
  case (pick n rest)
  then show ?thesis
    using in_flight_bound [OF assms(1,2)] by (simp add: proc_measure_def)
next
  case (succeed n)
  then show ?thesis
    by (auto simp: proc_measure_def length_remove1 dest: length_pos_if_in_set)
next
  case (crash n)
  then show ?thesis
    by (auto simp: proc_measure_def length_remove1 dest: length_pos_if_in_set)
qed (auto simp: proc_measure_def)

lemma proc_run_length:
  "proc_run g limit es s \<Longrightarrow> counted g \<Longrightarrow> length es + proc_measure g s \<le> 7 * proc_total g + 5"
proof (induction rule: proc_run.induct)
  case run_init
  then show ?case by (simp add: proc_measure_def proc_init_def)
next
  case (run_step es s e s')
  have "proc_measure g s' < proc_measure g s"
    using run_step.prems proc_run_inv [OF run_step.hyps(1) run_step.prems] run_step.hyps(2)
    by (rule proc_measure_decreases)
  with run_step.IH [OF run_step.prems] show ?case by simp
qed

text \<open>Short of the return there is always a step that does not depend on the environment's
  cancellation: the channel has room for every sender and the pool's slots are given back.\<close>

lemma worker_can_finish:
  assumes "counted g" and "proc_inv g limit s" and "running s \<noteq> []"
  shows "\<exists>n s'. proc_step g limit s (Succeed n) s'"
proof -
  obtain n where "n \<in> set (running s)" using assms(3) by (cases "running s") auto
  moreover have "length (sent s) < proc_total g"
    using in_flight_bound [OF assms(1,2)] assms(2,3)
    by (cases "running s") (auto simp: proc_inv_def count_inv_def)
  ultimately show ?thesis by (blast intro: succeed)
qed

lemma proc_progress:
  assumes "counted g" and "proc_inv g limit s" and "\<forall>r. phase s \<noteq> Returned r"
  shows "\<exists>e s'. e \<noteq> Cancel \<and> proc_step g limit s e s'"
proof (cases "running s = []")
  case False
  then show ?thesis using worker_can_finish [OF assms(1,2)] by blast
next
  case idle: True
  show ?thesis
  proof (cases "phase s")
    case Scheduling
    then show ?thesis
      by (cases "ready s"; cases "halted s") (blast intro: pick break exhausted)+
  next
    case (Blocked n)
    have "limit \<le> 0 \<or> int (length (running s)) < limit" using idle by auto
    with Blocked show ?thesis by (blast intro: spawn)
  next
    case Checking
    then show ?thesis by (blast intro: check)
  next
    case Waiting
    show ?thesis
    proof (cases "halted s")
      case True
      with Waiting show ?thesis by (blast intro: halt)
    next
      case False
      then have "failures s = []" and "0 < in_flight s"
        using assms(2) Waiting by (auto simp: proc_inv_def count_inv_def phase_inv_def halted_def)
      then have "sent s \<noteq> []"
        using assms(2) Waiting idle by (auto simp: proc_inv_def count_inv_def blocked_def)
      then obtain n rest where "sent s = n # rest" by (cases "sent s") auto
      with Waiting show ?thesis by (blast intro: receive)
    qed
  next
    case (Joining b)
    with idle show ?thesis by (blast intro: join)
  qed (use assms(3) in auto)
qed

section \<open>What the events say\<close>

lemma run_events:
  "proc_run g limit es s \<Longrightarrow> counted g \<Longrightarrow>
     (Spawn n \<in> set es \<longleftrightarrow> n \<in> set (started s))
   \<and> (Succeed n \<in> set es \<longleftrightarrow> n \<in> set (sent s @ completed s))
   \<and> (Crash n \<in> set es \<longleftrightarrow> n \<in> set (failures s))
   \<and> (Cancel \<in> set es \<longleftrightarrow> cancelled s)"
proof (induction rule: proc_run.induct)
  case run_init
  then show ?case by (simp add: proc_init_def started_def)
next
  case (run_step es s e s')
  note inv = proc_run_inv [OF run_step.hyps(1) run_step.prems]
  have d: "distinct (running s)"
    using inv by (simp add: proc_inv_def order_inv_def seen_def started_def)
  from run_step.hyps(2) show ?case
  proof cases
    case (receive m rest)
    have "m \<in> nodes g"
      using inv receive by (auto simp: proc_inv_def order_inv_def seen_def started_def)
    then obtain cs where "succs g m = Some cs" by (auto simp: nodes_iff succs_def)
    then show ?thesis
      using run_step.IH [OF run_step.prems] receive by (auto simp: started_def receive_eqs)
  qed (use run_step.IH [OF run_step.prems] d in \<open>auto simp: started_def\<close>)
qed

lemma run_prefix: "proc_run g limit (es @ [e]) s' \<Longrightarrow> \<exists>s. proc_run g limit es s \<and> proc_step g limit s e s'"
  by (cases rule: proc_run.cases) auto

lemma run_split: "proc_run g limit (xs @ e # ys) s' \<Longrightarrow> \<exists>s t. proc_run g limit xs s \<and> proc_step g limit s e t"
proof (induction ys arbitrary: s' rule: rev_induct)
  case (snoc y ys)
  then show ?case using run_prefix [of g limit "xs @ e # ys" y s'] by auto
qed (use run_prefix in blast)

lemma deps_first_acyclic:
  assumes "deps_first R xs" and "distinct xs" and "\<And>a b. (a, b) \<in> R \<Longrightarrow> a \<in> set xs"
  shows "acyclic R"
proof (rule acyclicI_order)
  let ?f = "\<lambda>x. length (takeWhile (\<lambda>y. y \<noteq> x) xs)"
  have pos: "?f (xs ! i) = i" if "i < length xs" for i
  proof -
    have "takeWhile (\<lambda>y. y \<noteq> xs ! i) xs = take i xs"
      using that assms(2) by (intro takeWhile_eq_take_P_nth) (auto simp: nth_eq_iff_index_eq)
    then show ?thesis using that by simp
  qed
  show "?f b < ?f a" if ab: "(a, b) \<in> R" for a b
  proof -
    obtain i where i: "i < length xs" "xs ! i = a" using assms(3) [OF ab] by (auto simp: in_set_conv_nth)
    then have "b \<in> set (take i xs)" using assms(1) ab by (auto simp: deps_first_def)
    then obtain j where "j < i" "xs ! j = b" using i(1) by (auto simp: in_set_conv_nth)
    then show ?thesis using pos [of i] pos [of j] i by simp
  qed
qed

lemma stalled_cyclic:
  assumes "counted g" and "proc_inv g limit s" and "phase s = Returned (Fail (Stalled m t))"
  shows "\<not> acyclic (edge_rel g)"
proof
  assume ac: "acyclic (edge_rel g)"
  have st: "seen s = completed s" "\<not> halted s" "length (completed s) < proc_total g"
    using assms(2,3) by (auto simp: proc_inv_def phase_inv_def)
  have "finite (edge_rel g)"
  proof -
    have "edge_rel g \<subseteq> nodes g \<times> nodes g"
      using closed_dag_edge [of g] assms(1) by (auto simp: counted_def nodes_iff edge_rel_iff succs_def)
    then show ?thesis by (rule finite_subset) (simp add: nodes_def)
  qed
  then have "wf (edge_rel g)" using ac by (rule finite_acyclic_wf)
  moreover have "nodes g - set (completed s) \<noteq> {}"
  proof
    assume "nodes g - set (completed s) = {}"
    then have "card (nodes g) \<le> card (set (completed s))" by (intro card_mono) auto
    also have "\<dots> \<le> length (completed s)" by (rule card_length)
    finally show False using st(3) proc_total_card [OF assms(1)] by simp
  qed
  then obtain k0 where "k0 \<in> nodes g - set (completed s)" by blast
  ultimately obtain k where k: "k \<in> nodes g - set (completed s)"
    and min: "\<And>u. (u, k) \<in> edge_rel g \<Longrightarrow> u \<notin> nodes g - set (completed s)"
    by (rule wfE_min) blast
  have "u \<in> nodes g" if "(u, k) \<in> edge_rel g" for u
    using that by (auto simp: nodes_iff edge_rel_iff)
  with min have "preds g k \<subseteq> set (completed s)" by blast
  then show False
    using assms(2) k st(1,2) by (auto simp: proc_inv_def ready_inv_def)
qed


section \<open>Properties\<close>

text \<open>A run of the processor over \<open>demo\<close> with two workers, up to the start of vertex 2.\<close>

definition demo_events :: "nat proc_event list" where
  "demo_events = [Pick 1, Spawn 1, Exhausted, Check, Succeed 1, Receive 1, Pick 2, Spawn 2]"

lemma counted_demo: "counted demo"
  using wf_demo by (simp add: wf_dag_counted)

definition run_demo :: "nat proc_event list \<Rightarrow> nat proc option" where
  "run_demo es = proc_execs demo 2 (proc_init demo) es"

definition demo_finish :: "nat proc_event list" where
  "demo_finish = demo_events @ [Exhausted, Check, Succeed 2, Receive 2, Pick 3, Spawn 3, Exhausted,
     Check, Succeed 3, Receive 3, Join]"

lemma demo_events_run: "case run_demo demo_events of None \<Rightarrow> False | Some s \<Rightarrow> running s = [2]"
  by code_simp

lemma demo_finish_run:
  "case run_demo demo_finish of None \<Rightarrow> False | Some s \<Rightarrow> phase s = Returned (Ok ()) \<and> completed s = [1, 2, 3]"
  by code_simp

lemma run_demoD: "run_demo es = Some s \<Longrightarrow> proc_run demo 2 es s"
  using proc_execs_run [OF run_init, of demo 2 es s] by (simp add: run_demo_def)

text \<open>C6: in every run of the processor, on every graph whose counters agree with its edges, a
  worker is started for a vertex only after the processor of every one of its predecessors has
  returned successfully, and at most once per vertex.\<close>

theorem process_order:
  assumes "counted g" and "proc_run g limit (xs @ Spawn n # ys) s"
  shows "n \<in> nodes g \<and> Spawn n \<notin> set xs \<and> (\<forall>p. (p, n) \<in> edge_rel g \<longrightarrow> Succeed p \<in> set xs)"
proof -
  obtain t t' where run: "proc_run g limit xs t" and step: "proc_step g limit t (Spawn n) t'"
    using run_split [OF assms(2)] by blast
  have "n \<in> set (blocked t)"
    using step by (auto simp: blocked_def elim!: proc_stepE)
  moreover have "order_inv g t"
    using proc_run_inv [OF run assms(1)] by (simp add: proc_inv_def)
  ultimately have "n \<in> nodes g" "n \<notin> set (started t)" "preds g n \<subseteq> set (completed t)"
    by (auto simp: order_inv_def seen_def)
  then show ?thesis
    using run_events [OF run assms(1)] by auto
qed

theorem process_order_witness: "Succeed 1 \<in> set (butlast demo_events)"
proof -
  obtain s where "run_demo demo_events = Some s"
    using demo_events_run by (auto split: option.splits)
  then show ?thesis
    using process_order [of demo 2 "butlast demo_events" 2 "[]" s] counted_demo
    by (auto simp: run_demoD demo_events_def edges_demo)
qed

text \<open>C7: the processor never has more workers running than its limit, never loses one of its
  steps to a full channel or a full pool (short of its return some step other than a
  cancellation is possible), and every run is finite: at most seven steps per vertex and five more.\<close>

theorem process_live:
  assumes "counted g" and "proc_run g limit es s"
  shows "(0 < limit \<longrightarrow> int (length (running s)) \<le> limit) \<and> length es \<le> 7 * proc_total g + 5
       \<and> ((\<exists>r. phase s = Returned r) \<or> (\<exists>e s'. e \<noteq> Cancel \<and> proc_step g limit s e s'))"
proof -
  have inv: "proc_inv g limit s" using assms(2,1) by (rule proc_run_inv)
  then have "0 < limit \<longrightarrow> int (length (running s)) \<le> limit"
    by (simp add: proc_inv_def count_inv_def)
  then show ?thesis
    using proc_run_length [OF assms(2,1)] proc_progress [OF assms(1) inv] by auto
qed

theorem process_live_witness:
  "\<exists>s. run_demo demo_events = Some s \<and> length (running s) \<le> 2 \<and> length demo_events \<le> 26"
proof -
  obtain s where "run_demo demo_events = Some s"
    using demo_events_run by (auto split: option.splits)
  then show ?thesis
    using process_live [OF counted_demo run_demoD, of demo_events s]
    by (auto simp: demo_eval proc_total_def)
qed

text \<open>the value \<open>Process\<close> returns tells what happened. A nil error means that every vertex was
  processed exactly once, after its predecessors, and that the graph was acyclic; a stall is
  reported only for a graph with a cycle; a processing error names a vertex whose processor
  failed; the context's error is returned only after a cancellation; there is no panic.\<close>

theorem process_result:
  assumes "counted g" and "proc_run g limit es s" and "phase s = Returned r"
  shows "(case r of
      Ok _ \<Rightarrow> distinct (completed s) \<and> set (completed s) = nodes g
         \<and> deps_first ((edge_rel g)\<inverse>) (completed s) \<and> acyclic (edge_rel g)
    | Fail (ProcessFailed n) \<Rightarrow> Crash n \<in> set es
    | Fail (Stalled _ _) \<Rightarrow> \<not> acyclic (edge_rel g)
    | Fail ContextCancelled \<Rightarrow> Cancel \<in> set es
    | Panic \<Rightarrow> False)"
proof -
  have inv: "proc_inv g limit s" using assms(2,1) by (rule proc_run_inv)
  have order: "distinct (completed s)" "set (completed s) \<subseteq> nodes g" "deps_first ((edge_rel g)\<inverse>) (completed s)"
    using inv by (auto simp: proc_inv_def order_inv_def seen_def started_def)
  have all: "set (completed s) = nodes g" if "length (completed s) = proc_total g"
    using that order(1,2) proc_total_card [OF assms(1)]
    by (intro card_subset_eq) (simp_all add: nodes_def distinct_card)
  have "acyclic (edge_rel g)" if "set (completed s) = nodes g"
  proof -
    have "a \<in> nodes g" if "(a, b) \<in> (edge_rel g)\<inverse>" for a b
      using that closed_dag_edge [of g b a] assms(1) by (auto simp: counted_def nodes_iff succs_def)
    then show ?thesis
      using deps_first_acyclic [OF order(3,1)] that by simp
  qed
  then show ?thesis
    using inv assms(3) order all stalled_cyclic [OF assms(1) inv] run_events [OF assms(2,1)]
    by (auto simp: proc_inv_def phase_inv_def split: outcome.splits proc_error.splits)
qed


theorem process_result_witness:
  "\<exists>s. run_demo demo_finish = Some s \<and> set (completed s) = nodes demo \<and> distinct (completed s)"
proof -
  obtain s where "run_demo demo_finish = Some s" "phase s = Returned (Ok ())"
    using demo_finish_run by (auto split: option.splits)
  then show ?thesis
    using process_result [OF counted_demo run_demoD, of demo_finish s "Ok ()"] by auto
qed

end
