(* ===== verification/Discover.thy ===== *)
theory Discover
  imports Dag_Operations
begin

text \<open>
  Graph discovery, \<open>bindings/go/dag/sync/discover.go\<close>: from the root vertices, every vertex is
  resolved, its neighbours are discovered and entered into the graph, and a goroutine is started
  for each of them.

  A goroutine is an entry of \<open>tasks\<close>, named by its position; it knows the goroutine whose error
  group it belongs to. The done channel of a vertex is named by the goroutine that created it. An
  event moves one goroutine by one step, up to its next access to shared state; any order of
  events is a run. The resolver and the discoverer are the environment: their results are part
  of the events.
\<close>

section \<open>State\<close>

datatype discovery_state = Unknown | Discovering | Discovered | Completed | Errored

datatype 'v disc_attr = State_attr discovery_state | Value_attr 'v | Index_attr nat

definition attribute_value :: string where "attribute_value = ''dag/value''"
definition attribute_discovery_state :: string where "attribute_discovery_state = ''dag/discovery-state''"
definition attribute_order_index :: string where "attribute_order_index = ''dag/order-index''"

lemma attribute_keys [simp]:
  "attribute_value \<noteq> attribute_discovery_state" "attribute_discovery_state \<noteq> attribute_value"
  by (simp_all add: attribute_value_def attribute_discovery_state_def)

datatype 'k disc_error =
    NoRoots | ContextDone | ResolveFailed 'k | DiscoverFailed 'k | ReferenceFailed 'k "'k dag_error"

type_synonym ('k, 'v) disc_graph = "('k, 'v disc_attr) dag"

text \<open>Where a goroutine stands. The last three carry the error it is about to return, if any.\<close>

datatype ('k, 'v) disc_phase =
    Entering
  | Admitted
  | Awaiting
  | Registering
  | Resolving
  | Exploring 'v
  | Adding nat
  | Collecting "'k disc_error option"
  | Closing "'k disc_error option"
  | Leaving "'k disc_error option"
  | Finished "'k disc_error option"

record ('k, 'v) disc_task =
  tk_vertex :: 'k
  tk_parent :: "nat option"
  tk_phase :: "('k, 'v) disc_phase"
  tk_neighbours :: "'k list"
  tk_cancelled :: bool
  tk_error :: "'k disc_error option"

record ('k, 'v) discovery =
  graph :: "('k, 'v) disc_graph"
  done_map :: "('k, nat) gomap"
  closed :: "nat list"
  tasks :: "('k, 'v) disc_task list"
  root_cancelled :: bool
  root_error :: "'k disc_error option"
  result :: "('k disc_error, unit) outcome option"

datatype ('k, 'v) disc_event =
    Cancel_ctx
  | Enter nat
  | Claim nat
  | Wake nat
  | Give_up nat
  | Register nat
  | Resolve nat "'v option"
  | Neighbours nat "'k list option"
  | Add_neighbour nat
  | Collect nat
  | Close nat
  | Leave nat
  | Return

definition new_task :: "'k \<Rightarrow> nat option \<Rightarrow> ('k, 'v) disc_task" where
  "new_task k p =
     \<lparr>tk_vertex = k, tk_parent = p, tk_phase = Entering, tk_neighbours = [], tk_cancelled = False, tk_error = None\<rparr>"

text \<open>\<open>Discover\<close> up to the wait for the group of the roots.\<close>

definition disc_init :: "'k list \<Rightarrow> ('k, 'v) discovery" where
  "disc_init ks =
     \<lparr>graph = new_dag, done_map = [], closed = [], tasks = map (\<lambda>k. new_task k None) ks,
      root_cancelled = False, root_error = None,
      result = (if ks = [] then Some (Fail NoRoots) else None)\<rparr>"

section \<open>Access to the state\<close>

definition phase_of :: "('k, 'v) discovery \<Rightarrow> nat \<Rightarrow> ('k, 'v) disc_phase" where
  "phase_of s t = tk_phase (tasks s ! t)"

definition vertex_of :: "('k, 'v) discovery \<Rightarrow> nat \<Rightarrow> 'k" where
  "vertex_of s t = tk_vertex (tasks s ! t)"

definition parent_of :: "('k, 'v) discovery \<Rightarrow> nat \<Rightarrow> nat option" where
  "parent_of s t = tk_parent (tasks s ! t)"

definition upd_task ::
    "nat \<Rightarrow> (('k, 'v) disc_task \<Rightarrow> ('k, 'v) disc_task) \<Rightarrow> ('k, 'v) discovery \<Rightarrow> ('k, 'v) discovery" where
  "upd_task t f s = s\<lparr>tasks := (tasks s)[t := f (tasks s ! t)]\<rparr>"

definition set_phase :: "nat \<Rightarrow> ('k, 'v) disc_phase \<Rightarrow> ('k, 'v) discovery \<Rightarrow> ('k, 'v) discovery" where
  "set_phase t p = upd_task t (\<lambda>x. x\<lparr>tk_phase := p\<rparr>)"

text \<open>The context of a goroutine is done when its group failed, its parent stopped adding
  neighbours, or the parent's own context is done.\<close>

function ctx_done :: "('k, 'v) discovery \<Rightarrow> nat \<Rightarrow> bool" where
  "ctx_done s t =
     (case parent_of s t of
        None \<Rightarrow> root_cancelled s \<or> root_error s \<noteq> None
      | Some p \<Rightarrow>
          if p < t then tk_cancelled (tasks s ! p) \<or> tk_error (tasks s ! p) \<noteq> None \<or> ctx_done s p else False)"
  by pat_completeness auto

termination
  by (relation "measure snd") auto

declare ctx_done.simps [simp del]

text \<open>Writing attributes of a vertex under the write lock; a missing vertex is a nil dereference.\<close>

definition put_attributes ::
    "'k \<Rightarrow> (string \<times> 'v disc_attr) list \<Rightarrow> ('k, 'v) discovery \<Rightarrow> ('k, 'v) discovery" where
  "put_attributes k as s =
     (if contains_vertex (graph s) k
      then s\<lparr>graph := upd_vertex k (\<lambda>x. x\<lparr>Attributes := mcopy (Attributes x) as\<rparr>) (graph s)\<rparr>
      else s\<lparr>result := Some Panic\<rparr>)"

section \<open>Steps of a goroutine\<close>

text \<open>\<open>LoadOrStore\<close> of the done channel.\<close>

definition claim_vertex :: "nat \<Rightarrow> ('k, 'v) discovery \<Rightarrow> ('k, 'v) discovery" where
  "claim_vertex t s =
     (case map_of (done_map s) (vertex_of s t) of
        Some _ \<Rightarrow> set_phase t Awaiting s
      | None \<Rightarrow> set_phase t Registering (s\<lparr>done_map := mput (vertex_of s t) t (done_map s)\<rparr>))"

definition register_vertex :: "nat \<Rightarrow> ('k, 'v) discovery \<Rightarrow> ('k, 'v) discovery" where
  "register_vertex t s =
     set_phase t Resolving
       (if contains_vertex (graph s) (vertex_of s t)
        then put_attributes (vertex_of s t) [(attribute_discovery_state, State_attr Discovering)] s
        else s\<lparr>graph := fst (add_vertex (graph s) (vertex_of s t)
                                 [[(attribute_discovery_state, State_attr Discovering)]])\<rparr>)"

definition after_resolve :: "nat \<Rightarrow> 'v option \<Rightarrow> ('k, 'v) discovery \<Rightarrow> ('k, 'v) discovery" where
  "after_resolve t r s =
     (case r of
        None \<Rightarrow> set_phase t (Closing (Some (ResolveFailed (vertex_of s t))))
                  (put_attributes (vertex_of s t) [(attribute_discovery_state, State_attr Errored)] s)
      | Some v \<Rightarrow> set_phase t (Exploring v)
                  (put_attributes (vertex_of s t)
                     [(attribute_discovery_state, State_attr Discovered), (attribute_value, Value_attr v)] s))"

definition after_discover :: "nat \<Rightarrow> 'v \<Rightarrow> 'k list option \<Rightarrow> ('k, 'v) discovery \<Rightarrow> ('k, 'v) discovery" where
  "after_discover t v r s =
     (case r of
        None \<Rightarrow> set_phase t (Closing (Some (DiscoverFailed (vertex_of s t))))
                  (put_attributes (vertex_of s t) [(attribute_discovery_state, State_attr Errored)] s)
      | Some ns \<Rightarrow> upd_task t (\<lambda>x. x\<lparr>tk_neighbours := ns, tk_phase := (if ns = [] then Collecting None else Adding 0)\<rparr>)
                  (put_attributes (vertex_of s t) [(attribute_value, Value_attr v)] s))"

text \<open>One round of the loop over the neighbours: vertex and edge under the lock, then the goroutine.\<close>

definition add_reference ::
    "('k::linorder, 'v) disc_graph \<Rightarrow> 'k \<Rightarrow> 'k \<Rightarrow> nat \<Rightarrow> ('k, 'v) disc_graph \<times> ('k dag_error, unit) outcome" where
  "add_reference g k n i =
     add_edge
       (if contains_vertex g n then g
        else fst (add_vertex g n [[(attribute_discovery_state, State_attr Unknown)]]))
       k n [[(attribute_order_index, Index_attr i)]]"

definition add_neighbour :: "nat \<Rightarrow> nat \<Rightarrow> ('k::linorder, 'v) discovery \<Rightarrow> ('k, 'v) discovery" where
  "add_neighbour t i s =
     (let ns = tk_neighbours (tasks s ! t); n = ns ! i in
      case add_reference (graph s) (vertex_of s t) n i of
        (g, Ok _) \<Rightarrow>
          (let s' = set_phase t (if Suc i < length ns then Adding (Suc i) else Collecting None) (s\<lparr>graph := g\<rparr>)
           in s'\<lparr>tasks := tasks s' @ [new_task n (Some t)]\<rparr>)
      | (g, Fail e) \<Rightarrow>
          upd_task t (\<lambda>x. x\<lparr>tk_cancelled := True, tk_phase := Collecting (Some (ReferenceFailed n e))\<rparr>) (s\<lparr>graph := g\<rparr>)
      | (g, Panic) \<Rightarrow> s\<lparr>graph := g, result := Some Panic\<rparr>)"

text \<open>\<open>Wait\<close> of the group returned; an error of adding a neighbour comes before the group's.\<close>

definition collect_neighbours :: "nat \<Rightarrow> 'k disc_error option \<Rightarrow> ('k, 'v) discovery \<Rightarrow> ('k, 'v) discovery" where
  "collect_neighbours t added s =
     (let err = (case added of Some e \<Rightarrow> Some e | None \<Rightarrow> tk_error (tasks s ! t))
      in set_phase t (Closing err)
           (put_attributes (vertex_of s t)
              [(attribute_discovery_state, State_attr (if err = None then Completed else Errored))] s))"

text \<open>The error group keeps the first error.\<close>

definition report :: "'k disc_error option \<Rightarrow> 'k disc_error option \<Rightarrow> 'k disc_error option" where
  "report old e = (case old of None \<Rightarrow> e | Some _ \<Rightarrow> old)"

definition leave_group :: "nat \<Rightarrow> 'k disc_error option \<Rightarrow> ('k, 'v) discovery \<Rightarrow> ('k, 'v) discovery" where
  "leave_group t e s =
     set_phase t (Finished e)
       (case parent_of s t of
          None \<Rightarrow> s\<lparr>root_error := report (root_error s) e\<rparr>
        | Some p \<Rightarrow> upd_task p (\<lambda>x. x\<lparr>tk_error := report (tk_error x) e\<rparr>) s)"

definition is_finished :: "('k, 'v) disc_phase \<Rightarrow> bool" where
  "is_finished p = (case p of Finished _ \<Rightarrow> True | _ \<Rightarrow> False)"

definition group_finished :: "('k, 'v) discovery \<Rightarrow> nat option \<Rightarrow> bool" where
  "group_finished s p = list_all (\<lambda>x. tk_parent x = p \<longrightarrow> is_finished (tk_phase x)) (tasks s)"

text \<open>The state after an event, where the event is possible.\<close>

fun disc_exec :: "('k::linorder, 'v) discovery \<Rightarrow> ('k, 'v) disc_event \<Rightarrow> ('k, 'v) discovery option" where
  "disc_exec s Cancel_ctx = (if result s = None then Some (s\<lparr>root_cancelled := True\<rparr>) else None)"
| "disc_exec s (Enter t) =
     (if result s = None \<and> t < length (tasks s) \<and> phase_of s t = Entering
      then Some (set_phase t (if ctx_done s t then Leaving (Some ContextDone) else Admitted) s) else None)"
| "disc_exec s (Claim t) =
     (if result s = None \<and> t < length (tasks s) \<and> phase_of s t = Admitted then Some (claim_vertex t s) else None)"
| "disc_exec s (Wake t) =
     (if result s = None \<and> t < length (tasks s) \<and> phase_of s t = Awaiting
         \<and> (case map_of (done_map s) (vertex_of s t) of Some c \<Rightarrow> c \<in> set (closed s) | None \<Rightarrow> False)
      then Some (set_phase t (Leaving None) s) else None)"
| "disc_exec s (Give_up t) =
     (if result s = None \<and> t < length (tasks s) \<and> phase_of s t = Awaiting \<and> ctx_done s t
      then Some (set_phase t (Leaving (Some ContextDone)) s) else None)"
| "disc_exec s (Register t) =
     (if result s = None \<and> t < length (tasks s) \<and> phase_of s t = Registering then Some (register_vertex t s) else None)"
| "disc_exec s (Resolve t r) =
     (if result s = None \<and> t < length (tasks s) \<and> phase_of s t = Resolving then Some (after_resolve t r s) else None)"
| "disc_exec s (Neighbours t r) =
     (if result s = None \<and> t < length (tasks s)
      then (case phase_of s t of Exploring v \<Rightarrow> Some (after_discover t v r s) | _ \<Rightarrow> None) else None)"
| "disc_exec s (Add_neighbour t) =
     (if result s = None \<and> t < length (tasks s)
      then (case phase_of s t of Adding i \<Rightarrow> Some (add_neighbour t i s) | _ \<Rightarrow> None) else None)"
| "disc_exec s (Collect t) =
     (if result s = None \<and> t < length (tasks s) \<and> group_finished s (Some t)
      then (case phase_of s t of Collecting e \<Rightarrow> Some (collect_neighbours t e s) | _ \<Rightarrow> None) else None)"
| "disc_exec s (Close t) =
     (if result s = None \<and> t < length (tasks s)
      then (case phase_of s t of Closing e \<Rightarrow> Some (set_phase t (Leaving e) (s\<lparr>closed := t # closed s\<rparr>)) | _ \<Rightarrow> None) else None)"
| "disc_exec s (Leave t) =
     (if result s = None \<and> t < length (tasks s)
      then (case phase_of s t of Leaving e \<Rightarrow> Some (leave_group t e s) | _ \<Rightarrow> None) else None)"
| "disc_exec s Return =
     (if result s = None \<and> group_finished s None
      then Some (s\<lparr>result := Some (case root_error s of None \<Rightarrow> Ok () | Some e \<Rightarrow> Fail e)\<rparr>) else None)"

inductive disc_run :: "'k::linorder list \<Rightarrow> ('k, 'v) disc_event list \<Rightarrow> ('k, 'v) discovery \<Rightarrow> bool" for ks where
  run_start: "disc_run ks [] (disc_init ks)"
| run_step: "disc_run ks es s \<Longrightarrow> disc_exec s e = Some s' \<Longrightarrow> disc_run ks (es @ [e]) s'"

section \<open>Reading the result\<close>

fun place_edges :: "('k \<times> (string, 'v disc_attr) gomap) list \<Rightarrow> 'k option list \<Rightarrow> (unit, 'k option list) outcome" where
  "place_edges [] out = Ok out"
| "place_edges ((k, a) # es) out =
     (case map_of a attribute_order_index of
        Some (Index_attr i) \<Rightarrow> if i < length out then place_edges es (out[i := Some k]) else Panic
      | _ \<Rightarrow> Panic)"

text \<open>\<open>CurrentEdges\<close>; \<open>None\<close> is the zero key of a slot that was never written.\<close>

definition current_edges :: "('k, 'v) disc_graph \<Rightarrow> 'k \<Rightarrow> (unit, 'k option list) outcome" where
  "current_edges g k =
     (case get_vertex g k of
        None \<Rightarrow> Ok []
      | Some x \<Rightarrow> place_edges (Edges x) (replicate (length (Edges x)) None))"

definition current_value :: "('k, 'v) disc_graph \<Rightarrow> 'k \<Rightarrow> 'v option" where
  "current_value g k =
     (case get_vertex g k of
        None \<Rightarrow> None
      | Some x \<Rightarrow> (case map_of (Attributes x) attribute_value of Some (Value_attr v) \<Rightarrow> Some v | _ \<Rightarrow> None))"

definition current_state :: "('k, 'v) disc_graph \<Rightarrow> 'k \<Rightarrow> (unit, discovery_state) outcome" where
  "current_state g k =
     (case get_vertex g k of
        None \<Rightarrow> Ok Unknown
      | Some x \<Rightarrow> (case map_of (Attributes x) attribute_discovery_state of Some (State_attr d) \<Rightarrow> Ok d | _ \<Rightarrow> Panic))"

end
