(* ===== verification/Discover_Invariant.thy ===== *)
theory Discover_Invariant
  imports Discover
begin

text \<open>
  The states a discovery can reach: reading an updated state, what the steps do to the graph, the
  shape every state has (who owns a vertex, which goroutine belongs to which group) and the
  record of successful work.
\<close>

section \<open>Reading an updated state\<close>

definition neighbours_of :: "('k, 'v) discovery \<Rightarrow> nat \<Rightarrow> 'k list" where
  "neighbours_of s t = tk_neighbours (tasks s ! t)"

definition error_of :: "('k, 'v) discovery \<Rightarrow> nat \<Rightarrow> 'k disc_error option" where
  "error_of s t = tk_error (tasks s ! t)"

abbreviation n_tasks :: "('k, 'v) discovery \<Rightarrow> nat" where
  "n_tasks s \<equiv> length (tasks s)"

abbreviation owner_of :: "('k, 'v) discovery \<Rightarrow> 'k \<Rightarrow> nat option" where
  "owner_of s \<equiv> map_of (done_map s)"

named_theorems disc_reads \<open>components of an updated state\<close>

lemma read_upd_task [disc_reads]:
  "phase_of (upd_task t f s) u = (if u = t \<and> t < n_tasks s then tk_phase (f (tasks s ! t)) else phase_of s u)"
  "vertex_of (upd_task t f s) u = (if u = t \<and> t < n_tasks s then tk_vertex (f (tasks s ! t)) else vertex_of s u)"
  "parent_of (upd_task t f s) u = (if u = t \<and> t < n_tasks s then tk_parent (f (tasks s ! t)) else parent_of s u)"
  "neighbours_of (upd_task t f s) u = (if u = t \<and> t < n_tasks s then tk_neighbours (f (tasks s ! t)) else neighbours_of s u)"
  "error_of (upd_task t f s) u = (if u = t \<and> t < n_tasks s then tk_error (f (tasks s ! t)) else error_of s u)"
  "n_tasks (upd_task t f s) = n_tasks s"
  "graph (upd_task t f s) = graph s" "done_map (upd_task t f s) = done_map s" "closed (upd_task t f s) = closed s"
  "result (upd_task t f s) = result s" "root_error (upd_task t f s) = root_error s"
  by (auto simp: upd_task_def phase_of_def vertex_of_def parent_of_def neighbours_of_def error_of_def
      nth_list_update list_update_beyond not_less)

lemma read_set_phase [disc_reads]:
  "phase_of (set_phase t p s) u = (if u = t \<and> t < n_tasks s then p else phase_of s u)"
  "vertex_of (set_phase t p s) u = vertex_of s u"
  "parent_of (set_phase t p s) u = parent_of s u"
  "neighbours_of (set_phase t p s) u = neighbours_of s u"
  "error_of (set_phase t p s) u = error_of s u"
  "n_tasks (set_phase t p s) = n_tasks s"
  "graph (set_phase t p s) = graph s" "done_map (set_phase t p s) = done_map s" "closed (set_phase t p s) = closed s"
  "result (set_phase t p s) = result s" "root_error (set_phase t p s) = root_error s"
  by (simp_all add: set_phase_def disc_reads)
    (simp_all add: vertex_of_def parent_of_def neighbours_of_def error_of_def)

lemma read_put_attributes [disc_reads]:
  "phase_of (put_attributes k as s) u = phase_of s u" "vertex_of (put_attributes k as s) u = vertex_of s u"
  "parent_of (put_attributes k as s) u = parent_of s u" "neighbours_of (put_attributes k as s) u = neighbours_of s u"
  "error_of (put_attributes k as s) u = error_of s u" "n_tasks (put_attributes k as s) = n_tasks s"
  "done_map (put_attributes k as s) = done_map s" "closed (put_attributes k as s) = closed s"
  "root_error (put_attributes k as s) = root_error s"
  by (auto simp: put_attributes_def phase_of_def vertex_of_def parent_of_def neighbours_of_def error_of_def)

lemma read_record [disc_reads]:
  "phase_of (s\<lparr>graph := g\<rparr>) u = phase_of s u" "vertex_of (s\<lparr>graph := g\<rparr>) u = vertex_of s u"
  "parent_of (s\<lparr>graph := g\<rparr>) u = parent_of s u" "neighbours_of (s\<lparr>graph := g\<rparr>) u = neighbours_of s u"
  "error_of (s\<lparr>graph := g\<rparr>) u = error_of s u"
  "phase_of (s\<lparr>done_map := m\<rparr>) u = phase_of s u" "vertex_of (s\<lparr>done_map := m\<rparr>) u = vertex_of s u"
  "parent_of (s\<lparr>done_map := m\<rparr>) u = parent_of s u" "neighbours_of (s\<lparr>done_map := m\<rparr>) u = neighbours_of s u"
  "error_of (s\<lparr>done_map := m\<rparr>) u = error_of s u"
  "phase_of (s\<lparr>closed := c\<rparr>) u = phase_of s u" "vertex_of (s\<lparr>closed := c\<rparr>) u = vertex_of s u"
  "parent_of (s\<lparr>closed := c\<rparr>) u = parent_of s u" "neighbours_of (s\<lparr>closed := c\<rparr>) u = neighbours_of s u"
  "error_of (s\<lparr>closed := c\<rparr>) u = error_of s u"
  "phase_of (s\<lparr>root_error := e\<rparr>) u = phase_of s u" "vertex_of (s\<lparr>root_error := e\<rparr>) u = vertex_of s u"
  "parent_of (s\<lparr>root_error := e\<rparr>) u = parent_of s u" "neighbours_of (s\<lparr>root_error := e\<rparr>) u = neighbours_of s u"
  "error_of (s\<lparr>root_error := e\<rparr>) u = error_of s u"
  "phase_of (s\<lparr>root_cancelled := b\<rparr>) u = phase_of s u" "vertex_of (s\<lparr>root_cancelled := b\<rparr>) u = vertex_of s u"
  "parent_of (s\<lparr>root_cancelled := b\<rparr>) u = parent_of s u" "neighbours_of (s\<lparr>root_cancelled := b\<rparr>) u = neighbours_of s u"
  "error_of (s\<lparr>root_cancelled := b\<rparr>) u = error_of s u"
  "phase_of (s\<lparr>result := r\<rparr>) u = phase_of s u" "vertex_of (s\<lparr>result := r\<rparr>) u = vertex_of s u"
  "parent_of (s\<lparr>result := r\<rparr>) u = parent_of s u" "neighbours_of (s\<lparr>result := r\<rparr>) u = neighbours_of s u"
  "error_of (s\<lparr>result := r\<rparr>) u = error_of s u"
  by (simp_all add: phase_of_def vertex_of_def parent_of_def neighbours_of_def error_of_def)

definition spawn :: "'k \<Rightarrow> nat option \<Rightarrow> ('k, 'v) discovery \<Rightarrow> ('k, 'v) discovery" where
  "spawn k p s = s\<lparr>tasks := tasks s @ [new_task k p]\<rparr>"

lemma read_spawn [disc_reads]:
  "u < n_tasks s \<Longrightarrow> phase_of (spawn k p s) u = phase_of s u" "u = n_tasks s \<Longrightarrow> phase_of (spawn k p s) u = Entering"
  "u < n_tasks s \<Longrightarrow> vertex_of (spawn k p s) u = vertex_of s u" "u = n_tasks s \<Longrightarrow> vertex_of (spawn k p s) u = k"
  "u < n_tasks s \<Longrightarrow> parent_of (spawn k p s) u = parent_of s u" "u = n_tasks s \<Longrightarrow> parent_of (spawn k p s) u = p"
  "u < n_tasks s \<Longrightarrow> neighbours_of (spawn k p s) u = neighbours_of s u"
  "u = n_tasks s \<Longrightarrow> neighbours_of (spawn k p s) u = []"
  "u < n_tasks s \<Longrightarrow> error_of (spawn k p s) u = error_of s u" "u = n_tasks s \<Longrightarrow> error_of (spawn k p s) u = None"
  "n_tasks (spawn k p s) = Suc (n_tasks s)"
  "graph (spawn k p s) = graph s" "done_map (spawn k p s) = done_map s" "closed (spawn k p s) = closed s"
  "result (spawn k p s) = result s" "root_error (spawn k p s) = root_error s"
  by (simp_all add: spawn_def new_task_def phase_of_def vertex_of_def parent_of_def neighbours_of_def error_of_def
      nth_append)

lemma read_task [disc_reads]:
  "tk_phase (tasks s ! t) = phase_of s t" "tk_vertex (tasks s ! t) = vertex_of s t"
  "tk_parent (tasks s ! t) = parent_of s t" "tk_neighbours (tasks s ! t) = neighbours_of s t"
  "tk_error (tasks s ! t) = error_of s t"
  by (simp_all add: phase_of_def vertex_of_def parent_of_def neighbours_of_def error_of_def)

section \<open>What the steps do to the graph\<close>

definition attributes_of :: "('k, 'v) disc_graph \<Rightarrow> 'k \<Rightarrow> (string, 'v disc_attr) gomap option" where
  "attributes_of g k = map_option Attributes (get_vertex g k)"

definition order_of :: "('k, 'v) disc_graph \<Rightarrow> 'k \<Rightarrow> 'k \<Rightarrow> 'v disc_attr option" where
  "order_of g k w = Option.bind (get_vertex g k) (\<lambda>x. Option.bind (map_of (Edges x) w) (\<lambda>a. map_of a attribute_order_index))"

definition write_attributes :: "'k \<Rightarrow> (string, 'v disc_attr) gomap \<Rightarrow> ('k, 'v) disc_graph \<Rightarrow> ('k, 'v) disc_graph" where
  "write_attributes k as g = upd_vertex k (\<lambda>x. x\<lparr>Attributes := mcopy (Attributes x) as\<rparr>) g"

lemma get_vertex_write_attributes:
  "get_vertex (write_attributes k as g) j =
     (if j = k then map_option (\<lambda>x. x\<lparr>Attributes := mcopy (Attributes x) as\<rparr>) (get_vertex g k) else get_vertex g j)"
  by (simp add: write_attributes_def)

lemma write_attributes_graph [simp]:
  "nodes (write_attributes k as g) = nodes g" "edge_rel (write_attributes k as g) = edge_rel g"
  "order_of (write_attributes k as g) = order_of g"
  "attributes_of (write_attributes k as g) j =
     (if j = k then map_option (\<lambda>a. mcopy a as) (attributes_of g k) else attributes_of g j)"
  by (auto simp: write_attributes_def nodes_def edge_rel_iff order_of_def attributes_of_def option.map_comp comp_def
      fun_eq_iff simp del: set_map split: if_splits bind_splits)

lemma wf_write_attributes [simp]:
  assumes "wf_dag g"
  shows "wf_dag (write_attributes k as g)"
proof -
  have "get_vertex (write_attributes k as g) j \<noteq> None" if "get_vertex g j \<noteq> None" for j
    using that by (auto simp: get_vertex_write_attributes)
  moreover have "mok (Vertices (write_attributes k as g))"
    using assms by (simp add: wf_dag_iff write_attributes_def)
  ultimately show ?thesis
    using assms by (auto simp: wf_dag_iff get_vertex_write_attributes)
qed

lemma put_attributes_graph:
  assumes "k \<in> nodes (graph s)"
  shows "graph (put_attributes k as s) = write_attributes k as (graph s)" and "result (put_attributes k as s) = result s"
  using assms by (auto simp: put_attributes_def contains_vertex_def nodes_iff write_attributes_def)

lemma contains_vertex_iff: "contains_vertex g k \<longleftrightarrow> k \<in> nodes g"
  by (simp add: contains_vertex_def nodes_iff)

lemma add_vertex_graph:
  assumes "wf_dag g" and "k \<notin> nodes g"
  shows "nodes (fst (add_vertex g k [as])) = insert k (nodes g)"
    and "attributes_of (fst (add_vertex g k [as])) j = (if j = k then Some (mcopy [] as) else attributes_of g j)"
    and "order_of (fst (add_vertex g k [as])) = order_of g"
  using assms by (auto simp: add_vertex_nodes attributes_of_def order_of_def get_vertex_add_vertex nodes_iff fun_eq_iff)

text \<open>Adding an edge leaves attributes alone and labels only the new edge.\<close>

lemma add_edge_attributes_of:
  assumes "wf_dag g"
  shows "attributes_of (fst (add_edge g u w as)) j = attributes_of g j"
  by (cases rule: add_edge_cases [OF assms, of u w as])
    (auto simp: attributes_of_def get_vertex_copy_edge_attributes get_vertex_link option.map_comp comp_def)

lemma add_edge_order_of:
  assumes "wf_dag g" and "add_edge g u w [[(attribute_order_index, a)]] = (g', Ok ())"
  shows "order_of g' k = (if k = u then (order_of g u)(w \<mapsto> a) else order_of g k)"
  using assms(1)
proof (cases rule: add_edge_cases [of g u w "[[(attribute_order_index, a)]]"])
  case (present x)
  then have "map_of (Edges x) w \<noteq> None" by (auto simp: edge_rel_iff)
  with present assms(2) show ?thesis
    by (auto simp: order_of_def get_vertex_copy_edge_attributes map_of_mupd fun_eq_iff split: bind_splits)
next
  case (added x)
  with assms(2) show ?thesis
    by (auto simp: order_of_def get_vertex_copy_edge_attributes get_vertex_link map_of_mupd fun_eq_iff
        split: bind_splits if_splits)
qed (use assms(2) in auto)

lemma add_edge_result:
  assumes "wf_dag g" and "add_edge g u w as = (g', r)"
  shows "r \<noteq> Panic" and "r = Ok () \<Longrightarrow> edge_rel g' = insert (u, w) (edge_rel g)" and "r \<noteq> Ok () \<Longrightarrow> g' = g"
proof -
  have "r \<noteq> Panic \<and> (r \<noteq> Ok () \<longrightarrow> g' = g)"
    using assms(1) by (cases rule: add_edge_cases [of g u w as]) (use assms(2) in auto)
  then show "r \<noteq> Panic" and "r \<noteq> Ok () \<Longrightarrow> g' = g" by blast+
  show "edge_rel g' = insert (u, w) (edge_rel g)" if "r = Ok ()"
    using add_edge_post(2) [OF assms(1), of u w as g'] assms(2) that by simp
qed

lemma add_reference_spec:
  assumes "wf_dag g" and "k \<in> nodes g" and "add_reference g k n i = (g', r)"
  shows "wf_dag g'" and "nodes g' = insert n (nodes g)" and "r \<noteq> Panic"
    and "edge_rel g' = (if r = Ok () then insert (k, n) (edge_rel g) else edge_rel g)"
    and "j \<in> nodes g \<Longrightarrow> attributes_of g' j = attributes_of g j"
    and "order_of g' = (if r = Ok () then (order_of g)(k := (order_of g k)(n \<mapsto> Index_attr i)) else order_of g)"
proof -
  define h where "h = (if contains_vertex g n then g
    else fst (add_vertex g n [[(attribute_discovery_state, State_attr Unknown)]]))"
  have h: "wf_dag h" "nodes h = insert n (nodes g)" "edge_rel h = edge_rel g" "order_of h = order_of g"
    "j \<in> nodes g \<Longrightarrow> attributes_of h j = attributes_of g j" for j
    using assms(1) by (auto simp: h_def contains_vertex_iff wf_dag_add_vertex add_vertex_graph)
  have g': "add_edge h k n [[(attribute_order_index, Index_attr i)]] = (g', r)"
    using assms(3) by (simp add: add_reference_def h_def)
  show "wf_dag g'" using wf_dag_add_edge [OF h(1), of k n "[[(attribute_order_index, Index_attr i)]]"] g' by simp
  show "nodes g' = insert n (nodes g)"
    using edge_rel_add_edge(1) [OF h(1), of k n "[[(attribute_order_index, Index_attr i)]]"] g' h(2) by simp
  show "r \<noteq> Panic" and "edge_rel g' = (if r = Ok () then insert (k, n) (edge_rel g) else edge_rel g)"
    using add_edge_result [OF h(1) g'] h(3) by auto
  show "attributes_of g' j = attributes_of g j" if "j \<in> nodes g"
    using add_edge_attributes_of [OF h(1), of k n "[[(attribute_order_index, Index_attr i)]]" j] g' h(5) [OF that] by simp
  show "order_of g' = (if r = Ok () then (order_of g)(k := (order_of g k)(n \<mapsto> Index_attr i)) else order_of g)"
    using add_edge_order_of [OF h(1), of k n "Index_attr i" g'] add_edge_result(3) [OF h(1) g'] g' h(4)
    by (auto simp: fun_eq_iff)
qed

section \<open>The shape of a state\<close>

fun owner_phase :: "('k, 'v) disc_phase \<Rightarrow> bool" where
  "owner_phase Registering = True"
| "owner_phase Resolving = True"
| "owner_phase (Exploring v) = True"
| "owner_phase (Adding i) = True"
| "owner_phase (Collecting e) = True"
| "owner_phase (Closing e) = True"
| "owner_phase p = False"

fun left_phase :: "('k, 'v) disc_phase \<Rightarrow> bool" where
  "left_phase (Leaving e) = True"
| "left_phase (Finished e) = True"
| "left_phase p = False"

lemma owner_not_left [simp]: "owner_phase p \<Longrightarrow> \<not> left_phase p"
  by (cases p) auto

fun group_phase :: "('k, 'v) disc_phase \<Rightarrow> bool" where
  "group_phase (Adding i) = True"
| "group_phase (Collecting e) = True"
| "group_phase (Closing e) = True"
| "group_phase (Leaving e) = True"
| "group_phase (Finished e) = True"
| "group_phase p = False"

definition graph_ok :: "('k::linorder, 'v) discovery \<Rightarrow> bool" where
  "graph_ok s \<longleftrightarrow> wf_dag (graph s)
     \<and> (\<forall>k t. owner_of s k = Some t \<longrightarrow> phase_of s t \<noteq> Registering \<longrightarrow> k \<in> nodes (graph s))"

definition groups_ok :: "('k, 'v) discovery \<Rightarrow> bool" where
  "groups_ok s \<longleftrightarrow> (\<forall>t < n_tasks s. \<forall>q. parent_of s t = Some q \<longrightarrow>
     q < t \<and> owner_of s (vertex_of s q) = Some q \<and> group_phase (phase_of s q)
     \<and> (vertex_of s q, vertex_of s t) \<in> edge_rel (graph s))"

definition owned_ok :: "('k, 'v) discovery \<Rightarrow> bool" where
  "owned_ok s \<longleftrightarrow> (\<forall>k t. owner_of s k = Some t \<longrightarrow>
     t < n_tasks s \<and> vertex_of s t = k \<and> (t \<in> set (closed s) \<or> owner_phase (phase_of s t)))"

definition owning_ok :: "('k, 'v) discovery \<Rightarrow> bool" where
  "owning_ok s \<longleftrightarrow> (\<forall>t < n_tasks s. owner_phase (phase_of s t) \<longrightarrow> owner_of s (vertex_of s t) = Some t)"

definition phases_ok :: "('k, 'v) discovery \<Rightarrow> bool" where
  "phases_ok s \<longleftrightarrow> (\<forall>t \<in> set (closed s). t < n_tasks s \<and> left_phase (phase_of s t))
     \<and> (\<forall>t < n_tasks s. (phase_of s t = Awaiting \<longrightarrow> owner_of s (vertex_of s t) \<noteq> None)
     \<and> (\<forall>i. phase_of s t = Adding i \<longrightarrow> i < length (neighbours_of s t)))"

definition shape :: "('k::linorder, 'v) discovery \<Rightarrow> bool" where
  "shape s \<longleftrightarrow> graph_ok s \<and> groups_ok s \<and> owned_ok s \<and> owning_ok s \<and> phases_ok s \<and> result s \<noteq> Some Panic"

lemmas shape_defs = shape_def graph_ok_def groups_ok_def owned_ok_def owning_ok_def phases_ok_def

lemma shape_init [simp]: "shape (disc_init ks)"
  by (auto simp: shape_defs disc_init_def new_task_def parent_of_def phase_of_def)

lemma shape_owner_node:
  "shape s \<Longrightarrow> t < n_tasks s \<Longrightarrow> owner_phase (phase_of s t) \<Longrightarrow> phase_of s t \<noteq> Registering
    \<Longrightarrow> vertex_of s t \<in> nodes (graph s)"
  unfolding shape_def graph_ok_def owning_ok_def by blast

text \<open>The cases of a round of the loop over the neighbours.\<close>

lemma add_neighbour_cases:
  assumes "shape s" and "t < n_tasks s" and "phase_of s t = Adding i"
  obtains (added) g where
    "add_neighbour t i s =
       spawn (neighbours_of s t ! i) (Some t)
         (set_phase t (if Suc i < length (neighbours_of s t) then Adding (Suc i) else Collecting None) (s\<lparr>graph := g\<rparr>))"
    "add_reference (graph s) (vertex_of s t) (neighbours_of s t ! i) i = (g, Ok ())"
  | (refused) g e where
    "add_neighbour t i s =
       upd_task t (\<lambda>x. x\<lparr>tk_cancelled := True,
         tk_phase := Collecting (Some (ReferenceFailed (neighbours_of s t ! i) e))\<rparr>) (s\<lparr>graph := g\<rparr>)"
    "add_reference (graph s) (vertex_of s t) (neighbours_of s t ! i) i = (g, Fail e)"
proof -
  have wf: "wf_dag (graph s)" and node: "vertex_of s t \<in> nodes (graph s)"
    using shape_owner_node [OF assms(1,2)] assms by (auto simp: shape_def graph_ok_def)
  obtain g r where r: "add_reference (graph s) (vertex_of s t) (neighbours_of s t ! i) i = (g, r)"
    by (cases "add_reference (graph s) (vertex_of s t) (neighbours_of s t ! i) i") auto
  show thesis
  proof (cases r)
    case (Ok u)
    then show thesis
      using r by (intro added [where g = g]) (auto simp: add_neighbour_def neighbours_of_def spawn_def Let_def)
  next
    case (Fail e)
    then show thesis
      using r by (intro refused [where g = g and e = e]) (auto simp: add_neighbour_def neighbours_of_def Let_def)
  next
    case Panic
    then show thesis
      using add_reference_spec(3) [OF wf node r] by simp
  qed
qed

text \<open>A step that keeps the owners and lets the graph grow, seen through the phases before and after.\<close>

lemma shape_step:
  assumes "shape s" and t: "t < n_tasks s"
    and same: "done_map s' = done_map s" "closed s' = closed s" "n_tasks s' = n_tasks s"
      "vertex_of s' = vertex_of s" "parent_of s' = parent_of s"
    and grown: "wf_dag (graph s')" "nodes (graph s) \<subseteq> nodes (graph s')" "edge_rel (graph s) \<subseteq> edge_rel (graph s')"
    and others: "\<And>u. u \<noteq> t \<Longrightarrow> phase_of s' u = phase_of s u \<and> neighbours_of s' u = neighbours_of s u"
    and owner: "owner_phase (phase_of s' t) = owner_phase (phase_of s t)"
    and kept: "group_phase (phase_of s t) \<Longrightarrow> group_phase (phase_of s' t)"
      "left_phase (phase_of s t) \<Longrightarrow> left_phase (phase_of s' t)"
    and node: "owner_phase (phase_of s t) \<Longrightarrow> vertex_of s t \<in> nodes (graph s')"
    and await: "phase_of s' t = Awaiting \<Longrightarrow> owner_of s (vertex_of s t) \<noteq> None"
    and bound: "\<And>i. phase_of s' t = Adding i \<Longrightarrow> i < length (neighbours_of s' t)"
    and ok: "result s' \<noteq> Some Panic"
  shows "shape s'"
proof -
  have "graph_ok s'"
    unfolding graph_ok_def same
  proof (intro conjI allI impI)
    fix k u assume ku: "owner_of s k = Some u" "phase_of s' u \<noteq> Registering"
    show "k \<in> nodes (graph s')"
    proof (cases "u = t")
      case True
      show ?thesis
      proof (cases "owner_phase (phase_of s t)")
        case False
        then have "phase_of s t \<noteq> Registering" by auto
        with assms(1) ku True show ?thesis
          using grown(2) by (auto simp: shape_def graph_ok_def)
      qed (use assms(1) ku True node in \<open>auto simp: shape_def owned_ok_def\<close>)
    next
      case False
      with assms(1) ku others show ?thesis
        using grown(2) by (auto simp: shape_def graph_ok_def)
    qed
  qed (rule grown(1))
  moreover have "groups_ok s'"
    unfolding groups_ok_def same
  proof (intro allI impI)
    fix u q assume "u < n_tasks s" "parent_of s u = Some q"
    with assms(1) have "q < u \<and> owner_of s (vertex_of s q) = Some q \<and> group_phase (phase_of s q)
      \<and> (vertex_of s q, vertex_of s u) \<in> edge_rel (graph s)" by (simp add: shape_def groups_ok_def)
    then show "q < u \<and> owner_of s (vertex_of s q) = Some q \<and> group_phase (phase_of s' q)
      \<and> (vertex_of s q, vertex_of s u) \<in> edge_rel (graph s')"
      using kept(1) others [of q] grown(3) by (cases "q = t") auto
  qed
  moreover have "owned_ok s'"
    using assms(1) owner others unfolding shape_def owned_ok_def same by metis
  moreover have "owning_ok s'"
    using assms(1) owner others unfolding shape_def owning_ok_def same by metis
  moreover have "phases_ok s'"
    unfolding phases_ok_def same
  proof (intro conjI allI impI ballI)
    fix u assume "u \<in> set (closed s)"
    with assms(1) have "u < n_tasks s \<and> left_phase (phase_of s u)" by (simp add: shape_def phases_ok_def)
    then show "u < n_tasks s" and "left_phase (phase_of s' u)"
      using kept(2) others [of u] by (cases "u = t"; auto)+
  next
    fix u assume u: "u < n_tasks s"
    show "owner_of s (vertex_of s u) \<noteq> None" if "phase_of s' u = Awaiting"
      using assms(1) u that await others [of u] by (cases "u = t") (auto simp: shape_def phases_ok_def)
    show "i < length (neighbours_of s' u)" if "phase_of s' u = Adding i" for i
      using assms(1) u that bound others [of u] by (cases "u = t") (auto simp: shape_def phases_ok_def)
  qed
  ultimately show ?thesis
    using ok by (simp add: shape_def)
qed

lemma shape_claim:
  assumes "shape s" and t: "t < n_tasks s" and ph: "phase_of s t = Admitted"
  shows "shape (claim_vertex t s)"
proof (cases "owner_of s (vertex_of s t)")
  case None
  have nclosed: "t \<notin> set (closed s)"
    using assms by (force simp: shape_def phases_ok_def)
  have nowner: "owner_of s k \<noteq> Some t" for k
    using assms nclosed by (force simp: shape_def owned_ok_def)
  have reads: "done_map (claim_vertex t s) = mput (vertex_of s t) t (done_map s)"
    "phase_of (claim_vertex t s) u = (if u = t then Registering else phase_of s u)"
    "vertex_of (claim_vertex t s) = vertex_of s" "parent_of (claim_vertex t s) = parent_of s"
    "neighbours_of (claim_vertex t s) = neighbours_of s" "graph (claim_vertex t s) = graph s"
    "n_tasks (claim_vertex t s) = n_tasks s" "closed (claim_vertex t s) = closed s"
    "result (claim_vertex t s) = result s" for u
    using t None by (auto simp: claim_vertex_def disc_reads fun_eq_iff)
  have "graph_ok (claim_vertex t s)"
    using assms(1) None by (auto simp: shape_def graph_ok_def reads)
  moreover have "groups_ok (claim_vertex t s)"
    unfolding groups_ok_def reads
  proof (intro allI impI)
    fix u q assume "u < n_tasks s" "parent_of s u = Some q"
    with assms(1) have *: "q < u \<and> owner_of s (vertex_of s q) = Some q \<and> group_phase (phase_of s q)
      \<and> (vertex_of s q, vertex_of s u) \<in> edge_rel (graph s)" by (simp add: shape_def groups_ok_def)
    with ph have "q \<noteq> t" by auto
    with * None show "q < u \<and> map_of (mput (vertex_of s t) t (done_map s)) (vertex_of s q) = Some q
      \<and> group_phase (if q = t then Registering else phase_of s q) \<and> (vertex_of s q, vertex_of s u) \<in> edge_rel (graph s)"
      by auto
  qed
  moreover have "owned_ok (claim_vertex t s)"
    using assms(1) t nowner by (auto simp: shape_def owned_ok_def reads)
  moreover have "owning_ok (claim_vertex t s)"
    using assms(1) t None by (auto simp: shape_def owning_ok_def reads)
  moreover have "phases_ok (claim_vertex t s)"
    using assms(1) nclosed by (auto simp: shape_def phases_ok_def reads)
  ultimately show ?thesis
    using assms(1) by (simp add: shape_def reads)
next
  case (Some c)
  then have "claim_vertex t s = set_phase t Awaiting s"
    by (simp add: claim_vertex_def)
  moreover have "wf_dag (graph s)" "result s \<noteq> Some Panic"
    using assms(1) by (simp_all add: shape_def graph_ok_def)
  ultimately show ?thesis
    using Some ph t by (intro shape_step [OF assms(1) t]) (auto simp: disc_reads fun_eq_iff)
qed

lemma shape_wf: "shape s \<Longrightarrow> wf_dag (graph s)" and shape_result: "shape s \<Longrightarrow> result s \<noteq> Some Panic"
  by (simp_all add: shape_def graph_ok_def)

lemma shape_phase:
  assumes "shape s" and t: "t < n_tasks s" and "\<not> owner_phase (phase_of s t)" and "\<not> owner_phase p" and "p \<noteq> Awaiting"
    and "group_phase (phase_of s t) \<Longrightarrow> group_phase p" and "left_phase (phase_of s t) \<Longrightarrow> left_phase p"
  shows "shape (set_phase t p s)"
proof -
  have "p \<noteq> Adding i" for i
    using assms(4) by auto
  then show ?thesis
    using assms shape_wf [OF assms(1)] shape_result [OF assms(1)]
    by (intro shape_step [OF assms(1) t]) (auto simp: disc_reads fun_eq_iff)
qed

text \<open>The steps that only write attributes of the vertex and move on.\<close>

lemma shape_write:
  assumes "shape s" and t: "t < n_tasks s" and owner: "owner_phase (phase_of s t)" "owner_phase p"
    and "\<not> group_phase (phase_of s t) \<or> group_phase p" and "\<And>i. p \<noteq> Adding i"
    and node: "vertex_of s t \<in> nodes (graph s)"
  shows "shape (set_phase t p (put_attributes (vertex_of s t) as s))"
  using assms shape_wf [OF assms(1)] shape_result [OF assms(1)]
  by (intro shape_step [OF assms(1) t]) (auto simp: disc_reads put_attributes_graph fun_eq_iff)

lemma shape_register:
  assumes "shape s" and t: "t < n_tasks s" and ph: "phase_of s t = Registering"
  shows "shape (register_vertex t s)"
proof (cases "vertex_of s t \<in> nodes (graph s)")
  case True
  then show ?thesis
    using shape_write [OF assms(1) t _ _ _ _ True, of Resolving] ph by (simp add: register_vertex_def contains_vertex_iff)
next
  case False
  then show ?thesis
    using ph t shape_wf [OF assms(1)] shape_result [OF assms(1)] unfolding register_vertex_def
    by (intro shape_step [OF assms(1) t])
      (auto simp: disc_reads contains_vertex_iff add_vertex_graph wf_dag_add_vertex fun_eq_iff)
qed

lemma shape_after_discover:
  assumes "shape s" and t: "t < n_tasks s" and ph: "phase_of s t = Exploring v"
  shows "shape (after_discover t v r s)"
proof (cases r)
  case None
  then show ?thesis
    using shape_write [OF assms(1) t] shape_owner_node [OF assms(1) t] ph by (simp add: after_discover_def)
next
  case (Some ns)
  have "vertex_of s t \<in> nodes (graph s)"
    using shape_owner_node [OF assms(1) t] ph by simp
  with Some show ?thesis
    using ph t shape_wf [OF assms(1)] shape_result [OF assms(1)]
    by (intro shape_step [OF assms(1) t]) (auto simp: after_discover_def disc_reads put_attributes_graph fun_eq_iff split: if_splits)
qed

lemma shape_spawn:
  assumes "shape s" and q: "q < n_tasks s" "group_phase (phase_of s q)" "owner_of s (vertex_of s q) = Some q"
    and "(vertex_of s q, k) \<in> edge_rel (graph s)"
  shows "shape (spawn k (Some q) s)"
proof -
  have old: "u < n_tasks s" if "owner_of s k = Some u" for k u
    using assms(1) that by (auto simp: shape_def owned_ok_def)
  have "graph_ok (spawn k (Some q) s)"
    using assms(1) old by (auto simp: shape_def graph_ok_def read_spawn(12,13)) (metis read_spawn(1))
  moreover have "groups_ok (spawn k (Some q) s)"
    unfolding groups_ok_def
  proof (intro allI impI)
    fix t r assume tr: "t < n_tasks (spawn k (Some q) s)" "parent_of (spawn k (Some q) s) t = Some r"
    show "r < t \<and> owner_of (spawn k (Some q) s) (vertex_of (spawn k (Some q) s) r) = Some r
      \<and> group_phase (phase_of (spawn k (Some q) s) r)
      \<and> (vertex_of (spawn k (Some q) s) r, vertex_of (spawn k (Some q) s) t) \<in> edge_rel (graph (spawn k (Some q) s))"
    proof (cases "t = n_tasks s")
      case True
      with tr q assms(5) show ?thesis by (simp add: disc_reads)
    next
      case False
      with tr have t: "t < n_tasks s" by (simp add: disc_reads)
      with tr assms(1) have "r < t \<and> owner_of s (vertex_of s r) = Some r \<and> group_phase (phase_of s r)
        \<and> (vertex_of s r, vertex_of s t) \<in> edge_rel (graph s)" by (simp add: disc_reads shape_def groups_ok_def)
      with t show ?thesis by (simp add: disc_reads)
    qed
  qed
  moreover have "owned_ok (spawn k (Some q) s)"
    using assms(1) by (auto simp: shape_def owned_ok_def disc_reads intro: less_SucI)
  moreover have "owning_ok (spawn k (Some q) s)"
    using assms(1) by (auto simp: shape_def owning_ok_def disc_reads less_Suc_eq)
  moreover have "phases_ok (spawn k (Some q) s)"
    using assms(1) by (auto simp: shape_def phases_ok_def disc_reads less_Suc_eq)
  ultimately show ?thesis
    using assms(1) by (simp add: shape_def disc_reads)
qed

lemma shape_add_neighbour:
  assumes "shape s" and t: "t < n_tasks s" and ph: "phase_of s t = Adding i"
  shows "shape (add_neighbour t i s)"
proof -
  have node: "vertex_of s t \<in> nodes (graph s)" and owner: "owner_of s (vertex_of s t) = Some t"
    using shape_owner_node [OF assms(1) t] ph assms(1) t by (auto simp: shape_def owning_ok_def)
  note wf = shape_wf [OF assms(1)] and res = shape_result [OF assms(1)]
  from assms show ?thesis
  proof (cases rule: add_neighbour_cases)
    case (added g)
    define s1 where "s1 = set_phase t (if Suc i < length (neighbours_of s t) then Adding (Suc i) else Collecting None) (s\<lparr>graph := g\<rparr>)"
    note spec = add_reference_spec [OF wf node added(2)]
    have "shape s1"
      using ph t spec res node unfolding s1_def
      by (intro shape_step [OF assms(1) t]) (auto simp: disc_reads fun_eq_iff split: if_splits)
    then have "shape (spawn (neighbours_of s t ! i) (Some t) s1)"
      using t owner spec by (intro shape_spawn) (auto simp: s1_def disc_reads)
    then show ?thesis
      by (simp add: added(1) s1_def)
  next
    case (refused g e)
    note spec = add_reference_spec [OF wf node refused(2)]
    show ?thesis
      unfolding refused(1) using ph t spec res node
      by (intro shape_step [OF assms(1) t]) (auto simp: disc_reads fun_eq_iff)
  qed
qed

text \<open>Errors recorded in a group and the flags of the root do not belong to the shape.\<close>

lemma shape_cong:
  assumes "shape s" and "n_tasks s' = n_tasks s" "phase_of s' = phase_of s" "vertex_of s' = vertex_of s"
    "parent_of s' = parent_of s" "neighbours_of s' = neighbours_of s" "graph s' = graph s" "done_map s' = done_map s"
    "closed s' = closed s" "result s' \<noteq> Some Panic"
  shows "shape s'"
  using assms by (simp add: shape_defs)

lemma shape_close:
  assumes "shape s" and t: "t < n_tasks s" and ph: "phase_of s t = Closing e"
  shows "shape (set_phase t (Leaving e) (s\<lparr>closed := t # closed s\<rparr>))"
proof -
  define s' where "s' = set_phase t (Leaving e) (s\<lparr>closed := t # closed s\<rparr>)"
  have reads: "done_map s' = done_map s" "closed s' = t # closed s" "n_tasks s' = n_tasks s"
      "vertex_of s' = vertex_of s" "parent_of s' = parent_of s" "neighbours_of s' = neighbours_of s" "graph s' = graph s"
      "result s' = result s" "phase_of s' u = (if u = t then Leaving e else phase_of s u)" for u
    using t by (auto simp: s'_def disc_reads fun_eq_iff)
  have "graph_ok s'" "groups_ok s'"
    using assms(1) ph by (auto simp: shape_def graph_ok_def groups_ok_def reads)
  moreover have "owned_ok s'" "owning_ok s'" "phases_ok s'"
    using assms(1) ph t by (auto simp: shape_def owned_ok_def owning_ok_def phases_ok_def reads)
  ultimately show ?thesis
    using assms(1) by (simp add: shape_def reads flip: s'_def)
qed

lemma shape_leave:
  assumes "shape s" and t: "t < n_tasks s" and ph: "phase_of s t = Leaving e"
  shows "shape (leave_group t e s)"
proof -
  define s1 where "s1 = (case parent_of s t of None \<Rightarrow> s\<lparr>root_error := report (root_error s) e\<rparr>
     | Some p \<Rightarrow> upd_task p (\<lambda>x. x\<lparr>tk_error := report (tk_error x) e\<rparr>) s)"
  have reads: "n_tasks s1 = n_tasks s" "phase_of s1 = phase_of s" "vertex_of s1 = vertex_of s" "parent_of s1 = parent_of s"
    "neighbours_of s1 = neighbours_of s" "graph s1 = graph s" "done_map s1 = done_map s" "closed s1 = closed s"
    "result s1 = result s"
    by (auto simp: s1_def disc_reads fun_eq_iff split: option.splits)
  have "shape s1"
    using shape_result [OF assms(1)] by (intro shape_cong [OF assms(1)]) (simp_all add: reads)
  then have "shape (set_phase t (Finished e) s1)"
    using t ph by (intro shape_phase) (simp_all add: reads)
  then show ?thesis
    by (simp add: leave_group_def s1_def)
qed

lemma shape_after_resolve:
  assumes "shape s" and t: "t < n_tasks s" and ph: "phase_of s t = Resolving"
  shows "shape (after_resolve t r s)"
  using shape_write [OF assms(1) t] shape_owner_node [OF assms(1) t] ph
  by (cases r) (simp_all add: after_resolve_def)

lemma shape_collect:
  assumes "shape s" and t: "t < n_tasks s" and ph: "phase_of s t = Collecting e"
  shows "shape (collect_neighbours t e s)"
  using shape_write [OF assms(1) t] shape_owner_node [OF assms(1) t] ph
  by (simp add: collect_neighbours_def Let_def)

lemma shape_exec:
  assumes "shape s" and "disc_exec s ev = Some s'"
  shows "shape s'"
proof (cases ev)
  case (Enter t)
  with assms(2) have t: "t < n_tasks s" and ph: "phase_of s t = Entering"
    and s': "s' = set_phase t (if ctx_done s t then Leaving (Some ContextDone) else Admitted) s"
    by (simp_all split: if_splits)
  show ?thesis
    unfolding s' using ph by (intro shape_phase [OF assms(1) t]) auto
next
  case Cancel_ctx
  with assms(2) show ?thesis
    using shape_result [OF assms(1)]
    by (auto split: if_splits simp: disc_reads fun_eq_iff intro!: shape_cong [OF assms(1)])
next
  case (Wake t)
  with assms(2) have t: "t < n_tasks s" and ph: "phase_of s t = Awaiting" and s': "s' = set_phase t (Leaving None) s"
    by (simp_all split: if_splits)
  show ?thesis
    unfolding s' using ph by (intro shape_phase [OF assms(1) t]) auto
next
  case (Give_up t)
  with assms(2) have t: "t < n_tasks s" and ph: "phase_of s t = Awaiting"
    and s': "s' = set_phase t (Leaving (Some ContextDone)) s"
    by (simp_all split: if_splits)
  show ?thesis
    unfolding s' using ph by (intro shape_phase [OF assms(1) t]) auto
next
  case Return
  with assms(2) show ?thesis
    by (auto split: if_splits option.splits simp: disc_reads fun_eq_iff intro!: shape_cong [OF assms(1)])
qed (use assms in \<open>auto split: if_splits disc_phase.splits
    intro: shape_claim shape_register shape_after_resolve shape_after_discover shape_add_neighbour shape_collect
      shape_close shape_leave\<close>)

lemma shape_run: "disc_run ks es s \<Longrightarrow> shape s"
  by (induction rule: disc_run.induct) (auto intro: shape_exec)

end
