(* ===== verification/Discover_Steps.thy ===== *)
theory Discover_Steps
  imports Discover_Invariant
begin

text \<open>
  The steps of a discovery seen from its goroutines: what the one that moves does and what the
  others keep, that a vertex is resolved once, that no reachable state is stuck, and how many
  steps and goroutines there can be.
\<close>

section \<open>Steps seen from the goroutines\<close>

fun subject :: "('k, 'v) disc_event \<Rightarrow> nat option" where
  "subject Cancel_ctx = None"
| "subject (Enter t) = Some t"
| "subject (Claim t) = Some t"
| "subject (Wake t) = Some t"
| "subject (Give_up t) = Some t"
| "subject (Register t) = Some t"
| "subject (Resolve t r) = Some t"
| "subject (Neighbours t r) = Some t"
| "subject (Add_neighbour t) = Some t"
| "subject (Collect t) = Some t"
| "subject (Close t) = Some t"
| "subject (Leave t) = Some t"
| "subject Return = None"

fun moves :: "('k, 'v) disc_phase \<Rightarrow> ('k, 'v) disc_phase \<Rightarrow> bool" where
  "moves Entering q \<longleftrightarrow> q = Admitted \<or> q = Leaving (Some ContextDone)"
| "moves Admitted q \<longleftrightarrow> q = Awaiting \<or> q = Registering"
| "moves Awaiting q \<longleftrightarrow> q = Leaving None \<or> q = Leaving (Some ContextDone)"
| "moves Registering q \<longleftrightarrow> q = Resolving"
| "moves Resolving q \<longleftrightarrow> (\<exists>v. q = Exploring v) \<or> (\<exists>e. q = Closing (Some e))"
| "moves (Exploring v) q \<longleftrightarrow> q = Adding 0 \<or> q = Collecting None \<or> (\<exists>e. q = Closing (Some e))"
| "moves (Adding i) q \<longleftrightarrow> q = Adding (Suc i) \<or> (\<exists>e. q = Collecting e)"
| "moves (Collecting e) q \<longleftrightarrow> (\<exists>e'. q = Closing e' \<and> (e \<noteq> None \<longrightarrow> e' \<noteq> None))"
| "moves (Closing e) q \<longleftrightarrow> q = Leaving e"
| "moves (Leaving e) q \<longleftrightarrow> q = Finished e"
| "moves (Finished e) q \<longleftrightarrow> False"

lemma exec_running: "disc_exec s e = Some s' \<Longrightarrow> result s = None"
  by (cases e) (auto split: if_splits)

lemma exec_subject: "disc_exec s e = Some s' \<Longrightarrow> subject e = Some t \<Longrightarrow> t < n_tasks s"
  by (cases e) (auto split: if_splits)

text \<open>What happens to the goroutine that moves, and what the others keep.\<close>

lemma exec_reads:
  assumes "shape s" and "disc_exec s e = Some s'"
  shows "n_tasks s \<le> n_tasks s'"
    and "u < n_tasks s \<Longrightarrow> vertex_of s' u = vertex_of s u"
    and "u < n_tasks s \<Longrightarrow> parent_of s' u = parent_of s u"
    and "u < n_tasks s \<Longrightarrow> subject e \<noteq> Some u \<Longrightarrow> phase_of s' u = phase_of s u \<and> neighbours_of s' u = neighbours_of s u"
    and "subject e = Some t \<Longrightarrow> moves (phase_of s t) (phase_of s' t)"
    and "owner_of s k = Some u \<Longrightarrow> owner_of s' k = Some u"
proof -
  have all: "n_tasks s \<le> n_tasks s' \<and> (\<forall>u < n_tasks s. vertex_of s' u = vertex_of s u \<and> parent_of s' u = parent_of s u
      \<and> (subject e \<noteq> Some u \<longrightarrow> phase_of s' u = phase_of s u \<and> neighbours_of s' u = neighbours_of s u))
    \<and> (\<forall>t. subject e = Some t \<longrightarrow> moves (phase_of s t) (phase_of s' t))
    \<and> (\<forall>k u. owner_of s k = Some u \<longrightarrow> owner_of s' k = Some u)"
  proof (cases e)
    case (Add_neighbour t)
    with assms(2) obtain i where t: "t < n_tasks s" and ph: "phase_of s t = Adding i" and s': "s' = add_neighbour t i s"
      by (auto split: if_splits disc_phase.splits)
    from assms(1) t ph show ?thesis
      by (cases rule: add_neighbour_cases) (use t ph Add_neighbour in \<open>auto simp: s' disc_reads\<close>)
  qed (use assms(2) in \<open>auto split: if_splits disc_phase.splits option.splits
      simp: disc_reads claim_vertex_def register_vertex_def after_resolve_def after_discover_def
        collect_neighbours_def leave_group_def Let_def\<close>)
  show "n_tasks s \<le> n_tasks s'" "u < n_tasks s \<Longrightarrow> vertex_of s' u = vertex_of s u"
    "u < n_tasks s \<Longrightarrow> parent_of s' u = parent_of s u"
    "u < n_tasks s \<Longrightarrow> subject e \<noteq> Some u \<Longrightarrow> phase_of s' u = phase_of s u \<and> neighbours_of s' u = neighbours_of s u"
    "subject e = Some t \<Longrightarrow> moves (phase_of s t) (phase_of s' t)"
    "owner_of s k = Some u \<Longrightarrow> owner_of s' k = Some u"
    using all by blast+
qed

section \<open>Every vertex is resolved at most once\<close>

definition resolved :: "('k, 'v) disc_event list \<Rightarrow> nat list" where
  "resolved es = concat (map (\<lambda>e. case e of Resolve t r \<Rightarrow> [t] | _ \<Rightarrow> []) es)"

lemma resolved_simps [simp]:
  "resolved [] = []" "resolved (es @ fs) = resolved es @ resolved fs"
  "resolved [e] = (case e of Resolve t r \<Rightarrow> [t] | _ \<Rightarrow> [])"
  by (simp_all add: resolved_def)

definition calls_ok :: "('k, 'v) disc_event list \<Rightarrow> ('k, 'v) discovery \<Rightarrow> bool" where
  "calls_ok es s \<longleftrightarrow> distinct (resolved es)
     \<and> (\<forall>t \<in> set (resolved es). t < n_tasks s \<and> owner_of s (vertex_of s t) = Some t
          \<and> phase_of s t \<noteq> Registering \<and> phase_of s t \<noteq> Resolving)"

lemma owner_phases:
  "shape s \<Longrightarrow> owner_of s k = Some t \<Longrightarrow> owner_phase (phase_of s t) \<or> left_phase (phase_of s t)"
  unfolding shape_def owned_ok_def phases_ok_def by blast

lemma owner_not_admitted: "shape s \<Longrightarrow> owner_of s k = Some t \<Longrightarrow> phase_of s t \<noteq> Admitted \<and> phase_of s t \<noteq> Awaiting"
  by (drule (1) owner_phases) auto

lemma calls_step:
  assumes "shape s" and "calls_ok es s" and e: "disc_exec s e = Some s'"
  shows "calls_ok (es @ [e]) s'"
proof -
  note reads = exec_reads [OF assms(1) e]
  have old: "t < n_tasks s' \<and> owner_of s' (vertex_of s' t) = Some t \<and> phase_of s' t \<noteq> Registering \<and> phase_of s' t \<noteq> Resolving"
    if "t \<in> set (resolved es)" for t
  proof -
    from that assms(2) have t: "t < n_tasks s" "owner_of s (vertex_of s t) = Some t"
      "phase_of s t \<noteq> Registering" "phase_of s t \<noteq> Resolving" by (auto simp: calls_ok_def)
    have "phase_of s' t \<noteq> Registering \<and> phase_of s' t \<noteq> Resolving"
    proof (cases "subject e = Some t")
      case True
      from reads(5) [OF True] owner_not_admitted [OF assms(1) t(2)] t(3,4) show ?thesis
        by (cases "phase_of s t") auto
    qed (use reads(4) [OF t(1)] t in simp)
    with t reads show ?thesis by (metis le_trans less_le_trans)
  qed
  show ?thesis
  proof (cases "\<exists>t r. e = Resolve t r")
    case False
    then have "resolved [e] = []" by (cases e) auto
    with assms(2) old show ?thesis by (auto simp: calls_ok_def)
  next
    case True
    then obtain t r where tr: "e = Resolve t r" by blast
    with e have t: "t < n_tasks s" "phase_of s t = Resolving" by (auto split: if_splits)
    then have fresh: "t \<notin> set (resolved es)" and "owner_of s (vertex_of s t) = Some t"
      using assms(1,2) by (auto simp: calls_ok_def shape_def owning_ok_def)
    moreover have "phase_of s' t \<noteq> Registering \<and> phase_of s' t \<noteq> Resolving"
      using reads(5) [of t] tr t(2) by auto
    ultimately show ?thesis
      using assms(2) old tr t(1) reads(1,2,6) by (auto simp: calls_ok_def)
  qed
qed

lemma calls_run: "disc_run ks es s \<Longrightarrow> calls_ok es s"
  by (induction rule: disc_run.induct) (auto simp: calls_ok_def [of "[]"] intro: calls_step shape_run)

section \<open>No state is stuck\<close>

definition stuck :: "('k::linorder, 'v) discovery \<Rightarrow> bool" where
  "stuck s \<longleftrightarrow> (\<forall>e. e \<noteq> Cancel_ctx \<longrightarrow> disc_exec s e = None)"

lemma stuckD: "stuck s \<Longrightarrow> e \<noteq> Cancel_ctx \<Longrightarrow> disc_exec s e = None"
  unfolding stuck_def by blast

fun waiting_phase :: "('k, 'v) disc_phase \<Rightarrow> bool" where
  "waiting_phase Awaiting = True"
| "waiting_phase (Collecting e) = True"
| "waiting_phase (Finished e) = True"
| "waiting_phase p = False"

lemma stuck_waiting:
  assumes "stuck s" and "result s = None" and t: "t < n_tasks s"
  shows "waiting_phase (phase_of s t)"
proof -
  have no: "disc_exec s e = None" if "e \<noteq> Cancel_ctx" for e
    using stuckD [OF assms(1)] that by blast
  show ?thesis
    using no [of "Enter t"] no [of "Claim t"] no [of "Register t"] no [of "Resolve t None"] no [of "Neighbours t None"]
      no [of "Add_neighbour t"] no [of "Close t"] no [of "Leave t"] assms(2) t
    by (cases "phase_of s t") auto
qed

lemma stuck_collecting:
  assumes "stuck s" and "result s = None" and t: "t < n_tasks s" and "phase_of s t = Collecting e"
  obtains u where "u < n_tasks s" "parent_of s u = Some t" "\<not> is_finished (phase_of s u)"
proof -
  have "disc_exec s (Collect t) = None"
    by (rule stuckD [OF assms(1)]) simp
  then have "\<not> group_finished s (Some t)"
    using assms(2-4) by (auto split: if_splits)
  then show thesis
    using that by (auto simp: group_finished_def list_all_length disc_reads)
qed

lemma stuck_awaiting:
  assumes "shape s" and "stuck s" and "result s = None" and t: "t < n_tasks s" and ph: "phase_of s t = Awaiting"
  obtains c e where "c < n_tasks s" "vertex_of s c = vertex_of s t" "phase_of s c = Collecting e"
proof -
  obtain c where c: "owner_of s (vertex_of s t) = Some c"
    using assms(1) t ph by (auto simp: shape_def phases_ok_def)
  moreover have "disc_exec s (Wake t) = None"
    by (rule stuckD [OF assms(2)]) simp
  ultimately have "c \<notin> set (closed s)"
    using assms(3) t ph by (auto split: if_splits)
  with c assms(1) have c': "c < n_tasks s" "vertex_of s c = vertex_of s t" "owner_phase (phase_of s c)"
    by (auto simp: shape_def owned_ok_def)
  moreover from stuck_waiting [OF assms(2,3) c'(1)] c'(3) obtain e where "phase_of s c = Collecting e"
    by (cases "phase_of s c") auto
  ultimately show thesis
    using that by blast
qed

lemma not_stuck:
  assumes "shape s" and "result s = None"
  shows "\<not> stuck s"
proof
  assume stuck: "stuck s"
  have "wf ((edge_rel (graph s))\<inverse>)"
    using shape_wf [OF assms(1)] by (intro finite_acyclic_wf_converse finite_edge_rel wf_dag_acyclic)
  then have none: "\<forall>t < n_tasks s. \<forall>e. vertex_of s t = v \<longrightarrow> phase_of s t \<noteq> Collecting e" for v
  proof (induction v rule: wf_induct_rule)
    case (less v)
    show ?case
    proof (intro allI impI notI)
      fix t e assume t: "t < n_tasks s" "vertex_of s t = v" "phase_of s t = Collecting e"
      obtain u where u: "u < n_tasks s" "parent_of s u = Some t" "\<not> is_finished (phase_of s u)"
        using stuck_collecting [OF stuck assms(2) t(1,3)] by blast
      have edge: "(vertex_of s u, v) \<in> (edge_rel (graph s))\<inverse>"
        using assms(1) u(1,2) t(2) by (auto simp: shape_def groups_ok_def)
      from stuck_waiting [OF stuck assms(2) u(1)] u(3)
      consider "phase_of s u = Awaiting" | e where "phase_of s u = Collecting e"
        by (cases "phase_of s u") (auto simp: is_finished_def)
      then show False
      proof cases
        case 1
        then obtain c e where "c < n_tasks s" "vertex_of s c = vertex_of s u" "phase_of s c = Collecting e"
          using stuck_awaiting [OF assms(1) stuck assms(2) u(1)] by blast
        with less.IH [OF edge] show False by blast
      next
        case 2
        with less.IH [OF edge] u(1) show False by blast
      qed
    qed
  qed
  have "is_finished (phase_of s t)" if t: "t < n_tasks s" for t
  proof -
    from none t have "phase_of s t \<noteq> Collecting e" for e by blast
    moreover have "phase_of s t \<noteq> Awaiting"
      using stuck_awaiting [OF assms(1) stuck assms(2) t] none by metis
    ultimately show ?thesis
      using stuck_waiting [OF stuck assms(2) t] by (cases "phase_of s t") (auto simp: is_finished_def)
  qed
  then have "group_finished s None"
    by (simp add: group_finished_def list_all_length disc_reads)
  moreover have "disc_exec s Return = None"
    by (rule stuckD [OF stuck]) simp
  ultimately show False
    using assms(2) by simp
qed

section \<open>The number of steps\<close>

fun rank :: "('k, 'v) disc_phase \<Rightarrow> nat" where
  "rank Entering = 0"
| "rank Admitted = 1"
| "rank Awaiting = 2"
| "rank Registering = 2"
| "rank Resolving = 3"
| "rank (Exploring v) = 4"
| "rank (Adding i) = 5"
| "rank (Collecting e) = 6"
| "rank (Closing e) = 7"
| "rank (Leaving e) = 8"
| "rank (Finished e) = 9"

lemma phase_rank_bound: "rank p \<le> 9"
  by (cases p) auto

lemma moves_rank: "moves p q \<Longrightarrow> rank p < rank q \<or> (\<exists>i. p = Adding i \<and> q = Adding (Suc i))"
  by (cases p) auto

definition progress_of :: "('k, 'v) discovery \<Rightarrow> nat" where
  "progress_of s = (\<Sum>t < n_tasks s. rank (phase_of s t)) + n_tasks s + (if result s = None then 0 else 1)"

definition own_steps :: "('k, 'v) disc_event list \<Rightarrow> nat" where
  "own_steps es = length (filter (\<lambda>e. e \<noteq> Cancel_ctx) es)"

lemma exec_tasks:
  assumes "shape s" and "disc_exec s e = Some s'" and "subject e = Some t" "phase_of s' t = Adding (Suc i)"
    "phase_of s t = Adding i"
  shows "n_tasks s' = Suc (n_tasks s)"
proof -
  from assms(2,3,5) have e: "e = Add_neighbour t" and t: "t < n_tasks s"
    by (cases e; auto split: if_splits)+
  then have s': "s' = add_neighbour t i s"
    using assms(2,5) by (auto split: if_splits)
  from assms(1) t assms(5) show ?thesis
    by (cases rule: add_neighbour_cases) (use assms(4) t in \<open>auto simp: s' disc_reads\<close>)
qed

lemma progress_step:
  assumes "shape s" and e: "disc_exec s e = Some s'" and "e \<noteq> Cancel_ctx"
  shows "progress_of s < progress_of s'"
proof -
  note reads = exec_reads [OF assms(1) e]
  have none: "result s = None" by (rule exec_running [OF e])
  have le: "rank (phase_of s u) \<le> rank (phase_of s' u)" if "u < n_tasks s" for u
    using reads(4) [OF that] reads(5) [of u] moves_rank by (cases "subject e = Some u") fastforce+
  have mono: "(\<Sum>t < n_tasks s. rank (phase_of s t)) \<le> (\<Sum>t < n_tasks s'. rank (phase_of s' t))"
    using le reads(1) by (meson finite_lessThan le_trans lessThan_iff lessThan_subset_iff sum_mono sum_mono2 zero_le)
  show ?thesis
  proof (cases "subject e")
    case None
    with assms(3) e have "e = Return" "result s' \<noteq> None" by (cases e; auto split: if_splits)+
    with mono none reads(1) show ?thesis by (auto simp: progress_of_def)
  next
    case (Some t)
    have t: "t < n_tasks s" by (rule exec_subject [OF e Some])
    from moves_rank [OF reads(5) [OF Some]] show ?thesis
    proof
      assume less: "rank (phase_of s t) < rank (phase_of s' t)"
      have "(\<Sum>t < n_tasks s. rank (phase_of s t)) < (\<Sum>t < n_tasks s. rank (phase_of s' t))"
        using le less t by (intro sum_strict_mono_ex1) auto
      also have "\<dots> \<le> (\<Sum>t < n_tasks s'. rank (phase_of s' t))"
        using reads(1) by (intro sum_mono2) auto
      finally show ?thesis
        using reads(1) none by (simp add: progress_of_def)
    next
      assume "\<exists>i. phase_of s t = Adding i \<and> phase_of s' t = Adding (Suc i)"
      then have "n_tasks s' = Suc (n_tasks s)"
        using exec_tasks [OF assms(1) e Some] by blast
      with mono none show ?thesis by (simp add: progress_of_def)
    qed
  qed
qed

lemma own_steps_progress: "disc_run ks es s \<Longrightarrow> own_steps es + length ks \<le> progress_of s"
proof (induction rule: disc_run.induct)
  case run_start
  show ?case by (simp add: own_steps_def progress_of_def disc_init_def)
next
  case (run_step es s e s')
  show ?case
  proof (cases "e = Cancel_ctx")
    case True
    with run_step have "progress_of s' = progress_of s"
      by (auto simp: progress_of_def disc_reads split: if_splits)
    with True run_step show ?thesis by (simp add: own_steps_def)
  next
    case False
    with progress_step [OF shape_run [OF run_step.hyps(1)] run_step.hyps(2)] run_step.IH show ?thesis
      by (simp add: own_steps_def)
  qed
qed

lemma own_steps_tasks:
  assumes "disc_run ks es s"
  shows "own_steps es + length ks \<le> 10 * n_tasks s + 1"
proof -
  have "(\<Sum>t < n_tasks s. rank (phase_of s t)) \<le> (\<Sum>t < n_tasks s. 9)"
    by (intro sum_mono) (rule phase_rank_bound)
  then have "progress_of s \<le> 10 * n_tasks s + 1"
    by (simp add: progress_of_def)
  with own_steps_progress [OF assms] show ?thesis by simp
qed

section \<open>The number of goroutines\<close>

fun spawned :: "('k, 'v) disc_phase \<Rightarrow> 'k list \<Rightarrow> nat" where
  "spawned (Adding i) ns = i"
| "spawned (Collecting e) ns = length ns"
| "spawned (Closing e) ns = length ns"
| "spawned (Leaving e) ns = length ns"
| "spawned (Finished e) ns = length ns"
| "spawned p ns = 0"

definition heard :: "('k, 'v) disc_event list \<Rightarrow> 'k set" where
  "heard es = \<Union> {set ns | t ns. Neighbours t (Some ns) \<in> set es}"

definition counts_ok :: "'k list \<Rightarrow> ('k, 'v) disc_event list \<Rightarrow> ('k, 'v) discovery \<Rightarrow> bool" where
  "counts_ok ks es s \<longleftrightarrow>
     n_tasks s \<le> length ks + (\<Sum>t < n_tasks s. spawned (phase_of s t) (neighbours_of s t))
     \<and> (\<forall>t < n_tasks s. vertex_of s t \<in> set ks \<union> heard es)
     \<and> (\<forall>t < n_tasks s. neighbours_of s t \<noteq> [] \<longrightarrow>
          Neighbours t (Some (neighbours_of s t)) \<in> set es \<and> owner_of s (vertex_of s t) = Some t)"

lemma heard_mono: "set es \<subseteq> set fs \<Longrightarrow> heard es \<subseteq> heard fs"
  unfolding heard_def by blast

lemma exec_neighbours:
  assumes "shape s" and e: "disc_exec s e = Some s'" and "subject e = Some t"
  shows "neighbours_of s' t = neighbours_of s t
    \<or> (\<exists>ns v. e = Neighbours t (Some ns) \<and> phase_of s t = Exploring v \<and> neighbours_of s' t = ns)"
proof (cases e)
  case (Add_neighbour u)
  with assms obtain i where u: "u = t" and t: "t < n_tasks s" and ph: "phase_of s t = Adding i" and s': "s' = add_neighbour t i s"
    by (auto split: if_splits disc_phase.splits)
  from assms(1) t ph show ?thesis
    by (cases rule: add_neighbour_cases) (use t in \<open>auto simp: s' disc_reads\<close>)
qed (use assms(2,3) in \<open>auto split: if_splits disc_phase.splits option.splits
      simp: disc_reads claim_vertex_def register_vertex_def after_resolve_def after_discover_def
        collect_neighbours_def leave_group_def Let_def\<close>)

lemma exec_spawn:
  assumes "shape s" and e: "disc_exec s e = Some s'" and "n_tasks s' \<noteq> n_tasks s"
  obtains t i where "e = Add_neighbour t" "phase_of s t = Adding i" "t < n_tasks s" "n_tasks s' = Suc (n_tasks s)"
    "phase_of s' t = (if Suc i < length (neighbours_of s t) then Adding (Suc i) else Collecting None)"
    "vertex_of s' (n_tasks s) = neighbours_of s t ! i" "phase_of s' (n_tasks s) = Entering" "neighbours_of s' (n_tasks s) = []"
proof (cases e)
  case (Add_neighbour t)
  with e obtain i where t: "t < n_tasks s" and ph: "phase_of s t = Adding i" and s': "s' = add_neighbour t i s"
    by (auto split: if_splits disc_phase.splits)
  from assms(1) t ph show thesis
  proof (cases rule: add_neighbour_cases)
    case (added g)
    then show thesis
      using that [OF Add_neighbour ph t] t
      by (simp add: s' disc_reads)
  next
    case (refused g x)
    with assms(3) show thesis by (simp add: s' disc_reads)
  qed
qed (use e assms(3) in \<open>auto split: if_splits disc_phase.splits option.splits
      simp: disc_reads claim_vertex_def register_vertex_def after_resolve_def after_discover_def
        collect_neighbours_def leave_group_def Let_def\<close>)

lemma spawned_moves:
  assumes "shape s" and e: "disc_exec s e = Some s'" and t: "t < n_tasks s"
  shows "spawned (phase_of s t) (neighbours_of s t) \<le> spawned (phase_of s' t) (neighbours_of s' t)"
proof (cases "subject e = Some t")
  case True
  have bound: "i < length (neighbours_of s t)" if "phase_of s t = Adding i" for i
    using assms(1) t that by (simp add: shape_def phases_ok_def)
  note move = exec_reads(5) [OF assms(1) e True]
  show ?thesis
  proof (cases "\<exists>v. phase_of s t = Exploring v")
    case False
    then have "neighbours_of s' t = neighbours_of s t"
      using exec_neighbours [OF assms(1) e True] by blast
    then show ?thesis
      using move bound by (cases "phase_of s t") (auto simp: less_imp_le)
  qed auto
qed (use exec_reads(4) [OF assms(1) e t] in simp)

lemma counts_step:
  assumes "shape s" and "counts_ok ks es s" and e: "disc_exec s e = Some s'"
  shows "counts_ok ks (es @ [e]) s'"
proof -
  note reads = exec_reads [OF assms(1) e]
  have old: "n_tasks s \<le> length ks + (\<Sum>t < n_tasks s. spawned (phase_of s t) (neighbours_of s t))"
    "\<And>t. t < n_tasks s \<Longrightarrow> vertex_of s t \<in> set ks \<union> heard es"
    "\<And>t. t < n_tasks s \<Longrightarrow> neighbours_of s t \<noteq> [] \<Longrightarrow>
       Neighbours t (Some (neighbours_of s t)) \<in> set es \<and> owner_of s (vertex_of s t) = Some t"
    using assms(2) unfolding counts_ok_def by blast+
  have more: "heard es \<subseteq> heard (es @ [e])" by (rule heard_mono) auto
  have kept: "vertex_of s' t \<in> set ks \<union> heard (es @ [e])" if "t < n_tasks s" for t
    using old(2) [OF that] reads(2) [OF that] more by auto
  have nb: "Neighbours t (Some (neighbours_of s' t)) \<in> set (es @ [e]) \<and> owner_of s' (vertex_of s' t) = Some t"
    if t: "t < n_tasks s" and ne: "neighbours_of s' t \<noteq> []" for t
  proof (cases "neighbours_of s' t = neighbours_of s t")
    case True
    with old(3) [OF t] ne reads(2,6) t show ?thesis by auto
  next
    case False
    with reads(4) [OF t] have sub: "subject e = Some t" by blast
    with exec_neighbours [OF assms(1) e sub] False obtain v where
      "e = Neighbours t (Some (neighbours_of s' t))" "phase_of s t = Exploring v" by auto
    moreover from this have "owner_of s (vertex_of s t) = Some t"
      using assms(1) t by (simp add: shape_def owning_ok_def)
    ultimately show ?thesis using reads(2,6) t by auto
  qed
  have mono: "(\<Sum>t < n_tasks s. spawned (phase_of s t) (neighbours_of s t))
      \<le> (\<Sum>t < n_tasks s. spawned (phase_of s' t) (neighbours_of s' t))"
    by (intro sum_mono spawned_moves [OF assms(1) e]) simp
  show ?thesis
  proof (cases "n_tasks s' = n_tasks s")
    case True
    with old(1) mono kept nb show ?thesis by (simp add: counts_ok_def)
  next
    case False
    from assms(1) e this obtain t i where new: "e = Add_neighbour t" "phase_of s t = Adding i" "t < n_tasks s"
      "n_tasks s' = Suc (n_tasks s)"
      "phase_of s' t = (if Suc i < length (neighbours_of s t) then Adding (Suc i) else Collecting None)"
      "vertex_of s' (n_tasks s) = neighbours_of s t ! i" "phase_of s' (n_tasks s) = Entering"
      "neighbours_of s' (n_tasks s) = []"
      by (rule exec_spawn)
    have i: "i < length (neighbours_of s t)"
      using assms(1) new(2,3) by (simp add: shape_def phases_ok_def)
    have same: "neighbours_of s' t = neighbours_of s t"
      using exec_neighbours [OF assms(1) e, of t] new(1) by auto
    have "(\<Sum>t < n_tasks s. spawned (phase_of s t) (neighbours_of s t))
        < (\<Sum>t < n_tasks s. spawned (phase_of s' t) (neighbours_of s' t))"
    proof (rule sum_strict_mono_ex1)
      show "\<forall>u \<in> {..<n_tasks s}. spawned (phase_of s u) (neighbours_of s u) \<le> spawned (phase_of s' u) (neighbours_of s' u)"
        using spawned_moves [OF assms(1) e] by simp
      show "\<exists>u \<in> {..<n_tasks s}. spawned (phase_of s u) (neighbours_of s u) < spawned (phase_of s' u) (neighbours_of s' u)"
        using new(2,3,5) i same by (intro bexI [of _ t]) auto
    qed simp
    then have total: "n_tasks s' \<le> length ks + (\<Sum>t < n_tasks s'. spawned (phase_of s' t) (neighbours_of s' t))"
      using old(1) new(4,7,8) by simp
    have "neighbours_of s t ! i \<in> heard es"
    proof -
      have "neighbours_of s t \<noteq> []" using i by auto
      with old(3) [OF new(3)] i show ?thesis
        unfolding heard_def using nth_mem by blast
    qed
    then have "vertex_of s' (n_tasks s) \<in> set ks \<union> heard (es @ [e])"
      using more new(6) by auto
    with total kept nb new(4,8) show ?thesis
      unfolding counts_ok_def by (auto simp: less_Suc_eq)
  qed
qed

lemma counts_run: "disc_run ks es s \<Longrightarrow> counts_ok ks es s"
proof (induction rule: disc_run.induct)
  case run_start
  show ?case
    by (auto simp: counts_ok_def disc_init_def new_task_def vertex_of_def neighbours_of_def)
qed (auto intro: counts_step shape_run)

lemma tasks_bound:
  assumes run: "disc_run ks es s" and "finite U" and "set ks \<subseteq> U"
    and rep: "\<And>t ns. Neighbours t (Some ns) \<in> set es \<Longrightarrow> set ns \<subseteq> U \<and> length ns \<le> B"
  shows "n_tasks s \<le> length ks + card U * B"
proof -
  have sh: "shape s" and counts: "counts_ok ks es s"
    using shape_run [OF run] counts_run [OF run] .
  define Own where "Own = {t. t < n_tasks s \<and> owner_of s (vertex_of s t) = Some t}"
  have fin: "finite Own" by (simp add: Own_def)
  have each: "spawned (phase_of s t) (neighbours_of s t) \<le> (if t \<in> Own then B else 0)" if t: "t < n_tasks s" for t
  proof -
    have le: "spawned (phase_of s t) (neighbours_of s t) \<le> length (neighbours_of s t)"
      using sh t by (cases "phase_of s t") (auto simp: shape_def phases_ok_def less_imp_le)
    show ?thesis
    proof (cases "neighbours_of s t = []")
      case False
      with counts t have "Neighbours t (Some (neighbours_of s t)) \<in> set es" "t \<in> Own"
        by (auto simp: counts_ok_def Own_def)
      with rep le show ?thesis by fastforce
    qed (use le in simp)
  qed
  have "heard es \<subseteq> U"
    using rep unfolding heard_def by blast
  then have "vertex_of s ` Own \<subseteq> U"
    using counts assms(3) by (auto simp: counts_ok_def Own_def)
  moreover have "inj_on (vertex_of s) Own"
    by (intro inj_onI) (auto simp: Own_def)
  ultimately have card: "card Own \<le> card U"
    using assms(2) by (metis card_image card_mono)
  have "(\<Sum>t < n_tasks s. spawned (phase_of s t) (neighbours_of s t)) \<le> (\<Sum>t < n_tasks s. if t \<in> Own then B else 0)"
    using each by (intro sum_mono) simp
  also have "\<dots> = (\<Sum>t \<in> Own. B)"
    by (intro sum.mono_neutral_cong_right) (auto simp: Own_def)
  also have "\<dots> \<le> card U * B"
    using card by simp
  finally show ?thesis
    using counts by (simp add: counts_ok_def)
qed

end
