(* ===== verification/Discover_Properties.thy ===== *)
theory Discover_Properties
  imports Discover_Steps
begin

text \<open>
  What a discovery guarantees for every interleaving of its goroutines: vertices are resolved at
  most once, a discovery without error has completed every vertex of its graph, and every
  discovery over finitely many vertices returns; with two runs that show what is not guaranteed.
\<close>

section \<open>The record of the work done\<close>

definition listed :: "('k, 'v) disc_graph \<Rightarrow> 'k \<Rightarrow> 'k list \<Rightarrow> bool" where
  "listed g k ns \<longleftrightarrow> edge_rel g `` {k} = set ns
     \<and> order_of g k = map_of (rev (zip ns (map Index_attr [0..<length ns])))"

definition explored :: "('k, 'v) disc_event list \<Rightarrow> ('k, 'v) discovery \<Rightarrow> nat \<Rightarrow> nat \<Rightarrow> bool" where
  "explored es s t i \<longleftrightarrow>
     (\<exists>v. Resolve t (Some v) \<in> set es \<and> current_value (graph s) (vertex_of s t) = Some v)
     \<and> Neighbours t (Some (neighbours_of s t)) \<in> set es
     \<and> listed (graph s) (vertex_of s t) (take i (neighbours_of s t))"

definition group_clean :: "('k, 'v) discovery \<Rightarrow> nat \<Rightarrow> bool" where
  "group_clean s t \<longleftrightarrow> error_of s t = None
     \<and> (\<forall>u < n_tasks s. parent_of s u = Some t \<longrightarrow> phase_of s u = Finished None)"

definition group_failed :: "('k, 'v) discovery \<Rightarrow> nat option \<Rightarrow> bool" where
  "group_failed s p = (case p of None \<Rightarrow> root_error s \<noteq> None | Some q \<Rightarrow> error_of s q \<noteq> None)"

definition completed_ok :: "('k, 'v) disc_event list \<Rightarrow> ('k, 'v) discovery \<Rightarrow> nat \<Rightarrow> bool" where
  "completed_ok es s t \<longleftrightarrow> explored es s t (length (neighbours_of s t)) \<and> group_clean s t
     \<and> current_state (graph s) (vertex_of s t) = Ok Completed"

fun task_ok :: "('k, 'v) disc_event list \<Rightarrow> ('k, 'v) discovery \<Rightarrow> nat \<Rightarrow> ('k, 'v) disc_phase \<Rightarrow> bool" where
  "task_ok es s t (Exploring v) \<longleftrightarrow>
     Resolve t (Some v) \<in> set es \<and> current_value (graph s) (vertex_of s t) = Some v \<and> listed (graph s) (vertex_of s t) []"
| "task_ok es s t (Adding i) \<longleftrightarrow> explored es s t i"
| "task_ok es s t (Collecting None) \<longleftrightarrow> explored es s t (length (neighbours_of s t))"
| "task_ok es s t (Collecting (Some e)) \<longleftrightarrow> True"
| "task_ok es s t (Closing None) \<longleftrightarrow> completed_ok es s t"
| "task_ok es s t (Closing (Some e)) \<longleftrightarrow> True"
| "task_ok es s t (Leaving None) \<longleftrightarrow>
     owner_of s (vertex_of s t) \<noteq> None \<and> (owner_of s (vertex_of s t) = Some t \<longrightarrow> completed_ok es s t)"
| "task_ok es s t (Leaving (Some e)) \<longleftrightarrow> True"
| "task_ok es s t (Finished None) \<longleftrightarrow>
     owner_of s (vertex_of s t) \<noteq> None \<and> (owner_of s (vertex_of s t) = Some t \<longrightarrow> completed_ok es s t)"
| "task_ok es s t (Finished (Some e)) \<longleftrightarrow> group_failed s (parent_of s t)"
| "task_ok es s t Registering \<longleftrightarrow> listed (graph s) (vertex_of s t) []"
| "task_ok es s t Resolving \<longleftrightarrow> listed (graph s) (vertex_of s t) []"
| "task_ok es s t p \<longleftrightarrow> True"

fun failed_phase :: "('k, 'v) disc_phase \<Rightarrow> bool" where
  "failed_phase (Collecting (Some e)) = True"
| "failed_phase (Closing (Some e)) = True"
| "failed_phase (Leaving (Some e)) = True"
| "failed_phase (Finished (Some e)) = True"
| "failed_phase p = False"

definition record_ok :: "('k::linorder, 'v) disc_event list \<Rightarrow> ('k, 'v) discovery \<Rightarrow> bool" where
  "record_ok es s \<longleftrightarrow> (\<forall>t < n_tasks s. task_ok es s t (phase_of s t))
     \<and> (\<forall>k. owner_of s k = None \<longrightarrow> listed (graph s) k [])"

lemma listed_Nil: "listed g k [] \<longleftrightarrow> edge_rel g `` {k} = {} \<and> order_of g k = Map.empty"
  by (simp add: listed_def)

lemma listed_snoc:
  assumes "listed g k ns" and "edge_rel g' = insert (k, n) (edge_rel g)"
    and "order_of g' = (order_of g)(k := (order_of g k)(n \<mapsto> Index_attr (length ns)))"
  shows "listed g' k (ns @ [n])"
  using assms by (auto simp: listed_def)

lemma listed_cong: "edge_rel g' `` {k} = edge_rel g `` {k} \<Longrightarrow> order_of g' k = order_of g k \<Longrightarrow> listed g' k ns = listed g k ns"
  by (simp add: listed_def)

lemma current_attributes:
  "current_value g k = (case attributes_of g k of None \<Rightarrow> None
     | Some a \<Rightarrow> (case map_of a attribute_value of Some (Value_attr v) \<Rightarrow> Some v | _ \<Rightarrow> None))"
  "current_state g k = (case attributes_of g k of None \<Rightarrow> Ok Unknown
     | Some a \<Rightarrow> (case map_of a attribute_discovery_state of Some (State_attr d) \<Rightarrow> Ok d | _ \<Rightarrow> Panic))"
  by (auto simp: attributes_of_def current_value_def current_state_def split: option.splits)

lemma current_cong:
  "attributes_of g' k = attributes_of g k \<Longrightarrow> current_value g' k = current_value g k"
  "attributes_of g' k = attributes_of g k \<Longrightarrow> current_state g' k = current_state g k"
  by (simp_all add: current_attributes)

text \<open>The graph changes only at the vertex of the goroutine that moves, and only if it owns that vertex.\<close>

lemma exec_graph:
  assumes "shape s" and e: "disc_exec s e = Some s'"
  shows "subject e = None \<Longrightarrow> graph s' = graph s"
    and "subject e = Some t \<Longrightarrow> owner_of s (vertex_of s t) \<noteq> Some t \<Longrightarrow> graph s' = graph s"
    and "subject e = Some t \<Longrightarrow> k \<noteq> vertex_of s t \<Longrightarrow> listed (graph s') k ns = listed (graph s) k ns"
    and "subject e = Some t \<Longrightarrow> k \<noteq> vertex_of s t \<Longrightarrow> k \<in> nodes (graph s) \<Longrightarrow> attributes_of (graph s') k = attributes_of (graph s) k"
    and "nodes (graph s) \<subseteq> nodes (graph s')"
proof -
  have all: "(subject e = None \<longrightarrow> graph s' = graph s)
    \<and> (\<forall>t. subject e = Some t \<longrightarrow> (owner_of s (vertex_of s t) \<noteq> Some t \<longrightarrow> graph s' = graph s)
       \<and> (\<forall>k ns. k \<noteq> vertex_of s t \<longrightarrow> listed (graph s') k ns = listed (graph s) k ns)
       \<and> (\<forall>k. k \<noteq> vertex_of s t \<longrightarrow> k \<in> nodes (graph s) \<longrightarrow> attributes_of (graph s') k = attributes_of (graph s) k))
    \<and> nodes (graph s) \<subseteq> nodes (graph s')"
  proof (cases "\<exists>t. subject e = Some t \<and> owner_phase (phase_of s t) \<and> phase_of s t \<noteq> Registering")
    case True
    then obtain t where t: "subject e = Some t" "owner_phase (phase_of s t)" "phase_of s t \<noteq> Registering" by blast
    have tn: "t < n_tasks s" by (rule exec_subject [OF e t(1)])
    have node: "vertex_of s t \<in> nodes (graph s)" by (rule shape_owner_node [OF assms(1) tn t(2,3)])
    have owner: "owner_of s (vertex_of s t) = Some t"
      using assms(1) tn t(2) by (simp add: shape_def owning_ok_def)
    show ?thesis
    proof (cases "\<exists>i. phase_of s t = Adding i")
      case True
      then obtain i where i: "phase_of s t = Adding i" by blast
      with e t(1) have s': "s' = add_neighbour t i s" by (cases e) (auto split: if_splits)
      from assms(1) tn i show ?thesis
      proof (cases rule: add_neighbour_cases)
        case (added g)
        note spec = add_reference_spec [OF shape_wf [OF assms(1)] node added(2)]
        show ?thesis
          using t(1) owner spec by (auto simp: s' added(1) disc_reads intro!: listed_cong)
      next
        case (refused g e)
        note spec = add_reference_spec [OF shape_wf [OF assms(1)] node refused(2)]
        show ?thesis
          using t(1) owner spec by (auto simp: s' refused(1) disc_reads intro!: listed_cong)
      qed
    next
      case False
      with e t node owner show ?thesis
        by (cases e) (auto split: if_splits disc_phase.splits option.splits simp: disc_reads put_attributes_graph
            after_resolve_def after_discover_def collect_neighbours_def leave_group_def Let_def intro!: listed_cong)
    qed
  next
    case notwrite: False
    show ?thesis
    proof (cases e)
      case (Register t)
      with e have t: "t < n_tasks s" "phase_of s t = Registering" and s': "s' = register_vertex t s" by (auto split: if_splits)
      have owner: "owner_of s (vertex_of s t) = Some t"
        using assms(1) t by (simp add: shape_def owning_ok_def)
      show ?thesis
      proof (cases "vertex_of s t \<in> nodes (graph s)")
        case True
        with Register owner show ?thesis
          by (auto simp: s' register_vertex_def contains_vertex_iff disc_reads put_attributes_graph intro!: listed_cong)
      next
        case False
        with Register owner shape_wf [OF assms(1)] show ?thesis
          by (auto simp: s' register_vertex_def contains_vertex_iff disc_reads add_vertex_graph intro!: listed_cong)
      qed
    qed (use e notwrite in \<open>auto split: if_splits disc_phase.splits option.splits
        simp: disc_reads claim_vertex_def leave_group_def\<close>)
  qed
  show "subject e = None \<Longrightarrow> graph s' = graph s"
    "subject e = Some t \<Longrightarrow> owner_of s (vertex_of s t) \<noteq> Some t \<Longrightarrow> graph s' = graph s"
    "subject e = Some t \<Longrightarrow> k \<noteq> vertex_of s t \<Longrightarrow> listed (graph s') k ns = listed (graph s) k ns"
    "subject e = Some t \<Longrightarrow> k \<noteq> vertex_of s t \<Longrightarrow> k \<in> nodes (graph s) \<Longrightarrow> attributes_of (graph s') k = attributes_of (graph s) k"
    "nodes (graph s) \<subseteq> nodes (graph s')"
    using all by blast+
qed

text \<open>New goroutines belong to the group of the one that moves; errors are only ever added.\<close>

lemma exec_groups:
  assumes "shape s" and e: "disc_exec s e = Some s'"
  shows "n_tasks s \<le> c \<Longrightarrow> c < n_tasks s' \<Longrightarrow> phase_of s' c = Entering \<and> parent_of s' c = subject e"
    and "u < n_tasks s \<Longrightarrow> error_of s' u = error_of s u
       \<or> (\<exists>t x. e = Leave t \<and> phase_of s t = Leaving x \<and> parent_of s t = Some u)"
    and "p = None \<or> (\<exists>q < n_tasks s. p = Some q) \<Longrightarrow> group_failed s p \<Longrightarrow> group_failed s' p"
proof -
  have all: "(\<forall>c. n_tasks s \<le> c \<longrightarrow> c < n_tasks s' \<longrightarrow> phase_of s' c = Entering \<and> parent_of s' c = subject e)
    \<and> (\<forall>u < n_tasks s. error_of s' u = error_of s u
         \<or> (\<exists>t x. e = Leave t \<and> phase_of s t = Leaving x \<and> parent_of s t = Some u \<and> error_of s' u = report (error_of s u) x))
    \<and> (root_error s \<noteq> None \<longrightarrow> root_error s' \<noteq> None)"
  proof (cases e)
    case (Add_neighbour t)
    with e obtain i where t: "t < n_tasks s" and ph: "phase_of s t = Adding i" and s': "s' = add_neighbour t i s"
      by (auto split: if_splits disc_phase.splits)
    from assms(1) t ph show ?thesis
      by (cases rule: add_neighbour_cases) (use t ph Add_neighbour in \<open>auto simp: s' disc_reads le_less_Suc_eq\<close>)
  next
    case (Leave t)
    with e obtain x where t: "t < n_tasks s" and ph: "phase_of s t = Leaving x" and s': "s' = leave_group t x s"
      by (auto split: if_splits disc_phase.splits)
    show ?thesis
      using t ph Leave by (cases "parent_of s t") (auto simp: s' leave_group_def disc_reads report_def split: option.splits)
  qed (use e in \<open>auto split: if_splits disc_phase.splits option.splits
      simp: disc_reads claim_vertex_def register_vertex_def after_resolve_def after_discover_def
        collect_neighbours_def Let_def\<close>)
  show "n_tasks s \<le> c \<Longrightarrow> c < n_tasks s' \<Longrightarrow> phase_of s' c = Entering \<and> parent_of s' c = subject e"
    "u < n_tasks s \<Longrightarrow> error_of s' u = error_of s u
       \<or> (\<exists>t x. e = Leave t \<and> phase_of s t = Leaving x \<and> parent_of s t = Some u)"
    using all by blast+
  show "group_failed s' p" if "p = None \<or> (\<exists>q < n_tasks s. p = Some q)" "group_failed s p"
  proof (cases p)
    case None
    with all that show ?thesis by (auto simp: group_failed_def)
  next
    case (Some q)
    with that have "q < n_tasks s" "error_of s q \<noteq> None" by (auto simp: group_failed_def)
    with all have "error_of s' q \<noteq> None" by (auto simp: report_def split: option.splits)
    with Some show ?thesis by (simp add: group_failed_def)
  qed
qed

lemma task_owner:
  assumes "shape s" and "u < n_tasks s" and "owner_phase (phase_of s u)"
  shows "owner_of s (vertex_of s u) = Some u"
  using assms by (simp add: shape_def owning_ok_def)

lemma task_ok_other:
  assumes "shape s" and e: "disc_exec s e = Some s'" and u: "u < n_tasks s" and other: "subject e \<noteq> Some u"
    and ok: "task_ok es s u (phase_of s u)"
  shows "task_ok (es @ [e]) s' u (phase_of s' u)"
proof -
  note reads = exec_reads [OF assms(1) e] and gr = exec_graph [OF assms(1) e] and groups = exec_groups [OF assms(1) e]
  have p: "phase_of s' u = phase_of s u" and v: "vertex_of s' u = vertex_of s u" and ns: "neighbours_of s' u = neighbours_of s u"
    and par: "parent_of s' u = parent_of s u"
    using reads(2-4) [OF u] other by auto
  have same: "listed (graph s') (vertex_of s u) xs = listed (graph s) (vertex_of s u) xs"
    "vertex_of s u \<in> nodes (graph s) \<Longrightarrow> current_value (graph s') (vertex_of s u) = current_value (graph s) (vertex_of s u)"
    "vertex_of s u \<in> nodes (graph s) \<Longrightarrow> current_state (graph s') (vertex_of s u) = current_state (graph s) (vertex_of s u)"
    if owner: "owner_of s (vertex_of s u) = Some u" for xs
  proof -
    have "graph s' = graph s \<or> (\<exists>t. subject e = Some t \<and> vertex_of s u \<noteq> vertex_of s t)"
    proof (cases "subject e")
      case None
      then show ?thesis using gr(1) by simp
    next
      case (Some t)
      then show ?thesis
        using gr(2) [OF Some] owner other by (cases "vertex_of s u = vertex_of s t") auto
    qed
    then show "listed (graph s') (vertex_of s u) xs = listed (graph s) (vertex_of s u) xs"
      "vertex_of s u \<in> nodes (graph s) \<Longrightarrow> current_value (graph s') (vertex_of s u) = current_value (graph s) (vertex_of s u)"
      "vertex_of s u \<in> nodes (graph s) \<Longrightarrow> current_state (graph s') (vertex_of s u) = current_state (graph s) (vertex_of s u)"
      using gr(3,4) by (auto intro: current_cong)
  qed
  have node: "vertex_of s u \<in> nodes (graph s)" if "owner_of s (vertex_of s u) = Some u" "phase_of s u \<noteq> Registering"
    using assms(1) that by (simp add: shape_def graph_ok_def)
  have explored: "explored (es @ [e]) s' u i" if "explored es s u i" "owner_of s (vertex_of s u) = Some u" "phase_of s u \<noteq> Registering" for i
    using that same [OF that(2)] node [OF that(2,3)] by (auto simp: explored_def v ns)
  have clean: "group_clean s' u" if "group_clean s u"
    unfolding group_clean_def
  proof (intro conjI allI impI)
    have "\<not> (\<exists>t x. e = Leave t \<and> phase_of s t = Leaving x \<and> parent_of s t = Some u)"
      using that exec_subject [OF e] by (auto simp: group_clean_def)
    then show "error_of s' u = None"
      using groups(2) [OF u] that by (auto simp: group_clean_def)
    fix c assume c: "c < n_tasks s'" "parent_of s' c = Some u"
    have "c < n_tasks s"
      using groups(1) [of c] c other by (cases "c < n_tasks s") auto
    moreover from this have "phase_of s c = Finished None"
      using that c(2) reads(3) by (simp add: group_clean_def)
    moreover from this have "subject e \<noteq> Some c"
      using reads(5) [of c] by auto
    ultimately show "phase_of s' c = Finished None"
      using reads(4) by simp
  qed
  have completed: "completed_ok (es @ [e]) s' u"
    if "completed_ok es s u" "owner_of s (vertex_of s u) = Some u" "phase_of s u \<noteq> Registering"
    using that same(3) [OF that(2) node [OF that(2,3)]] explored clean by (auto simp: completed_ok_def v ns)
  have keeps: "owner_of s' (vertex_of s u) = owner_of s (vertex_of s u)" if "owner_of s (vertex_of s u) \<noteq> None"
    using that reads(6) by fastforce
  have failed: "group_failed s' (parent_of s u)" if "group_failed s (parent_of s u)"
    using assms(1) u groups(3) [of "parent_of s u"] that by (cases "parent_of s u") (auto simp: shape_def groups_ok_def)
  note owner = task_owner [OF assms(1) u]
  show ?thesis
  proof (cases "phase_of s u")
    case (Collecting x) with ok p v ns owner explored show ?thesis by (cases x) auto
  next
    case (Closing x) with ok p v owner completed show ?thesis by (cases x) auto
  next
    case (Leaving x) with ok p v completed keeps show ?thesis by (cases x) auto
  next
    case (Finished x) with ok p v par completed keeps failed show ?thesis by (cases x) auto
  qed (use ok p v owner same explored node in auto)
qed

text \<open>The goroutine that moves.\<close>

lemma current_written:
  assumes "k \<in> nodes g"
  shows "current_value (write_attributes k [(attribute_discovery_state, State_attr d), (attribute_value, Value_attr v)] g) k = Some v"
    and "current_value (write_attributes k [(attribute_value, Value_attr v)] g) k = Some v"
    and "current_value (write_attributes k [(attribute_discovery_state, State_attr d)] g) k = current_value g k"
    and "current_state (write_attributes k [(attribute_discovery_state, State_attr d)] g) k = Ok d"
proof -
  obtain a where "attributes_of g k = Some a"
    using assms by (auto simp: attributes_of_def nodes_iff)
  then show "current_value (write_attributes k [(attribute_discovery_state, State_attr d), (attribute_value, Value_attr v)] g) k = Some v"
    "current_value (write_attributes k [(attribute_value, Value_attr v)] g) k = Some v"
    "current_value (write_attributes k [(attribute_discovery_state, State_attr d)] g) k = current_value g k"
    "current_state (write_attributes k [(attribute_discovery_state, State_attr d)] g) k = Ok d"
    by (simp_all add: current_attributes)
qed

lemma listed_written [simp]: "listed (write_attributes k as g) j ns = listed g j ns"
  by (simp add: listed_def)

lemma task_ok_subject:
  assumes "shape s" and e: "disc_exec s e = Some s'" and t: "subject e = Some t"
    and ok: "\<forall>u < n_tasks s. task_ok es s u (phase_of s u)"
    and unowned: "owner_of s (vertex_of s t) = None \<Longrightarrow> listed (graph s) (vertex_of s t) []"
  shows "task_ok (es @ [e]) s' t (phase_of s' t)"
proof -
  have tn: "t < n_tasks s" by (rule exec_subject [OF e t])
  note okt = ok [rule_format, OF tn] and owner = task_owner [OF assms(1) tn]
    and node = shape_owner_node [OF assms(1) tn] and wf = shape_wf [OF assms(1)]
  show ?thesis
  proof (cases e)
    case (Claim u)
    with e t unowned show ?thesis
      by (auto split: if_splits option.splits simp: claim_vertex_def disc_reads)
  next
    case (Wake u)
    with e t have ph: "phase_of s t = Awaiting" and s': "s' = set_phase t (Leaving None) s" by (auto split: if_splits)
    have "owner_of s (vertex_of s t) \<noteq> Some t"
      using owner_not_admitted [OF assms(1)] ph by blast
    moreover have "owner_of s (vertex_of s t) \<noteq> None"
      using assms(1) ph tn by (simp add: shape_def phases_ok_def)
    ultimately show ?thesis
      using tn by (simp add: s' disc_reads)
  next
    case (Register u)
    with e t have ph: "phase_of s t = Registering" and s': "s' = register_vertex t s" by (auto split: if_splits)
    with okt tn wf show ?thesis
      by (cases "vertex_of s t \<in> nodes (graph s)")
        (auto simp: register_vertex_def contains_vertex_iff disc_reads put_attributes_graph add_vertex_graph listed_def)
  next
    case (Resolve u r)
    with e t have ph: "phase_of s t = Resolving" and s': "s' = after_resolve t r s" by (auto split: if_splits)
    have "vertex_of s t \<in> nodes (graph s)" using node ph by simp
    with Resolve t ph okt tn show ?thesis
      by (cases r) (auto simp: s' after_resolve_def disc_reads put_attributes_graph current_written)
  next
    case (Neighbours u r)
    with e t obtain v where ph: "phase_of s t = Exploring v" and s': "s' = after_discover t v r s"
      by (auto split: if_splits disc_phase.splits)
    have "vertex_of s t \<in> nodes (graph s)" using node ph by simp
    with Neighbours t ph okt tn show ?thesis
      by (cases r) (auto simp: s' after_discover_def disc_reads put_attributes_graph current_written explored_def)
  next
    case (Add_neighbour u)
    with e t obtain i where ph: "phase_of s t = Adding i" and s': "s' = add_neighbour t i s"
      by (auto split: if_splits disc_phase.splits)
    have nd: "vertex_of s t \<in> nodes (graph s)" using node ph by simp
    have bound: "i < length (neighbours_of s t)"
      using assms(1) tn ph by (simp add: shape_def phases_ok_def)
    from assms(1) tn ph show ?thesis
    proof (cases rule: add_neighbour_cases)
      case (added g)
      note spec = add_reference_spec [OF wf nd added(2)]
      have "listed g (vertex_of s t) (take i (neighbours_of s t) @ [neighbours_of s t ! i])"
        using okt ph bound spec(4,6) by (intro listed_snoc) (auto simp: explored_def min_def)
      then have "listed g (vertex_of s t) (take (Suc i) (neighbours_of s t))"
        using bound by (simp add: take_Suc_conv_app_nth)
      moreover have "current_value g (vertex_of s t) = current_value (graph s) (vertex_of s t)"
        by (rule current_cong) (rule spec(5) [OF nd])
      ultimately have "explored (es @ [e]) s' t (Suc i)"
        using okt ph tn by (auto simp: explored_def s' added(1) disc_reads)
      moreover have "phase_of s' t = (if Suc i < length (neighbours_of s t) then Adding (Suc i) else Collecting None)"
        and "neighbours_of s' t = neighbours_of s t"
        using tn by (simp_all add: s' added(1) disc_reads)
      ultimately show ?thesis
        using bound by (auto simp: not_less le_Suc_eq)
    next
      case (refused g e)
      with tn show ?thesis by (simp add: s' disc_reads)
    qed
  next
    case (Collect u)
    with e t obtain x where ph: "phase_of s t = Collecting x" and s': "s' = collect_neighbours t x s"
      and fin: "group_finished s (Some t)"
      by (auto split: if_splits disc_phase.splits)
    have nd: "vertex_of s t \<in> nodes (graph s)" using node ph by simp
    show ?thesis
    proof (cases "x = None \<and> error_of s t = None")
      case True
      have "phase_of s u = Finished None" if u: "u < n_tasks s" "parent_of s u = Some t" for u
      proof -
        from fin u have "is_finished (phase_of s u)"
          by (auto simp: group_finished_def list_all_length disc_reads)
        then obtain y where y: "phase_of s u = Finished y"
          by (auto simp: is_finished_def split: disc_phase.splits)
        with ok u True have "y = None"
          by (cases y) (auto simp: group_failed_def)
        with y show ?thesis by simp
      qed
      then have "group_clean s t" using True by (simp add: group_clean_def)
      with True okt ph nd tn show ?thesis
        by (auto simp: s' collect_neighbours_def disc_reads put_attributes_graph current_written completed_ok_def
            explored_def group_clean_def)
    next
      case False
      with tn nd show ?thesis
        by (auto simp: s' collect_neighbours_def disc_reads Let_def split: option.splits)
    qed
  next
    case (Close u)
    with e t obtain x where ph: "phase_of s t = Closing x"
      and s': "s' = set_phase t (Leaving x) (s\<lparr>closed := t # closed s\<rparr>)"
      by (auto split: if_splits disc_phase.splits)
    show ?thesis
    proof (cases x)
      case None
      have "completed_ok (es @ [e]) s' t"
        using okt ph None tn assms(1)
        by (auto simp: s' completed_ok_def explored_def group_clean_def disc_reads shape_def groups_ok_def)
      with None tn owner ph show ?thesis by (simp add: s' disc_reads)
    qed (use tn in \<open>simp add: s' disc_reads\<close>)
  next
    case (Leave u)
    with e t obtain x where ph: "phase_of s t = Leaving x" and s': "s' = leave_group t x s"
      by (auto split: if_splits disc_phase.splits)
    have par: "p < t" if "parent_of s t = Some p" for p
      using assms(1) tn that by (auto simp: shape_def groups_ok_def)
    show ?thesis
    proof (cases x)
      case None
      have "completed_ok (es @ [e]) s' t" if "completed_ok es s t"
        using that tn par ph
        by (auto simp: s' leave_group_def completed_ok_def explored_def group_clean_def disc_reads split: option.splits)
      with None tn okt ph show ?thesis
        by (auto simp: s' leave_group_def disc_reads split: option.splits)
    next
      case (Some y)
      with tn par ph show ?thesis
        by (auto simp: s' leave_group_def disc_reads group_failed_def report_def split: option.splits)
    qed
  qed (use e t tn in \<open>auto split: if_splits simp: disc_reads\<close>)
qed

lemma record_step:
  assumes "shape s" and "record_ok es s" and e: "disc_exec s e = Some s'"
  shows "record_ok (es @ [e]) s'"
proof -
  note reads = exec_reads [OF assms(1) e] and gr = exec_graph [OF assms(1) e]
  have ok: "\<forall>u < n_tasks s. task_ok es s u (phase_of s u)" and un: "\<And>k. owner_of s k = None \<Longrightarrow> listed (graph s) k []"
    using assms(2) by (simp_all add: record_ok_def)
  have "task_ok (es @ [e]) s' u (phase_of s' u)" if u: "u < n_tasks s'" for u
  proof (cases "u < n_tasks s")
    case True
    show ?thesis
    proof (cases "subject e = Some u")
      case subject: True
      show ?thesis by (rule task_ok_subject [OF assms(1) e subject ok un])
    next
      case False
      show ?thesis by (rule task_ok_other [OF assms(1) e True False]) (use ok True in blast)
    qed
  next
    case False
    then show ?thesis
      using exec_groups(1) [OF assms(1) e, of u] u by simp
  qed
  moreover have "listed (graph s') k []" if "owner_of s' k = None" for k
  proof -
    have none: "owner_of s k = None"
      using reads(6) [of k] that by (cases "owner_of s k") auto
    show ?thesis
    proof (cases "subject e")
      case None
      with gr(1) un [OF none] show ?thesis by simp
    next
      case (Some t)
      with gr(2,3) [OF Some] un [OF none] none show ?thesis by (cases "k = vertex_of s t") auto
    qed
  qed
  ultimately show ?thesis by (simp add: record_ok_def)
qed

lemma record_run: "disc_run ks es s \<Longrightarrow> record_ok es s"
proof (induction rule: disc_run.induct)
  case run_start
  show ?case
    by (auto simp: record_ok_def disc_init_def new_task_def phase_of_def listed_Nil order_of_def new_dag_def fun_eq_iff
        edge_rel_iff)
qed (auto intro: record_step shape_run)

lemma failed_moves: "failed_phase p \<Longrightarrow> moves p q \<Longrightarrow> failed_phase q"
  by (cases p rule: failed_phase.cases) auto

definition members_ok :: "'k list \<Rightarrow> ('k::linorder, 'v) discovery \<Rightarrow> bool" where
  "members_ok ks s \<longleftrightarrow>
     (\<forall>i < length ks. i < n_tasks s \<and> vertex_of s i = ks ! i)
     \<and> (\<forall>k \<in> nodes (graph s). (\<exists>t < n_tasks s. vertex_of s t = k) \<or> (\<exists>t < n_tasks s. failed_phase (phase_of s t)))"

lemma exec_nodes:
  assumes "shape s" and e: "disc_exec s e = Some s'" and "k \<in> nodes (graph s')"
  shows "k \<in> nodes (graph s) \<or> (\<exists>t < n_tasks s'. vertex_of s' t = k) \<or> (\<exists>t < n_tasks s'. failed_phase (phase_of s' t))"
proof (cases e)
  case (Register t)
  with e have t: "t < n_tasks s" and s': "s' = register_vertex t s" by (auto split: if_splits)
  show ?thesis
  proof (cases "vertex_of s t \<in> nodes (graph s)")
    case True
    with assms(3) show ?thesis by (simp add: s' register_vertex_def contains_vertex_iff disc_reads put_attributes_graph)
  next
    case False
    with assms(3) shape_wf [OF assms(1)] have "k = vertex_of s t \<or> k \<in> nodes (graph s)"
      by (simp add: s' register_vertex_def contains_vertex_iff disc_reads add_vertex_graph)
    moreover have "vertex_of s' t = vertex_of s t" "t < n_tasks s'"
      using exec_reads(1,2) [OF assms(1) e] t by auto
    ultimately show ?thesis by metis
  qed
next
  case (Add_neighbour t)
  with e obtain i where t: "t < n_tasks s" and ph: "phase_of s t = Adding i" and s': "s' = add_neighbour t i s"
    by (auto split: if_splits disc_phase.splits)
  have nd: "vertex_of s t \<in> nodes (graph s)" using shape_owner_node [OF assms(1) t] ph by simp
  from assms(1) t ph show ?thesis
  proof (cases rule: add_neighbour_cases)
    case (added g)
    have "nodes g = insert (neighbours_of s t ! i) (nodes (graph s))"
      by (rule add_reference_spec(2) [OF shape_wf [OF assms(1)] nd added(2)])
    with assms(3) have "k = neighbours_of s t ! i \<or> k \<in> nodes (graph s)"
      by (simp add: s' added(1) disc_reads)
    moreover have "n_tasks s < n_tasks s'" "vertex_of s' (n_tasks s) = neighbours_of s t ! i"
      by (simp_all add: s' added(1) disc_reads)
    ultimately show ?thesis by blast
  next
    case (refused g x)
    have "failed_phase (phase_of s' t)" "t < n_tasks s'"
      using t by (simp_all add: s' refused(1) disc_reads)
    then show ?thesis by blast
  qed
next
  case (Resolve t r)
  with e have t: "t < n_tasks s" "phase_of s t = Resolving" and s': "s' = after_resolve t r s" by (auto split: if_splits)
  with assms(3) shape_owner_node [OF assms(1) t(1)] show ?thesis
    by (cases r) (auto simp: after_resolve_def disc_reads put_attributes_graph)
next
  case (Neighbours t r)
  with e obtain v where t: "t < n_tasks s" "phase_of s t = Exploring v" and s': "s' = after_discover t v r s"
    by (auto split: if_splits disc_phase.splits)
  with assms(3) shape_owner_node [OF assms(1) t(1)] show ?thesis
    by (cases r) (auto simp: after_discover_def disc_reads put_attributes_graph)
next
  case (Collect t)
  with e obtain x where t: "t < n_tasks s" "phase_of s t = Collecting x" and s': "s' = collect_neighbours t x s"
    by (auto split: if_splits disc_phase.splits)
  with assms(3) shape_owner_node [OF assms(1) t(1)] show ?thesis
    by (auto simp: collect_neighbours_def Let_def disc_reads put_attributes_graph)
qed (use e assms(3) in \<open>auto split: if_splits disc_phase.splits option.splits
    simp: disc_reads claim_vertex_def leave_group_def\<close>)

lemma members_step:
  assumes "shape s" and "members_ok ks s" and e: "disc_exec s e = Some s'"
  shows "members_ok ks s'"
  unfolding members_ok_def
proof (intro conjI allI impI ballI)
  note reads = exec_reads [OF assms(1) e]
  fix i assume "i < length ks"
  with assms(2) have i: "i < n_tasks s" "vertex_of s i = ks ! i" by (auto simp: members_ok_def)
  with reads(1,2) show "i < n_tasks s'" "vertex_of s' i = ks ! i" by auto
next
  note reads = exec_reads [OF assms(1) e]
  fix k assume "k \<in> nodes (graph s')"
  from exec_nodes [OF assms(1) e this]
  show "(\<exists>t < n_tasks s'. vertex_of s' t = k) \<or> (\<exists>t < n_tasks s'. failed_phase (phase_of s' t))"
  proof (elim disjE)
    assume "k \<in> nodes (graph s)"
    with assms(2) consider t where "t < n_tasks s" "vertex_of s t = k" | t where "t < n_tasks s" "failed_phase (phase_of s t)"
      by (auto simp: members_ok_def)
    then show ?thesis
    proof cases
      case 1
      with reads(1,2) show ?thesis by (metis less_le_trans)
    next
      case (2 t)
      then have "failed_phase (phase_of s' t)"
        using reads(4) [of t] reads(5) [of t] failed_moves by (cases "subject e = Some t") auto
      with 2 reads(1) show ?thesis by (metis less_le_trans)
    qed
  qed auto
qed

lemma members_run: "disc_run ks es s \<Longrightarrow> members_ok ks s"
proof (induction rule: disc_run.induct)
  case run_start
  show ?case by (simp add: members_ok_def disc_init_def new_task_def vertex_of_def)
qed (auto intro: members_step shape_run)

section \<open>A discovery without error\<close>

lemma run_result:
  "disc_run ks es s \<Longrightarrow> result s = Some (Ok ()) \<Longrightarrow> root_error s = None \<and> group_finished s None"
proof (induction rule: disc_run.induct)
  case (run_step es s e s')
  then have none: "result s = None" by (auto dest: exec_running)
  have res: "result s' = Some (Ok ())" by fact
  have "e = Return"
  proof (cases e)
    case (Add_neighbour t)
    with run_step.hyps(2) obtain i where t: "t < n_tasks s" and ph: "phase_of s t = Adding i" and s': "s' = add_neighbour t i s"
      by (auto split: if_splits disc_phase.splits)
    from shape_run [OF run_step.hyps(1)] t ph show ?thesis
      by (cases rule: add_neighbour_cases) (use none res in \<open>auto simp: s' disc_reads\<close>)
  qed (use run_step.hyps(2) none res in \<open>auto split: if_splits disc_phase.splits option.splits
      simp: disc_reads claim_vertex_def register_vertex_def after_resolve_def after_discover_def
        collect_neighbours_def leave_group_def Let_def put_attributes_def\<close>)
  with run_step.hyps(2) res show ?case
    by (auto split: if_splits option.splits simp: group_finished_def)
qed (auto simp: disc_init_def split: if_splits)

lemma all_finished:
  assumes run: "disc_run ks es s" and "result s = Some (Ok ())" and "t < n_tasks s"
  shows "phase_of s t = Finished None"
  using assms(3)
proof (induction t rule: less_induct)
  case (less t)
  have sh: "shape s" by (rule shape_run [OF run])
  have ok: "task_ok es s u (phase_of s u)" if "u < n_tasks s" for u
    using record_run [OF run] that by (simp add: record_ok_def)
  show ?case
  proof (cases "parent_of s t")
    case None
    have root: "root_error s = None" "group_finished s None"
      using run_result [OF run assms(2)] by auto
    then have "is_finished (phase_of s t)"
      using None less.prems by (auto simp: group_finished_def list_all_length disc_reads)
    then obtain x where x: "phase_of s t = Finished x"
      by (auto simp: is_finished_def split: disc_phase.splits)
    with ok [OF less.prems] None root show ?thesis
      by (cases x) (auto simp: group_failed_def)
  next
    case (Some q)
    with sh less.prems have q: "q < t" "owner_of s (vertex_of s q) = Some q"
      by (auto simp: shape_def groups_ok_def)
    then have "q < n_tasks s" using less.prems by simp
    with less.IH [OF q(1)] ok [of q] q(2) have "group_clean s q"
      by (simp add: completed_ok_def)
    with Some less.prems show ?thesis by (simp add: group_clean_def)
  qed
qed

lemma completed_vertex:
  assumes run: "disc_run ks es s" and ended: "result s = Some (Ok ())" and t: "t < n_tasks s"
  obtains c where "c < n_tasks s" "vertex_of s c = vertex_of s t" "completed_ok es s c" "vertex_of s t \<in> nodes (graph s)"
proof -
  have sh: "shape s" by (rule shape_run [OF run])
  have ok: "task_ok es s u (phase_of s u)" if "u < n_tasks s" for u
    using record_run [OF run] that by (simp add: record_ok_def)
  have "owner_of s (vertex_of s t) \<noteq> None"
    using ok [OF t] all_finished [OF run ended t] by simp
  then obtain c where c: "owner_of s (vertex_of s t) = Some c" by auto
  with sh have "c < n_tasks s" "vertex_of s c = vertex_of s t" by (auto simp: shape_def owned_ok_def)
  moreover from this have fin: "phase_of s c = Finished None" by (intro all_finished [OF run ended])
  moreover have "completed_ok es s c"
    using ok [OF \<open>c < n_tasks s\<close>] fin c calculation(2) by simp
  moreover have "vertex_of s t \<in> nodes (graph s)"
    using sh c fin by (simp add: shape_def graph_ok_def)
  ultimately show thesis using that by blast
qed

text \<open>Reading the ordered neighbours back.\<close>

lemma place_edges_spec:
  assumes "\<forall>(w, a) \<in> set es. \<exists>i < length out. map_of a attribute_order_index = Some (Index_attr i) \<and> f i = w"
  shows "\<exists>out'. place_edges es out = Ok out' \<and> length out' = length out
    \<and> (\<forall>i < length out. out' ! i = (if \<exists>(w, a) \<in> set es. map_of a attribute_order_index = Some (Index_attr i) then Some (f i) else out ! i))"
  using assms
proof (induction es arbitrary: out)
  case (Cons e es)
  obtain w a where e: "e = (w, a)" by (cases e)
  with Cons.prems obtain i where i: "i < length out" "map_of a attribute_order_index = Some (Index_attr i)" "f i = w" by auto
  obtain out' where out': "place_edges es (out[i := Some w]) = Ok out'" "length out' = length out"
    "\<forall>j < length out. out' ! j = (if \<exists>(w, a) \<in> set es. map_of a attribute_order_index = Some (Index_attr j) then Some (f j)
       else out[i := Some w] ! j)"
    using Cons.IH [of "out[i := Some w]"] Cons.prems by auto
  show ?case
    by (rule exI [of _ out']) (use out' i e in \<open>auto simp: nth_list_update\<close>)
qed simp

lemma current_edges_listed:
  fixes g :: "('a::linorder, 'v) disc_graph"
  assumes wf: "wf_dag g" and listed: "listed g k ns" and "distinct ns" and "k \<in> nodes g"
  shows "current_edges g k = Ok (map Some ns)"
proof -
  obtain x where x: "get_vertex g k = Some x"
    using assms(4) by (auto simp: nodes_iff)
  have "(k, w) \<in> edge_rel g \<longleftrightarrow> w \<in> set ns" for w
    using listed by (auto simp: listed_def)
  then have keys: "set (mkeys (Edges x)) = set ns"
    using x by (auto simp: edge_rel_iff mem_mkeys_iff simp del: set_map)
  have mok: "mok (Edges x)"
    using wf x by (auto simp: wf_dag_iff)
  have len: "length (Edges x) = length ns"
    using mok keys assms(3) by (metis distinct_card length_map)
  have index: "\<exists>i < length ns. map_of a attribute_order_index = Some (Index_attr i) \<and> ns ! i = w"
    if "(w, a) \<in> set (Edges x)" for w a
  proof -
    have a: "map_of (Edges x) w = Some a" using mok that by simp
    then have "w \<in> set ns" using keys by (metis mem_mkeys_iff option.distinct(1))
    then obtain i where i: "i < length ns" "ns ! i = w" by (auto simp: in_set_conv_nth)
    have "map_of a attribute_order_index = order_of g k w"
      using a x by (simp add: order_of_def)
    also have "\<dots> = map_of (rev (zip ns (map Index_attr [0..<length ns]))) w"
      using listed by (simp add: listed_def)
    also have "\<dots> = Some (Index_attr i)"
      using i assms(3) by (intro map_of_is_SomeI) (auto simp: in_set_zip rev_map [symmetric])
    finally show ?thesis using i by blast
  qed
  have "\<forall>(w, a) \<in> set (Edges x). \<exists>i < length (replicate (length ns) (None :: 'a option)).
      map_of a attribute_order_index = Some (Index_attr i) \<and> ns ! i = w"
    using index by auto
  from place_edges_spec [OF this]
  obtain out where out: "place_edges (Edges x) (replicate (length ns) None) = Ok out" "length out = length ns"
    "\<forall>i < length ns. out ! i = (if \<exists>(w, a) \<in> set (Edges x). map_of a attribute_order_index = Some (Index_attr i)
       then Some (ns ! i) else replicate (length ns) None ! i)"
    by auto
  have "\<exists>(w, a) \<in> set (Edges x). map_of a attribute_order_index = Some (Index_attr i)" if i: "i < length ns" for i
  proof -
    have "ns ! i \<in> set (mkeys (Edges x))" using keys i by simp
    then obtain a where a: "(ns ! i, a) \<in> set (Edges x)" by (auto simp: image_iff)
    with index obtain j where "j < length ns" "map_of a attribute_order_index = Some (Index_attr j)" "ns ! j = ns ! i" by blast
    with assms(3) i have "j = i" by (simp add: nth_eq_iff_index_eq)
    with a \<open>map_of a attribute_order_index = Some (Index_attr j)\<close> show ?thesis by blast
  qed
  with out have "out = map Some ns"
    by (intro nth_equalityI) auto
  with x out len show ?thesis
    by (simp add: current_edges_def)
qed

text \<open>However the goroutines interleave, the resolver is called at most once for a vertex, and the
  graph stays acyclic with consistent counters.\<close>

theorem discover_once:
  assumes "disc_run ks es s"
  shows "distinct (map (vertex_of s) (resolved es)) \<and> wf_dag (graph s)"
proof -
  have calls: "calls_ok es s" and sh: "shape s"
    using calls_run [OF assms] shape_run [OF assms] .
  then have "inj_on (vertex_of s) (set (resolved es))"
    by (intro inj_onI) (metis calls_ok_def option.inject)
  with calls sh show ?thesis
    by (simp add: distinct_map calls_ok_def shape_wf)
qed

text \<open>C5: When a discovery returns without error, the roots are in the graph, and every vertex of the
  graph is completed: it holds the value that the resolver returned for it, its edges lead to
  exactly the neighbours that the discoverer reported, and if those are distinct, CurrentEdges
  returns them in the reported order.\<close>

theorem discover_complete:
  assumes run: "disc_run ks es s" and ended: "result s = Some (Ok ())"
  shows "set ks \<subseteq> nodes (graph s)
    \<and> (\<forall>k \<in> nodes (graph s). \<exists>t v ns. vertex_of s t = k
         \<and> Resolve t (Some v) \<in> set es \<and> Neighbours t (Some ns) \<in> set es
         \<and> current_state (graph s) k = Ok Completed \<and> current_value (graph s) k = Some v
         \<and> edge_rel (graph s) `` {k} = set ns
         \<and> (distinct ns \<longrightarrow> current_edges (graph s) k = Ok (map Some ns)))"
proof (intro conjI ballI subsetI)
  have members: "members_ok ks s" by (rule members_run [OF run])
  fix k assume "k \<in> set ks"
  then obtain i where "i < length ks" "ks ! i = k" by (auto simp: in_set_conv_nth)
  with members have "i < n_tasks s" "vertex_of s i = k" by (auto simp: members_ok_def)
  with completed_vertex [OF run ended] show "k \<in> nodes (graph s)" by metis
next
  fix k assume k: "k \<in> nodes (graph s)"
  have "\<not> failed_phase (phase_of s t)" if "t < n_tasks s" for t
    using all_finished [OF run ended that] by simp
  with members_run [OF run] k obtain t where t: "t < n_tasks s" "vertex_of s t = k"
    by (auto simp: members_ok_def)
  obtain c where c: "c < n_tasks s" "vertex_of s c = k" "completed_ok es s c"
    using completed_vertex [OF run ended t(1)] t(2) by metis
  from c obtain v where v: "Resolve c (Some v) \<in> set es" "current_value (graph s) k = Some v"
    and ns: "Neighbours c (Some (neighbours_of s c)) \<in> set es" "listed (graph s) k (neighbours_of s c)"
    and st: "current_state (graph s) k = Ok Completed"
    by (auto simp: completed_ok_def explored_def)
  have "current_edges (graph s) k = Ok (map Some (neighbours_of s c))" if "distinct (neighbours_of s c)"
    by (rule current_edges_listed [OF shape_wf [OF shape_run [OF run]] ns(2) that k])
  moreover have "edge_rel (graph s) `` {k} = set (neighbours_of s c)"
    using ns(2) by (simp add: listed_def)
  ultimately show "\<exists>t v ns. vertex_of s t = k
         \<and> Resolve t (Some v) \<in> set es \<and> Neighbours t (Some ns) \<in> set es
         \<and> current_state (graph s) k = Ok Completed \<and> current_value (graph s) k = Some v
         \<and> edge_rel (graph s) `` {k} = set ns
         \<and> (distinct ns \<longrightarrow> current_edges (graph s) k = Ok (map Some ns))"
    using c(2) v ns(1) st by blast
qed

text \<open>C33: A discovery never deadlocks: until it has returned, some step other than a cancellation is
  possible. When the roots and all reported neighbours come from a finite set and no vertex has
  more than \<open>B\<close> of them, the number of steps is bounded, so it always returns.\<close>

theorem discover_live:
  assumes "disc_run ks es s" and "finite U" and "set ks \<subseteq> U"
    and "\<And>t ns. Neighbours t (Some ns) \<in> set es \<Longrightarrow> set ns \<subseteq> U \<and> length ns \<le> B"
  shows "(result s = None \<longrightarrow> (\<exists>e s'. e \<noteq> Cancel_ctx \<and> disc_exec s e = Some s'))
    \<and> own_steps es \<le> 10 * (length ks + card U * B) + 1"
proof -
  have arith: "own \<le> 10 * m + 1" if "n \<le> m" "own + l \<le> 10 * n + 1" for own l m n :: nat
    using that by linarith
  have "n_tasks s \<le> length ks + card U * B"
    using assms by (rule tasks_bound)
  then have "own_steps es \<le> 10 * (length ks + card U * B) + 1"
    using own_steps_tasks [OF assms(1)] by (rule arith)
  moreover have "\<exists>e s'. e \<noteq> Cancel_ctx \<and> disc_exec s e = Some s'" if "result s = None"
    using not_stuck [OF shape_run [OF assms(1)] that] unfolding stuck_def by fastforce
  ultimately show ?thesis by blast
qed

section \<open>Concrete runs\<close>

fun run_events :: "('k::linorder, 'v) discovery \<Rightarrow> ('k, 'v) disc_event list \<Rightarrow> ('k, 'v) discovery option" where
  "run_events s [] = Some s"
| "run_events s (e # es) = Option.bind (disc_exec s e) (\<lambda>s'. run_events s' es)"

lemma run_events_run:
  "disc_run ks fs s \<Longrightarrow> run_events s es = Some s' \<Longrightarrow> disc_run ks (fs @ es) s'"
proof (induction es arbitrary: fs s)
  case (Cons e es)
  then obtain s1 where s1: "disc_exec s e = Some s1" "run_events s1 es = Some s'"
    by (auto split: bind_splits)
  from Cons.IH [OF run_step [OF Cons.prems(1) s1(1)] s1(2)] show ?case by simp
qed simp

lemma run_events_init: "run_events (disc_init ks) es = Some s \<Longrightarrow> disc_run ks es s"
  using run_events_run [OF run_start] by fastforce

text \<open>One root with a neighbour.\<close>

definition pair_events :: "(nat, nat) disc_event list" where
  "pair_events =
     [Enter 0, Claim 0, Register 0, Resolve 0 (Some 10), Neighbours 0 (Some [2]), Add_neighbour 0,
      Enter 1, Claim 1, Register 1, Resolve 1 (Some 20), Neighbours 1 (Some []), Collect 1, Close 1, Leave 1,
      Collect 0, Close 0, Leave 0, Return]"

definition pair_result :: "(nat, nat) discovery" where
  "pair_result = the (run_events (disc_init [1]) pair_events)"

lemma pair_run: "disc_run [1] pair_events pair_result"
proof -
  have "run_events (disc_init [1]) pair_events \<noteq> None" by code_simp
  then show ?thesis
    unfolding pair_result_def by (intro run_events_init) auto
qed

lemma pair_ended: "result pair_result = Some (Ok ())"
  by code_simp

theorem discover_once_witness:
  "resolved pair_events = [0, 1] \<and> distinct (map (vertex_of pair_result) [0, 1])"
  using discover_once [OF pair_run] by (simp add: pair_events_def resolved_def)

theorem discover_complete_witness:
  "1 \<in> nodes (graph pair_result) \<and> current_state (graph pair_result) 1 = Ok Completed"
  using discover_complete [OF pair_run pair_ended] by auto

theorem discover_live_witness: "own_steps pair_events \<le> 31"
proof -
  have "own_steps pair_events \<le> 10 * (length [1 :: nat] + card {1, 2 :: nat} * 1) + 1"
    by (rule conjunct2 [OF discover_live [OF pair_run]]) (auto simp: pair_events_def)
  then show ?thesis by simp
qed

text \<open>A vertex can end up completed although a neighbour of it failed: the goroutine that waited for the
  failed vertex only sees that its channel is closed. Two roots share the neighbour 3, whose
  resolution fails.\<close>

definition shared_events :: "(nat, nat) disc_event list" where
  "shared_events =
     [Enter 0, Claim 0, Register 0, Resolve 0 (Some 10), Neighbours 0 (Some [3]), Add_neighbour 0,
      Enter 1, Claim 1, Register 1, Resolve 1 (Some 20), Neighbours 1 (Some [3]), Add_neighbour 1,
      Enter 2, Claim 2, Enter 3, Claim 3, Register 2, Resolve 2 None, Close 2, Wake 3, Leave 3,
      Collect 1, Close 1, Leave 1, Leave 2, Collect 0, Close 0, Leave 0, Return]"

definition shared_result :: "(nat, nat) discovery" where
  "shared_result = the (run_events (disc_init [1, 2]) shared_events)"

lemma completed_over_failed:
  "disc_run [1, 2] shared_events shared_result
   \<and> result shared_result = Some (Fail (ResolveFailed 3))
   \<and> (2, 3) \<in> edge_rel (graph shared_result)
   \<and> current_state (graph shared_result) 3 = Ok Errored
   \<and> current_state (graph shared_result) 2 = Ok Completed"
proof -
  have "run_events (disc_init [1, 2]) shared_events \<noteq> None" by code_simp
  then have "disc_run [1, 2] shared_events shared_result"
    unfolding shared_result_def by (intro run_events_init) auto
  moreover have "result shared_result = Some (Fail (ResolveFailed 3))" by code_simp
  moreover have "(2, 3) \<in> edge_rel (graph shared_result)"
  proof -
    have "Option.bind (get_vertex (graph shared_result) 2) (\<lambda>x. map_of (Edges x) 3) \<noteq> None" by code_simp
    then show ?thesis by (auto simp: edge_rel_iff split: bind_splits)
  qed
  moreover have "current_state (graph shared_result) 3 = Ok Errored" by code_simp
  moreover have "current_state (graph shared_result) 2 = Ok Completed" by code_simp
  ultimately show ?thesis by blast
qed

text \<open>A neighbour that is reported twice keeps one edge, labelled with the second index: CurrentEdges
  then writes beyond its slice.\<close>

definition repeated_events :: "(nat, nat) disc_event list" where
  "repeated_events =
     [Enter 0, Claim 0, Register 0, Resolve 0 (Some 10), Neighbours 0 (Some [2, 2]), Add_neighbour 0, Add_neighbour 0]"

lemma repeated_neighbour_panics:
  "Option.bind (run_events (disc_init [1]) repeated_events) (\<lambda>s. Some (current_edges (graph s) 1)) = Some Panic"
  by code_simp

end
