(* ===== verification/Go_Strings.thy ===== *)
theory Go_Strings
  imports Prelude "HOL-Library.Char_ord" "HOL-Library.List_Lexorder" "HOL-Library.Sublist"
begin

text \<open>
  What the sources use of Go's \<open>strings\<close> package. A Go string is a list of bytes, and an
  Isabelle \<open>char\<close> is a byte; the order of the library theory \<open>List_Lexorder\<close> is Go's byte
  order. Space is the ASCII white space of \<open>strings.TrimSpace\<close>.
\<close>

section \<open>Splitting at a byte and joining\<close>

text \<open>\<open>strings.Split(s, sep)\<close> for a separator of one byte.\<close>

fun split_at :: "char \<Rightarrow> string \<Rightarrow> string list" where
  "split_at c [] = [[]]"
| "split_at c (x # xs) =
     (if x = c then [] # split_at c xs
      else (case split_at c xs of
              [] \<Rightarrow> [[x]]
            | p # ps \<Rightarrow> (x # p) # ps))"

text \<open>\<open>strings.Cut(s, sep)\<close>; \<open>strings.SplitN(s, sep, 2)\<close> yields the same two parts.\<close>

fun cut_at :: "char \<Rightarrow> string \<Rightarrow> (string \<times> string) option" where
  "cut_at c [] = None"
| "cut_at c (x # xs) =
     (if x = c then Some ([], xs) else map_option (\<lambda>(a, b). (x # a, b)) (cut_at c xs))"

text \<open>The cut at the last occurrence, \<open>strings.LastIndex\<close> with slicing.\<close>

definition cut_last :: "char \<Rightarrow> string \<Rightarrow> (string \<times> string) option" where
  "cut_last c s = map_option (\<lambda>(a, b). (rev b, rev a)) (cut_at c (rev s))"

fun join_with :: "string \<Rightarrow> string list \<Rightarrow> string" where
  "join_with sep [] = []"
| "join_with sep [p] = p"
| "join_with sep (p # q # ps) = p @ sep @ join_with sep (q # ps)"

lemma split_at_not_Nil [simp]: "split_at c s \<noteq> []"
  by (induction s) (auto split: list.splits)

lemma split_at_no_sep: "c \<notin> set s \<Longrightarrow> split_at c s = [s]"
  by (induction s) auto

lemma split_at_parts: "p \<in> set (split_at c s) \<Longrightarrow> c \<notin> set p"
  by (induction s arbitrary: p) (auto split: list.splits if_splits)

lemma split_at_append: "c \<notin> set p \<Longrightarrow> split_at c (p @ c # s) = p # split_at c s"
  by (induction p) auto

lemma join_split_at: "join_with [c] (split_at c s) = s"
proof (induction s)
  case (Cons x xs)
  obtain p ps where s: "split_at c xs = p # ps" by (cases "split_at c xs") auto
  with Cons show ?case by (cases ps) auto
qed simp

lemma split_at_join:
  "ps \<noteq> [] \<Longrightarrow> \<forall>p \<in> set ps. c \<notin> set p \<Longrightarrow> split_at c (join_with [c] ps) = ps"
  by (induction "[c]" ps rule: join_with.induct) (auto simp: split_at_no_sep split_at_append)

lemma length_split_at: "length (split_at c s) = Suc (count_list s c)"
  by (induction s) (auto split: list.splits)

lemma cut_at_Some_iff: "cut_at c s = Some (a, b) \<longleftrightarrow> s = a @ c # b \<and> c \<notin> set a"
proof (induction s arbitrary: a)
  case (Cons x xs)
  show ?case
  proof (cases a)
    case Nil
    then show ?thesis by auto
  next
    case (Cons y ys)
    with Cons.IH show ?thesis by auto
  qed
qed simp

lemma cut_at_None_iff: "cut_at c s = None \<longleftrightarrow> c \<notin> set s"
  by (induction s) auto

lemma cut_last_Some_iff: "cut_last c s = Some (a, b) \<longleftrightarrow> s = a @ c # b \<and> c \<notin> set b"
proof -
  have "cut_last c s = Some (a, b) \<longleftrightarrow> cut_at c (rev s) = Some (rev b, rev a)"
    by (auto simp: cut_last_def)
  also have "\<dots> \<longleftrightarrow> rev s = rev (a @ c # b) \<and> c \<notin> set b"
    by (simp add: cut_at_Some_iff)
  finally show ?thesis by (simp only: rev_is_rev_conv)
qed

lemma cut_last_None_iff: "cut_last c s = None \<longleftrightarrow> c \<notin> set s"
  by (simp add: cut_last_def cut_at_None_iff)

section \<open>White space\<close>

definition is_space :: "char \<Rightarrow> bool" where
  "is_space c \<longleftrightarrow> c \<in> {CHR '' '', CHR 0x09, CHR 0x0A, CHR 0x0B, CHR 0x0C, CHR 0x0D}"

definition trim_space :: "string \<Rightarrow> string" where
  "trim_space s = rev (dropWhile is_space (rev (dropWhile is_space s)))"

definition trimmed :: "string \<Rightarrow> bool" where
  "trimmed s \<longleftrightarrow> s = [] \<or> \<not> is_space (hd s) \<and> \<not> is_space (last s)"

lemma trim_space_trimmed: "trimmed s \<Longrightarrow> trim_space s = s"
proof (cases "s = []")
  case False
  assume "trimmed s"
  with False have "\<not> is_space (hd s)" and "\<not> is_space (hd (rev s))"
    by (simp_all add: trimmed_def hd_rev)
  then have "dropWhile is_space s = s" and "dropWhile is_space (rev s) = rev s"
    using False by (simp_all add: dropWhile_eq_self_iff)
  then show ?thesis by (simp add: trim_space_def)
qed (simp add: trim_space_def)

lemma trimmed_trim_space: "trimmed (trim_space s)"
proof -
  define d where "d = dropWhile is_space s"
  have t: "trim_space s = rev (dropWhile is_space (rev d))"
    by (simp add: trim_space_def d_def)
  show ?thesis
  proof (cases "dropWhile is_space (rev d)")
    case Nil
    then show ?thesis by (simp add: t trimmed_def)
  next
    case (Cons x xs)
    then have "\<not> is_space x" by (metis hd_dropWhile list.sel(1) list.simps(3))
    obtain e where e: "rev d = e @ x # xs"
      by (metis Cons takeWhile_dropWhile_id)
    then have d: "d = rev (x # xs) @ rev e" by (metis rev_append rev_rev_ident)
    then have "hd d = hd (rev (x # xs))" by (simp add: hd_append)
    moreover have "\<not> is_space (hd d)"
      using d by (metis append_is_Nil_conv d_def hd_dropWhile list.distinct(1) rev_is_Nil_conv)
    ultimately show ?thesis
      using Cons \<open>\<not> is_space x\<close> by (simp add: t trimmed_def last_rev)
  qed
qed

section \<open>Prefixes and substrings\<close>

definition has_prefix :: "string \<Rightarrow> string \<Rightarrow> bool" where
  "has_prefix s p \<longleftrightarrow> take (length p) s = p"

definition trim_prefix :: "string \<Rightarrow> string \<Rightarrow> string" where
  "trim_prefix s p = (if has_prefix s p then drop (length p) s else s)"

definition has_suffix :: "string \<Rightarrow> string \<Rightarrow> bool" where
  "has_suffix s p \<longleftrightarrow> has_prefix (rev s) (rev p)"

definition trim_suffix :: "string \<Rightarrow> string \<Rightarrow> string" where
  "trim_suffix s p = (if has_suffix s p then take (length s - length p) s else s)"

lemma has_prefix_iff: "has_prefix s p \<longleftrightarrow> (\<exists>t. s = p @ t)"
  unfolding has_prefix_def by (metis append_eq_conv_conj append_take_drop_id)

lemma trim_prefix_append [simp]: "trim_prefix (p @ s) p = s"
  by (simp add: trim_prefix_def has_prefix_def)

text \<open>\<open>strings.Cut(s, sep)\<close> and \<open>strings.Contains\<close> for a non-empty separator string.\<close>

fun cut_str :: "string \<Rightarrow> string \<Rightarrow> (string \<times> string) option" where
  "cut_str sep s =
     (if has_prefix s sep then Some ([], drop (length sep) s)
      else (case s of [] \<Rightarrow> None | x # xs \<Rightarrow> map_option (\<lambda>(a, b). (x # a, b)) (cut_str sep xs)))"

declare cut_str.simps [simp del]

definition contains_str :: "string \<Rightarrow> string \<Rightarrow> bool" where
  "contains_str s sep \<longleftrightarrow> cut_str sep s \<noteq> None"

lemma cut_str_Some: "cut_str sep s = Some (a, b) \<Longrightarrow> s = a @ sep @ b"
proof (induction s arbitrary: a)
  case (Cons x xs)
  then show ?case
    by (subst (asm) cut_str.simps) (auto simp: has_prefix_iff split: if_splits)
qed (subst (asm) cut_str.simps, auto simp: has_prefix_def split: if_splits)

lemma cut_str_None_iff: "cut_str sep s = None \<longleftrightarrow> (\<nexists>a b. s = a @ sep @ b)"
proof (induction s)
  case Nil
  then show ?case by (subst cut_str.simps) (auto simp: has_prefix_def)
next
  case (Cons x xs)
  show ?case
  proof (cases "has_prefix (x # xs) sep")
    case True
    then show ?thesis by (subst cut_str.simps) (force simp: has_prefix_iff intro: exI [of _ "[]"])
  next
    case False
    then have "(\<exists>a b. x # xs = a @ sep @ b) \<longleftrightarrow> (\<exists>a b. xs = a @ sep @ b)"
      by (auto simp: has_prefix_iff Cons_eq_append_conv)
    with Cons False show ?thesis by (subst cut_str.simps) auto
  qed
qed

lemma contains_str_iff: "contains_str s sep \<longleftrightarrow> (\<exists>a b. s = a @ sep @ b)"
  by (simp add: contains_str_def cut_str_None_iff)

end
