(* ===== verification/Identity.thy ===== *)
theory Identity
  imports Go_Strings "HOL-Library.Word"
begin

text \<open>
  Types and identities of \<open>bindings/go/runtime\<close>: \<open>type.go\<close>, \<open>identity.go\<close> and
  \<open>identity_match.go\<close>. An identity is a Go map from attribute names to values. Matchers
  may delete attributes of the identities they are given, so a matcher returns the two
  identities it leaves behind with its verdict. The glob library is a parameter.
\<close>

section \<open>Types\<close>

record go_type =
  Version :: string
  Name :: string

datatype type_error = TooManySegments string | MissingName string

definition type_from_string :: "string \<Rightarrow> (type_error, go_type) outcome" where
  "type_from_string typ =
     (let parts = split_at CHR ''/'' typ in
      if 2 < length parts then Fail (TooManySegments typ)
      else
        let t = (if length parts = 1 then \<lparr>Version = [], Name = parts ! 0\<rparr>
                 else \<lparr>Version = parts ! 1, Name = parts ! 0\<rparr>)
        in if Name t = [] then Fail (MissingName typ) else Ok t)"

definition type_equal :: "go_type \<Rightarrow> go_type \<Rightarrow> bool" where
  "type_equal t other \<longleftrightarrow> Name t = Name other \<and> Version t = Version other"

definition type_string :: "go_type \<Rightarrow> string" where
  "type_string t = (if Version t \<noteq> [] then Name t @ ''/'' @ Version t else Name t)"

definition has_version :: "go_type \<Rightarrow> bool" where
  "has_version t \<longleftrightarrow> Version t \<noteq> []"

definition type_is_empty :: "go_type \<Rightarrow> bool" where
  "type_is_empty t \<longleftrightarrow> Version t = [] \<and> Name t = []"

definition compare_types :: "go_type \<Rightarrow> go_type \<Rightarrow> int" where
  "compare_types a b =
     (if type_string a = type_string b then 0 else if type_string a < type_string b then -1 else 1)"

section \<open>Identities\<close>

type_synonym identity = "(string, string) gomap"

definition lookup :: "identity \<Rightarrow> string \<Rightarrow> string" where
  "lookup i k = (case map_of i k of None \<Rightarrow> [] | Some v \<Rightarrow> v)"

definition identity_equal :: "identity \<Rightarrow> identity \<Rightarrow> bool" where
  "identity_equal i other = mequal i other"

definition sorted_keys :: "identity \<Rightarrow> string list" where
  "sorted_keys i = sort (mkeys i)"

text \<open>FNV-1 with 64 bits, the hash of \<open>fnv.New64\<close>: multiply, then xor each byte.\<close>

definition fnv_step :: "64 word \<Rightarrow> char \<Rightarrow> 64 word" where
  "fnv_step h c = xor (h * 1099511628211) (word_of_nat (of_char c))"

definition fnv_write :: "64 word \<Rightarrow> string \<Rightarrow> 64 word" where
  "fnv_write h s = foldl fnv_step h s"

definition canonical_hash_v1 :: "identity \<Rightarrow> 64 word" where
  "canonical_hash_v1 i = foldl (\<lambda>h key. fnv_write h (key @ lookup i key)) 14695981039346656037 (sorted_keys i)"

definition identity_string :: "identity \<Rightarrow> string" where
  "identity_string i = join_with '','' (map (\<lambda>key. key @ ''='' @ lookup i key) (sorted_keys i))"

datatype identity_error = InvalidPart string | MissingType | InvalidType string type_error

fun parse_parts :: "string list \<Rightarrow> identity \<Rightarrow> (identity_error, identity) outcome" where
  "parse_parts [] i = Ok i"
| "parse_parts (part # parts) i =
     (case cut_at CHR ''='' part of
        None \<Rightarrow> Fail (InvalidPart part)
      | Some (a, b) \<Rightarrow>
          (let key = trim_space a; v = trim_space b in
           if key = [] \<or> v = [] then Fail (InvalidPart part)
           else parse_parts parts (mput key v i)))"

definition parse_identity :: "string \<Rightarrow> (identity_error, identity) outcome" where
  "parse_identity s = parse_parts (split_at CHR '','' s) []"

definition set_type :: "identity \<Rightarrow> go_type \<Rightarrow> identity" where
  "set_type i typ = mput ''type'' (type_string typ) i"

definition parse_type :: "identity \<Rightarrow> (identity_error, go_type) outcome" where
  "parse_type i =
     (case map_of i ''type'' of
        None \<Rightarrow> Fail MissingType
      | Some v \<Rightarrow> (case type_from_string v of
                    Ok t \<Rightarrow> Ok t
                  | Fail e \<Rightarrow> Fail (InvalidType v e)
                  | Panic \<Rightarrow> Panic))"

definition get_type :: "identity \<Rightarrow> (identity_error, go_type) outcome" where
  "get_type i = (case parse_type i of Ok t \<Rightarrow> Ok t | _ \<Rightarrow> Panic)"

section \<open>Matchers\<close>

type_synonym matcher = "identity \<Rightarrow> identity \<Rightarrow> bool \<times> identity \<times> identity"

text \<open>\<open>glob pattern\<close> is \<open>None\<close> when the pattern does not compile, else the compiled predicate.\<close>

type_synonym glob = "string \<Rightarrow> (string \<Rightarrow> bool) option"

fun negate_classes_as_glob :: "string \<Rightarrow> string" where
  "negate_classes_as_glob (c # d # s) =
     (if c = CHR 0x5C then c # d # negate_classes_as_glob s
      else if c = CHR ''['' \<and> d = CHR ''^'' then c # CHR ''!'' # negate_classes_as_glob s
      else c # negate_classes_as_glob (d # s))"
| "negate_classes_as_glob s = s"

definition identity_matches_path :: "glob \<Rightarrow> matcher" where
  "identity_matches_path glob i p =
     (let ip = map_of i ''path''; op = map_of p ''path'';
          iv = lookup i ''path''; ov = lookup p ''path'';
          verdict = (if ip = None \<and> op = None \<or> (iv = [] \<and> ov = []) \<or> ov = [] then True
                     else (case glob (negate_classes_as_glob ov) of
                             None \<Rightarrow> False
                           | Some matches \<Rightarrow> matches iv))
      in (verdict, mdel ''path'' i, mdel ''path'' p))"

definition normalize_scheme :: "string \<Rightarrow> string" where
  "normalize_scheme scheme = (if scheme = ''oci'' then ''https'' else scheme)"

definition default_port :: "string \<Rightarrow> string \<Rightarrow> string" where
  "default_port s p =
     (if p \<noteq> [] then p else if s = ''https'' then ''443'' else if s = ''http'' then ''80'' else [])"

definition drop_url :: "identity \<Rightarrow> identity" where
  "drop_url m = mdel ''port'' (mdel ''hostname'' (mdel ''scheme'' m))"

definition identity_matches_url :: matcher where
  "identity_matches_url i p =
     (let iScheme = normalize_scheme (lookup i ''scheme''); oScheme = normalize_scheme (lookup p ''scheme'');
          iHost = lookup i ''hostname''; oHost = lookup p ''hostname'';
          iPort = lookup i ''port''; oPort = lookup p ''port'';
          effective = (if iScheme = [] then oScheme else iScheme);
          verdict = (if iScheme \<noteq> [] \<and> oScheme \<noteq> [] \<and> iScheme \<noteq> oScheme then False
                     else if iHost \<noteq> oHost then False
                     else default_port effective iPort = default_port effective oPort)
      in (verdict, drop_url i, drop_url p))"

definition identity_equal_matcher :: matcher where
  "identity_equal_matcher a b = (identity_equal a b, [], [])"

fun subset_scan :: "identity \<Rightarrow> identity \<Rightarrow> bool" where
  "subset_scan [] base = True"
| "subset_scan ((k, v) # sub) base =
     (case map_of base k of
        None \<Rightarrow> False
      | Some w \<Rightarrow> if w \<noteq> v then False else subset_scan sub base)"

definition identity_subset :: "identity \<Rightarrow> identity \<Rightarrow> bool" where
  "identity_subset sub base = (if length base < length sub then False else subset_scan sub base)"

text \<open>\<open>AndMatcher.Match\<close> stops at the first matcher that refuses.\<close>

fun and_matcher :: "matcher list \<Rightarrow> matcher" where
  "and_matcher [] i p = (True, i, p)"
| "and_matcher (m # ms) i p =
     (case m i p of
        (True, i', p') \<Rightarrow> and_matcher ms i' p'
      | (False, i', p') \<Rightarrow> (False, i', p'))"

fun match_loop :: "matcher list \<Rightarrow> identity \<Rightarrow> identity \<Rightarrow> bool" where
  "match_loop [] i p = False"
| "match_loop (m # ms) i p =
     (case m i p of
        (True, _, _) \<Rightarrow> True
      | (False, i', p') \<Rightarrow> match_loop ms i' p')"

definition default_matcher :: "glob \<Rightarrow> matcher" where
  "default_matcher glob = and_matcher [identity_matches_path glob, identity_matches_url, identity_equal_matcher]"

definition identity_match :: "glob \<Rightarrow> identity \<Rightarrow> identity \<Rightarrow> matcher list \<Rightarrow> bool" where
  "identity_match glob i p matchers =
     (if matchers = [] then match_loop [default_matcher glob] i p else match_loop matchers i p)"

section \<open>Types: printing and parsing\<close>

lemma split_at_two: "split_at c s = [a, b] \<longleftrightarrow> s = a @ c # b \<and> c \<notin> set a \<and> c \<notin> set b"
proof
  assume s: "split_at c s = [a, b]"
  then have "s = join_with [c] [a, b]" by (metis join_split_at)
  moreover have "c \<notin> set a" "c \<notin> set b" using split_at_parts [of _ c s] s by auto
  ultimately show "s = a @ c # b \<and> c \<notin> set a \<and> c \<notin> set b" by simp
qed (auto simp: split_at_append split_at_no_sep)

lemma split_at_one: "split_at c s = [a] \<longleftrightarrow> s = a \<and> c \<notin> set a"
proof
  assume s: "split_at c s = [a]"
  then have "s = join_with [c] [a]" by (metis join_split_at)
  with s show "s = a \<and> c \<notin> set a" using split_at_parts [of _ c s] by auto
qed (auto simp: split_at_no_sep)

lemma type_from_string_iff:
  "type_from_string s = Ok t \<longleftrightarrow> Name t \<noteq> [] \<and> CHR ''/'' \<notin> set (Name t) \<and> CHR ''/'' \<notin> set (Version t)
     \<and> (s = Name t @ ''/'' @ Version t \<or> (s = Name t \<and> Version t = []))" (is "?l \<longleftrightarrow> ?r")
proof
  assume l: ?l
  then have len: "\<not> 2 < length (split_at CHR ''/'' s)"
    by (auto simp: type_from_string_def)
  then consider a where "split_at CHR ''/'' s = [a]" | a b where "split_at CHR ''/'' s = [a, b]"
    by (cases "split_at CHR ''/'' s"; cases "tl (split_at CHR ''/'' s)") auto
  then show ?r
  proof cases
    case (1 a)
    then have "s = a" "CHR ''/'' \<notin> set a" by (simp_all add: split_at_one)
    then show ?thesis using 1 l by (auto simp: type_from_string_def split: if_splits)
  next
    case (2 a b)
    then have "s = a @ CHR ''/'' # b" "CHR ''/'' \<notin> set a" "CHR ''/'' \<notin> set b" by (simp_all add: split_at_two)
    then show ?thesis using 2 l by (auto simp: type_from_string_def split: if_splits)
  qed
next
  assume r: ?r
  then have "split_at CHR ''/'' s = [Name t, Version t] \<or> (split_at CHR ''/'' s = [Name t] \<and> Version t = [])"
    by (auto simp: split_at_two split_at_one)
  with r show ?l by (auto simp: type_from_string_def)
qed

section \<open>Identities: printing and parsing\<close>

definition printable :: "string \<Rightarrow> string \<Rightarrow> bool" where
  "printable k v \<longleftrightarrow> k \<noteq> [] \<and> v \<noteq> [] \<and> trimmed k \<and> trimmed v
     \<and> CHR '','' \<notin> set k \<and> CHR ''='' \<notin> set k \<and> CHR '','' \<notin> set v"

lemma set_trim_space: "set (trim_space s) \<subseteq> set s"
  unfolding trim_space_def by (metis set_dropWhileD set_rev subsetI)

lemma parse_parts_printable:
  "parse_parts ps i = Ok j \<Longrightarrow> \<forall>p \<in> set ps. CHR '','' \<notin> set p \<Longrightarrow> \<forall>(k, v) \<in> set i. printable k v
    \<Longrightarrow> (\<forall>(k, v) \<in> set j. printable k v) \<and> (ps \<noteq> [] \<longrightarrow> j \<noteq> []) \<and> length i \<le> length j"
proof (induction ps i rule: parse_parts.induct)
  case (2 part parts i)
  from "2.prems"(1) obtain a b where cut: "cut_at CHR ''='' part = Some (a, b)"
    and ne: "trim_space a \<noteq> []" "trim_space b \<noteq> []"
    and rest: "parse_parts parts (mput (trim_space a) (trim_space b) i) = Ok j"
    by (auto simp: Let_def split: option.splits if_splits)
  have "printable (trim_space a) (trim_space b)"
    using cut ne "2.prems"(2) set_trim_space [of a] set_trim_space [of b]
    by (auto simp: printable_def trimmed_trim_space cut_at_Some_iff)
  then have "\<forall>(k, v) \<in> set (mput (trim_space a) (trim_space b) i). printable k v"
    using "2.prems"(3) set_mput [of "trim_space a" "trim_space b" i] by blast
  then show ?case
    using "2.IH" [OF cut refl refl refl] ne rest "2.prems"(2) by (auto simp: length_mput split: if_splits)
qed auto


lemma sorted_keys [simp]: "set (sorted_keys i) = dom (map_of i)" "sorted (sorted_keys i)"
  by (simp_all add: sorted_keys_def dom_map_of_conv_image_fst)

lemma distinct_sorted_keys: "mok i \<Longrightarrow> distinct (sorted_keys i)"
  by (simp add: sorted_keys_def)

lemma lookup_Some: "map_of i k = Some v \<Longrightarrow> lookup i k = v"
  by (simp add: lookup_def)

lemma parse_parts_print:
  "distinct ks \<Longrightarrow> set ks \<inter> set (mkeys acc) = {} \<Longrightarrow> \<forall>k \<in> set ks. printable k (f k)
    \<Longrightarrow> parse_parts (map (\<lambda>k. k @ ''='' @ f k) ks) acc = Ok (acc @ map (\<lambda>k. (k, f k)) ks)"
proof (induction ks arbitrary: acc)
  case (Cons k ks)
  have ok: "printable k (f k)" using Cons.prems(3) by simp
  then have cut: "cut_at CHR ''='' (k @ CHR ''='' # f k) = Some (k, f k)"
    by (simp add: cut_at_Some_iff printable_def)
  have trim: "trim_space k = k" "trim_space (f k) = f k" "k \<noteq> []" "f k \<noteq> []"
    using ok by (simp_all add: printable_def trim_space_trimmed)
  have put: "mput k (f k) acc = acc @ [(k, f k)]"
    using Cons.prems(2) by (intro mput_fresh) simp
  show ?case
    using Cons.prems Cons.IH [of "acc @ [(k, f k)]"] by (simp add: cut trim put Let_def)
qed simp

lemma parse_identity_string:
  assumes "mok i" and "i \<noteq> []" and "\<forall>(k, v) \<in> set i. printable k v"
  shows "parse_identity (identity_string i) = Ok (map (\<lambda>k. (k, lookup i k)) (sorted_keys i))"
proof -
  let ?ks = "sorted_keys i"
  have pr: "\<forall>k \<in> set ?ks. printable k (lookup i k)"
  proof -
    have "printable k v" if "map_of i k = Some v" for k v
      using assms(3) map_of_SomeD [OF that] by blast
    then show ?thesis by (auto simp: lookup_def)
  qed
  then have "\<forall>p \<in> set (map (\<lambda>k. k @ ''='' @ lookup i k) ?ks). CHR '','' \<notin> set p"
    by (auto simp: printable_def)
  moreover have "?ks \<noteq> []"
    using assms(2) by (simp add: sorted_keys_def) (metis length_0_conv length_map length_sort)
  ultimately have "split_at CHR '','' (identity_string i) = map (\<lambda>k. k @ ''='' @ lookup i k) ?ks"
    unfolding identity_string_def by (intro split_at_join) simp_all
  then show ?thesis
    using parse_parts_print [OF distinct_sorted_keys [OF assms(1)] _ pr, of "[]"]
    by (simp add: parse_identity_def)
qed

lemma map_of_sorted: "mok i \<Longrightarrow> map_of (map (\<lambda>k. (k, lookup i k)) (sorted_keys i)) = map_of i"
proof
  fix k
  show "map_of (map (\<lambda>k. (k, lookup i k)) (sorted_keys i)) k = map_of i k"
    by (cases "map_of i k") (auto simp: map_of_map_restrict restrict_map_def lookup_def)
qed

lemma sorted_keys_cong:
  assumes "mok i" and "mok j" and "map_of i = map_of j"
  shows "sorted_keys i = sorted_keys j" and "lookup i = lookup j"
  using assms distinct_sorted_keys [of i] distinct_sorted_keys [of j]
  by (auto intro!: sorted_distinct_set_unique simp: lookup_def fun_eq_iff)

section \<open>Matching\<close>

definition url_equal :: "identity \<Rightarrow> identity \<Rightarrow> bool" where
  "url_equal i p \<longleftrightarrow> fst (identity_matches_url i p)"

definition path_accepts :: "glob \<Rightarrow> string \<Rightarrow> string \<Rightarrow> bool" where
  "path_accepts glob pattern path \<longleftrightarrow> pattern = []
     \<or> (\<exists>matches. glob (negate_classes_as_glob pattern) = Some matches \<and> matches path)"

abbreviation url_attributes :: "string set" where
  "url_attributes \<equiv> {''path'', ''scheme'', ''hostname'', ''port''}"

lemma identity_equal_iff: "mok i \<Longrightarrow> mok j \<Longrightarrow> identity_equal i j \<longleftrightarrow> map_of i = map_of j"
  by (simp add: identity_equal_def mequal_iff)

lemma lookup_mdel [simp]: "lookup (mdel k i) k' = (if k' = k then [] else lookup i k')"
  by (simp add: lookup_def)

lemma match_default_iff:
  assumes "mok i" and "mok p"
  shows "identity_match glob i p [] \<longleftrightarrow> path_accepts glob (lookup p ''path'') (lookup i ''path'')
     \<and> url_equal i p \<and> (\<forall>k. k \<notin> url_attributes \<longrightarrow> map_of i k = map_of p k)"
proof -
  let ?i = "mdel ''path'' i" and ?p = "mdel ''path'' p"
  have path: "fst (identity_matches_path glob i p) \<longleftrightarrow> path_accepts glob (lookup p ''path'') (lookup i ''path'')"
    by (auto simp: identity_matches_path_def path_accepts_def Let_def lookup_def split: option.splits)
  have url: "fst (identity_matches_url ?i ?p) \<longleftrightarrow> url_equal i p"
    by (simp add: identity_matches_url_def url_equal_def Let_def)
  have rest: "identity_equal (drop_url ?i) (drop_url ?p) \<longleftrightarrow> (\<forall>k. k \<notin> url_attributes \<longrightarrow> map_of i k = map_of p k)"
    using assms by (subst identity_equal_iff) (auto simp: drop_url_def fun_eq_iff)
  have "identity_match glob i p [] \<longleftrightarrow> fst (identity_matches_path glob i p)
      \<and> fst (identity_matches_url ?i ?p) \<and> identity_equal (drop_url ?i) (drop_url ?p)"
  proof -
    have a: "identity_matches_path glob i p = (fst (identity_matches_path glob i p), ?i, ?p)"
      by (simp add: identity_matches_path_def Let_def)
    have b: "identity_matches_url ?i ?p = (fst (identity_matches_url ?i ?p), drop_url ?i, drop_url ?p)"
      by (simp add: identity_matches_url_def Let_def)
    show ?thesis
      by (simp add: identity_match_def default_matcher_def, subst a, cases "fst (identity_matches_path glob i p)";
          simp; subst b; cases "fst (identity_matches_url ?i ?p)"; simp add: identity_equal_matcher_def)
         (auto simp: identity_equal_matcher_def split: bool.splits)
  qed
  then show ?thesis unfolding path url rest .
qed

lemma subset_scan_iff: "subset_scan sub base \<longleftrightarrow> (\<forall>(k, v) \<in> set sub. map_of base k = Some v)"
  by (induction sub base rule: subset_scan.induct) (auto split: option.splits)

lemma identity_subset_iff:
  assumes "mok sub" and "mok base"
  shows "identity_subset sub base \<longleftrightarrow> map_of sub \<subseteq>\<^sub>m map_of base"
proof -
  have "length sub \<le> length base" if "map_of sub \<subseteq>\<^sub>m map_of base"
    using assms card_mono [OF finite_dom_map_of map_le_implies_dom_le [OF that]]
    by (simp add: mok_length)
  moreover have "subset_scan sub base \<longleftrightarrow> map_of sub \<subseteq>\<^sub>m map_of base"
  proof -
    have "(k, v) \<in> set sub \<longleftrightarrow> map_of sub k = Some v" for k v
      using assms(1) by simp
    then have "subset_scan sub base \<longleftrightarrow> (\<forall>k v. map_of sub k = Some v \<longrightarrow> map_of base k = Some v)"
      unfolding subset_scan_iff by blast
    then show ?thesis by (fastforce simp: map_le_def dom_def)
  qed
  ultimately show ?thesis
    by (auto simp: identity_subset_def)
qed

text \<open>The glob rewriting keeps escapes and the length, and changes nothing the second time.\<close>

lemma negate_classes_length: "length (negate_classes_as_glob s) = length s"
  by (induction s rule: negate_classes_as_glob.induct) auto

lemma negate_classes_idem: "negate_classes_as_glob (negate_classes_as_glob s) = negate_classes_as_glob s"
proof (induction s rule: negate_classes_as_glob.induct)
  case (1 c d s)
  show ?case
  proof (cases "c = CHR 0x5C \<or> (c = CHR ''['' \<and> d = CHR ''^'')")
    case True
    then show ?thesis using 1 by (cases "negate_classes_as_glob s") auto
  next
    case False
    then have IH: "negate_classes_as_glob (negate_classes_as_glob (d # s)) = negate_classes_as_glob (d # s)"
      using 1(3) by blast
    have "hd (negate_classes_as_glob (d # s)) = d" "negate_classes_as_glob (d # s) \<noteq> []"
      by (cases s; simp)+
    then obtain r where "negate_classes_as_glob (d # s) = d # r"
      by (cases "negate_classes_as_glob (d # s)") auto
    with IH False show ?thesis by auto
  qed
qed auto


section \<open>Properties\<close>

text \<open>a type's string is parsed back to the type exactly when the name is not empty and neither
  part contains a slash; and whatever parses prints as the parsed string, up to a trailing slash.\<close>

theorem type_roundtrip:
  "(type_from_string (type_string t) = Ok t \<longleftrightarrow>
      Name t \<noteq> [] \<and> CHR ''/'' \<notin> set (Name t) \<and> CHR ''/'' \<notin> set (Version t))
   \<and> (type_from_string s = Ok t \<longrightarrow> s = type_string t \<or> s = type_string t @ ''/'')"
  by (auto simp: type_from_string_iff type_string_def)

theorem type_roundtrip_witness:
  "type_from_string ''helm/v1'' = Ok \<lparr>Version = ''v1'', Name = ''helm''\<rparr>
   \<and> type_string \<lparr>Version = ''v1'', Name = ''helm''\<rparr> = ''helm/v1''"
  using type_roundtrip [of "\<lparr>Version = ''v1'', Name = ''helm''\<rparr>" "''helm/v1''"]
  by (simp add: type_string_def)

text \<open>\<open>ParseIdentity\<close> recovers an identity from its \<open>String\<close> exactly when the identity is not
  empty and all keys and values are non-empty, without commas and outer white space, the keys
  also without an equals sign. For other identities the documented round trip fails.\<close>

theorem identity_roundtrip:
  assumes "mok i"
  shows "(\<exists>j. parse_identity (identity_string i) = Ok j \<and> map_of j = map_of i)
     \<longleftrightarrow> i \<noteq> [] \<and> (\<forall>(k, v) \<in> set i. printable k v)"
proof
  assume "\<exists>j. parse_identity (identity_string i) = Ok j \<and> map_of j = map_of i"
  then obtain j where j: "parse_identity (identity_string i) = Ok j" "map_of j = map_of i" by blast
  have "(\<forall>(k, v) \<in> set j. printable k v) \<and> j \<noteq> []"
    using parse_parts_printable [of "split_at CHR '','' (identity_string i)" "[]" j] j(1)
      split_at_parts [of _ "CHR '',''"] by (auto simp: parse_identity_def)
  moreover have "set i \<subseteq> set j"
  proof
    fix e assume "e \<in> set i"
    then have "map_of i (fst e) = Some (snd e)" using assms by (metis map_of_is_SomeI prod.collapse)
    then show "e \<in> set j" using map_of_SomeD [of j "fst e" "snd e"] by (simp add: j(2))
  qed
  moreover have "i \<noteq> []"
    using j(2) \<open>_ \<and> j \<noteq> []\<close> by (cases j) (auto simp: fun_eq_iff split: if_splits)
  ultimately show "i \<noteq> [] \<and> (\<forall>(k, v) \<in> set i. printable k v)"
    by blast
next
  assume "i \<noteq> [] \<and> (\<forall>(k, v) \<in> set i. printable k v)"
  then show "\<exists>j. parse_identity (identity_string i) = Ok j \<and> map_of j = map_of i"
    using parse_identity_string [OF assms] map_of_sorted [OF assms] by auto
qed

theorem identity_roundtrip_witness:
  "\<nexists>j. parse_identity (identity_string [(''name'', ''a,b=c'')]) = Ok j \<and> map_of j = map_of [(''name'', ''a,b=c'')]"
  using identity_roundtrip [of "[(''name'', ''a,b=c'')]"] by (simp add: printable_def)

text \<open>\<open>String\<close> and \<open>CanonicalHashV1\<close> depend on the entries of the identity only, never on the
  order in which the runtime iterates over the map.\<close>

theorem identity_canonical:
  assumes "mok i" and "mok j" and "identity_equal i j"
  shows "identity_string i = identity_string j \<and> canonical_hash_v1 i = canonical_hash_v1 j"
proof -
  have "map_of i = map_of j" using assms by (simp add: identity_equal_iff)
  then show ?thesis
    using sorted_keys_cong [OF assms(1,2)] by (simp add: identity_string_def canonical_hash_v1_def)
qed

theorem identity_canonical_witness:
  "canonical_hash_v1 [(''name'', ''a''), (''arch'', ''arm'')] = canonical_hash_v1 [(''arch'', ''arm''), (''name'', ''a'')]"
  using identity_canonical [of "[(''name'', ''a''), (''arch'', ''arm'')]" "[(''arch'', ''arm''), (''name'', ''a'')]"]
  by (simp add: identity_equal_def mequal_def)

text \<open>the hash does not tell where a key ends and its value begins, so different identities
  share a hash although the code documents the hash as an identification of the identity.\<close>

theorem hash_collision:
  "canonical_hash_v1 [(''a'', ''bc'')] = canonical_hash_v1 [(''ab'', ''c'')]
   \<and> \<not> identity_equal [(''a'', ''bc'')] [(''ab'', ''c'')]"
  by (simp add: canonical_hash_v1_def sorted_keys_def lookup_def identity_equal_def mequal_def)

text \<open>the default match of two identities accepts exactly when the path of the second, as a glob
  pattern, accepts the path of the first (an empty pattern accepts everything), the URL parts
  agree with scheme aliases and default ports applied, and all other attributes are equal.
  In particular the verdict is that of the untouched identities, although the chain deletes
  attributes as it goes.\<close>

theorem identity_match_correct:
  assumes "mok i" and "mok p"
  shows "identity_match glob i p [] \<longleftrightarrow> path_accepts glob (lookup p ''path'') (lookup i ''path'')
     \<and> url_equal i p \<and> (\<forall>k. k \<notin> url_attributes \<longrightarrow> map_of i k = map_of p k)"
  using assms by (rule match_default_iff)

theorem identity_match_correct_witness:
  "identity_match (\<lambda>_. None) [(''scheme'', ''oci''), (''hostname'', ''ghcr.io'')]
     [(''hostname'', ''ghcr.io''), (''port'', ''443''), (''scheme'', ''https'')] []"
  using identity_match_correct [of "[(''scheme'', ''oci''), (''hostname'', ''ghcr.io'')]"
      "[(''hostname'', ''ghcr.io''), (''port'', ''443''), (''scheme'', ''https'')]" "\<lambda>_. None"]
  by (simp add: path_accepts_def url_equal_def identity_matches_url_def Let_def lookup_def
      normalize_scheme_def default_port_def)

text \<open>given matchers are alternatives, not a conjunction as documented, and they share the copies
  that earlier matchers have already stripped: with two equality matchers every identity
  matches every other, because the first one empties both copies before it refuses.\<close>

theorem matchers_are_alternatives:
  "identity_match glob i p [identity_equal_matcher, identity_equal_matcher]"
  by (simp add: identity_match_def identity_equal_matcher_def identity_equal_def mequal_def split: bool.splits)


end
