(* ===== verification/Bimap.thy ===== *)
theory Bimap
  imports Prelude
begin

text \<open>
  The bidirectional map of \<open>bindings/go/runtime/internal/bimap/bimap.go\<close>: the pairs in
  insertion order and two indexes into them. \<open>bimap_ok\<close> says that the indexes are exact, so
  that every left and every right value occurs once. Indexes are always in range
  (\<open>bimap_range\<close>), so the slice accesses of the code cannot panic.
\<close>

section \<open>Operations\<close>

record ('l, 'r) bimap =
  pairs :: "('l \<times> 'r) list"
  index_left :: "('l, nat) gomap"
  index_right :: "('r, nat) gomap"

definition bimap_new :: "('l, 'r) bimap" where
  "bimap_new = \<lparr>pairs = [], index_left = [], index_right = []\<rparr>"

definition bimap_set :: "'l \<Rightarrow> 'r \<Rightarrow> ('l, 'r) bimap \<Rightarrow> ('l, 'r) bimap" where
  "bimap_set l r m =
     (case map_of (index_left m) l of
        Some i \<Rightarrow>
          \<lparr>pairs = (pairs m)[i := (fst (pairs m ! i), r)],
           index_left = index_left m,
           index_right = mput r i (mdel (snd (pairs m ! i)) (index_right m))\<rparr>
      | None \<Rightarrow>
          (case map_of (index_right m) r of
             Some i \<Rightarrow>
               \<lparr>pairs = (pairs m)[i := (l, snd (pairs m ! i))],
                index_left = mput l i (mdel (fst (pairs m ! i)) (index_left m)),
                index_right = index_right m\<rparr>
           | None \<Rightarrow>
               \<lparr>pairs = pairs m @ [(l, r)],
                index_left = mput l (length (pairs m)) (index_left m),
                index_right = mput r (length (pairs m)) (index_right m)\<rparr>))"

definition bimap_get_left :: "('l, 'r) bimap \<Rightarrow> 'l \<Rightarrow> 'r option" where
  "bimap_get_left m l = map_option (\<lambda>i. snd (pairs m ! i)) (map_of (index_left m) l)"

definition bimap_get_right :: "('l, 'r) bimap \<Rightarrow> 'r \<Rightarrow> 'l option" where
  "bimap_get_right m r = map_option (\<lambda>i. fst (pairs m ! i)) (map_of (index_right m) r)"

definition bimap_len :: "('l, 'r) bimap \<Rightarrow> nat" where
  "bimap_len m = length (pairs m)"

definition bimap_iter :: "('l, 'r) bimap \<Rightarrow> ('l \<times> 'r) list" where
  "bimap_iter m = pairs m"

definition bimap_clone :: "('l, 'r) bimap \<Rightarrow> ('l, 'r) bimap" where
  "bimap_clone m = foldl (\<lambda>c (l, r). bimap_set l r c) bimap_new (bimap_iter m)"

section \<open>Invariants\<close>

definition bimap_range :: "('l, 'r) bimap \<Rightarrow> bool" where
  "bimap_range m \<longleftrightarrow> (\<forall>l i. map_of (index_left m) l = Some i \<longrightarrow> i < length (pairs m))
     \<and> (\<forall>r i. map_of (index_right m) r = Some i \<longrightarrow> i < length (pairs m))"

definition bimap_ok :: "('l, 'r) bimap \<Rightarrow> bool" where
  "bimap_ok m \<longleftrightarrow>
     (\<forall>l i. map_of (index_left m) l = Some i \<longleftrightarrow> i < length (pairs m) \<and> fst (pairs m ! i) = l)
   \<and> (\<forall>r i. map_of (index_right m) r = Some i \<longleftrightarrow> i < length (pairs m) \<and> snd (pairs m ! i) = r)"

lemma bimap_range_new: "bimap_range bimap_new"
  by (simp add: bimap_range_def bimap_new_def)

lemma bimap_range_set: "bimap_range m \<Longrightarrow> bimap_range (bimap_set l r m)"
  unfolding bimap_range_def bimap_set_def
  by (auto split: option.splits if_splits intro: less_SucI)

lemma bimap_ok_new: "bimap_ok bimap_new"
  by (simp add: bimap_ok_def bimap_new_def)

text \<open>The two sides are free to be paired: neither occurs, or they occur in the same pair.\<close>

definition compatible :: "('l, 'r) bimap \<Rightarrow> 'l \<Rightarrow> 'r \<Rightarrow> bool" where
  "compatible m l r \<longleftrightarrow> map_of (index_left m) l = None \<or> map_of (index_right m) r = None
     \<or> map_of (index_left m) l = map_of (index_right m) r"

lemma bimap_okD:
  assumes "bimap_ok m"
  shows "map_of (index_left m) l = Some i \<longleftrightarrow> i < length (pairs m) \<and> fst (pairs m ! i) = l"
    and "map_of (index_right m) r = Some i \<longleftrightarrow> i < length (pairs m) \<and> snd (pairs m ! i) = r"
  using assms by (simp_all add: bimap_ok_def)

lemma bimap_ok_None:
  assumes "bimap_ok m"
  shows "map_of (index_left m) l = None \<longleftrightarrow> (\<forall>i < length (pairs m). fst (pairs m ! i) \<noteq> l)"
    and "map_of (index_right m) r = None \<longleftrightarrow> (\<forall>i < length (pairs m). snd (pairs m ! i) \<noteq> r)"
  using bimap_okD [OF assms] by (metis not_None_eq option.distinct(1))+

lemma bimap_ok_get:
  assumes "bimap_ok m"
  shows "bimap_get_left m l = Some r \<longleftrightarrow> (l, r) \<in> set (pairs m)"
    and "bimap_get_right m r = Some l \<longleftrightarrow> (l, r) \<in> set (pairs m)"
proof -
  have "bimap_get_left m l = Some r \<longleftrightarrow> (\<exists>i < length (pairs m). fst (pairs m ! i) = l \<and> snd (pairs m ! i) = r)"
    using bimap_okD(1) [OF assms] by (auto simp: bimap_get_left_def)
  then show "bimap_get_left m l = Some r \<longleftrightarrow> (l, r) \<in> set (pairs m)"
    by (auto simp: in_set_conv_nth prod_eq_iff)
  have "bimap_get_right m r = Some l \<longleftrightarrow> (\<exists>i < length (pairs m). fst (pairs m ! i) = l \<and> snd (pairs m ! i) = r)"
    using bimap_okD(2) [OF assms] by (auto simp: bimap_get_right_def)
  then show "bimap_get_right m r = Some l \<longleftrightarrow> (l, r) \<in> set (pairs m)"
    by (auto simp: in_set_conv_nth prod_eq_iff)
qed

lemma bimap_ok_set:
  assumes "bimap_ok m" and "compatible m l r"
  shows "bimap_ok (bimap_set l r m)"
proof (cases "map_of (index_left m) l")
  case left: (Some i)
  then have i: "i < length (pairs m)" "fst (pairs m ! i) = l"
    using bimap_okD(1) [OF assms(1)] by auto
  have r: "map_of (index_right m) r = None \<or> map_of (index_right m) r = Some i"
    using assms(2) left by (auto simp: compatible_def)
  have uniq: "snd (pairs m ! j) = snd (pairs m ! k) \<Longrightarrow> j < length (pairs m) \<Longrightarrow> k < length (pairs m) \<Longrightarrow> j = k" for j k
    using bimap_okD(2) [OF assms(1)] by (metis option.inject)
  have other: "snd (pairs m ! j) \<noteq> r" if "j < length (pairs m)" "j \<noteq> i" for j
    using r that bimap_okD(2) [OF assms(1), of r j] by auto
  show ?thesis
    unfolding bimap_ok_def bimap_set_def left option.case
    using bimap_okD [OF assms(1)] i uniq other by (auto simp: nth_list_update)
next
  case left: None
  show ?thesis
  proof (cases "map_of (index_right m) r")
    case right: (Some i)
    then have i: "i < length (pairs m)" "snd (pairs m ! i) = r"
      using bimap_okD(2) [OF assms(1)] by auto
    have uniq: "fst (pairs m ! j) = fst (pairs m ! k) \<Longrightarrow> j < length (pairs m) \<Longrightarrow> k < length (pairs m) \<Longrightarrow> j = k" for j k
      using bimap_okD(1) [OF assms(1)] by (metis option.inject)
    have other: "fst (pairs m ! j) \<noteq> l" if "j < length (pairs m)" for j
      using left that bimap_okD(1) [OF assms(1), of l j] by auto
    show ?thesis
      unfolding bimap_ok_def bimap_set_def left right option.case
      using bimap_okD [OF assms(1)] i uniq other by (auto simp: nth_list_update) (use i other in blast)
  next
    case right: None
    have "fst (pairs m ! j) \<noteq> l" "snd (pairs m ! j) \<noteq> r" if "j < length (pairs m)" for j
      using left right that bimap_ok_None [OF assms(1)] by auto
    then show ?thesis
      unfolding bimap_ok_def bimap_set_def left right option.case
      using bimap_okD [OF assms(1)] by (auto simp: nth_append less_Suc_eq)
  qed
qed

lemma bimap_set_pairs:
  assumes "bimap_ok m" and "compatible m l r"
  shows "set (pairs (bimap_set l r m)) = insert (l, r) {(a, b) \<in> set (pairs m). a \<noteq> l \<and> b \<noteq> r}"
proof -
  have upd: "set (xs[i := x]) = insert x {xs ! j | j. j < length xs \<and> j \<noteq> i}" if "i < length xs" for xs i x
    using that by (auto simp: in_set_conv_nth nth_list_update) (metis nth_list_update_eq)
  have mem: "(a, b) \<in> set (pairs m) \<longleftrightarrow> (\<exists>j < length (pairs m). pairs m ! j = (a, b))" for a b
    by (auto simp: in_set_conv_nth)
  note ok = bimap_okD [OF assms(1)] and none = bimap_ok_None [OF assms(1)]
  show ?thesis
  proof (cases "map_of (index_left m) l")
    case left: (Some i)
    then have i: "i < length (pairs m)" "fst (pairs m ! i) = l" using ok by auto
    have "j \<noteq> i \<longleftrightarrow> fst (pairs m ! j) \<noteq> l \<and> snd (pairs m ! j) \<noteq> r" if "j < length (pairs m)" for j
      using that left i assms(2) ok none unfolding compatible_def by (metis option.distinct(1) option.inject)
    then show ?thesis
      unfolding bimap_set_def left by (auto simp: upd i mem) (metis fst_conv snd_conv)+
  next
    case left: None
    show ?thesis
    proof (cases "map_of (index_right m) r")
      case right: (Some i)
      then have i: "i < length (pairs m)" "snd (pairs m ! i) = r" using ok by auto
      have "j \<noteq> i \<longleftrightarrow> fst (pairs m ! j) \<noteq> l \<and> snd (pairs m ! j) \<noteq> r" if "j < length (pairs m)" for j
        using that left right i ok none by (metis option.distinct(1) option.inject)
      then show ?thesis
        unfolding bimap_set_def left right by (auto simp: upd i mem) (metis fst_conv snd_conv)+
    next
      case right: None
      have "a \<noteq> l \<and> b \<noteq> r" if "(a, b) \<in> set (pairs m)" for a b
        using that left right none by (auto simp: in_set_conv_nth)
      then have "{(a, b) \<in> set (pairs m). a \<noteq> l \<and> b \<noteq> r} = set (pairs m)" by auto
      then show ?thesis
        unfolding bimap_set_def left right by simp
    qed
  qed
qed

lemma option_eq_Some: "(\<And>b. x = Some b \<longleftrightarrow> y = Some b) \<Longrightarrow> x = y"
  by (cases x; cases y) auto

section \<open>The contract of a pairing\<close>

text \<open>What the type registry relies on: as long as it never pairs a right value twice, the two
  lookups stay inverse and an insertion overrides the left value only.\<close>

locale pairing =
  fixes inv :: "'m \<Rightarrow> bool"
    and left :: "'m \<Rightarrow> 'l \<Rightarrow> 'r option"
    and right :: "'m \<Rightarrow> 'r \<Rightarrow> 'l option"
    and put :: "'l \<Rightarrow> 'r \<Rightarrow> 'm \<Rightarrow> 'm"
  assumes inverse: "inv m \<Longrightarrow> left m l = Some r \<longleftrightarrow> right m r = Some l"
    and inv_put: "inv m \<Longrightarrow> right m r = None \<Longrightarrow> inv (put l r m)"
    and left_put: "inv m \<Longrightarrow> right m r = None \<Longrightarrow> left (put l r m) = (left m)(l \<mapsto> r)"
begin

lemma left_inj: "inv m \<Longrightarrow> left m l = Some r \<Longrightarrow> left m l' = Some r \<Longrightarrow> l = l'"
  using inverse by (metis option.inject)

lemma right_None: "inv m \<Longrightarrow> right m r = None \<longleftrightarrow> (\<forall>l. left m l \<noteq> Some r)"
  using inverse by (metis not_None_eq)

lemma right_put:
  assumes "inv m" and "right m r = None"
  shows "right (put l r m) r' = (if r' = r then Some l else if left m l = Some r' then None else right m r')"
proof -
  have lp: "left (put l r m) k = Some r' \<longleftrightarrow> (if k = l then r = r' else left m k = Some r')" for k
    using left_put [OF assms] by simp
  have iv: "right (put l r m) r' = Some k \<longleftrightarrow> left (put l r m) k = Some r'" for k
    using inverse [OF inv_put [OF assms]] by blast
  show ?thesis
  proof (cases "r' = r \<or> left m l = Some r'")
    case True
    show ?thesis
    proof (cases "r' = r")
      case neq: False
      have "right (put l r m) r' \<noteq> Some k" for k
        using iv lp left_inj [OF assms(1)] True neq by metis
      with neq True show ?thesis by (cases "right (put l r m) r'") auto
    next
      case eq: True
      then have "right (put l r m) r' = Some l" using iv [of l] lp [of l] by simp
      with eq show ?thesis by simp
    qed
  next
    case False
    then have "right (put l r m) r' = Some k \<longleftrightarrow> right m r' = Some k" for k
      using iv lp inverse [OF assms(1)] by metis
    then have "right (put l r m) r' = right m r'"
      by (cases "right m r'"; cases "right (put l r m) r'") auto
    with False show ?thesis by simp
  qed
qed

end

interpretation bm: pairing bimap_ok bimap_get_left bimap_get_right bimap_set
proof
  fix m :: "('l, 'r) bimap" and l r
  assume ok: "bimap_ok m"
  show "bimap_get_left m l = Some r \<longleftrightarrow> bimap_get_right m r = Some l"
    using bimap_ok_get [OF ok] by simp
  assume "bimap_get_right m r = None"
  then have r: "map_of (index_right m) r = None" by (simp add: bimap_get_right_def)
  then have comp: "compatible m l r" by (simp add: compatible_def)
  show ok': "bimap_ok (bimap_set l r m)"
    using ok comp by (rule bimap_ok_set)
  have no_r: "(a, r) \<notin> set (pairs m)" for a
    using bimap_ok_get(2) [OF ok, of r a] \<open>bimap_get_right m r = None\<close> by simp
  have "bimap_get_left (bimap_set l r m) a = Some b \<longleftrightarrow> ((bimap_get_left m)(l \<mapsto> r)) a = Some b" for a b
    using bimap_ok_get(1) [OF ok'] bimap_ok_get(1) [OF ok] bimap_set_pairs [OF ok comp] no_r by auto
  then show "bimap_get_left (bimap_set l r m) = (bimap_get_left m)(l \<mapsto> r)"
    by (intro ext option_eq_Some)
qed

section \<open>Properties\<close>

text \<open>\<open>Set\<close> keeps the two directions inverse exactly when it does not pair a left and a right value
  that already belong to two different pairs, and then it replaces the pairs of both sides by the
  new pair. When they belong to different pairs, the right value ends up in two pairs.\<close>

theorem bimap_set_correct:
  assumes "bimap_ok m"
  shows "(bimap_ok (bimap_set l r m) \<longleftrightarrow> compatible m l r)
       \<and> (compatible m l r \<longrightarrow>
            set (pairs (bimap_set l r m)) = insert (l, r) {(a, b) \<in> set (pairs m). a \<noteq> l \<and> b \<noteq> r})"
proof -
  have "compatible m l r" if ok: "bimap_ok (bimap_set l r m)"
  proof (rule ccontr)
    assume "\<not> compatible m l r"
    then obtain i j where ij: "map_of (index_left m) l = Some i" "map_of (index_right m) r = Some j" "i \<noteq> j"
      by (auto simp: compatible_def)
    then have r: "i < length (pairs m)" "j < length (pairs m)" "snd (pairs m ! j) = r"
      using bimap_okD [OF assms] by auto
    then have "snd (pairs (bimap_set l r m) ! i) = snd (pairs (bimap_set l r m) ! j)"
      using ij by (simp add: bimap_set_def)
    moreover have "i < length (pairs (bimap_set l r m))" "j < length (pairs (bimap_set l r m))"
      using ij r by (simp_all add: bimap_set_def)
    ultimately show False
      using ij(3) bimap_okD(2) [OF ok] by (metis option.inject)
  qed
  then show ?thesis
    using bimap_ok_set [OF assms] bimap_set_pairs [OF assms] by blast
qed

definition two_pairs :: "(nat, string) bimap" where
  "two_pairs = bimap_set 2 ''b'' (bimap_set 1 ''a'' bimap_new)"

lemma two_pairs_ok: "bimap_ok two_pairs"
  unfolding two_pairs_def by (intro bimap_ok_set bimap_ok_new) (simp_all add: compatible_def bimap_new_def bimap_set_def)

theorem bimap_set_correct_witness:
  "\<not> bimap_ok (bimap_set 1 ''b'' two_pairs) \<and> bimap_get_left (bimap_set 1 ''b'' two_pairs) 2 = Some ''b''"
proof -
  have "\<not> compatible two_pairs 1 ''b''" by code_simp
  moreover have "bimap_get_left (bimap_set 1 ''b'' two_pairs) 2 = Some ''b''" by code_simp
  ultimately show ?thesis
    using bimap_set_correct [OF two_pairs_ok, of 1 "''b''"] by blast
qed


end
