(* ===== verification/Type_Registry.thy ===== *)
theory Type_Registry
  imports Identity Bimap
begin

text \<open>
  The type registry \<open>Scheme\<close> of \<open>bindings/go/runtime/registry.go\<close>.

  A Go object is modelled by its reflected type, its type attribute and the rest of its data;
  copying it is the identity. \<open>Raw\<close> is the untyped fallback object. A registration that fails
  half-way keeps what it has done so far, so operations return the scheme with the outcome.
\<close>

section \<open>State\<close>

record ('r, 'd) typed =
  rtype :: 'r
  otype :: go_type
  payload :: 'd

record ('r, 'd) scheme =
  allow_unknown :: bool
  defaults :: "(go_type, 'r) bimap"
  aliases :: "(go_type, go_type) gomap"
  instances :: "('r, ('r, 'd) typed) gomap"

datatype scheme_error =
    NoTypes
  | TypeAlreadyRegistered go_type "go_type option"
  | TypeNotRegistered go_type
  | NilScheme
  | PrototypeNotFound
  | UnsupportedType go_type

datatype ('r, 'd) object = RawObject | TypedObject "('r, 'd) typed"

definition new_scheme :: "bool \<Rightarrow> ('r, 'd) scheme" where
  "new_scheme unknown = \<lparr>allow_unknown = unknown, defaults = bimap_new, aliases = [], instances = []\<rparr>"

section \<open>Operations\<close>

fun add_aliases :: "go_type \<Rightarrow> go_type list \<Rightarrow> ('r, 'd) scheme \<Rightarrow> ('r, 'd) scheme \<times> (scheme_error, unit) outcome" where
  "add_aliases def [] s = (s, Ok ())"
| "add_aliases def (t # ts) s =
     (case bimap_get_left (defaults s) t of
        Some _ \<Rightarrow> (s, Fail (TypeAlreadyRegistered t None))
      | None \<Rightarrow>
          (case map_of (aliases s) t of
             Some d \<Rightarrow> (s, Fail (TypeAlreadyRegistered t (Some d)))
           | None \<Rightarrow> add_aliases def ts (s\<lparr>aliases := mput t def (aliases s)\<rparr>)))"

definition register_with_alias ::
    "('r, 'd) typed \<Rightarrow> go_type list \<Rightarrow> ('r, 'd) scheme \<Rightarrow> ('r, 'd) scheme \<times> (scheme_error, unit) outcome" where
  "register_with_alias proto types s =
     (case types of
        [] \<Rightarrow> (s, Fail NoTypes)
      | t # ts \<Rightarrow>
          (case bimap_get_right (defaults s) (rtype proto) of
             Some d \<Rightarrow> add_aliases d types s
           | None \<Rightarrow>
               add_aliases t ts
                 (s\<lparr>defaults := bimap_set t (rtype proto) (defaults s),
                    instances := mput (rtype proto) proto (instances s)\<rparr>)))"

definition aliases_of :: "('r, 'd) scheme \<Rightarrow> go_type \<Rightarrow> go_type list" where
  "aliases_of s typ = mkeys (filter (\<lambda>(a, d). type_equal d typ) (aliases s))"

definition get_types :: "('r, 'd) scheme \<Rightarrow> (go_type \<times> go_type list) list" where
  "get_types s = map (\<lambda>(t, _). (t, sort_key type_string (aliases_of s t))) (bimap_iter (defaults s))"

definition scheme_clone :: "('r, 'd) scheme \<Rightarrow> ('r, 'd) scheme" where
  "scheme_clone s =
     \<lparr>allow_unknown = allow_unknown s, defaults = bimap_clone (defaults s),
      aliases = mcopy [] (aliases s), instances = mcopy [] (instances s)\<rparr>"

text \<open>A nil prototype makes the reflection in \<open>RegisterWithAlias\<close> panic.\<close>

definition register_scheme_type ::
    "('r, 'd) scheme \<Rightarrow> go_type \<Rightarrow> ('r, 'd) scheme \<Rightarrow> ('r, 'd) scheme \<times> (scheme_error, unit) outcome" where
  "register_scheme_type src typ s =
     (let rt = (case bimap_get_left (defaults src) typ of
                  Some r \<Rightarrow> Ok (Some r)
                | None \<Rightarrow> (case map_of (aliases src) typ of
                            Some d \<Rightarrow> Ok (bimap_get_left (defaults src) d)
                          | None \<Rightarrow> Fail (TypeNotRegistered typ)))
      in (case rt of
            Fail e \<Rightarrow> (s, Fail e)
          | Panic \<Rightarrow> (s, Panic)
          | Ok r \<Rightarrow>
              (case Option.bind r (map_of (instances src)) of
                 None \<Rightarrow> (s, Panic)
               | Some proto \<Rightarrow> register_with_alias proto (typ # aliases_of src typ) s)))"

fun register_types ::
    "('r, 'd) scheme \<Rightarrow> go_type list \<Rightarrow> ('r, 'd) scheme \<Rightarrow> ('r, 'd) scheme \<times> (scheme_error, unit) outcome" where
  "register_types src [] s = (s, Ok ())"
| "register_types src (t # ts) s =
     (case register_scheme_type src t s of
        (s', Ok _) \<Rightarrow> register_types src ts s'
      | (s', e) \<Rightarrow> (s', e))"

definition register_scheme ::
    "('r, 'd) scheme \<Rightarrow> ('r, 'd) scheme \<Rightarrow> ('r, 'd) scheme \<times> (scheme_error, unit) outcome" where
  "register_scheme src s = register_types src (map fst (bimap_iter (defaults src))) s"

fun register_schemes ::
    "('r, 'd) scheme list \<Rightarrow> ('r, 'd) scheme \<Rightarrow> ('r, 'd) scheme \<times> (scheme_error, unit) outcome" where
  "register_schemes [] s = (s, Ok ())"
| "register_schemes (src # srcs) s =
     (case register_scheme src s of
        (s', Ok _) \<Rightarrow> register_schemes srcs s'
      | (s', e) \<Rightarrow> (s', e))"

fun find_type :: "'r \<Rightarrow> (go_type \<times> 'r) list \<Rightarrow> go_type option" where
  "find_type r [] = None"
| "find_type r ((t, r') # ps) = (if r = r' then Some t else find_type r ps)"

definition type_for_prototype :: "('r, 'd) scheme \<Rightarrow> ('r, 'd) typed \<Rightarrow> (scheme_error, go_type) outcome" where
  "type_for_prototype s proto =
     (case find_type (rtype proto) (bimap_iter (defaults s)) of
        Some t \<Rightarrow> Ok t
      | None \<Rightarrow> Fail PrototypeNotFound)"

definition is_registered :: "('r, 'd) scheme \<Rightarrow> go_type \<Rightarrow> bool" where
  "is_registered s typ \<longleftrightarrow> (case bimap_get_left (defaults s) typ of
      Some _ \<Rightarrow> True
    | None \<Rightarrow> map_of (aliases s) typ \<noteq> None)"

definition resolve_canonical_type :: "('r, 'd) scheme \<Rightarrow> go_type \<Rightarrow> go_type \<times> bool" where
  "resolve_canonical_type s typ =
     (case bimap_get_left (defaults s) typ of
        Some _ \<Rightarrow> (typ, True)
      | None \<Rightarrow> (case map_of (aliases s) typ of
                  Some d \<Rightarrow> (d, True)
                | None \<Rightarrow> (typ, False)))"

text \<open>\<open>r.instances[proto].DeepCopyTyped()\<close> of a missing instance is a nil call.\<close>

definition instantiate :: "('r, 'd) scheme \<Rightarrow> 'r option \<Rightarrow> go_type \<Rightarrow> (scheme_error, ('r, 'd) object) outcome" where
  "instantiate s r typ =
     (case Option.bind r (map_of (instances s)) of
        None \<Rightarrow> Panic
      | Some proto \<Rightarrow> Ok (TypedObject (proto\<lparr>otype := typ\<rparr>)))"

definition new_object :: "('r, 'd) scheme \<Rightarrow> go_type \<Rightarrow> (scheme_error, ('r, 'd) object) outcome" where
  "new_object s typ =
     (case bimap_get_left (defaults s) typ of
        Some r \<Rightarrow> instantiate s (Some r) typ
      | None \<Rightarrow>
          (case map_of (aliases s) typ of
             Some d \<Rightarrow> instantiate s (bimap_get_left (defaults s) d) typ
           | None \<Rightarrow> if allow_unknown s then Ok RawObject else Fail (UnsupportedType typ)))"

definition default_type :: "('r, 'd) scheme \<Rightarrow> ('r, 'd) typed \<Rightarrow> ('r, 'd) typed \<times> (scheme_error, bool) outcome" where
  "default_type s obj =
     (case type_for_prototype s obj of
        Ok from_type \<Rightarrow>
          if type_is_empty (otype obj) \<or> \<not> is_registered s (otype obj) then (obj\<lparr>otype := from_type\<rparr>, Ok True)
          else (obj, Ok False)
      | Fail e \<Rightarrow> (obj, if \<not> allow_unknown s then Fail e else Ok False)
      | Panic \<Rightarrow> (obj, Panic))"

section \<open>The invariant\<close>

definition scheme_ok :: "('r, 'd) scheme \<Rightarrow> bool" where
  "scheme_ok s \<longleftrightarrow> bimap_ok (defaults s)
     \<and> (\<forall>a d. map_of (aliases s) a = Some d \<longrightarrow> bimap_get_left (defaults s) d \<noteq> None)
     \<and> (\<forall>t r. bimap_get_left (defaults s) t = Some r \<longrightarrow> (\<exists>p. map_of (instances s) r = Some p \<and> rtype p = r))"

lemma scheme_ok_new: "scheme_ok (new_scheme unknown)"
  by (simp add: scheme_ok_def new_scheme_def bimap_ok_new) (simp add: bimap_get_left_def bimap_new_def)

lemma is_registered_iff:
  "is_registered s t \<longleftrightarrow> bimap_get_left (defaults s) t \<noteq> None \<or> map_of (aliases s) t \<noteq> None"
  by (auto simp: is_registered_def split: option.splits)

lemma is_registered_alias:
  "is_registered (s\<lparr>aliases := mput t d (aliases s)\<rparr>) t' \<longleftrightarrow> t' = t \<or> is_registered s t'"
  by (auto simp: is_registered_iff)

lemma add_aliases_Cons:
  "\<not> is_registered s t \<Longrightarrow> add_aliases d (t # ts) s = add_aliases d ts (s\<lparr>aliases := mput t d (aliases s)\<rparr>)"
  "is_registered s t \<Longrightarrow> \<exists>al. add_aliases d (t # ts) s = (s, Fail (TypeAlreadyRegistered t al))"
  by (auto simp: is_registered_iff split: option.splits)

lemma add_aliases_frame:
  "defaults (fst (add_aliases d ts s)) = defaults s \<and> instances (fst (add_aliases d ts s)) = instances s
   \<and> allow_unknown (fst (add_aliases d ts s)) = allow_unknown s"
  by (induction d ts s rule: add_aliases.induct) (auto split: option.splits)

lemma add_aliases_result:
  "snd (add_aliases d ts s) = Ok () \<longleftrightarrow> distinct ts \<and> (\<forall>t \<in> set ts. \<not> is_registered s t)"
  "snd (add_aliases d ts s) \<noteq> Ok () \<Longrightarrow> \<exists>t al. t \<in> set ts \<and> snd (add_aliases d ts s) = Fail (TypeAlreadyRegistered t al)"
proof (induction ts arbitrary: s)
  case (Cons t ts)
  {
    case 1
    show ?case
    proof (cases "is_registered s t")
      case True
      then show ?thesis using add_aliases_Cons(2) [of s t d ts] by auto
    next
      case False
      then show ?thesis
        using Cons.IH(1) [of "s\<lparr>aliases := mput t d (aliases s)\<rparr>"]
        by (auto simp: add_aliases_Cons(1) is_registered_alias simp del: add_aliases.simps)
    qed
  next
    case 2
    show ?case
    proof (cases "is_registered s t")
      case True
      then show ?thesis using add_aliases_Cons(2) [of s t d ts] by auto
    next
      case False
      then show ?thesis
        using Cons.IH(2) [of "s\<lparr>aliases := mput t d (aliases s)\<rparr>"] 2
        by (auto simp: add_aliases_Cons(1) simp del: add_aliases.simps)
    qed
  }
qed auto

lemma add_aliases_map:
  "map_of (aliases (fst (add_aliases d ts s))) a =
     (if map_of (aliases s) a \<noteq> None then map_of (aliases s) a
      else if map_of (aliases (fst (add_aliases d ts s))) a = None then None else Some d)"
proof (induction ts arbitrary: s)
  case (Cons t ts)
  show ?case
  proof (cases "is_registered s t")
    case True
    then show ?thesis using add_aliases_Cons(2) [of s t d ts] by (auto simp del: add_aliases.simps)
  next
    case False
    then have none: "map_of (aliases s) t = None" by (simp add: is_registered_iff)
    show ?thesis
      unfolding add_aliases_Cons(1) [OF False]
      using Cons.IH [of "s\<lparr>aliases := mput t d (aliases s)\<rparr>"] none by (auto split: if_splits)
  qed
qed simp

lemma add_aliases_new:
  "snd (add_aliases d ts s) = Ok () \<Longrightarrow> t \<in> set ts \<Longrightarrow> map_of (aliases (fst (add_aliases d ts s))) t = Some d"
proof (induction ts arbitrary: s)
  case (Cons u ts)
  then have reg: "\<not> is_registered s u" and ok: "\<forall>t \<in> set ts. \<not> is_registered s t" "distinct (u # ts)"
    using add_aliases_result(1) [of d "u # ts" s] by (auto simp del: add_aliases.simps)
  let ?s = "s\<lparr>aliases := mput u d (aliases s)\<rparr>"
  have eq: "add_aliases d (u # ts) s = add_aliases d ts ?s" using reg by (rule add_aliases_Cons(1))
  show ?case
  proof (cases "t = u")
    case True
    then show ?thesis unfolding eq using add_aliases_map [of d ts ?s u] by simp
  next
    case False
    then show ?thesis using Cons.IH [of ?s] Cons.prems unfolding eq by simp
  qed
qed simp

lemma scheme_ok_add_aliases:
  assumes "scheme_ok s" and "bimap_get_left (defaults s) d \<noteq> None"
  shows "scheme_ok (fst (add_aliases d ts s))"
proof -
  have "bimap_get_left (defaults s) e \<noteq> None" if "map_of (aliases (fst (add_aliases d ts s))) a = Some e" for a e
    using add_aliases_map [of d ts s a] that assms by (auto simp: scheme_ok_def split: if_splits)
  then show ?thesis
    using assms(1) add_aliases_frame [of d ts s] by (simp add: scheme_ok_def)
qed

text \<open>The scheme after a new prototype has been entered with its default type.\<close>

definition enter_default :: "go_type \<Rightarrow> ('r, 'd) typed \<Rightarrow> ('r, 'd) scheme \<Rightarrow> ('r, 'd) scheme" where
  "enter_default t proto s =
     s\<lparr>defaults := bimap_set t (rtype proto) (defaults s), instances := mput (rtype proto) proto (instances s)\<rparr>"

lemma register_cases:
  assumes "types = t # ts"
  shows "register_with_alias proto types s =
     (case bimap_get_right (defaults s) (rtype proto) of
        Some d \<Rightarrow> add_aliases d types s
      | None \<Rightarrow> add_aliases t ts (enter_default t proto s))"
  unfolding register_with_alias_def enter_default_def assms list.case ..

lemma scheme_ok_enter:
  assumes "scheme_ok s" and "bimap_get_right (defaults s) (rtype proto) = None"
  shows "scheme_ok (enter_default t proto s)"
proof -
  have ok: "bimap_ok (defaults s)" using assms(1) by (simp add: scheme_ok_def)
  note left = bm.left_put [OF ok assms(2)] and inv = bm.inv_put [OF ok assms(2)]
  show ?thesis
    using assms(1) inv unfolding scheme_ok_def enter_default_def
    by (auto simp: left)
qed

lemma register_scheme_ok: "scheme_ok s \<Longrightarrow> scheme_ok (fst (register_with_alias proto types s))"
proof (cases types)
  case (Cons t ts)
  assume ok: "scheme_ok s"
  then have bok: "bimap_ok (defaults s)" by (simp add: scheme_ok_def)
  show ?thesis
  proof (cases "bimap_get_right (defaults s) (rtype proto)")
    case None
    moreover have "bimap_get_left (defaults (enter_default t proto s)) t \<noteq> None"
      using bm.left_put [OF bok None] by (simp add: enter_default_def)
    ultimately show ?thesis
      using scheme_ok_enter [OF ok None] by (simp add: register_cases [OF Cons] scheme_ok_add_aliases)
  next
    case (Some d)
    then have "bimap_get_left (defaults s) d \<noteq> None" using bm.inverse [OF bok] by (metis option.distinct(1))
    with Some show ?thesis using ok by (simp add: register_cases [OF Cons] scheme_ok_add_aliases)
  qed
qed (simp add: register_with_alias_def)


lemma register_cases_d:
  assumes "scheme_ok s" and "types \<noteq> []"
  obtains (known) d where "bimap_get_right (defaults s) (rtype proto) = Some d"
      "bimap_get_left (defaults s) d = Some (rtype proto)"
      "register_with_alias proto types s = add_aliases d types s"
  | (entered) "bimap_get_right (defaults s) (rtype proto) = None"
      "register_with_alias proto types s = add_aliases (hd types) (tl types) (enter_default (hd types) proto s)"
      "bimap_get_left (defaults (enter_default (hd types) proto s)) = (bimap_get_left (defaults s))(hd types \<mapsto> rtype proto)"
proof -
  have ok: "bimap_ok (defaults s)" using assms(1) by (simp add: scheme_ok_def)
  obtain t ts where types: "types = t # ts" using assms(2) by (cases types) auto
  show ?thesis
  proof (cases "bimap_get_right (defaults s) (rtype proto)")
    case None
    then show ?thesis
      using entered register_cases [OF types, of proto s] bm.left_put [OF ok None]
      by (simp add: types enter_default_def)
  next
    case (Some d)
    moreover have "bimap_get_left (defaults s) d = Some (rtype proto)"
      using bm.inverse [OF ok] Some by metis
    ultimately show ?thesis
      using known register_cases [OF types, of proto s] by simp
  qed
qed

lemma enter_default_registered:
  assumes "scheme_ok s" and "bimap_get_right (defaults s) (rtype proto) = None"
  shows "is_registered (enter_default t proto s) t' \<longleftrightarrow> t' = t \<or> is_registered s t'"
proof -
  have "bimap_ok (defaults s)" using assms(1) by (simp add: scheme_ok_def)
  then show ?thesis
    using bm.left_put [OF _ assms(2), of t] by (auto simp: is_registered_iff enter_default_def)
qed

lemma new_object_default:
  "scheme_ok s \<Longrightarrow> bimap_get_left (defaults s) t = Some r
    \<Longrightarrow> \<exists>p. new_object s t = Ok (TypedObject (p\<lparr>otype := t\<rparr>)) \<and> rtype p = r \<and> map_of (instances s) r = Some p"
  by (fastforce simp: scheme_ok_def new_object_def instantiate_def)

lemma new_object_alias:
  "scheme_ok s \<Longrightarrow> bimap_get_left (defaults s) t = None \<Longrightarrow> map_of (aliases s) t = Some d
    \<Longrightarrow> bimap_get_left (defaults s) d = Some r
    \<Longrightarrow> \<exists>p. new_object s t = Ok (TypedObject (p\<lparr>otype := t\<rparr>)) \<and> rtype p = r \<and> map_of (instances s) r = Some p"
  by (fastforce simp: scheme_ok_def new_object_def instantiate_def)

text \<open>Later operations see the same objects for a type that was registered before.\<close>

definition extends :: "('r, 'd) scheme \<Rightarrow> ('r, 'd) scheme \<Rightarrow> bool" where
  "extends s s' \<longleftrightarrow> allow_unknown s' = allow_unknown s
     \<and> (\<forall>t. is_registered s t \<longrightarrow> is_registered s' t
          \<and> resolve_canonical_type s' t = resolve_canonical_type s t \<and> new_object s' t = new_object s t)"

lemma extends_refl [simp]: "extends s s"
  by (simp add: extends_def)

lemma extends_trans: "extends s s' \<Longrightarrow> extends s' s'' \<Longrightarrow> extends s s''"
  by (simp add: extends_def)

lemma extends_add_aliases: "extends s (fst (add_aliases d ts s))"
proof -
  note fr = add_aliases_frame [of d ts s]
  have al: "map_of (aliases (fst (add_aliases d ts s))) a = Some e" if "map_of (aliases s) a = Some e" for a e
    using add_aliases_map [of d ts s a] that by simp
  show ?thesis
    unfolding extends_def
    by (auto simp: fr is_registered_iff resolve_canonical_type_def new_object_def instantiate_def al split: option.splits)
qed

lemma extends_enter_default:
  assumes "scheme_ok s" and "bimap_get_right (defaults s) (rtype proto) = None" and "\<not> is_registered s t"
  shows "extends s (enter_default t proto s)"
proof -
  have ok: "bimap_ok (defaults s)" using assms(1) by (simp add: scheme_ok_def)
  let ?s = "enter_default t proto s"
  have left: "bimap_get_left (defaults ?s) = (bimap_get_left (defaults s))(t \<mapsto> rtype proto)"
    using bm.left_put [OF ok assms(2)] by (simp add: enter_default_def)
  have al: "aliases ?s = aliases s" "allow_unknown ?s = allow_unknown s" by (simp_all add: enter_default_def)
  have inst: "map_of (instances ?s) r = map_of (instances s) r" if "bimap_get_left (defaults s) u = Some r" for u r
  proof -
    have "r \<noteq> rtype proto" using that assms(2) bm.right_None [OF ok] by metis
    then show ?thesis by (simp add: enter_default_def)
  qed
  have t: "bimap_get_left (defaults s) t = None" "map_of (aliases s) t = None"
    using assms(3) by (simp_all add: is_registered_iff)
  have keep: "is_registered ?s u \<and> resolve_canonical_type ?s u = resolve_canonical_type s u
      \<and> new_object ?s u = new_object s u" if reg: "is_registered s u" for u
  proof -
    have ut: "u \<noteq> t" using reg assms(3) by auto
    show ?thesis
    proof (cases "bimap_get_left (defaults s) u")
      case (Some r)
      then show ?thesis
        using ut inst [OF Some] by (simp add: is_registered_iff resolve_canonical_type_def new_object_def instantiate_def left)
    next
      case None
      then obtain d where "map_of (aliases s) u = Some d"
        using reg by (auto simp: is_registered_iff)
      then obtain r where d: "map_of (aliases s) u = Some d" "bimap_get_left (defaults s) d = Some r"
        using assms(1) by (fastforce simp: scheme_ok_def)
      then have "d \<noteq> t" using t by auto
      then show ?thesis
        using ut None d inst [OF d(2)]
        by (simp add: is_registered_iff resolve_canonical_type_def new_object_def instantiate_def left al)
    qed
  qed
  then show ?thesis by (simp add: extends_def al)
qed

text \<open>The precondition that the code leaves unchecked: the default type of a new prototype is free.\<close>

definition head_free :: "('r, 'd) typed \<Rightarrow> go_type list \<Rightarrow> ('r, 'd) scheme \<Rightarrow> bool" where
  "head_free proto types s \<longleftrightarrow> types \<noteq> []
     \<and> (bimap_get_right (defaults s) (rtype proto) = None \<longrightarrow> \<not> is_registered s (hd types))"

lemma extends_register:
  assumes "scheme_ok s" and "head_free proto types s"
  shows "extends s (fst (register_with_alias proto types s))"
proof -
  have "types \<noteq> []" using assms(2) by (simp add: head_free_def)
  with assms(1) show ?thesis
  proof (cases rule: register_cases_d [of s types proto])
    case (known d)
    then show ?thesis by (simp add: extends_add_aliases)
  next
    case entered
    then have "extends s (enter_default (hd types) proto s)"
      using assms by (intro extends_enter_default) (simp_all add: head_free_def)
    then show ?thesis
      using extends_add_aliases extends_trans entered(2) by metis
  qed
qed


section \<open>Properties\<close>

text \<open>\<open>RegisterWithAlias\<close> succeeds exactly when the given types are distinct and none of them is
  registered, except that the default type of a new prototype is not checked at all; every
  other refusal names the type in the way.\<close>

theorem register_succeeds_iff:
  assumes "scheme_ok s" and "types \<noteq> []"
  shows "(snd (register_with_alias proto types s) = Ok () \<longleftrightarrow>
      distinct types \<and> (\<forall>t \<in> set types.
        is_registered s t \<longrightarrow> t = hd types \<and> bimap_get_right (defaults s) (rtype proto) = None))
   \<and> (snd (register_with_alias proto types s) \<noteq> Ok () \<longrightarrow>
        (\<exists>t al. t \<in> set types \<and> snd (register_with_alias proto types s) = Fail (TypeAlreadyRegistered t al)))"
  using assms
proof (cases rule: register_cases_d [of s types proto])
  case (known d)
  then show ?thesis
    using add_aliases_result [of d types s] by auto
next
  case entered
  obtain t ts where types: "types = t # ts" using assms(2) by (cases types) auto
  show ?thesis
    using add_aliases_result [of t ts "enter_default t proto s"] entered(1,2)
    by (auto simp: types enter_default_registered [OF assms(1) entered(1)])
qed

definition v1 :: go_type where "v1 = \<lparr>Version = ''v1'', Name = ''Helm''\<rparr>"
definition v2 :: go_type where "v2 = \<lparr>Version = ''v2'', Name = ''Helm''\<rparr>"
definition helm :: "(nat, unit) typed" where "helm = \<lparr>rtype = 1, otype = v1, payload = ()\<rparr>"
definition chart :: "(nat, unit) typed" where "chart = \<lparr>rtype = 2, otype = v1, payload = ()\<rparr>"

definition helm_scheme :: "(nat, unit) scheme" where
  "helm_scheme = fst (register_with_alias helm [v1, v2] (new_scheme False))"

lemma helm_scheme_ok: "scheme_ok helm_scheme"
  unfolding helm_scheme_def by (intro register_scheme_ok scheme_ok_new)

theorem register_succeeds_iff_witness:
  "snd (register_with_alias chart [v1] helm_scheme) = Ok () \<and> snd (register_with_alias helm [v2] helm_scheme) \<noteq> Ok ()"
proof -
  have c: "bimap_get_right (defaults helm_scheme) (rtype chart) = None"
      "bimap_get_right (defaults helm_scheme) (rtype helm) = Some v1" "is_registered helm_scheme v2"
    by code_simp+
  show ?thesis
    using register_succeeds_iff [OF helm_scheme_ok, of "[v1]" chart]
      register_succeeds_iff [OF helm_scheme_ok, of "[v2]" helm] c by simp
qed

text \<open>after a successful registration of a prototype under types of which the default was free,
  each of the types creates an object of the prototype's Go type that carries the type it was
  asked for, all of them resolve to the default type of the prototype, and every type that was
  registered before resolves and creates exactly what it did before.\<close>

theorem register_effect:
  assumes "scheme_ok s" and "head_free proto types s"
    and "register_with_alias proto types s = (s', Ok ())"
  shows "scheme_ok s' \<and> extends s s'
    \<and> (\<exists>d. bimap_get_right (defaults s') (rtype proto) = Some d
        \<and> (\<forall>t \<in> set types. resolve_canonical_type s' t = (d, True)
             \<and> (\<exists>obj. new_object s' t = Ok (TypedObject obj) \<and> rtype obj = rtype proto \<and> otype obj = t)))"
proof -
  have ok': "scheme_ok s'" and ext: "extends s s'"
    using register_scheme_ok [OF assms(1)] extends_register [OF assms(1,2)] assms(3) by (metis fst_conv)+
  have bok: "bimap_ok (defaults s')" using ok' by (simp add: scheme_ok_def)
  have ne: "types \<noteq> []" using assms(2) by (simp add: head_free_def)
  have via: "resolve_canonical_type s' t = (d, True)
      \<and> (\<exists>obj. new_object s' t = Ok (TypedObject obj) \<and> rtype obj = rtype proto \<and> otype obj = t)"
    if "bimap_get_left (defaults s') t = None" "map_of (aliases s') t = Some d"
      "bimap_get_left (defaults s') d = Some (rtype proto)" for t d
    using that new_object_alias [OF ok' that] by (auto simp: resolve_canonical_type_def)
  from assms(1) ne show ?thesis
  proof (cases rule: register_cases_d [of s types proto])
    case (known d)
    then have r: "add_aliases d types s = (s', Ok ())" using assms(3) by simp
    then have frame: "defaults s' = defaults s" using add_aliases_frame [of d types s] by simp
    have "bimap_get_left (defaults s') t = None" "map_of (aliases s') t = Some d" if "t \<in> set types" for t
      using that add_aliases_result(1) [of d types s] add_aliases_new [of d types s t] r
      by (auto simp: frame is_registered_iff)
    then show ?thesis
      using known(1,2) ok' ext via by (simp add: frame)
  next
    case entered
    let ?s = "enter_default (hd types) proto s"
    have r: "add_aliases (hd types) (tl types) ?s = (s', Ok ())" using entered(2) assms(3) by simp
    then have frame: "defaults s' = defaults ?s" using add_aliases_frame [of "hd types" "tl types" ?s] by simp
    have left: "bimap_get_left (defaults s') (hd types) = Some (rtype proto)"
      by (simp add: frame entered(3))
    have head: "resolve_canonical_type s' (hd types) = (hd types, True)
        \<and> (\<exists>obj. new_object s' (hd types) = Ok (TypedObject obj) \<and> rtype obj = rtype proto \<and> otype obj = hd types)"
      using new_object_default [OF ok' left] left by (auto simp: resolve_canonical_type_def)
    have tail: "bimap_get_left (defaults s') t = None" "map_of (aliases s') t = Some (hd types)" if "t \<in> set (tl types)" for t
      using that add_aliases_result(1) [of "hd types" "tl types" ?s] add_aliases_new [of "hd types" "tl types" ?s t] r
      by (auto simp: frame is_registered_iff)
    have "set types = insert (hd types) (set (tl types))" using ne by (cases types) auto
    then show ?thesis
      using left head tail via ok' ext bm.inverse [OF bok] by auto
  qed
qed

theorem register_effect_witness:
  "\<exists>obj. new_object helm_scheme v2 = Ok (TypedObject obj) \<and> rtype obj = 1 \<and> otype obj = v2"
proof -
  have "head_free helm [v1, v2] (new_scheme False)" by code_simp
  moreover have "snd (register_with_alias helm [v1, v2] (new_scheme False)) = Ok ()" by code_simp
  then have "register_with_alias helm [v1, v2] (new_scheme False) = (helm_scheme, Ok ())"
    by (simp add: helm_scheme_def prod_eq_iff)
  ultimately show ?thesis
    using register_effect [OF scheme_ok_new, of helm "[v1, v2]" False helm_scheme] by (auto simp: helm_def)
qed

text \<open>registering a new prototype under a default type that is taken succeeds silently: the type
  then creates objects of the new prototype, and so do the aliases of the old one, while the
  old prototype is no longer found.\<close>

theorem register_overwrites:
  "snd (register_with_alias chart [v1] helm_scheme) = Ok ()
   \<and> new_object (fst (register_with_alias chart [v1] helm_scheme)) v2 = Ok (TypedObject (chart\<lparr>otype := v2\<rparr>))
   \<and> type_for_prototype (fst (register_with_alias chart [v1] helm_scheme)) helm = Fail PrototypeNotFound"
  by code_simp


end
