(* ===== verification/Credential_Graph.thy ===== *)
theory Credential_Graph
  imports Dag_Properties Type_Registry
begin

text \<open>
  The credential graph of \<open>bindings/go/credentials\<close>: \<open>synced_dag.go\<close>, \<open>pathprefix.go\<close>,
  \<open>ingest.go\<close>, \<open>resolve_direct.go\<close>, \<open>resolve_indirect.go\<close> and \<open>Resolve\<close> of \<open>graph.go\<close>.

  Vertices are keyed by the string of a consumer identity and carry the identity and, once
  known, a credential. What is outside of the repository or rests on the JSON codec is in the
  environment \<open>cred_env\<close>: the glob library, the plugins, the decoding of raw credentials.
  Contexts are never cancelled here, and the goroutines of the indirect resolution are
  atomic: they are run in the order in which they finish.
\<close>

section \<open>State\<close>

datatype 'c credential = Direct go_type "(string, string) gomap" | Concrete 'c

datatype 'c attr = AIdentity identity | ACredential "'c credential option" | AKind string

type_synonym 'c cgraph = "(string, 'c attr) dag"

datatype cred_error =
    GraphError "string dag_error"
  | NoDirectCredentials
  | NoIndirectCredentials
  | ChildNotFound string
  | NoPlugin identity
  | PluginFailed
  | NilSchemeOnMerge
  | MergeFailed
  | EmptyCredentialType
  | InvalidCredential go_type
  | IdentityTypeMissing identity_error
  | RepositoryFailed
  | NotFound cred_error
  | Unknown cred_error

record ('w, 'c) cred_env =
  globs :: glob
  consumer_scheme :: "(string, unit) scheme option"
  cred_scheme :: "(go_type \<Rightarrow> bool) option"
  raw_type :: "'w \<Rightarrow> go_type"
  decode_typed :: "'w \<Rightarrow> 'c credential option"
  decode_direct :: "'w \<Rightarrow> (go_type \<times> (string, string) gomap) option"
  cred_identity :: "'w \<Rightarrow> identity option"
  cred_plugin :: "identity \<Rightarrow> (identity \<Rightarrow> 'c credential option \<Rightarrow> 'c credential option option) option"
  fields_of :: "'c \<Rightarrow> (string, string) gomap option"
  decode_repo :: "'w \<Rightarrow> 'w option"
  repo_plugin :: "(identity \<Rightarrow> (('w \<Rightarrow> identity option)
                     \<times> ('w \<Rightarrow> identity \<Rightarrow> 'c credential option \<Rightarrow> 'c credential option option)) option) option"

definition attribute_identity :: string where
  "attribute_identity = ''attributes.ocm.software/identity''"

definition attribute_credentials :: string where
  "attribute_credentials = ''attributes.ocm.software/credentials''"

section \<open>The synchronised graph\<close>

definition vertex_identity :: "(string, 'c attr) vertex \<Rightarrow> identity option" where
  "vertex_identity v = (case map_of (Attributes v) attribute_identity of
      Some (AIdentity i) \<Rightarrow> Some i | _ \<Rightarrow> None)"

definition get_identity :: "'c cgraph \<Rightarrow> string \<Rightarrow> identity option" where
  "get_identity g k = (case get_vertex g k of None \<Rightarrow> None | Some v \<Rightarrow> vertex_identity v)"

text \<open>A stored nil credential fails the type assertion and counts as absent.\<close>

definition get_credentials :: "'c cgraph \<Rightarrow> string \<Rightarrow> 'c credential option" where
  "get_credentials g k = (case get_vertex g k of
      None \<Rightarrow> None
    | Some v \<Rightarrow> (case map_of (Attributes v) attribute_credentials of
                  Some (ACredential c) \<Rightarrow> c
                | _ \<Rightarrow> None))"

definition set_credentials :: "string \<Rightarrow> 'c credential option \<Rightarrow> 'c cgraph \<Rightarrow> 'c cgraph" where
  "set_credentials k c g =
     upd_vertex k (\<lambda>v. v\<lparr>Attributes := mput attribute_credentials (ACredential c) (Attributes v)\<rparr>) g"

fun first_match :: "glob \<Rightarrow> identity \<Rightarrow> (string \<times> (string, 'c attr) vertex) list \<Rightarrow> (string, 'c attr) vertex option" where
  "first_match gl identity [] = None"
| "first_match gl identity ((_, v) # vs) =
     (case vertex_identity v of
        None \<Rightarrow> first_match gl identity vs
      | Some existing \<Rightarrow> if identity_match gl identity existing [] then Some v else first_match gl identity vs)"

definition match_any_node :: "glob \<Rightarrow> identity \<Rightarrow> 'c cgraph \<Rightarrow> (string, 'c attr) vertex option" where
  "match_any_node gl identity g =
     (case get_vertex g (identity_string identity) of
        Some v \<Rightarrow> Some v
      | None \<Rightarrow> first_match gl identity (Vertices g))"

definition cyclic_only :: "(string, 'c attr) gomap" where
  "cyclic_only = [(''kind'', AKind ''cyclic-only'')]"

definition resolution_relevant :: "(string, 'c attr) gomap" where
  "resolution_relevant = [(''kind'', AKind ''resolution-relevant'')]"

fun add_match_edges :: "glob \<Rightarrow> identity \<Rightarrow> string \<Rightarrow> (string, 'c attr) vertex list \<Rightarrow> 'c cgraph
    \<Rightarrow> 'c cgraph \<times> (string dag_error, unit) outcome" where
  "add_match_edges gl identity node [] g = (g, Ok ())"
| "add_match_edges gl identity node (v # vs) g =
     (if ID v = node then add_match_edges gl identity node vs g
      else case vertex_identity v of
        None \<Rightarrow> add_match_edges gl identity node vs g
      | Some existing \<Rightarrow>
          (case (if identity_match gl identity existing [] then add_edge g (ID v) node [cyclic_only] else (g, Ok ())) of
             (g1, Ok _) \<Rightarrow>
               (case (if identity_match gl existing identity [] then add_edge g1 node (ID v) [cyclic_only] else (g1, Ok ())) of
                  (g2, Ok _) \<Rightarrow> add_match_edges gl identity node vs g2
                | r \<Rightarrow> r)
           | r \<Rightarrow> r))"

definition add_identity :: "glob \<Rightarrow> identity \<Rightarrow> 'c cgraph \<Rightarrow> 'c cgraph \<times> (string dag_error, unit) outcome" where
  "add_identity gl identity g =
     (let node = identity_string identity in
      if contains_vertex g node then (g, Ok ())
      else case add_vertex g node [[(attribute_identity, AIdentity identity)]] of
             (g', Ok _) \<Rightarrow> add_match_edges gl identity node (map snd (Vertices g')) g'
           | r \<Rightarrow> r)"

section \<open>Legacy path prefixes\<close>

definition is_glob_meta :: "char \<Rightarrow> bool" where
  "is_glob_meta c \<longleftrightarrow> c \<in> {CHR ''*'', CHR ''?'', CHR ''['', CHR '']'', CHR ''{'', CHR ''}'', CHR '','', CHR 0x5C}"

fun escape_glob :: "string \<Rightarrow> string" where
  "escape_glob [] = []"
| "escape_glob (c # s) = (if is_glob_meta c then CHR 0x5C # c # escape_glob s else c # escape_glob s)"

definition path_prefix_to_path :: "identity \<Rightarrow> identity" where
  "path_prefix_to_path identity =
     (case map_of identity ''pathprefix'' of
        None \<Rightarrow> identity
      | Some pre \<Rightarrow>
          (let converted = mdel ''pathprefix'' identity in
           if map_of converted ''path'' \<noteq> None then converted
           else
             (let stem = trim_prefix pre ''/'' in
              if stem = [] then converted
              else
                (let escaped = escape_glob stem in
                 mput ''path'' (''{'' @ escaped @ '','' @ escaped @ ''/**}'') converted))))"

definition canonicalize_consumer_identity :: "('w, 'c) cred_env \<Rightarrow> identity \<Rightarrow> identity" where
  "canonicalize_consumer_identity env identity =
     (case consumer_scheme env of
        None \<Rightarrow> identity
      | Some scheme \<Rightarrow>
          (case parse_type identity of
             Ok typ \<Rightarrow>
               (case resolve_canonical_type scheme typ of
                  (canonical, True) \<Rightarrow> set_type identity \<lparr>Version = [], Name = Name canonical\<rparr>
                | (_, False) \<Rightarrow> identity)
           | _ \<Rightarrow> identity))"

section \<open>Ingestion\<close>

record 'w consumer =
  identities :: "identity list"
  credentials :: "'w list"

record 'w cred_config =
  consumers :: "'w consumer list"
  repositories :: "'w list"

type_synonym 'c extracted = "'c credential option \<times> (go_type \<times> (string, string) gomap) option"

fun extract_loop :: "('w, 'c) cred_env \<Rightarrow> 'w list \<Rightarrow> 'c credential option
    \<Rightarrow> (go_type \<times> (string, string) gomap) option \<Rightarrow> 'w list
    \<Rightarrow> (cred_error, 'c credential option \<times> (go_type \<times> (string, string) gomap) option \<times> 'w list) outcome" where
  "extract_loop env [] resolved direct remaining = Ok (resolved, direct, remaining)"
| "extract_loop env (cred # creds) resolved direct remaining =
     (let typ = raw_type env cred in
      if type_is_empty typ then Fail EmptyCredentialType
      else if (case cred_scheme env of None \<Rightarrow> False | Some known \<Rightarrow> known typ) then
        (case decode_typed env cred of
           None \<Rightarrow> Fail (InvalidCredential typ)
         | Some typed \<Rightarrow>
             if resolved = None then extract_loop env creds (Some typed) direct remaining
             else extract_loop env creds resolved direct (remaining @ [cred]))
      else
        (case decode_direct env cred of
           Some (t, properties) \<Rightarrow>
             extract_loop env creds resolved
               (case direct of
                  None \<Rightarrow> Some (t, mcopy [] properties)
                | Some (t', merged) \<Rightarrow> Some (t', mcopy merged properties))
               remaining
         | None \<Rightarrow> extract_loop env creds resolved direct (remaining @ [cred])))"

definition extract_resolvable :: "('w, 'c) cred_env \<Rightarrow> 'w list
    \<Rightarrow> (cred_error, 'c credential option \<times> 'w list) outcome" where
  "extract_resolvable env creds =
     bind_outcome (extract_loop env creds None None [])
       (\<lambda>(resolved, direct, remaining).
          Ok (case resolved of
                None \<Rightarrow> map_option (\<lambda>(t, p). Direct t p) direct
              | Some _ \<Rightarrow> resolved, remaining))"

definition prepared_identity :: "('w, 'c) cred_env \<Rightarrow> identity \<Rightarrow> identity" where
  "prepared_identity env identity = path_prefix_to_path (canonicalize_consumer_identity env identity)"

type_synonym 'c per_identity =
  "(string, 'c credential) gomap \<times> (string, go_type \<times> (string, string) gomap) gomap"

definition record_resolved :: "string \<Rightarrow> 'c credential \<Rightarrow> 'c per_identity \<Rightarrow> 'c per_identity" where
  "record_resolved node resolved m =
     (case m of (typed, direct) \<Rightarrow>
        (case resolved of
           Direct t properties \<Rightarrow>
             (case map_of direct node of
                Some (t', existing) \<Rightarrow> (typed, mput node (t', mcopy existing properties) direct)
              | None \<Rightarrow> (typed, mput node (t, mcopy [] properties) direct))
         | Concrete c \<Rightarrow> (mput node resolved typed, direct)))"

fun direct_identities :: "('w, 'c) cred_env \<Rightarrow> 'c credential \<Rightarrow> identity list \<Rightarrow> 'c cgraph \<times> 'c per_identity
    \<Rightarrow> ('c cgraph \<times> 'c per_identity) \<times> (cred_error, unit) outcome" where
  "direct_identities env resolved [] (g, m) = ((g, m), Ok ())"
| "direct_identities env resolved (identity # ids) (g, m) =
     (let identity = prepared_identity env identity;
          m' = record_resolved (identity_string identity) resolved m
      in case add_identity (globs env) identity g of
           (g', Ok _) \<Rightarrow> direct_identities env resolved ids (g', m')
         | (g', Fail e) \<Rightarrow> ((g', m'), Fail (GraphError e))
         | (g', Panic) \<Rightarrow> ((g', m'), Panic))"

fun direct_consumers :: "('w, 'c) cred_env \<Rightarrow> 'w consumer list \<Rightarrow> 'c cgraph \<times> 'c per_identity \<Rightarrow> 'w consumer list
    \<Rightarrow> ('c cgraph \<times> 'c per_identity) \<times> (cred_error, 'w consumer list) outcome" where
  "direct_consumers env [] s acc = (s, Ok acc)"
| "direct_consumers env (consumer # cs) s acc =
     (case extract_resolvable env (credentials consumer) of
        Ok (resolved, remaining) \<Rightarrow>
          (let acc' = (if remaining \<noteq> [] then acc @ [consumer\<lparr>credentials := remaining\<rparr>] else acc)
           in case (case resolved of None \<Rightarrow> (s, Ok ()) | Some r \<Rightarrow> direct_identities env r (identities consumer) s) of
                (s', Ok _) \<Rightarrow> direct_consumers env cs s' acc'
              | (s', Fail e) \<Rightarrow> (s', Fail e)
              | (s', Panic) \<Rightarrow> (s', Panic))
      | Fail e \<Rightarrow> (s, Fail e)
      | Panic \<Rightarrow> (s, Panic))"

text \<open>Typed credentials win; a direct credential is used where no typed one was recorded.\<close>

definition final_credentials :: "'c per_identity \<Rightarrow> (string, 'c credential) gomap" where
  "final_credentials m =
     (case m of (typed, direct) \<Rightarrow>
        foldl (\<lambda>acc (node, t, p). if map_of acc node = None then mput node (Direct t p) acc else acc) typed direct)"

definition store_credentials :: "(string, 'c credential) gomap \<Rightarrow> 'c cgraph \<Rightarrow> 'c cgraph" where
  "store_credentials m g = foldl (\<lambda>h (node, c). set_credentials node (Some c) h) g m"

definition process_direct_credentials :: "('w, 'c) cred_env \<Rightarrow> 'w cred_config \<Rightarrow> 'c cgraph
    \<Rightarrow> 'c cgraph \<times> (cred_error, 'w consumer list) outcome" where
  "process_direct_credentials env config g =
     (case direct_consumers env (consumers config) (g, ([], [])) [] of
        ((g', m), Ok cs) \<Rightarrow> (store_credentials (final_credentials m) g', Ok cs)
      | ((g', _), r) \<Rightarrow> (g', r))"

definition process_consumer_credential :: "('w, 'c) cred_env \<Rightarrow> 'w \<Rightarrow> string \<Rightarrow> 'c cgraph
    \<Rightarrow> 'c cgraph \<times> (cred_error, unit) outcome" where
  "process_consumer_credential env credential node g =
     (case cred_identity env credential of
        None \<Rightarrow> (g, Fail PluginFailed)
      | Some identity \<Rightarrow>
          (case add_identity (globs env) identity g of
             (g1, Ok _) \<Rightarrow>
               (case add_edge g1 node (identity_string identity) [resolution_relevant] of
                  (g2, Ok _) \<Rightarrow> (g2, Ok ())
                | (g2, Fail e) \<Rightarrow> (g2, Fail (GraphError e))
                | (g2, Panic) \<Rightarrow> (g2, Panic))
           | (g1, Fail e) \<Rightarrow> (g1, Fail (GraphError e))
           | (g1, Panic) \<Rightarrow> (g1, Panic)))"

fun consumer_credentials :: "('w, 'c) cred_env \<Rightarrow> 'w list \<Rightarrow> string \<Rightarrow> 'c cgraph
    \<Rightarrow> 'c cgraph \<times> (cred_error, unit) outcome" where
  "consumer_credentials env [] node g = (g, Ok ())"
| "consumer_credentials env (c # cs) node g =
     (case process_consumer_credential env c node g of
        (g', Ok _) \<Rightarrow> consumer_credentials env cs node g'
      | r \<Rightarrow> r)"

fun plugin_identities :: "('w, 'c) cred_env \<Rightarrow> 'w list \<Rightarrow> identity list \<Rightarrow> 'c cgraph
    \<Rightarrow> 'c cgraph \<times> (cred_error, unit) outcome" where
  "plugin_identities env creds [] g = (g, Ok ())"
| "plugin_identities env creds (identity # ids) g =
     (let identity = prepared_identity env identity in
      case add_identity (globs env) identity g of
        (g1, Ok _) \<Rightarrow>
          (case consumer_credentials env creds (identity_string identity) g1 of
             (g2, Ok _) \<Rightarrow> plugin_identities env creds ids g2
           | r \<Rightarrow> r)
      | (g1, Fail e) \<Rightarrow> (g1, Fail (GraphError e))
      | (g1, Panic) \<Rightarrow> (g1, Panic))"

fun process_plugin_based_edges :: "('w, 'c) cred_env \<Rightarrow> 'w consumer list \<Rightarrow> 'c cgraph
    \<Rightarrow> 'c cgraph \<times> (cred_error, unit) outcome" where
  "process_plugin_based_edges env [] g = (g, Ok ())"
| "process_plugin_based_edges env (consumer # cs) g =
     (case plugin_identities env (credentials consumer) (identities consumer) g of
        (g', Ok _) \<Rightarrow> process_plugin_based_edges env cs g'
      | r \<Rightarrow> r)"

fun process_repository_configurations :: "('w, 'c) cred_env \<Rightarrow> 'w list \<Rightarrow> 'w list
    \<Rightarrow> 'w list \<times> (cred_error, unit) outcome" where
  "process_repository_configurations env [] acc = (acc, Ok ())"
| "process_repository_configurations env (r # rs) acc =
     (case decode_repo env r of
        None \<Rightarrow> (acc, Fail RepositoryFailed)
      | Some typed \<Rightarrow> process_repository_configurations env rs (acc @ [typed]))"

record ('w, 'c) cred_graph =
  cdag :: "'c cgraph"
  repository_configurations :: "'w list"

definition ingest :: "('w, 'c) cred_env \<Rightarrow> 'w cred_config \<Rightarrow> ('w, 'c) cred_graph
    \<Rightarrow> ('w, 'c) cred_graph \<times> (cred_error, unit) outcome" where
  "ingest env config s =
     (case process_direct_credentials env config (cdag s) of
        (g1, Ok cs) \<Rightarrow>
          (case process_plugin_based_edges env cs g1 of
             (g2, Ok _) \<Rightarrow>
               (case process_repository_configurations env (repositories config) (repository_configurations s) of
                  (rs, r) \<Rightarrow> (\<lparr>cdag = g2, repository_configurations = rs\<rparr>, r))
           | (g2, r) \<Rightarrow> (s\<lparr>cdag := g2\<rparr>, r))
      | (g1, Fail e) \<Rightarrow> (s\<lparr>cdag := g1\<rparr>, Fail e)
      | (g1, Panic) \<Rightarrow> (s\<lparr>cdag := g1\<rparr>, Panic))"

definition to_graph :: "('w, 'c) cred_env \<Rightarrow> 'w cred_config \<Rightarrow> (cred_error, ('w, 'c) cred_graph) outcome" where
  "to_graph env config =
     (case ingest env config \<lparr>cdag = new_dag, repository_configurations = []\<rparr> of
        (g, Ok _) \<Rightarrow> Ok g
      | (_, Fail e) \<Rightarrow> Fail e
      | (_, Panic) \<Rightarrow> Panic)"

section \<open>Resolution\<close>

fun merge_fields :: "('w, 'c) cred_env \<Rightarrow> 'c credential list \<Rightarrow> (string, string) gomap
    \<Rightarrow> (cred_error, (string, string) gomap) outcome" where
  "merge_fields env [] merged = Ok merged"
| "merge_fields env (Direct t p # cs) merged = merge_fields env cs (mcopy merged p)"
| "merge_fields env (Concrete c # cs) merged =
     (case fields_of env c of
        None \<Rightarrow> Fail MergeFailed
      | Some fs \<Rightarrow> merge_fields env cs (mcopy merged (filter (\<lambda>(k, _). k \<noteq> ''type'') fs)))"

definition merge_typed :: "('w, 'c) cred_env \<Rightarrow> 'c credential list \<Rightarrow> (cred_error, 'c credential option) outcome" where
  "merge_typed env creds =
     (case creds of
        [] \<Rightarrow> Ok None
      | [c] \<Rightarrow> Ok (Some c)
      | _ \<Rightarrow>
          if cred_scheme env = None then Fail NilSchemeOnMerge
          else bind_outcome (merge_fields env creds [])
                 (\<lambda>merged. Ok (Some (Direct \<lparr>Version = ''v1'', Name = ''Credentials''\<rparr> merged))))"

text \<open>
  The recursion over the children of a vertex. \<open>rec\<close> is the recursive call; its result is
  \<open>None\<close> when the fuel of \<open>resolve_fuel\<close> was not enough.
\<close>

type_synonym 'c resolved = "'c cgraph \<times> (cred_error, 'c credential option) outcome option"

fun resolve_edges :: "('w, 'c) cred_env \<Rightarrow> (identity \<Rightarrow> 'c cgraph \<Rightarrow> 'c resolved) \<Rightarrow> identity
    \<Rightarrow> (string \<times> (string, 'c attr) gomap) list \<Rightarrow> 'c credential list \<Rightarrow> 'c cgraph
    \<Rightarrow> 'c cgraph \<times> (cred_error, 'c credential list) outcome option" where
  "resolve_edges env rec identity [] acc g = (g, Some (Ok acc))"
| "resolve_edges env rec identity ((edge, attributes) # es) acc g =
     (if (case map_of attributes ''kind'' of Some (AKind k) \<Rightarrow> k = ''cyclic-only'' | _ \<Rightarrow> False)
      then resolve_edges env rec identity es acc g
      else case get_identity g edge of
        None \<Rightarrow> (g, Some (Fail (ChildNotFound edge)))
      | Some child \<Rightarrow>
          (case rec child g of
             (g', Some (Ok child_credentials)) \<Rightarrow>
               (case cred_plugin env child of
                  None \<Rightarrow> (g', Some (Fail (NoPlugin child)))
                | Some plugin \<Rightarrow>
                    (case plugin identity child_credentials of
                       None \<Rightarrow> (g', Some (Fail PluginFailed))
                     | Some None \<Rightarrow> resolve_edges env rec identity es acc g'
                     | Some (Some c) \<Rightarrow> resolve_edges env rec identity es (acc @ [c]) g'))
           | (g', Some (Fail e)) \<Rightarrow> (g', Some (Fail e))
           | (g', Some Panic) \<Rightarrow> (g', Some Panic)
           | (g', None) \<Rightarrow> (g', None)))"

definition resolve_node :: "('w, 'c) cred_env \<Rightarrow> (identity \<Rightarrow> 'c cgraph \<Rightarrow> 'c resolved) \<Rightarrow> identity
    \<Rightarrow> 'c cgraph \<Rightarrow> 'c resolved" where
  "resolve_node env rec identity g =
     (case match_any_node (globs env) identity g of
        None \<Rightarrow> (g, Some (Fail NoDirectCredentials))
      | Some v \<Rightarrow>
          (case get_credentials g (ID v) of
             Some c \<Rightarrow> (g, Some (Ok (Some c)))
           | None \<Rightarrow>
               (case resolve_edges env rec identity (Edges v) [] g of
                  (g', Some (Ok creds)) \<Rightarrow>
                    (case merge_typed env creds of
                       Ok merged \<Rightarrow> (set_credentials (identity_string identity) merged g', Some (Ok merged))
                     | Fail e \<Rightarrow> (g', Some (Fail e))
                     | Panic \<Rightarrow> (g', Some Panic))
                | (g', Some (Fail e)) \<Rightarrow> (g', Some (Fail e))
                | (g', Some Panic) \<Rightarrow> (g', Some Panic)
                | (g', None) \<Rightarrow> (g', None))))"

primrec resolve_fuel :: "('w, 'c) cred_env \<Rightarrow> nat \<Rightarrow> identity \<Rightarrow> 'c cgraph \<Rightarrow> 'c resolved" where
  "resolve_fuel env 0 identity g = (g, None)"
| "resolve_fuel env (Suc f) identity g = resolve_node env (resolve_fuel env f) identity g"

text \<open>A vertex per level is enough fuel (\<open>resolve_terminates\<close>); running out would be a stack overflow.\<close>

definition resolve_from_graph :: "('w, 'c) cred_env \<Rightarrow> identity \<Rightarrow> 'c cgraph
    \<Rightarrow> 'c cgraph \<times> (cred_error, 'c credential option) outcome" where
  "resolve_from_graph env identity g =
     (case resolve_fuel env (Suc (length (Vertices g))) identity g of
        (g', Some r) \<Rightarrow> (g', r)
      | (g', None) \<Rightarrow> (g', Panic))"

text \<open>The repositories in the order in which their goroutines finish: the first result that is
  not nil is kept.\<close>

fun resolve_repositories :: "('w, 'c) cred_env \<Rightarrow> ('w \<Rightarrow> identity option)
    \<Rightarrow> ('w \<Rightarrow> identity \<Rightarrow> 'c credential option \<Rightarrow> 'c credential option option) \<Rightarrow> identity \<Rightarrow> 'w list
    \<Rightarrow> 'c credential option \<Rightarrow> bool \<Rightarrow> 'c cgraph \<Rightarrow> 'c cgraph \<times> 'c credential option \<times> bool" where
  "resolve_repositories env cfg_identity resolve identity [] resolved failed g = (g, resolved, failed)"
| "resolve_repositories env cfg_identity resolve identity (cfg # cfgs) resolved failed g =
     (let (g', creds) =
            (case cfg_identity cfg of
               None \<Rightarrow> (g, None)
             | Some i \<Rightarrow> (case resolve_from_graph env i g of
                           (h, Ok c) \<Rightarrow> (h, c)
                         | (h, _) \<Rightarrow> (h, None)))
      in case resolve cfg identity creds of
           None \<Rightarrow> resolve_repositories env cfg_identity resolve identity cfgs resolved True g'
         | Some c \<Rightarrow>
             resolve_repositories env cfg_identity resolve identity cfgs
               (if resolved = None then c else resolved) failed g')"

definition resolve_from_repository :: "('w, 'c) cred_env \<Rightarrow> 'w list \<Rightarrow> identity \<Rightarrow> 'c cgraph
    \<Rightarrow> 'c cgraph \<times> (cred_error, 'c credential option) outcome" where
  "resolve_from_repository env order identity g =
     (let node = identity_string identity in
      case get_credentials g node of
        Some c \<Rightarrow> (g, Ok (Some c))
      | None \<Rightarrow>
          (let lookup_plugin = (\<lambda>i. Option.bind (repo_plugin env) (\<lambda>p. p i)) in
           case (case lookup_plugin identity of
                   Some p \<Rightarrow> Some p
                 | None \<Rightarrow> lookup_plugin (set_type identity \<lparr>Version = [], Name = ''*''\<rparr>)) of
             None \<Rightarrow> (g, Fail NoIndirectCredentials)
           | Some (cfg_identity, resolve) \<Rightarrow>
               (case resolve_repositories env cfg_identity resolve identity order None False g of
                  (g', Some c, _) \<Rightarrow> (set_credentials node (Some c) g', Ok (Some c))
                | (g', None, failed) \<Rightarrow> (g', Fail (if failed then Unknown RepositoryFailed else NoIndirectCredentials)))))"

definition resolve_credentials :: "('w, 'c) cred_env \<Rightarrow> 'w list \<Rightarrow> identity \<Rightarrow> 'c cgraph
    \<Rightarrow> 'c cgraph \<times> (cred_error, 'c credential option) outcome" where
  "resolve_credentials env order identity g =
     (case parse_type identity of
        Ok _ \<Rightarrow>
          (let (g', r) =
                 (case resolve_from_graph env identity g of
                    (g1, Fail NoDirectCredentials) \<Rightarrow>
                      if repo_plugin env \<noteq> None then resolve_from_repository env order identity g1
                      else (g1, Fail NoDirectCredentials)
                  | res \<Rightarrow> res)
           in case r of
                Ok c \<Rightarrow> (g', Ok c)
              | Fail NoDirectCredentials \<Rightarrow> (g', Fail (NotFound NoDirectCredentials))
              | Fail NoIndirectCredentials \<Rightarrow> (g', Fail (NotFound NoIndirectCredentials))
              | Fail e \<Rightarrow> (g', Fail (Unknown e))
              | Panic \<Rightarrow> (g', Panic))
      | Fail e \<Rightarrow> (g, Fail (Unknown (IdentityTypeMissing e)))
      | Panic \<Rightarrow> (g, Panic))"


end
