(* ===== verification/Credential_Properties.thy ===== *)
theory Credential_Properties
  imports Credential_Graph
begin

text \<open>
  What the credential graph of \<open>Credential_Graph\<close> guarantees: ingestion keeps an acyclic graph
  whose vertices are keyed by their identity, hence the recursive resolution terminates, and the
  precedence of typed over direct credentials.
\<close>

section \<open>The skeleton of a graph\<close>

text \<open>What resolution never changes: it only writes credential attributes.\<close>

definition skeleton :: "'c cgraph \<Rightarrow> (string \<times> string \<times> (string \<times> (string, 'c attr) gomap) list
    \<times> int \<times> int \<times> identity option) list" where
  "skeleton g = map (\<lambda>(k, v). (k, ID v, Edges v, InDegree v, OutDegree v, vertex_identity v)) (Vertices g)"

lemma skeleton_get:
  assumes "skeleton g = skeleton g'"
  shows "map_option (\<lambda>v. (ID v, Edges v, InDegree v, OutDegree v, vertex_identity v)) (get_vertex g k)
       = map_option (\<lambda>v. (ID v, Edges v, InDegree v, OutDegree v, vertex_identity v)) (get_vertex g' k)"
proof -
  have "map_of (skeleton h) k = map_option (\<lambda>v. (ID v, Edges v, InDegree v, OutDegree v, vertex_identity v)) (get_vertex h k)"
    for h :: "'c cgraph"
    unfolding skeleton_def by (simp add: map_of_map)
  with assms show ?thesis by metis
qed

lemma skeleton_keys: "skeleton g = skeleton g' \<Longrightarrow> mkeys (Vertices g) = mkeys (Vertices g')"
proof -
  have "mkeys (Vertices h) = map fst (skeleton h)" for h :: "'c cgraph"
    by (simp add: skeleton_def comp_def case_prod_unfold)
  then show "skeleton g = skeleton g' \<Longrightarrow> mkeys (Vertices g) = mkeys (Vertices g')" by metis
qed

lemma skeleton_vertex:
  assumes "skeleton g = skeleton g'" and "get_vertex g k = Some v"
  obtains v' where "get_vertex g' k = Some v'" "ID v' = ID v" "Edges v' = Edges v" "InDegree v' = InDegree v"
    "OutDegree v' = OutDegree v" "vertex_identity v' = vertex_identity v"
  using skeleton_get [OF assms(1), of k] assms(2) by (cases "get_vertex g' k") auto

lemma skeleton_edge_rel:
  assumes "skeleton g = skeleton g'"
  shows "edge_rel g = edge_rel g'"
proof -
  have "edge_rel g \<subseteq> edge_rel g'" if "skeleton g = skeleton g'" for g g' :: "'c cgraph"
    using skeleton_vertex [OF that] by (auto simp: edge_rel_iff) metis
  with assms show ?thesis by (metis order_antisym)
qed

text \<open>The invariant of the credential graph.\<close>

definition cred_ok :: "'c cgraph \<Rightarrow> bool" where
  "cred_ok g \<longleftrightarrow> wf_dag g
     \<and> (\<forall>k v i. get_vertex g k = Some v \<longrightarrow> vertex_identity v = Some i \<longrightarrow> identity_string i = k)"

lemma cred_ok_skeleton:
  assumes "skeleton g = skeleton g'" and "cred_ok g"
  shows "cred_ok g'"
proof -
  note sym = assms(1) [symmetric]
  have E: "edge_rel g' = edge_rel g" using sym by (rule skeleton_edge_rel)
  have wf: "wf_dag g" and ids: "\<And>k v i. get_vertex g k = Some v \<Longrightarrow> vertex_identity v = Some i \<Longrightarrow> identity_string i = k"
    using assms(2) by (auto simp: cred_ok_def)
  have "mok (Vertices g')" using wf skeleton_keys [OF assms(1)] by (simp add: wf_dag_iff)
  moreover have "ID x = k \<and> mok (Edges x) \<and> InDegree x = int (card ((edge_rel g')\<inverse> `` {k}))
      \<and> OutDegree x = int (length (Edges x))" if "get_vertex g' k = Some x" for k x
  proof -
    obtain v where v: "get_vertex g k = Some v" "ID v = ID x" "Edges v = Edges x" "InDegree v = InDegree x"
      "OutDegree v = OutDegree x" by (rule skeleton_vertex [OF sym \<open>get_vertex g' k = Some x\<close>])
    have "ID v = k \<and> mok (Edges v) \<and> InDegree v = int (card ((edge_rel g)\<inverse> `` {k}))
      \<and> OutDegree v = int (length (Edges v))" using wf v(1) by (simp add: wf_dag_iff)
    then show ?thesis by (simp only: v(2-5) E)
  qed
  moreover have "get_vertex g' w \<noteq> None" if "(u, w) \<in> edge_rel g'" for u w
  proof -
    have "get_vertex g w \<noteq> None" using wf that unfolding E wf_dag_iff by blast
    then show ?thesis using skeleton_vertex [OF assms(1)] by (metis not_None_eq)
  qed
  ultimately have "wf_dag g'"
    using wf unfolding wf_dag_iff E by blast
  moreover have "identity_string i = k" if "get_vertex g' k = Some v" "vertex_identity v = Some i" for k v i
    using skeleton_vertex [OF sym that(1)] ids that(2) by metis
  ultimately show ?thesis by (simp add: cred_ok_def)
qed

lemma attribute_keys_differ: "attribute_identity \<noteq> attribute_credentials"
  by (simp add: attribute_identity_def attribute_credentials_def)

lemma skeleton_set_credentials [simp]: "skeleton (set_credentials k c g) = skeleton g"
  unfolding skeleton_def set_credentials_def upd_vertex_def
  by (auto simp: mupd_def vertex_identity_def attribute_keys_differ)

lemma cred_ok_set_credentials [simp]: "cred_ok (set_credentials k c g) \<longleftrightarrow> cred_ok g"
  using cred_ok_skeleton skeleton_set_credentials by metis

section \<open>Ingestion keeps the invariant\<close>

lemma add_edge_attributes:
  assumes "wf_dag g"
  shows "map_option Attributes (get_vertex (fst (add_edge g u w as)) k) = map_option Attributes (get_vertex g k)"
  by (cases rule: add_edge_cases [OF assms, of u w as])
     (auto simp: get_vertex_copy_edge_attributes get_vertex_link option.map_comp comp_def)

lemma cred_ok_add_edge:
  assumes "cred_ok g"
  shows "cred_ok (fst (add_edge g u w as))"
proof -
  have wf: "wf_dag g" using assms by (simp add: cred_ok_def)
  have "identity_string i = k"
    if "get_vertex (fst (add_edge g u w as)) k = Some v" "vertex_identity v = Some i" for k v i
  proof -
    have "map_option Attributes (get_vertex g k) = Some (Attributes v)"
      using add_edge_attributes [OF wf, of u w as k] that(1) by simp
    then obtain v' where "get_vertex g k = Some v'" "Attributes v' = Attributes v"
      by auto
    then show ?thesis
      using assms that(2) by (simp add: cred_ok_def vertex_identity_def)
  qed
  then show ?thesis
    using wf_dag_add_edge [OF wf] by (simp add: cred_ok_def)
qed

lemma add_edge_no_panic: "wf_dag g \<Longrightarrow> snd (add_edge g u w as) \<noteq> Panic"
  by (cases rule: add_edge_cases [of g u w as]) auto

lemma add_match_edges_ok:
  "cred_ok g \<Longrightarrow> cred_ok (fst (add_match_edges gl identity node vs g))
     \<and> snd (add_match_edges gl identity node vs g) \<noteq> Panic"
proof (induction vs arbitrary: g)
  case (Cons v vs)
  have guarded_edge: "cred_ok h \<Longrightarrow> cred_ok (fst (if b then add_edge h u w as else (h, Ok ())))
      \<and> snd (if b then add_edge h u w as else (h, Ok ())) \<noteq> Panic" for h :: "'a cgraph" and b u w as
  proof (cases b)
    case True
    assume ok: "cred_ok h"
    then have "wf_dag h" by (simp add: cred_ok_def)
    with True ok show ?thesis by (simp add: cred_ok_add_edge add_edge_no_panic)
  qed simp
  show ?case
  proof (cases "ID v = node \<or> vertex_identity v = None")
    case True
    then show ?thesis using Cons by (auto split: option.splits)
  next
    case False
    then obtain i where i: "vertex_identity v = Some i" "ID v \<noteq> node" by auto
    let ?r1 = "if identity_match gl identity i [] then add_edge g (ID v) node [cyclic_only] else (g, Ok ())"
    obtain g1 o1 where r1: "?r1 = (g1, o1)" by (metis surj_pair)
    let ?r2 = "if identity_match gl i identity [] then add_edge g1 node (ID v) [cyclic_only] else (g1, Ok ())"
    obtain g2 o2 where r2: "?r2 = (g2, o2)" by (metis surj_pair)
    have g1: "cred_ok g1" "o1 \<noteq> Panic"
      using guarded_edge [OF Cons.prems, of "identity_match gl identity i []" "ID v" node "[cyclic_only]"]
      unfolding r1 by simp_all
    have g2: "cred_ok g2" "o2 \<noteq> Panic"
      using guarded_edge [OF g1(1), of "identity_match gl i identity []" node "ID v" "[cyclic_only]"]
      unfolding r2 by simp_all
    have "add_match_edges gl identity node (v # vs) g =
        (case o1 of Ok _ \<Rightarrow> (case o2 of Ok _ \<Rightarrow> add_match_edges gl identity node vs g2 | r \<Rightarrow> (g2, r)) | r \<Rightarrow> (g1, r))"
      by (simp only: add_match_edges.simps i(1) i(2) if_False option.case r1 prod.case)
        (cases o1; simp only: outcome.case r2 prod.case; cases o2; simp only: outcome.case)
    then show ?thesis
      using g1 g2 Cons.IH [OF g2(1)] by (auto split: outcome.splits)
  qed
qed simp

lemma add_identity_ok:
  assumes "cred_ok g"
  shows "cred_ok (fst (add_identity gl identity g)) \<and> snd (add_identity gl identity g) \<noteq> Panic"
proof (cases "contains_vertex g (identity_string identity)")
  case False
  let ?n = "identity_string identity"
  let ?as = "[[(attribute_identity, AIdentity identity)]] :: (string, 'a attr) gomap list"
  have none: "get_vertex g ?n = None" using False by (simp add: contains_vertex_def)
  then obtain g' where g': "add_vertex g ?n ?as = (g', Ok ())" by (simp add: add_vertex_def)
  then have "cred_ok g'"
    using assms wf_dag_add_vertex [of g ?n ?as] get_vertex_add_vertex [OF none, of ?as]
    by (auto simp: cred_ok_def vertex_identity_def split: if_splits)
  moreover have "add_identity gl identity g = add_match_edges gl identity ?n (map snd (Vertices g')) g'"
    using False by (simp add: add_identity_def Let_def g')
  ultimately show ?thesis
    using add_match_edges_ok [of g'] by simp
qed (use assms in \<open>simp add: add_identity_def\<close>)

text \<open>Lifting over the loops of the ingestion.\<close>

lemma direct_identities_ok:
  "cred_ok (fst s) \<Longrightarrow> cred_ok (fst (fst (direct_identities env r ids s))) \<and> snd (direct_identities env r ids s) \<noteq> Panic"
proof (induction env r ids s rule: direct_identities.induct)
  case (2 env resolved identity ids g m)
  let ?i = "prepared_identity env identity"
  obtain g' o1 where step: "add_identity (globs env) ?i g = (g', o1)" by (metis surj_pair)
  have ok: "cred_ok g'" "o1 \<noteq> Panic"
    using add_identity_ok [of g "globs env" ?i] "2.prems" by (simp_all add: step)
  show ?case
  proof (cases o1)
    case (Ok u)
    then show ?thesis
      using "2.IH" [OF refl refl, of g' "Ok ()" "()"] ok(1) by (simp add: step Let_def)
  qed (use ok in \<open>simp_all add: step Let_def\<close>)
qed simp

lemma extract_no_panic: "extract_resolvable env creds \<noteq> Panic"
proof -
  have "extract_loop env creds r d acc \<noteq> Panic" for r d acc
    by (induction env creds r d acc rule: extract_loop.induct) (auto simp: Let_def split: option.splits prod.splits)
  then show ?thesis
    by (cases "extract_loop env creds None None []") (auto simp: extract_resolvable_def)
qed

lemma direct_consumers_ok:
  "cred_ok (fst s) \<Longrightarrow> cred_ok (fst (fst (direct_consumers env cs s acc))) \<and> snd (direct_consumers env cs s acc) \<noteq> Panic"
proof (induction cs arbitrary: s acc)
  case (Cons c cs)
  show ?case
  proof (cases "extract_resolvable env (credentials c)")
    case (Ok p)
    obtain resolved remaining where p: "p = (resolved, remaining)" by (cases p)
    let ?step = "case resolved of None \<Rightarrow> (s, Ok ()) | Some r \<Rightarrow> direct_identities env r (identities c) s"
    obtain s' o1 where step: "?step = (s', o1)" by (metis surj_pair)
    have ok: "cred_ok (fst s')" "o1 \<noteq> Panic"
      using direct_identities_ok [OF Cons.prems, of env _ "identities c"] Cons.prems step
      by (auto split: option.splits) (metis fst_conv snd_conv)+
    show ?thesis
      by (cases o1; simp add: Ok p step Let_def ok Cons.IH [OF ok(1)] del: split_paired_All)
  qed (use Cons.prems extract_no_panic in auto)
qed simp

lemma cred_ok_store: "cred_ok g \<Longrightarrow> cred_ok (store_credentials m g)"
  unfolding store_credentials_def by (induction m arbitrary: g) auto

lemma consumer_credentials_ok:
  "cred_ok g \<Longrightarrow> cred_ok (fst (consumer_credentials env cs node g)) \<and> snd (consumer_credentials env cs node g) \<noteq> Panic"
proof (induction cs arbitrary: g)
  case (Cons c cs)
  have "cred_ok (fst (process_consumer_credential env c node g)) \<and> snd (process_consumer_credential env c node g) \<noteq> Panic"
  proof (cases "cred_identity env c")
    case (Some i)
    obtain g1 o1 where s1: "add_identity (globs env) i g = (g1, o1)" by (metis surj_pair)
    then have ok1: "cred_ok g1" "o1 \<noteq> Panic" using add_identity_ok [OF Cons.prems, of "globs env" i] by simp_all
    obtain g2 o2 where s2: "add_edge g1 node (identity_string i) [resolution_relevant] = (g2, o2)" by (metis surj_pair)
    then have ok2: "cred_ok g2" "o2 \<noteq> Panic"
      using cred_ok_add_edge [OF ok1(1), of node "identity_string i" "[resolution_relevant]"]
        add_edge_no_panic [of g1 node "identity_string i" "[resolution_relevant]"] ok1(1)
      by (simp_all add: cred_ok_def)
    show ?thesis
      by (cases o1; cases o2) (use ok1 ok2 in \<open>simp_all add: process_consumer_credential_def Some s1 s2\<close>)
  qed (use Cons.prems in \<open>simp add: process_consumer_credential_def\<close>)
  then show ?case
    using Cons.IH by (auto split: prod.splits outcome.splits)
qed simp

lemma plugin_identities_ok:
  "cred_ok g \<Longrightarrow> cred_ok (fst (plugin_identities env creds ids g)) \<and> snd (plugin_identities env creds ids g) \<noteq> Panic"
proof (induction ids arbitrary: g)
  case (Cons i ids)
  let ?i = "prepared_identity env i"
  obtain g1 o1 where s1: "add_identity (globs env) ?i g = (g1, o1)" by (metis surj_pair)
  then have ok1: "cred_ok g1" "o1 \<noteq> Panic" using add_identity_ok [OF Cons.prems, of "globs env" ?i] by simp_all
  obtain g2 o2 where s2: "consumer_credentials env creds (identity_string ?i) g1 = (g2, o2)" by (metis surj_pair)
  then have ok2: "cred_ok g2" "o2 \<noteq> Panic" using consumer_credentials_ok [OF ok1(1), of env creds "identity_string ?i"] by simp_all
  show ?case
    by (cases o1; cases o2) (use ok1 ok2 Cons.IH [OF ok2(1)] in \<open>simp_all add: s1 s2 Let_def\<close>)
qed simp

lemma process_plugin_based_edges_ok:
  "cred_ok g \<Longrightarrow> cred_ok (fst (process_plugin_based_edges env cs g)) \<and> snd (process_plugin_based_edges env cs g) \<noteq> Panic"
proof (induction cs arbitrary: g)
  case (Cons c cs)
  obtain g1 o1 where s1: "plugin_identities env (credentials c) (identities c) g = (g1, o1)" by (metis surj_pair)
  then have ok1: "cred_ok g1" "o1 \<noteq> Panic"
    using plugin_identities_ok [OF Cons.prems, of env "credentials c" "identities c"] by simp_all
  show ?case
    by (cases o1) (use ok1 Cons.IH [OF ok1(1)] in \<open>simp_all add: s1\<close>)
qed simp

lemma process_repository_configurations_no_panic:
  "snd (process_repository_configurations env rs acc) \<noteq> Panic"
  by (induction env rs acc rule: process_repository_configurations.induct) (auto split: option.splits)

lemma ingest_ok:
  assumes "cred_ok (cdag s)"
  shows "cred_ok (cdag (fst (ingest env config s))) \<and> snd (ingest env config s) \<noteq> Panic"
proof -
  obtain s1 m o1 where s1: "direct_consumers env (consumers config) (cdag s, [], []) [] = ((s1, m), o1)"
    by (metis surj_pair)
  then have ok1: "cred_ok s1" "o1 \<noteq> Panic"
    using direct_consumers_ok [of "(cdag s, [], [])" env "consumers config" "[]"] assms by simp_all
  let ?g1 = "store_credentials (final_credentials m) s1"
  have d: "process_direct_credentials env config (cdag s) = (case o1 of Ok cs \<Rightarrow> (?g1, Ok cs) | r \<Rightarrow> (s1, r))"
    by (cases o1) (simp_all add: process_direct_credentials_def s1)
  show ?thesis
  proof (cases o1)
    case (Ok cs)
    obtain g2 o2 where s2: "process_plugin_based_edges env cs ?g1 = (g2, o2)" by (metis surj_pair)
    then have "cred_ok g2" "o2 \<noteq> Panic"
      using process_plugin_based_edges_ok [OF cred_ok_store [OF ok1(1)]] by (metis fst_conv snd_conv)+
    then show ?thesis
      using process_repository_configurations_no_panic [of env "repositories config" "repository_configurations s"]
      by (cases o2) (auto simp: ingest_def d Ok s2 split: prod.splits)
  qed (use ok1 in \<open>simp_all add: ingest_def d\<close>)
qed

lemma cred_ok_new: "cred_ok new_dag"
  by (simp add: cred_ok_def new_dag_def) (simp flip: new_dag_def)


section \<open>Resolution terminates\<close>

text \<open>The contract of a recursive call: it only writes credentials.\<close>

locale child_resolver =
  fixes rec :: "identity \<Rightarrow> 'c cgraph \<Rightarrow> 'c resolved"
  assumes rec_skeleton: "skeleton (fst (rec i g)) = skeleton g"
begin

lemma resolve_edges_skeleton: "skeleton (fst (resolve_edges env rec i es acc g)) = skeleton g"
proof (induction es arbitrary: acc g)
  case (Cons e es)
  have sk: "skeleton g' = skeleton g" if "rec child g = (g', r)" for child g' r
    using rec_skeleton [of child g] that by simp
  obtain edge attributes where e: "e = (edge, attributes)" by (cases e)
  show ?case
    unfolding e using Cons.IH sk by (auto split: option.splits prod.splits outcome.splits)
qed simp

lemma resolve_node_skeleton: "skeleton (fst (resolve_node env rec i g)) = skeleton g"
proof -
  have sk: "skeleton g' = skeleton g" if "resolve_edges env rec i es acc g = (g', r)" for es acc g' r
    using resolve_edges_skeleton [of env i es acc g] that by simp
  show ?thesis
    by (auto simp: resolve_node_def sk split: option.splits prod.splits outcome.splits)
qed

end

lemma resolve_fuel_skeleton: "skeleton (fst (resolve_fuel env f i g)) = skeleton g"
proof (induction f arbitrary: i g)
  case (Suc f)
  then show ?case
    by (simp add: child_resolver.resolve_node_skeleton child_resolver_def)
qed simp

interpretation resolver: child_resolver "resolve_fuel env f"
  by unfold_locales (rule resolve_fuel_skeleton)

definition rank :: "'c cgraph \<Rightarrow> string \<Rightarrow> nat" where
  "rank g k = card ((edge_rel g)\<^sup>+ `` {k})"

lemma finite_reach: "wf_dag g \<Longrightarrow> finite ((edge_rel g)\<^sup>+ `` {k})"
  using finite_edge_rel [of g] by (intro finite_Image) (simp add: finite_trancl)

lemma rank_less:
  assumes "wf_dag g" and "(k, c) \<in> edge_rel g"
  shows "rank g c < rank g k"
  unfolding rank_def
proof (rule psubset_card_mono [OF finite_reach [OF assms(1)]])
  have "(c, c) \<notin> (edge_rel g)\<^sup>+"
    using wf_dag_acyclic [OF assms(1)] by (auto simp: acyclic_def)
  moreover have "(k, c) \<in> (edge_rel g)\<^sup>+" using assms(2) by auto
  moreover have "(edge_rel g)\<^sup>+ `` {c} \<subseteq> (edge_rel g)\<^sup>+ `` {k}"
    using assms(2) by (auto intro: trancl_into_trancl2)
  ultimately show "(edge_rel g)\<^sup>+ `` {c} \<subset> (edge_rel g)\<^sup>+ `` {k}" by auto
qed

lemma rank_bound:
  assumes "wf_dag g"
  shows "rank g k \<le> length (Vertices g)"
proof -
  have sub: "(edge_rel g)\<^sup>+ `` {k} \<subseteq> nodes g"
    using wf_dag_edge_nodes [OF assms] by (auto elim: trancl.cases)
  have "card (nodes g) = length (Vertices g)"
    using assms unfolding nodes_def wf_dag_iff by (metis distinct_card length_map)
  then show ?thesis
    using card_mono [OF _ sub] by (simp add: rank_def nodes_def)
qed

lemma match_exact:
  assumes "cred_ok g" and "get_identity g k = Some child"
  obtains v where "get_vertex g k = Some v" "ID v = k" "match_any_node gl child g = Some v"
proof -
  obtain v where v: "get_vertex g k = Some v" "vertex_identity v = Some child"
    using assms(2) by (auto simp: get_identity_def split: option.splits)
  then have "identity_string child = k" and "ID v = k"
    using assms(1) by (auto simp: cred_ok_def wf_dag_iff)
  with v that show ?thesis by (simp add: match_any_node_def)
qed

lemma resolve_edges_terminates:
  assumes "\<And>h e child. skeleton h = skeleton g \<Longrightarrow> e \<in> mkeys_set \<Longrightarrow> get_identity h e = Some child
      \<Longrightarrow> snd (resolve_fuel env f child h) \<noteq> None"
  shows "skeleton h = skeleton g \<Longrightarrow> set (mkeys es) \<subseteq> mkeys_set
    \<Longrightarrow> snd (resolve_edges env (resolve_fuel env f) i es acc h) \<noteq> None"
proof (induction es arbitrary: acc h)
  case (Cons e es)
  obtain edge attributes where e: "e = (edge, attributes)" by (cases e)
  show ?case
  proof (cases "get_identity h edge")
    case (Some child)
    obtain h' o1 where r: "resolve_fuel env f child h = (h', o1)" by (metis surj_pair)
    then have sk: "skeleton h' = skeleton g"
      using resolve_fuel_skeleton [of env f child h] Cons.prems(1) by simp
    have "o1 \<noteq> None"
      using assms [OF Cons.prems(1) _ Some] Cons.prems(2) r by (auto simp: e)
    then show ?thesis
      using Cons Some r sk by (auto simp: e split: option.splits outcome.splits)
  qed (use Cons in \<open>auto simp: e\<close>)
qed simp

lemma resolve_terminates_rank:
  "cred_ok g \<Longrightarrow> match_any_node (globs env) i g = Some v \<Longrightarrow> get_vertex g (ID v) = Some v \<Longrightarrow> rank g (ID v) < f
    \<Longrightarrow> snd (resolve_fuel env f i g) \<noteq> None"
proof (induction f arbitrary: i g v)
  case (Suc f)
  have wf: "wf_dag g" using Suc.prems(1) by (simp add: cred_ok_def)
  have children: "snd (resolve_fuel env f child h) \<noteq> None"
    if sk: "skeleton h = skeleton g" and e: "e \<in> set (mkeys (Edges v))" and id: "get_identity h e = Some child" for h e child
  proof -
    have ok: "cred_ok h" using cred_ok_skeleton [OF sk [symmetric] Suc.prems(1)] .
    obtain w where w: "get_vertex h e = Some w" "ID w = e" "match_any_node (globs env) child h = Some w"
      using match_exact [OF ok id] by metis
    have "(ID v, e) \<in> edge_rel g"
      using Suc.prems(3) e by (auto simp: edge_rel_iff mem_mkeys_iff simp del: set_map)
    then have "rank h e < f"
      using rank_less [OF wf] Suc.prems(4) skeleton_edge_rel [OF sk] by (fastforce simp: rank_def)
    then show ?thesis using Suc.IH [OF ok w(3)] w by simp
  qed
  have "snd (resolve_edges env (resolve_fuel env f) i (Edges v) [] g) \<noteq> None"
    by (rule resolve_edges_terminates [where g = g and mkeys_set = "set (mkeys (Edges v))"])
       (use children in auto)
  then show ?case
    using Suc.prems(2) by (auto simp: resolve_node_def split: option.splits prod.splits outcome.splits)
qed simp

lemma first_match_Some: "first_match gl i vs = Some v \<Longrightarrow> \<exists>k. (k, v) \<in> set vs"
  by (induction gl i vs rule: first_match.induct) (auto split: option.splits if_splits)

lemma match_any_node_vertex:
  assumes "wf_dag g" and "match_any_node gl i g = Some v"
  shows "get_vertex g (ID v) = Some v"
proof -
  have "\<exists>k. get_vertex g k = Some v"
  proof (cases "get_vertex g (identity_string i)")
    case None
    then obtain k where "(k, v) \<in> set (Vertices g)"
      using assms(2) first_match_Some [of gl i "Vertices g" v] by (auto simp: match_any_node_def)
    then show ?thesis using assms(1) by (auto simp: wf_dag_iff)
  qed (use assms(2) in \<open>auto simp: match_any_node_def\<close>)
  then obtain k where k: "get_vertex g k = Some v" by blast
  then have "ID v = k" using assms(1) by (simp add: wf_dag_iff)
  with k show ?thesis by simp
qed

lemma resolve_terminates:
  assumes "cred_ok g" and "length (Vertices g) < f"
  shows "snd (resolve_fuel env f i g) \<noteq> None"
proof (cases "match_any_node (globs env) i g")
  case None
  then show ?thesis using assms(2) by (cases f) (simp_all add: resolve_node_def)
next
  case (Some v)
  have wf: "wf_dag g" using assms(1) by (simp add: cred_ok_def)
  have "rank g (ID v) < f" using rank_bound [OF wf, of "ID v"] assms(2) by simp
  then show ?thesis
    using resolve_terminates_rank [OF assms(1) Some match_any_node_vertex [OF wf Some]] by simp
qed


text \<open>More fuel does not change the result.\<close>

lemma resolve_edges_mono:
  assumes "\<And>i g g' r. rec i g = (g', Some r) \<Longrightarrow> rec' i g = (g', Some r)"
  shows "resolve_edges env rec i es acc g = (g', Some r) \<Longrightarrow> resolve_edges env rec' i es acc g = (g', Some r)"
proof (induction es arbitrary: acc g)
  case (Cons e es)
  obtain edge attributes where e: "e = (edge, attributes)" by (cases e)
  let ?skip = "case map_of attributes ''kind'' of Some (AKind k) \<Rightarrow> k = ''cyclic-only'' | _ \<Rightarrow> False"
  show ?case
  proof (cases "?skip \<or> get_identity g edge = None")
    case True
    then show ?thesis using Cons by (auto simp: e)
  next
    case False
    then obtain child where child: "get_identity g edge = Some child" and skip: "\<not> ?skip" by auto
    obtain h q where r1: "rec child g = (h, q)" by (metis surj_pair)
    then obtain o1 where q: "q = Some o1"
      using Cons.prems child skip by (cases q) (simp_all add: e)
    then have r2: "rec' child g = (h, Some o1)" using assms r1 by blast
    show ?thesis
      using Cons.prems Cons.IH skip by (auto simp: e child r1 r2 q split: outcome.splits option.splits)
  qed
qed simp

lemma resolve_node_mono:
  assumes "\<And>i g g' r. rec i g = (g', Some r) \<Longrightarrow> rec' i g = (g', Some r)"
    and "resolve_node env rec i g = (g', Some r)"
  shows "resolve_node env rec' i g = (g', Some r)"
proof -
  have step: "resolve_edges env rec' j es acc h = (h', Some q)" if "resolve_edges env rec j es acc h = (h', Some q)"
    for j es acc h h' q
    using that by (rule resolve_edges_mono [OF assms(1), rotated])
  show ?thesis
  proof (cases "match_any_node (globs env) i g")
    case (Some v)
    obtain h q where q: "resolve_edges env rec i (Edges v) [] g = (h, q)" by (metis surj_pair)
    then show ?thesis
      using assms(2) step [of i "Edges v" "[]" g h] by (cases q) (auto simp: resolve_node_def Some split: option.splits)
  qed (use assms(2) in \<open>simp add: resolve_node_def\<close>)
qed

lemma resolve_fuel_mono:
  "resolve_fuel env f i g = (g', Some r) \<Longrightarrow> resolve_fuel env (f + d) i g = (g', Some r)"
proof (induction f arbitrary: i g g' r)
  case (Suc f)
  have "resolve_node env (resolve_fuel env (f + d)) i g = (g', Some r)"
    by (rule resolve_node_mono [of "resolve_fuel env f"]) (use Suc in simp_all)
  then show ?case by simp
qed simp

lemma resolve_fuel_enough:
  assumes "cred_ok g" and "length (Vertices g) < f"
  shows "\<exists>r. resolve_fuel env f i g = (fst (resolve_from_graph env i g), Some r) \<and> snd (resolve_from_graph env i g) = r"
proof -
  obtain g' r where r: "resolve_fuel env (Suc (length (Vertices g))) i g = (g', Some r)"
    using resolve_terminates [OF assms(1), of "Suc (length (Vertices g))" env i]
    by (cases "resolve_fuel env (Suc (length (Vertices g))) i g") auto
  then have "resolve_fuel env f i g = (g', Some r)"
    using resolve_fuel_mono [OF r, of "f - Suc (length (Vertices g))"] assms(2) by simp
  then show ?thesis using r by (simp add: resolve_from_graph_def)
qed

lemma merge_typed_no_panic: "merge_typed env cs \<noteq> Panic"
proof -
  have "merge_fields env ds m \<noteq> Panic" for ds m
    by (induction env ds m rule: merge_fields.induct) (auto split: option.splits)
  then show ?thesis
    by (cases "merge_fields env cs []") (auto simp: merge_typed_def split: list.splits)
qed

lemma resolve_fuel_no_panic: "snd (resolve_fuel env f i g) \<noteq> Some Panic"
proof (induction f arbitrary: i g)
  case (Suc f)
  have edges: "snd (resolve_edges env (resolve_fuel env f) j es acc h) \<noteq> Some Panic" for j es acc h
  proof (induction es arbitrary: acc h)
    case (Cons e es)
    obtain edge attributes where e: "e = (edge, attributes)" by (cases e)
    have "o1 \<noteq> Some Panic" if "resolve_fuel env f child h = (h', o1)" for child h' o1
      using Suc [of child h] that by simp
    then show ?case
      unfolding e using Cons by (auto split: option.splits prod.splits outcome.splits)
  qed simp
  have "resolve_edges env (resolve_fuel env f) j es acc h \<noteq> (h', Some Panic)" for j es acc h h'
    using edges [of j es acc h] by auto
  then show ?case
    by (auto simp: resolve_node_def merge_typed_no_panic split: option.splits prod.splits outcome.splits)
qed simp

lemma resolve_from_graph_skeleton: "skeleton (fst (resolve_from_graph env i g)) = skeleton g"
proof -
  have "skeleton g' = skeleton g" if "resolve_fuel env f i g = (g', r)" for f g' r
    using resolve_fuel_skeleton [of env f i g] that by simp
  then show ?thesis by (auto simp: resolve_from_graph_def simp del: resolve_fuel.simps split: prod.splits option.splits)
qed

section \<open>Precedence\<close>

definition record_all :: "(string \<times> 'c credential) list \<Rightarrow> 'c per_identity" where
  "record_all rs = foldl (\<lambda>m (node, r). record_resolved node r m) ([], []) rs"

definition concretes :: "string \<Rightarrow> (string \<times> 'c credential) list \<Rightarrow> 'c credential list" where
  "concretes n rs = map snd (filter (\<lambda>(k, r). k = n \<and> (case r of Concrete _ \<Rightarrow> True | _ \<Rightarrow> False)) rs)"

fun directs :: "string \<Rightarrow> (string \<times> 'c credential) list \<Rightarrow> (go_type \<times> (string, string) gomap) list" where
  "directs n [] = []"
| "directs n ((k, Direct t p) # rs) = (if k = n then (t, p) # directs n rs else directs n rs)"
| "directs n ((k, Concrete c) # rs) = directs n rs"

lemma directs_append: "directs n (xs @ ys) = directs n xs @ directs n ys"
  by (induction n xs rule: directs.induct) auto

definition direct_value :: "(go_type \<times> (string, string) gomap) list \<Rightarrow> (go_type \<times> (string, string) gomap) option" where
  "direct_value ds = (if ds = [] then None else Some (fst (hd ds), foldl mcopy [] (map snd ds)))"

lemma record_all_spec:
  "map_of (fst (record_all rs)) n = (if concretes n rs = [] then None else Some (last (concretes n rs)))
   \<and> map_of (snd (record_all rs)) n = direct_value (directs n rs) \<and> mok (snd (record_all rs))"
proof (induction rs rule: rev_induct)
  case (snoc x xs)
  obtain k r where x: "x = (k, r)" by (cases x)
  obtain typed direct where m: "record_all xs = (typed, direct)" by (cases "record_all xs")
  have step: "record_all (xs @ [x]) = record_resolved k r (typed, direct)"
    using m by (simp add: record_all_def x)
  show ?case
  proof (cases r)
    case (Direct t p)
    have c: "concretes n (xs @ [x]) = concretes n xs" by (simp add: concretes_def x Direct)
    have d: "directs n (xs @ [x]) = directs n xs @ (if k = n then [(t, p)] else [])"
      by (simp add: directs_append x Direct)
    show ?thesis
      using snoc unfolding step c d m record_resolved_def Direct
      by (cases "map_of direct k") (auto simp: direct_value_def split: if_splits)
  next
    case (Concrete c)
    then show ?thesis
      using snoc unfolding step m by (auto simp: record_resolved_def concretes_def directs_append x)
  qed
qed (simp add: record_all_def concretes_def direct_value_def)

lemma final_credentials_map:
  "mok direct \<Longrightarrow> map_of (final_credentials (typed, direct)) n =
     (case map_of typed n of
        Some c \<Rightarrow> Some c
      | None \<Rightarrow> map_option (\<lambda>(t, p). Direct t p) (map_of direct n))"
proof (induction direct arbitrary: typed)
  case (Cons d direct)
  obtain node t p where d: "d = (node, t, p)" by (metis surj_pair)
  let ?typed = "if map_of typed node = None then mput node (Direct t p) typed else typed"
  have "map_of direct node = None" using Cons.prems by (simp add: d map_of_eq_None_iff)
  moreover have "final_credentials (typed, d # direct) = final_credentials (?typed, direct)"
    by (simp add: final_credentials_def d)
  ultimately show ?case
    using Cons.IH [of ?typed] Cons.prems by (auto simp: d split: option.splits)
qed (simp add: final_credentials_def split: option.splits)

section \<open>Mutual matches\<close>

lemma add_edge_grows: "cred_ok g \<Longrightarrow> edge_rel g \<subseteq> edge_rel (fst (add_edge g u w as))"
  by (auto simp: cred_ok_def edge_rel_add_edge)

lemma add_match_edges_all:
  "cred_ok g \<Longrightarrow> add_match_edges gl i node vs g = (g', Ok ()) \<Longrightarrow>
     edge_rel g \<subseteq> edge_rel g' \<and> (\<forall>v \<in> set vs. \<forall>e. ID v \<noteq> node \<longrightarrow> vertex_identity v = Some e \<longrightarrow>
        (identity_match gl i e [] \<longrightarrow> (ID v, node) \<in> edge_rel g') \<and> (identity_match gl e i [] \<longrightarrow> (node, ID v) \<in> edge_rel g'))"
proof (induction vs arbitrary: g)
  case (Cons v vs)
  show ?case
  proof (cases "ID v = node \<or> vertex_identity v = None")
    case True
    then have "add_match_edges gl i node vs g = (g', Ok ())"
      using Cons.prems(2) by (auto split: if_splits)
    then show ?thesis using Cons.IH [OF Cons.prems(1)] True by auto
  next
    case False
    then obtain e where e: "vertex_identity v = Some e" "ID v \<noteq> node" by auto
    let ?r1 = "if identity_match gl i e [] then add_edge g (ID v) node [cyclic_only] else (g, Ok ())"
    obtain g1 o1 where r1: "?r1 = (g1, o1)" by (metis surj_pair)
    let ?r2 = "if identity_match gl e i [] then add_edge g1 node (ID v) [cyclic_only] else (g1, Ok ())"
    obtain g2 o2 where r2: "?r2 = (g2, o2)" by (metis surj_pair)
    have eq: "add_match_edges gl i node (v # vs) g =
        (case o1 of Ok _ \<Rightarrow> (case o2 of Ok _ \<Rightarrow> add_match_edges gl i node vs g2 | r \<Rightarrow> (g2, r)) | r \<Rightarrow> (g1, r))"
      by (simp only: add_match_edges.simps e if_False option.case r1 prod.case)
        (cases o1; simp only: outcome.case r2 prod.case; cases o2; simp only: outcome.case)
    then have oks: "o1 = Ok ()" "o2 = Ok ()" and rest: "add_match_edges gl i node vs g2 = (g', Ok ())"
      using Cons.prems(2) by (auto split: outcome.splits)
    have wf: "wf_dag g" using Cons.prems(1) by (simp add: cred_ok_def)
    have g1: "cred_ok g1" "edge_rel g \<subseteq> edge_rel g1" "identity_match gl i e [] \<longrightarrow> (ID v, node) \<in> edge_rel g1"
      using r1 cred_ok_add_edge [OF Cons.prems(1), of "ID v" node "[cyclic_only]"] Cons.prems(1)
        add_edge_grows [OF Cons.prems(1), of "ID v" node "[cyclic_only]"] add_edge_post(2) [OF wf, of "ID v" node "[cyclic_only]" g1] oks(1)
      by (auto split: if_splits)
    have wf1: "wf_dag g1" using g1(1) by (simp add: cred_ok_def)
    have g2: "cred_ok g2" "edge_rel g1 \<subseteq> edge_rel g2" "identity_match gl e i [] \<longrightarrow> (node, ID v) \<in> edge_rel g2"
      using r2 cred_ok_add_edge [OF g1(1), of node "ID v" "[cyclic_only]"] g1(1)
        add_edge_grows [OF g1(1), of node "ID v" "[cyclic_only]"] add_edge_post(2) [OF wf1, of node "ID v" "[cyclic_only]" g2] oks(2)
      by (auto split: if_splits)
    show ?thesis
      using Cons.IH [OF g2(1) rest] g1 g2 e by auto
  qed
qed simp

lemma mutual_match_refused:
  assumes "cred_ok g" and "get_vertex g k = Some v" and "vertex_identity v = Some j"
    and "identity_match gl i j []" and "identity_match gl j i []" and "\<not> contains_vertex g (identity_string i)"
  shows "snd (add_identity gl i g) \<noteq> Ok ()"
proof
  assume ok: "snd (add_identity gl i g) = Ok ()"
  let ?n = "identity_string i"
  let ?as = "[[(attribute_identity, AIdentity i)]] :: (string, 'a attr) gomap list"
  have none: "get_vertex g ?n = None" using assms(6) by (simp add: contains_vertex_def)
  then obtain h where h: "add_vertex g ?n ?as = (h, Ok ())" by (simp add: add_vertex_def)
  then have hok: "cred_ok h"
    using assms(1) wf_dag_add_vertex [of g ?n ?as] get_vertex_add_vertex [OF none, of ?as]
    by (auto simp: cred_ok_def vertex_identity_def split: if_splits)
  obtain g' where g': "add_match_edges gl i ?n (map snd (Vertices h)) h = (g', Ok ())"
    using ok assms(6) by (simp add: add_identity_def Let_def h prod_eq_iff)
  have vk: "get_vertex h k = Some v" and neq: "ID v \<noteq> ?n"
    using h get_vertex_add_vertex [OF none, of ?as k] assms(1,2) none by (auto simp: cred_ok_def wf_dag_iff)
  then have "v \<in> set (map snd (Vertices h))" by (force dest: map_of_SomeD)
  then have edges: "(ID v, ?n) \<in> edge_rel g'" "(?n, ID v) \<in> edge_rel g'"
    using add_match_edges_all [OF hok g'] neq assms(3-5) by auto
  moreover have "cred_ok g'"
    using add_match_edges_ok [OF hok, of gl i ?n "map snd (Vertices h)"] g' by simp
  ultimately show False
    using wf_dag_acyclic [of g'] by (auto simp: cred_ok_def acyclic_def dest: trancl_trans [OF r_into_trancl r_into_trancl])
qed


section \<open>What the first phase of the ingestion stores\<close>

lemma nodes_set_credentials [simp]: "nodes (set_credentials k c g) = nodes g"
  by (simp add: nodes_def set_credentials_def del: set_map)

lemma get_set_credentials:
  "get_credentials (set_credentials k c g) n = (if n = k \<and> k \<in> nodes g then c else get_credentials g n)"
  by (cases "get_vertex g k") (auto simp: get_credentials_def set_credentials_def nodes_iff split: option.splits)

lemma get_store_credentials:
  "mok m \<Longrightarrow> get_credentials (store_credentials m g) n =
     (case map_of m n of Some c \<Rightarrow> if n \<in> nodes g then Some c else get_credentials g n | None \<Rightarrow> get_credentials g n)"
proof (induction m arbitrary: g)
  case (Cons e m)
  obtain k c where e: "e = (k, c)" by (cases e)
  have none: "map_of m k = None" using Cons.prems by (simp add: e map_of_eq_None_iff)
  have "store_credentials (e # m) g = store_credentials m (set_credentials k (Some c) g)"
    by (simp add: store_credentials_def e)
  then show ?case
    using Cons.IH [of "set_credentials k (Some c) g"] Cons.prems none
    by (auto simp: e get_set_credentials split: option.splits)
qed (simp add: store_credentials_def)

lemma get_credentials_add_edge:
  assumes "cred_ok g"
  shows "get_credentials (fst (add_edge g u w as)) n = get_credentials g n"
proof -
  have eq: "map_option Attributes (get_vertex (fst (add_edge g u w as)) n) = map_option Attributes (get_vertex g n)"
    using assms by (intro add_edge_attributes) (simp add: cred_ok_def)
  have "get_credentials h n = (case map_option Attributes (get_vertex h n) of None \<Rightarrow> None
      | Some as \<Rightarrow> (case map_of as attribute_credentials of Some (ACredential c) \<Rightarrow> c | _ \<Rightarrow> None))"
    for h :: "'a cgraph"
    by (simp add: get_credentials_def split: option.splits)
  then show ?thesis using eq by metis
qed

lemma add_edge_nodes: "cred_ok g \<Longrightarrow> nodes (fst (add_edge g u w as)) = nodes g"
  by (simp add: cred_ok_def edge_rel_add_edge)

lemma add_match_edges_frame:
  "cred_ok g \<Longrightarrow> get_credentials (fst (add_match_edges gl i node vs g)) n = get_credentials g n
     \<and> nodes (fst (add_match_edges gl i node vs g)) = nodes g"
proof (induction vs arbitrary: g)
  case (Cons v vs)
  have guarded: "cred_ok h' \<and> get_credentials h' n = get_credentials h n \<and> nodes h' = nodes h"
    if "(if b then add_edge h u w as else (h, Ok ())) = (h', o1)" "cred_ok h" for h h' :: "'a cgraph" and b u w as o1
    using that cred_ok_add_edge [of h u w as] get_credentials_add_edge [of h u w as n] add_edge_nodes [of h u w as]
    by (auto split: if_splits)
  show ?case
  proof (cases "vertex_identity v")
    case (Some e)
    obtain g1 o1 where r1: "(if identity_match gl i e [] then add_edge g (ID v) node [cyclic_only] else (g, Ok ())) = (g1, o1)"
      by (metis surj_pair)
    obtain g2 o2 where r2: "(if identity_match gl e i [] then add_edge g1 node (ID v) [cyclic_only] else (g1, Ok ())) = (g2, o2)"
      by (metis surj_pair)
    note g1 = guarded [OF r1 Cons.prems]
    note g2 = guarded [OF r2 g1 [THEN conjunct1]]
    show ?thesis
    proof (cases "ID v = node")
      case False
      have "add_match_edges gl i node (v # vs) g =
          (case o1 of Ok _ \<Rightarrow> (case o2 of Ok _ \<Rightarrow> add_match_edges gl i node vs g2 | r \<Rightarrow> (g2, r)) | r \<Rightarrow> (g1, r))"
        by (simp only: add_match_edges.simps Some False if_False option.case r1 prod.case)
          (cases o1; simp only: outcome.case r2 prod.case; cases o2; simp only: outcome.case)
      then show ?thesis
        using Cons.IH [of g2] g1 g2 by (cases o1; cases o2) simp_all
    qed (use Cons in simp)
  qed (use Cons in auto)
qed simp

lemma add_identity_frame:
  assumes "cred_ok g"
  shows "get_credentials (fst (add_identity gl i g)) n = get_credentials g n"
    and "nodes (fst (add_identity gl i g)) = insert (identity_string i) (nodes g)"
proof -
  let ?n = "identity_string i"
  let ?as = "[[(attribute_identity, AIdentity i)]] :: (string, 'a attr) gomap list"
  have "get_credentials (fst (add_identity gl i g)) n = get_credentials g n
      \<and> nodes (fst (add_identity gl i g)) = insert ?n (nodes g)"
  proof (cases "get_vertex g ?n")
    case None
    then obtain h where h: "add_vertex g ?n ?as = (h, Ok ())" by (simp add: add_vertex_def)
    note gv = get_vertex_add_vertex [OF None, of ?as, unfolded h fst_conv]
    have hok: "cred_ok h"
      using assms wf_dag_add_vertex [of g ?n ?as] by (auto simp: cred_ok_def vertex_identity_def gv h split: if_splits)
    have "get_credentials h n = get_credentials g n"
      using None by (auto simp: get_credentials_def gv attribute_identity_def attribute_credentials_def)
    moreover have "nodes h = insert ?n (nodes g)"
      using add_vertex_nodes [of g ?n ?as] by (simp add: h)
    moreover have "add_identity gl i g = add_match_edges gl i ?n (map snd (Vertices h)) h"
      using None by (simp add: add_identity_def contains_vertex_def Let_def h)
    ultimately show ?thesis
      using add_match_edges_frame [OF hok, of gl i ?n "map snd (Vertices h)" n] by simp
  next
    case (Some v)
    then have "?n \<in> nodes g" by (simp add: nodes_iff)
    with Some show ?thesis by (auto simp: add_identity_def contains_vertex_def)
  qed
  then show "get_credentials (fst (add_identity gl i g)) n = get_credentials g n"
    and "nodes (fst (add_identity gl i g)) = insert ?n (nodes g)" by simp_all
qed

text \<open>What the configuration resolves without plugins, in order.\<close>

definition recorded :: "('w, 'c) cred_env \<Rightarrow> 'w consumer list \<Rightarrow> (string \<times> 'c credential) list" where
  "recorded env cs = concat (map (\<lambda>c. case extract_resolvable env (credentials c) of
      Ok (Some r, _) \<Rightarrow> map (\<lambda>i. (identity_string (prepared_identity env i), r)) (identities c)
    | _ \<Rightarrow> []) cs)"

abbreviation record_list :: "'c per_identity \<Rightarrow> (string \<times> 'c credential) list \<Rightarrow> 'c per_identity" where
  "record_list m rs \<equiv> foldl (\<lambda>m (node, r). record_resolved node r m) m rs"

lemma direct_identities_spec:
  "cred_ok g \<Longrightarrow> direct_identities env r ids (g, m) = ((g', m'), Ok u) \<Longrightarrow>
     m' = record_list m (map (\<lambda>i. (identity_string (prepared_identity env i), r)) ids)
   \<and> cred_ok g' \<and> get_credentials g' n = get_credentials g n
   \<and> nodes g' = nodes g \<union> (identity_string \<circ> prepared_identity env) ` set ids"
proof (induction ids arbitrary: g m)
  case (Cons i ids)
  let ?i = "prepared_identity env i"
  obtain g1 o1 where s1: "add_identity (globs env) ?i g = (g1, o1)" by (metis surj_pair)
  then have ok: "cred_ok g1" "get_credentials g1 n = get_credentials g n" "nodes g1 = insert (identity_string ?i) (nodes g)"
    using add_identity_ok [OF Cons.prems(1), of "globs env" ?i] add_identity_frame [OF Cons.prems(1), of "globs env" ?i]
    by simp_all
  obtain u1 where "o1 = Ok u1" using Cons.prems(2) by (cases o1) (simp_all add: s1 Let_def)
  then show ?case
    using Cons.IH [OF ok(1)] Cons.prems(2) ok by (auto simp: s1 Let_def)
qed simp

lemma direct_consumers_spec:
  "cred_ok g \<Longrightarrow> direct_consumers env cs (g, m) acc = ((g', m'), Ok left) \<Longrightarrow>
     m' = record_list m (recorded env cs) \<and> get_credentials g' n = get_credentials g n
   \<and> nodes g' = nodes g \<union> fst ` set (recorded env cs)"
proof (induction cs arbitrary: g m acc)
  case (Cons c cs)
  obtain resolved remaining where p: "extract_resolvable env (credentials c) = Ok (resolved, remaining)"
    using Cons.prems(2) by (cases "extract_resolvable env (credentials c)") auto
  let ?acc = "if remaining \<noteq> [] then acc @ [c\<lparr>credentials := remaining\<rparr>] else acc"
  show ?case
  proof (cases resolved)
    case None
    then show ?thesis
      using Cons.IH [OF Cons.prems(1), of m ?acc] Cons.prems(2) by (auto simp: p recorded_def Let_def)
  next
    case (Some r)
    obtain g1 m1 o1 where s: "direct_identities env r (identities c) (g, m) = ((g1, m1), o1)"
      by (metis surj_pair)
    then obtain u where u: "o1 = Ok u" using Cons.prems(2) by (cases o1) (simp_all add: p Some Let_def)
    note d = direct_identities_spec [OF Cons.prems(1) s [unfolded u], of n]
    have "direct_consumers env cs (g1, m1) ?acc = ((g', m'), Ok left)"
      using Cons.prems(2) by (simp add: p Some s u Let_def)
    then show ?thesis
      using Cons.IH [of g1 m1 ?acc] d by (auto simp: recorded_def p Some image_Un image_comp comp_def)
  qed
qed (simp add: recorded_def)

lemma mok_final_credentials: "mok typed \<Longrightarrow> mok (final_credentials (typed, direct))"
proof -
  have "mok typed \<Longrightarrow> mok (foldl (\<lambda>acc (node, t, p). if map_of acc node = None then mput node (Direct t p) acc else acc) typed direct)"
    by (induction direct arbitrary: typed) (auto split: prod.splits)
  then show "mok typed \<Longrightarrow> mok (final_credentials (typed, direct))" by (simp add: final_credentials_def)
qed

lemma mok_record_all: "mok (fst (record_all rs))"
proof (induction rs rule: rev_induct)
  case (snoc x xs)
  obtain k r where x: "x = (k, r)" by (cases x)
  obtain typed direct where m: "record_all xs = (typed, direct)" by (cases "record_all xs")
  have "record_all (xs @ [x]) = record_resolved k r (typed, direct)"
    using m by (simp add: record_all_def x)
  then show ?case
    using snoc m by (cases r) (auto simp: record_resolved_def split: option.splits)
qed (simp add: record_all_def)

lemma concretes_keys: "n \<notin> fst ` set rs \<Longrightarrow> concretes n rs = [] \<and> directs n rs = []"
  by (induction n rs rule: directs.induct) (auto simp: concretes_def)

section \<open>A small configuration\<close>

text \<open>Raw credentials are numbers: 1 decodes to direct credentials, 2 needs the plugin \<open>vault\<close>.\<close>

definition vault :: identity where
  "vault = [(''hostname'', ''vault''), (''type'', ''Vault'')]"

definition ghcr :: identity where
  "ghcr = [(''hostname'', ''ghcr.io''), (''scheme'', ''https''), (''type'', ''OCI'')]"

definition ghcr_443 :: identity where
  "ghcr_443 = [(''hostname'', ''ghcr.io''), (''port'', ''443''), (''scheme'', ''https''), (''type'', ''OCI'')]"

definition password :: "string credential" where
  "password = Direct \<lparr>Version = ''v1'', Name = ''Credentials''\<rparr> [(''password'', ''x'')]"

definition small_env :: "(nat, string) cred_env" where
  "small_env = \<lparr>globs = \<lambda>_. None, consumer_scheme = None, cred_scheme = None,
     raw_type = \<lambda>_. \<lparr>Version = ''v1'', Name = ''Credentials''\<rparr>, decode_typed = \<lambda>_. None,
     decode_direct = \<lambda>w. if w = 1 then Some (\<lparr>Version = ''v1'', Name = ''Credentials''\<rparr>, [(''password'', ''x'')]) else None,
     cred_identity = \<lambda>_. Some vault, cred_plugin = \<lambda>_. Some (\<lambda>_ _. Some (Some (Concrete ''token''))),
     fields_of = \<lambda>_. None, decode_repo = \<lambda>_. None, repo_plugin = None\<rparr>"

definition small_config :: "nat cred_config" where
  "small_config = \<lparr>consumers = [\<lparr>identities = [ghcr], credentials = [1]\<rparr>,
     \<lparr>identities = [[(''hostname'', ''quay.io''), (''type'', ''OCI'')]], credentials = [2]\<rparr>], repositories = []\<rparr>"

definition small_graph :: "(nat, string) cred_graph" where
  "small_graph = (case to_graph small_env small_config of Ok s \<Rightarrow> s | _ \<Rightarrow> \<lparr>cdag = new_dag, repository_configurations = []\<rparr>)"

lemma small_graph_ok: "to_graph small_env small_config = Ok small_graph"
proof -
  have "case to_graph small_env small_config of Ok s \<Rightarrow> True | _ \<Rightarrow> False" by code_simp
  then show ?thesis by (auto simp: small_graph_def split: outcome.splits)
qed

section \<open>Properties\<close>



text \<open>C8: resolution from a graph that was built terminates: one level of recursion per vertex is
  enough, more changes nothing, there is no panic, and the graph keeps its invariant and, but for
  the credentials cached in them, its vertices, in their order, with their identities, edges, edge
  attributes and degrees.\<close>

theorem resolve_total:
  assumes "to_graph env config = Ok s" and "length (Vertices (cdag s)) < fuel"
  shows "resolve_fuel env fuel i (cdag s) =
      (fst (resolve_from_graph env i (cdag s)), Some (snd (resolve_from_graph env i (cdag s))))
    \<and> snd (resolve_from_graph env i (cdag s)) \<noteq> Panic \<and> cred_ok (fst (resolve_from_graph env i (cdag s)))
    \<and> mkeys (Vertices (fst (resolve_from_graph env i (cdag s)))) = mkeys (Vertices (cdag s))
    \<and> skeleton (fst (resolve_from_graph env i (cdag s))) = skeleton (cdag s)
    \<and> edge_rel (fst (resolve_from_graph env i (cdag s))) = edge_rel (cdag s)"
proof -
  obtain g r where ing: "ingest env config \<lparr>cdag = new_dag, repository_configurations = []\<rparr> = (g, r)"
    by (metis surj_pair)
  then have ok: "cred_ok (cdag s)"
    using ingest_ok [of "\<lparr>cdag = new_dag, repository_configurations = []\<rparr>" env config] assms(1)
    by (auto simp: cred_ok_new to_graph_def split: outcome.splits)
  note eq = resolve_fuel_enough [OF ok assms(2), of env i]
  note sk = resolve_from_graph_skeleton [of env i "cdag s"]
  have "snd (resolve_from_graph env i (cdag s)) \<noteq> Panic"
    using eq resolve_fuel_no_panic [of env fuel i "cdag s"] by auto
  then show ?thesis
    using eq cred_ok_skeleton [OF sk [symmetric] ok] skeleton_edge_rel [OF sk] skeleton_keys [OF sk] sk by auto
qed

theorem resolve_total_witness:
  "\<exists>g r. resolve_fuel small_env 4 ghcr (cdag small_graph) = (g, Some r) \<and> r \<noteq> Panic"
proof -
  have "length (Vertices (cdag small_graph)) < 4" by code_simp
  then show ?thesis
    using resolve_total [OF small_graph_ok, of 4 ghcr] by auto
qed

text \<open>after the first phase of the ingestion every vertex carries exactly the credential that the
  configuration gives its identity: the last typed credential wins; without one, the direct
  credentials of the identity are merged in the order of the configuration, later properties
  overriding earlier ones; other vertices carry none.\<close>

theorem credential_precedence:
  assumes "process_direct_credentials env config new_dag = (g, Ok left)"
  shows "get_credentials g n =
     (let rs = recorded env (consumers config) in
      if concretes n rs \<noteq> [] then Some (last (concretes n rs))
      else map_option (\<lambda>(t, p). Direct t p) (direct_value (directs n rs)))"
proof -
  let ?rs = "recorded env (consumers config)"
  obtain h m o1 where c: "direct_consumers env (consumers config) (new_dag, [], []) [] = ((h, m), o1)"
    by (metis surj_pair)
  then have o1: "o1 = Ok left" and g: "g = store_credentials (final_credentials m) h"
    using assms by (cases o1; simp add: process_direct_credentials_def)+
  note d = direct_consumers_spec [OF cred_ok_new c [unfolded o1], of n]
  have m: "m = record_all ?rs" using d by (simp add: record_all_def)
  obtain typed direct where td: "record_all ?rs = (typed, direct)" by (cases "record_all ?rs")
  have spec: "map_of typed n = (if concretes n ?rs = [] then None else Some (last (concretes n ?rs)))"
    "map_of direct n = direct_value (directs n ?rs)" "mok direct" "mok typed"
    using record_all_spec [of ?rs n] mok_record_all [of ?rs] by (simp_all add: td)
  have "get_credentials h n = None" and nh: "nodes h = fst ` set ?rs"
    using d by (simp_all add: get_credentials_def new_dag_def nodes_def)
  moreover have "n \<in> nodes h" if "concretes n ?rs \<noteq> [] \<or> directs n ?rs \<noteq> []"
    using that concretes_keys [of n ?rs] unfolding nh by blast
  ultimately show ?thesis
    using get_store_credentials [OF mok_final_credentials [OF spec(4)], of direct h n]
      final_credentials_map [OF spec(3), of typed n] spec(1,2)
    by (auto simp: g m td Let_def direct_value_def split: if_splits)
qed

theorem credential_precedence_witness:
  "\<exists>g left. process_direct_credentials small_env small_config new_dag = (g, Ok left)
     \<and> get_credentials g (identity_string ghcr) = Some password"
proof -
  have "case snd (process_direct_credentials small_env small_config new_dag) of Ok _ \<Rightarrow> True | _ \<Rightarrow> False"
    by code_simp
  then obtain g left where g: "process_direct_credentials small_env small_config new_dag = (g, Ok left)"
    by (cases "process_direct_credentials small_env small_config new_dag") (auto split: outcome.splits)
  have "recorded small_env (consumers small_config) = [(identity_string ghcr, password)]" by code_simp
  then show ?thesis
    using credential_precedence [OF g, of "identity_string ghcr"] g
    by (auto simp: concretes_def direct_value_def password_def)
qed

text \<open>an identity that matches a vertex of the graph in both directions without having the same
  string (the same endpoint with and without its default port, say) cannot be added: the two
  edges close a cycle, so a configuration with both spellings is refused.\<close>

theorem mutual_match_is_refused:
  assumes "cred_ok g" and "get_vertex g k = Some v" and "vertex_identity v = Some j"
    and "identity_match gl i j []" and "identity_match gl j i []" and "\<not> contains_vertex g (identity_string i)"
  shows "snd (add_identity gl i g) \<noteq> Ok ()"
  using assms by (rule mutual_match_refused)

theorem mutual_match_is_refused_witness:
  "snd (add_identity (\<lambda>_. None) ghcr_443 (fst (add_identity (\<lambda>_. None) ghcr (new_dag :: string cgraph)))) \<noteq> Ok ()"
proof -
  let ?g = "fst (add_identity (\<lambda>_. None) ghcr (new_dag :: string cgraph))"
  have ok: "cred_ok ?g"
    by (rule add_identity_ok [OF cred_ok_new, THEN conjunct1])
  have "map_option vertex_identity (get_vertex ?g (identity_string ghcr)) = Some (Some ghcr)" by code_simp
  then obtain v where "get_vertex ?g (identity_string ghcr) = Some v" "vertex_identity v = Some ghcr" by auto
  moreover have "identity_match (\<lambda>_. None) ghcr_443 ghcr []" "identity_match (\<lambda>_. None) ghcr ghcr_443 []"
    by code_simp+
  moreover have "\<not> contains_vertex ?g (identity_string ghcr_443)" by code_simp
  ultimately show ?thesis by (rule mutual_match_is_refused [OF ok])
qed

text \<open>resolving an identity that the graph knows but has no credentials for returns a nil
  credential without an error, where the documentation promises \<open>ErrNoDirectCredentials\<close>; the
  repository plugins are not asked either.\<close>

theorem resolves_to_nil:
  "snd (resolve_credentials small_env [] vault (cdag small_graph)) = Ok None
   \<and> snd (resolve_credentials small_env [] ghcr (cdag small_graph)) = Ok (Some password)"
  by code_simp


end
