(* ===== verification/Versioning.thy ===== *)
theory Versioning
  imports Go_Strings "HOL-Library.Multiset"
begin

text \<open>
  Version schemes and their registry: \<open>bindings/go/runtime/versioning/versioning.go\<close> and the
  configuration of \<open>bindings/go/configuration/versioning/v1alpha1/spec/config.go\<close>.

  The semver library is the parameter \<open>semver\<close>. A compiled regular expression is what the
  code uses of it, its capture-group names and the submatches it finds; the patterns of the
  built-in schemes are modelled concretely as separated groups of digits.
\<close>

section \<open>Schemes\<close>

record 'v semver =
  new_version :: "string \<Rightarrow> 'v option"
  compare_versions :: "'v \<Rightarrow> 'v \<Rightarrow> int"
  new_constraint :: "string \<Rightarrow> ('v \<Rightarrow> bool) option"

record pattern =
  subexp_names :: "string list"
  find_submatch :: "string \<Rightarrow> string list option"

datatype vscheme = LooseSemver | RegexScheme string pattern "string list"

datatype version_error =
    NotParsed string
  | NotClaimed string string
  | MalformedConstraint
  | NotApplicable string string
  | NoOperand string

definition match_string :: "pattern \<Rightarrow> string \<Rightarrow> bool" where
  "match_string p v \<longleftrightarrow> find_submatch p v \<noteq> None"

text \<open>The three-valued comparison of \<open>cmp.Compare\<close>, \<open>strings.Compare\<close> and \<open>big.Int.Cmp\<close>.\<close>

definition cmp3 :: "'a::linorder \<Rightarrow> 'a \<Rightarrow> int" where
  "cmp3 a b = (if a < b then -1 else if a = b then 0 else 1)"

text \<open>\<open>big.Int.SetString(s, 10)\<close>: an optional sign and at least one digit.\<close>

definition is_digit :: "char \<Rightarrow> bool" where
  "is_digit c \<longleftrightarrow> 48 \<le> (of_char c :: nat) \<and> (of_char c :: nat) \<le> 57"

definition parse_digits :: "string \<Rightarrow> int option" where
  "parse_digits s =
     (if s \<noteq> [] \<and> list_all is_digit s then Some (foldl (\<lambda>n c. 10 * n + (of_char c - 48)) 0 s) else None)"

definition parse_int :: "string \<Rightarrow> int option" where
  "parse_int s =
     (case s of
        [] \<Rightarrow> None
      | c # cs \<Rightarrow> if c = CHR ''-'' then map_option uminus (parse_digits cs)
                  else if c = CHR ''+'' then parse_digits cs
                  else parse_digits s)"

definition compare_group :: "string \<Rightarrow> string \<Rightarrow> int" where
  "compare_group a b =
     (case (parse_int a, parse_int b) of
        (Some na, Some nb) \<Rightarrow> cmp3 na nb
      | (Some _, None) \<Rightarrow> -1
      | (None, Some _) \<Rightarrow> 1
      | (None, None) \<Rightarrow> cmp3 a b)"

text \<open>\<open>groups\<close>: the named submatches; a later group of the same name overwrites.\<close>

definition groups :: "pattern \<Rightarrow> string \<Rightarrow> (string, string) gomap" where
  "groups p version =
     (case find_submatch p version of
        None \<Rightarrow> []
      | Some match \<Rightarrow>
          foldl (\<lambda>out (name, v). if name = [] then out else mput name v out) [] (zip (subexp_names p) match))"

definition group_value :: "(string, string) gomap \<Rightarrow> string \<Rightarrow> string" where
  "group_value g name = (case map_of g name of None \<Rightarrow> [] | Some v \<Rightarrow> v)"

fun compare_groups :: "string list \<Rightarrow> (string, string) gomap \<Rightarrow> (string, string) gomap \<Rightarrow> int" where
  "compare_groups [] ga gb = 0"
| "compare_groups (name # names) ga gb =
     (let c = compare_group (group_value ga name) (group_value gb name)
      in if c \<noteq> 0 then c else compare_groups names ga gb)"

definition regex_compare :: "string \<Rightarrow> pattern \<Rightarrow> string list \<Rightarrow> string \<Rightarrow> string \<Rightarrow> (version_error, int) outcome" where
  "regex_compare name p comparison_groups a b =
     (if \<not> match_string p a then Fail (NotClaimed a name)
      else if \<not> match_string p b then Fail (NotClaimed b name)
      else if comparison_groups = [] then Ok (cmp3 a b)
      else Ok (compare_groups comparison_groups (groups p a) (groups p b)))"

section \<open>Constraints of regex schemes\<close>

definition constraint_operators :: "string list" where
  "constraint_operators = [''>='', ''<='', ''!='', ''=='', ''='', ''>'', ''<'']"

type_synonym constraint_term = "string \<times> string"

definition blank :: "char \<Rightarrow> bool" where
  "blank c \<longleftrightarrow> c \<in> {CHR '' '', CHR 0x09, CHR 0x0A, CHR 0x0D}"

fun leading_operator :: "string list \<Rightarrow> string \<Rightarrow> string" where
  "leading_operator [] rest = []"
| "leading_operator (candidate # cs) rest = (if has_prefix rest candidate then candidate else leading_operator cs rest)"

lemma leading_operator_length: "length (leading_operator ops rest) \<le> length rest"
  by (induction ops rest rule: leading_operator.induct) (auto simp: has_prefix_iff)

function parse_chunk :: "string \<Rightarrow> constraint_term list \<Rightarrow> (version_error, constraint_term list) outcome" where
  "parse_chunk rest terms =
     (if rest = [] then Ok terms
      else
        let op = leading_operator constraint_operators rest;
            after = dropWhile blank (drop (length op) rest);
            operand = takeWhile (\<lambda>c. \<not> blank c) after;
            rest' = dropWhile blank (dropWhile (\<lambda>c. \<not> blank c) after)
        in if operand = [] then (if op \<noteq> [] then Fail (NoOperand op) else parse_chunk rest' terms)
           else parse_chunk rest' (terms @ [(if op = [] then ''='' else op, operand)]))"
  by pat_completeness auto
termination
proof (relation "measure (\<lambda>(rest, _). length rest)", goal_cases)
  case (2 rest terms op after operand rest')
  have "after = []"
    using 2 by (metis dropWhile_eq_Nil_conv hd_dropWhile list.exhaust_sel takeWhile_eq_Nil_iff)
  moreover have "rest' = dropWhile blank (dropWhile (\<lambda>c. \<not> blank c) after)"
    using 2 by simp
  ultimately have "rest' = []" by simp
  then show ?case using 2(1) by simp
next
  case (3 rest terms op after operand rest')
  have "length after \<le> length rest"
    using 3 length_dropWhile_le [of blank "drop (length op) rest"] by simp
  moreover have "length rest' \<le> length (dropWhile (\<lambda>c. \<not> blank c) after)"
    using 3 by (simp add: length_dropWhile_le)
  moreover have "length after = length operand + length (dropWhile (\<lambda>c. \<not> blank c) after)"
    using 3 by (metis length_append takeWhile_dropWhile_id)
  moreover have "0 < length operand" using 3(6) by simp
  ultimately have "length rest' < length rest" by linarith
  then show ?case by simp
qed simp

declare parse_chunk.simps [simp del]

fun parse_chunks :: "string list \<Rightarrow> constraint_term list \<Rightarrow> (version_error, constraint_term list) outcome" where
  "parse_chunks [] terms = Ok terms"
| "parse_chunks (chunk # chunks) terms =
     bind_outcome (parse_chunk (trim_space chunk) terms) (parse_chunks chunks)"

definition parse_constraint_terms :: "string \<Rightarrow> (version_error, constraint_term list) outcome" where
  "parse_constraint_terms c = parse_chunks (split_at CHR '','' c) []"

definition satisfies_op :: "string \<Rightarrow> int \<Rightarrow> bool" where
  "satisfies_op op c =
     (if op = ''>='' then 0 \<le> c
      else if op = ''>'' then 0 < c
      else if op = ''<='' then c \<le> 0
      else if op = ''<'' then c < 0
      else if op = ''!='' then c \<noteq> 0
      else c = 0)"

fun check_operands :: "string \<Rightarrow> pattern \<Rightarrow> constraint_term list \<Rightarrow> (version_error, unit) outcome" where
  "check_operands name p [] = Ok ()"
| "check_operands name p ((op, operand) # ts) =
     (if \<not> match_string p operand then Fail (NotApplicable name operand) else check_operands name p ts)"

definition regex_validate :: "string \<Rightarrow> pattern \<Rightarrow> string \<Rightarrow> (version_error, unit) outcome" where
  "regex_validate name p constraint =
     (if constraint = [] then Ok ()
      else bind_outcome (parse_constraint_terms constraint) (check_operands name p))"

fun all_terms :: "string \<Rightarrow> pattern \<Rightarrow> string list \<Rightarrow> string \<Rightarrow> constraint_term list \<Rightarrow> (version_error, bool) outcome" where
  "all_terms name p cg version [] = Ok True"
| "all_terms name p cg version ((op, operand) # ts) =
     bind_outcome (regex_compare name p cg version operand)
       (\<lambda>c. if \<not> satisfies_op op c then Ok False else all_terms name p cg version ts)"

definition regex_satisfies ::
    "string \<Rightarrow> pattern \<Rightarrow> string list \<Rightarrow> string \<Rightarrow> string \<Rightarrow> (version_error, bool) outcome" where
  "regex_satisfies name p cg version constraint =
     (if constraint = [] then Ok True
      else if \<not> match_string p version then Fail (NotClaimed version name)
      else bind_outcome (regex_validate name p constraint)
        (\<lambda>_. bind_outcome (parse_constraint_terms constraint) (all_terms name p cg version)))"

section \<open>The scheme interface\<close>

definition semver_compare :: "'v semver \<Rightarrow> string \<Rightarrow> string \<Rightarrow> (version_error, int) outcome" where
  "semver_compare sv a b =
     (case new_version sv a of
        None \<Rightarrow> Fail (NotParsed a)
      | Some va \<Rightarrow> (case new_version sv b of
                     None \<Rightarrow> Fail (NotParsed b)
                   | Some vb \<Rightarrow> Ok (compare_versions sv va vb)))"

definition semver_satisfies :: "'v semver \<Rightarrow> string \<Rightarrow> string \<Rightarrow> (version_error, bool) outcome" where
  "semver_satisfies sv version constraint =
     (if constraint = [] then Ok True
      else (case new_constraint sv constraint of
              None \<Rightarrow> Fail MalformedConstraint
            | Some check \<Rightarrow> (case new_version sv version of
                              None \<Rightarrow> Ok False
                            | Some v \<Rightarrow> Ok (check v))))"

definition semver_validate :: "'v semver \<Rightarrow> string \<Rightarrow> (version_error, unit) outcome" where
  "semver_validate sv constraint =
     (if constraint = [] then Ok ()
      else if new_constraint sv constraint = None then Fail MalformedConstraint else Ok ())"

fun scheme_matches :: "'v semver \<Rightarrow> vscheme \<Rightarrow> string \<Rightarrow> bool" where
  "scheme_matches sv LooseSemver v = (new_version sv v \<noteq> None)"
| "scheme_matches sv (RegexScheme name p cg) v = match_string p v"

definition scheme_valid :: "'v semver \<Rightarrow> vscheme \<Rightarrow> string \<Rightarrow> bool" where
  "scheme_valid sv s v = scheme_matches sv s v"

fun scheme_compare :: "'v semver \<Rightarrow> vscheme \<Rightarrow> string \<Rightarrow> string \<Rightarrow> (version_error, int) outcome" where
  "scheme_compare sv LooseSemver a b = semver_compare sv a b"
| "scheme_compare sv (RegexScheme name p cg) a b = regex_compare name p cg a b"

fun scheme_satisfies :: "'v semver \<Rightarrow> vscheme \<Rightarrow> string \<Rightarrow> string \<Rightarrow> (version_error, bool) outcome" where
  "scheme_satisfies sv LooseSemver v c = semver_satisfies sv v c"
| "scheme_satisfies sv (RegexScheme name p cg) v c = regex_satisfies name p cg v c"

fun scheme_validate :: "'v semver \<Rightarrow> vscheme \<Rightarrow> string \<Rightarrow> (version_error, unit) outcome" where
  "scheme_validate sv LooseSemver c = semver_validate sv c"
| "scheme_validate sv (RegexScheme name p cg) c = regex_validate name p c"

section \<open>The registry\<close>

type_synonym registry = "vscheme list"

definition default_registry :: registry where
  "default_registry = [LooseSemver]"

fun rank_for :: "'v semver \<Rightarrow> registry \<Rightarrow> string \<Rightarrow> nat \<times> vscheme option" where
  "rank_for sv [] v = (0, None)"
| "rank_for sv (s # r) v =
     (if scheme_matches sv s v then (0, Some s)
      else (case rank_for sv r v of (i, t) \<Rightarrow> (Suc i, t)))"

definition scheme_for :: "'v semver \<Rightarrow> registry \<Rightarrow> string \<Rightarrow> vscheme option" where
  "scheme_for sv r v = find (\<lambda>s. scheme_matches sv s v) r"

definition registry_compare :: "'v semver \<Rightarrow> registry \<Rightarrow> string \<Rightarrow> string \<Rightarrow> (version_error, int) outcome" where
  "registry_compare sv r a b =
     (case rank_for sv r a of (ra, sa) \<Rightarrow>
      (case rank_for sv r b of (rb, sb) \<Rightarrow>
         if ra \<noteq> rb then Ok (cmp3 rb ra)
         else (case sa of None \<Rightarrow> Ok (cmp3 a b) | Some s \<Rightarrow> scheme_compare sv s a b)))"

fun registry_valid :: "'v semver \<Rightarrow> registry \<Rightarrow> string \<Rightarrow> bool" where
  "registry_valid sv [] v = False"
| "registry_valid sv (s # r) v = (if scheme_matches sv s v then scheme_valid sv s v else registry_valid sv r v)"

fun collect_malformed :: "'v semver \<Rightarrow> registry \<Rightarrow> string \<Rightarrow> version_error list \<Rightarrow> (version_error list, unit) outcome" where
  "collect_malformed sv [] c errs = (if errs = [] then Ok () else Fail errs)"
| "collect_malformed sv (s # r) c errs =
     (case scheme_validate sv s c of
        Ok _ \<Rightarrow> Ok ()
      | Fail (NotApplicable n v) \<Rightarrow> collect_malformed sv r c errs
      | Fail e \<Rightarrow> collect_malformed sv r c (errs @ [e])
      | Panic \<Rightarrow> Panic)"

definition validate_constraint :: "'v semver \<Rightarrow> registry \<Rightarrow> string \<Rightarrow> (version_error list, unit) outcome" where
  "validate_constraint sv r c = (if c = [] then Ok () else collect_malformed sv r c [])"

fun keeps :: "'v semver \<Rightarrow> registry \<Rightarrow> string \<Rightarrow> string \<Rightarrow> bool" where
  "keeps sv r c v =
     (case scheme_for sv r v of
        None \<Rightarrow> True
      | Some s \<Rightarrow> (case scheme_satisfies sv s v c of Ok b \<Rightarrow> b | _ \<Rightarrow> True))"

definition filter_versions :: "'v semver \<Rightarrow> registry \<Rightarrow> string list \<Rightarrow> string \<Rightarrow> (version_error list, string list) outcome" where
  "filter_versions sv r versions c =
     (if c = [] then Ok versions
      else bind_outcome (validate_constraint sv r c) (\<lambda>_. Ok (filter (keeps sv r c) versions)))"

definition registry_satisfies :: "'v semver \<Rightarrow> registry \<Rightarrow> string \<Rightarrow> string \<Rightarrow> (version_error list, bool) outcome" where
  "registry_satisfies sv r v c =
     (if c = [] then Ok True
      else bind_outcome (validate_constraint sv r c)
        (\<lambda>_. case scheme_for sv r v of
               None \<Rightarrow> Ok False
             | Some s \<Rightarrow> (case scheme_satisfies sv s v c of Ok b \<Rightarrow> Ok b | _ \<Rightarrow> Ok False)))"

text \<open>
  \<open>sort.SliceStable\<close> is an insertion sort on short slices; on longer ones it merges sorted
  blocks, with the same result whenever the comparison is a weak order. The comparison stops
  at the first error, which the sort returns. \<open>insert_desc\<close> moves an element towards the front
  past the elements it is greater than; the sorted prefix is kept in reverse.
\<close>

fun insert_desc :: "'v semver \<Rightarrow> registry \<Rightarrow> string \<Rightarrow> string list \<Rightarrow> version_error option
    \<Rightarrow> string list \<times> version_error option" where
  "insert_desc sv r x [] err = ([x], err)"
| "insert_desc sv r x (y # ys) err =
     (if err \<noteq> None then (x # y # ys, err)
      else (case registry_compare sv r x y of
              Ok c \<Rightarrow> if 0 < c then (case insert_desc sv r x ys err of (zs, e) \<Rightarrow> (y # zs, e))
                      else (x # y # ys, err)
            | Fail e \<Rightarrow> (x # y # ys, Some e)
            | Panic \<Rightarrow> (x # y # ys, err)))"

fun sort_loop :: "'v semver \<Rightarrow> registry \<Rightarrow> string list \<Rightarrow> string list \<Rightarrow> version_error option
    \<Rightarrow> string list \<times> version_error option" where
  "sort_loop sv r done_rev [] err = (rev done_rev, err)"
| "sort_loop sv r done_rev (x # xs) err =
     (case insert_desc sv r x done_rev err of (d, e) \<Rightarrow> sort_loop sv r d xs e)"

definition sort_descending :: "'v semver \<Rightarrow> registry \<Rightarrow> string list \<Rightarrow> string list \<times> (version_error, unit) outcome" where
  "sort_descending sv r versions =
     (case sort_loop sv r [] versions None of
        (vs, None) \<Rightarrow> (vs, Ok ())
      | (vs, Some e) \<Rightarrow> (vs, Fail e))"

section \<open>Built-in schemes and the configuration\<close>

text \<open>The pattern of digit groups with the given names, minimal and maximal lengths.\<close>

fun fields_match :: "(string \<times> nat \<times> nat option) list \<Rightarrow> string list \<Rightarrow> bool" where
  "fields_match [] [] = True"
| "fields_match ((_, lo, hi) # fs) (part # parts) =
     (list_all is_digit part \<and> lo \<le> length part \<and> (case hi of None \<Rightarrow> True | Some h \<Rightarrow> length part \<le> h)
      \<and> fields_match fs parts)"
| "fields_match _ _ = False"

definition digit_pattern :: "char \<Rightarrow> (string \<times> nat \<times> nat option) list \<Rightarrow> pattern" where
  "digit_pattern sep fs =
     \<lparr>subexp_names = [] # map fst fs,
      find_submatch = (\<lambda>v. let parts = split_at sep v in if fields_match fs parts then Some (v # parts) else None)\<rparr>"

definition builtin_regex_schemes :: "(string \<times> vscheme) list" where
  "builtin_regex_schemes =
     (let scheme = (\<lambda>name sep fs. (name, RegexScheme name (digit_pattern sep fs) (map fst fs)))
      in [scheme ''calver-full'' CHR ''.'' [(''year'', 4, Some 4), (''month'', 2, Some 2), (''day'', 2, Some 2)],
          scheme ''calver-month'' CHR ''.'' [(''year'', 4, Some 4), (''month'', 2, Some 2)],
          scheme ''calver-ubuntu'' CHR ''.'' [(''year'', 2, Some 2), (''month'', 2, Some 2)],
          scheme ''calver-micro'' CHR ''.'' [(''year'', 4, Some 4), (''month'', 1, Some 2), (''patch'', 1, None)],
          scheme ''aws-date'' CHR ''-'' [(''year'', 4, Some 4), (''month'', 2, Some 2), (''day'', 2, Some 2)],
          scheme ''build-number'' CHR ''.'' [(''build'', 1, None)]])"

definition builtin_scheme :: "string \<Rightarrow> vscheme option" where
  "builtin_scheme name = (if name = ''loose-semver'' then Some LooseSemver else map_of builtin_regex_schemes name)"

definition builtin_names :: "string list" where
  "builtin_names = sort (''loose-semver'' # map fst builtin_regex_schemes)"

record version_scheme =
  vname :: string
  builtin :: string
  vpattern :: string
  comparison_groups :: "string list"

datatype config_error =
    NeitherPatternNorBuiltin nat
  | BuiltinExclusive nat string
  | UnknownBuiltin nat string
  | InvalidPattern string nat
  | UnknownGroup string string
  | AmbiguousGroup string string nat

fun check_groups :: "string \<Rightarrow> string list \<Rightarrow> string list \<Rightarrow> (config_error, unit) outcome" where
  "check_groups name names [] = Ok ()"
| "check_groups name names (grp # gs) =
     (case (if grp = [] then 0 else count_list names grp) of
        0 \<Rightarrow> Fail (UnknownGroup name grp)
      | Suc 0 \<Rightarrow> check_groups name names gs
      | n \<Rightarrow> Fail (AmbiguousGroup name grp n))"

definition compile_scheme :: "(string \<Rightarrow> pattern option) \<Rightarrow> nat \<Rightarrow> version_scheme \<Rightarrow> (config_error, vscheme) outcome" where
  "compile_scheme compile i s =
     (if builtin s = [] \<and> vpattern s = [] then Fail (NeitherPatternNorBuiltin i)
      else if builtin s \<noteq> [] then
        (if vname s \<noteq> [] \<or> vpattern s \<noteq> [] \<or> comparison_groups s \<noteq> [] then Fail (BuiltinExclusive i (builtin s))
         else (case builtin_scheme (builtin s) of
                 None \<Rightarrow> Fail (UnknownBuiltin i (builtin s))
               | Some scheme \<Rightarrow> Ok scheme))
      else (case compile (vpattern s) of
              None \<Rightarrow> Fail (InvalidPattern (vname s) i)
            | Some p \<Rightarrow>
                bind_outcome (check_groups (vname s) (subexp_names p) (comparison_groups s))
                  (\<lambda>_. Ok (RegexScheme (if vname s = [] then vpattern s else vname s) p (comparison_groups s)))))"

fun compile_schemes :: "(string \<Rightarrow> pattern option) \<Rightarrow> nat \<Rightarrow> version_scheme list \<Rightarrow> vscheme list \<Rightarrow> (config_error, registry) outcome" where
  "compile_schemes compile i [] acc = Ok acc"
| "compile_schemes compile i (s # ss) acc =
     bind_outcome (compile_scheme compile i s) (\<lambda>scheme. compile_schemes compile (Suc i) ss (acc @ [scheme]))"

definition config_registry :: "(string \<Rightarrow> pattern option) \<Rightarrow> version_scheme list \<Rightarrow> (config_error, registry) outcome" where
  "config_registry compile schemes =
     (if schemes = [] then Ok default_registry else compile_schemes compile 0 schemes [])"

end
