(* ===== verification/Versioning_Properties.thy ===== *)
theory Versioning_Properties
  imports Versioning "HOL-Library.Product_Lexorder"
begin

text \<open>
  What the version registry guarantees: every regex scheme orders its versions by a key, the
  registry orders all strings, sorting is a stable descending sort, and the relational
  constraints mean what they say.
\<close>

section \<open>The order interface\<close>

text \<open>What the registry relies on in a scheme: on the versions it claims, \<open>Compare\<close> succeeds and is a
  total preorder.\<close>

locale ordered_scheme =
  fixes claims :: "string \<Rightarrow> bool"
    and compare :: "string \<Rightarrow> string \<Rightarrow> (version_error, int) outcome"
  assumes total: "claims a \<Longrightarrow> claims b \<Longrightarrow> \<exists>c. compare a b = Ok c"
    and antisym: "claims a \<Longrightarrow> claims b \<Longrightarrow> compare a b = Ok c \<Longrightarrow> compare b a = Ok d \<Longrightarrow> sgn d = - sgn c"
    and trans: "claims a \<Longrightarrow> claims b \<Longrightarrow> claims e \<Longrightarrow> compare a b = Ok c \<Longrightarrow> compare b e = Ok d
      \<Longrightarrow> c \<le> 0 \<Longrightarrow> d \<le> 0 \<Longrightarrow> \<exists>f \<le> 0. compare a e = Ok f"
begin

definition below :: "string \<Rightarrow> string \<Rightarrow> bool" where
  "below a b \<longleftrightarrow> (\<exists>c \<le> 0. compare a b = Ok c)"

lemma below_trans: "claims a \<Longrightarrow> claims b \<Longrightarrow> claims e \<Longrightarrow> below a b \<Longrightarrow> below b e \<Longrightarrow> below a e"
  unfolding below_def using trans by blast

lemma below_flip:
  assumes "claims a" and "claims b"
  shows "below a b \<longleftrightarrow> (\<exists>c \<ge> 0. compare b a = Ok c)"
proof -
  obtain c d where cd: "compare a b = Ok c" "compare b a = Ok d"
    using total [OF assms] total [OF assms(2,1)] by auto
  have "sgn d = - sgn c" using antisym [OF assms cd] .
  then have "c \<le> 0 \<longleftrightarrow> d \<ge> 0"
    by (auto simp: sgn_if split: if_splits)
  with cd show ?thesis by (simp add: below_def)
qed

lemma equal_iff:
  assumes "claims a" and "claims b"
  shows "compare a b = Ok 0 \<longleftrightarrow> below a b \<and> below b a"
proof -
  obtain c where "compare a b = Ok c" using total [OF assms] by auto
  then show ?thesis
    using below_flip [OF assms(2,1)] by (auto simp: below_def)
qed

lemma greater_iff:
  assumes "claims a" and "claims b"
  shows "(\<exists>c > 0. compare a b = Ok c) \<longleftrightarrow> \<not> below a b"
proof -
  obtain c where "compare a b = Ok c" using total [OF assms] by auto
  then show ?thesis by (simp add: below_def not_le)
qed

lemma below_total: "claims a \<Longrightarrow> claims b \<Longrightarrow> below a b \<or> below b a"
  using total [of a b] below_flip [of b a] by (auto simp: below_def)

end

text \<open>A scheme whose comparison is that of a key.\<close>

lemma cmp3_sgn: "sgn (cmp3 b a) = - sgn (cmp3 a b)"
  by (auto simp: cmp3_def)

lemma cmp3_le: "cmp3 a b \<le> 0 \<longleftrightarrow> a \<le> b"
  by (auto simp: cmp3_def)

lemma cmp3_0 [simp]: "cmp3 a b = 0 \<longleftrightarrow> a = b"
  by (auto simp: cmp3_def)

locale keyed_scheme =
  fixes claims :: "string \<Rightarrow> bool"
    and compare :: "string \<Rightarrow> string \<Rightarrow> (version_error, int) outcome"
    and key :: "string \<Rightarrow> 'k::linorder"
  assumes compare_key: "claims a \<Longrightarrow> claims b \<Longrightarrow> compare a b = Ok (cmp3 (key a) (key b))"

sublocale keyed_scheme \<subseteq> ordered_scheme
proof
  fix a b e c d
  show "claims a \<Longrightarrow> claims b \<Longrightarrow> \<exists>c. compare a b = Ok c"
    by (simp add: compare_key)
  show "claims a \<Longrightarrow> claims b \<Longrightarrow> compare a b = Ok c \<Longrightarrow> compare b a = Ok d \<Longrightarrow> sgn d = - sgn c"
    using cmp3_sgn [of "key b" "key a"] by (auto simp: compare_key)
  show "claims a \<Longrightarrow> claims b \<Longrightarrow> claims e \<Longrightarrow> compare a b = Ok c \<Longrightarrow> compare b e = Ok d
      \<Longrightarrow> c \<le> 0 \<Longrightarrow> d \<le> 0 \<Longrightarrow> \<exists>f \<le> 0. compare a e = Ok f"
    by (auto simp: compare_key cmp3_le)
qed

section \<open>Regex schemes\<close>

text \<open>Numbers come before other values, in numeric order; other values are in byte order.\<close>

definition group_key :: "string \<Rightarrow> nat \<times> int \<times> string" where
  "group_key s = (case parse_int s of Some n \<Rightarrow> (0, n, []) | None \<Rightarrow> (1, 0, s))"

definition regex_key :: "pattern \<Rightarrow> string list \<Rightarrow> string \<Rightarrow> (nat \<times> int \<times> string) list" where
  "regex_key p cg v = (if cg = [] then [(1, 0, v)] else map (\<lambda>name. group_key (group_value (groups p v) name)) cg)"

lemma compare_group_key: "compare_group a b = cmp3 (group_key a) (group_key b)"
  by (auto simp: compare_group_def group_key_def cmp3_def less_prod_def' split: option.splits)

lemma compare_groups_key:
  "compare_groups cg ga gb = cmp3 (map (\<lambda>n. group_key (group_value ga n)) cg) (map (\<lambda>n. group_key (group_value gb n)) cg)"
  by (induction cg) (auto simp: compare_group_key cmp3_def Let_def)

interpretation regex: keyed_scheme "match_string p" "regex_compare name p cg" "regex_key p cg"
  by unfold_locales (auto simp: regex_compare_def regex_key_def compare_groups_key cmp3_def)

section \<open>The registry orders all strings\<close>

text \<open>Documented behaviour of the semver library: \<open>Compare\<close> is a total preorder.\<close>

definition semver_lawful :: "'v semver \<Rightarrow> bool" where
  "semver_lawful sv \<longleftrightarrow>
     (\<forall>a b. sgn (compare_versions sv b a) = - sgn (compare_versions sv a b))
   \<and> (\<forall>a b c. compare_versions sv a b \<le> 0 \<longrightarrow> compare_versions sv b c \<le> 0 \<longrightarrow> compare_versions sv a c \<le> 0)"

lemma semver_ordered:
  assumes "semver_lawful sv"
  shows "ordered_scheme (\<lambda>v. new_version sv v \<noteq> None) (semver_compare sv)"
proof
  have flip: "sgn (compare_versions sv y x) = - sgn (compare_versions sv x y)" for x y
    using assms unfolding semver_lawful_def by blast
  have le: "compare_versions sv x y \<le> 0 \<Longrightarrow> compare_versions sv y z \<le> 0 \<Longrightarrow> compare_versions sv x z \<le> 0" for x y z
    using assms unfolding semver_lawful_def by blast
  fix a b e c d
  assume "new_version sv a \<noteq> None" and "new_version sv b \<noteq> None"
  then obtain va vb where v: "new_version sv a = Some va" "new_version sv b = Some vb" by auto
  then show "\<exists>c. semver_compare sv a b = Ok c" by (simp add: semver_compare_def)
  from v flip [of vb va] show "semver_compare sv a b = Ok c \<Longrightarrow> semver_compare sv b a = Ok d \<Longrightarrow> sgn d = - sgn c"
    unfolding semver_compare_def by simp
  assume "new_version sv e \<noteq> None"
  then obtain ve where "new_version sv e = Some ve" by auto
  with v le [of va vb ve] show "semver_compare sv a b = Ok c \<Longrightarrow> semver_compare sv b e = Ok d \<Longrightarrow> c \<le> 0 \<Longrightarrow> d \<le> 0
      \<Longrightarrow> \<exists>f \<le> 0. semver_compare sv a e = Ok f"
    by (simp add: semver_compare_def)
qed

lemma scheme_ordered:
  assumes "semver_lawful sv"
  shows "ordered_scheme (scheme_matches sv s) (scheme_compare sv s)"
proof (cases s)
  case LooseSemver
  have "scheme_matches sv s = (\<lambda>v. new_version sv v \<noteq> None)" "scheme_compare sv s = semver_compare sv"
    by (simp_all add: LooseSemver fun_eq_iff)
  then show ?thesis using semver_ordered [OF assms] by metis
next
  case (RegexScheme name p cg)
  have "scheme_matches sv s = match_string p" "scheme_compare sv s = regex_compare name p cg"
    by (simp_all add: RegexScheme fun_eq_iff)
  then show ?thesis using regex.ordered_scheme_axioms by metis
qed

lemma rank_for_scheme: "rank_for sv r v = (i, Some s) \<Longrightarrow> i < length r \<and> r ! i = s \<and> scheme_matches sv s v"
  by (induction sv r v arbitrary: i rule: rank_for.induct) (auto split: if_splits prod.splits)

lemma rank_for_None: "rank_for sv r v = (i, None) \<Longrightarrow> i = length r"
  by (induction sv r v arbitrary: i rule: rank_for.induct) (auto split: if_splits prod.splits)

text \<open>Versions of the same rank have the same scheme, and compare within it.\<close>

lemma registry_compare_cases:
  obtains (other) "fst (rank_for sv r a) \<noteq> fst (rank_for sv r b)"
      "registry_compare sv r a b = Ok (cmp3 (fst (rank_for sv r b)) (fst (rank_for sv r a)))"
  | (unknown) "rank_for sv r a = (length r, None)" "rank_for sv r b = (length r, None)" "registry_compare sv r a b = Ok (cmp3 a b)"
  | (same) i s where "rank_for sv r a = (i, Some s)" "rank_for sv r b = (i, Some s)"
      "scheme_matches sv s a" "scheme_matches sv s b" "registry_compare sv r a b = scheme_compare sv s a b"
proof -
  obtain i sa j sb where ab: "rank_for sv r a = (i, sa)" "rank_for sv r b = (j, sb)" by (metis surj_pair)
  show ?thesis
  proof (cases "i = j")
    case False
    with other ab show ?thesis by (simp add: registry_compare_def)
  next
    case eq: True
    show ?thesis
    proof (cases sa)
      case None
      then have "i = length r" using rank_for_None [of sv r a i] ab by simp
      then have "sb = None" using rank_for_scheme [of sv r b j] ab eq by (cases sb) auto
      with None ab eq \<open>i = length r\<close> unknown show ?thesis by (simp add: registry_compare_def)
    next
      case (Some s)
      have s: "i < length r" "r ! i = s" "scheme_matches sv s a" using rank_for_scheme [of sv r a i s] ab Some by auto
      have "sb = Some s"
        using rank_for_scheme [of sv r b j] rank_for_None [of sv r b j] ab eq s by (cases sb) auto
      then show ?thesis
        using same [of i s] s rank_for_scheme [of sv r b j s] ab eq Some by (simp add: registry_compare_def)
    qed
  qed
qed

lemma registry_ordered:
  assumes "semver_lawful sv"
  shows "ordered_scheme (\<lambda>_. True) (registry_compare sv r)"
proof
  fix a b e c d
  note ord = scheme_ordered [OF assms]
  show "\<exists>c. registry_compare sv r a b = Ok c"
    by (cases rule: registry_compare_cases [of sv r a b]) (use ordered_scheme.total [OF ord] in auto)
  show "registry_compare sv r a b = Ok c \<Longrightarrow> registry_compare sv r b a = Ok d \<Longrightarrow> sgn d = - sgn c"
    by (cases rule: registry_compare_cases [of sv r a b]; cases rule: registry_compare_cases [of sv r b a])
       (use ordered_scheme.antisym [OF ord, of _ a b c d] cmp3_sgn in \<open>auto simp: cmp3_def\<close>)
  show "registry_compare sv r a b = Ok c \<Longrightarrow> registry_compare sv r b e = Ok d \<Longrightarrow> c \<le> 0 \<Longrightarrow> d \<le> 0
      \<Longrightarrow> \<exists>f \<le> 0. registry_compare sv r a e = Ok f"
    by (cases rule: registry_compare_cases [of sv r a b]; cases rule: registry_compare_cases [of sv r b e];
        cases rule: registry_compare_cases [of sv r a e])
       (use ordered_scheme.trans [OF ord, of _ a b e c d] in \<open>auto simp: cmp3_le\<close>)
qed

section \<open>Sorting\<close>

definition not_above :: "'v semver \<Rightarrow> registry \<Rightarrow> string \<Rightarrow> string \<Rightarrow> bool" where
  "not_above sv r a b \<longleftrightarrow> (\<exists>c \<le> 0. registry_compare sv r a b = Ok c)"

definition same_version :: "'v semver \<Rightarrow> registry \<Rightarrow> string \<Rightarrow> string \<Rightarrow> bool" where
  "same_version sv r a b \<longleftrightarrow> registry_compare sv r a b = Ok 0"

lemma not_above_below: "not_above sv r = ordered_scheme.below (registry_compare sv r)" if "semver_lawful sv"
  by (simp add: fun_eq_iff not_above_def ordered_scheme.below_def [OF registry_ordered [OF that]])

lemma not_above_trans:
  assumes "semver_lawful sv" and "not_above sv r a b" and "not_above sv r b c"
  shows "not_above sv r a c"
  using assms ordered_scheme.below_trans [OF registry_ordered [OF assms(1), of r], of a b c]
  by (simp add: not_above_below)

lemma not_above_total: "semver_lawful sv \<Longrightarrow> not_above sv r a b \<or> not_above sv r b a"
  using ordered_scheme.below_total [OF registry_ordered [of sv r], of a b] by (simp add: not_above_below)

lemma same_version_iff: "semver_lawful sv \<Longrightarrow> same_version sv r a b \<longleftrightarrow> not_above sv r a b \<and> not_above sv r b a"
  using ordered_scheme.equal_iff [OF registry_ordered [of sv r], of a b] by (simp add: not_above_below same_version_def)

lemma registry_compare_above:
  assumes "semver_lawful sv"
  obtains c where "registry_compare sv r a b = Ok c" and "0 < c \<longleftrightarrow> \<not> not_above sv r a b"
proof -
  obtain c where "registry_compare sv r a b = Ok c"
    using ordered_scheme.total [OF registry_ordered [OF assms, of r], of a b] by auto
  with that show ?thesis by (simp add: not_above_def not_le)
qed

lemma insert_desc_eq:
  assumes "semver_lawful sv"
  shows "insert_desc sv r x ys None
    = (takeWhile (\<lambda>y. \<not> not_above sv r x y) ys @ x # dropWhile (\<lambda>y. \<not> not_above sv r x y) ys, None)"
proof (induction ys)
  case (Cons y ys)
  obtain c where "registry_compare sv r x y = Ok c" and "0 < c \<longleftrightarrow> \<not> not_above sv r x y"
    using registry_compare_above [OF assms] .
  with Cons show ?case by simp
qed simp

lemma insert_ascending:
  assumes "semver_lawful sv" and "sorted_wrt (not_above sv r) ys"
  shows "sorted_wrt (not_above sv r)
    (takeWhile (\<lambda>y. \<not> not_above sv r x y) ys @ x # dropWhile (\<lambda>y. \<not> not_above sv r x y) ys)"
  using assms(2)
proof (induction ys)
  case (Cons y ys)
  show ?case
  proof (cases "not_above sv r x y")
    case True
    with Cons.prems show ?thesis by (auto intro: not_above_trans [OF assms(1)])
  next
    case False
    then have "not_above sv r y x" using not_above_total [OF assms(1)] by blast
    with False Cons show ?thesis by (auto dest: set_takeWhileD set_dropWhileD)
  qed
qed simp

text \<open>Inserting goes past greater elements only, never past an equal one.\<close>

lemma insert_stable:
  assumes "semver_lawful sv" and "sorted_wrt (not_above sv r) ys"
  shows "filter (same_version sv r z)
      (takeWhile (\<lambda>y. \<not> not_above sv r x y) ys @ x # dropWhile (\<lambda>y. \<not> not_above sv r x y) ys)
    = filter (same_version sv r z) (x # ys)"
proof (cases "same_version sv r z x")
  case True
  have "\<not> same_version sv r z y" if y: "y \<in> set (takeWhile (\<lambda>y. \<not> not_above sv r x y) ys)" for y
    using set_takeWhileD [OF y] True not_above_trans [OF assms(1), of r x z y]
    by (auto simp: same_version_iff [OF assms(1)])
  then have "filter (same_version sv r z) (takeWhile (\<lambda>y. \<not> not_above sv r x y) ys) = []"
    by (simp add: filter_empty_conv)
  then have "filter (same_version sv r z) (dropWhile (\<lambda>y. \<not> not_above sv r x y) ys) = filter (same_version sv r z) ys"
    by (metis append_Nil filter_append takeWhile_dropWhile_id)
  with \<open>filter _ (takeWhile _ ys) = []\<close> show ?thesis by simp
next
  case False
  then show ?thesis by simp (metis filter_append takeWhile_dropWhile_id)
qed

lemma insert_mset:
  "mset (takeWhile P ys @ x # dropWhile P ys) = add_mset x (mset ys)"
  by simp (metis mset_append takeWhile_dropWhile_id)

lemma sort_loop_correct:
  assumes "semver_lawful sv" and "sorted_wrt (not_above sv r) d"
  shows "\<exists>vs. sort_loop sv r d xs None = (rev vs, None) \<and> sorted_wrt (not_above sv r) vs
    \<and> mset vs = mset d + mset xs
    \<and> (\<forall>z. filter (same_version sv r z) vs = rev (filter (same_version sv r z) xs) @ filter (same_version sv r z) d)"
  using assms(2)
proof (induction xs arbitrary: d)
  case (Cons x xs)
  let ?d = "takeWhile (\<lambda>y. \<not> not_above sv r x y) d @ x # dropWhile (\<lambda>y. \<not> not_above sv r x y) d"
  obtain vs where "sort_loop sv r ?d xs None = (rev vs, None)" "sorted_wrt (not_above sv r) vs"
      "mset vs = mset ?d + mset xs"
      "\<forall>z. filter (same_version sv r z) vs = rev (filter (same_version sv r z) xs) @ filter (same_version sv r z) ?d"
    using Cons.IH [OF insert_ascending [OF assms(1) Cons.prems]] by blast
  then show ?case
    by (simp only: sort_loop.simps insert_desc_eq [OF assms(1)] insert_stable [OF assms(1) Cons.prems] insert_mset)
       simp
qed simp

lemma sort_descending_correct:
  assumes "semver_lawful sv"
  shows "\<exists>vs. sort_descending sv r versions = (vs, Ok ()) \<and> mset vs = mset versions
    \<and> sorted_wrt (\<lambda>a b. not_above sv r b a) vs
    \<and> (\<forall>z. filter (same_version sv r z) vs = filter (same_version sv r z) versions)"
proof -
  obtain vs where vs: "sort_loop sv r [] versions None = (rev vs, None)" "sorted_wrt (not_above sv r) vs"
      "mset vs = mset versions"
      "\<forall>z. filter (same_version sv r z) vs = rev (filter (same_version sv r z) versions)"
    using sort_loop_correct [OF assms, of r "[]" versions] by auto
  then show ?thesis
    by (intro exI [of _ "rev vs"]) (simp add: sort_descending_def sorted_wrt_rev rev_filter [symmetric])
qed

section \<open>Relational constraints\<close>

text \<open>The concrete syntax of constraints: operators padded by blanks, terms separated by blanks within
  a chunk, chunks separated by commas and surrounded by white space.\<close>

definition print_term :: "string \<Rightarrow> constraint_term \<Rightarrow> string" where
  "print_term pad t = fst t @ pad @ snd t"

definition print_chunk :: "string \<Rightarrow> constraint_term list \<Rightarrow> string" where
  "print_chunk pad ts = pad @ join_with '' '' (map (print_term pad) ts) @ pad"

definition print_constraint :: "string \<Rightarrow> constraint_term list list \<Rightarrow> string" where
  "print_constraint pad tss = join_with '','' (map (print_chunk pad) tss)"

definition plain_operand :: "string \<Rightarrow> bool" where
  "plain_operand w \<longleftrightarrow> w \<noteq> [] \<and> list_all (\<lambda>c. \<not> is_space c \<and> c \<noteq> CHR '','') w \<and> hd w \<noteq> CHR ''=''"

definition plain_term :: "constraint_term \<Rightarrow> bool" where
  "plain_term t \<longleftrightarrow> fst t \<in> set constraint_operators \<and> plain_operand (snd t)"

lemma blank_is_space: "blank c \<Longrightarrow> is_space c"
  by (auto simp: blank_def is_space_def)

lemma leading_operator_print:
  assumes "op \<in> set constraint_operators" and "rest = [] \<or> hd rest \<noteq> CHR ''=''"
  shows "leading_operator constraint_operators (op @ rest) = op"
  using assms by (cases rest) (auto simp: constraint_operators_def has_prefix_def)

lemma dropWhile_blanks: "list_all blank pad \<Longrightarrow> s = [] \<or> \<not> blank (hd s) \<Longrightarrow> dropWhile blank (pad @ s) = s"
  by (induction pad) (auto simp: dropWhile_eq_self_iff)

lemma parse_chunk_term:
  assumes "plain_term t" and "list_all blank pad" and "rest = [] \<or> blank (hd rest)"
  shows "parse_chunk (print_term pad t @ rest) acc = parse_chunk (dropWhile blank rest) (acc @ [t])"
proof -
  obtain op w where t: "t = (op, w)" by (cases t)
  have w: "w \<noteq> []" "\<forall>c \<in> set w. \<not> blank c" "hd w \<noteq> CHR ''=''" and op: "op \<in> set constraint_operators"
    using assms(1) by (auto simp: t plain_term_def plain_operand_def list_all_iff dest: blank_is_space)
  have "hd (pad @ w @ rest) \<noteq> CHR ''=''"
    using w assms(2) by (cases pad) (auto simp: blank_def)
  then have lead: "leading_operator constraint_operators (op @ pad @ w @ rest) = op"
    using leading_operator_print [OF op] by blast
  have drop: "dropWhile blank (pad @ w @ rest) = w @ rest"
    using w assms(2) by (intro dropWhile_blanks) (auto simp: hd_append)
  have take: "takeWhile (\<lambda>c. \<not> blank c) (w @ rest) = w" "dropWhile (\<lambda>c. \<not> blank c) (w @ rest) = rest"
    using w(2) assms(3) by (cases rest; simp add: takeWhile_append dropWhile_append)+
  have "op \<noteq> []" using op by (auto simp: constraint_operators_def)
  then show ?thesis
    using w(1) by (subst parse_chunk.simps) (simp add: t print_term_def lead drop take Let_def)
qed

lemma hd_join: "p \<noteq> [] \<Longrightarrow> join_with sep (p # ps) \<noteq> [] \<and> hd (join_with sep (p # ps)) = hd p"
  by (cases ps) auto

lemma last_join: "p \<noteq> [] \<Longrightarrow> join_with sep (ps @ [p]) \<noteq> [] \<and> last (join_with sep (ps @ [p])) = last p"
  by (induction ps rule: induct_list012) auto

lemma set_join: "set (join_with sep ps) \<subseteq> set sep \<union> \<Union> (set ` set ps)"
  by (induction sep ps rule: join_with.induct) auto

lemma print_term_hd:
  assumes "plain_term t"
  shows "print_term pad t \<noteq> []" and "\<not> is_space (hd (print_term pad t))" and "\<not> is_space (last (print_term pad t))"
proof -
  have op: "fst t \<noteq> []" "\<not> is_space (hd (fst t))"
    using assms by (auto simp: plain_term_def constraint_operators_def is_space_def)
  have w: "snd t \<noteq> []" "\<not> is_space (last (snd t))"
    using assms by (auto simp: plain_term_def plain_operand_def list_all_iff)
  show "print_term pad t \<noteq> []" "\<not> is_space (hd (print_term pad t))" "\<not> is_space (last (print_term pad t))"
    using op w by (simp_all add: print_term_def)
qed

lemma parse_chunk_terms:
  assumes "list_all plain_term ts" and "list_all blank pad"
  shows "parse_chunk (join_with '' '' (map (print_term pad) ts)) acc = Ok (acc @ ts)"
  using assms(1)
proof (induction ts arbitrary: acc rule: induct_list012)
  case 1
  then show ?case by (subst parse_chunk.simps) simp
next
  case (2 t)
  then show ?case
    using parse_chunk_term [OF _ assms(2), of t "[]" acc] by (simp, subst (asm) (2) parse_chunk.simps) simp
next
  case (3 t u ts)
  let ?rest = "join_with '' '' (map (print_term pad) (u # ts))"
  have u: "plain_term u" and t: "plain_term t" using 3 by auto
  have "?rest \<noteq> [] \<and> hd ?rest = hd (print_term pad u)"
    using hd_join [OF print_term_hd(1) [OF u]] by simp
  then have "\<not> blank (hd ?rest)"
    using print_term_hd(2) [OF u, of pad] blank_is_space by metis
  then have "dropWhile blank ('' '' @ ?rest) = ?rest"
    by (intro dropWhile_blanks) (auto simp: blank_def)
  moreover have "parse_chunk (print_term pad t @ '' '' @ ?rest) acc = parse_chunk (dropWhile blank ('' '' @ ?rest)) (acc @ [t])"
    by (intro parse_chunk_term t assms(2)) (simp add: blank_def)
  ultimately show ?case using 3 by simp
qed

lemma join_trimmed:
  assumes "list_all plain_term ts"
  shows "trimmed (join_with '' '' (map (print_term pad) ts))"
proof (cases "ts = []")
  case False
  let ?s = "join_with '' '' (map (print_term pad) ts)"
  obtain t us where t: "ts = t # us" "plain_term t" using False assms by (cases ts) auto
  obtain vs u where u: "ts = vs @ [u]" "plain_term u" using False assms by (cases ts rule: rev_cases) auto
  have "hd ?s = hd (print_term pad t)" using hd_join [OF print_term_hd(1) [OF t(2)]] by (simp add: t)
  moreover have "last ?s = last (print_term pad u)" using last_join [OF print_term_hd(1) [OF u(2)]] by (simp add: u)
  ultimately show ?thesis
    using print_term_hd [OF t(2)] print_term_hd [OF u(2)] by (simp add: trimmed_def)
qed (simp add: trimmed_def)

lemma drop_padding: "list_all P pad \<Longrightarrow> s \<noteq> [] \<Longrightarrow> \<not> P (hd s) \<Longrightarrow> dropWhile P (pad @ s @ t) = s @ t"
  by (induction pad) (auto simp: neq_Nil_conv)

lemma trim_space_padded:
  assumes "trimmed s" and "list_all is_space pad"
  shows "trim_space (pad @ s @ pad) = s"
proof (cases "s = []")
  case True
  have "dropWhile is_space (pad @ pad) = []"
    unfolding dropWhile_eq_Nil_conv using assms(2) by (auto simp: list_all_iff)
  then show ?thesis by (simp only: True trim_space_def append_Nil rev.simps dropWhile.simps)
next
  case False
  then have "\<not> is_space (hd s)" and "\<not> is_space (hd (rev s))" using assms by (simp_all add: trimmed_def hd_rev)
  then show ?thesis
    using False assms(2) drop_padding [of is_space pad s pad] drop_padding [of is_space "rev pad" "rev s" "[]"]
    by (simp add: trim_space_def)
qed

lemma parse_chunks_print:
  assumes "list_all (list_all plain_term) tss" and "list_all blank pad"
  shows "parse_chunks (map (print_chunk pad) tss) acc = Ok (acc @ concat tss)"
  using assms(1)
proof (induction tss arbitrary: acc)
  case (Cons ts tss)
  have "list_all is_space pad" using assms(2) by (auto simp: list_all_iff dest: blank_is_space)
  then have "trim_space (print_chunk pad ts) = join_with '' '' (map (print_term pad) ts)"
    unfolding print_chunk_def using Cons.prems by (intro trim_space_padded join_trimmed) auto
  with Cons show ?case by (simp add: parse_chunk_terms [OF _ assms(2)])
qed simp

lemma print_chunk_no_comma:
  assumes "list_all plain_term ts" and "list_all blank pad"
  shows "CHR '','' \<notin> set (print_chunk pad ts)"
proof -
  have "\<not> blank CHR '',''" by (simp add: blank_def)
  then have pad: "CHR '','' \<notin> set pad" using assms(2) unfolding list_all_iff by blast
  have "CHR '','' \<notin> set (print_term pad t)" if "t \<in> set ts" for t
  proof -
    have "plain_term t" using that assms(1) by (simp add: list_all_iff)
    then have "fst t \<in> set constraint_operators" "CHR '','' \<notin> set (snd t)"
      by (auto simp: plain_term_def plain_operand_def list_all_iff)
    moreover from this have "CHR '','' \<notin> set (fst t)"
      by (auto simp: constraint_operators_def)
    ultimately show ?thesis using pad by (simp add: print_term_def)
  qed
  then have "CHR '','' \<notin> set (join_with '' '' (map (print_term pad) ts))"
    using set_join [of "'' ''" "map (print_term pad) ts"] by auto
  with pad show ?thesis by (simp add: print_chunk_def)
qed

lemma parse_print_constraint:
  assumes "list_all (list_all plain_term) tss" and "list_all blank pad"
  shows "parse_constraint_terms (print_constraint pad tss) = Ok (concat tss)"
proof (cases "tss = []")
  case True
  then show ?thesis
    by (simp add: parse_constraint_terms_def print_constraint_def trim_space_def parse_chunk.simps)
next
  case False
  then have "split_at CHR '','' (print_constraint pad tss) = map (print_chunk pad) tss"
    unfolding print_constraint_def using print_chunk_no_comma [OF _ assms(2)] assms(1)
    by (intro split_at_join) (auto simp: list_all_iff)
  then show ?thesis
    using parse_chunks_print [OF assms] by (simp add: parse_constraint_terms_def)
qed

section \<open>The meaning of constraints\<close>

definition relation :: "string \<Rightarrow> 'k::linorder \<Rightarrow> 'k \<Rightarrow> bool" where
  "relation op a b =
     (if op = ''>='' then b \<le> a else if op = ''>'' then b < a
      else if op = ''<='' then a \<le> b else if op = ''<'' then a < b
      else if op = ''!='' then a \<noteq> b else a = b)"

lemma satisfies_op_cmp3: "satisfies_op op (cmp3 a b) = relation op a b"
  unfolding satisfies_op_def relation_def cmp3_def by (cases a b rule: linorder_cases) auto

lemma check_operands_Ok: "list_all (\<lambda>t. match_string p (snd t)) ts \<Longrightarrow> check_operands name p ts = Ok ()"
  by (induction name p ts rule: check_operands.induct) auto

lemma all_terms_relation:
  assumes "match_string p v" and "list_all (\<lambda>t. match_string p (snd t)) ts"
  shows "all_terms name p cg v ts = Ok (list_all (\<lambda>t. relation (fst t) (regex_key p cg v) (regex_key p cg (snd t))) ts)"
  using assms(2)
  by (induction ts) (auto simp: regex.compare_key [OF assms(1)] satisfies_op_cmp3)

section \<open>Properties\<close>

text \<open>C24: The registry's comparison succeeds on any two strings, whichever schemes claim them, and it
  is a total preorder: reversing the arguments reverses the sign, and not-greater is transitive,
  across the ranks of different schemes and of unrecognised strings too.\<close>

theorem registry_compare_total_preorder:
  assumes "semver_lawful sv"
  shows "(\<exists>c d. registry_compare sv r a b = Ok c \<and> registry_compare sv r b a = Ok d \<and> sgn d = - sgn c)
    \<and> (not_above sv r a b \<longrightarrow> not_above sv r b e \<longrightarrow> not_above sv r a e)"
proof -
  note total = ordered_scheme.total [OF registry_ordered [OF assms, of r]]
  note antisym = ordered_scheme.antisym [OF registry_ordered [OF assms, of r]]
  obtain c d where "registry_compare sv r a b = Ok c" "registry_compare sv r b a = Ok d"
    using total [of a b] total [of b a] by auto
  with antisym [of a b c d] not_above_trans [OF assms, of r a b e] show ?thesis by blast
qed

definition int_semver :: "int semver" where
  "int_semver = \<lparr>new_version = parse_int, compare_versions = cmp3,
     new_constraint = (\<lambda>c. map_option (\<lambda>n v. v = n) (parse_int c))\<rparr>"

lemma int_semver_lawful: "semver_lawful int_semver"
  using cmp3_sgn by (auto simp: semver_lawful_def int_semver_def cmp3_le)

definition calver_first :: registry where
  "calver_first = map snd (take 1 builtin_regex_schemes) @ default_registry"

theorem registry_compare_total_preorder_witness:
  "(\<exists>c d. registry_compare int_semver calver_first ''2024.01.31'' ''7'' = Ok c
      \<and> registry_compare int_semver calver_first ''7'' ''2024.01.31'' = Ok d \<and> sgn d = - sgn c)
   \<and> registry_compare int_semver calver_first ''2024.01.31'' ''7'' = Ok 1"
  using registry_compare_total_preorder
    [OF int_semver_lawful, of calver_first "''2024.01.31''" "''7''" "[]", THEN conjunct1]
  by (rule conjI) code_simp

text \<open>Sorting never fails, returns a permutation of its input in which no version is above an
  earlier one, and keeps versions that compare as equal in their original order.\<close>

theorem sort_descending_stable:
  assumes "semver_lawful sv"
  shows "\<exists>vs. sort_descending sv r versions = (vs, Ok ())
    \<and> mset vs = mset versions
    \<and> sorted_wrt (\<lambda>a b. not_above sv r b a) vs
    \<and> (\<forall>z. filter (same_version sv r z) vs = filter (same_version sv r z) versions)"
  by (rule sort_descending_correct [OF assms])

theorem sort_descending_stable_witness:
  "(\<exists>vs. sort_descending int_semver calver_first [''7'', ''x'', ''2024.01.31'', ''+7'', ''2023.12.01''] = (vs, Ok ())
    \<and> mset vs = mset [''7'', ''x'', ''2024.01.31'', ''+7'', ''2023.12.01''])
   \<and> sort_descending int_semver calver_first [''7'', ''x'', ''2024.01.31'', ''+7'', ''2023.12.01'']
    = ([''2024.01.31'', ''2023.12.01'', ''7'', ''+7'', ''x''], Ok ())"
proof (rule conjI)
  show "\<exists>vs. sort_descending int_semver calver_first [''7'', ''x'', ''2024.01.31'', ''+7'', ''2023.12.01''] = (vs, Ok ())
    \<and> mset vs = mset [''7'', ''x'', ''2024.01.31'', ''+7'', ''2023.12.01'']"
    using sort_descending_stable [OF int_semver_lawful, of calver_first "[''7'', ''x'', ''2024.01.31'', ''+7'', ''2023.12.01'']"]
    by blast
qed code_simp

text \<open>A written constraint, terms separated by blanks or commas and operators padded with blanks,
  parses to its terms, and a version satisfies it exactly when its key stands in every term's
  relation to the key of the term's operand.\<close>

theorem regex_constraint_meaning:
  assumes "list_all (list_all plain_term) tss" and "list_all blank pad"
    and "match_string p v" and "list_all (\<lambda>t. match_string p (snd t)) (concat tss)"
  shows "parse_constraint_terms (print_constraint pad tss) = Ok (concat tss)
    \<and> regex_satisfies name p cg v (print_constraint pad tss)
      = Ok (list_all (\<lambda>t. relation (fst t) (regex_key p cg v) (regex_key p cg (snd t))) (concat tss))"
proof -
  note parse = parse_print_constraint [OF assms(1,2)]
  have "concat tss = []" if "print_constraint pad tss = []"
    using parse that by (simp add: parse_constraint_terms_def trim_space_def parse_chunk.simps)
  then show ?thesis
    using parse assms(3) by (cases "print_constraint pad tss = []")
      (simp_all add: regex_satisfies_def regex_validate_def check_operands_Ok [OF assms(4)]
        all_terms_relation [OF assms(3,4)] del: concat_eq_Nil_conv)
qed

definition micro_pattern :: pattern where
  "micro_pattern = digit_pattern CHR ''.'' [(''year'', 4, Some 4), (''month'', 1, Some 2), (''patch'', 1, None)]"

theorem regex_constraint_meaning_witness:
  "regex_satisfies ''micro'' micro_pattern [''year'', ''month'', ''patch''] ''2024.10.3''
     (print_constraint '' '' [[(''>='', ''2024.9.0''), (''<'', ''2025.1.0'')], [(''!='', ''2024.10.4'')]]) = Ok True"
proof -
  let ?tss = "[[(''>='', ''2024.9.0''), (''<'', ''2025.1.0'')], [(''!='', ''2024.10.4'')]]"
  have "list_all (list_all plain_term) ?tss" by code_simp
  moreover have "list_all blank '' ''" by code_simp
  moreover have "match_string micro_pattern ''2024.10.3''" by code_simp
  moreover have "list_all (\<lambda>t. match_string micro_pattern (snd t)) (concat ?tss)" by code_simp
  moreover have "list_all (\<lambda>t. relation (fst t) (regex_key micro_pattern [''year'', ''month'', ''patch''] ''2024.10.3'')
      (regex_key micro_pattern [''year'', ''month'', ''patch''] (snd t))) (concat ?tss) = True" by code_simp
  ultimately show ?thesis
    by (simp only: regex_constraint_meaning [THEN conjunct2])
qed

end
