(* ===== verification/Json.thy ===== *)
theory Json
  imports Go_Strings
begin

text \<open>
  JSON documents as the sources see them: a decoded value is a tree, an object a list of fields
  with distinct names whose order is the iteration order of the Go map, a number its token. The
  bytes of a \<open>json.RawMessage\<close> are the document they hold, if they hold one.

  Slices may be nil, which Go distinguishes from an empty slice, as do the sources.
\<close>

section \<open>Documents\<close>

datatype json =
    JNull
  | JBool bool
  | JNum string
  | JStr string
  | JArr "json list"
  | JObj "(string \<times> json) list"

datatype raw_message = NoBytes | Json json | NotJson string

fun json_distinct :: "json \<Rightarrow> bool" where
  "json_distinct (JArr xs) = list_all json_distinct xs"
| "json_distinct (JObj fs) = (distinct (map fst fs) \<and> list_all (\<lambda>(_, v). json_distinct v) fs)"
| "json_distinct _ = True"

text \<open>Two documents are the same when they differ in the order of object fields only.\<close>

inductive same_json :: "json \<Rightarrow> json \<Rightarrow> bool" where
  same_null: "same_json JNull JNull"
| same_bool: "same_json (JBool b) (JBool b)"
| same_num: "same_json (JNum n) (JNum n)"
| same_str: "same_json (JStr s) (JStr s)"
| same_arr: "list_all2 same_json xs ys \<Longrightarrow> same_json (JArr xs) (JArr ys)"
| same_obj: "distinct (map fst fs) \<Longrightarrow> distinct (map fst gs)
    \<Longrightarrow> \<forall>k. rel_option same_json (map_of fs k) (map_of gs k) \<Longrightarrow> same_json (JObj fs) (JObj gs)"

inductive_cases same_jsonE: "same_json v w"

lemma same_json_refl: "json_distinct v \<Longrightarrow> same_json v v"
proof (induction v rule: json_distinct.induct)
  case (1 xs)
  then show ?case by (auto intro!: same_arr simp: list_all_iff list_all2_same)
next
  case (2 fs)
  have "rel_option same_json (map_of fs k) (map_of fs k)" for k
  proof (cases "map_of fs k")
    case (Some v)
    then have "(k, v) \<in> set fs" by (rule map_of_SomeD)
    with 2 Some show ?thesis by (auto simp: list_all_iff)
  qed simp
  with 2 show ?case by (auto intro!: same_obj)
qed (auto intro: same_null same_bool same_num same_str)

section \<open>Slices\<close>

type_synonym 'a slice = "'a list option"

definition map_slice :: "('a \<Rightarrow> 'b) \<Rightarrow> 'a slice \<Rightarrow> 'b slice" where
  "map_slice f s = map_option (map f) s"

text \<open>A loop that converts each element and stops at the first error.\<close>

fun traverse :: "('a \<Rightarrow> ('e, 'b) outcome) \<Rightarrow> 'a list \<Rightarrow> ('e, 'b list) outcome" where
  "traverse f [] = Ok []"
| "traverse f (x # xs) = bind_outcome (f x) (\<lambda>y. bind_outcome (traverse f xs) (\<lambda>ys. Ok (y # ys)))"

definition traverse_slice :: "('a \<Rightarrow> ('e, 'b) outcome) \<Rightarrow> 'a slice \<Rightarrow> ('e, 'b slice) outcome" where
  "traverse_slice f s = (case s of None \<Rightarrow> Ok None | Some xs \<Rightarrow> bind_outcome (traverse f xs) (\<lambda>ys. Ok (Some ys)))"

lemma map_slice_simps [simp]: "map_slice f None = None" "map_slice f (Some xs) = Some (map f xs)"
  by (simp_all add: map_slice_def)

lemma map_slice_compose: "map_slice f (map_slice g s) = map_slice (f \<circ> g) s"
  by (cases s) auto

lemma map_slice_id: "(\<And>x. x \<in> set (case s of None \<Rightarrow> [] | Some xs \<Rightarrow> xs) \<Longrightarrow> f x = x) \<Longrightarrow> map_slice f s = s"
  by (cases s) (auto intro: map_idI)

lemma traverse_Ok_iff: "traverse f xs = Ok ys \<longleftrightarrow> list_all2 (\<lambda>x y. f x = Ok y) xs ys"
  by (induction xs arbitrary: ys) (auto simp: bind_outcome_Ok_iff list_all2_Cons1)

lemma traverse_map_Ok: "list_all (\<lambda>x. f x = Ok (g x)) xs \<Longrightarrow> traverse f xs = Ok (map g xs)"
  by (simp add: traverse_Ok_iff list_all2_map2 list_all2_conv_all_nth list_all_length)

lemma traverse_slice_Ok_iff:
  "traverse_slice f s = Ok t \<longleftrightarrow> rel_option (list_all2 (\<lambda>x y. f x = Ok y)) s t"
  by (cases s; cases t) (auto simp: traverse_slice_def bind_outcome_Ok_iff traverse_Ok_iff)

lemma traverse_slice_map_Ok:
  "pred_option (list_all (\<lambda>x. f x = Ok (g x))) s \<Longrightarrow> traverse_slice f s = Ok (map_slice g s)"
  by (cases s) (auto simp: traverse_slice_def traverse_map_Ok)

end
