(* ===== verification/Descriptor.thy ===== *)
theory Descriptor
  imports Type_Registry Json
begin

text \<open>
  Component descriptors: the internal form of \<open>bindings/go/descriptor/runtime/descriptor.go\<close>, the
  serialised form of \<open>bindings/go/descriptor/v2/descriptor.go\<close>, and the conversions between
  them of \<open>descriptor/runtime/convert_v2.go\<close>, with the part of \<open>Scheme.Convert\<close>
  (\<open>runtime/registry.go\<close>) that produces raw objects.

  A pointer or an interface that may be nil is an option; deep copies are the identity. A time is
  its distance from Go's zero time. Labels and digests exist twice, as in the code.
\<close>

section \<open>Raw and typed objects\<close>

record raw =
  raw_type :: go_type
  raw_data :: raw_message

text \<open>An object behind the interface \<open>Typed\<close>: a pointer to a \<open>Raw\<close>, which may be nil, or a value
  of some Go type. What \<open>json.Marshal\<close> writes for the latter is up to that type.\<close>

datatype ('r, 'd) typed_value = RawPtr "raw option" | ObjPtr "('r, 'd) typed"

type_synonym time = nat

record ('r, 'd) codec =
  marshal_object :: "('r, 'd) typed \<Rightarrow> json option"
  canonicalize :: "json \<Rightarrow> json option"
  raw_rtype :: 'r
  marshal_text :: "json \<Rightarrow> string"
  parse_text :: "string \<Rightarrow> json option"
  marshal_time :: "time \<Rightarrow> json option"

datatype convert_error =
    NilArgument
  | UnregisteredType
  | MarshalFailed
  | CanonicalizeFailed
  | EmptyProviderName
  | InvalidProviderJson
  | UnmarshalFailed

text \<open>The type a \<open>Typed\<close> without one gets from the scheme.\<close>

definition infer_type :: "('r, 'd) scheme \<Rightarrow> 'r \<Rightarrow> go_type \<Rightarrow> (convert_error, go_type) outcome" where
  "infer_type s r t =
     (if type_is_empty t then
        (case find_type r (bimap_iter (defaults s)) of
           Some typ \<Rightarrow> Ok (if type_is_empty typ then t else typ)
         | None \<Rightarrow> if allow_unknown s then Ok t else Fail UnregisteredType)
      else Ok t)"

definition object_to_raw :: "('r, 'd) codec \<Rightarrow> ('r, 'd) scheme \<Rightarrow> ('r, 'd) typed \<Rightarrow> (convert_error, raw) outcome" where
  "object_to_raw env s obj =
     (if \<not> is_registered s (otype obj) \<and> \<not> allow_unknown s then Fail UnregisteredType
      else (case marshal_object env obj of
              None \<Rightarrow> Fail MarshalFailed
            | Some j \<Rightarrow> (case canonicalize env j of
                          None \<Rightarrow> Fail CanonicalizeFailed
                        | Some c \<Rightarrow> Ok \<lparr>raw_type = otype obj, raw_data = Json c\<rparr>)))"

text \<open>\<open>Convert(from, into)\<close> for a non-nil \<open>into\<close> of type \<open>*Raw\<close>. A nil \<open>*Raw\<close> is not a nil interface;
  asking it for its type is a nil dereference.\<close>

definition convert_to_raw ::
    "('r, 'd) codec \<Rightarrow> ('r, 'd) scheme \<Rightarrow> ('r, 'd) typed_value option \<Rightarrow> (convert_error, raw) outcome" where
  "convert_to_raw env s from =
     (case from of
        None \<Rightarrow> Fail NilArgument
      | Some (RawPtr None) \<Rightarrow> Panic
      | Some (RawPtr (Some r)) \<Rightarrow>
          bind_outcome (infer_type s (raw_rtype env) (raw_type r)) (\<lambda>t. Ok (r\<lparr>raw_type := t\<rparr>))
      | Some (ObjPtr obj) \<Rightarrow>
          bind_outcome (infer_type s (rtype obj) (otype obj)) (\<lambda>t. object_to_raw env s (obj\<lparr>otype := t\<rparr>)))"

section \<open>The internal descriptor\<close>

record label =
  lab_name :: string
  lab_value :: raw_message
  lab_signing :: bool
  lab_version :: string

record digest =
  dig_hash :: string
  dig_norm :: string
  dig_value :: string

record signature_info =
  si_algorithm :: string
  si_value :: string
  si_media :: string
  si_issuer :: string

record timestamp_spec =
  ts_value :: string
  ts_time :: time

record signature =
  sig_name :: string
  sig_digest :: digest
  sig_signature :: signature_info
  sig_timestamp :: "timestamp_spec option"

record provider =
  prov_name :: string
  prov_labels :: "label slice"

record source_ref =
  sr_selector :: "identity option"
  sr_labels :: "label slice"

record element_meta =
  el_name :: string
  el_version :: string
  el_labels :: "label slice"
  el_extra :: "identity option"

record ('r, 'd) resource = element_meta +
  res_source_refs :: "source_ref slice"
  res_type :: string
  res_relation :: string
  res_access :: "('r, 'd) typed_value option"
  res_digest :: "digest option"
  res_created :: time

record ('r, 'd) source = element_meta +
  src_type :: string
  src_access :: "('r, 'd) typed_value option"

record reference = element_meta +
  ref_component :: string
  ref_digest :: digest

record ('r, 'd) component =
  comp_name :: string
  comp_version :: string
  comp_labels :: "label slice"
  comp_created :: string
  comp_contexts :: "('r, 'd) typed_value option slice"
  comp_provider :: provider
  comp_resources :: "('r, 'd) resource slice"
  comp_sources :: "('r, 'd) source slice"
  comp_references :: "reference slice"

record ('r, 'd) descriptor =
  desc_schema :: string
  desc_component :: "('r, 'd) component"
  desc_signatures :: "signature slice"

section \<open>The serialised descriptor\<close>

record v2_label =
  vl_name :: string
  vl_value :: raw_message
  vl_signing :: bool
  vl_version :: string

record v2_digest =
  vd_hash :: string
  vd_norm :: string
  vd_value :: string

record v2_signature_info =
  vi_algorithm :: string
  vi_value :: string
  vi_media :: string
  vi_issuer :: string

record v2_timestamp_spec =
  vt_value :: string
  vt_time :: "time option"

record v2_signature =
  vs_name :: string
  vs_digest :: v2_digest
  vs_signature :: v2_signature_info
  vs_timestamp :: "v2_timestamp_spec option"

record v2_source_ref =
  vr_selector :: "identity option"
  vr_labels :: "v2_label slice"

record v2_element_meta =
  ve_name :: string
  ve_version :: string
  ve_labels :: "v2_label slice"
  ve_extra :: "identity option"

record v2_resource = v2_element_meta +
  v2_source_refs :: "v2_source_ref slice"
  v2_type :: string
  v2_relation :: string
  v2_access :: "raw option"
  v2_digest_of :: "v2_digest option"

record v2_source = v2_element_meta +
  v2_src_type :: string
  v2_src_access :: "raw option"

record v2_reference = v2_element_meta +
  v2_component :: string
  v2_ref_digest :: v2_digest

record v2_component =
  vc_name :: string
  vc_version :: string
  vc_labels :: "v2_label slice"
  vc_created :: string
  vc_contexts :: "raw option slice"
  vc_provider :: string
  vc_resources :: "v2_resource slice"
  vc_sources :: "v2_source slice"
  vc_references :: "v2_reference slice"

record v2_resource_digest =
  rd_name :: string
  rd_version :: string
  rd_extra :: "identity option"
  rd_digest :: "v2_digest option"

record v2_nested_digest =
  nd_name :: string
  nd_version :: string
  nd_digest :: "v2_digest option"
  nd_resources :: "v2_resource_digest slice"

record v2_descriptor =
  vdesc_schema :: string
  vdesc_component :: v2_component
  vdesc_signatures :: "v2_signature slice"
  vdesc_nested :: "v2_nested_digest slice"

section \<open>Element identities\<close>

definition put_nonempty :: "string \<Rightarrow> string \<Rightarrow> identity \<Rightarrow> identity" where
  "put_nonempty k v m = (if v \<noteq> [] then mput k v m else m)"

definition to_identity :: "'a element_meta_scheme \<Rightarrow> identity" where
  "to_identity m =
     put_nonempty ''version'' (el_version m)
       (put_nonempty ''name'' (el_name m) (case el_extra m of None \<Rightarrow> [] | Some i \<Rightarrow> i))"

definition component_identity :: "('r, 'd) component \<Rightarrow> identity" where
  "component_identity c = put_nonempty ''version'' (comp_version c) (put_nonempty ''name'' (comp_name c) [])"

definition to_component_identity :: "reference \<Rightarrow> identity" where
  "to_component_identity r = put_nonempty ''version'' (el_version r) (put_nonempty ''name'' (ref_component r) [])"

end
