(* ===== verification/Descriptor_Convert.thy ===== *)
theory Descriptor_Convert
  imports Descriptor
begin

text \<open>
  The conversions of \<open>bindings/go/descriptor/runtime/convert_v2.go\<close> between the serialised and
  the internal descriptor, and what survives a conversion there and back.

  \<open>encoding/json\<close> writes and reads the provider string through the struct tags of the source;
  reading matches field names exactly.
\<close>

section \<open>From the serialised form\<close>

definition from_v2_label :: "v2_label \<Rightarrow> label" where
  "from_v2_label l =
     \<lparr>lab_name = vl_name l, lab_value = vl_value l, lab_signing = vl_signing l, lab_version = vl_version l\<rparr>"

definition from_v2_labels :: "v2_label slice \<Rightarrow> label slice" where
  "from_v2_labels = map_slice from_v2_label"

definition from_v2_digest :: "v2_digest \<Rightarrow> digest" where
  "from_v2_digest d = \<lparr>dig_hash = vd_hash d, dig_norm = vd_norm d, dig_value = vd_value d\<rparr>"

definition from_v2_source_ref :: "v2_source_ref \<Rightarrow> source_ref" where
  "from_v2_source_ref r = \<lparr>sr_selector = vr_selector r, sr_labels = from_v2_labels (vr_labels r)\<rparr>"

definition from_v2_source_refs :: "v2_source_ref slice \<Rightarrow> source_ref slice" where
  "from_v2_source_refs = map_slice from_v2_source_ref"

text \<open>A nil access stays a nil interface, a non-nil one is a \<open>*Raw\<close> in it.\<close>

definition from_v2_access :: "raw option \<Rightarrow> ('r, 'd) typed_value option" where
  "from_v2_access a = map_option (\<lambda>r. RawPtr (Some r)) a"

definition from_v2_resource :: "v2_resource \<Rightarrow> ('r, 'd) resource" where
  "from_v2_resource r =
     \<lparr>el_name = ve_name r, el_version = ve_version r, el_labels = from_v2_labels (ve_labels r),
      el_extra = ve_extra r, res_source_refs = from_v2_source_refs (v2_source_refs r),
      res_type = v2_type r, res_relation = v2_relation r, res_access = from_v2_access (v2_access r),
      res_digest = map_option from_v2_digest (v2_digest_of r), res_created = 0\<rparr>"

definition from_v2_source :: "v2_source \<Rightarrow> ('r, 'd) source" where
  "from_v2_source r =
     \<lparr>el_name = ve_name r, el_version = ve_version r, el_labels = from_v2_labels (ve_labels r),
      el_extra = ve_extra r, src_type = v2_src_type r, src_access = from_v2_access (v2_src_access r)\<rparr>"

definition from_v2_reference :: "v2_reference \<Rightarrow> reference" where
  "from_v2_reference r =
     \<lparr>el_name = ve_name r, el_version = ve_version r, el_labels = from_v2_labels (ve_labels r),
      el_extra = ve_extra r, ref_component = v2_component r, ref_digest = from_v2_digest (v2_ref_digest r)\<rparr>"

definition from_v2_resources :: "v2_resource slice \<Rightarrow> ('r, 'd) resource slice" where
  "from_v2_resources = map_slice from_v2_resource"

definition from_v2_sources :: "v2_source slice \<Rightarrow> ('r, 'd) source slice" where
  "from_v2_sources = map_slice from_v2_source"

definition from_v2_references :: "v2_reference slice \<Rightarrow> reference slice" where
  "from_v2_references = map_slice from_v2_reference"

text \<open>The copy of a nil \<open>*Raw\<close> is put into the interface, which is then not nil.\<close>

definition from_v2_contexts :: "raw option slice \<Rightarrow> ('r, 'd) typed_value option slice" where
  "from_v2_contexts = map_slice (\<lambda>r. Some (RawPtr r))"

definition from_v2_signature_info :: "v2_signature_info \<Rightarrow> signature_info" where
  "from_v2_signature_info s =
     \<lparr>si_algorithm = vi_algorithm s, si_value = vi_value s, si_media = vi_media s, si_issuer = vi_issuer s\<rparr>"

definition from_v2_timestamp :: "v2_timestamp_spec \<Rightarrow> timestamp_spec" where
  "from_v2_timestamp t = \<lparr>ts_value = vt_value t, ts_time = (case vt_time t of None \<Rightarrow> 0 | Some u \<Rightarrow> u)\<rparr>"

definition from_v2_signature :: "v2_signature \<Rightarrow> signature" where
  "from_v2_signature s =
     \<lparr>sig_name = vs_name s, sig_digest = from_v2_digest (vs_digest s),
      sig_signature = from_v2_signature_info (vs_signature s),
      sig_timestamp = map_option from_v2_timestamp (vs_timestamp s)\<rparr>"

definition from_v2_signatures :: "v2_signature slice \<Rightarrow> signature slice" where
  "from_v2_signatures = map_slice from_v2_signature"

text \<open>Reading the JSON provider into a struct: a missing or null field keeps its zero value.\<close>

definition string_field :: "(string \<times> json) list \<Rightarrow> string \<Rightarrow> (convert_error, string) outcome" where
  "string_field fs k =
     (case map_of fs k of
        None \<Rightarrow> Ok []
      | Some JNull \<Rightarrow> Ok []
      | Some (JStr s) \<Rightarrow> Ok s
      | Some _ \<Rightarrow> Fail UnmarshalFailed)"

definition bool_field :: "(string \<times> json) list \<Rightarrow> string \<Rightarrow> (convert_error, bool) outcome" where
  "bool_field fs k =
     (case map_of fs k of
        None \<Rightarrow> Ok False
      | Some JNull \<Rightarrow> Ok False
      | Some (JBool b) \<Rightarrow> Ok b
      | Some _ \<Rightarrow> Fail UnmarshalFailed)"

definition label_of_json :: "json \<Rightarrow> (convert_error, v2_label) outcome" where
  "label_of_json j =
     (case j of
        JNull \<Rightarrow> Ok \<lparr>vl_name = [], vl_value = NoBytes, vl_signing = False, vl_version = []\<rparr>
      | JObj fs \<Rightarrow>
          bind_outcome (string_field fs ''name'') (\<lambda>n.
          bind_outcome (bool_field fs ''signing'') (\<lambda>s.
          bind_outcome (string_field fs ''version'') (\<lambda>v.
            Ok \<lparr>vl_name = n, vl_value = (case map_of fs ''value'' of None \<Rightarrow> NoBytes | Some d \<Rightarrow> Json d),
                vl_signing = s, vl_version = v\<rparr>)))
      | _ \<Rightarrow> Fail UnmarshalFailed)"

definition labels_field :: "(string \<times> json) list \<Rightarrow> string \<Rightarrow> (convert_error, v2_label slice) outcome" where
  "labels_field fs k =
     (case map_of fs k of
        None \<Rightarrow> Ok None
      | Some JNull \<Rightarrow> Ok None
      | Some (JArr xs) \<Rightarrow> traverse_slice label_of_json (Some xs)
      | Some _ \<Rightarrow> Fail UnmarshalFailed)"

definition from_v2_provider :: "('r, 'd) codec \<Rightarrow> string \<Rightarrow> (convert_error, provider) outcome" where
  "from_v2_provider env p =
     (if p = [] then Ok \<lparr>prov_name = [], prov_labels = None\<rparr>
      else if has_prefix (trim_space p) ''{'' then
        (case parse_text env p of
           None \<Rightarrow> Fail InvalidProviderJson
         | Some (JObj fs) \<Rightarrow>
             bind_outcome (string_field fs ''name'') (\<lambda>n.
             bind_outcome (labels_field fs ''labels'') (\<lambda>ls.
               Ok \<lparr>prov_name = n, prov_labels = from_v2_labels ls\<rparr>))
         | Some _ \<Rightarrow> Fail UnmarshalFailed)
      else Ok \<lparr>prov_name = p, prov_labels = None\<rparr>)"

definition convert_from_v2 :: "('r, 'd) codec \<Rightarrow> v2_descriptor \<Rightarrow> (convert_error, ('r, 'd) descriptor) outcome" where
  "convert_from_v2 env d =
     (let c = vdesc_component d in
      bind_outcome (from_v2_provider env (vc_provider c)) (\<lambda>p.
        Ok \<lparr>desc_schema = vdesc_schema d,
            desc_component =
              \<lparr>comp_name = vc_name c, comp_version = vc_version c, comp_labels = from_v2_labels (vc_labels c),
               comp_created = vc_created c, comp_contexts = from_v2_contexts (vc_contexts c),
               comp_provider = p, comp_resources = from_v2_resources (vc_resources c),
               comp_sources = from_v2_sources (vc_sources c), comp_references = from_v2_references (vc_references c)\<rparr>,
            desc_signatures = from_v2_signatures (vdesc_signatures d)\<rparr>))"

section \<open>To the serialised form\<close>

definition to_v2_label :: "label \<Rightarrow> v2_label" where
  "to_v2_label l =
     \<lparr>vl_name = lab_name l, vl_value = lab_value l, vl_signing = lab_signing l, vl_version = lab_version l\<rparr>"

definition to_v2_labels :: "label slice \<Rightarrow> v2_label slice" where
  "to_v2_labels = map_slice to_v2_label"

definition to_v2_digest :: "digest \<Rightarrow> v2_digest" where
  "to_v2_digest d = \<lparr>vd_hash = dig_hash d, vd_norm = dig_norm d, vd_value = dig_value d\<rparr>"

definition to_v2_source_ref :: "source_ref \<Rightarrow> v2_source_ref" where
  "to_v2_source_ref r = \<lparr>vr_selector = sr_selector r, vr_labels = to_v2_labels (sr_labels r)\<rparr>"

definition to_v2_source_refs :: "source_ref slice \<Rightarrow> v2_source_ref slice" where
  "to_v2_source_refs = map_slice to_v2_source_ref"

definition to_v2_resource ::
    "('r, 'd) codec \<Rightarrow> ('r, 'd) scheme \<Rightarrow> ('r, 'd) resource \<Rightarrow> (convert_error, v2_resource) outcome" where
  "to_v2_resource env s r =
     bind_outcome (convert_to_raw env s (res_access r)) (\<lambda>a.
       Ok \<lparr>ve_name = el_name r, ve_version = el_version r, ve_labels = to_v2_labels (el_labels r),
           ve_extra = el_extra r, v2_source_refs = to_v2_source_refs (res_source_refs r),
           v2_type = res_type r, v2_relation = res_relation r, v2_access = Some a,
           v2_digest_of = map_option to_v2_digest (res_digest r)\<rparr>)"

definition to_v2_source ::
    "('r, 'd) codec \<Rightarrow> ('r, 'd) scheme \<Rightarrow> ('r, 'd) source \<Rightarrow> (convert_error, v2_source) outcome" where
  "to_v2_source env s r =
     bind_outcome (convert_to_raw env s (src_access r)) (\<lambda>a.
       Ok \<lparr>ve_name = el_name r, ve_version = el_version r, ve_labels = to_v2_labels (el_labels r),
           ve_extra = el_extra r, v2_src_type = src_type r, v2_src_access = Some a\<rparr>)"

definition to_v2_reference :: "reference \<Rightarrow> v2_reference" where
  "to_v2_reference r =
     \<lparr>ve_name = el_name r, ve_version = el_version r, ve_labels = to_v2_labels (el_labels r),
      ve_extra = el_extra r, v2_component = ref_component r, v2_ref_digest = to_v2_digest (ref_digest r)\<rparr>"

definition to_v2_resources ::
    "('r, 'd) codec \<Rightarrow> ('r, 'd) scheme \<Rightarrow> ('r, 'd) resource slice \<Rightarrow> (convert_error, v2_resource slice) outcome" where
  "to_v2_resources env s = traverse_slice (to_v2_resource env s)"

definition to_v2_sources ::
    "('r, 'd) codec \<Rightarrow> ('r, 'd) scheme \<Rightarrow> ('r, 'd) source slice \<Rightarrow> (convert_error, v2_source slice) outcome" where
  "to_v2_sources env s = traverse_slice (to_v2_source env s)"

definition to_v2_references :: "reference slice \<Rightarrow> v2_reference slice" where
  "to_v2_references = map_slice to_v2_reference"

definition to_v2_contexts ::
    "('r, 'd) codec \<Rightarrow> ('r, 'd) scheme \<Rightarrow> ('r, 'd) typed_value option slice \<Rightarrow> (convert_error, raw option slice) outcome" where
  "to_v2_contexts env s =
     traverse_slice (\<lambda>c. bind_outcome (convert_to_raw env s c) (\<lambda>r. Ok (Some r)))"

definition to_v2_signature_info :: "signature_info \<Rightarrow> v2_signature_info" where
  "to_v2_signature_info s =
     \<lparr>vi_algorithm = si_algorithm s, vi_value = si_value s, vi_media = si_media s, vi_issuer = si_issuer s\<rparr>"

definition to_v2_timestamp :: "timestamp_spec \<Rightarrow> v2_timestamp_spec" where
  "to_v2_timestamp t = \<lparr>vt_value = ts_value t, vt_time = (if ts_time t = 0 then None else Some (ts_time t))\<rparr>"

definition to_v2_signature :: "signature \<Rightarrow> v2_signature" where
  "to_v2_signature s =
     \<lparr>vs_name = sig_name s, vs_digest = to_v2_digest (sig_digest s),
      vs_signature = to_v2_signature_info (sig_signature s),
      vs_timestamp = map_option to_v2_timestamp (sig_timestamp s)\<rparr>"

definition to_v2_signatures :: "signature slice \<Rightarrow> v2_signature slice" where
  "to_v2_signatures = map_slice to_v2_signature"

text \<open>\<open>json.Marshal\<close> of a raw message, of a label and of the provider struct with its tags.\<close>

fun message_json :: "raw_message \<Rightarrow> json option" where
  "message_json NoBytes = Some JNull"
| "message_json (Json j) = Some j"
| "message_json (NotJson s) = None"

fun all_some :: "'a option list \<Rightarrow> 'a list option" where
  "all_some [] = Some []"
| "all_some (x # xs) = (case x of None \<Rightarrow> None | Some y \<Rightarrow> map_option ((#) y) (all_some xs))"

definition string_omitempty :: "string \<Rightarrow> string \<Rightarrow> (string \<times> json) list" where
  "string_omitempty k s = (if s = [] then [] else [(k, JStr s)])"

definition label_json :: "v2_label \<Rightarrow> json option" where
  "label_json l =
     map_option (\<lambda>v. JObj ([(''name'', JStr (vl_name l)), (''value'', v)]
         @ (if vl_signing l then [(''signing'', JBool True)] else []) @ string_omitempty ''version'' (vl_version l)))
       (message_json (vl_value l))"

definition labels_json :: "v2_label slice \<Rightarrow> (string \<times> json) list option" where
  "labels_json ls =
     (case ls of
        None \<Rightarrow> Some []
      | Some [] \<Rightarrow> Some []
      | Some xs \<Rightarrow> map_option (\<lambda>js. [(''labels'', JArr js)]) (all_some (map label_json xs)))"

definition provider_json :: "string \<Rightarrow> v2_label slice \<Rightarrow> json option" where
  "provider_json name labels = map_option (\<lambda>ls. JObj ((''name'', JStr name) # ls)) (labels_json labels)"

definition to_v2_provider :: "('r, 'd) codec \<Rightarrow> provider \<Rightarrow> (convert_error, string) outcome" where
  "to_v2_provider env p =
     (if prov_name p = [] then Fail EmptyProviderName
      else if prov_labels p = None then Ok (prov_name p)
      else (case provider_json (prov_name p) (to_v2_labels (prov_labels p)) of
              None \<Rightarrow> Fail MarshalFailed
            | Some j \<Rightarrow> Ok (marshal_text env j)))"

definition convert_to_v2 ::
    "('r, 'd) codec \<Rightarrow> ('r, 'd) scheme \<Rightarrow> ('r, 'd) descriptor \<Rightarrow> (convert_error, v2_descriptor) outcome" where
  "convert_to_v2 env s d =
     (let c = desc_component d in
      bind_outcome (to_v2_provider env (comp_provider c)) (\<lambda>p.
      bind_outcome (to_v2_resources env s (comp_resources c)) (\<lambda>res.
      bind_outcome (to_v2_sources env s (comp_sources c)) (\<lambda>srcs.
      bind_outcome (to_v2_contexts env s (comp_contexts c)) (\<lambda>ctxs.
        Ok \<lparr>vdesc_schema = desc_schema d,
            vdesc_component =
              \<lparr>vc_name = comp_name c, vc_version = comp_version c, vc_labels = to_v2_labels (comp_labels c),
               vc_created = comp_created c, vc_contexts = ctxs, vc_provider = p, vc_resources = res,
               vc_sources = srcs, vc_references = to_v2_references (comp_references c)\<rparr>,
            vdesc_signatures = to_v2_signatures (desc_signatures d), vdesc_nested = None\<rparr>)))))"

section \<open>Local blobs\<close>

record ('r, 'd) local_blob =
  lb_type :: go_type
  lb_reference :: string
  lb_media :: string
  lb_name :: string
  lb_global :: "('r, 'd) typed_value option"

record v2_local_blob =
  vb_type :: go_type
  vb_reference :: string
  vb_media :: string
  vb_name :: string
  vb_global :: "raw option"

definition from_v2_local_blob :: "v2_local_blob option \<Rightarrow> ('r, 'd) local_blob option" where
  "from_v2_local_blob b =
     map_option (\<lambda>b. \<lparr>lb_type = vb_type b, lb_reference = vb_reference b, lb_media = vb_media b,
                     lb_name = vb_name b, lb_global = from_v2_access (vb_global b)\<rparr>) b"

definition to_v2_local_blob ::
    "('r, 'd) codec \<Rightarrow> ('r, 'd) scheme \<Rightarrow> ('r, 'd) local_blob option \<Rightarrow> (convert_error, v2_local_blob option) outcome" where
  "to_v2_local_blob env s b =
     (case b of
        None \<Rightarrow> Ok None
      | Some b \<Rightarrow>
          bind_outcome
            (case lb_global b of
               None \<Rightarrow> Ok None
             | Some g \<Rightarrow> bind_outcome (convert_to_raw env s (Some g)) (\<lambda>r. Ok (Some r)))
            (\<lambda>g. Ok (Some \<lparr>vb_type = lb_type b, vb_reference = lb_reference b, vb_media = lb_media b,
                          vb_name = lb_name b, vb_global = g\<rparr>)))"

end
