(* ===== verification/Json_Numbers.thy ===== *)
theory Json_Numbers
  imports Json
begin

text \<open>
  Numbers as \<open>json.Unmarshal\<close> decodes them into an interface: the token is read into a float64,
  rounded to nearest with ties to even, and a number out of range is an error. A decoded number is
  kept as a token again, the exact decimal expansion of the float64, so that two numbers are equal
  exactly if their tokens are. A negative zero is a zero, as RFC 8785 writes it.
\<close>

section \<open>The token\<close>

text \<open>A number is a sign, an integer of decimal digits, and a power of ten. Integers carry the arithmetic.\<close>

definition decimal_digit :: "char \<Rightarrow> bool" where
  "decimal_digit c \<longleftrightarrow> 48 \<le> (of_char c :: int) \<and> (of_char c :: int) \<le> 57"

definition digits_value :: "string \<Rightarrow> int" where
  "digits_value s = foldl (\<lambda>n c. 10 * n + (of_char c - 48)) 0 s"

definition all_digits :: "string \<Rightarrow> bool" where
  "all_digits s \<longleftrightarrow> s \<noteq> [] \<and> list_all decimal_digit s"

text \<open>The exponent part after its e, and the fraction part with its point; both may be absent.\<close>

definition parse_exponent :: "string \<Rightarrow> int option" where
  "parse_exponent s =
     (case s of
        [] \<Rightarrow> Some 0
      | e # cs \<Rightarrow>
          if e \<noteq> CHR ''e'' \<and> e \<noteq> CHR ''E'' then None
          else (case cs of
                  [] \<Rightarrow> None
                | c # ds \<Rightarrow>
                    if c = CHR ''-'' then if all_digits ds then Some (- digits_value ds) else None
                    else let ds' = (if c = CHR ''+'' then ds else cs) in if all_digits ds' then Some (digits_value ds') else None))"

definition split_fraction :: "string \<Rightarrow> (string \<times> string) option" where
  "split_fraction s =
     (case s of
        [] \<Rightarrow> Some ([], [])
      | c # cs \<Rightarrow>
          if c \<noteq> CHR ''.'' then Some ([], s)
          else if takeWhile decimal_digit cs = [] then None
          else Some (takeWhile decimal_digit cs, dropWhile decimal_digit cs))"

definition parse_unsigned :: "string \<Rightarrow> (int \<times> int) option" where
  "parse_unsigned s =
     (let whole = takeWhile decimal_digit s in
      if whole = [] \<or> hd whole = CHR ''0'' \<and> tl whole \<noteq> [] then None
      else (case split_fraction (dropWhile decimal_digit s) of
              None \<Rightarrow> None
            | Some (fraction, rest) \<Rightarrow>
                map_option (\<lambda>e. (digits_value (whole @ fraction), e - int (length fraction))) (parse_exponent rest)))"

definition parse_number :: "string \<Rightarrow> (bool \<times> int \<times> int) option" where
  "parse_number s =
     (case s of
        c # cs \<Rightarrow> if c = CHR ''-'' then map_option (Pair True) (parse_unsigned cs) else map_option (Pair False) (parse_unsigned s)
      | [] \<Rightarrow> None)"

section \<open>The nearest float64\<close>

text \<open>The integer nearest to a fraction, the even one of two.\<close>

definition round_even :: "int \<Rightarrow> int \<Rightarrow> int" where
  "round_even n d =
     (let q = n div d; r = n mod d in
      if 2 * r < d \<or> 2 * r = d \<and> q mod 2 = 0 then q else q + 1)"

text \<open>The bits of a positive integer, and a fraction scaled by a power of two.\<close>

function bit_count :: "int \<Rightarrow> int" where
  "bit_count n = (if n \<le> 0 then 0 else 1 + bit_count (n div 2))"
  by pat_completeness auto

termination by (relation "measure nat") auto

declare bit_count.simps [simp del]

definition scale :: "int \<Rightarrow> int \<Rightarrow> int \<Rightarrow> int \<times> int" where
  "scale n d q = (if 0 \<le> q then (n, d * 2 ^ nat q) else (n * 2 ^ nat (- q), d))"

text \<open>The binary exponent of the float64 nearest to a positive fraction: 53 bits of mantissa, at least
  those of the smallest subnormal number.\<close>

definition float_exponent :: "int \<Rightarrow> int \<Rightarrow> int" where
  "float_exponent n d =
     (let q = bit_count n - bit_count d - 53; (a, b) = scale n d q in
      max (- 1074) (if b * 2 ^ 53 \<le> a then q + 1 else q))"

definition round_float64 :: "int \<Rightarrow> int \<Rightarrow> (int \<times> int) option" where
  "round_float64 n d =
     (if n = 0 then Some (0, 0)
      else let q = float_exponent n d; (a, b) = scale n d q; m = round_even a b in
           if 971 < q \<or> q = 971 \<and> 2 ^ 53 \<le> m then None else Some (m, q))"

section \<open>The decoded token\<close>

function show_digits :: "int \<Rightarrow> string" where
  "show_digits n = (if n < 10 then [char_of (48 + n)] else show_digits (n div 10) @ [char_of (48 + n mod 10)])"
  by pat_completeness auto

termination by (relation "measure nat") auto

declare show_digits.simps [simp del]

fun halve :: "nat \<Rightarrow> int \<Rightarrow> int \<times> nat" where
  "halve 0 m = (m, 0)"
| "halve (Suc p) m = (if m mod 2 = 0 then halve p (m div 2) else (m, Suc p))"

definition show_float64 :: "int \<Rightarrow> int \<Rightarrow> string" where
  "show_float64 m q =
     (if 0 \<le> q then show_digits (m * 2 ^ nat q)
      else let (k, p) = halve (nat (- q)) m in
           if p = 0 then show_digits k else show_digits (k * 5 ^ p) @ ''e-'' @ show_digits (int p))"

definition decode_number :: "string \<Rightarrow> string option" where
  "decode_number s =
     (case parse_number s of
        None \<Rightarrow> None
      | Some (neg, m, e) \<Rightarrow>
          map_option (\<lambda>(k, q). if neg \<and> k \<noteq> 0 then CHR ''-'' # show_float64 k q else show_float64 k q)
            (if 0 \<le> e then round_float64 (m * 10 ^ nat e) 1 else round_float64 m (10 ^ nat (- e))))"

section \<open>Samples\<close>

lemma show_digit_chars: "char_of (48::int) = CHR ''0''" "char_of (49::int) = CHR ''1''"
  by (simp_all add: char_of_def)

lemma halve_numeral:
  "halve (numeral k) m = (if m mod 2 = 0 then halve (pred_numeral k) (m div 2) else (m, numeral k))"
  by (simp add: numeral_eq_Suc)

lemmas decode_number_simps = decode_number_def parse_number_def parse_unsigned_def split_fraction_def parse_exponent_def
  all_digits_def digits_value_def decimal_digit_def round_float64_def float_exponent_def scale_def round_even_def
  bit_count.simps show_float64_def show_digits.simps halve_numeral char_of_def

lemma decode_number_samples:
  "decode_number ''1.0'' = Some ''1''" "decode_number ''10e-1'' = Some ''1''"
  "decode_number ''-0.0'' = Some ''0''" "decode_number ''-2.50'' = Some ''-25e-1''" "decode_number ''01'' = None"
  by (simp_all add: decode_number_simps Let_def)

lemma decode_number_rounds: "decode_number ''9007199254740993'' = Some ''9007199254740992''"
  by (simp add: decode_number_simps Let_def)

section \<open>Documents\<close>

text \<open>A document decodes if each of its numbers does.\<close>

definition float_token :: "string \<Rightarrow> string" where
  "float_token n = (case decode_number n of None \<Rightarrow> n | Some t \<Rightarrow> t)"

fun numbers_in_range :: "json \<Rightarrow> bool" where
  "numbers_in_range (JNum n) = (decode_number n \<noteq> None)"
| "numbers_in_range (JArr xs) = list_all numbers_in_range xs"
| "numbers_in_range (JObj fs) = list_all (\<lambda>(_, v). numbers_in_range v) fs"
| "numbers_in_range _ = True"

fun float_numbers :: "json \<Rightarrow> json" where
  "float_numbers (JNum n) = JNum (float_token n)"
| "float_numbers (JArr xs) = JArr (map float_numbers xs)"
| "float_numbers (JObj fs) = JObj (map (\<lambda>(k, v). (k, float_numbers v)) fs)"
| "float_numbers v = v"

definition decode_numbers :: "json \<Rightarrow> json option" where
  "decode_numbers v = (if numbers_in_range v then Some (float_numbers v) else None)"

definition float_fields :: "(string \<times> json) list \<Rightarrow> (string \<times> json) list" where
  "float_fields = map (\<lambda>(k, v). (k, float_numbers v))"

lemma float_fields_simps [simp]:
  "float_fields [] = []" "float_fields ((k, v) # fs) = (k, float_numbers v) # float_fields fs"
  "float_fields (fs @ gs) = float_fields fs @ float_fields gs"
  "map fst (float_fields fs) = map fst fs" "float_fields fs = [] \<longleftrightarrow> fs = []"
  by (simp_all add: float_fields_def comp_def case_prod_beta)

lemma float_fields_keys [simp]: "fst ` set (float_fields fs) = fst ` set fs"
  by (metis float_fields_simps(4) list.set_map)

lemma float_numbers_object [simp]: "float_numbers (JObj fs) = JObj (float_fields fs)"
  by (simp add: float_fields_def)

declare float_numbers.simps(3) [simp del]

lemma float_numbers_null [simp]: "float_numbers v = JNull \<longleftrightarrow> v = JNull"
  by (cases v) auto

lemma float_numbers_string [simp]: "float_numbers v = JStr s \<longleftrightarrow> v = JStr s"
  by (cases v) auto

lemma map_of_float_fields: "map_of (float_fields fs) k = map_option float_numbers (map_of fs k)"
  by (induction fs) auto

lemma float_fields_delete: "float_fields (mdel k fs) = mdel k (float_fields fs)"
  by (induction fs) (auto simp: AList.delete_eq)

lemma json_distinct_float [simp]: "json_distinct (float_numbers v) = json_distinct v"
proof (induction v rule: float_numbers.induct)
  case (3 fs)
  then show ?case by (auto simp: float_fields_def list_all_iff comp_def case_prod_beta)
qed (auto simp: list_all_iff)

lemma numbers_same: "same_json v w \<Longrightarrow> same_json (float_numbers v) (float_numbers w) \<and> numbers_in_range v = numbers_in_range w"
proof (induction rule: same_json.induct)
  case (same_arr xs ys)
  then have "list_all2 same_json (map float_numbers xs) (map float_numbers ys) \<and> list_all numbers_in_range xs = list_all numbers_in_range ys"
    by (induction rule: list_all2_induct) auto
  then show ?case by (auto intro: same_json.intros)
next
  case (same_obj fs gs)
  have ih: "rel_option (\<lambda>v w. same_json (float_numbers v) (float_numbers w) \<and> numbers_in_range v = numbers_in_range w) (map_of fs k) (map_of gs k)" for k
    using same_obj(3) by (auto elim!: option.rel_mono_strong)
  have "rel_option same_json (map_of (float_fields fs) k) (map_of (float_fields gs) k)" for k
    using ih [of k] by (auto simp: map_of_float_fields option.rel_map elim!: option.rel_mono_strong)
  moreover have range: "list_all (\<lambda>(_, v). numbers_in_range v) hs = (\<forall>k v. map_of hs k = Some v \<longrightarrow> numbers_in_range v)"
    if "distinct (map fst hs)" for hs
    using that by (auto simp: list_all_iff dest: map_of_SomeD)
  have "(\<forall>v. map_of fs k = Some v \<longrightarrow> numbers_in_range v) = (\<forall>v. map_of gs k = Some v \<longrightarrow> numbers_in_range v)" for k
    using ih [of k] by (cases "map_of fs k"; cases "map_of gs k") auto
  then have "numbers_in_range (JObj fs) = numbers_in_range (JObj gs)"
    unfolding numbers_in_range.simps range [OF same_obj(1)] range [OF same_obj(2)] by blast
  ultimately show ?case using same_obj(1,2) by (auto intro!: same_json.same_obj)
qed (auto intro: same_json.intros)

end
