(* ===== verification/Jcs.thy ===== *)
theory Jcs
  imports Json_Numbers
begin

text \<open>
  The normalisation engine of \<open>bindings/go/descriptor/normalisation/engine/jcs\<close>: transformation
  rules (\<open>transformation_rules.go\<close>) and the recursive preparation of a JSON document
  (\<open>normalise.go\<close>). The rules of the source are values of one interface; here they are the
  constructors of a datatype. A rule that does not fit the document panics, as in the source.
  Values come from \<open>json.Unmarshal\<close>, so marshalling them again cannot fail.
\<close>

section \<open>Rules\<close>

type_synonym 'a jcs = "(unit, 'a) outcome"

datatype rules =
    MapExcludes "(string \<times> rules option) list"
  | MapIncludes "(string \<times> rules option) list"
  | NoExcludes
  | ArrayExcludes "rules option"
  | DynamicArrayExcludes "(json \<Rightarrow> bool) option" "(json \<Rightarrow> json jcs) option" "rules option"
  | ExcludeEmpty "rules option"
  | MapValue "(json \<Rightarrow> json jcs) option" "rules option"

text \<open>\<open>Field\<close>: the name to use, empty to leave the field out, the value, and the rules for it.\<close>

fun field_rule :: "rules \<Rightarrow> string \<Rightarrow> json \<Rightarrow> (string \<times> json \<times> rules option) jcs" where
  "field_rule (MapExcludes rs) name v =
     (case map_of rs name of
        Some None \<Rightarrow> Ok ([], JNull, None)
      | Some (Some r) \<Rightarrow> Ok (name, v, Some r)
      | None \<Rightarrow> Ok (name, v, Some NoExcludes))"
| "field_rule (MapIncludes rs) name v =
     (case map_of rs name of
        Some None \<Rightarrow> Ok (name, v, Some NoExcludes)
      | Some (Some r) \<Rightarrow> Ok (name, v, Some r)
      | None \<Rightarrow> Ok ([], JNull, None))"
| "field_rule NoExcludes name v = Ok (name, v, Some NoExcludes)"
| "field_rule (ArrayExcludes c) name v = Panic"
| "field_rule (DynamicArrayExcludes checker mapper c) name v = Panic"
| "field_rule (ExcludeEmpty None) name v =
     (if v = JNull then Ok ([], JNull, Some (ExcludeEmpty None)) else Ok (name, v, Some (ExcludeEmpty None)))"
| "field_rule (ExcludeEmpty (Some r)) name v = field_rule r name v"
| "field_rule (MapValue m None) name v = Ok (name, v, Some NoExcludes)"
| "field_rule (MapValue m (Some r)) name v = field_rule r name v"

text \<open>\<open>Element\<close>: whether to leave the element out, its value, and the rules for it.\<close>

fun element_rule :: "rules \<Rightarrow> json \<Rightarrow> (bool \<times> json \<times> rules option) jcs" where
  "element_rule (MapExcludes rs) v = Panic"
| "element_rule (MapIncludes rs) v = Panic"
| "element_rule NoExcludes v = Ok (False, v, Some NoExcludes)"
| "element_rule (ArrayExcludes c) v = Ok (False, v, c)"
| "element_rule (DynamicArrayExcludes checker mapper c) v =
     (if (case checker of None \<Rightarrow> False | Some check \<Rightarrow> check v) then Ok (True, v, None)
      else (case mapper of
              None \<Rightarrow> Ok (False, v, c)
            | Some m \<Rightarrow> bind_outcome (m v) (\<lambda>w. Ok (False, w, c))))"
| "element_rule (ExcludeEmpty None) v =
     (if v = JNull then Ok (True, JNull, Some (ExcludeEmpty None)) else Ok (False, v, Some (ExcludeEmpty None)))"
| "element_rule (ExcludeEmpty (Some r)) v = element_rule r v"
| "element_rule (MapValue m None) v = Ok (True, v, Some NoExcludes)"
| "element_rule (MapValue m (Some r)) v = element_rule r v"

section \<open>Normalised values\<close>

text \<open>A nil \<open>Normalised\<close>, the shared \<open>Null\<close>, or a wrapped value.\<close>

datatype normalised = Nil_normalised | Null_normalised | Wrapped json

fun is_empty :: "normalised \<Rightarrow> bool" where
  "is_empty (Wrapped (JObj fs)) = (fs = [])"
| "is_empty (Wrapped (JArr xs)) = (xs = [])"
| "is_empty (Wrapped v) = False"
| "is_empty _ = True"

fun filter_rule :: "rules \<Rightarrow> normalised \<Rightarrow> normalised" where
  "filter_rule (ExcludeEmpty r) v = (if is_empty v then Nil_normalised else v)"
| "filter_rule (MapValue m (Some r)) v = filter_rule r v"
| "filter_rule _ v = v"

fun map_value :: "rules \<Rightarrow> json \<Rightarrow> json jcs" where
  "map_value (MapValue (Some m) c) v = m v"
| "map_value _ v = Ok v"

section \<open>Preparation\<close>

lemma size_map_of [termination_simp]:
  "map_of rs k = Some (Some r) \<Longrightarrow> size r < Suc (size_list (size_prod (\<lambda>_. 0) (size_option size)) rs)"
  by (induction rs) (auto split: if_splits)

text \<open>The rules a rule hands down are smaller, or the same when the value is handed down unmapped.\<close>

definition plain_rule :: "rules \<Rightarrow> bool" where
  "plain_rule r \<longleftrightarrow> r = NoExcludes \<or> r = ExcludeEmpty None"

definition rule_of :: "rules option \<Rightarrow> rules" where
  "rule_of r = (case r of None \<Rightarrow> NoExcludes | Some r \<Rightarrow> r)"

lemma field_rule_size:
  "field_rule r name v = Ok (n, w, prop) \<Longrightarrow> n \<noteq> []
    \<Longrightarrow> size (rule_of prop) < size r \<or> plain_rule r \<and> rule_of prop = r \<and> w = v"
proof (induction r name v rule: field_rule.induct)
  case (1 rs name v)
  then show ?case using size_map_of [of rs name] by (auto simp: rule_of_def split: option.splits)
next
  case (2 rs name v)
  then show ?case using size_map_of [of rs name] by (auto simp: rule_of_def split: option.splits)
qed (auto simp: rule_of_def plain_rule_def split: if_splits)

lemma element_rule_size:
  "element_rule r v = Ok (False, w, prop)
    \<Longrightarrow> size (rule_of prop) < size r \<or> plain_rule r \<and> rule_of prop = r \<and> w = v"
  by (induction r v rule: element_rule.induct)
    (auto simp: rule_of_def plain_rule_def bind_outcome_Ok_iff split: if_splits option.splits)

lemma bind_outcome_cong [fundef_cong]:
  "r = s \<Longrightarrow> (\<And>x. s = Ok x \<Longrightarrow> f x = g x) \<Longrightarrow> bind_outcome r f = bind_outcome s g"
  by (cases s) auto

definition fields_size :: "(string \<times> json) list \<Rightarrow> nat" where
  "fields_size = size_list (size_prod (\<lambda>_. 0) size)"

definition elements_size :: "json list \<Rightarrow> nat" where
  "elements_size = size_list size"

lemma map_value_plain: "plain_rule r \<Longrightarrow> map_value r v = Ok v"
  by (auto simp: plain_rule_def)

text \<open>\<open>Prepare\<close>, \<open>prepareStruct\<close> and \<open>prepareArray\<close>. Setting a field to the shared null passes a nil
  interface to \<open>SetField\<close>, which dereferences it.\<close>

function prepare :: "rules option \<Rightarrow> json \<Rightarrow> normalised jcs"
  and prepare_struct :: "rules \<Rightarrow> (string \<times> json) list \<Rightarrow> (string \<times> json) list \<Rightarrow> (string \<times> json) list jcs"
  and prepare_array :: "rules \<Rightarrow> json list \<Rightarrow> json list \<Rightarrow> json list jcs" where
  "prepare ro v =
     (if v = JNull then Ok Null_normalised
      else bind_outcome (map_value (rule_of ro) v)
        (\<lambda>w. case w of
               JObj fs \<Rightarrow> bind_outcome (prepare_struct (rule_of ro) fs [])
                 (\<lambda>out. Ok (filter_rule (rule_of ro) (Wrapped (JObj out))))
             | JArr xs \<Rightarrow> bind_outcome (prepare_array (rule_of ro) xs [])
                 (\<lambda>out. Ok (filter_rule (rule_of ro) (Wrapped (JArr out))))
             | _ \<Rightarrow> Ok (Wrapped w)))"
| "prepare_struct r [] out = Ok out"
| "prepare_struct r ((key, v) # fs) out =
     (if v = JNull then prepare_struct r fs out
      else bind_outcome (field_rule r key v)
        (\<lambda>(name, mapped, prop).
           if name = [] then prepare_struct r fs out
           else bind_outcome (prepare prop mapped)
             (\<lambda>nested. case nested of
                         Nil_normalised \<Rightarrow> prepare_struct r fs out
                       | Null_normalised \<Rightarrow> Panic
                       | Wrapped w \<Rightarrow> prepare_struct r fs (mput name w out))))"
| "prepare_array r [] out = Ok out"
| "prepare_array r (v # vs) out =
     bind_outcome (element_rule r v)
       (\<lambda>(exclude, mapped, prop).
          if exclude then prepare_array r vs out
          else bind_outcome (prepare prop mapped)
            (\<lambda>nested. prepare_array r vs (out @ [case nested of Wrapped w \<Rightarrow> w | _ \<Rightarrow> JNull])))"
  by pat_completeness auto

termination
proof (relation "inv_image (less_than <*lex*> less_than <*lex*> less_than)
    (\<lambda>x. case x of
           Inl (ro, v) \<Rightarrow> (size (rule_of ro), if plain_rule (rule_of ro) then 0 else Suc 0, size v)
         | Inr (Inl (r, fs, out)) \<Rightarrow> (size r, 0, fields_size fs)
         | Inr (Inr (r, xs, out)) \<Rightarrow> (size r, 0, elements_size xs))", goal_cases)
  case (2 ro v x fs)
  then show ?case by (auto simp: map_value_plain fields_size_def elements_size_def)
next
  case (3 ro v x xs)
  then show ?case by (auto simp: map_value_plain fields_size_def elements_size_def)
qed (auto simp: fields_size_def elements_size_def dest: field_rule_size element_rule_size)

declare prepare.simps [simp del]

text \<open>\<open>PrepareNormalisation\<close> of a document: it is decoded as a map, where a top-level null is a nil map,
  then as an array. Anything else, and a document with a number out of range, is left as it is, and
  no rule applies to it.\<close>

definition prepare_normalisation :: "rules \<Rightarrow> json \<Rightarrow> normalised jcs" where
  "prepare_normalisation r v =
     (case decode_numbers v of
        Some (JObj fs) \<Rightarrow> bind_outcome (prepare_struct r fs []) (\<lambda>out. Ok (Wrapped (JObj out)))
      | Some JNull \<Rightarrow> Ok (Wrapped (JObj []))
      | Some (JArr xs) \<Rightarrow> bind_outcome (prepare_array r xs []) (\<lambda>out. Ok (Wrapped (JArr out)))
      | _ \<Rightarrow> Ok (Wrapped v))"

end
