(* ===== verification/Normalisation.thy ===== *)
theory Normalisation
  imports Descriptor_Convert Jcs
begin

text \<open>
  The normalisation algorithms jsonNormalisation/v4alpha1, v4alpha2 and v4alpha3:
  \<open>bindings/go/descriptor/normalisation/json/internal/common/normalisation.go\<close> and the rules of
  \<open>v4alpha*/normalisation.go\<close>, on the JSON document that \<open>encoding/json\<close> writes for a serialised
  descriptor by the struct tags of \<open>descriptor/v2/descriptor.go\<close>. The result is the canonical
  document; its text is what is hashed and signed.
\<close>

section \<open>The document of a serialised descriptor\<close>

type_synonym json_fields = "(string \<times> json) list"

definition concat_fields :: "json_fields option list \<Rightarrow> json_fields option" where
  "concat_fields fss = map_option concat (all_some fss)"

definition object_json :: "json_fields option list \<Rightarrow> json option" where
  "object_json fss = map_option JObj (concat_fields fss)"

definition identity_json :: "identity \<Rightarrow> json" where
  "identity_json i = JObj (map (\<lambda>(k, v). (k, JStr v)) i)"

definition identity_omitempty :: "string \<Rightarrow> identity option \<Rightarrow> json_fields" where
  "identity_omitempty k i = (case i of None \<Rightarrow> [] | Some m \<Rightarrow> if m = [] then [] else [(k, identity_json m)])"

definition list_field :: "string \<Rightarrow> ('a \<Rightarrow> json option) \<Rightarrow> 'a slice \<Rightarrow> json_fields option" where
  "list_field k f s =
     (case s of
        None \<Rightarrow> Some [(k, JNull)]
      | Some xs \<Rightarrow> map_option (\<lambda>js. [(k, JArr js)]) (all_some (map f xs)))"

definition list_omitempty :: "string \<Rightarrow> ('a \<Rightarrow> json option) \<Rightarrow> 'a slice \<Rightarrow> json_fields option" where
  "list_omitempty k f s = (if s = None \<or> s = Some [] then Some [] else list_field k f s)"

definition raw_json :: "raw option \<Rightarrow> json option" where
  "raw_json r =
     (case r of
        None \<Rightarrow> Some JNull
      | Some x \<Rightarrow> (case raw_data x of Json j \<Rightarrow> Some j | _ \<Rightarrow> None))"

definition digest_json :: "v2_digest \<Rightarrow> json" where
  "digest_json d = JObj [(''hashAlgorithm'', JStr (vd_hash d)), (''normalisationAlgorithm'', JStr (vd_norm d)),
     (''value'', JStr (vd_value d))]"

definition zero_digest :: v2_digest where
  "zero_digest = \<lparr>vd_hash = [], vd_norm = [], vd_value = []\<rparr>"

definition element_fields :: "'a v2_element_meta_scheme \<Rightarrow> json_fields option list" where
  "element_fields e =
     [Some [(''name'', JStr (ve_name e)), (''version'', JStr (ve_version e))], labels_json (ve_labels e),
      Some (identity_omitempty ''extraIdentity'' (ve_extra e))]"

definition source_ref_json :: "v2_source_ref \<Rightarrow> json option" where
  "source_ref_json r = object_json [Some (identity_omitempty ''identitySelector'' (vr_selector r)), labels_json (vr_labels r)]"

definition resource_json :: "v2_resource \<Rightarrow> json option" where
  "resource_json r =
     object_json (element_fields r @
       [list_omitempty ''srcRefs'' source_ref_json (v2_source_refs r),
        Some [(''type'', JStr (v2_type r)), (''relation'', JStr (v2_relation r))],
        map_option (\<lambda>a. [(''access'', a)]) (raw_json (v2_access r)),
        Some (case v2_digest_of r of None \<Rightarrow> [] | Some d \<Rightarrow> [(''digest'', digest_json d)])])"

definition source_json :: "v2_source \<Rightarrow> json option" where
  "source_json r =
     object_json (element_fields r @
       [Some [(''type'', JStr (v2_src_type r))], map_option (\<lambda>a. [(''access'', a)]) (raw_json (v2_src_access r))])"

definition reference_json :: "v2_reference \<Rightarrow> json option" where
  "reference_json r =
     object_json (element_fields r @
       [Some [(''componentName'', JStr (v2_component r))],
        Some (if v2_ref_digest r = zero_digest then [] else [(''digest'', digest_json (v2_ref_digest r))])])"

definition component_json :: "v2_component \<Rightarrow> json option" where
  "component_json c =
     object_json
       [Some [(''name'', JStr (vc_name c)), (''version'', JStr (vc_version c))], labels_json (vc_labels c),
        Some (string_omitempty ''creationTime'' (vc_created c)),
        list_field ''repositoryContexts'' raw_json (vc_contexts c),
        Some [(''provider'', JStr (vc_provider c))],
        list_field ''resources'' resource_json (vc_resources c),
        list_field ''sources'' source_json (vc_sources c),
        list_field ''componentReferences'' reference_json (vc_references c)]"

definition signature_json :: "('r, 'd) codec \<Rightarrow> v2_signature \<Rightarrow> json option" where
  "signature_json env s =
     object_json
       [Some [(''name'', JStr (vs_name s)), (''digest'', digest_json (vs_digest s)),
              (''signature'', JObj ([(''algorithm'', JStr (vi_algorithm (vs_signature s))),
                 (''value'', JStr (vi_value (vs_signature s))), (''mediaType'', JStr (vi_media (vs_signature s)))]
                 @ string_omitempty ''issuer'' (vi_issuer (vs_signature s))))],
        (case vs_timestamp s of
           None \<Rightarrow> Some []
         | Some t \<Rightarrow>
             map_option (\<lambda>j. [(''timestamp'', j)])
               (object_json
                  [Some [(''value'', JStr (vt_value t))],
                   (case vt_time t of None \<Rightarrow> Some [] | Some u \<Rightarrow> map_option (\<lambda>j. [(''time'', j)]) (marshal_time env u))]))]"

definition resource_digest_json :: "v2_resource_digest \<Rightarrow> json option" where
  "resource_digest_json r =
     Some (JObj ([(''name'', JStr (rd_name r)), (''version'', JStr (rd_version r))]
       @ identity_omitempty ''extraIdentity'' (rd_extra r)
       @ [(''digest'', case rd_digest r of None \<Rightarrow> JNull | Some d \<Rightarrow> digest_json d)]))"

definition nested_digest_json :: "v2_nested_digest \<Rightarrow> json option" where
  "nested_digest_json n =
     object_json
       [Some [(''name'', JStr (nd_name n)), (''version'', JStr (nd_version n))],
        Some (case nd_digest n of None \<Rightarrow> [] | Some d \<Rightarrow> [(''digest'', digest_json d)]),
        list_omitempty ''resourceDigests'' resource_digest_json (nd_resources n)]"

definition descriptor_json :: "('r, 'd) codec \<Rightarrow> v2_descriptor \<Rightarrow> json option" where
  "descriptor_json env d =
     object_json
       [Some [(''meta'', JObj [(''schemaVersion'', JStr (vdesc_schema d))])],
        map_option (\<lambda>c. [(''component'', c)]) (component_json (vdesc_component d)),
        list_omitempty ''signatures'' (signature_json env) (vdesc_signatures d),
        list_omitempty ''nestedDigests'' nested_digest_json (vdesc_nested d)]"

section \<open>Mappings and checks\<close>

definition provider_as_map :: "('r, 'd) codec \<Rightarrow> json \<Rightarrow> json jcs" where
  "provider_as_map env v =
     (case v of
        JStr s \<Rightarrow> (case Option.bind (parse_text env s) decode_numbers of
                     Some (JObj fs) \<Rightarrow> Ok (JObj fs)
                   | Some JNull \<Rightarrow> Ok (JObj [])
                   | _ \<Rightarrow> Ok (JObj [(''name'', v)]))
      | _ \<Rightarrow> Ok (JObj [(''name'', v)]))"

definition ignore_labels_without_signature :: "json \<Rightarrow> bool" where
  "ignore_labels_without_signature v =
     (case v of
        JObj m \<Rightarrow> (case map_of m ''signing'' of
                     Some sig \<Rightarrow> if sig \<noteq> JNull then sig \<noteq> JStr ''true'' \<and> sig \<noteq> JBool True else True
                   | None \<Rightarrow> True)
      | _ \<Rightarrow> True)"

definition is_none_access_kind :: "string \<Rightarrow> bool" where
  "is_none_access_kind kind \<longleftrightarrow> kind = ''none'' \<or> kind = ''None''"

text \<open>The type assertions on the resource and on its access panic on anything but an object.\<close>

definition map_resources_with_access_type ::
    "(string \<Rightarrow> bool) \<Rightarrow> ((string \<times> json) list \<Rightarrow> json) \<Rightarrow> json \<Rightarrow> json jcs" where
  "map_resources_with_access_type test mapper v =
     (case v of
        JObj m \<Rightarrow>
          (case map_of m ''access'' of
             None \<Rightarrow> Ok v
           | Some JNull \<Rightarrow> Ok v
           | Some (JObj a) \<Rightarrow>
               (case map_of a ''type'' of
                  Some (JStr s) \<Rightarrow> if test s then Ok (mapper m) else Ok v
                | _ \<Rightarrow> Ok v)
           | Some _ \<Rightarrow> Panic)
      | _ \<Rightarrow> Panic)"

definition map_resources_with_none_access :: "json \<Rightarrow> json jcs" where
  "map_resources_with_none_access = map_resources_with_access_type is_none_access_kind (\<lambda>m. JObj (mdel ''digest'' m))"

section \<open>Rules\<close>

datatype v4_algorithm = V4alpha1 | V4alpha2 | V4alpha3

definition label_excludes :: "v4_algorithm \<Rightarrow> rules" where
  "label_excludes alg =
     ExcludeEmpty (Some (DynamicArrayExcludes (Some ignore_labels_without_signature) None
       (Some (MapIncludes
          (if alg = V4alpha1
           then [(''name'', Some NoExcludes), (''value'', Some NoExcludes), (''signing'', Some NoExcludes)]
           else [(''name'', Some NoExcludes), (''version'', Some NoExcludes), (''value'', Some NoExcludes),
                 (''signing'', Some NoExcludes)])))))"

definition reference_rules :: "v4_algorithm \<Rightarrow> rules" where
  "reference_rules alg =
     (case alg of
        V4alpha1 \<Rightarrow> ArrayExcludes (Some (MapExcludes
          [(''labels'', Some (ArrayExcludes (Some (MapExcludes [(''version'', None)]))))]))
      | V4alpha2 \<Rightarrow> NoExcludes
      | V4alpha3 \<Rightarrow> ArrayExcludes (Some (MapExcludes [(''labels'', Some (label_excludes V4alpha3))])))"

definition exclusion_rules :: "('r, 'd) codec \<Rightarrow> v4_algorithm \<Rightarrow> rules" where
  "exclusion_rules env alg =
     MapExcludes
       [(''meta'', None),
        (''component'', Some (MapExcludes
           [(''repositoryContexts'', None),
            (''provider'', Some (MapValue (Some (provider_as_map env))
               (Some (MapExcludes [(''labels'', Some (label_excludes alg))])))),
            (''labels'', Some (label_excludes alg)),
            (''resources'', Some (DynamicArrayExcludes None (Some map_resources_with_none_access)
               (Some (MapExcludes [(''access'', None), (''srcRefs'', None), (''labels'', Some (label_excludes alg))])))),
            (''sources'', Some (ArrayExcludes (Some (MapExcludes [(''access'', None), (''labels'', Some (label_excludes alg))])))),
            (''componentReferences'', Some (reference_rules alg))])),
        (''signatures'', None),
        (''nestedDigests'', None)]"

section \<open>Normalise\<close>

definition default_slice :: "'a slice \<Rightarrow> 'a slice" where
  "default_slice s = (if s = None then Some [] else s)"

definition default_component :: "v2_descriptor \<Rightarrow> v2_descriptor" where
  "default_component d =
     (let c = vdesc_component d in
      d\<lparr>vdesc_component := c\<lparr>vc_contexts := default_slice (vc_contexts c), vc_references := default_slice (vc_references c),
         vc_sources := default_slice (vc_sources c), vc_resources := default_slice (vc_resources c)\<rparr>\<rparr>)"

definition jcs_normalise :: "('r, 'd) codec \<Rightarrow> rules \<Rightarrow> json \<Rightarrow> (convert_error, json) outcome" where
  "jcs_normalise env r j =
     (case prepare_normalisation r j of
        Ok (Wrapped w) \<Rightarrow> (case canonicalize env w of None \<Rightarrow> Fail CanonicalizeFailed | Some c \<Rightarrow> Ok c)
      | Fail _ \<Rightarrow> Fail MarshalFailed
      | _ \<Rightarrow> Panic)"

definition common_normalise :: "('r, 'd) codec \<Rightarrow> rules \<Rightarrow> ('r, 'd) descriptor \<Rightarrow> (convert_error, json) outcome" where
  "common_normalise env r cd =
     bind_outcome (convert_to_v2 env (new_scheme True) cd)
       (\<lambda>desc. case descriptor_json env (default_component desc) of
                 None \<Rightarrow> Fail MarshalFailed
               | Some j \<Rightarrow> jcs_normalise env r j)"

definition v4_normalise :: "('r, 'd) codec \<Rightarrow> v4_algorithm \<Rightarrow> ('r, 'd) descriptor \<Rightarrow> (convert_error, json) outcome" where
  "v4_normalise env alg cd = common_normalise env (exclusion_rules env alg) cd"

end
