(* ===== verification/Jcs_Properties.thy ===== *)
theory Jcs_Properties
  imports Jcs
begin

text \<open>
  Properties of the normalisation engine: preparation works field by field, keeps field names, and
  does not depend on the order of object fields.
\<close>

section \<open>Field by field\<close>

text \<open>What becomes of one field: nothing, a value, or a panic.\<close>

definition field_result :: "rules \<Rightarrow> string \<Rightarrow> json \<Rightarrow> json option jcs" where
  "field_result r key v =
     (if v = JNull then Ok None
      else bind_outcome (field_rule r key v)
        (\<lambda>(name, mapped, prop).
           if name = [] then Ok None
           else bind_outcome (prepare prop mapped)
             (\<lambda>nested. case nested of Nil_normalised \<Rightarrow> Ok None | Null_normalised \<Rightarrow> Panic | Wrapped w \<Rightarrow> Ok (Some w))))"

definition put_result :: "string \<Rightarrow> json option \<Rightarrow> (string \<times> json) list \<Rightarrow> (string \<times> json) list" where
  "put_result k u fs = (case u of None \<Rightarrow> fs | Some w \<Rightarrow> (k, w) # fs)"

fun collect_fields :: "rules \<Rightarrow> (string \<times> json) list \<Rightarrow> (string \<times> json) list jcs" where
  "collect_fields r [] = Ok []"
| "collect_fields r ((k, v) # fs) =
     bind_outcome (field_result r k v) (\<lambda>u. bind_outcome (collect_fields r fs) (\<lambda>gs. Ok (put_result k u gs)))"

definition element_result :: "rules \<Rightarrow> json \<Rightarrow> json option jcs" where
  "element_result r v =
     bind_outcome (element_rule r v)
       (\<lambda>(exclude, mapped, prop).
          if exclude then Ok None
          else bind_outcome (prepare prop mapped)
            (\<lambda>nested. Ok (Some (case nested of Wrapped w \<Rightarrow> w | _ \<Rightarrow> JNull))))"

fun collect_elements :: "rules \<Rightarrow> json list \<Rightarrow> json list jcs" where
  "collect_elements r [] = Ok []"
| "collect_elements r (v # vs) =
     bind_outcome (element_result r v) (\<lambda>u. bind_outcome (collect_elements r vs)
       (\<lambda>ws. Ok (case u of None \<Rightarrow> ws | Some w \<Rightarrow> w # ws)))"

text \<open>A field keeps its name and value, and its rules depend on its name only.\<close>

lemma field_rule_shape:
  "field_rule r k v = Ok (n, m, p) \<Longrightarrow> n \<noteq> [] \<Longrightarrow> n = k \<and> m = v"
  by (induction r k v rule: field_rule.induct) (auto split: option.splits if_splits)

lemma field_rule_value:
  "v \<noteq> JNull \<Longrightarrow> w \<noteq> JNull \<Longrightarrow> field_rule r k v = Ok (n, m, p)
    \<Longrightarrow> n = [] \<and> (\<exists>m' p'. field_rule r k w = Ok ([], m', p')) \<or> n \<noteq> [] \<and> field_rule r k w = Ok (k, w, p)"
  by (induction r k v rule: field_rule.induct) (auto split: option.splits if_splits)

lemma field_rule_no_fail: "field_rule r k v \<noteq> Fail e"
  by (induction r k v rule: field_rule.induct) (auto split: option.splits if_splits)

lemma bind_bind: "bind_outcome (bind_outcome r f) g = bind_outcome r (\<lambda>x. bind_outcome (f x) g)"
  by (cases r) auto

lemma bind_Ok_id [simp]: "bind_outcome r Ok = r"
  by (cases r) auto

lemma prepare_struct_step:
  "prepare_struct r ((k, v) # fs) out
    = bind_outcome (field_result r k v) (\<lambda>u. prepare_struct r fs (case u of None \<Rightarrow> out | Some w \<Rightarrow> mput k w out))"
proof (cases "field_rule r k v")
  case (Ok x)
  obtain n m p where x: "x = (n, m, p)" by (cases x) auto
  show ?thesis
  proof (cases "v = JNull \<or> n = []")
    case True
    with Ok x show ?thesis by (auto simp: field_result_def)
  next
    case False
    with Ok x field_rule_shape [of r k v n m p] have "n = k" "m = v" by auto
    with Ok x False show ?thesis
      by (cases "prepare p v") (auto simp: field_result_def split: normalised.splits)
  qed
qed (auto simp: field_result_def)

lemma prepare_struct_collect:
  "distinct (map fst out @ map fst fs)
    \<Longrightarrow> prepare_struct r fs out = bind_outcome (collect_fields r fs) (\<lambda>gs. Ok (out @ gs))"
proof (induction fs arbitrary: out)
  case (Cons f fs)
  obtain k v where f: "f = (k, v)" by (cases f)
  show ?case
  proof (cases "field_result r k v")
    case (Ok u)
    then show ?thesis
    proof (cases u)
      case None
      with Ok Cons f show ?thesis
        by (simp add: prepare_struct_step put_result_def bind_bind del: prepare_struct.simps)
    next
      case (Some w)
      have "mput k w out = out @ [(k, w)]" using Cons.prems f by (intro mput_fresh) auto
      then show ?thesis
        using Ok Some f Cons.IH [of "out @ [(k, w)]"] Cons.prems
        by (auto simp: prepare_struct_step put_result_def bind_bind simp del: prepare_struct.simps)
    qed
  qed (auto simp: f prepare_struct_step simp del: prepare_struct.simps)
qed simp

lemma prepare_array_collect:
  "prepare_array r vs out = bind_outcome (collect_elements r vs) (\<lambda>ws. Ok (out @ ws))"
proof (induction vs arbitrary: out)
  case (Cons v vs)
  show ?case
  proof (cases "element_rule r v")
    case (Ok x)
    obtain e m p where x: "x = (e, m, p)" by (cases x) auto
    show ?thesis
      by (cases e; cases "prepare p m") (simp_all add: Ok x Cons element_result_def bind_bind)
  qed (auto simp: element_result_def)
qed simp

lemma collect_fields_append:
  "collect_fields r (fs @ gs)
    = bind_outcome (collect_fields r fs) (\<lambda>xs. bind_outcome (collect_fields r gs) (\<lambda>ys. Ok (xs @ ys)))"
proof (induction fs)
  case (Cons f fs)
  then show ?case
    by (cases f; cases "field_result r (fst f) (snd f)"; cases "collect_fields r fs"; cases "collect_fields r gs")
      (auto simp: put_result_def split: option.splits)
qed simp

text \<open>Preparation on the two structured kinds of documents.\<close>

lemma prepare_object:
  "map_value (rule_of ro) (JObj fs) = Ok (JObj fs) \<Longrightarrow> distinct (map fst fs)
    \<Longrightarrow> prepare ro (JObj fs)
      = bind_outcome (collect_fields (rule_of ro) fs) (\<lambda>gs. Ok (filter_rule (rule_of ro) (Wrapped (JObj gs))))"
  by (simp add: prepare.simps prepare_struct_collect bind_bind)

lemma prepare_list:
  "map_value (rule_of ro) (JArr vs) = Ok (JArr vs)
    \<Longrightarrow> prepare ro (JArr vs)
      = bind_outcome (collect_elements (rule_of ro) vs) (\<lambda>ws. Ok (filter_rule (rule_of ro) (Wrapped (JArr ws))))"
  by (simp add: prepare.simps prepare_array_collect bind_bind)

lemma prepare_scalar:
  "map_value (rule_of ro) v = Ok v \<Longrightarrow> (\<And>fs. v \<noteq> JObj fs) \<Longrightarrow> (\<And>xs. v \<noteq> JArr xs) \<Longrightarrow> v \<noteq> JNull
    \<Longrightarrow> prepare ro v = Ok (Wrapped v)"
  by (cases v) (auto simp: prepare.simps)

section \<open>The order of fields does not matter\<close>

text \<open>Two outcomes agree when both are errors or panics, or both are results in a relation.\<close>

definition agree :: "('a \<Rightarrow> 'b \<Rightarrow> bool) \<Rightarrow> 'a jcs \<Rightarrow> 'b jcs \<Rightarrow> bool" where
  "agree R a b = ((is_ok a = is_ok b) \<and> (\<forall>x y. a = Ok x \<longrightarrow> b = Ok y \<longrightarrow> R x y))"

lemma agree_Ok [simp]: "agree R (Ok x) (Ok y) \<longleftrightarrow> R x y"
  by (simp add: agree_def)

lemma agree_Panic [simp]: "agree R Panic Panic"
  by (simp add: agree_def)

lemma agree_bind:
  "agree R a b \<Longrightarrow> (\<And>x y. a = Ok x \<Longrightarrow> b = Ok y \<Longrightarrow> R x y \<Longrightarrow> agree S (f x) (g y)) \<Longrightarrow> agree S (bind_outcome a f) (bind_outcome b g)"
  by (cases a; cases b) (auto simp: agree_def)

fun same_normalised :: "normalised \<Rightarrow> normalised \<Rightarrow> bool" where
  "same_normalised Nil_normalised Nil_normalised = True"
| "same_normalised Null_normalised Null_normalised = True"
| "same_normalised (Wrapped v) (Wrapped w) = same_json v w"
| "same_normalised _ _ = False"

definition mapper_ok :: "(json \<Rightarrow> json jcs) \<Rightarrow> bool" where
  "mapper_ok m \<longleftrightarrow> (\<forall>v w. same_json v w \<longrightarrow> agree same_json (m v) (m w))"

fun respectful :: "rules \<Rightarrow> bool" where
  "respectful (MapExcludes rs) = list_all (\<lambda>(_, r). pred_option respectful r) rs"
| "respectful (MapIncludes rs) = list_all (\<lambda>(_, r). pred_option respectful r) rs"
| "respectful NoExcludes = True"
| "respectful (ArrayExcludes c) = pred_option respectful c"
| "respectful (DynamicArrayExcludes checker mapper c) =
     (pred_option (\<lambda>check. \<forall>v w. same_json v w \<longrightarrow> check v = check w) checker \<and> pred_option mapper_ok mapper
      \<and> pred_option respectful c)"
| "respectful (ExcludeEmpty r) = pred_option respectful r"
| "respectful (MapValue m c) = (pred_option mapper_ok m \<and> pred_option respectful c)"

lemma same_json_null: "same_json v w \<Longrightarrow> v = JNull \<longleftrightarrow> w = JNull"
  by (auto elim: same_jsonE)

lemma map_value_respects: "respectful r \<Longrightarrow> same_json v w \<Longrightarrow> agree same_json (map_value r v) (map_value r w)"
  by (induction r v rule: map_value.induct) (auto simp: mapper_ok_def)

lemma element_rule_respects:
  "respectful r \<Longrightarrow> same_json v w
    \<Longrightarrow> agree (\<lambda>(e, m, p) (e', m', p'). e = e' \<and> p = p' \<and> same_json m m') (element_rule r v) (element_rule r w)"
proof (induction r v rule: element_rule.induct)
  case (5 checker mapper c v)
  show ?case
  proof (cases mapper)
    case (Some m)
    with 5 have "agree same_json (m v) (m w)" by (simp add: mapper_ok_def)
    then have "agree (\<lambda>(e, m, p) (e', m', p'). e = e' \<and> p = p' \<and> same_json m m')
        (bind_outcome (m v) (\<lambda>w. Ok (False, w, c))) (bind_outcome (m w) (\<lambda>w. Ok (False, w, c)))"
      by (rule agree_bind) simp
    with Some 5 show ?thesis by (cases checker) auto
  qed (use 5 in \<open>auto split: option.splits\<close>)
next
  case (6 v)
  then show ?case using same_json_null [of v w] by (auto intro: same_null)
qed simp_all

lemma field_rule_respectful: "respectful r \<Longrightarrow> field_rule r k v = Ok (n, m, p) \<Longrightarrow> pred_option respectful p"
  by (induction r k v rule: field_rule.induct)
    (fastforce simp: list_all_iff split: option.splits if_splits dest: map_of_SomeD)+

lemma element_rule_respectful: "respectful r \<Longrightarrow> element_rule r v = Ok (e, m, p) \<Longrightarrow> pred_option respectful p"
  by (induction r v rule: element_rule.induct) (auto simp: bind_outcome_Ok_iff split: option.splits if_splits)

lemma is_empty_same: "same_normalised v w \<Longrightarrow> is_empty v = is_empty w"
proof (induction v w rule: same_normalised.induct)
  case (3 v w)
  then have "same_json v w" by simp
  then show ?case
  proof (cases rule: same_json.cases)
    case (same_obj fs gs)
    then have "map_of fs k = None \<longleftrightarrow> map_of gs k = None" for k
      by (metis option.rel_distinct(1) option.rel_distinct(2) option.exhaust)
    then have "fs = [] \<longleftrightarrow> gs = []" by (cases fs; cases gs) (auto, metis option.distinct(1), metis option.distinct(1))
    with same_obj show ?thesis by simp
  qed auto
qed auto

lemma filter_rule_same: "same_normalised v w \<Longrightarrow> same_normalised (filter_rule r v) (filter_rule r w)"
  by (induction r v rule: filter_rule.induct) (auto simp: is_empty_same)

lemma collect_fields_is_ok:
  "is_ok (collect_fields r fs) \<longleftrightarrow> (\<forall>(k, v) \<in> set fs. is_ok (field_result r k v))"
  by (induction fs) (auto simp: is_ok_iff bind_outcome_Ok_iff)

lemma collect_fields_keys: "collect_fields r fs = Ok xs \<Longrightarrow> fst ` set xs \<subseteq> fst ` set fs"
proof (induction fs arbitrary: xs)
  case (Cons f fs)
  obtain k v where f: "f = (k, v)" by (cases f)
  with Cons.prems obtain u gs where "collect_fields r fs = Ok gs" "xs = put_result k u gs"
    by (auto simp: bind_outcome_Ok_iff)
  with Cons.IH [of gs] f show ?case by (cases u) (auto simp: put_result_def)
qed simp

lemma collect_fields_distinct: "collect_fields r fs = Ok xs \<Longrightarrow> distinct (map fst fs) \<Longrightarrow> distinct (map fst xs)"
proof (induction fs arbitrary: xs)
  case (Cons f fs)
  obtain k v where f: "f = (k, v)" by (cases f)
  with Cons.prems obtain u gs where "collect_fields r fs = Ok gs" "xs = put_result k u gs"
    by (auto simp: bind_outcome_Ok_iff)
  with Cons f collect_fields_keys [of r fs gs] show ?case by (cases u) (auto simp: put_result_def)
qed simp

lemma collect_fields_map_of:
  "collect_fields r fs = Ok xs \<Longrightarrow> distinct (map fst fs)
    \<Longrightarrow> map_of xs k = (case map_of fs k of
          None \<Rightarrow> None | Some v \<Rightarrow> (case field_result r k v of Ok u \<Rightarrow> u | _ \<Rightarrow> None))"
proof (induction fs arbitrary: xs)
  case (Cons f fs)
  obtain k' v where f: "f = (k', v)" by (cases f)
  with Cons.prems obtain u gs where u: "field_result r k' v = Ok u" "collect_fields r fs = Ok gs" "xs = put_result k' u gs"
    by (auto simp: bind_outcome_Ok_iff)
  have "map_of gs k' = None"
    using collect_fields_keys [OF u(2)] Cons.prems(2) f by (auto simp: map_of_eq_None_iff)
  then show ?case
    using Cons.IH [OF u(2)] Cons.prems(2) f u by (auto simp: put_result_def split: option.splits)
qed simp

lemma collect_fields_same:
  assumes "distinct (map fst fs)" and "distinct (map fst gs)"
    and "\<forall>k. rel_option same_json (map_of fs k) (map_of gs k)"
    and "\<And>k v w. (k, v) \<in> set fs \<Longrightarrow> same_json v w \<Longrightarrow> agree (rel_option same_json) (field_result r k v) (field_result r k w)"
  shows "agree (\<lambda>xs ys. same_json (JObj xs) (JObj ys)) (collect_fields r fs) (collect_fields r gs)"
proof -
  have pair: "\<exists>w. map_of gs k = Some w \<and> same_json v w" if "map_of fs k = Some v" for k v
    using assms(3) that by (metis option_rel_Some1)
  have pair': "\<exists>v. map_of fs k = Some v \<and> same_json v w" if "map_of gs k = Some w" for k w
    using assms(3) that by (metis option_rel_Some2)
  have ok: "is_ok (collect_fields r hs) \<longleftrightarrow> (\<forall>k v. map_of hs k = Some v \<longrightarrow> is_ok (field_result r k v))"
    if "distinct (map fst hs)" for hs
    unfolding collect_fields_is_ok using that by (auto dest: map_of_SomeD)
  have same_ok: "is_ok (field_result r k v) \<longleftrightarrow> is_ok (field_result r k w)"
    if "map_of fs k = Some v" "same_json v w" for k v w
    using assms(4) [OF map_of_SomeD [OF that(1)] that(2)] by (simp add: agree_def)
  have "is_ok (collect_fields r fs) \<longleftrightarrow> is_ok (collect_fields r gs)"
    unfolding ok [OF assms(1)] ok [OF assms(2)] using pair pair' same_ok by metis
  moreover have "same_json (JObj xs) (JObj ys)" if xs: "collect_fields r fs = Ok xs" and ys: "collect_fields r gs = Ok ys" for xs ys
  proof (rule same_obj)
    show "distinct (map fst xs)" "distinct (map fst ys)"
      using collect_fields_distinct xs ys assms(1,2) by blast+
    show "\<forall>k. rel_option same_json (map_of xs k) (map_of ys k)"
    proof
      fix k
      show "rel_option same_json (map_of xs k) (map_of ys k)"
      proof (cases "map_of fs k")
        case None
        then have "map_of gs k = None" using pair' by (metis option.distinct(1) option.exhaust)
        with None show ?thesis by (simp add: collect_fields_map_of [OF xs assms(1)] collect_fields_map_of [OF ys assms(2)])
      next
        case (Some v)
        then obtain w where w: "map_of gs k = Some w" "same_json v w" using pair by blast
        have "agree (rel_option same_json) (field_result r k v) (field_result r k w)"
          by (rule assms(4) [OF map_of_SomeD [OF Some] w(2)])
        with Some w show ?thesis
          by (cases "field_result r k v"; cases "field_result r k w")
            (auto simp: collect_fields_map_of [OF xs assms(1)] collect_fields_map_of [OF ys assms(2)] agree_def)
      qed
    qed
  qed
  ultimately show ?thesis by (simp add: agree_def)
qed

lemma collect_elements_same:
  assumes "list_all2 same_json vs ws"
    and "\<And>v w. v \<in> set vs \<Longrightarrow> same_json v w \<Longrightarrow> agree (rel_option same_json) (element_result r v) (element_result r w)"
  shows "agree (list_all2 same_json) (collect_elements r vs) (collect_elements r ws)"
  using assms
proof (induction rule: list_all2_induct)
  case (Cons v vs w ws)
  have "agree (rel_option same_json) (element_result r v) (element_result r w)"
    using Cons by simp
  moreover have "agree (list_all2 same_json) (collect_elements r vs) (collect_elements r ws)"
    using Cons by simp
  ultimately show ?case
    by (auto intro!: agree_bind split: option.splits elim!: agree_bind)
qed simp

text \<open>The pairs of rules and values that preparation descends to.\<close>

definition prepare_order :: "((rules option \<times> json) \<times> (rules option \<times> json)) set" where
  "prepare_order = inv_image (less_than <*lex*> less_than <*lex*> less_than)
     (\<lambda>(ro, v). (size (rule_of ro), if plain_rule (rule_of ro) then 0 else Suc 0, size v))"

lemma wf_prepare_order: "wf prepare_order"
  unfolding prepare_order_def by (intro wf_inv_image wf_lex_prod wf_less_than)

lemma prepare_order_field:
  assumes "map_value (rule_of ro) v = Ok (JObj fs)" and "(k, u) \<in> set fs"
    and "field_rule (rule_of ro) k u = Ok (n, m, p)" and "n \<noteq> []"
  shows "((p, m), (ro, v)) \<in> prepare_order"
proof -
  have "size u < size (JObj fs)"
    using assms(2) by (induction fs) auto
  then show ?thesis
    using field_rule_size [OF assms(3,4)] assms(1) by (auto simp: prepare_order_def map_value_plain)
qed

lemma prepare_order_element:
  assumes "map_value (rule_of ro) v = Ok (JArr us)" and "u \<in> set us"
    and "element_rule (rule_of ro) u = Ok (False, m, p)"
  shows "((p, m), (ro, v)) \<in> prepare_order"
proof -
  have "size u < size (JArr us)"
    using assms(2) by (induction us) auto
  then show ?thesis
    using element_rule_size [OF assms(3)] assms(1) by (auto simp: prepare_order_def map_value_plain)
qed

lemma field_result_same:
  assumes "same_json u w" and "respectful r"
    and "\<And>n m p. field_rule r k u = Ok (n, m, p) \<Longrightarrow> n \<noteq> [] \<Longrightarrow> agree same_normalised (prepare p u) (prepare p w)"
  shows "agree (rel_option same_json) (field_result r k u) (field_result r k w)"
proof (cases "u = JNull")
  case True
  with assms(1) have "w = JNull" using same_json_null by blast
  with True show ?thesis by (simp add: field_result_def)
next
  case False
  then have w: "w \<noteq> JNull" using same_json_null [OF assms(1)] by simp
  show ?thesis
  proof (cases "field_rule r k u")
    case (Ok x)
    obtain n m p where x: "field_rule r k u = Ok (n, m, p)" using Ok by (cases x) auto
    show ?thesis
    proof (cases "n = []")
      case True
      then obtain m' p' where "field_rule r k w = Ok ([], m', p')"
        using field_rule_value [OF False w x] by auto
      with True x False w show ?thesis by (simp add: field_result_def)
    next
      case n: False
      then have kw: "field_rule r k w = Ok (k, w, p)" "n = k" "m = u"
        using field_rule_value [OF False w x] field_rule_shape [OF x n] by auto
      have "agree same_normalised (prepare p u) (prepare p w)" using assms(3) [OF x n] .
      then have "agree (rel_option same_json)
          (bind_outcome (prepare p u) (\<lambda>nested. case nested of Nil_normalised \<Rightarrow> Ok None | Null_normalised \<Rightarrow> Panic | Wrapped w \<Rightarrow> Ok (Some w)))
          (bind_outcome (prepare p w) (\<lambda>nested. case nested of Nil_normalised \<Rightarrow> Ok None | Null_normalised \<Rightarrow> Panic | Wrapped w \<Rightarrow> Ok (Some w)))"
        by (rule agree_bind) (auto split: normalised.splits elim: same_normalised.elims)
      with kw x n False w show ?thesis by (simp add: field_result_def)
    qed
  next
    case (Fail e)
    then show ?thesis using field_rule_no_fail [of r k u] by blast
  next
    case Panic
    then have "\<not> is_ok (field_rule r k w)"
      using field_rule_value [OF w False] by (fastforce simp: is_ok_iff)
    with Panic False w show ?thesis
      by (cases "field_rule r k w") (auto simp: field_result_def agree_def)
  qed
qed

lemma element_result_same:
  assumes "same_json u w" and "respectful r"
    and "\<And>m m' p. element_rule r u = Ok (False, m, p) \<Longrightarrow> same_json m m' \<Longrightarrow> agree same_normalised (prepare p m) (prepare p m')"
  shows "agree (rel_option same_json) (element_result r u) (element_result r w)"
  unfolding element_result_def
proof (rule agree_bind [OF element_rule_respects [OF assms(2,1)]])
  fix x y
  assume x: "element_rule r u = Ok x" and xy: "(case x of (e, m, p) \<Rightarrow> \<lambda>(e', m', p'). e = e' \<and> p = p' \<and> same_json m m') y"
  obtain e m p where em: "x = (e, m, p)" by (cases x) auto
  with xy obtain m' where y: "y = (e, m', p)" "same_json m m'" by (cases y) auto
  show "agree (rel_option same_json)
      (case x of (exclude, mapped, prop) \<Rightarrow> if exclude then Ok None else bind_outcome (prepare prop mapped)
         (\<lambda>nested. Ok (Some (case nested of Wrapped w \<Rightarrow> w | _ \<Rightarrow> JNull))))
      (case y of (exclude, mapped, prop) \<Rightarrow> if exclude then Ok None else bind_outcome (prepare prop mapped)
         (\<lambda>nested. Ok (Some (case nested of Wrapped w \<Rightarrow> w | _ \<Rightarrow> JNull))))"
  proof (cases e)
    case False
    then have "agree same_normalised (prepare p m) (prepare p m')" using assms(3) [of m p m'] x em y by simp
    then have "agree (rel_option same_json)
        (bind_outcome (prepare p m) (\<lambda>nested. Ok (Some (case nested of Wrapped w \<Rightarrow> w | _ \<Rightarrow> JNull))))
        (bind_outcome (prepare p m') (\<lambda>nested. Ok (Some (case nested of Wrapped w \<Rightarrow> w | _ \<Rightarrow> JNull))))"
      by (rule agree_bind) (auto split: normalised.splits elim: same_normalised.elims intro: same_json.intros)
    with False em y show ?thesis by simp
  qed (simp add: em y)
qed

lemma prepare_same:
  "pred_option respectful ro \<Longrightarrow> same_json v w \<Longrightarrow> agree same_normalised (prepare ro v) (prepare ro w)"
proof (induction "(ro, v)" arbitrary: ro v w rule: wf_induct_rule [OF wf_prepare_order])
  case (1 ro v w)
  let ?r = "rule_of ro"
  have r: "respectful ?r" using "1.prems"(1) by (cases ro) (simp_all add: rule_of_def)
  show ?case
  proof (cases "v = JNull")
    case True
    with "1.prems"(2) have "w = JNull" using same_json_null by blast
    with True show ?thesis by (simp add: prepare.simps)
  next
    case False
    with "1.prems"(2) have w: "w \<noteq> JNull" using same_json_null by blast
    show ?thesis
      unfolding prepare.simps [of ro v] prepare.simps [of ro w] if_not_P [OF False] if_not_P [OF w]
    proof (rule agree_bind [OF map_value_respects [OF r "1.prems"(2)]])
      fix x y
      assume x: "map_value ?r v = Ok x" and y: "map_value ?r w = Ok y" and xy: "same_json x y"
      from xy show "agree same_normalised
          (case x of JObj fs \<Rightarrow> bind_outcome (prepare_struct ?r fs []) (\<lambda>out. Ok (filter_rule ?r (Wrapped (JObj out))))
             | JArr xs \<Rightarrow> bind_outcome (prepare_array ?r xs []) (\<lambda>out. Ok (filter_rule ?r (Wrapped (JArr out)))) | _ \<Rightarrow> Ok (Wrapped x))
          (case y of JObj fs \<Rightarrow> bind_outcome (prepare_struct ?r fs []) (\<lambda>out. Ok (filter_rule ?r (Wrapped (JObj out))))
             | JArr xs \<Rightarrow> bind_outcome (prepare_array ?r xs []) (\<lambda>out. Ok (filter_rule ?r (Wrapped (JArr out)))) | _ \<Rightarrow> Ok (Wrapped y))"
      proof (cases rule: same_json.cases)
        case (same_arr us ws)
        have "agree (list_all2 same_json) (collect_elements ?r us) (collect_elements ?r ws)"
        proof (rule collect_elements_same [OF same_arr(3)])
          fix u u' assume u: "u \<in> set us" and uu: "same_json u u'"
          show "agree (rel_option same_json) (element_result ?r u) (element_result ?r u')"
          proof (rule element_result_same [OF uu r])
            fix m m' p assume e: "element_rule ?r u = Ok (False, m, p)" and "same_json m m'"
            then show "agree same_normalised (prepare p m) (prepare p m')"
              using "1.hyps" [OF prepare_order_element [OF _ u e]] x same_arr(1) element_rule_respectful [OF r e] by blast
          qed
        qed
        with same_arr show ?thesis
          by (auto simp: prepare_array_collect bind_bind intro!: filter_rule_same same_json.intros(5)
              elim!: agree_bind)
      next
        case (same_obj fs gs)
        have "agree (\<lambda>xs ys. same_json (JObj xs) (JObj ys)) (collect_fields ?r fs) (collect_fields ?r gs)"
        proof (rule collect_fields_same [OF same_obj(3,4,5)])
          fix k u u' assume u: "(k, u) \<in> set fs" and uu: "same_json u u'"
          show "agree (rel_option same_json) (field_result ?r k u) (field_result ?r k u')"
          proof (rule field_result_same [OF uu r])
            fix n m p assume f: "field_rule ?r k u = Ok (n, m, p)" and n: "n \<noteq> []"
            have "m = u" using field_rule_shape [OF f n] by simp
            then show "agree same_normalised (prepare p u) (prepare p u')"
              using "1.hyps" [OF prepare_order_field [OF _ u f n]] x same_obj(1) field_rule_respectful [OF r f] uu by blast
          qed
        qed
        with same_obj show ?thesis
          by (auto simp: prepare_struct_collect bind_bind intro!: filter_rule_same elim!: agree_bind)
      qed (auto intro: same_json.intros)
    qed
  qed
qed

text \<open>C32: Two documents that differ only in the order of object fields normalise to documents that
  differ only in the order of object fields, or both fail, under any rules whose checks and
  mappings respect that order; so the canonical text of the result is well defined.\<close>

theorem normalisation_order_independent:
  assumes "same_json v w" and "respectful r"
  shows "agree same_normalised (prepare_normalisation r v) (prepare_normalisation r w)"
proof (cases "numbers_in_range v")
  case False
  then show ?thesis
    using assms(1) numbers_same [OF assms(1)] by (simp add: prepare_normalisation_def decode_numbers_def agree_def)
next
  case True
  have p: "agree same_normalised (prepare ro u) (prepare ro u')" if "pred_option respectful ro" "same_json u u'" for ro u u'
    using prepare_same [OF that] .
  have d: "decode_numbers v = Some (float_numbers v)" "decode_numbers w = Some (float_numbers w)"
      "same_json (float_numbers v) (float_numbers w)"
    using True numbers_same [OF assms(1)] by (simp_all add: decode_numbers_def)
  from d(3) show ?thesis
  proof (cases rule: same_json.cases)
    case (same_arr us ws)
    have "agree (list_all2 same_json) (collect_elements r us) (collect_elements r ws)"
      by (rule collect_elements_same [OF same_arr(3)])
        (auto intro: element_result_same [OF _ assms(2)] p element_rule_respectful [OF assms(2)])
    with same_arr d(1,2) show ?thesis
      by (auto simp: prepare_normalisation_def prepare_array_collect bind_bind intro!: same_json.intros(5) elim!: agree_bind)
  next
    case (same_obj fs gs)
    have "agree (\<lambda>xs ys. same_json (JObj xs) (JObj ys)) (collect_fields r fs) (collect_fields r gs)"
      by (rule collect_fields_same [OF same_obj(3,4,5)])
        (auto intro: field_result_same [OF _ assms(2)] p field_rule_respectful [OF assms(2)])
    with same_obj d(1,2) show ?thesis
      by (auto simp: prepare_normalisation_def prepare_struct_collect bind_bind elim!: agree_bind)
  qed (use assms(1) d(1,2) in \<open>auto simp: prepare_normalisation_def agree_def intro: same_json.intros\<close>)
qed

definition sample_rules :: rules where
  "sample_rules = MapExcludes [(''meta'', None), (''labels'', Some (ExcludeEmpty (Some (DynamicArrayExcludes
     (Some (\<lambda>v. v = JNull)) None None))))]"

theorem normalisation_order_independent_witness:
  "agree same_normalised
     (prepare_normalisation sample_rules (JObj [(''name'', JStr ''a''), (''meta'', JNum ''1''), (''labels'', JArr [JNull])]))
     (prepare_normalisation sample_rules (JObj [(''meta'', JNum ''1''), (''labels'', JArr [JNull]), (''name'', JStr ''a'')]))"
proof (rule normalisation_order_independent)
  show "respectful sample_rules"
    by (auto simp: sample_rules_def same_json_null)
  show "same_json (JObj [(''name'', JStr ''a''), (''meta'', JNum ''1''), (''labels'', JArr [JNull])])
      (JObj [(''meta'', JNum ''1''), (''labels'', JArr [JNull]), (''name'', JStr ''a'')])"
    by (intro same_obj) (auto intro: same_json.intros)
qed

text \<open>A mapping rule without continuation keeps every field of an object and drops every element of an
  array, whatever its mapping.\<close>

lemma map_value_without_continuation:
  "field_rule (MapValue m None) k v = Ok (k, v, Some NoExcludes)"
  "prepare (Some (MapValue None None)) (JArr (v # vs)) = Ok (Wrapped (JArr []))"
proof -
  have "element_result (MapValue None None) u = Ok None" for u by (simp add: element_result_def)
  then have "collect_elements (MapValue None None) us = Ok []" for us by (induction us) auto
  then show "prepare (Some (MapValue None None)) (JArr (v # vs)) = Ok (Wrapped (JArr []))"
    by (simp add: prepare_list rule_of_def del: collect_elements.simps)
qed simp

end
