(* ===== verification/Descriptor_Properties.thy ===== *)
theory Descriptor_Properties
  imports Descriptor_Convert
begin

text \<open>
  Round trips of the descriptor conversions: which serialised descriptors come back unchanged,
  what an internal descriptor becomes when it is stored and loaded, and that storing again
  changes nothing more.
\<close>

named_theorems from_to \<open>conversions of a part there and back\<close>

section \<open>Parts\<close>

lemma label_from_to [from_to]: "from_v2_label (to_v2_label l) = l"
  by (simp add: from_v2_label_def to_v2_label_def)

lemma label_to_from [from_to]: "to_v2_label (from_v2_label l) = l"
  by (simp add: from_v2_label_def to_v2_label_def)

lemma labels_from_to [from_to]: "from_v2_labels (to_v2_labels ls) = ls"
  by (simp add: from_v2_labels_def to_v2_labels_def map_slice_compose map_slice_id from_to)

lemma labels_to_from [from_to]: "to_v2_labels (from_v2_labels ls) = ls"
  by (simp add: from_v2_labels_def to_v2_labels_def map_slice_compose map_slice_id from_to)

lemma digest_from_to [from_to]: "from_v2_digest (to_v2_digest d) = d"
  by (simp add: from_v2_digest_def to_v2_digest_def)

lemma digest_to_from [from_to]: "to_v2_digest (from_v2_digest d) = d"
  by (simp add: from_v2_digest_def to_v2_digest_def)

lemma source_refs_from_to [from_to]: "from_v2_source_refs (to_v2_source_refs rs) = rs"
  by (simp add: from_v2_source_refs_def to_v2_source_refs_def from_v2_source_ref_def to_v2_source_ref_def
      map_slice_compose map_slice_id from_to)

lemma source_refs_to_from [from_to]: "to_v2_source_refs (from_v2_source_refs rs) = rs"
  by (simp add: from_v2_source_refs_def to_v2_source_refs_def from_v2_source_ref_def to_v2_source_ref_def
      map_slice_compose map_slice_id from_to)

lemma references_from_to [from_to]: "from_v2_references (to_v2_references rs) = rs"
  by (simp add: from_v2_references_def to_v2_references_def from_v2_reference_def to_v2_reference_def
      map_slice_compose map_slice_id from_to)

lemma references_to_from [from_to]: "to_v2_references (from_v2_references rs) = rs"
  by (simp add: from_v2_references_def to_v2_references_def from_v2_reference_def to_v2_reference_def
      map_slice_compose map_slice_id from_to)

lemma digest_option_from_to [from_to]: "map_option from_v2_digest (map_option to_v2_digest d) = d"
  by (cases d) (simp_all add: from_to)

lemma digest_option_to_from [from_to]: "map_option to_v2_digest (map_option from_v2_digest d) = d"
  by (cases d) (simp_all add: from_to)

lemma signature_info_from_to [from_to]: "from_v2_signature_info (to_v2_signature_info s) = s"
  by (simp add: from_v2_signature_info_def to_v2_signature_info_def)

lemma signature_info_to_from [from_to]: "to_v2_signature_info (from_v2_signature_info s) = s"
  by (simp add: from_v2_signature_info_def to_v2_signature_info_def)

lemma timestamp_from_to [from_to]: "from_v2_timestamp (to_v2_timestamp t) = t"
  by (simp add: from_v2_timestamp_def to_v2_timestamp_def)

text \<open>The zero time is dropped, so a timestamp that carries it explicitly does not come back.\<close>

lemma timestamp_to_from: "vt_time t \<noteq> Some 0 \<Longrightarrow> to_v2_timestamp (from_v2_timestamp t) = t"
  by (cases "vt_time t") (auto simp: from_v2_timestamp_def to_v2_timestamp_def)

lemma signature_from_to [from_to]: "from_v2_signature (to_v2_signature s) = s"
  by (cases "sig_timestamp s") (simp_all add: from_v2_signature_def to_v2_signature_def from_to)

definition timed :: "v2_signature \<Rightarrow> bool" where
  "timed s \<longleftrightarrow> (case vs_timestamp s of None \<Rightarrow> True | Some t \<Rightarrow> vt_time t \<noteq> Some 0)"

lemma signature_to_from: "timed s \<Longrightarrow> to_v2_signature (from_v2_signature s) = s"
  by (cases "vs_timestamp s")
    (simp_all add: from_v2_signature_def to_v2_signature_def from_to timed_def timestamp_to_from)

lemma signatures_from_to [from_to]: "from_v2_signatures (to_v2_signatures s) = s"
  by (simp add: from_v2_signatures_def to_v2_signatures_def map_slice_compose map_slice_id from_to)

lemma signatures_to_from: "pred_option (list_all timed) ss \<Longrightarrow> to_v2_signatures (from_v2_signatures ss) = ss"
  by (cases ss) (auto simp: from_v2_signatures_def to_v2_signatures_def signature_to_from list_all_iff intro: map_idI)

section \<open>Raw objects\<close>

definition typed_raw :: "raw \<Rightarrow> bool" where
  "typed_raw r \<longleftrightarrow> \<not> type_is_empty (raw_type r)"

lemma convert_raw: "typed_raw r \<Longrightarrow> convert_to_raw env s (Some (RawPtr (Some r))) = Ok r"
  by (simp add: convert_to_raw_def infer_type_def typed_raw_def)

text \<open>What a conversion produces is a fixed point of the conversion, unless \<open>Raw\<close> itself or an empty
  type is registered.\<close>

definition raw_neutral :: "('r, 'd) codec \<Rightarrow> ('r, 'd) scheme \<Rightarrow> bool" where
  "raw_neutral env s \<longleftrightarrow> find_type (raw_rtype env) (bimap_iter (defaults s)) = None
    \<and> list_all (\<lambda>(t, _). \<not> type_is_empty t) (bimap_iter (defaults s))"

lemma find_type_mem: "find_type r ps = Some t \<Longrightarrow> (t, r) \<in> set ps"
  by (induction r ps rule: find_type.induct) (auto split: if_splits)

lemma infer_type_again:
  assumes "raw_neutral env s" and "infer_type s r t = Ok u"
  shows "infer_type s (raw_rtype env) u = Ok u"
  using assms by (fastforce simp: infer_type_def raw_neutral_def list_all_iff split: if_splits option.splits
      dest: find_type_mem)

lemma convert_to_raw_again:
  assumes "raw_neutral env s" and "convert_to_raw env s a = Ok r"
  shows "convert_to_raw env s (Some (RawPtr (Some r))) = Ok r"
proof -
  have "\<exists>r0 t. infer_type s r0 t = Ok (raw_type r)"
    using assms(2)
    by (fastforce simp: convert_to_raw_def object_to_raw_def bind_outcome_Ok_iff
        split: option.splits typed_value.splits if_splits)
  then show ?thesis
    using infer_type_again [OF assms(1)] by (auto simp: convert_to_raw_def)
qed

section \<open>Serialised to internal and back\<close>

definition plain_provider :: "string \<Rightarrow> bool" where
  "plain_provider p \<longleftrightarrow> p \<noteq> [] \<and> \<not> has_prefix (trim_space p) ''{''"

definition storable :: "v2_descriptor \<Rightarrow> bool" where
  "storable d \<longleftrightarrow>
     plain_provider (vc_provider (vdesc_component d))
   \<and> pred_option (list_all (\<lambda>r. pred_option typed_raw (v2_access r) \<and> v2_access r \<noteq> None)) (vc_resources (vdesc_component d))
   \<and> pred_option (list_all (\<lambda>r. pred_option typed_raw (v2_src_access r) \<and> v2_src_access r \<noteq> None)) (vc_sources (vdesc_component d))
   \<and> pred_option (list_all (\<lambda>r. pred_option typed_raw r \<and> r \<noteq> None)) (vc_contexts (vdesc_component d))
   \<and> pred_option (list_all timed) (vdesc_signatures d)"

lemma resource_to_from:
  "pred_option typed_raw (v2_access r) \<Longrightarrow> v2_access r \<noteq> None \<Longrightarrow> to_v2_resource env s (from_v2_resource r) = Ok r"
  by (cases "v2_access r") (auto simp: to_v2_resource_def from_v2_resource_def from_v2_access_def convert_raw from_to)

lemma source_to_from:
  "pred_option typed_raw (v2_src_access r) \<Longrightarrow> v2_src_access r \<noteq> None \<Longrightarrow> to_v2_source env s (from_v2_source r) = Ok r"
  by (cases "v2_src_access r") (auto simp: to_v2_source_def from_v2_source_def from_v2_access_def convert_raw from_to)

lemma traverse_slice_map_slice:
  "pred_option (list_all (\<lambda>x. f (g x) = Ok x)) s \<Longrightarrow> traverse_slice f (map_slice g s) = Ok s"
  by (cases s) (auto simp: traverse_slice_Ok_iff list_all2_map1 list_all2_same list_all_iff)

lemma plain_provider_to_from:
  "plain_provider p \<Longrightarrow> from_v2_provider env p = Ok \<lparr>prov_name = p, prov_labels = None\<rparr>
    \<and> to_v2_provider env \<lparr>prov_name = p, prov_labels = None\<rparr> = Ok p"
  by (simp add: plain_provider_def from_v2_provider_def to_v2_provider_def)

lemma resources_to_from:
  "pred_option (list_all (\<lambda>r. pred_option typed_raw (v2_access r) \<and> v2_access r \<noteq> None)) rs
    \<Longrightarrow> to_v2_resources env s (from_v2_resources rs) = Ok rs"
  unfolding to_v2_resources_def from_v2_resources_def
  by (rule traverse_slice_map_slice, erule option.pred_mono_strong) (auto simp: list_all_iff intro!: resource_to_from)

lemma sources_to_from:
  "pred_option (list_all (\<lambda>r. pred_option typed_raw (v2_src_access r) \<and> v2_src_access r \<noteq> None)) rs
    \<Longrightarrow> to_v2_sources env s (from_v2_sources rs) = Ok rs"
  unfolding to_v2_sources_def from_v2_sources_def
  by (rule traverse_slice_map_slice, erule option.pred_mono_strong) (auto simp: list_all_iff intro!: source_to_from)

lemma contexts_to_from:
  "pred_option (list_all (\<lambda>r. pred_option typed_raw r \<and> r \<noteq> None)) rs
    \<Longrightarrow> to_v2_contexts env s (from_v2_contexts rs) = Ok rs"
  unfolding to_v2_contexts_def from_v2_contexts_def
  by (rule traverse_slice_map_slice, erule option.pred_mono_strong) (auto simp: list_all_iff convert_raw)

text \<open>C23: A serialised descriptor converts to the internal form and back to itself, except that the nested
  digests are lost, when it is storable: its provider is a plain name, every resource and source has
  an access and every repository context is there, each with a type, and no timestamp of a signature
  carries the zero time explicitly, which the internal form cannot tell from an absent time.\<close>

theorem v2_roundtrip:
  assumes "storable d"
  shows "\<exists>i. convert_from_v2 env d = Ok i \<and> convert_to_v2 env s i = Ok (d\<lparr>vdesc_nested := None\<rparr>)"
  using assms unfolding storable_def convert_from_v2_def convert_to_v2_def Let_def
  by (auto simp: plain_provider_to_from resources_to_from sources_to_from contexts_to_from
      signatures_to_from from_to)

section \<open>Internal to serialised and back\<close>

text \<open>What \<open>encoding/json\<close> promises for a document: writing an object and reading it yields the object,
  and its text starts with a brace.\<close>

definition reads_back :: "('r, 'd) codec \<Rightarrow> json \<Rightarrow> bool" where
  "reads_back env j \<longleftrightarrow> parse_text env (marshal_text env j) = Some j
    \<and> has_prefix (trim_space (marshal_text env j)) ''{''"

definition valued :: "label \<Rightarrow> bool" where
  "valued l \<longleftrightarrow> (\<exists>v. lab_value l = Json v)"

definition stable_provider :: "('r, 'd) codec \<Rightarrow> provider \<Rightarrow> bool" where
  "stable_provider env p \<longleftrightarrow>
     (case prov_labels p of
        None \<Rightarrow> plain_provider (prov_name p)
      | Some ls \<Rightarrow> ls \<noteq> [] \<and> list_all valued ls
          \<and> pred_option (reads_back env) (provider_json (prov_name p) (to_v2_labels (Some ls))))"

lemma label_json_read: "valued l \<Longrightarrow> label_json (to_v2_label l) = Some j \<Longrightarrow> label_of_json j = Ok (to_v2_label l)"
  by (auto simp: valued_def label_json_def to_v2_label_def label_of_json_def string_field_def bool_field_def
      string_omitempty_def)

lemma all_some_iff: "all_some xs = Some ys \<longleftrightarrow> list_all2 (\<lambda>x y. x = Some y) xs ys"
  by (induction xs arbitrary: ys) (auto simp: list_all2_Cons1 split: option.splits)

lemma labels_json_read:
  assumes "list_all valued ls" and "all_some (map label_json (map to_v2_label ls)) = Some js"
  shows "traverse label_of_json js = Ok (map to_v2_label ls)"
  using assms by (auto simp: all_some_iff traverse_Ok_iff list_all2_conv_all_nth list_all_length intro: label_json_read)

lemma provider_from_to:
  assumes "stable_provider env p" and "to_v2_provider env p = Ok q"
  shows "from_v2_provider env q = Ok p"
proof (cases "prov_labels p")
  case None
  with assms have "plain_provider (prov_name p)" "q = prov_name p"
    by (auto simp: stable_provider_def to_v2_provider_def split: if_splits)
  moreover have "p = \<lparr>prov_name = prov_name p, prov_labels = None\<rparr>" using None by simp
  ultimately show ?thesis using plain_provider_to_from by metis
next
  case (Some ls)
  with assms obtain j where j: "provider_json (prov_name p) (to_v2_labels (Some ls)) = Some j"
      "q = marshal_text env j" "reads_back env j" "list_all valued ls" "ls \<noteq> []"
    by (auto simp: stable_provider_def to_v2_provider_def split: if_splits option.splits)
  then obtain js where js: "all_some (map label_json (map to_v2_label ls)) = Some js"
      "j = JObj [(''name'', JStr (prov_name p)), (''labels'', JArr js)]"
    by (cases ls) (auto simp: provider_json_def labels_json_def to_v2_labels_def simp del: map_map)
  have "from_v2_labels (Some (map to_v2_label ls)) = Some ls"
    using labels_from_to [of "Some ls"] by (simp add: to_v2_labels_def)
  moreover have "q \<noteq> []" using j by (auto simp: reads_back_def trim_space_def has_prefix_def)
  ultimately show ?thesis
    using j js Some labels_json_read [OF j(4) js(1)]
    by (simp add: from_v2_provider_def reads_back_def string_field_def labels_field_def traverse_slice_def)
qed

text \<open>A stored descriptor: the accesses and contexts are raw, the creation times of resources are gone.\<close>

definition stored_access :: "('r, 'd) codec \<Rightarrow> ('r, 'd) scheme \<Rightarrow> ('r, 'd) typed_value option \<Rightarrow> ('r, 'd) typed_value option" where
  "stored_access env s a = (case convert_to_raw env s a of Ok r \<Rightarrow> Some (RawPtr (Some r)) | _ \<Rightarrow> None)"

definition stored_descriptor :: "('r, 'd) codec \<Rightarrow> ('r, 'd) scheme \<Rightarrow> ('r, 'd) descriptor \<Rightarrow> ('r, 'd) descriptor" where
  "stored_descriptor env s d =
     (let c = desc_component d in
      d\<lparr>desc_component := c
         \<lparr>comp_resources := map_slice (\<lambda>r. r\<lparr>res_access := stored_access env s (res_access r), res_created := 0\<rparr>) (comp_resources c),
          comp_sources := map_slice (\<lambda>r. r\<lparr>src_access := stored_access env s (src_access r)\<rparr>) (comp_sources c),
          comp_contexts := map_slice (stored_access env s) (comp_contexts c)\<rparr>\<rparr>)"

lemma resource_from_to:
  "to_v2_resource env s r = Ok v
    \<Longrightarrow> from_v2_resource v = r\<lparr>res_access := stored_access env s (res_access r), res_created := 0\<rparr>"
  by (auto simp: to_v2_resource_def from_v2_resource_def from_v2_access_def stored_access_def bind_outcome_Ok_iff from_to)

lemma source_from_to:
  "to_v2_source env s r = Ok v \<Longrightarrow> from_v2_source v = r\<lparr>src_access := stored_access env s (src_access r)\<rparr>"
  by (auto simp: to_v2_source_def from_v2_source_def from_v2_access_def stored_access_def bind_outcome_Ok_iff from_to)

lemma map_slice_traverse:
  assumes "traverse_slice f t = Ok u" and "\<And>x y. f x = Ok y \<Longrightarrow> g y = h x"
  shows "map_slice g u = map_slice h t"
proof (cases t)
  case (Some xs)
  with assms(1) obtain ys where u: "u = Some ys" and xy: "list_all2 (\<lambda>x y. f x = Ok y) xs ys"
    by (cases u) (auto simp: traverse_slice_Ok_iff)
  from xy have "map g ys = map h xs"
    by (induction rule: list_all2_induct) (auto simp: assms(2))
  with u Some show ?thesis by simp
qed (use assms(1) in \<open>simp add: traverse_slice_def\<close>)

lemma traverse_slice_again:
  assumes "traverse_slice f t = Ok u" and "\<And>x y. f x = Ok y \<Longrightarrow> f (h x) = Ok y"
  shows "traverse_slice f (map_slice h t) = Ok u"
proof (cases t)
  case (Some xs)
  with assms(1) obtain ys where u: "u = Some ys" and xy: "list_all2 (\<lambda>x y. f x = Ok y) xs ys"
    by (cases u) (auto simp: traverse_slice_Ok_iff)
  from xy have "list_all2 (\<lambda>x y. f x = Ok y) (map h xs) ys"
    by (induction rule: list_all2_induct) (auto simp: assms(2))
  with u Some show ?thesis by (simp add: traverse_slice_Ok_iff)
qed (use assms(1) in \<open>simp add: traverse_slice_def\<close>)

lemma stored_access_again:
  assumes "raw_neutral env s" and "convert_to_raw env s a = Ok r"
  shows "convert_to_raw env s (stored_access env s a) = Ok r"
  using convert_to_raw_again [OF assms] assms(2) by (simp add: stored_access_def)

text \<open>Storing an internal descriptor and loading it yields the same descriptor up to what storage
  does to it, accesses turned raw and resource creation times dropped, and storing what was
  loaded writes the same serialised descriptor again.\<close>

theorem internal_roundtrip:
  assumes "convert_to_v2 env s d = Ok v"
    and "stable_provider env (comp_provider (desc_component d))" and "raw_neutral env s"
  shows "convert_from_v2 env v = Ok (stored_descriptor env s d)
    \<and> convert_to_v2 env s (stored_descriptor env s d) = Ok v"
proof -
  let ?c = "desc_component d"
  obtain p res srcs ctxs where v: "to_v2_provider env (comp_provider ?c) = Ok p"
      "to_v2_resources env s (comp_resources ?c) = Ok res" "to_v2_sources env s (comp_sources ?c) = Ok srcs"
      "to_v2_contexts env s (comp_contexts ?c) = Ok ctxs"
    using assms(1) by (auto simp: convert_to_v2_def Let_def bind_outcome_Ok_iff)
  note parts = v [unfolded to_v2_resources_def to_v2_sources_def to_v2_contexts_def]
  have res: "from_v2_resources res = map_slice (\<lambda>r. r\<lparr>res_access := stored_access env s (res_access r), res_created := 0\<rparr>) (comp_resources ?c)"
    unfolding from_v2_resources_def by (rule map_slice_traverse [OF parts(2) resource_from_to])
  have srcs: "from_v2_sources srcs = map_slice (\<lambda>r. r\<lparr>src_access := stored_access env s (src_access r)\<rparr>) (comp_sources ?c)"
    unfolding from_v2_sources_def by (rule map_slice_traverse [OF parts(3) source_from_to])
  have ctxs: "from_v2_contexts ctxs = map_slice (stored_access env s) (comp_contexts ?c)"
    unfolding from_v2_contexts_def
    by (rule map_slice_traverse [OF parts(4)]) (auto simp: stored_access_def bind_outcome_Ok_iff)
  have res': "to_v2_resources env s (map_slice (\<lambda>r. r\<lparr>res_access := stored_access env s (res_access r), res_created := 0\<rparr>) (comp_resources ?c)) = Ok res"
    unfolding to_v2_resources_def
    by (rule traverse_slice_again [OF parts(2)])
      (auto simp: to_v2_resource_def bind_outcome_Ok_iff stored_access_again [OF assms(3)])
  have srcs': "to_v2_sources env s (map_slice (\<lambda>r. r\<lparr>src_access := stored_access env s (src_access r)\<rparr>) (comp_sources ?c)) = Ok srcs"
    unfolding to_v2_sources_def
    by (rule traverse_slice_again [OF parts(3)])
      (auto simp: to_v2_source_def bind_outcome_Ok_iff stored_access_again [OF assms(3)])
  have ctxs': "to_v2_contexts env s (map_slice (stored_access env s) (comp_contexts ?c)) = Ok ctxs"
    unfolding to_v2_contexts_def
    by (rule traverse_slice_again [OF parts(4)]) (auto simp: bind_outcome_Ok_iff stored_access_again [OF assms(3)])
  have "convert_to_v2 env s (stored_descriptor env s d) = Ok v"
    using assms(1) v res' srcs' ctxs' by (simp add: convert_to_v2_def stored_descriptor_def Let_def)
  moreover have "convert_from_v2 env v = Ok (stored_descriptor env s d)"
    using assms(1) v provider_from_to [OF assms(2) v(1)] res srcs ctxs
    by (auto simp: convert_to_v2_def convert_from_v2_def stored_descriptor_def Let_def from_to)
  ultimately show ?thesis by blast
qed

section \<open>Errors\<close>

text \<open>A serialised descriptor with a plain provider is always accepted, also when a resource has no
  access; writing a descriptor with such a resource, or without a provider name, never succeeds.\<close>

theorem missing_access_rejected_on_write:
  assumes "plain_provider (vc_provider (vdesc_component d))"
    and "vc_resources (vdesc_component d) = Some rs" and "\<exists>r \<in> set rs. v2_access r = None"
  shows "\<exists>i. convert_from_v2 env d = Ok i \<and> \<not> is_ok (convert_to_v2 env s i)"
proof -
  obtain i where i: "convert_from_v2 env d = Ok i"
      "comp_resources (desc_component i) = Some (map from_v2_resource rs)"
    using assms(1,2) by (simp add: convert_from_v2_def Let_def plain_provider_to_from from_v2_resources_def)
  have "\<not> list_all2 (\<lambda>x y. to_v2_resource env s x = Ok y) (map from_v2_resource rs) ys" for ys
  proof
    assume all: "list_all2 (\<lambda>x y. to_v2_resource env s x = Ok y) (map from_v2_resource rs) ys"
    from assms(3) obtain n where "n < length rs" "v2_access (rs ! n) = None" by (metis in_set_conv_nth)
    moreover from this all have "to_v2_resource env s (from_v2_resource (rs ! n)) = Ok (ys ! n)"
      by (auto simp: list_all2_conv_all_nth)
    ultimately show False
      by (simp add: to_v2_resource_def from_v2_resource_def from_v2_access_def convert_to_raw_def)
  qed
  then have "\<not> is_ok (convert_to_v2 env s i)"
    using i(2) by (auto simp: is_ok_iff convert_to_v2_def Let_def bind_outcome_Ok_iff to_v2_resources_def
        traverse_slice_def traverse_Ok_iff)
  with i(1) show ?thesis by blast
qed

section \<open>Witnesses\<close>

text \<open>A codec for one document, and a descriptor with one resource of each kind.\<close>

definition sample_codec :: "json \<Rightarrow> (nat, json) codec" where
  "sample_codec doc =
     \<lparr>marshal_object = (\<lambda>obj. Some (payload obj)), canonicalize = Some, raw_rtype = 0,
      marshal_text = (\<lambda>_. ''{document}''),
      parse_text = (\<lambda>s. if s = ''{document}'' then Some doc else None), marshal_time = (\<lambda>_. Some (JStr ''now''))\<rparr>"

definition oci_raw :: raw where
  "oci_raw = \<lparr>raw_type = \<lparr>Version = ''v1'', Name = ''ociArtifact''\<rparr>, raw_data = Json (JObj [(''type'', JStr ''ociArtifact/v1'')])\<rparr>"

definition image_v2 :: v2_resource where
  "image_v2 = \<lparr>ve_name = ''image'', ve_version = ''1.0'', ve_labels = None, ve_extra = None, v2_source_refs = None,
     v2_type = ''ociImage'', v2_relation = ''external'', v2_access = Some oci_raw, v2_digest_of = None\<rparr>"

definition sample_v2 :: "v2_resource \<Rightarrow> v2_descriptor" where
  "sample_v2 r = \<lparr>vdesc_schema = ''v2'',
     vdesc_component = \<lparr>vc_name = ''ocm.software/demo'', vc_version = ''1.0'', vc_labels = None, vc_created = [],
        vc_contexts = None, vc_provider = ''ocm'', vc_resources = Some [r], vc_sources = Some [], vc_references = None\<rparr>,
     vdesc_signatures = None, vdesc_nested = Some []\<rparr>"

theorem v2_roundtrip_witness:
  "\<exists>i. convert_from_v2 (sample_codec JNull) (sample_v2 image_v2) = Ok i
    \<and> convert_to_v2 (sample_codec JNull) (new_scheme True) i = Ok (sample_v2 image_v2\<lparr>vdesc_nested := None\<rparr>)"
proof (rule v2_roundtrip)
  show "storable (sample_v2 image_v2)"
    by (simp add: storable_def plain_provider_def sample_v2_def image_v2_def oci_raw_def typed_raw_def
        type_is_empty_def has_prefix_def trim_space_def is_space_def)
qed

definition signed_label :: label where
  "signed_label = \<lparr>lab_name = ''purpose'', lab_value = Json (JStr ''demo''), lab_signing = True, lab_version = []\<rparr>"

definition provider_document :: json where
  "provider_document = JObj [(''name'', JStr ''ocm''), (''labels'', JArr [JObj
     [(''name'', JStr ''purpose''), (''value'', JStr ''demo''), (''signing'', JBool True)]])]"

definition image_resource :: "(nat, json) resource" where
  "image_resource = \<lparr>el_name = ''image'', el_version = ''1.0'', el_labels = Some [signed_label], el_extra = None,
     res_source_refs = None, res_type = ''ociImage'', res_relation = ''external'',
     res_access = Some (ObjPtr \<lparr>rtype = 1, otype = \<lparr>Version = ''v1'', Name = ''ociArtifact''\<rparr>,
       payload = JObj [(''type'', JStr ''ociArtifact/v1'')]\<rparr>),
     res_digest = Some \<lparr>dig_hash = ''SHA-256'', dig_norm = ''ociArtifactDigest/v1'', dig_value = ''abc''\<rparr>, res_created = 7\<rparr>"

definition sample_descriptor :: "(nat, json) resource list \<Rightarrow> (nat, json) descriptor" where
  "sample_descriptor rs = \<lparr>desc_schema = ''v2'',
     desc_component = \<lparr>comp_name = ''ocm.software/demo'', comp_version = ''1.0'', comp_labels = Some [signed_label],
        comp_created = [], comp_contexts = None, comp_provider = \<lparr>prov_name = ''ocm'', prov_labels = Some [signed_label]\<rparr>,
        comp_resources = Some rs, comp_sources = None, comp_references = None\<rparr>,
     desc_signatures = None\<rparr>"

theorem internal_roundtrip_witness:
  "\<exists>v. convert_from_v2 (sample_codec provider_document) v
      = Ok (stored_descriptor (sample_codec provider_document) (new_scheme True) (sample_descriptor [image_resource]))"
proof -
  let ?env = "sample_codec provider_document" and ?d = "sample_descriptor [image_resource]"
  have "case convert_to_v2 ?env (new_scheme True) ?d of Ok v \<Rightarrow> True | _ \<Rightarrow> False" by code_simp
  then obtain v where "convert_to_v2 ?env (new_scheme True) ?d = Ok v" by (auto split: outcome.splits)
  moreover have "stable_provider ?env (comp_provider (desc_component ?d))"
    by (simp add: stable_provider_def sample_descriptor_def signed_label_def valued_def provider_json_def
        labels_json_def label_json_def to_v2_labels_def to_v2_label_def string_omitempty_def reads_back_def
        sample_codec_def provider_document_def has_prefix_def trim_space_def is_space_def)
  moreover have "raw_neutral ?env (new_scheme True)" by code_simp
  ultimately have "convert_from_v2 ?env v = Ok (stored_descriptor ?env (new_scheme True) ?d)"
    by (rule internal_roundtrip [THEN conjunct1])
  then show ?thesis by blast
qed

theorem missing_access_rejected_on_write_witness:
  "\<exists>i. convert_from_v2 (sample_codec JNull) (sample_v2 (image_v2\<lparr>v2_access := None\<rparr>)) = Ok i
    \<and> \<not> is_ok (convert_to_v2 (sample_codec JNull) (new_scheme True) i)"
proof (rule missing_access_rejected_on_write)
  show "plain_provider (vc_provider (vdesc_component (sample_v2 (image_v2\<lparr>v2_access := None\<rparr>))))"
    by (simp add: plain_provider_def sample_v2_def has_prefix_def trim_space_def is_space_def)
  show "vc_resources (vdesc_component (sample_v2 (image_v2\<lparr>v2_access := None\<rparr>))) = Some [image_v2\<lparr>v2_access := None\<rparr>]"
    by (simp add: sample_v2_def)
qed simp

end
