(* ===== verification/Signed_View.thy ===== *)
theory Signed_View
  imports Normalisation Jcs_Properties Descriptor_Properties
begin

text \<open>
  What a v4 signature covers. The signed view of a serialised descriptor is written down directly
  and shown to be what the rules of each algorithm make of the descriptor's document.
\<close>

section \<open>The view\<close>

text \<open>Numbers are decoded. Where no rule excludes anything, null fields and fields with an empty name are still dropped.\<close>

fun strip :: "json \<Rightarrow> json" where
  "strip (JObj fs) = JObj (filter (\<lambda>(k, v). k \<noteq> [] \<and> v \<noteq> JNull) (map (\<lambda>(k, v). (k, strip v)) fs))"
| "strip (JArr xs) = JArr (map strip xs)"
| "strip v = v"

definition slice_list :: "'a slice \<Rightarrow> 'a list" where
  "slice_list s = (case s of None \<Rightarrow> [] | Some xs \<Rightarrow> xs)"

definition view_value :: "raw_message \<Rightarrow> json_fields" where
  "view_value m = (case m of Json j \<Rightarrow> if j = JNull then [] else [(''value'', strip (float_numbers j))] | _ \<Rightarrow> [])"

definition view_label :: "bool \<Rightarrow> v2_label \<Rightarrow> json" where
  "view_label ver l =
     JObj ([(''name'', JStr (vl_name l))] @ view_value (vl_value l)
       @ (if vl_signing l then [(''signing'', JBool True)] else [])
       @ (if ver then string_omitempty ''version'' (vl_version l) else []))"

definition label_list :: "bool \<Rightarrow> v2_label list \<Rightarrow> json_fields" where
  "label_list ver ls = (if ls = [] then [] else [(''labels'', JArr (map (view_label ver) ls))])"

definition view_labels :: "v4_algorithm \<Rightarrow> v2_label slice \<Rightarrow> json_fields" where
  "view_labels alg ls = label_list (alg \<noteq> V4alpha1) (filter vl_signing (slice_list ls))"

definition view_extra :: "identity option \<Rightarrow> json_fields" where
  "view_extra e = (case e of
     None \<Rightarrow> [] | Some m \<Rightarrow> if m = [] then [] else [(''extraIdentity'', identity_json (filter (\<lambda>(k, v). k \<noteq> []) m))])"

definition none_access :: "v2_resource \<Rightarrow> bool" where
  "none_access r \<longleftrightarrow> (\<exists>a s. map_option raw_data (v2_access r) = Some (Json (JObj a)) \<and> map_of a ''type'' = Some (JStr s)
     \<and> is_none_access_kind s)"

lemma none_access_code [code]:
  "none_access r = (case map_option raw_data (v2_access r) of
     Some (Json (JObj a)) \<Rightarrow> (case map_of a ''type'' of Some (JStr s) \<Rightarrow> is_none_access_kind s | _ \<Rightarrow> False)
   | _ \<Rightarrow> False)"
proof (cases "\<exists>a. map_option raw_data (v2_access r) = Some (Json (JObj a))")
  case True
  then obtain a where a: "map_option raw_data (v2_access r) = Some (Json (JObj a))" by blast
  then have "none_access r \<longleftrightarrow> (\<exists>s. map_of a ''type'' = Some (JStr s) \<and> is_none_access_kind s)"
    unfolding none_access_def a by auto
  also have "\<dots> \<longleftrightarrow> (case map_of a ''type'' of Some (JStr s) \<Rightarrow> is_none_access_kind s | _ \<Rightarrow> False)"
    by (cases "map_of a ''type''"; cases "the (map_of a ''type'')") auto
  finally show ?thesis by (simp add: a)
next
  case False
  then have "\<not> none_access r" unfolding none_access_def by blast
  with False show ?thesis by (auto split: option.split raw_message.split json.split)
qed

definition view_element :: "v4_algorithm \<Rightarrow> 'a v2_element_meta_scheme \<Rightarrow> json_fields" where
  "view_element alg e = [(''name'', JStr (ve_name e)), (''version'', JStr (ve_version e))]
     @ view_labels alg (ve_labels e) @ view_extra (ve_extra e)"

definition view_resource :: "v4_algorithm \<Rightarrow> v2_resource \<Rightarrow> json" where
  "view_resource alg r =
     JObj (view_element alg r @ [(''type'', JStr (v2_type r)), (''relation'', JStr (v2_relation r))]
       @ (if none_access r then [] else (case v2_digest_of r of None \<Rightarrow> [] | Some d \<Rightarrow> [(''digest'', digest_json d)])))"

definition view_source :: "v4_algorithm \<Rightarrow> v2_source \<Rightarrow> json" where
  "view_source alg r = JObj (view_element alg r @ [(''type'', JStr (v2_src_type r))])"

definition reference_labels :: "v4_algorithm \<Rightarrow> v2_label slice \<Rightarrow> json_fields" where
  "reference_labels alg ls =
     (case alg of
        V4alpha1 \<Rightarrow> label_list False (slice_list ls)
      | V4alpha2 \<Rightarrow> label_list True (slice_list ls)
      | V4alpha3 \<Rightarrow> view_labels V4alpha3 ls)"

definition view_reference :: "v4_algorithm \<Rightarrow> v2_reference \<Rightarrow> json" where
  "view_reference alg r =
     JObj ([(''name'', JStr (ve_name r)), (''version'', JStr (ve_version r))] @ reference_labels alg (ve_labels r)
       @ view_extra (ve_extra r) @ [(''componentName'', JStr (v2_component r))]
       @ (if v2_ref_digest r = zero_digest then [] else [(''digest'', digest_json (v2_ref_digest r))]))"

definition signed_view :: "v4_algorithm \<Rightarrow> string \<Rightarrow> v2_label slice \<Rightarrow> v2_component \<Rightarrow> json" where
  "signed_view alg pname plabels c =
     JObj [(''component'', JObj
       ([(''name'', JStr (vc_name c)), (''version'', JStr (vc_version c))] @ view_labels alg (vc_labels c)
        @ string_omitempty ''creationTime'' (vc_created c)
        @ [(''provider'', JObj ((''name'', JStr pname) # view_labels alg plabels)),
           (''resources'', JArr (map (view_resource alg) (slice_list (vc_resources c)))),
           (''sources'', JArr (map (view_source alg) (slice_list (vc_sources c)))),
           (''componentReferences'', JArr (map (view_reference alg) (slice_list (vc_references c))))]))]"

section \<open>Descriptors the view is stated for\<close>

definition good_label :: "v2_label \<Rightarrow> bool" where
  "good_label l \<longleftrightarrow> (case vl_value l of Json j \<Rightarrow> json_distinct j | _ \<Rightarrow> True)"

definition good_labels :: "v2_label slice \<Rightarrow> bool" where
  "good_labels ls \<longleftrightarrow> list_all good_label (slice_list ls)"

definition good_element :: "'a v2_element_meta_scheme \<Rightarrow> bool" where
  "good_element e \<longleftrightarrow> good_labels (ve_labels e) \<and> pred_option mok (ve_extra e)"

definition object_access :: "raw option \<Rightarrow> bool" where
  "object_access a \<longleftrightarrow> (\<exists>fs. map_option raw_data a = Some (Json (JObj fs)))"

lemma object_access_code [code]:
  "object_access a = (case map_option raw_data a of Some (Json (JObj fs)) \<Rightarrow> True | _ \<Rightarrow> False)"
  by (auto simp: object_access_def split: option.splits raw_message.splits json.splits)

definition good_descriptor :: "v2_component \<Rightarrow> bool" where
  "good_descriptor c \<longleftrightarrow> good_labels (vc_labels c)
   \<and> list_all (\<lambda>r. good_element r \<and> object_access (v2_access r)) (slice_list (vc_resources c))
   \<and> list_all good_element (slice_list (vc_sources c))
   \<and> list_all good_element (slice_list (vc_references c))"

text \<open>A provider string that is not a JSON object is the provider's name; one that is, is read as written
  by the conversion, name first.\<close>

definition provider_reads :: "('r, 'd) codec \<Rightarrow> string \<Rightarrow> string \<Rightarrow> v2_label slice \<Rightarrow> bool" where
  "provider_reads env s n ls \<longleftrightarrow>
     (case parse_text env s of
        Some (JObj fs) \<Rightarrow> n \<noteq> [] \<and> good_labels ls \<and> Some (JObj fs) = provider_json n ls \<and> numbers_in_range (JObj fs)
      | Some JNull \<Rightarrow> False
      | _ \<Rightarrow> n = s \<and> ls = None)"

section \<open>Evaluating rules\<close>

lemma field_result_null [simp]: "field_result r k JNull = Ok None"
  by (simp add: field_result_def)

lemma field_result_excluded [simp]: "map_of rs k = Some None \<Longrightarrow> field_result (MapExcludes rs) k v = Ok None"
  by (simp add: field_result_def)

lemma prepare_plain_scalar [simp]:
  "prepare (Some NoExcludes) (JStr s) = Ok (Wrapped (JStr s))"
  "prepare (Some NoExcludes) (JBool b) = Ok (Wrapped (JBool b))"
  "prepare (Some NoExcludes) (JNum n) = Ok (Wrapped (JNum n))"
  by (simp_all add: prepare.simps rule_of_def)

lemma strip_null [simp]: "strip v = JNull \<longleftrightarrow> v = JNull"
  by (cases v) auto

text \<open>Two mutually dependent facts: rules that exclude nothing strip a document.\<close>

lemma prepare_strip: "json_distinct v \<Longrightarrow> v \<noteq> JNull \<Longrightarrow> prepare (Some NoExcludes) v = Ok (Wrapped (strip v))"
proof (induction v rule: strip.induct)
  case (1 fs)
  have "field_result NoExcludes k v = Ok (if k \<noteq> [] \<and> v \<noteq> JNull then Some (strip v) else None)"
    if "(k, v) \<in> set fs" for k v
  proof (cases "v = JNull")
    case False
    have "json_distinct v" using "1.prems"(1) that by (auto simp: list_all_iff)
    then have "prepare (Some NoExcludes) v = Ok (Wrapped (strip v))" using "1.IH" [OF that] False by simp
    with False show ?thesis by (simp add: field_result_def)
  qed simp
  then have "collect_fields NoExcludes fs
      = Ok (filter (\<lambda>(k, v). k \<noteq> [] \<and> v \<noteq> JNull) (map (\<lambda>(k, v). (k, strip v)) fs))"
    by (induction fs) (auto simp: put_result_def)
  with "1.prems"(1) show ?case by (simp add: prepare_object rule_of_def)
next
  case (2 xs)
  have "element_result NoExcludes v = Ok (Some (strip v))" if "v \<in> set xs" for v
  proof (cases "v = JNull")
    case True
    then show ?thesis by (simp add: element_result_def prepare.simps)
  next
    case False
    have "json_distinct v" using "2.prems"(1) that by (auto simp: list_all_iff)
    then have "prepare (Some NoExcludes) v = Ok (Wrapped (strip v))" using "2.IH" [OF that] False by simp
    then show ?thesis by (simp add: element_result_def)
  qed
  then have "collect_elements NoExcludes xs = Ok (map strip xs)" by (induction xs) auto
  then show ?case by (simp add: prepare_list rule_of_def)
qed auto

lemma field_result_kept:
  "map_of rs k = None \<Longrightarrow> k \<noteq> [] \<Longrightarrow> json_distinct v \<Longrightarrow> v \<noteq> JNull
    \<Longrightarrow> field_result (MapExcludes rs) k v = Ok (Some (strip v))"
  by (simp add: field_result_def prepare_strip)

lemma field_result_included:
  "map_of rs k = Some (Some NoExcludes) \<Longrightarrow> k \<noteq> [] \<Longrightarrow> json_distinct v \<Longrightarrow> v \<noteq> JNull
    \<Longrightarrow> field_result (MapIncludes rs) k v = Ok (Some (strip v))"
  by (simp add: field_result_def prepare_strip)

lemma field_result_not_included: "map_of rs k = None \<Longrightarrow> field_result (MapIncludes rs) k v = Ok None"
  by (simp add: field_result_def)

lemma field_result_ruled:
  "map_of rs k = Some (Some r) \<Longrightarrow> k \<noteq> [] \<Longrightarrow> v \<noteq> JNull
    \<Longrightarrow> field_result (MapExcludes rs) k v = bind_outcome (prepare (Some r) v)
      (\<lambda>nested. case nested of Nil_normalised \<Rightarrow> Ok None | Null_normalised \<Rightarrow> Panic | Wrapped w \<Rightarrow> Ok (Some w))"
  by (simp add: field_result_def)

section \<open>Labels\<close>

lemma label_json_cases:
  assumes "label_json l = Some j"
  obtains v where "message_json (vl_value l) = Some v"
    and "j = JObj ([(''name'', JStr (vl_name l)), (''value'', v)]
         @ (if vl_signing l then [(''signing'', JBool True)] else []) @ string_omitempty ''version'' (vl_version l))"
  using assms by (auto simp: label_json_def)

lemma good_label_value:
  "good_label l \<Longrightarrow> message_json (vl_value l) = Some v
    \<Longrightarrow> json_distinct v \<and> view_value (vl_value l) = (if v = JNull then [] else [(''value'', strip (float_numbers v))])"
  by (cases "vl_value l") (auto simp: good_label_def view_value_def)

lemma float_omitempty [simp]: "float_fields (string_omitempty k s) = string_omitempty k s"
  by (simp add: string_omitempty_def)

lemma label_ignored: "label_json l = Some j \<Longrightarrow> ignore_labels_without_signature (float_numbers j) \<longleftrightarrow> \<not> vl_signing l"
  by (auto simp: label_json_def ignore_labels_without_signature_def string_omitempty_def)

lemma label_included:
  assumes "good_label l" and "label_json l = Some j" and "vl_signing l"
  shows "element_result (label_excludes alg) (float_numbers j) = Ok (Some (view_label (alg \<noteq> V4alpha1) l))"
proof -
  obtain v where v: "message_json (vl_value l) = Some v"
      "j = JObj ([(''name'', JStr (vl_name l)), (''value'', v)]
         @ (if vl_signing l then [(''signing'', JBool True)] else []) @ string_omitempty ''version'' (vl_version l))"
    using label_json_cases [OF assms(2)] .
  note shown = good_label_value [OF assms(1) v(1)]
  have "\<not> ignore_labels_without_signature (float_numbers j)" using label_ignored [OF assms(2)] assms(3) by simp
  then show ?thesis
    using assms(3) shown
    by (cases "alg = V4alpha1"; cases "vl_version l = []"; cases "v = JNull")
      (simp_all add: v(2) element_result_def label_excludes_def prepare_object rule_of_def string_omitempty_def
        field_result_included field_result_not_included put_result_def view_label_def)
qed

lemma label_left_out:
  "label_json l = Some j \<Longrightarrow> \<not> vl_signing l \<Longrightarrow> element_result (label_excludes alg) (float_numbers j) = Ok None"
  using label_ignored [of l j] by (simp add: element_result_def label_excludes_def)

lemma collect_labels:
  assumes "list_all2 (\<lambda>l j. label_json l = Some j) ls js" and "list_all good_label ls"
  shows "collect_elements (label_excludes alg) (map float_numbers js) = Ok (map (view_label (alg \<noteq> V4alpha1)) (filter vl_signing ls))"
  using assms
proof (induction rule: list_all2_induct)
  case (Cons l ls j js)
  then show ?case
    using label_included [OF _ Cons(1), of alg] label_left_out [OF Cons(1), of alg]
    by (cases "vl_signing l") simp_all
qed simp

lemma map_value_label_excludes [simp]: "map_value (label_excludes alg) v = Ok v"
  by (simp add: label_excludes_def)

lemma filter_label_excludes [simp]:
  "filter_rule (label_excludes alg) (Wrapped (JArr ws)) = (if ws = [] then Nil_normalised else Wrapped (JArr ws))"
  by (simp add: label_excludes_def)

lemma labels_json_cases:
  assumes "labels_json ls = Some lf"
  obtains (absent) "slice_list ls = []" "lf = []"
  | (present) js where "slice_list ls \<noteq> []" "lf = [(''labels'', JArr js)]"
      "list_all2 (\<lambda>l j. label_json l = Some j) (slice_list ls) js"
  using assms
  by (cases ls; cases "the ls")
    (auto simp: labels_json_def slice_list_def all_some_iff list_all2_map1 split del: option.split simp del: all_some.simps list.simps(9))

text \<open>The labels field under a rule map that names the label rules.\<close>

lemma collect_label_field:
  assumes "labels_json ls = Some lf" and "good_labels ls" and "map_of rs ''labels'' = Some (Some (label_excludes alg))"
  shows "collect_fields (MapExcludes rs) (float_fields lf) = Ok (view_labels alg ls)"
  using assms(1)
proof (cases rule: labels_json_cases)
  case (present js)
  have "prepare (Some (label_excludes alg)) (JArr (map float_numbers js))
      = Ok (if filter vl_signing (slice_list ls) = [] then Nil_normalised
            else Wrapped (JArr (map (view_label (alg \<noteq> V4alpha1)) (filter vl_signing (slice_list ls)))))"
    using collect_labels [OF present(3)] assms(2)
    by (simp add: prepare_list rule_of_def good_labels_def del: filter_empty_conv)
  then show ?thesis
    by (simp add: present(2) field_result_ruled assms(3) view_labels_def label_list_def put_result_def
        del: filter_empty_conv)
qed (simp add: view_labels_def label_list_def)

section \<open>Elements\<close>

lemma identity_json_distinct: "mok m \<Longrightarrow> json_distinct (identity_json m)"
  by (auto simp: identity_json_def list_all_iff comp_def case_prod_beta)

lemma identity_json_not_null [simp]: "identity_json m \<noteq> JNull"
  by (simp add: identity_json_def)

lemma strip_identity: "strip (identity_json m) = identity_json (filter (\<lambda>(k, v). k \<noteq> []) m)"
  by (induction m) (auto simp: identity_json_def)

lemma collect_extra_field:
  assumes "pred_option mok e" and "map_of rs ''extraIdentity'' = None"
  shows "collect_fields (MapExcludes rs) (identity_omitempty ''extraIdentity'' e) = Ok (view_extra e)"
proof (cases e)
  case (Some m)
  have "identity_json m \<noteq> JNull" by (simp add: identity_json_def)
  with Some assms show ?thesis
    by (simp add: identity_omitempty_def view_extra_def field_result_kept identity_json_distinct strip_identity put_result_def)
qed (simp add: identity_omitempty_def view_extra_def)

lemma digest_json_simps [simp]:
  "json_distinct (digest_json d)" "strip (digest_json d) = digest_json d" "digest_json d \<noteq> JNull"
  "float_numbers (digest_json d) = digest_json d"
  by (simp_all add: digest_json_def)

lemma float_identity [simp]: "float_numbers (identity_json m) = identity_json m"
  by (induction m) (auto simp: identity_json_def)

lemma float_digest [simp]:
  "float_fields (case d of None \<Rightarrow> [] | Some x \<Rightarrow> [(''digest'', digest_json x)]) = (case d of None \<Rightarrow> [] | Some x \<Rightarrow> [(''digest'', digest_json x)])"
  "float_fields (if b then [] else [(''digest'', digest_json x)]) = (if b then [] else [(''digest'', digest_json x)])"
  by (simp_all split: option.splits)

lemma float_extra [simp]: "float_fields (identity_omitempty k e) = identity_omitempty k e"
  by (auto simp: identity_omitempty_def split: option.splits)

lemma object_json_Some:
  "object_json fss = Some j \<longleftrightarrow> (\<exists>ffs. list_all2 (\<lambda>x y. x = Some y) fss ffs \<and> j = JObj (concat ffs))"
  by (auto simp: object_json_def concat_fields_def all_some_iff)

lemma collect_fields_list:
  "collect_fields r (concat ffs) = (if ffs = [] then Ok [] else
     bind_outcome (collect_fields r (hd ffs)) (\<lambda>xs. bind_outcome (collect_fields r (concat (tl ffs))) (\<lambda>ys. Ok (xs @ ys))))"
  by (cases ffs) (simp_all add: collect_fields_append)

text \<open>The keys of an element's fields.\<close>

lemma labels_json_keys: "labels_json ls = Some lf \<Longrightarrow> lf = [] \<or> (\<exists>js. lf = [(''labels'', JArr js)])"
  by (erule labels_json_cases) auto

lemma extra_keys: "identity_omitempty k e = [] \<or> (\<exists>i. identity_omitempty k e = [(k, i)])"
  by (auto simp: identity_omitempty_def split: option.splits)

lemma string_omitempty_cases: "string_omitempty k s = [] \<or> string_omitempty k s = [(k, JStr s)]"
  by (simp add: string_omitempty_def)

lemma list_omitempty_keys: "list_omitempty k f s = Some lf \<Longrightarrow> lf = [] \<or> (\<exists>i. lf = [(k, i)])"
  by (auto simp: list_omitempty_def list_field_def split: if_splits option.splits)

lemma collect_element_fields:
  assumes "labels_json (ve_labels e) = Some lf" and "good_element e"
    and "map_of rs ''labels'' = Some (Some (label_excludes alg))"
    and "map_of rs ''name'' = None" "map_of rs ''version'' = None" "map_of rs ''extraIdentity'' = None"
  shows "collect_fields (MapExcludes rs)
      ([(''name'', JStr (ve_name e)), (''version'', JStr (ve_version e))] @ float_fields lf @ identity_omitempty ''extraIdentity'' (ve_extra e))
    = Ok (view_element alg e)"
  using assms collect_label_field [OF assms(1) _ assms(3)] collect_extra_field [OF _ assms(6), of "ve_extra e"]
  by (simp add: collect_fields_append good_element_def field_result_kept put_result_def view_element_def)

definition resource_rules :: "v4_algorithm \<Rightarrow> (string \<times> rules option) list" where
  "resource_rules alg = [(''access'', None), (''srcRefs'', None), (''labels'', Some (label_excludes alg))]"

definition element_keys :: "json_fields \<Rightarrow> bool" where
  "element_keys fs \<longleftrightarrow> distinct (map fst fs)
     \<and> fst ` set fs \<subseteq> {''name'', ''version'', ''labels'', ''extraIdentity''}"

lemma element_keys_fields:
  "labels_json (ve_labels e) = Some lf
    \<Longrightarrow> element_keys ([(''name'', n), (''version'', v)] @ lf @ identity_omitempty ''extraIdentity'' (ve_extra e))"
  using labels_json_keys [of "ve_labels e" lf] extra_keys [of "''extraIdentity''" "ve_extra e"]
  by (auto simp: element_keys_def)

lemma element_keys_float:
  "labels_json (ve_labels e) = Some lf
    \<Longrightarrow> element_keys ([(''name'', n), (''version'', v)] @ float_fields lf @ identity_omitempty ''extraIdentity'' (ve_extra e))"
  using labels_json_keys [of "ve_labels e" lf] extra_keys [of "''extraIdentity''" "ve_extra e"]
  by (auto simp: element_keys_def)

lemma element_keys_absent:
  "element_keys fs \<Longrightarrow> k \<notin> {''name'', ''version'', ''labels'', ''extraIdentity''} \<Longrightarrow> map_of fs k = None"
  by (auto simp: element_keys_def map_of_eq_None_iff)

lemma resource_json_shape:
  assumes "resource_json r = Some j"
  obtains lf sf a where "labels_json (ve_labels r) = Some lf"
    and "sf = [] \<or> (\<exists>i. sf = [(''srcRefs'', i)])" and "raw_json (v2_access r) = Some a"
    and "j = JObj (([(''name'', JStr (ve_name r)), (''version'', JStr (ve_version r))] @ lf
          @ identity_omitempty ''extraIdentity'' (ve_extra r))
        @ sf @ [(''type'', JStr (v2_type r)), (''relation'', JStr (v2_relation r)), (''access'', a)]
        @ (case v2_digest_of r of None \<Rightarrow> [] | Some d \<Rightarrow> [(''digest'', digest_json d)]))"
  using assms
  by (fastforce simp: resource_json_def object_json_Some element_fields_def list_all2_Cons1 list_all2_Cons2
      dest: list_omitempty_keys)

lemma none_access_json:
  assumes "raw_json (v2_access r) = Some a" and "object_access (v2_access r)"
  obtains fs where "float_numbers a = JObj fs"
    and "none_access r \<longleftrightarrow> (\<exists>s. map_of fs ''type'' = Some (JStr s) \<and> is_none_access_kind s)"
proof -
  obtain fs where "a = JObj fs" "none_access r \<longleftrightarrow> (\<exists>s. map_of fs ''type'' = Some (JStr s) \<and> is_none_access_kind s)"
    using assms by (auto simp: raw_json_def object_access_def none_access_def)
  with that [of "float_fields fs"] show ?thesis by (simp add: map_of_float_fields)
qed

lemma collect_resource_fields:
  assumes "labels_json (ve_labels r) = Some lf" and "good_element r" and "sf = [] \<or> (\<exists>i. sf = [(''srcRefs'', i)])"
  shows "collect_fields (MapExcludes (resource_rules alg))
      (([(''name'', JStr (ve_name r)), (''version'', JStr (ve_version r))] @ float_fields lf
          @ identity_omitempty ''extraIdentity'' (ve_extra r))
        @ sf @ [(''type'', JStr (v2_type r)), (''relation'', JStr (v2_relation r)), (''access'', a)]
        @ (case d of None \<Rightarrow> [] | Some d \<Rightarrow> [(''digest'', digest_json d)]))
    = Ok (view_element alg r @ [(''type'', JStr (v2_type r)), (''relation'', JStr (v2_relation r))]
        @ (case d of None \<Rightarrow> [] | Some d \<Rightarrow> [(''digest'', digest_json d)]))"
proof -
  have sf: "collect_fields (MapExcludes (resource_rules alg)) sf = Ok []"
    using assms(3) by (auto simp: resource_rules_def put_result_def)
  have "collect_fields (MapExcludes (resource_rules alg))
      ([(''name'', JStr (ve_name r)), (''version'', JStr (ve_version r))] @ float_fields lf @ identity_omitempty ''extraIdentity'' (ve_extra r))
    = Ok (view_element alg r)"
    by (rule collect_element_fields [OF assms(1,2)]) (simp_all add: resource_rules_def)
  then show ?thesis
    unfolding collect_fields_append [of _ "_ @ _ @ identity_omitempty _ _"] by (cases d)
      (simp_all add: collect_fields_append sf, simp_all add: resource_rules_def field_result_kept put_result_def)
qed

lemma resource_element:
  assumes "resource_json r = Some j" and "good_element r" and "object_access (v2_access r)"
  shows "element_result (DynamicArrayExcludes None (Some map_resources_with_none_access)
      (Some (MapExcludes (resource_rules alg)))) (float_numbers j) = Ok (Some (view_resource alg r))"
proof -
  obtain lf sf a where s: "labels_json (ve_labels r) = Some lf" "sf = [] \<or> (\<exists>i. sf = [(''srcRefs'', i)])"
      "raw_json (v2_access r) = Some a"
    and j: "j = JObj (([(''name'', JStr (ve_name r)), (''version'', JStr (ve_version r))] @ lf
          @ identity_omitempty ''extraIdentity'' (ve_extra r))
        @ sf @ [(''type'', JStr (v2_type r)), (''relation'', JStr (v2_relation r)), (''access'', a)]
        @ (case v2_digest_of r of None \<Rightarrow> [] | Some d \<Rightarrow> [(''digest'', digest_json d)]))"
    using resource_json_shape [OF assms(1)] .
  obtain fs where fs: "float_numbers a = JObj fs" "none_access r \<longleftrightarrow> (\<exists>s. map_of fs ''type'' = Some (JStr s) \<and> is_none_access_kind s)"
    using none_access_json [OF s(3) assms(3)] .
  define E where "E = [(''name'', JStr (ve_name r)), (''version'', JStr (ve_version r))] @ float_fields lf
          @ identity_omitempty ''extraIdentity'' (ve_extra r)"
  define tail where "tail d = float_fields sf @ [(''type'', JStr (v2_type r)), (''relation'', JStr (v2_relation r)), (''access'', float_numbers a)]
        @ (case d of None \<Rightarrow> [] | Some d \<Rightarrow> [(''digest'', digest_json d)])" for d
  have keys: "element_keys E" unfolding E_def by (rule element_keys_float [OF s(1)])
  have sf: "float_fields sf = [] \<or> (\<exists>i. float_fields sf = [(''srcRefs'', i)])" using s(2) by auto
  have j': "float_numbers j = JObj (E @ tail (v2_digest_of r))" by (simp add: j E_def tail_def)
  have access: "map_of (E @ tail d) ''access'' = Some (float_numbers a)" for d
    using s(2) element_keys_absent [OF keys, of "''access''"] by (auto simp: tail_def map_add_def)
  have delete: "mdel ''digest'' (E @ tail d) = E @ tail None" for d
  proof -
    have "mdel ''digest'' E = E"
      using keys by (intro delete_id) (auto simp: element_keys_def)
    moreover have "mdel ''digest'' (tail d) = tail None"
      using s(2) by (cases d) (auto simp: tail_def AList.delete_eq)
    ultimately show ?thesis by (simp add: AList.delete_eq)
  qed
  have distinct: "distinct (map fst (E @ tail d))" for d
    using keys s(2) by (cases d) (auto simp: element_keys_def tail_def)
  have collect: "collect_fields (MapExcludes (resource_rules alg)) (E @ tail d)
      = Ok (view_element alg r @ [(''type'', JStr (v2_type r)), (''relation'', JStr (v2_relation r))]
        @ (case d of None \<Rightarrow> [] | Some d \<Rightarrow> [(''digest'', digest_json d)]))" for d
    unfolding E_def tail_def by (rule collect_resource_fields [OF s(1) assms(2) sf])
  have mapped: "map_resources_with_none_access (float_numbers j) = Ok (JObj (E @ tail (if none_access r then None else v2_digest_of r)))"
    using access fs delete
    by (auto simp: map_resources_with_none_access_def map_resources_with_access_type_def j' split: option.splits json.splits)
  have "prepare (Some (MapExcludes (resource_rules alg))) (JObj (E @ tail d))
      = Ok (Wrapped (JObj (view_element alg r @ [(''type'', JStr (v2_type r)), (''relation'', JStr (v2_relation r))]
        @ (case d of None \<Rightarrow> [] | Some d \<Rightarrow> [(''digest'', digest_json d)]))))" for d
    using prepare_object [OF _ distinct, of "Some (MapExcludes (resource_rules alg))"] collect [of d]
    by (simp add: rule_of_def)
  then show ?thesis
    by (simp add: element_result_def mapped view_resource_def)
qed

section \<open>Sources and references\<close>

definition source_rules :: "v4_algorithm \<Rightarrow> (string \<times> rules option) list" where
  "source_rules alg = [(''access'', None), (''labels'', Some (label_excludes alg))]"

lemma source_element:
  assumes "source_json r = Some j" and "good_element r"
  shows "element_result (ArrayExcludes (Some (MapExcludes (source_rules alg)))) (float_numbers j) = Ok (Some (view_source alg r))"
proof -
  obtain lf a where s: "labels_json (ve_labels r) = Some lf"
    and j: "j = JObj (([(''name'', JStr (ve_name r)), (''version'', JStr (ve_version r))] @ lf
          @ identity_omitempty ''extraIdentity'' (ve_extra r)) @ [(''type'', JStr (v2_src_type r)), (''access'', a)])"
    using assms(1) by (fastforce simp: source_json_def object_json_Some element_fields_def list_all2_Cons1 list_all2_Cons2)
  define E where "E = [(''name'', JStr (ve_name r)), (''version'', JStr (ve_version r))] @ float_fields lf
          @ identity_omitempty ''extraIdentity'' (ve_extra r)"
  have keys: "element_keys E" unfolding E_def by (rule element_keys_float [OF s])
  have distinct: "distinct (map fst (E @ [(''type'', JStr (v2_src_type r)), (''access'', float_numbers a)]))"
    using keys by (auto simp: element_keys_def)
  have "collect_fields (MapExcludes (source_rules alg)) E = Ok (view_element alg r)"
    unfolding E_def by (rule collect_element_fields [OF s assms(2)]) (simp_all add: source_rules_def)
  then have "collect_fields (MapExcludes (source_rules alg)) (E @ [(''type'', JStr (v2_src_type r)), (''access'', float_numbers a)])
      = Ok (view_element alg r @ [(''type'', JStr (v2_src_type r))])"
    by (simp add: collect_fields_append, simp add: source_rules_def field_result_kept put_result_def)
  then have "prepare (Some (MapExcludes (source_rules alg))) (JObj (E @ [(''type'', JStr (v2_src_type r)), (''access'', float_numbers a)]))
      = Ok (Wrapped (JObj (view_element alg r @ [(''type'', JStr (v2_src_type r))])))"
    using prepare_object [OF _ distinct, of "Some (MapExcludes (source_rules alg))"] by (simp add: rule_of_def)
  moreover have "float_numbers j = JObj (E @ [(''type'', JStr (v2_src_type r)), (''access'', float_numbers a)])" by (simp add: j E_def)
  ultimately show ?thesis by (simp add: element_result_def view_source_def)
qed

lemma reference_json_shape:
  assumes "reference_json r = Some j"
  obtains lf where "labels_json (ve_labels r) = Some lf"
    and "j = JObj (([(''name'', JStr (ve_name r)), (''version'', JStr (ve_version r))] @ lf
          @ identity_omitempty ''extraIdentity'' (ve_extra r)) @ [(''componentName'', JStr (v2_component r))]
          @ (if v2_ref_digest r = zero_digest then [] else [(''digest'', digest_json (v2_ref_digest r))]))"
  using assms by (fastforce simp: reference_json_def object_json_Some element_fields_def list_all2_Cons1 list_all2_Cons2)

lemma reference_distinct:
  assumes "labels_json (ve_labels r) = Some lf"
  shows "distinct (map fst (([(''name'', n), (''version'', v)] @ float_fields lf @ identity_omitempty ''extraIdentity'' (ve_extra r))
    @ [(''componentName'', c)] @ (if b then [] else [(''digest'', d)])))"
  using element_keys_float [OF assms, of n v] by (auto simp: element_keys_def image_Un)

text \<open>v4alpha1 keeps every label of a reference but its version, v4alpha2 everything.\<close>

lemma label_unversioned:
  assumes "good_label l" and "label_json l = Some j"
  shows "prepare (Some (MapExcludes [(''version'', None)])) (float_numbers j) = Ok (Wrapped (view_label False l))"
proof -
  obtain v where v: "message_json (vl_value l) = Some v"
      "j = JObj ([(''name'', JStr (vl_name l)), (''value'', v)]
         @ (if vl_signing l then [(''signing'', JBool True)] else []) @ string_omitempty ''version'' (vl_version l))"
    using label_json_cases [OF assms(2)] .
  note shown = good_label_value [OF assms(1) v(1)]
  show ?thesis
    using shown by (cases "vl_version l = []"; cases "v = JNull")
      (simp_all add: v(2) prepare_object rule_of_def string_omitempty_def field_result_kept put_result_def view_label_def)
qed

lemma label_stripped:
  assumes "good_label l" and "label_json l = Some j"
  shows "strip (float_numbers j) = view_label True l" and "json_distinct j" and "j \<noteq> JNull"
proof -
  obtain v where v: "message_json (vl_value l) = Some v"
      "j = JObj ([(''name'', JStr (vl_name l)), (''value'', v)]
         @ (if vl_signing l then [(''signing'', JBool True)] else []) @ string_omitempty ''version'' (vl_version l))"
    using label_json_cases [OF assms(2)] .
  note shown = good_label_value [OF assms(1) v(1)]
  show "strip (float_numbers j) = view_label True l" "json_distinct j" "j \<noteq> JNull"
    using shown by (cases "v = JNull"; simp add: v(2) string_omitempty_def view_label_def)+
qed

lemma collect_elements_map:
  assumes "list_all2 (\<lambda>x j. f x = Some j) xs js"
    and "\<And>x j. x \<in> set xs \<Longrightarrow> f x = Some j \<Longrightarrow> element_result r (float_numbers j) = Ok (Some (g x))"
  shows "collect_elements r (map float_numbers js) = Ok (map g xs)"
  using assms
proof (induction rule: list_all2_induct)
  case (Cons x xs y ys)
  have "element_result r (float_numbers y) = Ok (Some (g x))" and "collect_elements r (map float_numbers ys) = Ok (map g xs)"
    using Cons by simp_all
  then show ?case by simp
qed simp

lemma collect_unversioned:
  assumes "labels_json ls = Some lf" and "good_labels ls"
    and "map_of rs ''labels'' = Some (Some (ArrayExcludes (Some (MapExcludes [(''version'', None)]))))"
  shows "collect_fields (MapExcludes rs) (float_fields lf) = Ok (label_list False (slice_list ls))"
  using assms(1)
proof (cases rule: labels_json_cases)
  case (present js)
  have "collect_elements (ArrayExcludes (Some (MapExcludes [(''version'', None)]))) (map float_numbers js) = Ok (map (view_label False) (slice_list ls))"
    using assms(2) by (intro collect_elements_map [OF present(3)])
      (auto simp: good_labels_def list_all_iff element_result_def label_unversioned)
  then show ?thesis
    using present by (simp add: field_result_ruled assms(3) prepare_list rule_of_def label_list_def put_result_def)
qed (simp add: label_list_def)

lemma reference_stripped:
  assumes "reference_json r = Some j" and "good_element r"
  shows "strip (float_numbers j) = view_reference V4alpha2 r" and "json_distinct j" and "j \<noteq> JNull"
proof -
  obtain lf where s: "labels_json (ve_labels r) = Some lf"
    and j: "j = JObj (([(''name'', JStr (ve_name r)), (''version'', JStr (ve_version r))] @ lf
          @ identity_omitempty ''extraIdentity'' (ve_extra r)) @ [(''componentName'', JStr (v2_component r))]
          @ (if v2_ref_digest r = zero_digest then [] else [(''digest'', digest_json (v2_ref_digest r))]))"
    using reference_json_shape [OF assms(1)] .
  have labels: "strip (JObj (float_fields lf)) = JObj (label_list True (slice_list (ve_labels r))) \<and> json_distinct (JObj lf)"
    using s
  proof (cases rule: labels_json_cases)
    case (present js)
    from present(3) assms(2) have "map (strip \<circ> float_numbers) js = map (view_label True) (slice_list (ve_labels r)) \<and> list_all json_distinct js"
      unfolding good_element_def good_labels_def
      by (induction rule: list_all2_induct) (auto simp: label_stripped)
    with present show ?thesis by (simp add: label_list_def)
  qed (simp add: label_list_def)
  have extra: "strip (JObj (identity_omitempty ''extraIdentity'' (ve_extra r))) = JObj (view_extra (ve_extra r))"
      "list_all (\<lambda>(_, v). json_distinct v) (identity_omitempty ''extraIdentity'' (ve_extra r))"
    using assms(2) by (auto simp: identity_omitempty_def view_extra_def good_element_def strip_identity
        identity_json_distinct identity_json_not_null split: option.splits)
  show "strip (float_numbers j) = view_reference V4alpha2 r"
    using labels extra by (auto simp: j view_reference_def reference_labels_def)
  show "json_distinct j"
    using labels extra reference_distinct [OF s] by (auto simp: j)
  show "j \<noteq> JNull" by (simp add: j)
qed

lemma reference_element:
  assumes "reference_json r = Some j" and "good_element r" and "alg \<noteq> V4alpha2"
  shows "element_result (reference_rules alg) (float_numbers j) = Ok (Some (view_reference alg r))"
proof -
  obtain lf where s: "labels_json (ve_labels r) = Some lf"
    and j: "j = JObj (([(''name'', JStr (ve_name r)), (''version'', JStr (ve_version r))] @ lf
          @ identity_omitempty ''extraIdentity'' (ve_extra r)) @ [(''componentName'', JStr (v2_component r))]
          @ (if v2_ref_digest r = zero_digest then [] else [(''digest'', digest_json (v2_ref_digest r))]))"
    using reference_json_shape [OF assms(1)] .
  obtain rs where rs: "reference_rules alg = ArrayExcludes (Some (MapExcludes rs))"
      "rs = [(''labels'', Some (if alg = V4alpha1 then ArrayExcludes (Some (MapExcludes [(''version'', None)])) else label_excludes alg))]"
    using assms(3) by (cases alg) (auto simp: reference_rules_def)
  have "collect_fields (MapExcludes rs) (float_fields lf) = Ok (reference_labels alg (ve_labels r))"
  proof (cases "alg = V4alpha1")
    case True
    then show ?thesis
      using collect_unversioned [OF s, of rs] assms(2) by (simp add: rs good_element_def reference_labels_def)
  next
    case False
    then have "alg = V4alpha3" using assms(3) by (cases alg) auto
    then show ?thesis
      using collect_label_field [OF s, of rs alg] assms(2) by (simp add: rs good_element_def reference_labels_def)
  qed
  moreover have "collect_fields (MapExcludes rs) (identity_omitempty ''extraIdentity'' (ve_extra r)) = Ok (view_extra (ve_extra r))"
    using assms(2) by (intro collect_extra_field) (auto simp: good_element_def rs)
  moreover have "map_of rs k = None" if "k \<noteq> ''labels''" for k using that by (simp add: rs)
  ultimately show ?thesis
    using prepare_object [OF _ reference_distinct [OF s], of "Some (MapExcludes rs)"]
    by (simp add: element_result_def rs(1) j rule_of_def collect_fields_append field_result_kept put_result_def view_reference_def)
qed

lemma list_field_Some:
  "list_field k f (default_slice s) = Some lf \<Longrightarrow> \<exists>js. lf = [(k, JArr js)] \<and> list_all2 (\<lambda>x j. f x = Some j) (slice_list s) js"
  by (cases s) (auto simp: list_field_def default_slice_def slice_list_def all_some_iff list_all2_map1)

lemma prepare_references:
  assumes "list_all2 (\<lambda>x j. reference_json x = Some j) rs js" and "list_all good_element rs"
  shows "prepare (Some (reference_rules alg)) (JArr (map float_numbers js)) = Ok (Wrapped (JArr (map (view_reference alg) rs)))"
proof (cases "alg = V4alpha2")
  case True
  have "list_all json_distinct js \<and> map (strip \<circ> float_numbers) js = map (view_reference V4alpha2) rs"
    using assms by (induction rule: list_all2_induct) (auto simp: reference_stripped)
  then show ?thesis using prepare_strip [of "JArr (map float_numbers js)"]
    by (simp add: True reference_rules_def list.pred_map comp_def)
next
  case False
  have "collect_elements (reference_rules alg) (map float_numbers js) = Ok (map (view_reference alg) rs)"
    using assms(2) False by (intro collect_elements_map [OF assms(1)] reference_element) (auto simp: list_all_iff)
  moreover have "map_value (reference_rules alg) v = Ok v" "filter_rule (reference_rules alg) w = w" for v w
    by (cases alg; simp add: reference_rules_def)+
  ultimately show ?thesis by (simp add: prepare_list rule_of_def)
qed

section \<open>Provider, component and descriptor\<close>

definition provider_rules :: "('r, 'd) codec \<Rightarrow> v4_algorithm \<Rightarrow> rules" where
  "provider_rules env alg =
     MapValue (Some (provider_as_map env)) (Some (MapExcludes [(''labels'', Some (label_excludes alg))]))"

lemma field_result_map_value: "field_result (MapValue m (Some r)) = field_result r"
  by (simp add: field_result_def fun_eq_iff)

lemma collect_fields_map_value: "collect_fields (MapValue m (Some r)) fs = collect_fields r fs"
  by (induction fs) (auto simp: field_result_map_value)

lemma prepare_provider:
  assumes "provider_reads env s n ls"
  shows "prepare (Some (provider_rules env alg)) (JStr s) = Ok (Wrapped (JObj ((''name'', JStr n) # view_labels alg ls)))"
proof -
  let ?R = "[(''labels'', Some (label_excludes alg))]"
  obtain lf where lf: "provider_as_map env (JStr s) = Ok (JObj ((''name'', JStr n) # float_fields lf))"
      "labels_json ls = Some lf" "good_labels ls"
  proof (cases "\<exists>fs. parse_text env s = Some (JObj fs)")
    case True
    with assms obtain lf where lf: "labels_json ls = Some lf" "good_labels ls"
        "parse_text env s = Some (JObj ((''name'', JStr n) # lf))" "numbers_in_range (JObj ((''name'', JStr n) # lf))"
      by (cases "labels_json ls") (auto simp: provider_reads_def provider_json_def)
    then have "decode_numbers (JObj ((''name'', JStr n) # lf)) = Some (JObj ((''name'', JStr n) # float_fields lf))"
      unfolding decode_numbers_def if_P [OF lf(4)] by simp
    with lf show ?thesis by (intro that [of lf]) (simp_all add: provider_as_map_def)
  next
    case False
    then have "provider_as_map env (JStr s) = Ok (JObj [(''name'', JStr n)])" and "ls = None"
      using assms by (auto simp: provider_reads_def provider_as_map_def decode_numbers_def split: option.splits json.splits)
    with that [of "[]"] show ?thesis by (simp add: labels_json_def good_labels_def slice_list_def)
  qed
  have "collect_fields (MapExcludes ?R) ((''name'', JStr n) # float_fields lf) = Ok ((''name'', JStr n) # view_labels alg ls)"
    using collect_label_field [OF lf(2,3), of ?R alg] by (simp add: field_result_kept put_result_def)
  moreover have "distinct (map fst ((''name'', JStr n) # float_fields lf))"
    using labels_json_keys [OF lf(2)] by auto
  ultimately show ?thesis
    using prepare_struct_collect [of "[]" "(''name'', JStr n) # float_fields lf" "provider_rules env alg"]
    by (simp add: prepare.simps [of _ "JStr s"] rule_of_def provider_rules_def lf(1) collect_fields_map_value
        field_result_map_value)
qed

definition component_rules :: "('r, 'd) codec \<Rightarrow> v4_algorithm \<Rightarrow> (string \<times> rules option) list" where
  "component_rules env alg =
     [(''repositoryContexts'', None), (''provider'', Some (provider_rules env alg)),
      (''labels'', Some (label_excludes alg)),
      (''resources'', Some (DynamicArrayExcludes None (Some map_resources_with_none_access)
         (Some (MapExcludes (resource_rules alg))))),
      (''sources'', Some (ArrayExcludes (Some (MapExcludes (source_rules alg))))),
      (''componentReferences'', Some (reference_rules alg))]"

lemma exclusion_rules_eq:
  "exclusion_rules env alg =
     MapExcludes [(''meta'', None), (''component'', Some (MapExcludes (component_rules env alg))),
       (''signatures'', None), (''nestedDigests'', None)]"
  by (simp add: exclusion_rules_def component_rules_def provider_rules_def resource_rules_def source_rules_def)

definition component_view :: "v4_algorithm \<Rightarrow> string \<Rightarrow> v2_label slice \<Rightarrow> v2_component \<Rightarrow> json_fields" where
  "component_view alg pname plabels c =
     [(''name'', JStr (vc_name c)), (''version'', JStr (vc_version c))] @ view_labels alg (vc_labels c)
        @ string_omitempty ''creationTime'' (vc_created c)
        @ [(''provider'', JObj ((''name'', JStr pname) # view_labels alg plabels)),
           (''resources'', JArr (map (view_resource alg) (slice_list (vc_resources c)))),
           (''sources'', JArr (map (view_source alg) (slice_list (vc_sources c)))),
           (''componentReferences'', JArr (map (view_reference alg) (slice_list (vc_references c))))]"

lemma component_json_shape:
  assumes "component_json (vdesc_component (default_component d)) = Some j"
  obtains lf ctxs res srcs refs where "labels_json (vc_labels (vdesc_component d)) = Some lf"
    and "list_all2 (\<lambda>x j. resource_json x = Some j) (slice_list (vc_resources (vdesc_component d))) res"
    and "list_all2 (\<lambda>x j. source_json x = Some j) (slice_list (vc_sources (vdesc_component d))) srcs"
    and "list_all2 (\<lambda>x j. reference_json x = Some j) (slice_list (vc_references (vdesc_component d))) refs"
    and "j = JObj ([(''name'', JStr (vc_name (vdesc_component d))), (''version'', JStr (vc_version (vdesc_component d)))] @ lf
          @ string_omitempty ''creationTime'' (vc_created (vdesc_component d))
          @ [(''repositoryContexts'', JArr ctxs), (''provider'', JStr (vc_provider (vdesc_component d))),
             (''resources'', JArr res), (''sources'', JArr srcs), (''componentReferences'', JArr refs)])"
proof -
  let ?c = "vdesc_component d"
  obtain lf cf rf sf ff where f: "labels_json (vc_labels ?c) = Some lf"
      "list_field ''repositoryContexts'' raw_json (default_slice (vc_contexts ?c)) = Some cf"
      "list_field ''resources'' resource_json (default_slice (vc_resources ?c)) = Some rf"
      "list_field ''sources'' source_json (default_slice (vc_sources ?c)) = Some sf"
      "list_field ''componentReferences'' reference_json (default_slice (vc_references ?c)) = Some ff"
      "j = JObj ([(''name'', JStr (vc_name ?c)), (''version'', JStr (vc_version ?c))] @ lf
          @ string_omitempty ''creationTime'' (vc_created ?c) @ cf @ [(''provider'', JStr (vc_provider ?c))] @ rf @ sf @ ff)"
    using assms by (auto simp: component_json_def object_json_Some list_all2_Cons1 list_all2_Cons2
        default_component_def Let_def)
  show ?thesis
    using list_field_Some [OF f(2)] list_field_Some [OF f(3)] list_field_Some [OF f(4)] list_field_Some [OF f(5)] f(1,6)
    by (auto intro: that)
qed

lemma prepare_component:
  assumes "component_json (vdesc_component (default_component d)) = Some j"
    and "good_descriptor (vdesc_component d)" and "provider_reads env (vc_provider (vdesc_component d)) n ls"
  shows "prepare (Some (MapExcludes (component_rules env alg))) (float_numbers j) = Ok (Wrapped (JObj (component_view alg n ls (vdesc_component d))))"
proof -
  let ?c = "vdesc_component d" and ?R = "component_rules env alg"
  obtain lf ctxs res srcs refs where l: "labels_json (vc_labels ?c) = Some lf"
    and res: "list_all2 (\<lambda>x j. resource_json x = Some j) (slice_list (vc_resources ?c)) res"
    and srcs: "list_all2 (\<lambda>x j. source_json x = Some j) (slice_list (vc_sources ?c)) srcs"
    and refs: "list_all2 (\<lambda>x j. reference_json x = Some j) (slice_list (vc_references ?c)) refs"
    and j: "j = JObj ([(''name'', JStr (vc_name ?c)), (''version'', JStr (vc_version ?c))] @ lf
          @ string_omitempty ''creationTime'' (vc_created ?c)
          @ [(''repositoryContexts'', JArr ctxs), (''provider'', JStr (vc_provider ?c)),
             (''resources'', JArr res), (''sources'', JArr srcs), (''componentReferences'', JArr refs)])"
    using component_json_shape [OF assms(1)] .
  have good: "good_labels (vc_labels ?c)" "\<And>r. r \<in> set (slice_list (vc_resources ?c)) \<Longrightarrow> good_element r \<and> object_access (v2_access r)"
      "\<And>r. r \<in> set (slice_list (vc_sources ?c)) \<Longrightarrow> good_element r" "list_all good_element (slice_list (vc_references ?c))"
    using assms(2) by (auto simp: good_descriptor_def list_all_iff)
  have labels: "collect_fields (MapExcludes ?R) (float_fields lf) = Ok (view_labels alg (vc_labels ?c))"
    by (rule collect_label_field [OF l good(1)]) (simp add: component_rules_def)
  have created: "collect_fields (MapExcludes ?R) (string_omitempty ''creationTime'' (vc_created ?c))
      = Ok (string_omitempty ''creationTime'' (vc_created ?c))"
    by (simp add: string_omitempty_def component_rules_def field_result_kept put_result_def)
  have provider: "field_result (MapExcludes ?R) ''provider'' (JStr (vc_provider ?c))
      = Ok (Some (JObj ((''name'', JStr n) # view_labels alg ls)))"
    using prepare_provider [OF assms(3), of alg]
    by (simp add: field_result_ruled [where r = "provider_rules env alg"] component_rules_def)
  have resources: "field_result (MapExcludes ?R) ''resources'' (JArr (map float_numbers res))
      = Ok (Some (JArr (map (view_resource alg) (slice_list (vc_resources ?c)))))"
    using collect_elements_map [OF res resource_element] good(2)
    by (simp add: field_result_ruled [where r = "DynamicArrayExcludes None (Some map_resources_with_none_access)
          (Some (MapExcludes (resource_rules alg)))"] component_rules_def prepare_list rule_of_def)
  have sources: "field_result (MapExcludes ?R) ''sources'' (JArr (map float_numbers srcs))
      = Ok (Some (JArr (map (view_source alg) (slice_list (vc_sources ?c)))))"
    using collect_elements_map [OF srcs source_element] good(3)
    by (simp add: field_result_ruled [where r = "ArrayExcludes (Some (MapExcludes (source_rules alg)))"]
        component_rules_def prepare_list rule_of_def)
  have references: "field_result (MapExcludes ?R) ''componentReferences'' (JArr (map float_numbers refs))
      = Ok (Some (JArr (map (view_reference alg) (slice_list (vc_references ?c)))))"
    using prepare_references [OF refs good(4), of alg]
    by (simp add: field_result_ruled [where r = "reference_rules alg"] component_rules_def)
  have kept: "field_result (MapExcludes ?R) ''name'' (JStr s) = Ok (Some (JStr s))"
      "field_result (MapExcludes ?R) ''version'' (JStr s) = Ok (Some (JStr s))"
      "field_result (MapExcludes ?R) ''repositoryContexts'' w = Ok None" for s w
    by (simp_all add: component_rules_def field_result_kept)
  have "distinct (map fst ([(''name'', JStr (vc_name ?c)), (''version'', JStr (vc_version ?c))] @ float_fields lf
          @ string_omitempty ''creationTime'' (vc_created ?c)
          @ [(''repositoryContexts'', JArr (map float_numbers ctxs)), (''provider'', JStr (vc_provider ?c)),
             (''resources'', JArr (map float_numbers res)), (''sources'', JArr (map float_numbers srcs)), (''componentReferences'', JArr (map float_numbers refs))]))"
    using labels_json_keys [OF l] string_omitempty_cases [of "''creationTime''" "vc_created ?c"] by auto
  then have "prepare (Some (MapExcludes ?R)) (float_numbers j) = bind_outcome (collect_fields (MapExcludes ?R)
      ([(''name'', JStr (vc_name ?c)), (''version'', JStr (vc_version ?c))] @ float_fields lf
          @ string_omitempty ''creationTime'' (vc_created ?c)
          @ [(''repositoryContexts'', JArr (map float_numbers ctxs)), (''provider'', JStr (vc_provider ?c)),
             (''resources'', JArr (map float_numbers res)), (''sources'', JArr (map float_numbers srcs)), (''componentReferences'', JArr (map float_numbers refs))]))
      (\<lambda>gs. Ok (Wrapped (JObj gs)))"
    using prepare_object [of "Some (MapExcludes ?R)"] by (simp add: j rule_of_def)
  then show ?thesis
    by (simp add: collect_fields_append labels created provider resources sources references kept put_result_def component_view_def)
qed

text \<open>What the rules make of a descriptor's document is the signed view.\<close>

lemma prepare_descriptor:
  assumes "descriptor_json env (default_component d) = Some j"
    and "numbers_in_range j" and "good_descriptor (vdesc_component d)" and "provider_reads env (vc_provider (vdesc_component d)) n ls"
  shows "prepare_normalisation (exclusion_rules env alg) j = Ok (Wrapped (signed_view alg n ls (vdesc_component d)))"
proof -
  obtain c sf nf where c: "component_json (vdesc_component (default_component d)) = Some c"
      "list_omitempty ''signatures'' (signature_json env) (vdesc_signatures (default_component d)) = Some sf"
      "list_omitempty ''nestedDigests'' nested_digest_json (vdesc_nested (default_component d)) = Some nf"
      "j = JObj ([(''meta'', JObj [(''schemaVersion'', JStr (vdesc_schema (default_component d)))]), (''component'', c)] @ sf @ nf)"
    using assms(1) by (auto simp: descriptor_json_def object_json_Some list_all2_Cons1 list_all2_Cons2)
  have "float_numbers c \<noteq> JNull" using component_json_shape [OF c(1)] by fastforce
  with prepare_component [OF c(1) assms(3,4), of alg]
  have "field_result (exclusion_rules env alg) ''component'' (float_numbers c) = Ok (Some (JObj (component_view alg n ls (vdesc_component d))))"
    by (simp add: exclusion_rules_eq field_result_ruled)
  moreover have "field_result (exclusion_rules env alg) k v = Ok None" if "k \<in> {''meta'', ''signatures'', ''nestedDigests''}" for k v
    using that by (auto simp: exclusion_rules_eq)
  moreover have "decode_numbers j = Some (JObj ([(''meta'', JObj [(''schemaVersion'', JStr (vdesc_schema (default_component d)))]),
      (''component'', float_numbers c)] @ float_fields sf @ float_fields nf))"
    using assms(2) by (simp add: decode_numbers_def c(4))
  moreover have "distinct (map fst ([(''meta'', JObj [(''schemaVersion'', JStr (vdesc_schema (default_component d)))]), (''component'', float_numbers c)]
        @ float_fields sf @ float_fields nf))"
      and "sf = [] \<or> (\<exists>i. sf = [(''signatures'', i)])" and "nf = [] \<or> (\<exists>i. nf = [(''nestedDigests'', i)])"
    using list_omitempty_keys [OF c(2)] list_omitempty_keys [OF c(3)] by auto
  ultimately show ?thesis
    by (auto simp: prepare_normalisation_def prepare_struct_collect put_result_def signed_view_def component_view_def
        simp del: prepare_struct.simps)
qed

end
