(* ===== verification/Normalisation_Properties.thy ===== *)
theory Normalisation_Properties
  imports Signed_View
begin

text \<open>
  What the v4 normalisation algorithms guarantee to a signature: the hashed document is the signed
  view, it ignores what may change in transport, and it binds names, versions, digests and signed labels.
\<close>

section \<open>What the view leaves out\<close>

text \<open>A descriptor stripped of everything a signature does not cover.\<close>

definition covered_element :: "'a v2_element_meta_scheme \<Rightarrow> 'a v2_element_meta_scheme" where
  "covered_element e = e\<lparr>ve_labels := Some (filter vl_signing (slice_list (ve_labels e)))\<rparr>"

definition covered_resource :: "v2_resource \<Rightarrow> v2_resource" where
  "covered_resource r =
     (covered_element r)\<lparr>v2_access := None, v2_source_refs := None,
        v2_digest_of := if none_access r then None else v2_digest_of r\<rparr>"

definition covered_source :: "v2_source \<Rightarrow> v2_source" where
  "covered_source r = (covered_element r)\<lparr>v2_src_access := None\<rparr>"

definition covered_reference :: "v4_algorithm \<Rightarrow> v2_reference \<Rightarrow> v2_reference" where
  "covered_reference alg r = (if alg = V4alpha3 then covered_element r else r)"

definition covered :: "v4_algorithm \<Rightarrow> v2_component \<Rightarrow> v2_component" where
  "covered alg c =
     c\<lparr>vc_labels := Some (filter vl_signing (slice_list (vc_labels c))), vc_contexts := None, vc_provider := [],
       vc_resources := Some (map covered_resource (slice_list (vc_resources c))),
       vc_sources := Some (map covered_source (slice_list (vc_sources c))),
       vc_references := Some (map (covered_reference alg) (slice_list (vc_references c)))\<rparr>"

lemma view_labels_covered: "view_labels alg (Some (filter vl_signing (slice_list ls))) = view_labels alg ls"
  by (simp add: view_labels_def slice_list_def [of "Some _"])

lemma view_covered_resource: "view_resource alg (covered_resource r) = view_resource alg r"
proof -
  have "\<not> none_access (covered_resource r)" by (simp add: none_access_def covered_resource_def)
  then show ?thesis
    by (cases "none_access r")
      (simp_all add: view_resource_def covered_resource_def covered_element_def view_element_def view_labels_covered)
qed

lemma view_covered_source: "view_source alg (covered_source r) = view_source alg r"
  by (simp add: view_source_def covered_source_def covered_element_def view_element_def view_labels_covered)

lemma view_covered_reference: "view_reference alg (covered_reference alg r) = view_reference alg r"
  by (simp add: view_reference_def covered_reference_def covered_element_def reference_labels_def view_labels_covered)

lemma signed_view_covered: "signed_view alg n ls (covered alg c) = signed_view alg n ls c"
  by (simp add: signed_view_def covered_def view_labels_covered slice_list_def [of "Some _"] view_covered_resource
      view_covered_source view_covered_reference comp_def)

section \<open>What the view binds\<close>

text \<open>A label value as it is signed: decoded, without null fields and fields with an empty name; no value
  and a null are the same. Signed labels agree on name, value, signing mark and, where the algorithm
  keeps it, version.\<close>

definition label_value :: "v2_label \<Rightarrow> json option" where
  "label_value l = (case vl_value l of Json j \<Rightarrow> if j = JNull then None else Some (strip (float_numbers j)) | _ \<Rightarrow> None)"

definition same_label :: "bool \<Rightarrow> v2_label \<Rightarrow> v2_label \<Rightarrow> bool" where
  "same_label ver l m \<longleftrightarrow> vl_name l = vl_name m \<and> rel_option same_json (label_value l) (label_value m)
     \<and> vl_signing l = vl_signing m \<and> (ver \<longrightarrow> vl_version l = vl_version m)"

definition same_labels :: "v4_algorithm \<Rightarrow> v2_label slice \<Rightarrow> v2_label slice \<Rightarrow> bool" where
  "same_labels alg ls ms \<longleftrightarrow>
     list_all2 (same_label (alg \<noteq> V4alpha1)) (filter vl_signing (slice_list ls)) (filter vl_signing (slice_list ms))"

definition bound_extra :: "identity option \<Rightarrow> string \<Rightarrow> string option" where
  "bound_extra e k = (if k = [] then None else Option.bind e (\<lambda>m. map_of m k))"

definition same_element :: "'a v2_element_meta_scheme \<Rightarrow> 'b v2_element_meta_scheme \<Rightarrow> bool" where
  "same_element e f \<longleftrightarrow> ve_name e = ve_name f \<and> ve_version e = ve_version f \<and> bound_extra (ve_extra e) = bound_extra (ve_extra f)"

definition same_resource :: "v4_algorithm \<Rightarrow> v2_resource \<Rightarrow> v2_resource \<Rightarrow> bool" where
  "same_resource alg r s \<longleftrightarrow>
     same_element r s \<and> same_labels alg (ve_labels r) (ve_labels s) \<and> v2_type r = v2_type s \<and> v2_relation r = v2_relation s
   \<and> (if none_access r then None else v2_digest_of r) = (if none_access s then None else v2_digest_of s)"

definition same_source :: "v4_algorithm \<Rightarrow> v2_source \<Rightarrow> v2_source \<Rightarrow> bool" where
  "same_source alg r s \<longleftrightarrow> same_element r s \<and> same_labels alg (ve_labels r) (ve_labels s) \<and> v2_src_type r = v2_src_type s"

text \<open>On references, v4alpha1 and v4alpha2 keep the labels that are not signed as well.\<close>

definition same_reference_labels :: "v4_algorithm \<Rightarrow> v2_label slice \<Rightarrow> v2_label slice \<Rightarrow> bool" where
  "same_reference_labels alg ls ms \<longleftrightarrow>
     (case alg of
        V4alpha1 \<Rightarrow> list_all2 (same_label False) (slice_list ls) (slice_list ms)
      | V4alpha2 \<Rightarrow> list_all2 (same_label True) (slice_list ls) (slice_list ms)
      | V4alpha3 \<Rightarrow> same_labels V4alpha3 ls ms)"

definition same_reference :: "v4_algorithm \<Rightarrow> v2_reference \<Rightarrow> v2_reference \<Rightarrow> bool" where
  "same_reference alg r s \<longleftrightarrow>
     same_element r s \<and> same_reference_labels alg (ve_labels r) (ve_labels s) \<and> v2_component r = v2_component s
   \<and> v2_ref_digest r = v2_ref_digest s"

definition same_component ::
    "v4_algorithm \<Rightarrow> string \<times> v2_label slice \<times> v2_component \<Rightarrow> string \<times> v2_label slice \<times> v2_component \<Rightarrow> bool" where
  "same_component alg = (\<lambda>(n, ls, c) (n', ls', c').
     vc_name c = vc_name c' \<and> vc_version c = vc_version c' \<and> vc_created c = vc_created c'
   \<and> same_labels alg (vc_labels c) (vc_labels c') \<and> n = n' \<and> same_labels alg ls ls'
   \<and> list_all2 (same_resource alg) (slice_list (vc_resources c)) (slice_list (vc_resources c'))
   \<and> list_all2 (same_source alg) (slice_list (vc_sources c)) (slice_list (vc_sources c'))
   \<and> list_all2 (same_reference alg) (slice_list (vc_references c)) (slice_list (vc_references c')))"

lemma same_field: "same_json (JObj fs) (JObj gs) \<Longrightarrow> rel_option same_json (map_of fs k) (map_of gs k)"
  by (auto elim: same_jsonE)

lemma same_string: "same_json (JStr s) w \<longleftrightarrow> w = JStr s"
  by (auto elim: same_jsonE intro: same_str)

lemma same_array_map:
  "same_json (JArr (map f xs)) (JArr (map g ys)) \<Longrightarrow> list_all2 (\<lambda>x y. same_json (f x) (g y)) xs ys"
  by (auto elim!: same_jsonE simp: list_all2_map1 list_all2_map2)

lemma map_of_string_omitempty: "map_of (string_omitempty k s) k' = (if k' = k \<and> s \<noteq> [] then Some (JStr s) else None)"
  by (simp add: string_omitempty_def)

lemma map_of_label_list:
  "map_of (label_list ver ls) k = (if k = ''labels'' \<and> ls \<noteq> [] then Some (JArr (map (view_label ver) ls)) else None)"
  by (simp add: label_list_def)

lemma map_of_view_extra: "k \<noteq> ''extraIdentity'' \<Longrightarrow> map_of (view_extra e) k = None"
  by (auto simp: view_extra_def split: option.splits)

lemma view_value_keys: "k \<noteq> ''value'' \<Longrightarrow> map_of (view_value m) k = None"
  by (auto simp: view_value_def split: raw_message.splits)

lemma case_option_id: "(case x of None \<Rightarrow> None | Some y \<Rightarrow> Some y) = x"
  by (cases x) auto

lemma view_value_field: "map_of (view_value (vl_value l)) ''value'' = label_value l"
  by (simp add: view_value_def label_value_def split: raw_message.split)

lemma view_label_binds:
  assumes "same_json (view_label ver l) (view_label ver m)"
  shows "same_label ver l m"
proof -
  note field = same_field [OF assms [unfolded view_label_def]]
  have "vl_name l = vl_name m" using field [of "''name''"] by (simp add: same_string)
  moreover have "rel_option same_json (label_value l) (label_value m)"
    using field [of "''value''"]
    by (cases "vl_signing l"; cases "vl_signing m"; cases ver)
      (simp_all add: map_add_def map_of_string_omitempty view_value_field case_option_id cong: option.case_cong)
  moreover have "vl_signing l = vl_signing m"
    using field [of "''signing''"] by (simp add: map_add_def map_of_string_omitempty view_value_keys split: if_splits)
  moreover have "vl_version l = vl_version m" if ver
    using field [of "''version''"] that
    by (auto simp: map_add_def map_of_string_omitempty view_value_keys same_string split: if_splits)
  ultimately show ?thesis by (simp add: same_label_def)
qed

lemma label_list_binds:
  assumes "rel_option same_json (map_of (label_list ver ls) ''labels'') (map_of (label_list ver ms) ''labels'')"
  shows "list_all2 (same_label ver) ls ms"
proof (cases "ls = []")
  case True
  with assms show ?thesis by (auto simp: map_of_label_list split: if_splits)
next
  case False
  with assms have "same_json (JArr (map (view_label ver) ls)) (JArr (map (view_label ver) ms))"
    by (auto simp: map_of_label_list split: if_splits)
  from same_array_map [OF this] show ?thesis
    by (rule list_all2_mono) (rule view_label_binds)
qed

lemma view_labels_binds:
  "rel_option same_json (map_of (view_labels alg ls) ''labels'') (map_of (view_labels alg ms) ''labels'')
    \<Longrightarrow> same_labels alg ls ms"
  unfolding view_labels_def same_labels_def by (rule label_list_binds)

lemma reference_labels_binds:
  "rel_option same_json (map_of (reference_labels alg ls) ''labels'') (map_of (reference_labels alg ms) ''labels'')
    \<Longrightarrow> same_reference_labels alg ls ms"
  by (cases alg) (auto simp: reference_labels_def same_reference_labels_def intro: label_list_binds view_labels_binds)

lemma map_of_identity_json_fields: "map_of (map (\<lambda>(k, v). (k, JStr v)) m) k = map_option JStr (map_of m k)"
  by (induction m) auto

lemma map_of_filter_key: "map_of (filter (\<lambda>(k, v). P k) m) k = (if P k then map_of m k else None)"
  by (induction m) auto

lemma view_extra_binds:
  assumes "rel_option same_json (map_of (view_extra e) ''extraIdentity'') (map_of (view_extra f) ''extraIdentity'')"
  shows "bound_extra e = bound_extra f"
proof
  fix k
  have none: "bound_extra x k = None" if "map_of (view_extra x) ''extraIdentity'' = None" for x
    using that by (auto simp: view_extra_def bound_extra_def split: option.splits if_splits)
  have some: "\<exists>m. x = Some m \<and> j = identity_json (filter (\<lambda>(k, v). k \<noteq> []) m)"
    if "map_of (view_extra x) ''extraIdentity'' = Some j" for x j
    using that by (auto simp: view_extra_def split: option.splits if_splits)
  show "bound_extra e k = bound_extra f k"
  proof (cases "map_of (view_extra e) ''extraIdentity''")
    case None
    with assms have "map_of (view_extra f) ''extraIdentity'' = None" by (cases "map_of (view_extra f) ''extraIdentity''") auto
    with None none show ?thesis by simp
  next
    case (Some i)
    with assms obtain j where j: "map_of (view_extra f) ''extraIdentity'' = Some j" "same_json i j"
      by (auto elim: option.rel_cases)
    from some [OF Some] some [OF j(1)] obtain m n where mn: "e = Some m" "f = Some n"
        "i = identity_json (filter (\<lambda>(k, v). k \<noteq> []) m)" "j = identity_json (filter (\<lambda>(k, v). k \<noteq> []) n)" by blast
    show ?thesis
    proof (cases "k = []")
      case False
      have "rel_option same_json (map_option JStr (map_of m k)) (map_option JStr (map_of n k))"
        using same_field [OF j(2) [unfolded mn identity_json_def], of k] False
        by (simp add: map_of_identity_json_fields map_of_filter_key)
      then have "map_of m k = map_of n k"
        by (cases "map_of m k"; cases "map_of n k") (auto simp: same_string)
      with mn False show ?thesis by (simp add: bound_extra_def)
    qed (simp add: bound_extra_def)
  qed
qed

lemma digest_json_binds: "same_json (digest_json d) (digest_json e) \<Longrightarrow> d = e"
  using same_field [of _ _ "''hashAlgorithm''"] same_field [of _ _ "''normalisationAlgorithm''"] same_field [of _ _ "''value''"]
  by (fastforce simp: digest_json_def same_string)

lemma map_of_view_labels: "k \<noteq> ''labels'' \<Longrightarrow> map_of (view_labels alg ls) k = None"
  by (simp add: view_labels_def map_of_label_list)

lemmas field_lookups = map_add_def map_of_view_labels map_of_view_extra map_of_string_omitempty same_string

lemma view_element_lookups:
  "map_of (view_element alg e) ''name'' = Some (JStr (ve_name e))"
  "map_of (view_element alg e) ''version'' = Some (JStr (ve_version e))"
  "map_of (view_element alg e) ''labels'' = map_of (view_labels alg (ve_labels e)) ''labels''"
  "map_of (view_element alg e) ''extraIdentity'' = map_of (view_extra (ve_extra e)) ''extraIdentity''"
  "k \<notin> {''name'', ''version'', ''labels'', ''extraIdentity''} \<Longrightarrow> map_of (view_element alg e) k = None"
  by (auto simp: view_element_def field_lookups split: option.splits)

lemma map_of_last_field: "k \<noteq> k' \<Longrightarrow> map_of (fs @ [(k', v)]) k = map_of fs k"
  by (induction fs) auto

definition digest_field :: "v2_digest option \<Rightarrow> json_fields" where
  "digest_field d = (case d of None \<Rightarrow> [] | Some x \<Rightarrow> [(''digest'', digest_json x)])"

lemma map_of_digest_field: "map_of (digest_field d) k = (if k = ''digest'' then map_option digest_json d else None)"
  by (cases d) (auto simp: digest_field_def)

lemma digest_field_binds:
  "rel_option same_json (map_option digest_json d) (map_option digest_json e) \<Longrightarrow> d = e"
  by (cases d; cases e) (auto dest: digest_json_binds)

lemma view_resource_fields:
  "view_resource alg r = JObj (view_element alg r @ [(''type'', JStr (v2_type r)), (''relation'', JStr (v2_relation r))]
     @ digest_field (if none_access r then None else v2_digest_of r))"
  by (simp add: view_resource_def digest_field_def)

lemma view_resource_binds:
  assumes "same_json (view_resource alg r) (view_resource alg s)"
  shows "same_resource alg r s"
proof -
  note field = same_field [OF assms [unfolded view_resource_fields]]
  note lookups = view_element_lookups map_of_digest_field map_add_def same_string
  have "ve_name r = ve_name s" using field [of "''name''"] by (simp add: lookups)
  moreover have "ve_version r = ve_version s" using field [of "''version''"] by (simp add: lookups)
  moreover have "v2_type r = v2_type s" using field [of "''type''"] by (simp add: lookups)
  moreover have "v2_relation r = v2_relation s" using field [of "''relation''"] by (simp add: lookups)
  moreover have "same_labels alg (ve_labels r) (ve_labels s)"
    using field [of "''labels''"] by (intro view_labels_binds) (simp add: lookups case_option_id cong: option.case_cong)
  moreover have "bound_extra (ve_extra r) = bound_extra (ve_extra s)"
    using field [of "''extraIdentity''"] by (intro view_extra_binds) (simp add: lookups case_option_id cong: option.case_cong)
  moreover have "(if none_access r then None else v2_digest_of r) = (if none_access s then None else v2_digest_of s)"
    using field [of "''digest''"] by (intro digest_field_binds) (simp add: lookups case_option_id cong: option.case_cong split del: if_split)
  ultimately show ?thesis by (simp add: same_resource_def same_element_def)
qed

lemma view_source_binds:
  assumes "same_json (view_source alg r) (view_source alg s)"
  shows "same_source alg r s"
proof -
  note field = same_field [OF assms [unfolded view_source_def]]
  note lookups = view_element_lookups map_add_def same_string
  have "ve_name r = ve_name s" using field [of "''name''"] by (simp add: lookups)
  moreover have "ve_version r = ve_version s" using field [of "''version''"] by (simp add: lookups)
  moreover have "v2_src_type r = v2_src_type s" using field [of "''type''"] by (simp add: lookups)
  moreover have "same_labels alg (ve_labels r) (ve_labels s)"
    using field [of "''labels''"] by (intro view_labels_binds) (simp add: lookups case_option_id cong: option.case_cong)
  moreover have "bound_extra (ve_extra r) = bound_extra (ve_extra s)"
    using field [of "''extraIdentity''"] by (intro view_extra_binds) (simp add: lookups case_option_id cong: option.case_cong)
  ultimately show ?thesis by (simp add: same_source_def same_element_def)
qed

lemma map_of_reference_labels: "k \<noteq> ''labels'' \<Longrightarrow> map_of (reference_labels alg ls) k = None"
  by (cases alg) (simp_all add: reference_labels_def map_of_label_list map_of_view_labels)

lemma zero_digest_field:
  "(if d = zero_digest then [] else [(''digest'', digest_json d)]) = digest_field (if d = zero_digest then None else Some d)"
  by (simp add: digest_field_def)

lemma view_reference_binds:
  assumes "same_json (view_reference alg r) (view_reference alg s)"
  shows "same_reference alg r s"
proof -
  note field = same_field [OF assms [unfolded view_reference_def zero_digest_field]]
  note lookups = map_of_reference_labels map_of_view_extra map_of_digest_field map_add_def same_string
  have "ve_name r = ve_name s" using field [of "''name''"] by (simp add: lookups)
  moreover have "ve_version r = ve_version s" using field [of "''version''"] by (simp add: lookups)
  moreover have "v2_component r = v2_component s" using field [of "''componentName''"] by (simp add: lookups)
  moreover have "same_reference_labels alg (ve_labels r) (ve_labels s)"
    using field [of "''labels''"] by (intro reference_labels_binds) (simp add: lookups case_option_id cong: option.case_cong)
  moreover have "bound_extra (ve_extra r) = bound_extra (ve_extra s)"
    using field [of "''extraIdentity''"] by (intro view_extra_binds) (simp add: lookups case_option_id cong: option.case_cong)
  moreover have "(if v2_ref_digest r = zero_digest then None else Some (v2_ref_digest r))
      = (if v2_ref_digest s = zero_digest then None else Some (v2_ref_digest s))"
    using field [of "''digest''"] by (intro digest_field_binds) (simp add: lookups case_option_id cong: option.case_cong split del: if_split)
  then have "v2_ref_digest r = v2_ref_digest s" by (metis option.distinct(1) option.inject)
  ultimately show ?thesis by (simp add: same_reference_def same_element_def)
qed

lemma signed_view_binds:
  assumes "same_json (signed_view alg n ls c) (signed_view alg n' ls' c')"
  shows "same_component alg (n, ls, c) (n', ls', c')"
proof -
  have "same_json (JObj (component_view alg n ls c)) (JObj (component_view alg n' ls' c'))"
    using same_field [OF assms [unfolded signed_view_def], of "''component''"] by (simp add: component_view_def)
  note field = same_field [OF this [unfolded component_view_def]]
  note lookups = map_of_view_labels map_of_string_omitempty map_add_def same_string
  have "vc_name c = vc_name c'" using field [of "''name''"] by (simp add: lookups)
  moreover have "vc_version c = vc_version c'" using field [of "''version''"] by (simp add: lookups)
  moreover have "vc_created c = vc_created c'"
    using field [of "''creationTime''"] by (auto simp: lookups split: if_splits)
  moreover have "same_labels alg (vc_labels c) (vc_labels c')"
    using field [of "''labels''"] by (intro view_labels_binds) (simp add: lookups case_option_id cong: option.case_cong)
  moreover have provider: "same_json (JObj ((''name'', JStr n) # view_labels alg ls)) (JObj ((''name'', JStr n') # view_labels alg ls'))"
    using field [of "''provider''"] by (simp add: lookups)
  then have "n = n'" using same_field [OF provider, of "''name''"] by (simp add: lookups)
  moreover have "same_labels alg ls ls'"
    using same_field [OF provider, of "''labels''"] by (intro view_labels_binds) simp
  moreover have "list_all2 (same_resource alg) (slice_list (vc_resources c)) (slice_list (vc_resources c'))"
    using field [of "''resources''"]
    by (intro list_all2_mono [OF same_array_map view_resource_binds]) (simp_all add: lookups)
  moreover have "list_all2 (same_source alg) (slice_list (vc_sources c)) (slice_list (vc_sources c'))"
    using field [of "''sources''"]
    by (intro list_all2_mono [OF same_array_map view_source_binds]) (simp_all add: lookups)
  moreover have "list_all2 (same_reference alg) (slice_list (vc_references c)) (slice_list (vc_references c'))"
    using field [of "''componentReferences''"]
    by (intro list_all2_mono [OF same_array_map view_reference_binds]) (simp_all add: lookups)
  ultimately show ?thesis by (simp add: same_component_def)
qed

section \<open>Properties\<close>

text \<open>A descriptor that serialises, with its serialised form, its document, whose numbers are in the range of a
  float64, and the provider it names. Strings are taken to be valid UTF-8, which \<open>encoding/json\<close> keeps.\<close>

definition normalisable ::
    "('r, 'd) codec \<Rightarrow> ('r, 'd) descriptor \<Rightarrow> v2_descriptor \<Rightarrow> json \<Rightarrow> string \<Rightarrow> v2_label slice \<Rightarrow> bool" where
  "normalisable env d v j n ls \<longleftrightarrow>
     convert_to_v2 env (new_scheme True) d = Ok v \<and> descriptor_json env (default_component v) = Some j \<and> numbers_in_range j
   \<and> good_descriptor (vdesc_component v) \<and> provider_reads env (vc_provider (vdesc_component v)) n ls"

lemma v4_view:
  assumes "normalisable env d v j n ls"
  shows "v4_normalise env alg d = (case canonicalize env (signed_view alg n ls (vdesc_component v)) of
      None \<Rightarrow> Fail CanonicalizeFailed | Some c \<Rightarrow> Ok c)"
proof -
  note a = assms [unfolded normalisable_def]
  have "prepare_normalisation (exclusion_rules env alg) j = Ok (Wrapped (signed_view alg n ls (vdesc_component v)))"
    using a by (intro prepare_descriptor) auto
  with a show ?thesis
    by (simp add: v4_normalise_def common_normalise_def jcs_normalise_def split: option.splits)
qed

text \<open>C2: For each v4 algorithm, the rule-driven normalisation of a descriptor yields exactly the canonical
  form of its signed view, the document written down directly from the descriptor.\<close>

theorem v4_normalise_signed_view:
  assumes "normalisable env d v j n ls"
  shows "v4_normalise env alg d
    = (case canonicalize env (signed_view alg n ls (vdesc_component v)) of
         None \<Rightarrow> Fail CanonicalizeFailed | Some c \<Rightarrow> Ok c)"
  using assms by (rule v4_view)

text \<open>C30: A v4 digest does not change with anything outside the covered part of a descriptor: accesses
  (as long as "none" stays "none"), source references, repository contexts, unsigned labels,
  schema version and signatures may change in transport.\<close>

theorem v4_normalise_ignores_uncovered:
  assumes "normalisable env d v j n ls" and "normalisable env d' v' j' n ls"
    and "covered alg (vdesc_component v) = covered alg (vdesc_component v')"
  shows "v4_normalise env alg d = v4_normalise env alg d'"
proof -
  have view: "signed_view alg n ls (vdesc_component v) = signed_view alg n ls (vdesc_component v')"
    using signed_view_covered [of alg n ls "vdesc_component v"] signed_view_covered [of alg n ls "vdesc_component v'"]
      assms(3) by simp
  show ?thesis using v4_view [OF assms(1)] v4_view [OF assms(2)] view by simp
qed


section \<open>Witnesses\<close>

definition moved_resource :: "(nat, json) resource" where
  "moved_resource = image_resource\<lparr>res_access := Some (ObjPtr \<lparr>rtype = 1, otype = \<lparr>Version = ''v1'', Name = ''localBlob''\<rparr>,
       payload = JObj [(''type'', JStr ''localBlob/v1''), (''localReference'', JStr ''sha256:1'')]\<rparr>)\<rparr>"

abbreviation sample_env :: "(nat, json) codec" where
  "sample_env \<equiv> sample_codec provider_document"

definition v2_of :: "(nat, json) descriptor \<Rightarrow> v2_descriptor" where
  "v2_of d = (case convert_to_v2 sample_env (new_scheme True) d of Ok v \<Rightarrow> v | _ \<Rightarrow> sample_v2 image_v2)"

definition json_of :: "(nat, json) descriptor \<Rightarrow> json" where
  "json_of d = (case descriptor_json sample_env (default_component (v2_of d)) of Some j \<Rightarrow> j | None \<Rightarrow> JNull)"

definition provider_labels :: "v2_label slice" where
  "provider_labels = Some [to_v2_label signed_label]"

lemma sample_converts:
  "is_ok (convert_to_v2 sample_env (new_scheme True) (sample_descriptor [image_resource]))"
  "is_ok (convert_to_v2 sample_env (new_scheme True) (sample_descriptor [moved_resource]))"
  by code_simp+

lemma sample_serialises:
  "descriptor_json sample_env (default_component (v2_of (sample_descriptor [image_resource]))) \<noteq> None"
  "descriptor_json sample_env (default_component (v2_of (sample_descriptor [moved_resource]))) \<noteq> None"
  by code_simp+

lemma sample_numbers:
  "numbers_in_range (json_of (sample_descriptor [image_resource]))"
  "numbers_in_range (json_of (sample_descriptor [moved_resource]))"
  by code_simp+

lemma sample_good:
  "good_descriptor (vdesc_component (v2_of (sample_descriptor [image_resource])))"
  "good_descriptor (vdesc_component (v2_of (sample_descriptor [moved_resource])))"
  by (simp_all add: good_descriptor_def good_labels_def good_element_def object_access_code slice_list_def v2_of_def
      sample_descriptor_def image_resource_def moved_resource_def signed_label_def convert_to_v2_def to_v2_provider_def
      to_v2_labels_def to_v2_label_def provider_json_def labels_json_def label_json_def string_omitempty_def
      to_v2_resources_def traverse_slice_def to_v2_resource_def convert_to_raw_def infer_type_def type_is_empty_def
      object_to_raw_def new_scheme_def sample_codec_def to_v2_sources_def to_v2_contexts_def to_v2_references_def
      good_label_def)

lemma sample_provider:
  "provider_reads sample_env (vc_provider (vdesc_component (v2_of (sample_descriptor [image_resource])))) ''ocm'' provider_labels"
  "provider_reads sample_env (vc_provider (vdesc_component (v2_of (sample_descriptor [moved_resource])))) ''ocm'' provider_labels"
  by code_simp+

lemma sample_normalisable:
  assumes "r = image_resource \<or> r = moved_resource"
  shows "normalisable sample_env (sample_descriptor [r]) (v2_of (sample_descriptor [r])) (json_of (sample_descriptor [r]))
    ''ocm'' provider_labels"
proof -
  let ?d = "sample_descriptor [r]"
  have "is_ok (convert_to_v2 sample_env (new_scheme True) ?d)"
    using assms sample_converts by metis
  then have "convert_to_v2 sample_env (new_scheme True) ?d = Ok (v2_of ?d)"
    by (auto simp: v2_of_def is_ok_iff)
  moreover have "descriptor_json sample_env (default_component (v2_of ?d)) \<noteq> None"
    using assms sample_serialises by metis
  then have "descriptor_json sample_env (default_component (v2_of ?d)) = Some (json_of ?d)"
    by (auto simp: json_of_def)
  moreover have "numbers_in_range (json_of ?d)"
    using assms sample_numbers by metis
  moreover have "good_descriptor (vdesc_component (v2_of ?d))"
    using assms sample_good by metis
  moreover have "provider_reads sample_env (vc_provider (vdesc_component (v2_of ?d))) ''ocm'' provider_labels"
    using assms sample_provider by metis
  ultimately show ?thesis by (simp add: normalisable_def)
qed

theorem v4_normalise_signed_view_witness:
  "v4_normalise sample_env V4alpha3 (sample_descriptor [image_resource])
    = Ok (signed_view V4alpha3 ''ocm'' provider_labels (vdesc_component (v2_of (sample_descriptor [image_resource]))))"
  using v4_normalise_signed_view [OF sample_normalisable [of image_resource], of V4alpha3]
  by (simp add: sample_codec_def [of provider_document])

theorem v4_normalise_ignores_uncovered_witness:
  "v4_normalise sample_env V4alpha1 (sample_descriptor [image_resource])
    = v4_normalise sample_env V4alpha1 (sample_descriptor [moved_resource])"
proof (rule v4_normalise_ignores_uncovered)
  show "normalisable sample_env (sample_descriptor [image_resource]) (v2_of (sample_descriptor [image_resource]))
      (json_of (sample_descriptor [image_resource])) ''ocm'' provider_labels"
    by (rule sample_normalisable) simp
  show "normalisable sample_env (sample_descriptor [moved_resource]) (v2_of (sample_descriptor [moved_resource]))
      (json_of (sample_descriptor [moved_resource])) ''ocm'' provider_labels"
    by (rule sample_normalisable) simp
  show "covered V4alpha1 (vdesc_component (v2_of (sample_descriptor [image_resource])))
      = covered V4alpha1 (vdesc_component (v2_of (sample_descriptor [moved_resource])))"
    by code_simp
qed


end
