(* ===== verification/Number_Properties.thy ===== *)
theory Number_Properties
  imports Json_Numbers Complex_Main
begin

text \<open>
  The float64 that a JSON number is decoded into: its mantissa is the integer nearest to the scaled
  number, the even one of two, of at most 53 bits, and of 53 bits unless the number is subnormal.
\<close>

section \<open>Rounding to even\<close>

lemma round_even_cases:
  assumes "0 < d"
  obtains q r where "n = q * d + r" "0 \<le> r" "r < d"
    and "round_even n d = (if 2 * r < d \<or> 2 * r = d \<and> even q then q else q + 1)"
proof
  show "n = n div d * d + n mod d" and "0 \<le> n mod d" and "n mod d < d" using assms by simp_all
  show "round_even n d = (if 2 * (n mod d) < d \<or> 2 * (n mod d) = d \<and> even (n div d) then n div d else n div d + 1)"
    unfolding round_even_def Let_def even_iff_mod_2_eq_zero by (rule refl)
qed

lemma round_even_nearest:
  assumes "0 < d"
  shows "2 * \<bar>n - round_even n d * d\<bar> \<le> d" and "2 * \<bar>n - round_even n d * d\<bar> = d \<Longrightarrow> even (round_even n d)"
proof -
  obtain q r where q: "n = q * d + r" "0 \<le> r" "r < d"
    and e: "round_even n d = (if 2 * r < d \<or> 2 * r = d \<and> even q then q else q + 1)"
    using round_even_cases [OF assms] .
  have diff: "n - round_even n d * d = (if 2 * r < d \<or> 2 * r = d \<and> even q then r else r - d)"
    unfolding e by (simp add: q(1) algebra_simps)
  show "2 * \<bar>n - round_even n d * d\<bar> \<le> d" using q(2,3) by (simp add: diff)
  show "even (round_even n d)" if "2 * \<bar>n - round_even n d * d\<bar> = d"
    using that [unfolded diff] q(2,3) by (auto simp: e split: if_splits)
qed

section \<open>Magnitudes\<close>

lemma bit_count_bounds: "0 < n \<Longrightarrow> 0 < bit_count n \<and> 2 ^ nat (bit_count n - 1) \<le> n \<and> n < 2 ^ nat (bit_count n)"
proof (induction n rule: bit_count.induct)
  case (1 n)
  show ?case
  proof (cases "n = 1")
    case True
    then show ?thesis by (simp add: bit_count.simps)
  next
    case False
    with 1(2) have h: "0 < n div 2" by simp
    with 1 have b: "0 < bit_count (n div 2)" "2 ^ nat (bit_count (n div 2) - 1) \<le> n div 2" "n div 2 < 2 ^ nat (bit_count (n div 2))"
      by simp_all
    obtain k where k: "bit_count (n div 2) = 1 + int k" using b(1) zero_less_imp_eq_int [of "bit_count (n div 2)"] by (metis Suc_pred of_nat_Suc)
    have "bit_count n = 2 + int k" using 1(2) k by (simp add: bit_count.simps [of n])
    with b(2,3) k show ?thesis by (simp add: nat_add_distrib) linarith
  qed
qed

lemma scale_fraction:
  assumes "0 < d" and "scale n d q = (a, b)"
  shows "0 < b" and "real_of_int a / real_of_int b = real_of_int n / real_of_int d * 2 powi (- q)"
  using assms by (auto simp: scale_def power_int_def field_simps split: if_splits)

lemma fraction_magnitude:
  assumes "0 < n" and "0 < d"
  shows "2 powi (bit_count n - bit_count d - 1) < real_of_int n / real_of_int d"
    and "real_of_int n / real_of_int d < 2 powi (bit_count n - bit_count d + 1)"
proof -
  have up: "real_of_int k < 2 powi (bit_count k)" if "0 < k" for k
    using bit_count_bounds [OF that] of_int_less_iff [of k "2 ^ nat (bit_count k)", where ?'a = real]
    by (simp add: power_int_def)
  have low: "2 powi (bit_count k - 1) \<le> real_of_int k" if "0 < k" for k
    using bit_count_bounds [OF that] of_int_le_iff [of "2 ^ nat (bit_count k - 1)" k, where ?'a = real]
    by (simp add: power_int_def)
  have pos: "(0::real) < 2 powi k" for k :: int by simp
  have "2 powi (bit_count n - bit_count d - 1) * real_of_int d < 2 powi (bit_count n - bit_count d - 1) * 2 powi (bit_count d)"
    using up [OF assms(2)] pos by simp
  also have "\<dots> = 2 powi (bit_count n - 1)" by (simp flip: power_int_add)
  also have "\<dots> \<le> real_of_int n" by (rule low [OF assms(1)])
  finally show "2 powi (bit_count n - bit_count d - 1) < real_of_int n / real_of_int d"
    using assms(2) by (simp add: pos_less_divide_eq)
  have "real_of_int n < 2 powi (bit_count n)" by (rule up [OF assms(1)])
  also have "\<dots> = 2 powi (bit_count n - bit_count d + 1) * 2 powi (bit_count d - 1)" by (simp flip: power_int_add)
  also have "\<dots> \<le> 2 powi (bit_count n - bit_count d + 1) * real_of_int d"
    using low [OF assms(2)] pos by simp
  finally show "real_of_int n / real_of_int d < 2 powi (bit_count n - bit_count d + 1)"
    using assms(2) by (simp add: pos_divide_less_eq)
qed

lemma float_exponent_bounds:
  assumes "0 < n" and "0 < d"
  defines "x \<equiv> real_of_int n / real_of_int d" and "q \<equiv> float_exponent n d"
  shows "- 1074 \<le> q" and "x * 2 powi (- q) < 2 ^ 53" and "q \<noteq> - 1074 \<Longrightarrow> 2 ^ 52 \<le> x * 2 powi (- q)"
proof -
  define q0 where "q0 = bit_count n - bit_count d - 53"
  obtain a b where ab: "scale n d q0 = (a, b)" by (cases "scale n d q0")
  define q1 where "q1 = (if b * 2 ^ 53 \<le> a then q0 + 1 else q0)"
  have q: "q = max (- 1074) q1" by (simp add: q_def float_exponent_def Let_def q0_def [symmetric] ab q1_def)
  note s = scale_fraction [OF assms(2) ab]
  have "b * 2 ^ 53 \<le> a \<longleftrightarrow> real_of_int b * 2 ^ 53 \<le> real_of_int a"
    using of_int_le_iff [of "b * 2 ^ 53" a, where ?'a = real] by simp
  also have "\<dots> \<longleftrightarrow> 2 ^ 53 \<le> real_of_int a / real_of_int b"
    using s(1) by (simp add: pos_le_divide_eq mult.commute)
  finally have test: "b * 2 ^ 53 \<le> a \<longleftrightarrow> 2 ^ 53 \<le> x * 2 powi (- q0)" by (simp add: s(2) x_def)
  have x: "2 powi (q0 + 52) < x" "x < 2 powi (q0 + 54)"
    using fraction_magnitude [OF assms(1,2)] by (simp_all add: x_def q0_def algebra_simps)
  have scaled: "2 powi k \<le> x * 2 powi (- p) \<longleftrightarrow> 2 powi (k + p) \<le> x" "x * 2 powi (- p) < 2 powi k \<longleftrightarrow> x < 2 powi (k + p)" for k p :: int
    by (simp_all add: power_int_minus power_int_add field_simps)
  have "2 powi (52 + q1) \<le> x \<and> x < 2 powi (53 + q1)"
    using x test scaled [of 53 q0] by (auto simp: q1_def algebra_simps)
  then have q1: "2 powi (52 + q1) \<le> x" "x < 2 powi (53 + q1)" by simp_all
  show "- 1074 \<le> q" by (simp add: q)
  have "x < 2 powi (53 + q)"
    using q1(2) by (rule less_le_trans) (auto simp: q intro!: power_int_increasing)
  then show "x * 2 powi (- q) < 2 ^ 53" using scaled(2) [of q 53] by simp
  show "2 ^ 52 \<le> x * 2 powi (- q)" if "q \<noteq> - 1074"
  proof -
    have "q = q1" using that q by (auto simp: max_def split: if_splits)
    then show ?thesis using q1(1) scaled(1) [of 52 q] by simp
  qed
qed

lemma far_off:
  fixes a b p t :: int
  shows "t + b \<le> p \<Longrightarrow> a < t \<Longrightarrow> 0 < b \<Longrightarrow> 2 * \<bar>a - p\<bar> \<le> b \<Longrightarrow> False"
    and "p \<le> t - b \<Longrightarrow> t \<le> a \<Longrightarrow> 0 < b \<Longrightarrow> 2 * \<bar>a - p\<bar> \<le> b \<Longrightarrow> False"
  by arith+

lemma round_float64_nearest:
  assumes "round_float64 n d = Some (m, q)" and "0 < n" and "0 < d" and "scale n d q = (a, b)"
  shows "2 * \<bar>a - m * b\<bar> \<le> b" and "2 * \<bar>a - m * b\<bar> = b \<Longrightarrow> even m"
    and "- 1074 \<le> q" and "m \<le> 2 ^ 53" and "q \<noteq> - 1074 \<Longrightarrow> 2 ^ 52 \<le> m"
proof -
  have q: "q = float_exponent n d" and m: "m = round_even a b"
    using assms by (auto simp: round_float64_def Let_def split: if_splits prod.splits)
  note s = scale_fraction [OF assms(3,4)] and e = float_exponent_bounds [OF assms(2,3), folded q]
  show near: "2 * \<bar>a - m * b\<bar> \<le> b" and "2 * \<bar>a - m * b\<bar> = b \<Longrightarrow> even m"
    unfolding m using round_even_nearest [OF s(1)] by blast+
  show "- 1074 \<le> q" by (rule e(1))
  have up: "a < 2 ^ 53 * b"
  proof -
    have "real_of_int a < 2 ^ 53 * real_of_int b"
      using e(2) s(1) unfolding s(2) [symmetric] by (simp add: pos_divide_less_eq)
    then show ?thesis using of_int_less_iff [of a "2 ^ 53 * b", where ?'a = real] by simp
  qed
  show "m \<le> 2 ^ 53"
  proof (rule ccontr)
    assume "\<not> m \<le> 2 ^ 53"
    then have "(2 ^ 53 + 1) * b \<le> m * b" using s(1) by (intro mult_right_mono) auto
    then have "2 ^ 53 * b + b \<le> m * b" by (simp add: distrib_right)
    then show False using far_off(1) near up s(1) by blast
  qed
  show "2 ^ 52 \<le> m" if "q \<noteq> - 1074"
  proof (rule ccontr)
    have "2 ^ 52 * real_of_int b \<le> real_of_int a"
      using e(3) [OF that] s(1) unfolding s(2) [symmetric] by (simp add: pos_le_divide_eq)
    then have low: "2 ^ 52 * b \<le> a" using of_int_le_iff [of "2 ^ 52 * b" a, where ?'a = real] by simp
    assume "\<not> 2 ^ 52 \<le> m"
    then have "m * b \<le> (2 ^ 52 - 1) * b" using s(1) by (intro mult_right_mono) auto
    then have "m * b \<le> 2 ^ 52 * b - b" by (simp add: left_diff_distrib)
    then show False using far_off(2) near low s(1) by blast
  qed
qed

end
