(* ===== verification/Normalisation_V1.thy ===== *)
theory Normalisation_V1
  imports Normalisation
begin

text \<open>
  The legacy algorithm jsonNormalisation/v1: \<open>descriptor/normalisation/json/v1/normalisation.go\<close> and
  the entry form of \<open>descriptor/normalisation/engine/entry/normalise.go\<close>. The YAML round trip of
  the store and the parsing, rounding and formatting of times are parameters; the spelling of
  numbers and the escaping of non-ASCII text in the final bytes are not modelled. Assigning
  through a Go map is updating the field list in place.
\<close>

section \<open>Entry form\<close>

text \<open>\<open>Transform\<close>: objects become lists of single-field objects sorted by name; arrays are left alone.\<close>

fun transform :: "json \<Rightarrow> json" where
  "transform (JObj fs) = JArr (map (\<lambda>(k, v). JObj [(k, v)]) (sort_key fst (map (\<lambda>(k, v). (k, transform v)) fs)))"
| "transform v = v"

definition transform_element_list :: "json list \<Rightarrow> json list" where
  "transform_element_list xs = map transform xs"

section \<open>Fields\<close>

definition field_value :: "json_fields \<Rightarrow> string \<Rightarrow> json" where
  "field_value m k = (case map_of m k of None \<Rightarrow> JNull | Some v \<Rightarrow> v)"

definition default_empty_array :: "string \<Rightarrow> json_fields \<Rightarrow> json_fields" where
  "default_empty_array key m = (if field_value m key = JNull then mput key (JArr []) m else m)"

definition normalise_provider :: "('r, 'd) codec \<Rightarrow> json_fields \<Rightarrow> json_fields" where
  "normalise_provider env c =
     (case map_of c ''provider'' of
        Some (JStr s) \<Rightarrow>
          if has_prefix (trim_space s) ''{'' then
            (case Option.bind (parse_text env s) decode_numbers of
               Some (JObj fs) \<Rightarrow> mput ''provider'' (JObj fs) c
             | Some JNull \<Rightarrow> mput ''provider'' (JObj []) c
             | _ \<Rightarrow> c)
          else c
      | _ \<Rightarrow> c)"

text \<open>The time parameter parses a time, rounds it to the second and formats its wall clock with a Z.\<close>

definition normalise_creation_time :: "(string \<Rightarrow> string option) \<Rightarrow> json_fields \<Rightarrow> (convert_error, json_fields) outcome" where
  "normalise_creation_time clock c =
     (case map_of c ''creationTime'' of
        Some (JStr s) \<Rightarrow>
          if s = [] then Ok c
          else (case clock s of
                  None \<Rightarrow> Fail UnmarshalFailed
                | Some t \<Rightarrow> Ok (mput ''creationTime'' (JStr t) c))
      | _ \<Rightarrow> Ok c)"

definition null_extra_identity :: "json_fields \<Rightarrow> json_fields" where
  "null_extra_identity m =
     (case map_of m ''extraIdentity'' of
        None \<Rightarrow> mput ''extraIdentity'' JNull m
      | Some (JObj []) \<Rightarrow> mput ''extraIdentity'' JNull m
      | Some _ \<Rightarrow> m)"

fun kept_labels :: "json list \<Rightarrow> json list" where
  "kept_labels [] = []"
| "kept_labels (l # ls) =
     (case l of
        JObj lm \<Rightarrow>
          (let sig = field_value lm ''signing'' in
           if sig \<noteq> JBool True \<and> sig \<noteq> JStr ''true'' then kept_labels ls
           else
             JObj ([(''name'', field_value lm ''name''), (''value'', field_value lm ''value''), (''signing'', sig)]
               @ (case map_of lm ''version'' of
                    Some (JStr ver) \<Rightarrow> if ver \<noteq> [] then [(''version'', JStr ver)] else []
                  | _ \<Rightarrow> []))
             # kept_labels ls)
      | _ \<Rightarrow> kept_labels ls)"

definition normalise_element_labels :: "json_fields \<Rightarrow> json_fields" where
  "normalise_element_labels m =
     (case map_of m ''labels'' of
        Some (JArr labels) \<Rightarrow>
          (let kept = kept_labels labels in
           if kept = [] then mdel ''labels'' m
           else mput ''labels'' (JArr (transform_element_list kept)) m)
      | _ \<Rightarrow> m)"

section \<open>Artefact types\<close>

definition ccutils_artefact_types :: "(string \<times> string) list" where
  "ccutils_artefact_types =
     [(''blob'', ''blob/v1''), (''cosignSignature'', ''cosignSignature''), (''directoryTree'', ''directoryTree''),
      (''executable'', ''executable''), (''filesystem'', ''directoryTree''), (''git'', ''git''),
      (''helmChart'', ''helmChart/v1''), (''npmPackage'', ''npmPackage''), (''ociArtifact'', ''ociArtifact/v1''),
      (''ociImage'', ''ociImage''), (''sbom'', ''sbom'')]"

definition canonicalise_artefact_type :: "string \<Rightarrow> string" where
  "canonicalise_artefact_type t =
     (if has_suffix t ''/v1'' then
        (case map_of ccutils_artefact_types (trim_suffix t ''/v1'') of Some canon \<Rightarrow> canon | None \<Rightarrow> t)
      else (case map_of ccutils_artefact_types t of Some canon \<Rightarrow> canon | None \<Rightarrow> t))"

section \<open>Elements\<close>

definition transform_resource :: "json_fields \<Rightarrow> json_fields" where
  "transform_resource res =
     (let r1 = mdel ''srcRefs'' (mdel ''access'' res);
          r2 = (case map_of r1 ''type'' of Some (JStr t) \<Rightarrow> mput ''type'' (JStr (canonicalise_artefact_type t)) r1 | _ \<Rightarrow> r1)
      in normalise_element_labels (null_extra_identity r2))"

definition transform_reference :: "json_fields \<Rightarrow> json_fields" where
  "transform_reference ref = normalise_element_labels (null_extra_identity ref)"

definition on_object :: "(json_fields \<Rightarrow> json_fields) \<Rightarrow> json \<Rightarrow> json" where
  "on_object f v = (case v of JObj m \<Rightarrow> JObj (f m) | _ \<Rightarrow> v)"

text \<open>A resource's identity is its name and its extra identity; the source compares their JSON texts.\<close>

definition extra_identity :: "json_fields \<Rightarrow> json_fields option" where
  "extra_identity res = (case map_of res ''extraIdentity'' of Some (JObj m) \<Rightarrow> Some m | _ \<Rightarrow> None)"

definition resource_identity :: "json \<Rightarrow> (json \<times> json_fields) option" where
  "resource_identity r =
     (case r of
        JObj res \<Rightarrow> Some (field_value res ''name'',
          sort_key fst (case extra_identity res of None \<Rightarrow> [] | Some m \<Rightarrow> m))
      | _ \<Rightarrow> None)"

definition inject_version :: "json_fields \<Rightarrow> json_fields" where
  "inject_version res =
     mput ''extraIdentity''
       (JObj (mput ''version'' (field_value res ''version'') (case extra_identity res of None \<Rightarrow> [] | Some m \<Rightarrow> m))) res"

text \<open>The identities are computed before any version is injected.\<close>

fun inject_duplicate_identity_version :: "json list \<Rightarrow> json list" where
  "inject_duplicate_identity_version [] = []"
| "inject_duplicate_identity_version (r # rs) =
     (case r of
        JObj res \<Rightarrow>
          (if map_of (case extra_identity res of None \<Rightarrow> [] | Some m \<Rightarrow> m) ''version'' \<noteq> None then r
           else if resource_identity r \<in> set (map resource_identity rs) then JObj (inject_version res)
           else r)
      | _ \<Rightarrow> r)
     # inject_duplicate_identity_version rs"

section \<open>Component and descriptor\<close>

definition array_of :: "json_fields \<Rightarrow> string \<Rightarrow> json list" where
  "array_of c k = (case map_of c k of Some (JArr xs) \<Rightarrow> xs | _ \<Rightarrow> [])"

definition transform_component ::
    "('r, 'd) codec \<Rightarrow> (string \<Rightarrow> string option) \<Rightarrow> json_fields \<Rightarrow> (convert_error, json_fields) outcome" where
  "transform_component env clock c =
     bind_outcome
       (normalise_creation_time clock
         (normalise_provider env
           (default_empty_array ''componentReferences''
             (default_empty_array ''resources'' (mdel ''sources'' (mdel ''repositoryContexts'' c))))))
       (\<lambda>c1.
         let c2 = normalise_element_labels c1;
             resources = map (on_object transform_resource) (inject_duplicate_identity_version (array_of c2 ''resources''));
             c3 = mput ''resources'' (JArr (transform_element_list resources)) c2;
             refs = map (on_object transform_reference) (array_of c3 ''componentReferences'')
         in Ok (mput ''componentReferences'' (JArr (transform_element_list refs)) c3))"

definition transform_descriptor ::
    "('r, 'd) codec \<Rightarrow> (string \<Rightarrow> string option) \<Rightarrow> json_fields \<Rightarrow> (convert_error, json_fields) outcome" where
  "transform_descriptor env clock m =
     (let out = (case map_of m ''meta'' of Some meta \<Rightarrow> [(''meta'', meta)] | None \<Rightarrow> []) in
      (case map_of m ''component'' of
         Some (JObj c) \<Rightarrow>
           bind_outcome (transform_component env clock c) (\<lambda>c1. Ok (mput ''component'' (JObj c1) out))
       | _ \<Rightarrow> Fail UnmarshalFailed))"

text \<open>\<open>reload\<close> is the descriptor's YAML round trip; the result is the document that is marshalled.\<close>

definition v1_normalise ::
    "('r, 'd) codec \<Rightarrow> (string \<Rightarrow> string option) \<Rightarrow> (json \<Rightarrow> json option) \<Rightarrow> ('r, 'd) descriptor \<Rightarrow> (convert_error, json) outcome" where
  "v1_normalise env clock reload cd =
     bind_outcome (convert_to_v2 env (new_scheme True) cd)
       (\<lambda>desc. case Option.bind (descriptor_json env desc) reload of
                 Some (JObj m) \<Rightarrow>
                   bind_outcome (transform_descriptor env clock m) (\<lambda>out. Ok (transform (JObj out)))
               | Some JNull \<Rightarrow> Fail UnmarshalFailed
               | _ \<Rightarrow> Fail MarshalFailed)"

end
