(* ===== verification/Normalisation_V1_Properties.thy ===== *)
theory Normalisation_V1_Properties
  imports Normalisation_V1
begin

text \<open>
  The version that the legacy algorithm injects into shared resource identities: afterwards no two
  resources have the same identity, provided they differed in version.
\<close>

definition identity_fields :: "json_fields \<Rightarrow> json_fields" where
  "identity_fields res = (case extra_identity res of None \<Rightarrow> [] | Some m \<Rightarrow> m)"

text \<open>A resource object whose extra identity does not fix a version already.\<close>

definition unversioned :: "json \<Rightarrow> bool" where
  "unversioned r = (case r of JObj res \<Rightarrow> map_of (identity_fields res) ''version'' = None | _ \<Rightarrow> False)"

definition resource_version :: "json \<Rightarrow> json" where
  "resource_version r = (case r of JObj res \<Rightarrow> field_value res ''version'' | _ \<Rightarrow> JNull)"

lemma unversionedE:
  assumes "unversioned r"
  obtains res where "r = JObj res" "map_of (identity_fields res) ''version'' = None"
  using assms by (auto simp: unversioned_def split: json.splits)

lemma resource_identity_eq:
  "resource_identity (JObj res) = Some (field_value res ''name'', sort_key fst (identity_fields res))"
  by (simp add: resource_identity_def identity_fields_def)

lemma inject_version_eq:
  "inject_version res = mput ''extraIdentity''
     (JObj (mput ''version'' (field_value res ''version'') (identity_fields res))) res"
  by (simp add: inject_version_def identity_fields_def)

lemma identity_fields_injected [simp]:
  "identity_fields (inject_version res) = mput ''version'' (field_value res ''version'') (identity_fields res)"
  by (simp add: inject_version_eq identity_fields_def extra_identity_def)

lemma name_injected [simp]:
  "field_value (inject_version res) ''name'' = field_value res ''name''"
  by (simp add: inject_version_eq field_value_def)

text \<open>An identity taken apart: what it was before the injection, and the injected field.\<close>

definition identity_parts :: "(json \<times> json_fields) option \<Rightarrow> (json \<times> json_fields) option \<times> json_fields" where
  "identity_parts i =
     (case i of
        None \<Rightarrow> (None, [])
      | Some (n, e) \<Rightarrow>
          (Some (n, filter (\<lambda>kv. fst kv \<noteq> ''version'') e), filter (\<lambda>kv. fst kv = ''version'') e))"

lemma filter_absent:
  assumes "map_of m k = None"
  shows "filter (\<lambda>kv. fst kv \<noteq> k) m = m" and "filter (\<lambda>kv. fst kv = k) m = []"
  using assms by (induction m) (auto split: if_splits)

lemma parts_plain:
  assumes "map_of (identity_fields res) ''version'' = None"
  shows "identity_parts (resource_identity (JObj res)) = (resource_identity (JObj res), [])"
  using filter_absent [OF assms] by (simp add: identity_parts_def resource_identity_eq filter_sort)

lemma parts_injected:
  assumes "map_of (identity_fields res) ''version'' = None"
  shows "identity_parts (resource_identity (JObj (inject_version res))) =
           (resource_identity (JObj res), [(''version'', resource_version (JObj res))])"
proof -
  have "''version'' \<notin> set (mkeys (identity_fields res))"
    using assms by (simp add: map_of_eq_None_iff)
  then have "mput ''version'' v (identity_fields res) = identity_fields res @ [(''version'', v)]" for v
    by (rule mput_fresh)
  then show ?thesis
    using filter_absent [OF assms]
    by (simp add: identity_parts_def resource_identity_eq filter_sort resource_version_def)
qed

text \<open>Where a resource of the result comes from.\<close>

lemma injected_origin:
  assumes "r' \<in> set (inject_duplicate_identity_version rs)" and "\<forall>r \<in> set rs. unversioned r"
  obtains s where "s \<in> set rs"
    and "identity_parts (resource_identity r') = (resource_identity s, [])
       \<or> identity_parts (resource_identity r') = (resource_identity s, [(''version'', resource_version s)])"
  using assms
proof (induction rs arbitrary: thesis)
  case (Cons r rs)
  obtain res where r: "r = JObj res" "map_of (identity_fields res) ''version'' = None"
    using Cons.prems(3) by (auto elim: unversionedE)
  show ?case
  proof (cases "r' \<in> set (inject_duplicate_identity_version rs)")
    case True
    then show ?thesis
      using Cons.prems by (auto intro: Cons.IH [OF _ True])
  next
    case False
    then have "r' = r \<or> r' = JObj (inject_version res)"
      using Cons.prems(2) r by (auto split: if_splits)
    then have "identity_parts (resource_identity r') = (resource_identity r, [])
       \<or> identity_parts (resource_identity r') = (resource_identity r, [(''version'', resource_version r)])"
      using r parts_plain [OF r(2)] parts_injected [OF r(2)] by auto
    then show ?thesis
      using Cons.prems(1) [of r] by simp
  qed
qed simp

text \<open>Legacy normalisation, shared identities: for resources that fix no version in their extra identity
  and whose identities together with their versions are pairwise distinct, the resources that
  injectDuplicateIdentityVersion leaves have pairwise distinct identities.\<close>

theorem injected_identities_distinct:
  assumes "\<forall>r \<in> set rs. unversioned r"
    and "distinct (map (\<lambda>r. (resource_identity r, resource_version r)) rs)"
  shows "distinct (map resource_identity (inject_duplicate_identity_version rs))"
  using assms
proof (induction rs)
  case (Cons r rs)
  obtain res where r: "r = JObj res" "map_of (identity_fields res) ''version'' = None"
    using Cons.prems(1) by (auto elim: unversionedE)
  note plain = parts_plain [OF r(2)] and injected = parts_injected [OF r(2)]
  define r' where "r' = (if resource_identity r \<in> set (map resource_identity rs) then JObj (inject_version res) else r)"
  have out: "inject_duplicate_identity_version (r # rs) = r' # inject_duplicate_identity_version rs"
    using r by (simp add: r'_def identity_fields_def)
  have "resource_identity r' \<noteq> resource_identity s'" if s': "s' \<in> set (inject_duplicate_identity_version rs)" for s'
  proof
    assume eq: "resource_identity r' = resource_identity s'"
    have "\<forall>s \<in> set rs. unversioned s"
      using Cons.prems(1) by simp
    with s' obtain s where s: "s \<in> set rs"
      "identity_parts (resource_identity s') = (resource_identity s, [])
       \<or> identity_parts (resource_identity s') = (resource_identity s, [(''version'', resource_version s)])"
      by (rule injected_origin)
    show False
    proof (cases "resource_identity r \<in> set (map resource_identity rs)")
      case True
      with s eq injected r have "resource_identity s = resource_identity r" "resource_version s = resource_version r"
        by (auto simp: r'_def)
      with s(1) Cons.prems(2) show False
        by (force simp: image_iff)
    next
      case False
      with s eq plain r have "resource_identity s = resource_identity r"
        by (auto simp: r'_def)
      with s(1) False show False
        by (metis image_eqI image_set)
    qed
  qed
  then have "resource_identity r' \<notin> set (map resource_identity (inject_duplicate_identity_version rs))"
    by auto
  moreover have "distinct (map resource_identity (inject_duplicate_identity_version rs))"
    using Cons.IH Cons.prems by simp
  ultimately show ?case
    unfolding out by simp
qed simp

theorem injected_identities_distinct_witness:
  "distinct (map resource_identity (inject_duplicate_identity_version
     [JObj [(''name'', JStr ''a''), (''version'', JStr ''1'')],
      JObj [(''name'', JStr ''a''), (''version'', JStr ''2'')],
      JObj [(''name'', JStr ''b''), (''version'', JStr ''2'')]]))"
  by (rule injected_identities_distinct)
    (simp_all add: unversioned_def identity_fields_def extra_identity_def resource_identity_def
      resource_version_def field_value_def)

text \<open>The hypothesis on versions is needed: members of a group that also agree in version stay equal.\<close>

lemma same_version_stays_shared:
  "\<not> distinct (map resource_identity (inject_duplicate_identity_version
     [JObj [(''name'', JStr ''a''), (''version'', JStr ''1'')],
      JObj [(''name'', JStr ''a''), (''version'', JStr ''1'')],
      JObj [(''name'', JStr ''a''), (''version'', JStr ''2'')]]))"
  by code_simp

end
