(* ===== verification/Looseref.thy ===== *)
theory Looseref
  imports Go_Strings
begin

text \<open>
  Loose OCI references, \<open>bindings/go/oci/looseref/parse.go\<close>: scheme, registry, repository, tag
  and digest, all optional. The registry, repository, tag and digest grammars of the ORAS
  library and the digest algorithms linked into the program are not part of the repository;
  they are the functions of a record \<open>reference_checks\<close>.
\<close>

section \<open>References\<close>

text \<open>
  \<open>rc_reference_ok\<close>, \<open>rc_tag_ok\<close> and \<open>rc_digest_ok\<close> are ORAS's \<open>Reference.ValidateReference\<close>,
  \<open>ValidateReferenceAsTag\<close> and \<open>ValidateReferenceAsDigest\<close> on the reference part;
  \<open>rc_algorithm\<close> is \<open>digest.Algorithm.Available\<close>.
\<close>

record reference_checks =
  rc_algorithm :: "string \<Rightarrow> bool"
  rc_registry_ok :: "string \<Rightarrow> bool"
  rc_repository_ok :: "string \<Rightarrow> bool"
  rc_reference_ok :: "string \<Rightarrow> bool"
  rc_tag_ok :: "string \<Rightarrow> bool"
  rc_digest_ok :: "string \<Rightarrow> bool"

record loose_reference =
  lr_scheme :: string
  lr_registry :: string
  lr_repository :: string
  lr_reference :: string
  lr_tag :: string

datatype reference_error =
    Invalid_Scheme string
  | Invalid_Reference
  | Invalid_Registry string
  | Invalid_Repository string
  | Invalid_Tag string

text \<open>The regular expression \<open>^[\w][\w.-]{0,127}$\<close> of tags.\<close>

definition word_char :: "char \<Rightarrow> bool" where
  "word_char c \<longleftrightarrow> (CHR ''a'' \<le> c \<and> c \<le> CHR ''z'') \<or> (CHR ''A'' \<le> c \<and> c \<le> CHR ''Z'')
     \<or> (CHR ''0'' \<le> c \<and> c \<le> CHR ''9'') \<or> c = CHR ''_''"

definition tag_matches :: "string \<Rightarrow> bool" where
  "tag_matches s \<longleftrightarrow> s \<noteq> [] \<and> length s \<le> 128 \<and> word_char (hd s)
     \<and> list_all (\<lambda>c. word_char c \<or> c = CHR ''.'' \<or> c = CHR ''-'') (tl s)"

section \<open>Parsing and printing\<close>

definition get_scheme :: "string \<Rightarrow> string \<times> string" where
  "get_scheme raw = (case cut_str ''://'' raw of
       Some (a, b) \<Rightarrow> if a \<noteq> [] \<and> b \<noteq> [] then (a, b) else ([], raw)
     | None \<Rightarrow> ([], raw))"

definition allowed_schemes :: "string list" where
  "allowed_schemes = [''oci'', ''http'', ''https'']"

definition digest_prefixed :: "reference_checks \<Rightarrow> string \<Rightarrow> bool" where
  "digest_prefixed c path = (case cut_at CHR '':'' path of
       Some (a, _) \<Rightarrow> a \<noteq> [] \<and> rc_algorithm c a
     | None \<Rightarrow> False)"

definition validate_reference :: "reference_checks \<Rightarrow> loose_reference \<Rightarrow> (reference_error, unit) outcome" where
  "validate_reference c r =
     (if lr_registry r \<noteq> [] \<and> \<not> rc_registry_ok c (lr_registry r) then Fail (Invalid_Registry (lr_registry r))
      else if lr_repository r \<noteq> [] \<and> \<not> rc_repository_ok c (lr_repository r)
        then Fail (Invalid_Repository (lr_repository r))
      else if lr_reference r \<noteq> [] \<and> \<not> rc_reference_ok c (lr_reference r) then Fail Invalid_Reference
      else if lr_tag r \<noteq> [] \<and> \<not> tag_matches (lr_tag r) then Fail (Invalid_Tag (lr_tag r))
      else Ok ())"

text \<open>The first slash ends the registry; a path without a slash has none.\<close>

definition split_registry :: "string \<Rightarrow> bool \<times> string \<times> string" where
  "split_registry s = (case cut_at CHR ''/'' s of
       Some (registry, path) \<Rightarrow> (False, registry, path)
     | None \<Rightarrow> (True, [], s))"

text \<open>Repository, reference and tag of a path; \<open>lone\<close> if there is no registry part.\<close>

definition split_path ::
  "reference_checks \<Rightarrow> bool \<Rightarrow> string \<Rightarrow> (reference_error, string \<times> string \<times> string) outcome" where
  "split_path c lone path = (case cut_at CHR ''@'' path of
       Some (before, after) \<Rightarrow> (case cut_at CHR '':'' before of
           Some (repo, tag) \<Rightarrow> if CHR '':'' \<in> set tag then Fail Invalid_Reference else Ok (repo, after, tag)
         | None \<Rightarrow> Ok (before, after, []))
     | None \<Rightarrow> (case cut_at CHR '':'' path of
           Some (repo, tag) \<Rightarrow>
             if CHR '':'' \<in> set tag then Fail Invalid_Reference
             else if lone \<and> digest_prefixed c path then Ok ([], path, [])
             else Ok (repo, tag, tag)
         | None \<Rightarrow> Ok (path, [], [])))"

definition parse_reference :: "reference_checks \<Rightarrow> string \<Rightarrow> (reference_error, loose_reference) outcome" where
  "parse_reference c artifact = (case get_scheme artifact of (scheme, rest) \<Rightarrow>
     if scheme \<noteq> [] \<and> scheme \<notin> set allowed_schemes then Fail (Invalid_Scheme scheme)
     else (case split_registry rest of (lone, registry, path) \<Rightarrow>
       bind_outcome (split_path c lone path) (\<lambda>(repo, reference, tag).
         let r = \<lparr>lr_scheme = scheme, lr_registry = registry, lr_repository = repo,
                  lr_reference = reference, lr_tag = tag\<rparr>
         in bind_outcome (validate_reference c r) (\<lambda>_. Ok r))))"

text \<open>\<open>LooseReference.String\<close>.\<close>

definition print_scheme :: "loose_reference \<Rightarrow> string" where
  "print_scheme r = (if lr_scheme r \<noteq> [] \<and> (lr_registry r \<noteq> [] \<or> lr_repository r \<noteq> [])
     then lr_scheme r @ ''://'' else [])"

definition print_base :: "loose_reference \<Rightarrow> string" where
  "print_base r =
     (if lr_registry r \<noteq> [] \<and> lr_repository r \<noteq> [] then lr_registry r @ ''/'' @ lr_repository r
      else if lr_registry r \<noteq> [] then lr_registry r
      else lr_repository r)"

definition print_suffix :: "reference_checks \<Rightarrow> bool \<Rightarrow> loose_reference \<Rightarrow> string" where
  "print_suffix c base r =
     (if lr_tag r \<noteq> [] then (if base then '':'' else []) @ lr_tag r else [])
     @ (if digest_prefixed c (lr_reference r) then ''@'' @ lr_reference r else [])"

definition print_reference :: "reference_checks \<Rightarrow> loose_reference \<Rightarrow> string" where
  "print_reference c r =
     print_scheme r @ print_base r @ print_suffix c (lr_registry r \<noteq> [] \<or> lr_repository r \<noteq> []) r"

definition reference_or_tag :: "reference_checks \<Rightarrow> loose_reference \<Rightarrow> string" where
  "reference_or_tag c r =
     (if rc_digest_ok c (lr_reference r) then lr_reference r
      else if rc_tag_ok c (lr_reference r) then lr_tag r
      else [])"

definition registry_with_scheme :: "loose_reference \<Rightarrow> string" where
  "registry_with_scheme r =
     (if lr_scheme r \<noteq> [] \<and> lr_registry r \<noteq> [] then lr_scheme r @ ''://'' @ lr_registry r
      else lr_registry r)"

section \<open>What a parsed reference looks like\<close>

lemma split_registry_eq:
  "split_registry s = (lone, registry, path) \<Longrightarrow>
     CHR ''/'' \<notin> set registry \<and> (if lone then registry = [] \<and> path = s \<and> CHR ''/'' \<notin> set path
       else s = registry @ CHR ''/'' # path)"
  by (auto simp: split_registry_def cut_at_Some_iff cut_at_None_iff split: option.splits)

lemma split_path_parts:
  "split_path c lone path = Ok (repo, reference, tag) \<Longrightarrow>
     set repo \<subseteq> set path \<and> {CHR '':'', CHR ''@''} \<inter> (set repo \<union> set tag) = {}"
  by (auto simp: split_path_def cut_at_Some_iff cut_at_None_iff split: option.splits if_splits)

lemma validate_reference_Ok_iff:
  "validate_reference c r = Ok u \<longleftrightarrow>
     (lr_registry r \<noteq> [] \<longrightarrow> rc_registry_ok c (lr_registry r))
     \<and> (lr_repository r \<noteq> [] \<longrightarrow> rc_repository_ok c (lr_repository r))
     \<and> (lr_reference r \<noteq> [] \<longrightarrow> rc_reference_ok c (lr_reference r))
     \<and> (lr_tag r \<noteq> [] \<longrightarrow> tag_matches (lr_tag r))"
  by (auto simp: validate_reference_def split: if_splits)

text \<open>What a successful parse guarantees about the parts.\<close>

definition parsed :: "reference_checks \<Rightarrow> loose_reference \<Rightarrow> bool" where
  "parsed c r \<longleftrightarrow> (lr_scheme r \<noteq> [] \<longrightarrow> lr_scheme r \<in> set allowed_schemes)
     \<and> CHR ''/'' \<notin> set (lr_registry r)
     \<and> {CHR '':'', CHR ''@''} \<inter> (set (lr_repository r) \<union> set (lr_tag r)) = {}
     \<and> validate_reference c r = Ok ()"

lemma parse_reference_Ok:
  "parse_reference c s = Ok r \<Longrightarrow> \<exists>lone rest path.
     get_scheme s = (lr_scheme r, rest) \<and> (lr_scheme r \<noteq> [] \<longrightarrow> lr_scheme r \<in> set allowed_schemes)
     \<and> split_registry rest = (lone, lr_registry r, path)
     \<and> split_path c lone path = Ok (lr_repository r, lr_reference r, lr_tag r)
     \<and> validate_reference c r = Ok ()"
  by (auto simp: parse_reference_def bind_outcome_Ok_iff Let_def split: prod.splits if_splits)

lemma parse_referenceI:
  assumes "get_scheme s = (lr_scheme r, rest)" and "lr_scheme r \<noteq> [] \<longrightarrow> lr_scheme r \<in> set allowed_schemes"
    and "split_registry rest = (lone, lr_registry r, path)"
    and "split_path c lone path = Ok (lr_repository r, lr_reference r, lr_tag r)"
    and "validate_reference c r = Ok ()"
  shows "parse_reference c s = Ok r"
  using assms by (cases r) (auto simp: parse_reference_def Let_def)

lemma parse_parsed: "parse_reference c s = Ok r \<Longrightarrow> parsed c r"
  using parse_reference_Ok [of c s r] split_registry_eq split_path_parts
  unfolding parsed_def by blast

text \<open>
  The references that printing does not blur: a scheme has a base path to be printed before, a
  registry has a repository, a repository without a registry has no slash and is not taken for a
  digest algorithm, and the reference part is the tag or a digest.
\<close>

definition printable_reference :: "reference_checks \<Rightarrow> loose_reference \<Rightarrow> bool" where
  "printable_reference c r \<longleftrightarrow>
     (lr_scheme r \<noteq> [] \<longrightarrow> lr_repository r \<noteq> [])
     \<and> (lr_registry r \<noteq> [] \<longrightarrow> lr_repository r \<noteq> [])
     \<and> (lr_repository r = [] \<longrightarrow> lr_tag r = [])
     \<and> (lr_registry r = [] \<longrightarrow> CHR ''/'' \<notin> set (lr_repository r)
          \<and> \<not> (lr_reference r = lr_tag r \<and> lr_tag r \<noteq> [] \<and> rc_algorithm c (lr_repository r)))
     \<and> (lr_reference r = lr_tag r \<or> digest_prefixed c (lr_reference r))"

text \<open>
  Documented grammars: no repository name starts with a slash, and neither a tag nor a digest
  has one.
\<close>

definition documented_checks :: "reference_checks \<Rightarrow> bool" where
  "documented_checks c \<longleftrightarrow> (\<forall>s. rc_repository_ok c s \<longrightarrow> s = [] \<or> hd s \<noteq> CHR ''/'')
     \<and> (\<forall>s. rc_reference_ok c s \<longrightarrow> CHR ''/'' \<notin> set s)"

section \<open>Printing and parsing again\<close>

lemma tag_chars: "tag_matches t \<Longrightarrow> x \<in> set t \<Longrightarrow> word_char x \<or> x = CHR ''.'' \<or> x = CHR ''-''"
  by (cases t) (auto simp: tag_matches_def list_all_iff)

lemma tag_no_slash: "tag_matches t \<Longrightarrow> CHR ''/'' \<notin> set t"
  by (auto dest!: tag_chars simp: word_char_def)

lemma tag_no_colon: "tag_matches t \<Longrightarrow> CHR '':'' \<notin> set t"
  by (auto dest!: tag_chars simp: word_char_def)

lemma digest_prefixed_colon: "digest_prefixed c s \<Longrightarrow> CHR '':'' \<in> set s"
  by (auto simp: digest_prefixed_def cut_at_Some_iff split: option.splits)

text \<open>The path of a printed reference.\<close>

definition printed_path :: "reference_checks \<Rightarrow> loose_reference \<Rightarrow> string" where
  "printed_path c r = lr_repository r @ (if lr_tag r \<noteq> [] then CHR '':'' # lr_tag r else [])
     @ (if digest_prefixed c (lr_reference r) then CHR ''@'' # lr_reference r else [])"

lemma print_reference_eq:
  "printable_reference c r \<Longrightarrow> print_reference c r = print_scheme r
     @ (if lr_registry r \<noteq> [] then lr_registry r @ CHR ''/'' # printed_path c r else printed_path c r)"
  by (auto simp: print_reference_def print_base_def print_suffix_def printed_path_def
      printable_reference_def)

lemma cut_at_append: "k \<notin> set a \<Longrightarrow> cut_at k (a @ k # b) = Some (a, b)"
  by (simp add: cut_at_Some_iff)

lemma cut_at_absent: "k \<notin> set a \<Longrightarrow> cut_at k a = None"
  by (simp add: cut_at_None_iff)

lemma split_printed_path:
  assumes p: "parsed c r" and q: "printable_reference c r"
  shows "split_path c (lr_registry r = []) (printed_path c r)
    = Ok (lr_repository r, lr_reference r, lr_tag r)"
proof (cases "digest_prefixed c (lr_reference r)")
  case True
  let ?b = "lr_repository r @ (if lr_tag r \<noteq> [] then CHR '':'' # lr_tag r else [])"
  have "CHR ''@'' \<notin> set ?b" using p by (auto simp: parsed_def)
  then have "cut_at CHR ''@'' (printed_path c r) = Some (?b, lr_reference r)"
    using True cut_at_append [of "CHR ''@''" ?b] by (simp add: printed_path_def)
  moreover have "cut_at CHR '':'' ?b = (if lr_tag r \<noteq> [] then Some (lr_repository r, lr_tag r) else None)"
    using p by (auto simp: parsed_def cut_at_Some_iff cut_at_None_iff)
  ultimately show ?thesis using p by (auto simp: split_path_def parsed_def)
next
  case False
  then have t: "lr_reference r = lr_tag r" using q by (auto simp: printable_reference_def)
  have path: "printed_path c r = lr_repository r @ (if lr_tag r \<noteq> [] then CHR '':'' # lr_tag r else [])"
    using False by (simp add: printed_path_def)
  have at: "cut_at CHR ''@'' (printed_path c r) = None"
    using p by (auto simp: path parsed_def cut_at_None_iff)
  have colon: "cut_at CHR '':'' (printed_path c r)
      = (if lr_tag r \<noteq> [] then Some (lr_repository r, lr_tag r) else None)"
    using p by (auto simp: path parsed_def cut_at_Some_iff cut_at_None_iff)
  have "\<not> (lr_registry r = [] \<and> digest_prefixed c (printed_path c r))" if "lr_tag r \<noteq> []"
    using q t that by (auto simp: digest_prefixed_def colon printable_reference_def)
  then show ?thesis using p at colon t by (auto simp: split_path_def parsed_def path)
qed

lemma printed_path_suffix:
  assumes "documented_checks c" and "parsed c r"
  obtains suf where "printed_path c r = lr_repository r @ suf" and "CHR ''/'' \<notin> set suf"
proof
  let ?suf = "(if lr_tag r \<noteq> [] then CHR '':'' # lr_tag r else [])
     @ (if digest_prefixed c (lr_reference r) then CHR ''@'' # lr_reference r else [])"
  show "printed_path c r = lr_repository r @ ?suf" by (simp add: printed_path_def)
  show "CHR ''/'' \<notin> set ?suf"
    using assms digest_prefixed_colon [of c "lr_reference r"] tag_no_slash [of "lr_tag r"]
    by (cases "lr_reference r = []")
      (auto simp: documented_checks_def parsed_def validate_reference_Ok_iff split: if_splits)
qed

lemma printed_path_no_slash:
  assumes "documented_checks c" and "parsed c r" and "CHR ''/'' \<in> set (printed_path c r)"
  shows "CHR ''/'' \<in> set (lr_repository r)"
  using assms by (metis Un_iff printed_path_suffix set_append)

lemma split_printed_registry:
  assumes "documented_checks c" and "parsed c r" and "printable_reference c r"
  shows "split_registry (if lr_registry r \<noteq> [] then lr_registry r @ CHR ''/'' # printed_path c r
      else printed_path c r) = (lr_registry r = [], lr_registry r, printed_path c r)"
proof (cases "lr_registry r = []")
  case True
  then have "CHR ''/'' \<notin> set (printed_path c r)"
    using printed_path_no_slash assms by (auto simp: printable_reference_def)
  with True show ?thesis by (simp add: split_registry_def cut_at_absent)
next
  case False
  with assms(2) show ?thesis by (simp add: split_registry_def parsed_def cut_at_append)
qed

lemma cut_str_first: "x \<notin> set a \<Longrightarrow> cut_str (x # xs) (a @ (x # xs) @ b) = Some (a, b)"
proof (induction a)
  case Nil
  then show ?case by (subst cut_str.simps) (simp add: has_prefix_def)
next
  case (Cons y ys)
  then show ?case by (subst cut_str.simps) (auto simp: has_prefix_def)
qed

lemma printed_no_scheme:
  assumes d: "documented_checks c" and p: "parsed c r" and q: "printable_reference c r"
    and r: "lr_registry r \<noteq> []"
  shows "lr_registry r @ CHR ''/'' # printed_path c r \<noteq> a @ ''://'' @ b"
proof
  assume eq: "lr_registry r @ CHR ''/'' # printed_path c r = a @ ''://'' @ b"
  obtain suf where P: "printed_path c r = lr_repository r @ suf" and suf: "CHR ''/'' \<notin> set suf"
    using printed_path_suffix [OF d p] .
  have repo: "lr_repository r \<noteq> []" "hd (lr_repository r) \<noteq> CHR ''/''" "CHR '':'' \<notin> set (lr_repository r)"
    using p q r d by (auto simp: parsed_def validate_reference_Ok_iff printable_reference_def documented_checks_def)
  have reg: "CHR ''/'' \<notin> set (lr_registry r)" using p by (simp add: parsed_def)
  show False
  proof (cases "CHR ''/'' \<in> set a")
    case False
    then have "cut_at CHR ''/'' (a @ ''://'' @ b) = Some (a @ '':'', CHR ''/'' # b)"
      by (auto simp: cut_at_Some_iff)
    moreover have "cut_at CHR ''/'' (a @ ''://'' @ b) = Some (lr_registry r, printed_path c r)"
      unfolding eq [symmetric] using reg by (rule cut_at_append)
    ultimately show False using repo P by (cases "lr_repository r") auto
  next
    case True
    then obtain a1 a2 where a: "a = a1 @ CHR ''/'' # a2" "CHR ''/'' \<notin> set a1"
      using split_list_first by fastforce
    have "cut_at CHR ''/'' (a @ ''://'' @ b) = Some (a1, a2 @ ''://'' @ b)"
      using a by (simp add: cut_at_append)
    moreover have "cut_at CHR ''/'' (a @ ''://'' @ b) = Some (lr_registry r, printed_path c r)"
      unfolding eq [symmetric] using reg by (rule cut_at_append)
    ultimately have "lr_repository r @ suf = a2 @ CHR '':'' # CHR ''/'' # CHR ''/'' # b" using P by simp
    with suf repo show False by (auto simp: append_eq_append_conv2 append_eq_Cons_conv Cons_eq_append_conv)
  qed
qed

lemma get_scheme_printed:
  assumes d: "documented_checks c" and p: "parsed c r" and q: "printable_reference c r"
  shows "get_scheme (print_reference c r) = (lr_scheme r, if lr_registry r \<noteq> []
    then lr_registry r @ CHR ''/'' # printed_path c r else printed_path c r)" (is "_ = (_, ?s)")
proof (cases "lr_scheme r = []")
  case True
  have "cut_str ''://'' ?s = None"
  proof (cases "lr_registry r = []")
    case reg: True
    then have "CHR ''/'' \<notin> set (printed_path c r)"
      using printed_path_no_slash [OF d p] q by (auto simp: printable_reference_def)
    with reg show ?thesis by (auto simp: cut_str_None_iff)
  next
    case False
    then show ?thesis using printed_no_scheme [OF d p q False] by (simp add: cut_str_None_iff)
  qed
  with True q show ?thesis by (simp add: print_reference_eq print_scheme_def get_scheme_def)
next
  case False
  then have "CHR '':'' \<notin> set (lr_scheme r)" and repo: "lr_repository r \<noteq> []"
    using p q by (auto simp: parsed_def allowed_schemes_def printable_reference_def)
  then have "cut_str ''://'' (lr_scheme r @ ''://'' @ ?s) = Some (lr_scheme r, ?s)"
    by (rule_tac cut_str_first)
  moreover have "?s \<noteq> []" using repo by (auto simp: printed_path_def)
  ultimately show ?thesis
    using False q repo by (simp add: print_reference_eq print_scheme_def get_scheme_def)
qed

text \<open>C34: Printing a parsed reference and parsing the text again gives the same scheme, registry,
  repository, tag and digest, for every reference whose parts the printer keeps apart.\<close>

theorem reference_roundtrip:
  assumes "documented_checks c" and "parse_reference c s = Ok r" and "printable_reference c r"
  shows "parse_reference c (print_reference c r) = Ok r"
proof -
  have p: "parsed c r" using assms(2) by (rule parse_parsed)
  then have ok: "lr_scheme r \<noteq> [] \<longrightarrow> lr_scheme r \<in> set allowed_schemes" "validate_reference c r = Ok ()"
    by (simp_all add: parsed_def)
  show ?thesis
    by (rule parse_referenceI [OF get_scheme_printed [OF assms(1) p assms(3)] ok(1)
          split_printed_registry [OF assms(1) p assms(3)] split_printed_path [OF p assms(3)] ok(2)])
qed

text \<open>Checks for concrete references: two digest algorithms, lower-case names.\<close>

definition sample_checks :: reference_checks where
  "sample_checks =
     \<lparr>rc_algorithm = (\<lambda>s. s = ''sha256'' \<or> s = ''sha512''),
      rc_registry_ok = (\<lambda>s. CHR ''/'' \<notin> set s),
      rc_repository_ok = (\<lambda>s. s \<noteq> [] \<and> hd s \<noteq> CHR ''/''),
      rc_reference_ok = (\<lambda>s. CHR ''/'' \<notin> set s),
      rc_tag_ok = tag_matches,
      rc_digest_ok = (\<lambda>s. has_prefix s ''sha256:'')\<rparr>"

lemma documented_sample: "documented_checks sample_checks"
  by (simp add: documented_checks_def sample_checks_def)

definition sample_reference :: loose_reference where
  "sample_reference = \<lparr>lr_scheme = ''oci'', lr_registry = ''ghcr.io:5000'', lr_repository = ''acme/app'',
     lr_reference = ''sha256:ab'', lr_tag = ''v1''\<rparr>"

lemma sample_reference_parses:
  "parse_reference sample_checks ''oci://ghcr.io:5000/acme/app:v1@sha256:ab'' = Ok sample_reference"
  by code_simp

lemma sample_reference_printable: "printable_reference sample_checks sample_reference"
  by code_simp

lemma reference_roundtrip_witness:
  "parse_reference sample_checks (print_reference sample_checks sample_reference) = Ok sample_reference"
  by (rule reference_roundtrip [OF documented_sample sample_reference_parses sample_reference_printable])

text \<open>
  What follows the at sign is documented to be a digest, but a word that only looks like a tag is
  accepted there; the tag before it is the one the reference stands for.
\<close>

lemma tag_accepted_as_digest:
  "parse_reference sample_checks ''app:v1@v2''
     = Ok \<lparr>lr_scheme = [], lr_registry = [], lr_repository = ''app'', lr_reference = ''v2'', lr_tag = ''v1''\<rparr>"
  by code_simp

end
