(* ===== verification/Ctf_Index.thy ===== *)
theory Ctf_Index
  imports Go_Strings
begin

text \<open>
  The artifact index of a common transport archive, \<open>bindings/go/ctf/index/v1/index.go\<close>: a list
  of entries, each a digest in a repository under an optional tag. A mutex makes every
  operation atomic. The meaning of an index is the map from repository and tag to the digest of
  the first entry carrying them; \<open>AddArtifact\<close> is a map update whatever the list looks like,
  \<open>RemoveTag\<close> is a map deletion when no two entries carry the same tag.
\<close>

section \<open>Entries and operations\<close>

record artifact =
  am_repository :: string
  am_tag :: string
  am_digest :: string
  am_media_type :: string

datatype index_error = Artifact_Not_Found

definition new_index :: "artifact list" where
  "new_index = []"

text \<open>
  The loop of \<open>AddArtifact\<close>: the visited entries after it, and \<open>None\<close> for the early return at an
  exact duplicate, otherwise whether an untagged entry received the tag.
\<close>

definition retags :: "artifact \<Rightarrow> artifact \<Rightarrow> bool" where
  "retags a art \<longleftrightarrow> am_tag a \<noteq> [] \<and> am_tag art = am_tag a \<and> am_digest art \<noteq> am_digest a"

definition tags_untagged :: "artifact \<Rightarrow> artifact \<Rightarrow> bool" where
  "tags_untagged a art \<longleftrightarrow> am_tag a \<noteq> [] \<and> am_tag art = [] \<and> am_digest art = am_digest a"

definition update_entry :: "artifact \<Rightarrow> artifact \<Rightarrow> artifact" where
  "update_entry a art =
     (let art1 = if retags a art then art\<lparr>am_tag := []\<rparr> else art
      in if tags_untagged a art then art1\<lparr>am_tag := am_tag a\<rparr> else art1)"

fun add_scan :: "artifact \<Rightarrow> artifact list \<Rightarrow> artifact list \<times> bool option" where
  "add_scan a [] = ([], Some False)"
| "add_scan a (art # arts) =
     (if am_repository art \<noteq> am_repository a then
        (case add_scan a arts of (xs, r) \<Rightarrow> (art # xs, r))
      else if am_tag art = am_tag a \<and> am_digest art = am_digest a then (art # arts, None)
      else (case add_scan a arts of (xs, r) \<Rightarrow>
        (update_entry a art # xs, map_option (\<lambda>found. tags_untagged a art \<or> found) r)))"

definition add_artifact :: "artifact \<Rightarrow> artifact list \<Rightarrow> artifact list" where
  "add_artifact a arts = (case add_scan a arts of
       (xs, None) \<Rightarrow> xs
     | (xs, Some found) \<Rightarrow> if found then xs else xs @ [a])"

definition get_artifacts :: "artifact list \<Rightarrow> artifact list" where
  "get_artifacts arts = arts"

definition carries :: "string \<Rightarrow> string \<Rightarrow> artifact \<Rightarrow> bool" where
  "carries repo tag art \<longleftrightarrow> am_repository art = repo \<and> am_tag art = tag"

fun delete_first :: "('a \<Rightarrow> bool) \<Rightarrow> 'a list \<Rightarrow> 'a list option" where
  "delete_first P [] = None"
| "delete_first P (x # xs) = (if P x then Some xs else map_option ((#) x) (delete_first P xs))"

definition remove_tag :: "string \<Rightarrow> string \<Rightarrow> artifact list \<Rightarrow> (index_error, artifact list) outcome" where
  "remove_tag repo tag arts = (case delete_first (carries repo tag) arts of
       Some arts' \<Rightarrow> Ok arts'
     | None \<Rightarrow> Fail Artifact_Not_Found)"

section \<open>The map an index stands for\<close>

definition tag_map :: "artifact list \<Rightarrow> string \<times> string \<Rightarrow> string option" where
  "tag_map arts = (\<lambda>(repo, tag). if tag = [] then None
     else map_option am_digest (find (carries repo tag) arts))"

definition coherent :: "artifact list \<Rightarrow> bool" where
  "coherent arts \<longleftrightarrow> (\<forall>x \<in> set arts. \<forall>y \<in> set arts.
     am_tag x \<noteq> [] \<longrightarrow> carries (am_repository y) (am_tag y) x \<longrightarrow> am_digest x = am_digest y)"

definition unique_tags :: "artifact list \<Rightarrow> bool" where
  "unique_tags arts \<longleftrightarrow> distinct (map (\<lambda>a. (am_repository a, am_tag a)) (filter (\<lambda>a. am_tag a \<noteq> []) arts))"

definition stored_digests :: "artifact list \<Rightarrow> (string \<times> string) set" where
  "stored_digests arts = (\<lambda>a. (am_repository a, am_digest a)) ` set arts"

lemma update_entry_simps [simp]:
  "am_repository (update_entry a art) = am_repository art"
  "am_digest (update_entry a art) = am_digest art"
  "am_media_type (update_entry a art) = am_media_type art"
  "am_tag (update_entry a art) = (if retags a art then [] else if tags_untagged a art then am_tag a else am_tag art)"
  by (auto simp: update_entry_def Let_def retags_def tags_untagged_def)

lemma find_SomeD: "find P xs = Some y \<Longrightarrow> y \<in> set xs \<and> P y"
  by (induction xs) (auto split: if_splits)

lemma find_append: "find P (xs @ ys) = (case find P xs of None \<Rightarrow> find P ys | Some x \<Rightarrow> Some x)"
  by (induction xs) auto

text \<open>
  The loop in closed form: without an exact duplicate every entry of the repository is updated, a
  duplicate ends the loop and keeps the rest.
\<close>

definition duplicates :: "artifact \<Rightarrow> artifact \<Rightarrow> bool" where
  "duplicates a art \<longleftrightarrow> am_repository art = am_repository a \<and> am_tag art = am_tag a \<and> am_digest art = am_digest a"

definition visited :: "artifact \<Rightarrow> artifact \<Rightarrow> artifact" where
  "visited a art = (if am_repository art = am_repository a then update_entry a art else art)"

definition tagged_now :: "artifact \<Rightarrow> artifact \<Rightarrow> bool" where
  "tagged_now a art \<longleftrightarrow> am_repository art = am_repository a \<and> tags_untagged a art"

lemma add_scan_fresh:
  "\<forall>x \<in> set arts. \<not> duplicates a x
     \<Longrightarrow> add_scan a arts = (map (visited a) arts, Some (\<exists>x \<in> set arts. tagged_now a x))"
  by (induction arts) (auto simp: duplicates_def visited_def tagged_now_def)

lemma add_scan_duplicate:
  "\<forall>x \<in> set as. \<not> duplicates a x \<Longrightarrow> duplicates a d
     \<Longrightarrow> add_scan a (as @ d # bs) = (map (visited a) as @ d # bs, None)"
  by (induction as) (auto simp: duplicates_def visited_def)

lemma add_artifact_cases:
  obtains (duplicate) as d bs where "arts = as @ d # bs" and "\<forall>x \<in> set as. \<not> duplicates a x"
      and "duplicates a d" and "add_artifact a arts = map (visited a) as @ d # bs"
  | (tagged) x where "\<forall>x \<in> set arts. \<not> duplicates a x" and "x \<in> set arts" and "tagged_now a x"
      and "add_artifact a arts = map (visited a) arts"
  | (appended) "\<forall>x \<in> set arts. \<not> duplicates a x" and "\<forall>x \<in> set arts. \<not> tagged_now a x"
      and "add_artifact a arts = map (visited a) arts @ [a]"
proof (cases "\<exists>x \<in> set arts. duplicates a x")
  case True
  then obtain as d bs where "arts = as @ d # bs" "duplicates a d" "\<forall>x \<in> set as. \<not> duplicates a x"
    using split_list_first_prop [of arts "duplicates a"] by blast
  then show thesis using duplicate by (simp add: add_artifact_def add_scan_duplicate)
next
  case False
  then have fresh: "\<forall>x \<in> set arts. \<not> duplicates a x" by blast
  show thesis
  proof (cases "\<exists>x \<in> set arts. tagged_now a x")
    case True
    with fresh show thesis using tagged by (auto simp: add_artifact_def add_scan_fresh)
  next
    case False
    with fresh show thesis using appended by (simp add: add_artifact_def add_scan_fresh)
  qed
qed

lemma visited_simps [simp]:
  "am_repository (visited a art) = am_repository art"
  "am_digest (visited a art) = am_digest art"
  "am_media_type (visited a art) = am_media_type art"
  by (simp_all add: visited_def)

lemma carries_visited_other:
  assumes "tag \<noteq> []" and "(repo, tag) \<noteq> (am_repository a, am_tag a)"
  shows "carries repo tag (visited a art) \<longleftrightarrow> carries repo tag art"
    and "carries repo tag art \<Longrightarrow> visited a art = art"
  using assms by (auto simp: carries_def visited_def update_entry_def retags_def tags_untagged_def)

text \<open>Another tag keeps its first entry.\<close>

lemma find_visited_other:
  assumes "tag \<noteq> []" and "(repo, tag) \<noteq> (am_repository a, am_tag a)"
  shows "find (carries repo tag) (map (visited a) arts) = find (carries repo tag) arts"
  using carries_visited_other [OF assms] by (induction arts) auto

lemma add_artifact_other:
  assumes "tag \<noteq> []" and "(repo, tag) \<noteq> (am_repository a, am_tag a)"
  shows "find (carries repo tag) (add_artifact a arts) = find (carries repo tag) arts"
proof -
  have "\<not> carries repo tag a" using assms(2) by (auto simp: carries_def)
  then show ?thesis
    by (cases rule: add_artifact_cases [of arts a])
      (simp_all add: find_append find_visited_other [OF assms] split: option.split)
qed

text \<open>The entry found under the tag that was just added carries the added digest.\<close>

lemma carries_visited_own:
  assumes "am_tag a \<noteq> []" and "\<not> duplicates a art"
  shows "carries (am_repository a) (am_tag a) (visited a art) \<longleftrightarrow> tagged_now a art"
  using assms
  by (auto simp: carries_def visited_def retags_def tags_untagged_def duplicates_def tagged_now_def)

lemma tagged_now_digest:
  "tagged_now a art \<Longrightarrow> am_repository art = am_repository a \<and> am_digest art = am_digest a"
  by (simp add: tagged_now_def tags_untagged_def)

lemma find_visited_own:
  assumes "am_tag a \<noteq> []" and "\<forall>x \<in> set arts. \<not> duplicates a x"
  shows "map_option am_digest (find (carries (am_repository a) (am_tag a)) (map (visited a) arts))
    = (if \<exists>x \<in> set arts. tagged_now a x then Some (am_digest a) else None)"
  using assms(2)
proof (induction arts)
  case (Cons art arts)
  then show ?case
    using carries_visited_own [OF assms(1), of art] tagged_now_digest [of a art]
    by (cases "tagged_now a art"; cases "\<exists>x \<in> set arts. tagged_now a x") simp_all
qed simp

lemma add_artifact_own:
  assumes "am_tag a \<noteq> []"
  shows "map_option am_digest (find (carries (am_repository a) (am_tag a)) (add_artifact a arts))
    = Some (am_digest a)"
proof (cases rule: add_artifact_cases [of arts a])
  case (duplicate as d bs)
  then show ?thesis
    using find_visited_own [OF assms, of as]
    by (auto simp: find_append carries_def duplicates_def split: option.splits if_splits)
next
  case (tagged x)
  then show ?thesis using find_visited_own [OF assms, of arts] by auto
next
  case appended
  then show ?thesis
    using find_visited_own [OF assms, of arts] by (simp add: find_append carries_def split: option.splits)
qed

lemma visited_untagged: "am_tag a = [] \<Longrightarrow> visited a art = art"
  by (simp add: visited_def update_entry_def retags_def tags_untagged_def)

lemma tag_map_add_artifact:
  "tag_map (add_artifact a arts) = (if am_tag a = [] then tag_map arts
     else (tag_map arts)((am_repository a, am_tag a) \<mapsto> am_digest a))"
proof (rule ext)
  fix k :: "string \<times> string"
  obtain repo tag where k: "k = (repo, tag)" by (cases k)
  show "tag_map (add_artifact a arts) k = (if am_tag a = [] then tag_map arts
     else (tag_map arts)((am_repository a, am_tag a) \<mapsto> am_digest a)) k"
  proof (cases "tag = [] \<or> (repo, tag) = (am_repository a, am_tag a)")
    case True
    then show ?thesis using add_artifact_own [of a arts] by (auto simp: k tag_map_def)
  next
    case False
    then show ?thesis using add_artifact_other [of tag repo a arts] by (auto simp: k tag_map_def)
  qed
qed

text \<open>No digest leaves the index.\<close>

lemma stored_digests_simps [simp]:
  "stored_digests [] = {}"
  "stored_digests (x # xs) = insert (am_repository x, am_digest x) (stored_digests xs)"
  "stored_digests (xs @ ys) = stored_digests xs \<union> stored_digests ys"
  "stored_digests (map (visited a) xs) = stored_digests xs"
  by (auto simp: stored_digests_def image_image)

lemma stored_digestsI: "x \<in> set xs \<Longrightarrow> (am_repository x, am_digest x) \<in> stored_digests xs"
  by (auto simp: stored_digests_def)

lemma stored_add_artifact:
  "stored_digests (add_artifact a arts) = insert (am_repository a, am_digest a) (stored_digests arts)"
proof (cases rule: add_artifact_cases [of arts a])
  case (duplicate as d bs)
  then show ?thesis by (auto simp: duplicates_def)
next
  case (tagged x)
  then show ?thesis using tagged_now_digest [OF tagged(3)] stored_digestsI [OF tagged(2)] by auto
next
  case appended
  then show ?thesis by simp
qed

section \<open>One digest per tag\<close>

lemma coherentI:
  "(\<And>x y. x \<in> set arts \<Longrightarrow> y \<in> set arts \<Longrightarrow> am_tag x \<noteq> [] \<Longrightarrow> am_repository x = am_repository y
     \<Longrightarrow> am_tag x = am_tag y \<Longrightarrow> am_digest x = am_digest y) \<Longrightarrow> coherent arts"
  unfolding coherent_def carries_def by blast

lemma coherentD:
  "coherent arts \<Longrightarrow> x \<in> set arts \<Longrightarrow> y \<in> set arts \<Longrightarrow> am_tag x \<noteq> [] \<Longrightarrow> am_repository x = am_repository y
     \<Longrightarrow> am_tag x = am_tag y \<Longrightarrow> am_digest x = am_digest y"
  unfolding coherent_def carries_def by blast

lemma find_carries:
  "x \<in> set arts \<Longrightarrow> \<exists>y. find (carries (am_repository x) (am_tag x)) arts = Some y \<and> y \<in> set arts
     \<and> am_repository y = am_repository x \<and> am_tag y = am_tag x"
  by (induction arts) (auto simp: carries_def)

lemma coherent_tag_map:
  assumes "coherent arts" and "x \<in> set arts" and "am_tag x \<noteq> []"
  shows "tag_map arts (am_repository x, am_tag x) = Some (am_digest x)"
proof -
  obtain y where y: "find (carries (am_repository x) (am_tag x)) arts = Some y" "y \<in> set arts"
      "am_repository x = am_repository y" "am_tag x = am_tag y"
    using find_carries [OF assms(2)] by metis
  with assms(3) have "tag_map arts (am_repository x, am_tag x) = Some (am_digest y)"
    by (simp add: tag_map_def)
  then show ?thesis using coherentD [OF assms(1,2) y(2) assms(3) y(3,4)] by simp
qed

text \<open>
  Every tagged entry afterwards is an entry of before under another tag, or carries the added tag
  with the added digest.
\<close>

lemma visited_entry:
  "\<not> duplicates a art \<Longrightarrow> am_tag (visited a art) \<noteq> [] \<Longrightarrow>
     (visited a art = art \<and> (am_repository art, am_tag art) \<noteq> (am_repository a, am_tag a)) \<or> duplicates a (visited a art)"
  by (auto simp: visited_def update_entry_def retags_def tags_untagged_def duplicates_def split: if_splits)

lemma add_artifact_entries:
  assumes c: "coherent arts" and x: "x \<in> set (add_artifact a arts)" and t: "am_tag x \<noteq> []"
  shows "x \<in> set arts \<and> (am_repository x, am_tag x) \<noteq> (am_repository a, am_tag a) \<or> duplicates a x"
proof (cases rule: add_artifact_cases [of arts a])
  case (duplicate as d bs)
  consider y where "y \<in> set as" "x = visited a y" | "x = d" | "x \<in> set bs" using x duplicate by auto
  then show ?thesis
  proof cases
    case 1
    then show ?thesis using visited_entry [of a y] duplicate t by auto
  next
    case 2
    then show ?thesis using duplicate by simp
  next
    case 3
    then have "x \<in> set arts" "d \<in> set arts" using duplicate(1) by auto
    then show ?thesis using coherentD [OF c, of x d] t duplicate(3) by (auto simp: duplicates_def)
  qed
next
  case (tagged y)
  then obtain z where "z \<in> set arts" "x = visited a z" using x by auto
  then show ?thesis using visited_entry [of a z] tagged(1) t by auto
next
  case appended
  then consider z where "z \<in> set arts" "x = visited a z" | "x = a" using x by auto
  then show ?thesis
  proof cases
    case 1
    then show ?thesis using visited_entry [of a z] appended(1) t by auto
  next
    case 2
    then show ?thesis by (simp add: duplicates_def)
  qed
qed

lemma coherent_add_artifact: "coherent arts \<Longrightarrow> coherent (add_artifact a arts)"
proof (rule coherentI)
  fix x y
  assume c: "coherent arts" and "x \<in> set (add_artifact a arts)" "y \<in> set (add_artifact a arts)"
    and t: "am_tag x \<noteq> []" and eq: "am_repository x = am_repository y" "am_tag x = am_tag y"
  then have "x \<in> set arts \<and> (am_repository x, am_tag x) \<noteq> (am_repository a, am_tag a) \<or> duplicates a x"
    and "y \<in> set arts \<and> (am_repository y, am_tag y) \<noteq> (am_repository a, am_tag a) \<or> duplicates a y"
    using add_artifact_entries [OF c, of x a] add_artifact_entries [OF c, of y a] by auto
  then show "am_digest x = am_digest y"
    using coherentD [OF c, of x y] t eq unfolding duplicates_def by fastforce
qed

lemma delete_first_subset: "delete_first P xs = Some ys \<Longrightarrow> set ys \<subseteq> set xs"
  by (induction xs arbitrary: ys) (auto split: if_splits)

lemma coherent_remove_tag: "coherent arts \<Longrightarrow> remove_tag repo tag arts = Ok arts' \<Longrightarrow> coherent arts'"
  using delete_first_subset [of "carries repo tag" arts arts']
  by (force simp: remove_tag_def coherent_def split: option.splits)

section \<open>Removing a tag\<close>

lemma delete_first_None_iff: "delete_first P xs = None \<longleftrightarrow> (\<forall>x \<in> set xs. \<not> P x)"
  by (induction xs) auto

lemma delete_first_split:
  "delete_first P xs = Some ys \<Longrightarrow> \<exists>as x bs. xs = as @ x # bs \<and> ys = as @ bs \<and> P x \<and> (\<forall>a \<in> set as. \<not> P a)"
proof (induction xs arbitrary: ys)
  case (Cons z zs)
  show ?case
  proof (cases "P z")
    case True
    with Cons.prems show ?thesis by (intro exI [of _ "[]"]) auto
  next
    case False
    with Cons.prems obtain ws where ws: "delete_first P zs = Some ws" "ys = z # ws" by auto
    from Cons.IH [OF ws(1)] obtain as x bs
      where "zs = as @ x # bs" "ws = as @ bs" "P x" "\<forall>a \<in> set as. \<not> P a" by auto
    with ws False show ?thesis by (intro exI [of _ "z # as"]) auto
  qed
qed simp

lemma find_filtered: "(\<And>x. x \<in> set xs \<Longrightarrow> \<not> P x) \<Longrightarrow> find P xs = None"
  by (simp add: find_None_iff)

lemma tag_map_remove_tag:
  assumes u: "unique_tags arts" and tag: "tag \<noteq> []" and r: "remove_tag repo tag arts = Ok arts'"
  shows "tag_map arts' = (tag_map arts)((repo, tag) := None)"
proof (rule ext)
  fix k :: "string \<times> string"
  obtain repo' tag' where k: "k = (repo', tag')" by (cases k)
  obtain as x bs where s: "arts = as @ x # bs" "arts' = as @ bs" "carries repo tag x"
      "\<forall>a \<in> set as. \<not> carries repo tag a"
    using r delete_first_split [of "carries repo tag" arts arts']
    by (auto simp: remove_tag_def split: option.splits)
  have x: "am_repository x = repo" "am_tag x = tag" using s(3) by (simp_all add: carries_def)
  then have "(repo, tag) \<notin> (\<lambda>a. (am_repository a, am_tag a)) ` {a \<in> set bs. am_tag a \<noteq> []}"
    using u tag unfolding s(1) unique_tags_def by simp
  then have "\<not> carries repo tag b" if "b \<in> set bs" for b
    using that tag by (auto simp: carries_def image_iff)
  then have none: "find (carries repo tag) arts' = None"
    using s(4) by (auto simp: s(2) find_None_iff)
  have "find (carries repo' tag') arts' = find (carries repo' tag') arts" if "(repo', tag') \<noteq> (repo, tag)"
  proof -
    have "\<not> carries repo' tag' x" using s(3) that by (auto simp: carries_def)
    then show ?thesis
      unfolding s(1,2) find_append by (cases "find (carries repo' tag') as") simp_all
  qed
  then show "tag_map arts' k = ((tag_map arts)((repo, tag) := None)) k"
    using none by (cases "(repo', tag') = (repo, tag)") (simp_all add: k tag_map_def)
qed

text \<open>The states an index goes through: any additions, and any removals that succeed.\<close>

inductive index_reachable :: "artifact list \<Rightarrow> bool" where
  reach_new: "index_reachable new_index"
| reach_add: "index_reachable arts \<Longrightarrow> index_reachable (add_artifact a arts)"
| reach_remove: "index_reachable arts \<Longrightarrow> remove_tag repo tag arts = Ok arts' \<Longrightarrow> index_reachable arts'"

lemma index_reachable_coherent: "index_reachable arts \<Longrightarrow> coherent arts"
  by (induction rule: index_reachable.induct)
    (auto simp: new_index_def coherent_add_artifact coherent_remove_tag intro: coherentI)

section \<open>Properties\<close>

text \<open>C15: Adding an entry to an index, whatever it holds, is an update of the map from repository
  and tag to digest: the added tag resolves to the added digest, every other tag to what it
  resolved to, and an untagged entry changes nothing. No digest leaves the index.\<close>

theorem add_artifact_refines_update:
  "tag_map (add_artifact a arts) = (if am_tag a = [] then tag_map arts
      else (tag_map arts)((am_repository a, am_tag a) \<mapsto> am_digest a))
   \<and> stored_digests (add_artifact a arts) = insert (am_repository a, am_digest a) (stored_digests arts)"
  by (simp add: tag_map_add_artifact stored_add_artifact)

text \<open>In every index reached by additions and removals, all entries of a repository with one
  tag carry one digest: no tag is ambiguous.\<close>

theorem index_reachable_unambiguous:
  assumes "index_reachable arts" and "x \<in> set arts" and "y \<in> set arts" and "am_tag x \<noteq> []"
    and "am_repository x = am_repository y" and "am_tag x = am_tag y"
  shows "am_digest x = am_digest y"
  using coherentD [OF index_reachable_coherent [OF assms(1)]] assms(2-) by blast

definition entry :: "string \<Rightarrow> string \<Rightarrow> artifact" where
  "entry tag dig = \<lparr>am_repository = ''r'', am_tag = tag, am_digest = dig, am_media_type = []\<rparr>"

definition retagged_index :: "artifact list" where
  "retagged_index = foldl (\<lambda>arts a. add_artifact a arts) new_index
     [entry ''v1'' ''d1'', entry [] ''d1'', entry ''v2'' ''d1'', entry ''v1'' ''d2'', entry ''v2'' ''d1'']"

lemma retagged_index_eq:
  "retagged_index = [entry ''v2'' ''d1'', entry ''v2'' ''d1'', entry ''v1'' ''d2'']"
  by code_simp

lemma retagged_index_reachable: "index_reachable retagged_index"
  by (simp add: retagged_index_def index_reachable.intros)

lemma index_reachable_unambiguous_witness:
  "am_digest (retagged_index ! 0) = am_digest (retagged_index ! 1)"
  by (rule index_reachable_unambiguous [OF retagged_index_reachable])
    (simp_all add: retagged_index_eq entry_def)

text \<open>Removing a tag is not always a deletion: tagging a digest that has a cleared entry in front
  of its tagged one leaves two entries with one tag, and \<open>RemoveTag\<close>, which deletes the
  first entry, reports success while the tag still resolves.\<close>

theorem removed_tag_still_resolves:
  "\<exists>arts arts'. index_reachable arts \<and> remove_tag ''r'' ''v2'' arts = Ok arts'
     \<and> tag_map arts' (''r'', ''v2'') = Some ''d1''"
proof (intro exI conjI)
  show "remove_tag ''r'' ''v2'' retagged_index = Ok [entry ''v2'' ''d1'', entry ''v1'' ''d2'']"
    by code_simp
  show "tag_map [entry ''v2'' ''d1'', entry ''v1'' ''d2''] (''r'', ''v2'') = Some ''d1''"
    by code_simp
qed (rule retagged_index_reachable)

end
