(* ===== verification/Ctf_Store.thy ===== *)
theory Ctf_Store
  imports Looseref Ctf_Index
begin

text \<open>
  The OCI store over a common transport archive: the directory archive of
  \<open>bindings/go/ctf/filesystem_ctf.go\<close>, the repositories of \<open>bindings/go/oci/ctf/store.go\<close> with
  their referrers (\<open>referrers.go\<close>) and the component lister (\<open>lister.go\<close>).

  An archive is its artifact index and its blob files, shared by all its repositories. Every
  operation holds the lock of the store, so it is one step on the archive; an operation that can
  fail after changing the archive returns the archive it leaves. Digest algorithms and the JSON
  codec of OCI manifests are not part of the repository: they are the functions of \<open>oci_env\<close>.
  Failures of the file system other than a read-only archive are not modelled.
\<close>

section \<open>Descriptors, manifests and archives\<close>

record oci_descriptor =
  od_media_type :: string
  od_digest :: string
  od_size :: int
  od_annotations :: "(string, string) gomap option"
  od_artifact_type :: string

definition no_descriptor :: oci_descriptor where
  "no_descriptor = \<lparr>od_media_type = [], od_digest = [], od_size = 0, od_annotations = None,
     od_artifact_type = []\<rparr>"

text \<open>\<open>content.Equal\<close>, also the key under which referrers are the same.\<close>

definition referrer_key :: "oci_descriptor \<Rightarrow> string \<times> string \<times> int" where
  "referrer_key d = (od_media_type d, od_digest d, od_size d)"

text \<open>The fields of image manifests and image indexes the store reads.\<close>

record image_manifest =
  mf_subject :: "oci_descriptor option"
  mf_artifact_type :: string
  mf_config_media_type :: string
  mf_annotations :: "(string, string) gomap option"

record image_index =
  ix_subject :: "oci_descriptor option"
  ix_artifact_type :: string
  ix_annotations :: "(string, string) gomap option"
  ix_manifests :: "oci_descriptor list"

record oci_env =
  ce_checks :: reference_checks
  ce_digest_ok :: "string \<Rightarrow> bool"
  ce_verifies :: "string \<Rightarrow> string \<Rightarrow> bool"
  ce_digest_of :: "string \<Rightarrow> string"
  ce_manifest :: "string \<Rightarrow> image_manifest option"
  ce_index :: "string \<Rightarrow> image_index option"
  ce_encode :: "oci_descriptor list \<Rightarrow> string option"

record archive =
  ar_writable :: bool
  ar_index :: "artifact list"
  ar_blobs :: "(string, string) gomap"

datatype store_error =
    Invalid_Digest string
  | Blob_Not_Found
  | Read_Only
  | Not_Found
  | Content_Mismatch
  | No_Digest
  | Bad_Reference
  | Streaming_Unavailable
  | Missing_Descriptor
  | Undecodable_Index
  | Encoding_Failed

definition image_manifest_type :: string where
  "image_manifest_type = ''application/vnd.oci.image.manifest.v1+json''"

definition image_index_type :: string where
  "image_index_type = ''application/vnd.oci.image.index.v1+json''"

definition oci_compliant :: "string \<Rightarrow> bool" where
  "oci_compliant mt \<longleftrightarrow> mt \<in> {image_manifest_type, image_index_type,
     ''application/vnd.docker.distribution.manifest.v2+json'',
     ''application/vnd.docker.distribution.manifest.list.v2+json''}"

section \<open>Blobs of an archive\<close>

definition to_blob_file_name :: "oci_env \<Rightarrow> string \<Rightarrow> (store_error, string) outcome" where
  "to_blob_file_name env dig =
     (if ce_digest_ok env dig then Ok (map (\<lambda>c. if c = CHR '':'' then CHR ''.'' else c) dig)
      else Fail (Invalid_Digest dig))"

definition to_digest :: "string \<Rightarrow> string" where
  "to_digest name = map (\<lambda>c. if c = CHR ''.'' then CHR '':'' else c) name"

definition get_blob :: "oci_env \<Rightarrow> archive \<Rightarrow> string \<Rightarrow> (store_error, string) outcome" where
  "get_blob env ar dig = bind_outcome (to_blob_file_name env dig) (\<lambda>file.
     case map_of (ar_blobs ar) file of None \<Rightarrow> Fail Blob_Not_Found | Some content \<Rightarrow> Ok content)"

definition delete_blob :: "oci_env \<Rightarrow> archive \<Rightarrow> string \<Rightarrow> (store_error, archive) outcome" where
  "delete_blob env ar dig = bind_outcome (to_blob_file_name env dig) (\<lambda>file.
     if \<not> ar_writable ar then Fail Read_Only
     else if map_of (ar_blobs ar) file = None then Fail Blob_Not_Found
     else Ok (ar\<lparr>ar_blobs := mdel file (ar_blobs ar)\<rparr>))"

definition list_blobs :: "archive \<Rightarrow> string list" where
  "list_blobs ar = map to_digest (filter (\<lambda>n. \<not> has_prefix n ''.'') (mkeys (ar_blobs ar)))"

text \<open>Reading content that a descriptor describes, through the verifying reader.\<close>

definition verify_content :: "oci_env \<Rightarrow> oci_descriptor \<Rightarrow> string \<Rightarrow> (store_error, unit) outcome" where
  "verify_content env d content =
     (if od_size d \<noteq> -1 \<and> od_size d \<noteq> int (length content) then Fail Content_Mismatch
      else if od_digest d \<noteq> [] \<and> \<not> ce_verifies env (od_digest d) content then Fail Content_Mismatch
      else Ok ())"

definition verified_read :: "oci_env \<Rightarrow> oci_descriptor \<Rightarrow> string \<Rightarrow> (store_error, unit) outcome" where
  "verified_read env d content =
     (if od_digest d \<noteq> [] \<and> \<not> ce_digest_ok env (od_digest d) then Fail (Invalid_Digest (od_digest d))
      else verify_content env d content)"

text \<open>
  Staging a blob that has been read and verified needs its digest; publishing it keeps a blob
  already stored under that name, also in an archive that cannot be written.
\<close>

definition stage_blob :: "oci_env \<Rightarrow> string \<Rightarrow> (store_error, string) outcome" where
  "stage_blob env dig = (if dig = [] then Fail No_Digest else to_blob_file_name env dig)"

definition publish_blob :: "archive \<Rightarrow> string \<Rightarrow> string \<Rightarrow> (store_error, archive) outcome" where
  "publish_blob ar file content =
     (if map_of (ar_blobs ar) file \<noteq> None then Ok ar
      else if \<not> ar_writable ar then Fail Read_Only
      else Ok (ar\<lparr>ar_blobs := mput file content (ar_blobs ar)\<rparr>))"

definition save_blob :: "oci_env \<Rightarrow> archive \<Rightarrow> oci_descriptor \<Rightarrow> string \<Rightarrow> (store_error, archive) outcome" where
  "save_blob env ar d content =
     bind_outcome (verified_read env d content) (\<lambda>_.
     bind_outcome (stage_blob env (od_digest d)) (\<lambda>file. publish_blob ar file content))"

definition set_index :: "archive \<Rightarrow> artifact list \<Rightarrow> (store_error, archive) outcome" where
  "set_index ar idx = (if ar_writable ar then Ok (ar\<lparr>ar_index := idx\<rparr>) else Fail Read_Only)"

section \<open>Resolving and tagging\<close>

definition store_for_reference :: "oci_env \<Rightarrow> string \<Rightarrow> (reference_error, string) outcome" where
  "store_for_reference env reference =
     bind_outcome (parse_reference (ce_checks env) reference) (\<lambda>r. Ok (lr_repository r))"

definition version_to_oci_tag :: "string \<Rightarrow> string \<times> bool" where
  "version_to_oci_tag version = (let tag = (case cut_at CHR ''+'' version of
       Some (a, b) \<Rightarrow> a @ ''.build-'' @ b
     | None \<Rightarrow> version) in (tag, tag_matches tag))"

definition component_version_reference :: "string \<Rightarrow> string \<Rightarrow> string" where
  "component_version_reference component version =
     ''ctf.ocm.software/component-descriptors/'' @ component @ '':'' @ fst (version_to_oci_tag version)"

text \<open>What the index is searched for: the digest or tag of the reference, or its text.\<close>

definition resolve_key :: "oci_env \<Rightarrow> string \<Rightarrow> (store_error, string) outcome" where
  "resolve_key env reference = (case parse_reference (ce_checks env) reference of
       Ok r \<Rightarrow> (let t = reference_or_tag (ce_checks env) r in Ok (if t \<noteq> [] then t else reference))
     | Fail _ \<Rightarrow> if rc_tag_ok (ce_checks env) reference then Ok reference else Fail Bad_Reference
     | Panic \<Rightarrow> Panic)"

definition resolve_in :: "oci_env \<Rightarrow> string \<Rightarrow> archive \<Rightarrow> artifact list \<Rightarrow> string
    \<Rightarrow> (store_error, oci_descriptor) outcome" where
  "resolve_in env repo ar idx reference = bind_outcome (resolve_key env reference) (\<lambda>key.
     case find (\<lambda>a. am_repository a = repo \<and> (am_tag a = key \<or> am_digest a = key)) idx of
       Some a \<Rightarrow> bind_outcome (get_blob env ar (am_digest a)) (\<lambda>content.
         Ok (no_descriptor\<lparr>od_media_type := if am_media_type a = [] then image_manifest_type else am_media_type a,
               od_digest := am_digest a, od_size := int (length content)\<rparr>))
     | None \<Rightarrow> (case get_blob env ar key of
           Ok content \<Rightarrow> Ok (no_descriptor\<lparr>od_media_type := ''application/octet-stream'',
             od_digest := key, od_size := int (length content)\<rparr>)
         | _ \<Rightarrow> Fail Not_Found))"

definition resolve_reference :: "oci_env \<Rightarrow> string \<Rightarrow> archive \<Rightarrow> string \<Rightarrow> (store_error, oci_descriptor) outcome" where
  "resolve_reference env repo ar reference = resolve_in env repo ar (ar_index ar) reference"

definition fetch_reference :: "oci_env \<Rightarrow> string \<Rightarrow> archive \<Rightarrow> artifact list \<Rightarrow> string
    \<Rightarrow> (store_error, oci_descriptor \<times> string) outcome" where
  "fetch_reference env repo ar idx reference =
     bind_outcome (resolve_in env repo ar idx reference) (\<lambda>d.
     bind_outcome (get_blob env ar (od_digest d)) (\<lambda>content. Ok (d, content)))"

definition fetch_blob :: "oci_env \<Rightarrow> archive \<Rightarrow> oci_descriptor \<Rightarrow> (store_error, string) outcome" where
  "fetch_blob env ar d = get_blob env ar (od_digest d)"

definition blob_exists :: "archive \<Rightarrow> oci_descriptor \<Rightarrow> bool" where
  "blob_exists ar d \<longleftrightarrow> od_digest d \<in> set (list_blobs ar)"

definition entry_for :: "string \<Rightarrow> string \<Rightarrow> oci_descriptor \<Rightarrow> artifact" where
  "entry_for repo tag d = \<lparr>am_repository = repo, am_tag = tag, am_digest = od_digest d,
     am_media_type = od_media_type d\<rparr>"

definition artifact_for_reference ::
  "oci_env \<Rightarrow> string \<Rightarrow> oci_descriptor \<Rightarrow> string \<Rightarrow> (store_error, artifact) outcome" where
  "artifact_for_reference env repo d reference = (let c = ce_checks env in
     case parse_reference c reference of
       Fail _ \<Rightarrow> if rc_tag_ok c reference then Ok (entry_for repo reference d) else Fail Bad_Reference
     | Panic \<Rightarrow> Panic
     | Ok r \<Rightarrow>
         if rc_tag_ok c (lr_reference r) then Ok (entry_for repo (lr_tag r) d)
         else if rc_digest_ok c (lr_reference r) then Ok (entry_for repo [] d)
         else if rc_tag_ok c reference then Ok (entry_for repo reference d)
         else if rc_digest_ok c reference then Ok (entry_for repo [] d)
         else Fail Bad_Reference)"

definition apply_tag :: "oci_env \<Rightarrow> string \<Rightarrow> artifact list \<Rightarrow> oci_descriptor \<Rightarrow> string
    \<Rightarrow> (store_error, artifact list) outcome" where
  "apply_tag env repo idx d reference =
     bind_outcome (artifact_for_reference env repo d reference) (\<lambda>a. Ok (add_artifact a idx))"

definition tag_descriptor :: "oci_env \<Rightarrow> string \<Rightarrow> archive \<Rightarrow> oci_descriptor \<Rightarrow> string
    \<Rightarrow> (store_error, archive) outcome" where
  "tag_descriptor env repo ar d reference =
     (if \<not> blob_exists ar d then Fail Missing_Descriptor
      else bind_outcome (apply_tag env repo (ar_index ar) d reference) (set_index ar))"

text \<open>The tags fed to the callback; \<open>None\<close> if it is not called.\<close>

definition tags :: "string \<Rightarrow> archive \<Rightarrow> string list option" where
  "tags repo ar = (if ar_index ar = [] then None
     else Some (map am_tag (filter (\<lambda>a. am_repository a = repo \<and> am_tag a \<noteq> []) (ar_index ar))))"

definition untag :: "oci_env \<Rightarrow> string \<Rightarrow> archive \<Rightarrow> string \<Rightarrow> (store_error, archive) outcome" where
  "untag env repo ar reference =
     (let tag = (case parse_reference (ce_checks env) reference of
          Ok r \<Rightarrow> if lr_tag r \<noteq> [] then lr_tag r else reference
        | _ \<Rightarrow> reference)
      in case remove_tag repo tag (ar_index ar) of
           Ok idx \<Rightarrow> set_index ar idx
         | _ \<Rightarrow> Fail Not_Found)"

section \<open>Referrers\<close>

definition build_referrers_tag :: "oci_env \<Rightarrow> oci_descriptor \<Rightarrow> (store_error, string) outcome" where
  "build_referrers_tag env d =
     (if \<not> ce_digest_ok env (od_digest d) then Fail (Invalid_Digest (od_digest d))
      else case cut_at CHR '':'' (od_digest d) of
             Some (alg, encoded) \<Rightarrow> Ok (alg @ ''-'' @ encoded)
           | None \<Rightarrow> Panic)"

text \<open>The referrers index under a tag; no index, or a dangling entry, is an empty list.\<close>

definition referrers_from_index :: "oci_env \<Rightarrow> string \<Rightarrow> archive \<Rightarrow> artifact list \<Rightarrow> string
    \<Rightarrow> (store_error, oci_descriptor \<times> oci_descriptor list) outcome" where
  "referrers_from_index env repo ar idx tag = (case fetch_reference env repo ar idx tag of
       Ok (d, content) \<Rightarrow> (case ce_index env content of
           None \<Rightarrow> Fail Undecodable_Index
         | Some ix \<Rightarrow> Ok (d, ix_manifests ix))
     | Fail e \<Rightarrow> if e = Not_Found \<or> e = Blob_Not_Found then Ok (no_descriptor, []) else Fail e
     | Panic \<Rightarrow> Panic)"

definition filter_referrers :: "oci_descriptor list \<Rightarrow> string \<Rightarrow> oci_descriptor list" where
  "filter_referrers refs artifact_type =
     (if artifact_type = [] then refs else filter (\<lambda>r. od_artifact_type r = artifact_type) refs)"

text \<open>The list fed to the callback of \<open>Referrers\<close>, which is not called with an empty one.\<close>

definition referrers :: "oci_env \<Rightarrow> string \<Rightarrow> archive \<Rightarrow> oci_descriptor \<Rightarrow> string
    \<Rightarrow> (store_error, oci_descriptor list) outcome" where
  "referrers env repo ar d artifact_type =
     bind_outcome (build_referrers_tag env d) (\<lambda>tag.
     bind_outcome (referrers_from_index env repo ar (ar_index ar) tag) (\<lambda>(_, refs).
     Ok (filter_referrers refs artifact_type)))"

definition predecessors :: "oci_env \<Rightarrow> string \<Rightarrow> archive \<Rightarrow> oci_descriptor
    \<Rightarrow> (store_error, oci_descriptor list) outcome" where
  "predecessors env repo ar d = referrers env repo ar d []"

text \<open>The kept entries with the keys seen, and whether the list changed.\<close>

fun clean_referrers :: "(string \<times> string \<times> int) list \<Rightarrow> oci_descriptor list
    \<Rightarrow> oci_descriptor list \<times> (string \<times> string \<times> int) list \<times> bool" where
  "clean_referrers seen [] = ([], seen, False)"
| "clean_referrers seen (r # rs) =
     (if referrer_key r = referrer_key no_descriptor \<or> referrer_key r \<in> set seen
      then (case clean_referrers seen rs of (us, seen', _) \<Rightarrow> (us, seen', True))
      else (case clean_referrers (referrer_key r # seen) rs of (us, seen', ch) \<Rightarrow> (r # us, seen', ch)))"

definition add_referrer :: "oci_descriptor list \<Rightarrow> oci_descriptor \<Rightarrow> oci_descriptor list \<times> bool" where
  "add_referrer refs r = (case clean_referrers [] refs of (us, seen, ch) \<Rightarrow>
     if referrer_key r \<in> set seen then (us, ch) else (us @ [r], True))"

definition generate_index :: "oci_env \<Rightarrow> oci_descriptor list
    \<Rightarrow> (store_error, oci_descriptor \<times> string) outcome" where
  "generate_index env manifests = (case ce_encode env manifests of
       None \<Rightarrow> Fail Encoding_Failed
     | Some bytes \<Rightarrow> Ok (no_descriptor\<lparr>od_media_type := image_index_type,
         od_digest := ce_digest_of env bytes, od_size := int (length bytes)\<rparr>, bytes))"

text \<open>A failed deletion of the old index blob is only logged.\<close>

definition drop_prior_index :: "oci_env \<Rightarrow> archive \<Rightarrow> oci_descriptor \<Rightarrow> archive" where
  "drop_prior_index env ar old =
     (if referrer_key old \<noteq> referrer_key no_descriptor
      then (case delete_blob env ar (od_digest old) of Ok ar' \<Rightarrow> ar' | _ \<Rightarrow> ar) else ar)"

definition drop_prior_tag :: "string \<Rightarrow> string \<Rightarrow> artifact list \<Rightarrow> oci_descriptor \<Rightarrow> artifact list" where
  "drop_prior_tag repo tag idx old =
     (if referrer_key old \<noteq> referrer_key no_descriptor
      then (case remove_tag repo tag idx of Ok idx' \<Rightarrow> idx' | _ \<Rightarrow> idx) else idx)"

definition store_referrers :: "oci_env \<Rightarrow> string \<Rightarrow> archive \<Rightarrow> artifact list \<Rightarrow> string \<Rightarrow> oci_descriptor
    \<Rightarrow> oci_descriptor list \<Rightarrow> archive \<times> (store_error, artifact list) outcome" where
  "store_referrers env repo ar idx tag old updated = (case generate_index env updated of
       Ok (new, bytes) \<Rightarrow> (case save_blob env ar new bytes of
           Ok ar1 \<Rightarrow> (case apply_tag env repo (drop_prior_tag repo tag idx old) new tag of
               Ok idx' \<Rightarrow> (drop_prior_index env ar1 old, Ok idx')
             | Fail e \<Rightarrow> (ar1, Fail e)
             | Panic \<Rightarrow> (ar1, Panic))
         | Fail e \<Rightarrow> (ar, Fail e)
         | Panic \<Rightarrow> (ar, Panic))
     | Fail e \<Rightarrow> (ar, Fail e)
     | Panic \<Rightarrow> (ar, Panic))"

definition update_referrers_index :: "oci_env \<Rightarrow> string \<Rightarrow> archive \<Rightarrow> artifact list \<Rightarrow> oci_descriptor
    \<Rightarrow> oci_descriptor \<Rightarrow> archive \<times> (store_error, artifact list) outcome" where
  "update_referrers_index env repo ar idx subject referrer =
     (case bind_outcome (build_referrers_tag env subject) (\<lambda>tag.
           bind_outcome (referrers_from_index env repo ar idx tag) (\<lambda>(old, refs). Ok (tag, old, refs))) of
       Ok (tag, old, refs) \<Rightarrow> (case add_referrer refs referrer of (updated, changed) \<Rightarrow>
         if changed then store_referrers env repo ar idx tag old updated else (ar, Ok idx))
     | Fail e \<Rightarrow> (ar, Fail e)
     | Panic \<Rightarrow> (ar, Panic))"

definition referrer_from_manifest :: "oci_env \<Rightarrow> oci_descriptor \<Rightarrow> string
    \<Rightarrow> (store_error, oci_descriptor \<times> oci_descriptor option) outcome" where
  "referrer_from_manifest env d content =
     (if od_media_type d = image_manifest_type then
        (case ce_manifest env content of
           None \<Rightarrow> Fail Undecodable_Index
         | Some m \<Rightarrow> (case mf_subject m of
               None \<Rightarrow> Ok (d, None)
             | Some s \<Rightarrow> Ok (d\<lparr>od_artifact_type := if mf_artifact_type m = [] then mf_config_media_type m
                  else mf_artifact_type m, od_annotations := mf_annotations m\<rparr>, Some s)))
      else if od_media_type d = image_index_type then
        (case ce_index env content of
           None \<Rightarrow> Fail Undecodable_Index
         | Some ix \<Rightarrow> (case ix_subject ix of
               None \<Rightarrow> Ok (d, None)
             | Some s \<Rightarrow> Ok (d\<lparr>od_artifact_type := ix_artifact_type ix,
                  od_annotations := ix_annotations ix\<rparr>, Some s)))
      else Ok (d, None))"

section \<open>Pushing\<close>

definition finish_push :: "archive \<Rightarrow> artifact list \<Rightarrow> archive \<times> (store_error, unit) outcome" where
  "finish_push ar idx = (case set_index ar idx of
       Ok ar' \<Rightarrow> (ar', Ok ())
     | Fail e \<Rightarrow> (ar, Fail e)
     | Panic \<Rightarrow> (ar, Panic))"

definition referrer_of_push :: "oci_env \<Rightarrow> oci_descriptor \<Rightarrow> string \<Rightarrow> oci_descriptor \<times> oci_descriptor option" where
  "referrer_of_push env d content = (case referrer_from_manifest env d content of
       Ok (r, s) \<Rightarrow> (r, s)
     | _ \<Rightarrow> (d, None))"

definition push_manifest :: "oci_env \<Rightarrow> string \<Rightarrow> archive \<Rightarrow> oci_descriptor \<Rightarrow> string
    \<Rightarrow> archive \<times> (store_error, unit) outcome" where
  "push_manifest env repo ar d content = (case save_blob env ar d content of
       Ok ar1 \<Rightarrow> (case apply_tag env repo (ar_index ar1) d (od_digest d) of
           Ok idx \<Rightarrow> (case referrer_of_push env d content of
               (r, Some s) \<Rightarrow> (case update_referrers_index env repo ar1 idx s r of
                   (ar2, Ok idx') \<Rightarrow> finish_push ar2 idx'
                 | (ar2, Fail e) \<Rightarrow> (ar2, Fail e)
                 | (ar2, Panic) \<Rightarrow> (ar2, Panic))
             | (r, None) \<Rightarrow> finish_push ar1 idx)
         | Fail e \<Rightarrow> (ar1, Fail e)
         | Panic \<Rightarrow> (ar1, Panic))
     | Fail e \<Rightarrow> (ar, Fail e)
     | Panic \<Rightarrow> (ar, Panic))"

text \<open>\<open>content.ReadAll\<close> checks the size and the digest of a manifest before it is pushed.\<close>

definition push :: "oci_env \<Rightarrow> string \<Rightarrow> archive \<Rightarrow> oci_descriptor \<Rightarrow> string
    \<Rightarrow> archive \<times> (store_error, unit) outcome" where
  "push env repo ar d content =
     (if \<not> oci_compliant (od_media_type d) then
        (case save_blob env ar d content of
           Ok ar' \<Rightarrow> (ar', Ok ())
         | Fail e \<Rightarrow> (ar, Fail e)
         | Panic \<Rightarrow> (ar, Panic))
      else if \<not> (ce_digest_ok env (od_digest d) \<and> od_size d = int (length content)
                 \<and> ce_verifies env (od_digest d) content)
        then (ar, Fail Content_Mismatch)
      else push_manifest env repo ar d content)"

text \<open>
  The digest of streamed content is computed while it is read; an expected digest selects the
  algorithm and must match, as must an expected size.
\<close>

definition open_digesting :: "oci_env \<Rightarrow> string \<Rightarrow> (store_error, unit) outcome" where
  "open_digesting env expected =
     (if expected \<noteq> [] \<and> \<not> ce_digest_ok env expected then Fail (Invalid_Digest expected) else Ok ())"

definition read_digesting :: "oci_env \<Rightarrow> string \<Rightarrow> int \<Rightarrow> string \<Rightarrow> (store_error, string) outcome" where
  "read_digesting env expected expected_size content =
     (if expected \<noteq> [] \<and> \<not> ce_verifies env expected content then Fail Content_Mismatch
      else if expected_size \<ge> 0 \<and> expected_size \<noteq> int (length content) then Fail Content_Mismatch
      else Ok (if expected \<noteq> [] then expected else ce_digest_of env content))"

definition push_streaming :: "oci_env \<Rightarrow> archive \<Rightarrow> oci_descriptor \<Rightarrow> string
    \<Rightarrow> (store_error, archive \<times> oci_descriptor) outcome" where
  "push_streaming env ar d content =
     (if oci_compliant (od_media_type d) then Fail Streaming_Unavailable
      else bind_outcome (open_digesting env (od_digest d)) (\<lambda>_.
        bind_outcome (read_digesting env (od_digest d) (if od_size d = 0 then -1 else od_size d) content) (\<lambda>dig.
        bind_outcome (stage_blob env dig) (\<lambda>file.
        bind_outcome (publish_blob ar file content) (\<lambda>ar'.
        Ok (ar', no_descriptor\<lparr>od_media_type := od_media_type d, od_digest := dig,
              od_size := int (length content)\<rparr>))))))"

section \<open>Listing components\<close>

definition component_prefix :: string where
  "component_prefix = ''component-descriptors/''"

definition all_names :: "archive \<Rightarrow> string list" where
  "all_names ar = sort (remdups (map (\<lambda>a. trim_prefix (am_repository a) component_prefix)
     (filter (\<lambda>a. has_prefix (am_repository a) component_prefix) (get_artifacts (ar_index ar)))))"

definition list_components :: "archive \<Rightarrow> string list" where
  "list_components ar = all_names ar"

end
