(* ===== verification/Ctf_Store_Properties.thy ===== *)
theory Ctf_Store_Properties
  imports Ctf_Store
begin

text \<open>
  Properties of the store over a transport archive: what every run of pushes, tags and untags
  keeps, what a tag resolves to, what a pushed referrer is listed under, and where the blobs
  that all repositories of an archive share let one repository lose the referrers of another.
\<close>

section \<open>Documented behaviour of the digest and reference grammars\<close>

text \<open>
  Tags are not digests and have no separator; a digest is an available algorithm, a colon and an
  encoding without separators; the digest of content verifies it; the manifests encoded into an
  index are read back with their media types, digests and sizes, in order (\<open>omitempty\<close> drops annotations
  that are empty).
\<close>

definition documented_env :: "oci_env \<Rightarrow> bool" where
  "documented_env env \<longleftrightarrow> (let c = ce_checks env in
     \<not> rc_tag_ok c [] \<and> \<not> rc_digest_ok c []
     \<and> (\<forall>t. rc_tag_ok c t \<longrightarrow> set t \<inter> {CHR '':'', CHR ''/'', CHR ''@''} = {})
     \<and> (\<forall>d. rc_digest_ok c d \<longleftrightarrow> ce_digest_ok env d)
     \<and> (\<forall>d. ce_digest_ok env d \<longrightarrow> rc_reference_ok c d \<and> (\<exists>a e. d = a @ CHR '':'' # e \<and> a \<noteq> [] \<and> rc_algorithm c a
          \<and> set (a @ e) \<inter> {CHR '':'', CHR ''/'', CHR ''@'', CHR ''.''} = {}))
     \<and> (\<forall>b. ce_digest_ok env (ce_digest_of env b) \<and> ce_verifies env (ce_digest_of env b) b)
     \<and> (\<forall>ds b. ce_encode env ds = Some b \<longrightarrow> (\<exists>ix. ce_index env b = Some ix
          \<and> map referrer_key (ix_manifests ix) = map referrer_key ds)))"

lemma documented_tag:
  "documented_env env \<Longrightarrow> rc_tag_ok (ce_checks env) t \<Longrightarrow> t \<noteq> [] \<and> set t \<inter> {CHR '':'', CHR ''/'', CHR ''@''} = {}"
  by (auto simp: documented_env_def Let_def)

lemma documented_digest:
  assumes "documented_env env" and "ce_digest_ok env d"
  obtains a e where "d = a @ CHR '':'' # e" and "a \<noteq> []" and "rc_algorithm (ce_checks env) a"
    and "set (a @ e) \<inter> {CHR '':'', CHR ''/'', CHR ''@'', CHR ''.''} = {}"
proof -
  from assms have "\<exists>a e. d = a @ CHR '':'' # e \<and> a \<noteq> [] \<and> rc_algorithm (ce_checks env) a
      \<and> set (a @ e) \<inter> {CHR '':'', CHR ''/'', CHR ''@'', CHR ''.''} = {}"
    by (simp add: documented_env_def Let_def)
  then show thesis using that by blast
qed

lemma documented_digest_reference:
  "documented_env env \<Longrightarrow> ce_digest_ok env d \<Longrightarrow> rc_reference_ok (ce_checks env) d \<and> rc_digest_ok (ce_checks env) d"
  by (simp add: documented_env_def Let_def)

lemma documented_digest_of:
  "documented_env env \<Longrightarrow> ce_digest_ok env (ce_digest_of env b) \<and> ce_verifies env (ce_digest_of env b) b"
  by (simp add: documented_env_def Let_def)

lemma documented_codec:
  "documented_env env \<Longrightarrow> ce_encode env ds = Some b
    \<Longrightarrow> \<exists>ix. ce_index env b = Some ix \<and> map referrer_key (ix_manifests ix) = map referrer_key ds"
  by (simp add: documented_env_def Let_def)

lemma digest_not_tag: "documented_env env \<Longrightarrow> ce_digest_ok env d \<Longrightarrow> \<not> rc_tag_ok (ce_checks env) d"
  using documented_digest [of env d] documented_tag [of env d] by fastforce

lemma tag_not_digest:
  "documented_env env \<Longrightarrow> rc_tag_ok (ce_checks env) t \<Longrightarrow> \<not> rc_digest_ok (ce_checks env) t"
  using digest_not_tag [of env t] by (auto simp: documented_env_def Let_def)

section \<open>Blob files\<close>

lemma file_digest:
  assumes "documented_env env" and "to_blob_file_name env d = Ok f"
  shows "ce_digest_ok env d" and "to_digest f = d" and "\<not> has_prefix f ''.''"
proof -
  show ok: "ce_digest_ok env d" using assms(2) by (simp add: to_blob_file_name_def split: if_splits)
  obtain a e where d: "d = a @ CHR '':'' # e" "a \<noteq> []"
      "set (a @ e) \<inter> {CHR '':'', CHR ''/'', CHR ''@'', CHR ''.''} = {}"
    using documented_digest [OF assms(1) ok] .
  have same: "map (\<lambda>c. if c = CHR '':'' then CHR ''.'' else c) s = s"
    and "map (\<lambda>c. if c = CHR ''.'' then CHR '':'' else c) s = s" if "set s \<subseteq> set (a @ e)" for s
    using that d(3) by (auto intro!: map_idI)
  then have f: "f = a @ CHR ''.'' # e" and "to_digest (a @ CHR ''.'' # e) = d"
    using assms(2) ok by (auto simp: to_blob_file_name_def to_digest_def d(1))
  then show "to_digest f = d" by simp
  show "\<not> has_prefix f ''.''" using d(2,3) by (cases a) (auto simp: f has_prefix_def)
qed

lemma file_exists: "ce_digest_ok env d \<Longrightarrow> \<exists>f. to_blob_file_name env d = Ok f"
  by (simp add: to_blob_file_name_def)

lemma get_blob_Ok_iff:
  "get_blob env ar d = Ok c \<longleftrightarrow> (\<exists>f. to_blob_file_name env d = Ok f \<and> map_of (ar_blobs ar) f = Some c)"
  by (auto simp: get_blob_def bind_outcome_Ok_iff split: option.splits)

section \<open>What every operation keeps\<close>

definition blobs_ok :: "oci_env \<Rightarrow> (string, string) gomap \<Rightarrow> bool" where
  "blobs_ok env blobs \<longleftrightarrow> mok blobs \<and> (\<forall>(f, c) \<in> set blobs.
     \<exists>d. to_blob_file_name env d = Ok f \<and> ce_verifies env d c)"

definition index_ok :: "oci_env \<Rightarrow> artifact list \<Rightarrow> bool" where
  "index_ok env idx \<longleftrightarrow> coherent idx \<and> (\<forall>a \<in> set idx. ce_digest_ok env (am_digest a))"

definition store_ok :: "oci_env \<Rightarrow> archive \<Rightarrow> bool" where
  "store_ok env ar \<longleftrightarrow> blobs_ok env (ar_blobs ar) \<and> index_ok env (ar_index ar)"

lemma blobs_ok_put:
  assumes "blobs_ok env blobs" and "to_blob_file_name env d = Ok f" and "ce_verifies env d c"
  shows "blobs_ok env (mput f c blobs)"
  using assms set_mput [of f c blobs] unfolding blobs_ok_def by (fastforce simp: distinct_update)

lemma blobs_ok_del: "blobs_ok env blobs \<Longrightarrow> blobs_ok env (mdel f blobs)"
  by (auto simp: blobs_ok_def AList.delete_eq intro: mok_mdel [unfolded AList.delete_eq])

lemma save_blob_Ok:
  assumes "save_blob env ar d content = Ok ar'"
  shows "ce_verifies env (od_digest d) content \<and> ce_digest_ok env (od_digest d) \<and> ar_index ar' = ar_index ar
    \<and> ar_writable ar' = ar_writable ar
    \<and> (\<exists>f. to_blob_file_name env (od_digest d) = Ok f \<and> ar_blobs ar' = (if map_of (ar_blobs ar) f = None
         then mput f content (ar_blobs ar) else ar_blobs ar))"
  using assms
  by (auto simp: save_blob_def stage_blob_def publish_blob_def verified_read_def verify_content_def bind_outcome_Ok_iff
      to_blob_file_name_def split: if_splits)

lemma save_blob_ok: "blobs_ok env (ar_blobs ar) \<Longrightarrow> save_blob env ar d content = Ok ar' \<Longrightarrow> blobs_ok env (ar_blobs ar')"
  using save_blob_Ok [of env ar d content ar'] blobs_ok_put by (auto split: if_splits)

lemma save_blob_get:
  assumes "save_blob env ar d content = Ok ar'"
  shows "\<exists>c. get_blob env ar' (od_digest d) = Ok c
     \<and> (\<forall>b c'. get_blob env ar b = Ok c' \<longrightarrow> get_blob env ar' b = Ok c')"
proof -
  from save_blob_Ok [OF assms] obtain f where f: "to_blob_file_name env (od_digest d) = Ok f"
    "ar_blobs ar' = (if map_of (ar_blobs ar) f = None then mput f content (ar_blobs ar) else ar_blobs ar)"
    by blast
  have "map_of (ar_blobs ar') f \<noteq> None" and "map_of (ar_blobs ar) g = Some c \<Longrightarrow> map_of (ar_blobs ar') g = Some c" for g c
    by (auto simp: f(2))
  with f(1) show ?thesis unfolding get_blob_Ok_iff by blast
qed

lemma index_ok_add: "index_ok env idx \<Longrightarrow> ce_digest_ok env (am_digest a) \<Longrightarrow> index_ok env (add_artifact a idx)"
proof -
  assume i: "index_ok env idx" and a: "ce_digest_ok env (am_digest a)"
  have "ce_digest_ok env (am_digest x)" if "x \<in> set (add_artifact a idx)" for x
  proof -
    have "(am_repository x, am_digest x) \<in> insert (am_repository a, am_digest a) (stored_digests idx)"
      using stored_digestsI [OF that] by (simp add: stored_add_artifact)
    with i a show ?thesis by (auto simp: index_ok_def stored_digests_def)
  qed
  with i show ?thesis by (simp add: index_ok_def coherent_add_artifact)
qed

lemma index_ok_remove: "index_ok env idx \<Longrightarrow> remove_tag repo tag idx = Ok idx' \<Longrightarrow> index_ok env idx'"
  using delete_first_subset [of "carries repo tag" idx idx'] coherent_remove_tag [of idx repo tag idx']
  by (auto simp: index_ok_def remove_tag_def split: option.splits)

lemma artifact_for_reference_entry:
  "artifact_for_reference env repo d reference = Ok a \<Longrightarrow> \<exists>tag. a = entry_for repo tag d"
  by (auto simp: artifact_for_reference_def Let_def split: outcome.splits if_splits)

lemma apply_tag_Ok:
  "apply_tag env repo idx d reference = Ok idx' \<Longrightarrow> \<exists>tag. idx' = add_artifact (entry_for repo tag d) idx"
  using artifact_for_reference_entry by (fastforce simp: apply_tag_def bind_outcome_Ok_iff)

lemma apply_tag_ok:
  "index_ok env idx \<Longrightarrow> ce_digest_ok env (od_digest d) \<Longrightarrow> apply_tag env repo idx d reference = Ok idx'
     \<Longrightarrow> index_ok env idx'"
  using apply_tag_Ok [of env repo idx d reference idx'] by (auto simp: entry_for_def intro!: index_ok_add)

lemma blob_exists_digest:
  assumes "documented_env env" and "blobs_ok env (ar_blobs ar)" and "blob_exists ar d"
  shows "ce_digest_ok env (od_digest d) \<and> (\<exists>c. get_blob env ar (od_digest d) = Ok c)"
proof -
  obtain f c where f: "(f, c) \<in> set (ar_blobs ar)" "to_digest f = od_digest d"
    using assms(3) by (auto simp: blob_exists_def list_blobs_def)
  then obtain d' where d': "to_blob_file_name env d' = Ok f"
    using assms(2) by (auto simp: blobs_ok_def)
  then have "d' = od_digest d" "ce_digest_ok env d'" using file_digest [OF assms(1) d'] f(2) by auto
  with d' f(1) assms(2) show ?thesis by (auto simp: get_blob_Ok_iff blobs_ok_def)
qed

lemma delete_blob_Ok:
  "delete_blob env ar d = Ok ar' \<Longrightarrow> \<exists>f. to_blob_file_name env d = Ok f \<and> ar' = ar\<lparr>ar_blobs := mdel f (ar_blobs ar)\<rparr>"
  by (auto simp: delete_blob_def bind_outcome_Ok_iff split: if_splits)

lemma drop_prior_index_ok:
  "blobs_ok env (ar_blobs ar) \<Longrightarrow> blobs_ok env (ar_blobs (drop_prior_index env ar old))"
  "ar_index (drop_prior_index env ar old) = ar_index ar"
  using delete_blob_Ok [of env ar "od_digest old"] blobs_ok_del
  by (auto simp: drop_prior_index_def split: outcome.splits)

lemma drop_prior_tag_ok: "index_ok env idx \<Longrightarrow> index_ok env (drop_prior_tag repo tag idx old)"
  using index_ok_remove by (auto simp: drop_prior_tag_def split: outcome.splits)

lemma generate_index_Ok:
  "generate_index env ds = Ok (new, bytes) \<Longrightarrow> ce_encode env ds = Some bytes
     \<and> od_digest new = ce_digest_of env bytes \<and> od_media_type new = image_index_type
     \<and> od_size new = int (length bytes)"
  by (auto simp: generate_index_def split: option.splits)

lemma store_referrers_ok:
  assumes e: "documented_env env" and b: "blobs_ok env (ar_blobs ar)" and i: "index_ok env idx"
    and s: "store_referrers env repo ar idx tag old updated = (ar', r)"
  shows "blobs_ok env (ar_blobs ar') \<and> ar_index ar' = ar_index ar \<and> (\<forall>idx'. r = Ok idx' \<longrightarrow> index_ok env idx')"
proof (cases "generate_index env updated")
  case (Ok nb)
  obtain new bytes where nb: "nb = (new, bytes)" by (cases nb)
  show ?thesis
  proof (cases "save_blob env ar new bytes")
    case ar1: (Ok ar1)
    note sb = save_blob_ok [OF b ar1] save_blob_Ok [OF ar1]
    have "ce_digest_ok env (od_digest new)" using sb by simp
    then have "index_ok env idx'" if "apply_tag env repo (drop_prior_tag repo tag idx old) new tag = Ok idx'" for idx'
      using apply_tag_ok [OF drop_prior_tag_ok [OF i] _ that] by simp
    with Ok nb ar1 s sb show ?thesis
      by (auto simp: store_referrers_def drop_prior_index_ok split: outcome.splits)
  qed (use Ok nb s b in \<open>auto simp: store_referrers_def\<close>)
qed (use s b in \<open>auto simp: store_referrers_def\<close>)

lemma update_referrers_index_ok:
  assumes "documented_env env" and "blobs_ok env (ar_blobs ar)" and "index_ok env idx"
    and "update_referrers_index env repo ar idx subject referrer = (ar', r)"
  shows "blobs_ok env (ar_blobs ar') \<and> ar_index ar' = ar_index ar \<and> (\<forall>idx'. r = Ok idx' \<longrightarrow> index_ok env idx')"
  using assms(2-) store_referrers_ok [OF assms(1-3)]
  by (auto simp: update_referrers_index_def split: outcome.splits prod.splits if_splits)

lemma finish_push_ok:
  "store_ok env ar \<Longrightarrow> index_ok env idx \<Longrightarrow> finish_push ar idx = (ar', r) \<Longrightarrow> store_ok env ar'"
  by (auto simp: finish_push_def set_index_def store_ok_def split: if_splits)

lemma push_manifest_ok:
  assumes e: "documented_env env" and s: "store_ok env ar"
    and p: "push_manifest env repo ar d content = (ar', r)"
  shows "store_ok env ar'"
proof (cases "save_blob env ar d content")
  case (Ok ar1)
  note sb = save_blob_Ok [OF Ok]
  have s1: "store_ok env ar1"
    using s sb save_blob_ok [OF _ Ok] by (simp add: store_ok_def)
  show ?thesis
  proof (cases "apply_tag env repo (ar_index ar1) d (od_digest d)")
    case idx: (Ok idx)
    have i: "index_ok env idx" using apply_tag_ok [OF _ _ idx] s1 sb by (simp add: store_ok_def)
    obtain ref subject where ref: "referrer_of_push env d content = (ref, subject)"
      by (cases "referrer_of_push env d content")
    show ?thesis
    proof (cases subject)
      case None
      then show ?thesis using p Ok idx ref finish_push_ok [OF s1 i] by (simp add: push_manifest_def)
    next
      case (Some sub)
      obtain ar2 r2 where u: "update_referrers_index env repo ar1 idx sub ref = (ar2, r2)"
        by (cases "update_referrers_index env repo ar1 idx sub ref")
      have u': "blobs_ok env (ar_blobs ar2)" "ar_index ar2 = ar_index ar1" "\<And>i'. r2 = Ok i' \<Longrightarrow> index_ok env i'"
        using update_referrers_index_ok [OF e _ i u] s1 by (auto simp: store_ok_def)
      then have s2: "store_ok env ar2" using s1 by (simp add: store_ok_def)
      show ?thesis
        using p Ok idx ref Some u u'(3) finish_push_ok [OF s2] s2
        by (cases r2) (auto simp: push_manifest_def)
    qed
  qed (use p Ok s1 in \<open>auto simp: push_manifest_def\<close>)
qed (use p s in \<open>auto simp: push_manifest_def\<close>)

lemma push_ok:
  assumes "documented_env env" and "store_ok env ar" and "push env repo ar d content = (ar', r)"
  shows "store_ok env ar'"
proof (cases "oci_compliant (od_media_type d)")
  case True
  then show ?thesis
    using assms push_manifest_ok [OF assms(1,2)] by (auto simp: push_def split: if_splits)
next
  case False
  then show ?thesis
    using assms save_blob_ok [of env ar d content ar'] save_blob_Ok [of env ar d content ar']
    by (auto simp: push_def store_ok_def split: outcome.splits)
qed

section \<open>Runs\<close>

text \<open>One operation that may change the archive, by any of its repositories, whether it fails or not.\<close>

inductive store_step :: "oci_env \<Rightarrow> archive \<Rightarrow> archive \<Rightarrow> bool" where
  step_push: "push env repo ar d content = (ar', r) \<Longrightarrow> store_step env ar ar'"
| step_push_streaming: "push_streaming env ar d content = Ok (ar', d') \<Longrightarrow> store_step env ar ar'"
| step_tag: "tag_descriptor env repo ar d reference = Ok ar' \<Longrightarrow> store_step env ar ar'"
| step_untag: "untag env repo ar reference = Ok ar' \<Longrightarrow> store_step env ar ar'"

inductive_cases store_stepE: "store_step env ar ar'"

inductive store_reachable :: "oci_env \<Rightarrow> archive \<Rightarrow> bool" where
  store_empty: "ar_index ar = new_index \<Longrightarrow> ar_blobs ar = [] \<Longrightarrow> store_reachable env ar"
| store_next: "store_reachable env ar \<Longrightarrow> store_step env ar ar' \<Longrightarrow> store_reachable env ar'"

lemma set_index_store_ok:
  "store_ok env ar \<Longrightarrow> index_ok env idx \<Longrightarrow> set_index ar idx = Ok ar' \<Longrightarrow> store_ok env ar'"
  by (auto simp: set_index_def store_ok_def split: if_splits)

lemma tag_descriptor_ok:
  assumes "documented_env env" and "store_ok env ar" and "tag_descriptor env repo ar d reference = Ok ar'"
  shows "store_ok env ar'"
proof -
  obtain idx where idx: "blob_exists ar d" "apply_tag env repo (ar_index ar) d reference = Ok idx"
      "set_index ar idx = Ok ar'"
    using assms(3) by (auto simp: tag_descriptor_def bind_outcome_Ok_iff split: if_splits)
  have "ce_digest_ok env (od_digest d)"
    using blob_exists_digest [OF assms(1) _ idx(1)] assms(2) by (simp add: store_ok_def)
  then have "index_ok env idx" using apply_tag_ok [OF _ _ idx(2)] assms(2) by (simp add: store_ok_def)
  then show ?thesis by (rule set_index_store_ok [OF assms(2) _ idx(3)])
qed

lemma untag_ok:
  assumes s: "store_ok env ar" and u: "untag env repo ar reference = Ok ar'"
  shows "store_ok env ar'"
proof -
  let ?tag = "case parse_reference (ce_checks env) reference of
      Ok r \<Rightarrow> if lr_tag r \<noteq> [] then lr_tag r else reference | _ \<Rightarrow> reference"
  have "untag env repo ar reference = (case remove_tag repo ?tag (ar_index ar) of
      Ok idx \<Rightarrow> set_index ar idx | _ \<Rightarrow> Fail Not_Found)"
    by (simp only: untag_def Let_def)
  with u obtain idx where idx: "remove_tag repo ?tag (ar_index ar) = Ok idx" "set_index ar idx = Ok ar'"
    by (cases "remove_tag repo ?tag (ar_index ar)") auto
  have "index_ok env idx" using index_ok_remove [OF _ idx(1)] s by (simp add: store_ok_def)
  then show ?thesis by (rule set_index_store_ok [OF s _ idx(2)])
qed

lemma push_streaming_ok:
  assumes e: "documented_env env" and s: "store_ok env ar"
    and p: "push_streaming env ar d content = Ok (ar', d')"
  shows "store_ok env ar'"
proof -
  have "\<exists>dig file. ce_verifies env dig content \<and> to_blob_file_name env dig = Ok file
      \<and> publish_blob ar file content = Ok ar'"
    using p documented_digest_of [OF e, of content]
    by (auto simp: push_streaming_def open_digesting_def read_digesting_def bind_outcome_Ok_iff stage_blob_def
        split: if_splits)
  then show ?thesis
    using s blobs_ok_put [of env "ar_blobs ar"]
    by (auto simp: publish_blob_def store_ok_def split: if_splits)
qed

lemma store_step_ok: "store_step env ar ar' \<Longrightarrow> documented_env env \<Longrightarrow> store_ok env ar \<Longrightarrow> store_ok env ar'"
  by (erule store_stepE) (blast intro: push_ok push_streaming_ok tag_descriptor_ok untag_ok)+

lemma store_reachable_ok: "store_reachable env ar \<Longrightarrow> documented_env env \<Longrightarrow> store_ok env ar"
proof (induction rule: store_reachable.induct)
  case (store_empty ar env)
  then show ?case by (auto simp: store_ok_def blobs_ok_def index_ok_def new_index_def intro: coherentI)
qed (blast intro: store_step_ok)

lemma blobs_ok_get: 
  assumes "documented_env env" and "blobs_ok env (ar_blobs ar)" and "get_blob env ar d = Ok c"
  shows "ce_verifies env d c"
proof -
  obtain f where f: "to_blob_file_name env d = Ok f" "map_of (ar_blobs ar) f = Some c"
    using assms(3) by (auto simp: get_blob_Ok_iff)
  then obtain d' where d': "to_blob_file_name env d' = Ok f" "ce_verifies env d' c"
    using assms(2) map_of_SomeD [OF f(2)] by (auto simp: blobs_ok_def)
  then show ?thesis using file_digest(2) [OF assms(1)] f(1) by metis
qed

section \<open>Tags resolve\<close>

lemma parsed_tag:
  assumes "parse_reference c s = Ok r"
  shows "CHR '':'' \<notin> set (lr_tag r)"
  using parse_parsed [OF assms] by (auto simp: parsed_def)

text \<open>The reference that stored a tagged entry is looked up by that tag.\<close>

lemma resolve_key_tag:
  assumes "documented_env env" and "artifact_for_reference env repo d reference = Ok a" and "am_tag a \<noteq> []"
  shows "resolve_key env reference = Ok (am_tag a)" and "CHR '':'' \<notin> set (am_tag a)"
  using assms(2,3) documented_tag [OF assms(1)] tag_not_digest [OF assms(1)]
    parsed_tag [of "ce_checks env" reference]
  by (auto simp: artifact_for_reference_def resolve_key_def entry_for_def reference_or_tag_def Let_def
      split: outcome.splits if_splits)

lemma digest_has_colon: "documented_env env \<Longrightarrow> ce_digest_ok env d \<Longrightarrow> CHR '':'' \<in> set d"
  using documented_digest [of env d] by fastforce

lemma find_tag:
  assumes "documented_env env" and "index_ok env idx" and "CHR '':'' \<notin> set key"
  shows "find (\<lambda>a. am_repository a = repo \<and> (am_tag a = key \<or> am_digest a = key)) idx = find (carries repo key) idx"
proof (rule find_cong)
  fix a assume "a \<in> set idx"
  then have "am_digest a \<noteq> key"
    using assms digest_has_colon [OF assms(1), of "am_digest a"] by (auto simp: index_ok_def)
  then show "(am_repository a = repo \<and> (am_tag a = key \<or> am_digest a = key)) = carries repo key a"
    by (simp add: carries_def)
qed simp

lemma resolve_in_tag:
  assumes "documented_env env" and "index_ok env idx" and "resolve_key env reference = Ok key"
    and "CHR '':'' \<notin> set key"
  shows "resolve_in env repo ar idx reference = (case find (carries repo key) idx of
      Some a \<Rightarrow> bind_outcome (get_blob env ar (am_digest a)) (\<lambda>content.
         Ok (no_descriptor\<lparr>od_media_type := if am_media_type a = [] then image_manifest_type else am_media_type a,
               od_digest := am_digest a, od_size := int (length content)\<rparr>))
    | None \<Rightarrow> Fail Not_Found)"
proof -
  have "\<not> ce_digest_ok env key" using digest_has_colon [OF assms(1)] assms(4) by blast
  then have "get_blob env ar key = Fail (Invalid_Digest key)" by (simp add: get_blob_def to_blob_file_name_def)
  then show ?thesis
    by (simp add: resolve_in_def assms(3) find_tag [OF assms(1,2,4)] split: option.split)
qed

lemma tag_descriptor_Ok:
  assumes "tag_descriptor env repo ar d reference = Ok ar'" and "artifact_for_reference env repo d reference = Ok a"
  shows "blob_exists ar d" and "ar_blobs ar' = ar_blobs ar" and "ar_index ar' = add_artifact a (ar_index ar)"
  using assms
  by (auto simp: tag_descriptor_def apply_tag_def set_index_def bind_outcome_Ok_iff split: if_splits)

lemma get_blob_cong: "ar_blobs ar' = ar_blobs ar \<Longrightarrow> get_blob env ar' d = get_blob env ar d"
  by (simp add: get_blob_def)

text \<open>C21: In every archive reached by pushes, tags and untags of its repositories, failed ones
  included, a fetched blob verifies against the digest it was asked for.\<close>

theorem fetched_content_verifies:
  assumes "documented_env env" and "store_reachable env ar" and "fetch_blob env ar d = Ok content"
  shows "ce_verifies env (od_digest d) content"
  using blobs_ok_get [OF assms(1), of ar "od_digest d" content] store_reachable_ok [OF assms(2,1)] assms(3)
  by (simp add: store_ok_def fetch_blob_def)

text \<open>C20: In an archive reached by pushes, tags and untags, tagging a descriptor under a reference that stands for a tag makes the reference resolve
  to the digest of the descriptor, and every reference that stands for another tag, or for the tag in
  another repository, resolves as before.\<close>

theorem tag_then_resolve:
  assumes e: "documented_env env" and reach: "store_reachable env ar"
    and tag: "tag_descriptor env repo ar d reference = Ok ar'"
    and a: "artifact_for_reference env repo d reference = Ok a" and t: "am_tag a \<noteq> []"
  shows "\<exists>r. resolve_reference env repo ar' reference = Ok r \<and> od_digest r = od_digest d
    \<and> (\<forall>repo2 ref2 t2. resolve_key env ref2 = Ok t2 \<longrightarrow> rc_tag_ok (ce_checks env) t2
        \<longrightarrow> (repo2, t2) \<noteq> (repo, am_tag a)
        \<longrightarrow> resolve_reference env repo2 ar' ref2 = resolve_reference env repo2 ar ref2)"
proof -
  note ok = store_reachable_ok [OF reach e] and ok' = store_reachable_ok [OF store_next [OF reach step_tag [OF tag]] e]
  note tagged = tag_descriptor_Ok [OF tag a]
  obtain tg where ent: "a = entry_for repo tg d" using artifact_for_reference_entry [OF a] by blast
  then have own: "am_repository a = repo" "am_digest a = od_digest d" by (simp_all add: entry_for_def)
  obtain x where x: "find (carries repo (am_tag a)) (ar_index ar') = Some x" "am_digest x = od_digest d"
    using add_artifact_own [OF t, of "ar_index ar"] tagged(3) own by auto
  obtain c where "get_blob env ar' (od_digest d) = Ok c"
    using blob_exists_digest [OF e _ tagged(1)] ok get_blob_cong [OF tagged(2)] by (auto simp: store_ok_def)
  then obtain r where "resolve_reference env repo ar' reference = Ok r" "od_digest r = od_digest d"
    using ok' x resolve_in_tag [OF e _ resolve_key_tag [OF e a t]]
    by (auto simp: resolve_reference_def store_ok_def)
  moreover have others: "resolve_reference env repo2 ar' ref2 = resolve_reference env repo2 ar ref2"
    if k: "resolve_key env ref2 = Ok t2" and tag2: "rc_tag_ok (ce_checks env) t2" and ne: "(repo2, t2) \<noteq> (repo, am_tag a)"
    for repo2 ref2 t2
  proof -
    have t2: "t2 \<noteq> []" "CHR '':'' \<notin> set t2" using documented_tag [OF e tag2] by auto
    have "index_ok env (ar_index ar)" and "index_ok env (ar_index ar')"
      using ok ok' by (simp_all add: store_ok_def)
    note r = this [THEN resolve_in_tag [OF e _ k t2(2)]]
    have same: "find (carries repo2 t2) (ar_index ar') = find (carries repo2 t2) (ar_index ar)"
      unfolding tagged(3) by (rule add_artifact_other) (use t2 ne own in auto)
    show ?thesis unfolding resolve_reference_def r same get_blob_cong [OF tagged(2)] ..
  qed
  ultimately show ?thesis by (intro exI [of _ r] conjI allI impI) (simp_all add: others)
qed

section \<open>Referrers are listed\<close>

lemma no_scheme: "CHR ''/'' \<notin> set s \<Longrightarrow> get_scheme s = ([], s) \<and> split_registry s = (True, [], s)"
proof -
  assume s: "CHR ''/'' \<notin> set s"
  then have "cut_str ''://'' s = None" by (auto simp: cut_str_None_iff)
  then show ?thesis using s by (simp add: get_scheme_def split_registry_def cut_at_absent)
qed

lemma digest_reference:
  assumes "documented_env env" and "ce_digest_ok env d"
  shows "parse_reference (ce_checks env) d
    = Ok \<lparr>lr_scheme = [], lr_registry = [], lr_repository = [], lr_reference = d, lr_tag = []\<rparr>"
proof -
  obtain a e where d: "d = a @ CHR '':'' # e" "a \<noteq> []" "rc_algorithm (ce_checks env) a"
      "set (a @ e) \<inter> {CHR '':'', CHR ''/'', CHR ''@'', CHR ''.''} = {}"
    using documented_digest [OF assms] .
  then have "get_scheme d = ([], d)" "split_registry d = (True, [], d)" using no_scheme [of d] by auto
  moreover have "split_path (ce_checks env) True d = Ok ([], d, [])"
    using d by (auto simp: split_path_def digest_prefixed_def cut_at_append cut_at_absent)
  ultimately show ?thesis
    using documented_digest_reference [OF assms] by (simp add: parse_reference_def Let_def validate_reference_def)
qed

lemma artifact_for_digest:
  assumes "documented_env env" and "ce_digest_ok env (od_digest d)"
  shows "artifact_for_reference env repo d (od_digest d) = Ok (entry_for repo [] d)"
  using digest_reference [OF assms] digest_not_tag [OF assms] documented_digest_reference [OF assms]
  by (simp add: artifact_for_reference_def Let_def)

text \<open>The tag of the referrers of a subject: no separators, so it is looked up as it is.\<close>

lemma referrers_tag:
  assumes "documented_env env" and "build_referrers_tag env s = Ok tag"
  shows "set tag \<inter> {CHR '':'', CHR ''/'', CHR ''@''} = {} \<and> tag \<noteq> []"
proof -
  have ok: "ce_digest_ok env (od_digest s)"
    using assms(2) by (simp add: build_referrers_tag_def split: if_splits)
  obtain a e where d: "od_digest s = a @ CHR '':'' # e" "a \<noteq> []"
      "set (a @ e) \<inter> {CHR '':'', CHR ''/'', CHR ''@'', CHR ''.''} = {}"
    using documented_digest [OF assms(1) ok] .
  then have "cut_at CHR '':'' (od_digest s) = Some (a, e)" by (simp add: cut_at_append)
  with assms(2) ok d(2,3) show ?thesis by (auto simp: build_referrers_tag_def)
qed

lemma parse_plain:
  assumes "set s \<inter> {CHR '':'', CHR ''/'', CHR ''@''} = {}" and "parse_reference c s = Ok r"
  shows "lr_reference r = [] \<and> lr_tag r = []"
proof -
  have "get_scheme s = ([], s)" "split_registry s = (True, [], s)" using assms(1) no_scheme [of s] by auto
  moreover have "split_path c True s = Ok (s, [], [])"
    using assms(1) by (simp add: split_path_def cut_at_absent)
  ultimately show ?thesis
    using assms(2) by (auto simp: parse_reference_def Let_def bind_outcome_Ok_iff)
qed

lemma documented_empty:
  "documented_env env \<Longrightarrow> \<not> rc_tag_ok (ce_checks env) [] \<and> \<not> rc_digest_ok (ce_checks env) []"
  unfolding documented_env_def Let_def by (elim conjE) (intro conjI)

lemma resolve_key_plain:
  assumes "documented_env env" and "set s \<inter> {CHR '':'', CHR ''/'', CHR ''@''} = {}"
    and "resolve_key env s = Ok key"
  shows "key = s"
  using assms(3) parse_plain [OF assms(2), of "ce_checks env"] documented_empty [OF assms(1)]
  by (auto simp: resolve_key_def reference_or_tag_def Let_def split: outcome.splits if_splits)

lemma artifact_for_plain:
  assumes "documented_env env" and "set s \<inter> {CHR '':'', CHR ''/'', CHR ''@''} = {}"
    and "artifact_for_reference env repo d s = Ok a"
  shows "a = entry_for repo s d \<and> rc_tag_ok (ce_checks env) s"
proof -
  have "\<not> rc_digest_ok (ce_checks env) s"
    using assms(1,2) digest_has_colon [of env s] by (auto simp: documented_env_def Let_def)
  then show ?thesis
    using assms(3) parse_plain [OF assms(2), of "ce_checks env"] documented_empty [OF assms(1)]
    by (auto simp: artifact_for_reference_def Let_def split: outcome.splits if_splits)
qed

lemma clean_referrers_spec:
  "clean_referrers seen rs = (us, seen', ch) \<Longrightarrow>
     set seen' = set seen \<union> referrer_key ` set us
     \<and> referrer_key ` set rs - {referrer_key no_descriptor} \<subseteq> set seen'
     \<and> (\<not> ch \<longrightarrow> us = rs) \<and> length us \<le> length rs \<and> (ch \<longrightarrow> length us < length rs)
     \<and> distinct (map referrer_key us) \<and> referrer_key ` set us \<inter> set seen = {}
     \<and> referrer_key no_descriptor \<notin> referrer_key ` set us"
proof (induction rs arbitrary: seen us seen' ch)
  case (Cons r rs)
  show ?case
  proof (cases "referrer_key r = referrer_key no_descriptor \<or> referrer_key r \<in> set seen")
    case True
    then obtain ch' where "clean_referrers seen rs = (us, seen', ch')" "ch"
      using Cons.prems by (auto split: prod.splits)
    from Cons.IH [OF this(1)] this(2) True show ?thesis by auto
  next
    case False
    then obtain vs where "clean_referrers (referrer_key r # seen) rs = (vs, seen', ch)" "us = r # vs"
      using Cons.prems by (auto split: prod.splits)
    from Cons.IH [OF this(1)] this(2) False show ?thesis by auto
  qed
qed simp

text \<open>Updating a list of referrers keeps every proper entry, lists the new one, and reports no
  change only for a list that already did.\<close>

lemma clean_idem:
  "distinct (map referrer_key us) \<Longrightarrow> referrer_key no_descriptor \<notin> referrer_key ` set us
     \<Longrightarrow> referrer_key ` set us \<inter> set seen = {} \<Longrightarrow> \<exists>seen'. clean_referrers seen us = (us, seen', False)"
proof (induction us arbitrary: seen)
  case (Cons u us)
  have "\<exists>seen'. clean_referrers (referrer_key u # seen) us = (us, seen', False)"
    by (rule Cons.IH) (use Cons.prems in auto)
  with Cons.prems show ?case by auto
qed simp

lemma clean_referrers_subset: "clean_referrers seen rs = (us, seen', ch) \<Longrightarrow> set us \<subseteq> set rs"
  by (induction rs arbitrary: seen us seen' ch) (fastforce split: if_splits prod.splits)+

lemma add_referrer_spec:
  assumes "add_referrer refs r = (updated, changed)"
  shows "referrer_key ` set refs - {referrer_key no_descriptor} \<subseteq> referrer_key ` set updated"
    and "referrer_key r \<in> referrer_key ` set updated" and "\<not> changed \<Longrightarrow> updated = refs"
    and "changed \<Longrightarrow> referrer_key r \<noteq> referrer_key no_descriptor \<Longrightarrow> map referrer_key updated \<noteq> map referrer_key refs"
    and "referrer_key r \<notin> referrer_key ` set refs \<Longrightarrow> changed"
proof -
  obtain us seen ch where c: "clean_referrers [] refs = (us, seen, ch)" by (cases "clean_referrers [] refs")
  note spec = clean_referrers_spec [OF c]
  show "referrer_key ` set refs - {referrer_key no_descriptor} \<subseteq> referrer_key ` set updated"
    and "referrer_key r \<in> referrer_key ` set updated" and "\<not> changed \<Longrightarrow> updated = refs"
    using assms c spec by (auto simp: add_referrer_def split: if_splits)
  have "set us \<subseteq> set refs" by (rule clean_referrers_subset [OF c])
  with assms c spec show "changed" if "referrer_key r \<notin> referrer_key ` set refs"
    using that by (auto simp: add_referrer_def split: if_splits)
  show "map referrer_key updated \<noteq> map referrer_key refs" if ch: "changed" and r: "referrer_key r \<noteq> referrer_key no_descriptor"
  proof
    assume eq: "map referrer_key updated = map referrer_key refs"
    have "distinct (map referrer_key updated)" and "referrer_key no_descriptor \<notin> referrer_key ` set updated"
      using assms c spec r by (auto simp: add_referrer_def split: if_splits)
    then have "distinct (map referrer_key refs)" and "referrer_key no_descriptor \<notin> set (map referrer_key refs)"
      unfolding eq [symmetric] by auto
    then obtain seen' where "clean_referrers [] refs = (refs, seen', False)" using clean_idem [of refs "[]"] eq by auto
    with c have "us = refs" "\<not> ch" by auto
    moreover have "length updated = length refs" using eq by (metis length_map)
    ultimately show False using assms ch c by (auto simp: add_referrer_def split: if_splits)
  qed
qed

lemma push_referrer_Ok:
  assumes "push env repo ar d content = (ar', Ok ())" and "oci_compliant (od_media_type d)"
    and "referrer_of_push env d content = (r, Some s)"
  obtains ar1 idx ar2 idx' where "save_blob env ar d content = Ok ar1"
    and "apply_tag env repo (ar_index ar1) d (od_digest d) = Ok idx"
    and "update_referrers_index env repo ar1 idx s r = (ar2, Ok idx')" and "ar' = ar2\<lparr>ar_index := idx'\<rparr>"
  using assms
  by (auto simp: push_def push_manifest_def finish_push_def set_index_def
      split: outcome.splits prod.splits if_splits)

lemma update_referrers_Ok:
  assumes "update_referrers_index env repo ar idx s r = (ar2, Ok idx')"
  obtains tag old refs updated where "build_referrers_tag env s = Ok tag"
    and "referrers_from_index env repo ar idx tag = Ok (old, refs)"
    and "add_referrer refs r = (updated, False)" and "ar2 = ar" and "idx' = idx"
  | tag old refs updated new bytes ar1 where "build_referrers_tag env s = Ok tag"
    and "referrers_from_index env repo ar idx tag = Ok (old, refs)"
    and "add_referrer refs r = (updated, True)" and "generate_index env updated = Ok (new, bytes)"
    and "save_blob env ar new bytes = Ok ar1" and "ar2 = drop_prior_index env ar1 old"
    and "apply_tag env repo (drop_prior_tag repo tag idx old) new tag = Ok idx'"
proof -
  let ?read = "bind_outcome (build_referrers_tag env s) (\<lambda>tag.
      bind_outcome (referrers_from_index env repo ar idx tag) (\<lambda>(old, refs). Ok (tag, old, refs)))"
  have "is_ok ?read"
    using assms unfolding update_referrers_index_def by (cases ?read) auto
  then have "\<exists>tag old refs. build_referrers_tag env s = Ok tag
      \<and> referrers_from_index env repo ar idx tag = Ok (old, refs)"
    by (auto simp: bind_outcome_Ok_iff is_ok_iff)
  then obtain tag old refs where b: "build_referrers_tag env s = Ok tag"
      "referrers_from_index env repo ar idx tag = Ok (old, refs)" by blast
  obtain updated changed where u: "add_referrer refs r = (updated, changed)" by (cases "add_referrer refs r")
  show thesis
  proof (cases changed)
    case False
    have "ar2 = ar" "idx' = idx" using False assms b u by (simp_all add: update_referrers_index_def)
    then show thesis using that(1) [OF b] u False by simp
  next
    case True
    then have "store_referrers env repo ar idx tag old updated = (ar2, Ok idx')"
      using assms b u by (simp add: update_referrers_index_def)
    then obtain new bytes ar1 where g: "generate_index env updated = Ok (new, bytes)"
        "save_blob env ar new bytes = Ok ar1" "ar2 = drop_prior_index env ar1 old"
        "apply_tag env repo (drop_prior_tag repo tag idx old) new tag = Ok idx'"
      by (auto simp: store_referrers_def split: outcome.splits)
    show thesis using that(2) [OF b _ g(1,2,3,4)] u True by simp
  qed
qed

text \<open>The referrers under a tag are those of the index the tag points to.\<close>

lemma referrers_from_index_cong:
  "ar_blobs ar' = ar_blobs ar \<Longrightarrow> referrers_from_index env repo ar' idx tag = referrers_from_index env repo ar idx tag"
  unfolding referrers_from_index_def fetch_reference_def resolve_in_def get_blob_def by (simp only:)

lemma referrers_from_indexI:
  assumes "documented_env env" and "index_ok env idx" and "CHR '':'' \<notin> set tag" and "resolve_key env tag = Ok tag"
    and "find (carries repo tag) idx = Some a" and "get_blob env ar (am_digest a) = Ok c"
    and "ce_index env c = Some ix"
  shows "\<exists>old. referrers_from_index env repo ar idx tag = Ok (old, ix_manifests ix)"
  using assms(5-) by (simp add: referrers_from_index_def fetch_reference_def
      resolve_in_tag [OF assms(1,2,4,3)])

lemma referrers_from_index_Ok:
  assumes e: "documented_env env" and i: "index_ok env idx" and tag: "set tag \<inter> {CHR '':'', CHR ''/'', CHR ''@''} = {}"
    and r: "referrers_from_index env repo ar idx tag = Ok (old, refs)"
  shows "resolve_key env tag = Ok tag" and "refs = [] \<and> old = no_descriptor
    \<or> (\<exists>a c ix. find (carries repo tag) idx = Some a \<and> get_blob env ar (am_digest a) = Ok c
         \<and> ce_index env c = Some ix \<and> refs = ix_manifests ix \<and> od_digest old = am_digest a)"
proof -
  obtain key where key: "resolve_key env tag = Ok key"
    using r by (cases "resolve_key env tag")
      (auto simp: referrers_from_index_def fetch_reference_def resolve_in_def resolve_key_def Let_def
        split: outcome.splits if_splits)
  then show k: "resolve_key env tag = Ok tag" using resolve_key_plain [OF e tag] by simp
  have colon: "CHR '':'' \<notin> set tag" using tag by simp
  show "refs = [] \<and> old = no_descriptor
    \<or> (\<exists>a c ix. find (carries repo tag) idx = Some a \<and> get_blob env ar (am_digest a) = Ok c
         \<and> ce_index env c = Some ix \<and> refs = ix_manifests ix \<and> od_digest old = am_digest a)"
  proof (cases "find (carries repo tag) idx")
    case None
    with r show ?thesis
      by (simp add: referrers_from_index_def fetch_reference_def resolve_in_tag [OF e i k colon])
  next
    case (Some a)
    with r show ?thesis
      by (cases "get_blob env ar (am_digest a)")
        (auto simp: referrers_from_index_def fetch_reference_def resolve_in_tag [OF e i k colon]
          split: option.splits if_splits)
  qed
qed

text \<open>No content at hand collides with an encoded index it is not.\<close>

definition no_index_collision :: "oci_env \<Rightarrow> string set \<Rightarrow> bool" where
  "no_index_collision env contents \<longleftrightarrow> (\<forall>ds b. \<forall>c \<in> contents. ce_encode env ds = Some b
     \<longrightarrow> ce_verifies env (ce_digest_of env b) c \<longrightarrow> c = b)"

lemma save_blob_contents:
  "save_blob env ar d content = Ok ar' \<Longrightarrow> snd ` set (ar_blobs ar') \<subseteq> insert content (snd ` set (ar_blobs ar))"
  using save_blob_Ok [of env ar d content ar'] set_mput by (fastforce split: if_splits)

lemma get_blob_contents: "get_blob env ar d = Ok c \<Longrightarrow> c \<in> snd ` set (ar_blobs ar)"
  by (force simp: get_blob_Ok_iff dest: map_of_SomeD)

lemma get_blob_drop:
  assumes "documented_env env" and "get_blob env ar d = Ok c" and "d \<noteq> od_digest old"
  shows "get_blob env (drop_prior_index env ar old) d = Ok c"
proof -
  have "map_of (mdel f (ar_blobs ar)) f' = map_of (ar_blobs ar) f'"
    if "to_blob_file_name env (od_digest old) = Ok f" "to_blob_file_name env d = Ok f'" for f f'
    using file_digest(2) [OF assms(1) that(1)] file_digest(2) [OF assms(1) that(2)] assms(3) by auto
  then show ?thesis
    using assms(2) delete_blob_Ok [of env ar "od_digest old"]
    by (fastforce simp: drop_prior_index_def get_blob_Ok_iff split: outcome.splits)
qed

text \<open>The updated index is what the tag points to afterwards.\<close>

lemma stored_referrers:
  assumes e: "documented_env env" and b: "blobs_ok env (ar_blobs ar)" and i: "index_ok env idx"
    and coll: "no_index_collision env (snd ` set (ar_blobs ar))"
    and tag: "set tag \<inter> {CHR '':'', CHR ''/'', CHR ''@''} = {}" "tag \<noteq> []"
    and refs: "referrers_from_index env repo ar idx tag = Ok (old, refs)" and ne: "map referrer_key updated \<noteq> map referrer_key refs"
    and g: "generate_index env updated = Ok (new, bytes)" and s: "save_blob env ar new bytes = Ok ar1"
    and t: "apply_tag env repo (drop_prior_tag repo tag idx old) new tag = Ok idx'"
  shows "\<exists>old' us. referrers_from_index env repo (drop_prior_index env ar1 old) idx' tag = Ok (old', us)
    \<and> map referrer_key us = map referrer_key updated"
proof -
  have colon: "CHR '':'' \<notin> set tag" using tag by simp
  note new = generate_index_Ok [OF g]
  obtain a where a: "artifact_for_reference env repo new tag = Ok a" "idx' = add_artifact a (drop_prior_tag repo tag idx old)"
    using t by (auto simp: apply_tag_def bind_outcome_Ok_iff)
  have ent: "a = entry_for repo tag new" using artifact_for_plain [OF e tag(1) a(1)] by simp
  obtain x where x: "find (carries repo tag) idx' = Some x" "am_digest x = od_digest new"
    using add_artifact_own [of a "drop_prior_tag repo tag idx old"] tag(2) by (auto simp: a(2) ent entry_for_def)
  have i': "index_ok env idx'"
    using apply_tag_ok [OF drop_prior_tag_ok [OF i] _ t] save_blob_Ok [OF s] by blast
  obtain c where c: "get_blob env ar1 (od_digest new) = Ok c" using save_blob_get [OF s] by blast
  have collide: "c' = bytes" if "get_blob env ar (od_digest new) = Ok c'" for c'
    using coll blobs_ok_get [OF e b that] get_blob_contents [OF that] new
    by (auto simp: no_index_collision_def)
  have "c = bytes"
  proof (cases "c \<in> snd ` set (ar_blobs ar)")
    case True
    then show ?thesis
      using coll blobs_ok_get [OF e save_blob_ok [OF b s] c] new by (auto simp: no_index_collision_def)
  next
    case False
    then show ?thesis using get_blob_contents [OF c] save_blob_contents [OF s] by auto
  qed
  moreover have "od_digest new \<noteq> od_digest old"
  proof
    assume same: "od_digest new = od_digest old"
    have "CHR '':'' \<in> set (od_digest new)"
      using new documented_digest_of [OF e, of bytes] digest_has_colon [OF e] by simp
    then have "od_digest new \<noteq> []" by auto
    then obtain c' ix where "get_blob env ar (od_digest new) = Ok c'" "ce_index env c' = Some ix" "refs = ix_manifests ix"
      using referrers_from_index_Ok(2) [OF e i tag(1) refs] same by (auto simp: no_descriptor_def)
    then show False using collide documented_codec [OF e, of updated bytes] new ne by fastforce
  qed
  ultimately have "get_blob env (drop_prior_index env ar1 old) (am_digest x) = Ok bytes"
    using get_blob_drop [OF e c] x(2) by simp
  moreover obtain ix where ix: "ce_index env bytes = Some ix" "map referrer_key (ix_manifests ix) = map referrer_key updated"
    using documented_codec [OF e, of updated bytes] new by blast
  ultimately show ?thesis
    using referrers_from_indexI [OF e i' colon referrers_from_index_Ok(1) [OF e i tag(1) refs] x(1)] by metis
qed

text \<open>What was listed before the push is what the update of the list starts from.\<close>

lemma listed_before_push:
  assumes e: "documented_env env" and s: "store_ok env ar" and save: "save_blob env ar d content = Ok ar1"
    and idx: "apply_tag env repo (ar_index ar1) d (od_digest d) = Ok idx"
    and tag: "set tag \<inter> {CHR '':'', CHR ''/'', CHR ''@''} = {}" "tag \<noteq> []"
    and before: "referrers_from_index env repo ar (ar_index ar) tag = Ok (old0, refs0)"
    and start: "referrers_from_index env repo ar1 idx tag = Ok (old, refs)"
  shows "refs0 = [] \<or> refs0 = refs"
proof (rule disjCI)
  assume "refs0 \<noteq> refs"
  note sb = save_blob_Ok [OF save]
  have i0: "index_ok env (ar_index ar)" and b0: "blobs_ok env (ar_blobs ar)" using s by (simp_all add: store_ok_def)
  have i1: "index_ok env idx" using apply_tag_ok [OF _ _ idx] sb i0 by simp
  have colon: "CHR '':'' \<notin> set tag" using tag by simp
  have "idx = add_artifact (entry_for repo [] d) (ar_index ar)"
    using idx artifact_for_digest [OF e, of d repo] sb by (auto simp: apply_tag_def bind_outcome_Ok_iff)
  then have find: "find (carries repo tag) idx = find (carries repo tag) (ar_index ar)"
    using add_artifact_other [OF tag(2), of repo "entry_for repo [] d"] tag(2) by (simp add: entry_for_def)
  show "refs0 = []"
  proof (rule ccontr)
    assume "refs0 \<noteq> []"
    then obtain a c ix where a: "find (carries repo tag) (ar_index ar) = Some a"
        "get_blob env ar (am_digest a) = Ok c" "ce_index env c = Some ix" "refs0 = ix_manifests ix"
      using referrers_from_index_Ok(2) [OF e i0 tag(1) before] by auto
    then have c: "get_blob env ar1 (am_digest a) = Ok c" using save_blob_get [OF save] by blast
    have "find (carries repo tag) idx = Some a" using find a(1) by simp
    from referrers_from_indexI [OF e i1 colon referrers_from_index_Ok(1) [OF e i0 tag(1) before] this c a(3)]
    show False using start a(4) \<open>refs0 \<noteq> refs\<close> by simp
  qed
qed

lemma referrers_Ok_iff:
  "referrers env repo ar s [] = Ok l \<longleftrightarrow> (\<exists>tag old. build_referrers_tag env s = Ok tag
     \<and> referrers_from_index env repo ar (ar_index ar) tag = Ok (old, l))"
  by (auto simp: referrers_def filter_referrers_def bind_outcome_Ok_iff)

text \<open>C11: After a successful push of a manifest that names a subject, the referrers of the subject
  in that repository list the manifest, and keep every referrer that was listed before; in an archive
  reached by pushes, tags and untags, none of whose contents has the digest of an index it is not.\<close>

theorem pushed_referrer_listed:
  assumes e: "documented_env env" and reach: "store_reachable env ar"
    and push: "push env repo ar d content = (ar', Ok ())" and m: "oci_compliant (od_media_type d)"
    and ref: "referrer_of_push env d content = (r, Some s)"
    and coll: "no_index_collision env (insert content (snd ` set (ar_blobs ar)))"
  shows "\<exists>l. referrers env repo ar' s [] = Ok l \<and> referrer_key r \<in> referrer_key ` set l
    \<and> (\<forall>l0. referrers env repo ar s [] = Ok l0
         \<longrightarrow> referrer_key ` set l0 - {referrer_key no_descriptor} \<subseteq> referrer_key ` set l)"
proof -
  have ok: "store_ok env ar" by (rule store_reachable_ok [OF reach e])
  obtain ar1 idx ar2 idx' where p: "save_blob env ar d content = Ok ar1"
      "apply_tag env repo (ar_index ar1) d (od_digest d) = Ok idx"
      "update_referrers_index env repo ar1 idx s r = (ar2, Ok idx')" "ar' = ar2\<lparr>ar_index := idx'\<rparr>"
    using push_referrer_Ok [OF push m ref] .
  note sb = save_blob_Ok [OF p(1)]
  have b1: "blobs_ok env (ar_blobs ar1)" using save_blob_ok [OF _ p(1)] ok by (simp add: store_ok_def)
  have i1: "index_ok env idx" using apply_tag_ok [OF _ _ p(2)] sb ok by (simp add: store_ok_def)
  have key: "referrer_key r = referrer_key d"
    using ref by (auto simp: referrer_of_push_def referrer_from_manifest_def referrer_key_def
        split: outcome.splits option.splits if_splits)
  have "od_digest d \<noteq> []" using digest_has_colon [OF e, of "od_digest d"] sb by auto
  then have proper: "referrer_key r \<noteq> referrer_key no_descriptor"
    by (simp add: key) (simp add: referrer_key_def no_descriptor_def)
  have coll1: "no_index_collision env (snd ` set (ar_blobs ar1))"
    using coll save_blob_contents [OF p(1)] unfolding no_index_collision_def by blast
  obtain tag old refs updated changed old' us where u: "build_referrers_tag env s = Ok tag"
      "referrers_from_index env repo ar1 idx tag = Ok (old, refs)" "add_referrer refs r = (updated, changed)"
      "referrers_from_index env repo ar2 idx' tag = Ok (old', us)" "map referrer_key us = map referrer_key updated"
  proof (cases rule: update_referrers_Ok [OF p(3), case_names same changed])
    case (same tag old refs updated)
    then show thesis using that [of tag old refs updated False old updated] add_referrer_spec(3) [OF same(3)] by simp
  next
    case (changed tag old refs updated new bytes ar3)
    have "map referrer_key updated \<noteq> map referrer_key refs" using add_referrer_spec(4) [OF changed(3)] proper by simp
    then show thesis
      using stored_referrers [OF e b1 i1 coll1 _ _ changed(2) _ changed(4,5,7)] referrers_tag [OF e changed(1)]
        changed that by blast
  qed
  have "referrers_from_index env repo ar' (ar_index ar') tag = Ok (old', us)"
    using u(4) referrers_from_index_cong [of ar' ar2] by (simp add: p(4))
  have keys: "referrer_key ` set us = referrer_key ` set updated" using u(5) by (metis list.set_map)
  from \<open>referrers_from_index env repo ar' (ar_index ar') tag = Ok (old', us)\<close>
  have now: "referrers env repo ar' s [] = Ok us" using u(1) by (auto simp: referrers_Ok_iff)
  have "referrer_key ` set l0 - {referrer_key no_descriptor} \<subseteq> referrer_key ` set us"
    if l0: "referrers env repo ar s [] = Ok l0" for l0
  proof -
    obtain old0 where "referrers_from_index env repo ar (ar_index ar) tag = Ok (old0, l0)"
      using l0 u(1) by (auto simp: referrers_Ok_iff)
    then have "l0 = [] \<or> l0 = refs"
      using listed_before_push [OF e ok p(1,2) _ _ _ u(2)] referrers_tag [OF e u(1)] by blast
    then show ?thesis using add_referrer_spec(1) [OF u(3)] by (auto simp: keys)
  qed
  then show ?thesis using now add_referrer_spec(2) [OF u(3)] by (auto simp: keys)
qed

section \<open>Index blobs are shared\<close>

lemma find_delete_other:
  "delete_first P xs = Some ys \<Longrightarrow> (\<And>x. P x \<Longrightarrow> \<not> Q x) \<Longrightarrow> find Q ys = find Q xs"
  by (induction xs arbitrary: ys) (auto split: if_splits)

lemma find_drop_prior_tag:
  "(repo', tag') \<noteq> (repo, tag) \<Longrightarrow> find (carries repo' tag') (drop_prior_tag repo tag idx old) = find (carries repo' tag') idx"
  using find_delete_other [of "carries repo tag" idx _ "carries repo' tag'"]
  by (auto simp: drop_prior_tag_def remove_tag_def carries_def split: option.splits)

lemma drop_prior_index_deletes:
  assumes "ar_writable ar" and "od_digest old \<noteq> []" and "get_blob env ar (od_digest old) = Ok c"
  shows "get_blob env (drop_prior_index env ar old) (od_digest old) = Fail Blob_Not_Found"
proof -
  have "referrer_key old \<noteq> referrer_key no_descriptor" using assms(2) by (simp add: referrer_key_def no_descriptor_def)
  then show ?thesis
    using assms(1,3)
    by (auto simp: drop_prior_index_def delete_blob_def get_blob_def bind_outcome_Ok_iff split: option.splits)
qed

lemma drop_prior_index_writable: "ar_writable (drop_prior_index env ar old) = ar_writable ar"
  using delete_blob_Ok [of env ar "od_digest old"] by (auto simp: drop_prior_index_def split: outcome.splits)

lemma referrers_at:
  assumes "documented_env env" and "index_ok env (ar_index ar)" and "CHR '':'' \<notin> set tag" and "resolve_key env tag = Ok tag"
    and "build_referrers_tag env s = Ok tag" and "find (carries repo tag) (ar_index ar) = Some a"
  shows "get_blob env ar (am_digest a) = Ok c \<Longrightarrow> ce_index env c = Some ix \<Longrightarrow> referrers env repo ar s [] = Ok (ix_manifests ix)"
    and "get_blob env ar (am_digest a) = Fail Blob_Not_Found \<Longrightarrow> referrers env repo ar s [] = Ok []"
  using assms(5-)
  by (simp_all add: referrers_def filter_referrers_def referrers_from_index_def fetch_reference_def
      resolve_in_tag [OF assms(1,2,4,3)])

lemma referrers_from_index_at:
  assumes "documented_env env" and "index_ok env idx" and "CHR '':'' \<notin> set tag" and "resolve_key env tag = Ok tag"
    and "find (carries repo tag) idx = Some a" and "get_blob env ar (am_digest a) = Ok c"
    and "ce_index env c = Some ix" and "referrers_from_index env repo ar idx tag = Ok (old, refs)"
  shows "refs = ix_manifests ix \<and> od_digest old = am_digest a"
  using assms(5-) by (auto simp: referrers_from_index_def fetch_reference_def resolve_in_tag [OF assms(1,2,4,3)])

text \<open>The steps of a successful push up to the update of the referrers, which leave their tags alone.\<close>

lemma push_referrer_start:
  assumes e: "documented_env env" and ok: "store_ok env ar"
    and push: "push env repo ar d content = (ar', Ok ())" and m: "oci_compliant (od_media_type d)"
    and ref: "referrer_of_push env d content = (r, Some s)" and tag: "build_referrers_tag env s = Ok tag"
  obtains ar1 idx ar2 idx' where "save_blob env ar d content = Ok ar1"
    "update_referrers_index env repo ar1 idx s r = (ar2, Ok idx')" "ar' = ar2\<lparr>ar_index := idx'\<rparr>" "ar_writable ar2"
    "index_ok env idx" "\<forall>rp. find (carries rp tag) idx = find (carries rp tag) (ar_index ar)"
proof -
  obtain ar1 idx ar2 idx' where p: "save_blob env ar d content = Ok ar1"
      "apply_tag env repo (ar_index ar1) d (od_digest d) = Ok idx"
      "update_referrers_index env repo ar1 idx s r = (ar2, Ok idx')" "ar' = ar2\<lparr>ar_index := idx'\<rparr>" "ar_writable ar2"
    using push m ref
    by (auto simp: push_def push_manifest_def finish_push_def set_index_def split: outcome.splits prod.splits if_splits)
  note sb = save_blob_Ok [OF p(1)]
  have idx: "idx = add_artifact (entry_for repo [] d) (ar_index ar)"
    using p(2) artifact_for_digest [OF e, of d repo] sb by (auto simp: apply_tag_def bind_outcome_Ok_iff)
  have "find (carries rp tag) idx = find (carries rp tag) (ar_index ar)" for rp
    unfolding idx using referrers_tag [OF e tag] by (intro add_artifact_other) (auto simp: entry_for_def)
  moreover have "index_ok env idx" using apply_tag_ok [OF _ _ p(2)] sb ok by (simp add: store_ok_def)
  ultimately show thesis using that p(1,3-5) by blast
qed

text \<open>C36: Index blobs are shared by the repositories of an archive, and a push deletes the one it
  supersedes: where the referrers tags of a subject point to the same index blob in two repositories,
  a successful push of a new referrer into the one deletes that blob, while the tag of the other
  still points to it; there the subject, whose referrers were those of the blob, then has none. For
  every archive reached by pushes, tags and untags.\<close>

theorem shared_index_deleted:
  assumes e: "documented_env env" and reach: "store_reachable env ar"
    and push: "push env repo ar d content = (ar', Ok ())" and m: "oci_compliant (od_media_type d)"
    and ref: "referrer_of_push env d content = (r, Some s)" and tag: "build_referrers_tag env s = Ok tag"
    and at: "other \<noteq> repo" "find (carries repo tag) (ar_index ar) = Some x" "find (carries other tag) (ar_index ar) = Some y"
      "am_digest x = am_digest y"
    and c: "get_blob env ar (am_digest y) = Ok c" "ce_index env c = Some ix"
    and new: "referrer_key r \<notin> referrer_key ` set (ix_manifests ix)"
  shows "get_blob env ar' (am_digest y) = Fail Blob_Not_Found \<and> find (carries other tag) (ar_index ar') = Some y
    \<and> referrers env other ar s [] = Ok (ix_manifests ix) \<and> referrers env other ar' s [] = Ok []"
proof -
  have ok: "store_ok env ar" and ok': "store_ok env ar'"
    using store_reachable_ok [OF reach e] push_ok [OF e _ push] by simp_all
  then have i0: "index_ok env (ar_index ar)" and i0': "index_ok env (ar_index ar')" by (simp_all add: store_ok_def)
  obtain ar1 idx ar2 idx' where p: "save_blob env ar d content = Ok ar1"
      "update_referrers_index env repo ar1 idx s r = (ar2, Ok idx')" "ar' = ar2\<lparr>ar_index := idx'\<rparr>" "ar_writable ar2"
    and i1: "index_ok env idx" and find1: "\<forall>rp. find (carries rp tag) idx = find (carries rp tag) (ar_index ar)"
    using push_referrer_start [OF e ok push m ref tag] .
  note plain = referrers_tag [OF e tag]
  have colon: "CHR '':'' \<notin> set tag" using plain by simp
  have c1: "get_blob env ar1 (am_digest y) = Ok c" using save_blob_get [OF p(1)] c(1) by blast
  have start: "resolve_key env tag = Ok tag \<and> refs = ix_manifests ix \<and> od_digest old = am_digest y"
    if "referrers_from_index env repo ar1 idx tag = Ok (old, refs)" for old refs
    using referrers_from_index_Ok(1) [OF e i1 _ that] plain
      referrers_from_index_at [OF e i1 colon _ _ _ c(2) that, of x] find1 at(2,4) c1 by simp
  show ?thesis
  proof (cases rule: update_referrers_Ok [OF p(2), case_names same changed])
    case (same tg old refs updated)
    then show ?thesis using start [of old refs] tag new add_referrer_spec(5) [OF same(3)] by simp
  next
    case (changed tg old refs updated fresh bytes ar3)
    have tg: "tg = tag" using changed(1) tag by simp
    note at_start = start [OF changed(2) [unfolded tg]]
    have "CHR '':'' \<in> set (am_digest y)"
      using i0 find_SomeD [OF at(3)] digest_has_colon [OF e] by (auto simp: index_ok_def)
    then have digest: "od_digest old \<noteq> []" using at_start by auto
    have "get_blob env ar3 (am_digest y) = Ok c" using save_blob_get [OF changed(5)] c1 by blast
    moreover have "ar_writable ar3" using p(4) by (simp add: changed(6) drop_prior_index_writable)
    ultimately have "get_blob env ar2 (am_digest y) = Fail Blob_Not_Found"
      using drop_prior_index_deletes [of ar3 old env c] digest at_start by (simp add: changed(6))
    then have gone: "get_blob env ar' (am_digest y) = Fail Blob_Not_Found" using get_blob_cong [of ar' ar2] by (simp add: p(3))
    obtain a where a: "artifact_for_reference env repo fresh tag = Ok a" "idx' = add_artifact a (drop_prior_tag repo tag idx old)"
      using changed(7) by (auto simp: apply_tag_def bind_outcome_Ok_iff tg)
    have "find (carries other tag) idx' = find (carries other tag) (drop_prior_tag repo tag idx old)"
      unfolding a(2) using artifact_for_plain [OF e _ a(1)] plain at(1)
      by (intro add_artifact_other) (auto simp: entry_for_def)
    then have kept: "find (carries other tag) (ar_index ar') = Some y"
      using find_drop_prior_tag [of other tag repo tag idx old] at(1,3) find1 by (simp add: p(3))
    have "resolve_key env tag = Ok tag" using at_start ..
    then show ?thesis
      using referrers_at(1) [OF e i0 colon _ tag at(3) c] referrers_at(2) [OF e i0' colon _ tag kept gone] gone kept by simp
  qed
qed

section \<open>Subjects with long digests\<close>

text \<open>A manifest whose subject has a sha512 digest cannot be pushed: the referrers tag is the
  whole digest, which is longer than a tag may be, and the push fails after the blob is stored.\<close>

theorem sha512_subject_rejected:
  assumes e: "documented_env env" and long: "\<And>t. rc_tag_ok (ce_checks env) t \<Longrightarrow> length t \<le> 128"
    and reach: "store_reachable env ar" and m: "oci_compliant (od_media_type d)"
    and ref: "referrer_of_push env d content = (r, Some s)"
    and dig: "od_digest s = ''sha512:'' @ encoded" "length encoded = 128"
    and fresh: "find (carries repo (''sha512-'' @ encoded)) (ar_index ar) = None"
  shows "snd (push env repo ar d content) \<noteq> Ok ()"
proof
  assume "snd (push env repo ar d content) = Ok ()"
  then obtain ar' where push: "push env repo ar d content = (ar', Ok ())"
    by (cases "push env repo ar d content") simp
  have ok: "store_ok env ar" by (rule store_reachable_ok [OF reach e])
  obtain ar1 idx ar2 idx' where p: "save_blob env ar d content = Ok ar1"
      "apply_tag env repo (ar_index ar1) d (od_digest d) = Ok idx"
      "update_referrers_index env repo ar1 idx s r = (ar2, Ok idx')" "ar' = ar2\<lparr>ar_index := idx'\<rparr>"
    using push_referrer_Ok [OF push m ref] .
  note sb = save_blob_Ok [OF p(1)]
  have i1: "index_ok env idx" using apply_tag_ok [OF _ _ p(2)] sb ok by (simp add: store_ok_def)
  have tag: "t = ''sha512-'' @ encoded" if "build_referrers_tag env s = Ok t" for t
    using that by (auto simp: build_referrers_tag_def dig(1) split: if_splits)
  show False
  proof (cases rule: update_referrers_Ok [OF p(3), case_names same changed])
    case (same tg old refs updated)
    have "idx = add_artifact (entry_for repo [] d) (ar_index ar)"
      using p(2) artifact_for_digest [OF e, of d repo] sb by (auto simp: apply_tag_def bind_outcome_Ok_iff)
    then have "find (carries repo tg) idx = None"
      using add_artifact_other [of tg repo "entry_for repo [] d"] fresh tag [OF same(1)]
      by (simp add: entry_for_def)
    then have "refs = []"
      using referrers_from_index_Ok(2) [OF e i1 _ same(2)] referrers_tag [OF e same(1)] by auto
    with same(3) show False by (simp add: add_referrer_def)
  next
    case (changed tg old refs updated new bytes ar3)
    obtain a where a: "artifact_for_reference env repo new tg = Ok a"
      using changed(7) by (auto simp: apply_tag_def bind_outcome_Ok_iff)
    then have "rc_tag_ok (ce_checks env) tg"
      using artifact_for_plain [OF e _ a] referrers_tag [OF e changed(1)] by simp
    then show False using long [of tg] tag [OF changed(1)] dig(2) by simp
  qed
qed

section \<open>A concrete archive\<close>

definition sample_hash :: "string \<Rightarrow> string" where
  "sample_hash b = (if b \<noteq> [] \<and> list_all word_char b then b else ''x'')"

definition sample_digest_ok :: "string \<Rightarrow> bool" where
  "sample_digest_ok d \<longleftrightarrow> (has_prefix d ''sha256:'' \<or> has_prefix d ''sha512:'')
     \<and> drop 7 d \<noteq> [] \<and> list_all word_char (drop 7 d)"

definition described :: "string \<Rightarrow> string \<Rightarrow> oci_descriptor" where
  "described mt content = no_descriptor\<lparr>od_media_type := mt, od_digest := ''sha256:'' @ sample_hash content,
     od_size := int (length content)\<rparr>"

definition long_subject :: oci_descriptor where
  "long_subject = no_descriptor\<lparr>od_digest := ''sha512:'' @ replicate 128 CHR ''a''\<rparr>"

text \<open>Two signatures of one subject, a manifest of a subject with a long digest, and the indexes
  the store writes.\<close>

definition sample_manifests :: "(string \<times> image_manifest) list" where
  "sample_manifests =
     (let m = (\<lambda>s. \<lparr>mf_subject = Some s, mf_artifact_type = ''sig'', mf_config_media_type = [],
           mf_annotations = None\<rparr>)
      in [(''R1'', m (described image_manifest_type ''S'')), (''R2'', m (described image_manifest_type ''S'')),
          (''L'', m long_subject)])"

definition signature_of :: "string \<Rightarrow> oci_descriptor" where
  "signature_of content = (described image_manifest_type content)\<lparr>od_artifact_type := ''sig''\<rparr>"

definition sample_indexes :: "(oci_descriptor list \<times> string) list" where
  "sample_indexes = [([signature_of ''R1''], ''I1''), ([signature_of ''R1'', signature_of ''R2''], ''I12'')]"

definition ctf_env :: oci_env where
  "ctf_env = \<lparr>
     ce_checks = sample_checks\<lparr>rc_digest_ok := sample_digest_ok\<rparr>,
     ce_digest_ok = sample_digest_ok,
     ce_verifies = (\<lambda>d b. d = ''sha256:'' @ sample_hash b),
     ce_digest_of = (\<lambda>b. ''sha256:'' @ sample_hash b),
     ce_manifest = map_of sample_manifests,
     ce_index = (\<lambda>b. map_option (\<lambda>ds. \<lparr>ix_subject = None, ix_artifact_type = [], ix_annotations = None,
        ix_manifests = ds\<rparr>) (map_of (map prod.swap sample_indexes) b)),
     ce_encode = map_of sample_indexes\<rparr>"

lemma sample_digest_split:
  assumes "sample_digest_ok d"
  shows "\<exists>a e. d = a @ CHR '':'' # e \<and> (a = ''sha256'' \<or> a = ''sha512'') \<and> list_all word_char e"
proof -
  from assms consider t where "d = ''sha256'' @ CHR '':'' # t" "list_all word_char t"
    | t where "d = ''sha512'' @ CHR '':'' # t" "list_all word_char t"
    by (auto simp: sample_digest_ok_def has_prefix_iff)
  then show ?thesis by cases blast+
qed

lemma word_no_separator: "list_all word_char s \<Longrightarrow> set s \<inter> {CHR '':'', CHR ''/'', CHR ''@'', CHR ''.''} = {}"
  by (auto simp: list_all_iff word_char_def)

lemma documented_sample_env: "documented_env ctf_env"
proof -
  let ?c = "sample_checks\<lparr>rc_digest_ok := sample_digest_ok\<rparr>"
  have "set t \<inter> {CHR '':'', CHR ''/'', CHR ''@''} = {}" if "tag_matches t" for t
    using tag_chars [OF that, of "CHR ''@''"] tag_no_slash [OF that] tag_no_colon [OF that]
    by (auto simp: word_char_def)
  moreover have "CHR ''/'' \<notin> set d \<and> (\<exists>a e. d = a @ CHR '':'' # e \<and> a \<noteq> [] \<and> (a = ''sha256'' \<or> a = ''sha512'')
      \<and> set (a @ e) \<inter> {CHR '':'', CHR ''/'', CHR ''@'', CHR ''.''} = {})" if d: "sample_digest_ok d" for d
  proof -
    obtain a e where "d = a @ CHR '':'' # e" "a = ''sha256'' \<or> a = ''sha512''" "list_all word_char e"
      using sample_digest_split [OF d] by blast
    then show ?thesis
      using word_no_separator [of e] by (intro conjI exI [of _ a] exI [of _ e]) auto
  qed
  moreover have "sample_digest_ok (''sha256:'' @ sample_hash b)" for b
    by (simp add: sample_digest_ok_def sample_hash_def has_prefix_def word_char_def)
  moreover have "\<exists>ds'. map_of (map prod.swap sample_indexes) b = Some ds' \<and> ds' = ds"
    if "map_of sample_indexes ds = Some b" for ds b
    using that by (auto simp: sample_indexes_def split: if_splits)
  moreover have "\<not> tag_matches []" "\<not> sample_digest_ok []" by (simp_all add: tag_matches_def sample_digest_ok_def)
  ultimately show ?thesis
    by (auto simp: documented_env_def ctf_env_def sample_checks_def)
qed

definition empty_archive :: archive where
  "empty_archive = \<lparr>ar_writable = True, ar_index = new_index, ar_blobs = []\<rparr>"

definition pushed :: "string \<Rightarrow> string \<Rightarrow> archive \<Rightarrow> archive" where
  "pushed repo content ar = fst (push ctf_env repo ar (described image_manifest_type content) content)"

definition shared_archive :: archive where
  "shared_archive = pushed ''b'' ''R1'' (pushed ''a'' ''R1'' empty_archive)"

lemma pushed_reachable: "store_reachable ctf_env ar \<Longrightarrow> store_reachable ctf_env (pushed repo content ar)"
  unfolding pushed_def by (rule store_next [OF _ step_push]) (assumption, rule prod.collapse [symmetric])

lemma shared_archive_reachable: "store_reachable ctf_env shared_archive"
  unfolding shared_archive_def
  by (intro pushed_reachable store_empty) (simp_all add: empty_archive_def)

definition subject_descriptor :: oci_descriptor where
  "subject_descriptor = described image_manifest_type ''S''"

lemma second_push:
  "push ctf_env ''a'' shared_archive (described image_manifest_type ''R2'') ''R2''
    = (pushed ''a'' ''R2'' shared_archive, Ok ())"
  by code_simp

lemma second_push_referrer:
  "referrer_of_push ctf_env (described image_manifest_type ''R2'') ''R2''
    = (signature_of ''R2'', Some subject_descriptor)"
  by code_simp

lemma shared_contents: "insert ''R2'' (snd ` set (ar_blobs shared_archive)) = set [''R2'', ''R1'', ''I1'']"
  by code_simp

lemma shared_no_collision: "no_index_collision ctf_env (insert ''R2'' (snd ` set (ar_blobs shared_archive)))"
  unfolding shared_contents
  by (auto simp: no_index_collision_def ctf_env_def sample_indexes_def sample_hash_def word_char_def
      split: if_splits)

section \<open>Witnesses\<close>

lemma shared_fetch: "fetch_blob ctf_env shared_archive (described image_manifest_type ''R1'') = Ok ''R1''"
  by code_simp

lemma fetched_content_verifies_witness:
  "ce_verifies ctf_env (od_digest (described image_manifest_type ''R1'')) ''R1''"
  by (rule fetched_content_verifies [OF documented_sample_env shared_archive_reachable shared_fetch])

definition tagged_archive :: archive where
  "tagged_archive = shared_archive\<lparr>ar_index := add_artifact
     (entry_for ''a'' ''v1'' (described image_manifest_type ''R1'')) (ar_index shared_archive)\<rparr>"

lemma shared_tagged:
  "tag_descriptor ctf_env ''a'' shared_archive (described image_manifest_type ''R1'') ''app:v1'' = Ok tagged_archive"
  by code_simp

lemma shared_entry:
  "artifact_for_reference ctf_env ''a'' (described image_manifest_type ''R1'') ''app:v1''
    = Ok (entry_for ''a'' ''v1'' (described image_manifest_type ''R1''))"
  by code_simp

lemma tag_then_resolve_witness:
  "\<exists>r. resolve_reference ctf_env ''a'' tagged_archive ''app:v1'' = Ok r
     \<and> od_digest r = od_digest (described image_manifest_type ''R1'')"
  using tag_then_resolve [OF documented_sample_env shared_archive_reachable shared_tagged shared_entry]
  by (auto simp: entry_for_def)

lemma image_manifest_compliant: "oci_compliant (od_media_type (described image_manifest_type content))"
  by (simp add: described_def oci_compliant_def)

lemma pushed_referrer_listed_witness:
  "\<exists>l. referrers ctf_env ''a'' (pushed ''a'' ''R2'' shared_archive) subject_descriptor [] = Ok l
     \<and> referrer_key (signature_of ''R2'') \<in> referrer_key ` set l"
  using pushed_referrer_listed [OF documented_sample_env shared_archive_reachable second_push
      image_manifest_compliant second_push_referrer shared_no_collision] by blast

text \<open>The referrers tag of the subject, and the entries of both repositories under it.\<close>

definition subject_tag :: string where
  "subject_tag = ''sha256-S''"

definition subject_entry :: "string \<Rightarrow> artifact" where
  "subject_entry repo = entry_for repo subject_tag (described image_index_type ''I1'')"

lemma shared_index_deleted_witness:
  "get_blob ctf_env (pushed ''a'' ''R2'' shared_archive) (am_digest (subject_entry ''b'')) = Fail Blob_Not_Found
   \<and> referrers ctf_env ''b'' shared_archive subject_descriptor [] = Ok [signature_of ''R1'']
   \<and> referrers ctf_env ''b'' (pushed ''a'' ''R2'' shared_archive) subject_descriptor [] = Ok []"
proof -
  have "build_referrers_tag ctf_env subject_descriptor = Ok subject_tag"
    "find (carries ''a'' subject_tag) (ar_index shared_archive) = Some (subject_entry ''a'')"
    "find (carries ''b'' subject_tag) (ar_index shared_archive) = Some (subject_entry ''b'')"
    "get_blob ctf_env shared_archive (am_digest (subject_entry ''b'')) = Ok ''I1''"
    "ce_index ctf_env ''I1'' = Some \<lparr>ix_subject = None, ix_artifact_type = [], ix_annotations = None,
        ix_manifests = [signature_of ''R1'']\<rparr>"
    by code_simp+
  moreover have "am_digest (subject_entry ''a'') = am_digest (subject_entry ''b'')"
    by (simp add: subject_entry_def entry_for_def)
  moreover have "referrer_key (signature_of ''R2'') \<notin> referrer_key ` set [signature_of ''R1'']"
    by (simp add: signature_of_def described_def referrer_key_def sample_hash_def word_char_def)
  ultimately show ?thesis
    using shared_index_deleted [OF documented_sample_env shared_archive_reachable second_push image_manifest_compliant
        second_push_referrer, of subject_tag "''b''" "subject_entry ''a''" "subject_entry ''b''" "''I1''"] by simp
qed

lemma long_referrer:
  "referrer_of_push ctf_env (described image_manifest_type ''L'') ''L'' = (signature_of ''L'', Some long_subject)"
  by code_simp

lemma sample_tags_short: "rc_tag_ok (ce_checks ctf_env) t \<Longrightarrow> length t \<le> 128"
  by (simp add: ctf_env_def sample_checks_def tag_matches_def)

lemma shared_no_long_tag:
  "find (carries ''a'' (''sha512-'' @ replicate 128 CHR ''a'')) (ar_index shared_archive) = None"
  by code_simp

lemma sha512_subject_rejected_witness:
  "snd (push ctf_env ''a'' shared_archive (described image_manifest_type ''L'') ''L'') \<noteq> Ok ()"
  by (rule sha512_subject_rejected [OF documented_sample_env sample_tags_short shared_archive_reachable
        image_manifest_compliant long_referrer _ _ shared_no_long_tag])
    (simp_all add: long_subject_def)

end
