(* ===== verification/Digests.thy ===== *)
theory Digests
  imports Normalisation Normalisation_V1
begin

text \<open>
  Digests of component descriptors and of content: the registry of normalisations
  (\<open>descriptor/normalisation/normalisations.go\<close>), the computation and verification of a digest
  (\<open>normalisation/algorithms/algorithms.go\<close>), the rules of what may be signed
  (\<open>signing/digest.go\<close>), and the binding of downloaded content to the digest recorded for it
  (\<open>repository/integrity\<close>).

  The hash functions, the writing of a normalised document and the checks of the digest library
  are the parameter \<open>digest_env\<close>. Names of algorithms are ASCII, so ignoring case is mapping
  letters.
\<close>

section \<open>Letters without case\<close>

definition lower_char :: "char \<Rightarrow> char" where
  "lower_char c = (if CHR ''A'' \<le> c \<and> c \<le> CHR ''Z'' then char_of ((of_char c :: nat) + 32) else c)"

definition upper_char :: "char \<Rightarrow> char" where
  "upper_char c = (if CHR ''a'' \<le> c \<and> c \<le> CHR ''z'' then char_of ((of_char c :: nat) - 32) else c)"

definition to_lower :: "string \<Rightarrow> string" where
  "to_lower s = map lower_char s"

definition to_upper :: "string \<Rightarrow> string" where
  "to_upper s = map upper_char s"

definition equal_fold :: "string \<Rightarrow> string \<Rightarrow> bool" where
  "equal_fold a b \<longleftrightarrow> to_lower a = to_lower b"

section \<open>Normalisations by name\<close>

datatype digest_error =
    Unknown_Normalisation string
  | Normalise_Failed convert_error
  | Unsupported_Hash string
  | Digest_Mismatch
  | Signing_Unsupported string
  | Unsupported_Digest_Hash string
  | Missing_Digest string string
  | Digest_Without_Access string string
  | Incomplete_Digest
  | Conflicting_Prefix
  | Invalid_Encoding
  | Unverifiable

type_synonym 'd algorithms = "(string, 'd \<Rightarrow> (convert_error, string) outcome) gomap"

definition register_normalisation :: "string \<Rightarrow> ('d \<Rightarrow> (convert_error, string) outcome) \<Rightarrow> 'd algorithms \<Rightarrow> 'd algorithms" where
  "register_normalisation name norm algos = mput name norm algos"

definition get_normalisation :: "string \<Rightarrow> 'd algorithms \<Rightarrow> ('d \<Rightarrow> (convert_error, string) outcome) option" where
  "get_normalisation name algos = map_of algos name"

definition normalisation_names :: "'d algorithms \<Rightarrow> string list" where
  "normalisation_names algos = sort (mkeys algos)"

definition normalise :: "'d algorithms \<Rightarrow> 'd \<Rightarrow> string \<Rightarrow> (digest_error, string) outcome" where
  "normalise algos cd algo = (case map_of algos algo of
       None \<Rightarrow> Fail (Unknown_Normalisation algo)
     | Some norm \<Rightarrow> (case norm cd of
           Ok bytes \<Rightarrow> Ok bytes
         | Fail e \<Rightarrow> Fail (Normalise_Failed e)
         | Panic \<Rightarrow> Panic))"

text \<open>
  What the digest functions use of libraries: the text of a canonical document, the clock and the
  reader of the legacy algorithm, the hash of bytes as lower-case hex, and the digest library's
  check of an encoded value.
\<close>

datatype hash = SHA256 | SHA512

record ('r, 'd) digest_env =
  de_codec :: "('r, 'd) codec"
  de_clock :: "string \<Rightarrow> string option"
  de_reload :: "json \<Rightarrow> json option"
  de_text :: "json \<Rightarrow> string"
  de_v1_text :: "json \<Rightarrow> string"
  de_sum :: "hash \<Rightarrow> string \<Rightarrow> string"

definition v1_name :: string where "v1_name = ''jsonNormalisation/v1''"

definition v4_name :: "v4_algorithm \<Rightarrow> string" where
  "v4_name alg = (case alg of
       V4alpha1 \<Rightarrow> ''jsonNormalisation/v4alpha1''
     | V4alpha2 \<Rightarrow> ''jsonNormalisation/v4alpha2''
     | V4alpha3 \<Rightarrow> ''jsonNormalisation/v4alpha3'')"

definition written :: "(json \<Rightarrow> string) \<Rightarrow> (convert_error, json) outcome \<Rightarrow> (convert_error, string) outcome" where
  "written text r = bind_outcome r (\<lambda>j. Ok (text j))"

text \<open>The algorithms that importing \<open>algorithms\<close> registers.\<close>

definition registered_algorithms :: "('r, 'd) digest_env \<Rightarrow> ('r, 'd) descriptor algorithms" where
  "registered_algorithms env = foldl (\<lambda>algos (name, norm). register_normalisation name norm algos) []
     [(v1_name, \<lambda>cd. written (de_v1_text env) (v1_normalise (de_codec env) (de_clock env) (de_reload env) cd)),
      (v4_name V4alpha1, \<lambda>cd. written (de_text env) (v4_normalise (de_codec env) V4alpha1 cd)),
      (v4_name V4alpha2, \<lambda>cd. written (de_text env) (v4_normalise (de_codec env) V4alpha2 cd)),
      (v4_name V4alpha3, \<lambda>cd. written (de_text env) (v4_normalise (de_codec env) V4alpha3 cd))]"

section \<open>Digests of descriptors\<close>

definition legacy_v3 :: string where "legacy_v3 = ''jsonNormalisation/v3''"

definition resolve_normalisation :: "string \<Rightarrow> string \<times> bool" where
  "resolve_normalisation name = (if name = legacy_v3 then (v4_name V4alpha2, True) else (name, False))"

definition verify_only :: "string \<Rightarrow> bool" where
  "verify_only name \<longleftrightarrow> name = v1_name"

definition hash_of :: "string \<Rightarrow> (digest_error, hash) outcome" where
  "hash_of name = (let n = to_upper name in
     if n = ''SHA-256'' \<or> n = ''SHA256'' then Ok SHA256
     else if n = ''SHA-512'' \<or> n = ''SHA512'' then Ok SHA512
     else Fail (Unsupported_Hash name))"

definition hash_name :: "hash \<Rightarrow> string" where
  "hash_name h = (case h of SHA256 \<Rightarrow> ''SHA-256'' | SHA512 \<Rightarrow> ''SHA-512'')"

definition descriptor_sum ::
    "('r, 'd) digest_env \<Rightarrow> ('r, 'd) descriptor \<Rightarrow> string \<Rightarrow> string \<Rightarrow> (digest_error, string \<times> hash) outcome" where
  "descriptor_sum env cd norm hname =
     bind_outcome (normalise (registered_algorithms env) cd norm) (\<lambda>bytes.
     bind_outcome (hash_of hname) (\<lambda>h. Ok (de_sum env h bytes, h)))"

definition descriptor_digest ::
    "('r, 'd) digest_env \<Rightarrow> ('r, 'd) descriptor \<Rightarrow> string \<Rightarrow> string \<Rightarrow> (digest_error, digest) outcome" where
  "descriptor_digest env cd norm hname = (let n = fst (resolve_normalisation norm) in
     bind_outcome (descriptor_sum env cd n hname) (\<lambda>(value, h).
       Ok \<lparr>dig_hash = hash_name h, dig_norm = n, dig_value = value\<rparr>))"

definition verify_digest ::
    "('r, 'd) digest_env \<Rightarrow> ('r, 'd) descriptor \<Rightarrow> digest \<Rightarrow> (digest_error, unit) outcome" where
  "verify_digest env cd expected =
     bind_outcome (descriptor_sum env cd (fst (resolve_normalisation (dig_norm expected))) (dig_hash expected))
       (\<lambda>(value, _). if equal_fold value (dig_value expected) then Ok () else Fail Digest_Mismatch)"

section \<open>Signing\<close>

definition ensure_signable :: "string \<Rightarrow> (digest_error, unit) outcome" where
  "ensure_signable norm = (if verify_only norm then Fail (Signing_Unsupported norm) else Ok ())"

definition signable_algorithms :: "string list" where
  "signable_algorithms = [v4_name V4alpha3, v4_name V4alpha2, v4_name V4alpha1]"

definition generate_digest ::
    "('r, 'd) digest_env \<Rightarrow> ('r, 'd) descriptor \<Rightarrow> string \<Rightarrow> string \<Rightarrow> (digest_error, digest) outcome" where
  "generate_digest env cd norm hname = descriptor_digest env cd (fst (resolve_normalisation norm)) hname"

definition verify_signature_digest ::
    "('r, 'd) digest_env \<Rightarrow> ('r, 'd) descriptor \<Rightarrow> signature \<Rightarrow> (digest_error, unit) outcome" where
  "verify_signature_digest env cd sig =
     verify_digest env cd ((sig_digest sig)\<lparr>dig_norm := fst (resolve_normalisation (dig_norm (sig_digest sig)))\<rparr>)"

definition approved_hash :: "string \<Rightarrow> bool" where
  "approved_hash name \<longleftrightarrow> is_ok (hash_of name)"

definition excluded_from_signature :: "digest \<Rightarrow> bool" where
  "excluded_from_signature d \<longleftrightarrow>
     equal_fold (dig_hash d) ''NO-DIGEST'' \<or> equal_fold (dig_norm d) ''EXCLUDE-FROM-SIGNATURE''"

text \<open>The type of an access; asking a nil object behind the interface panics.\<close>

definition usable_access :: "('r, 'd) typed_value option \<Rightarrow> (digest_error, bool) outcome" where
  "usable_access acc = (case acc of
       None \<Rightarrow> Ok False
     | Some (RawPtr None) \<Rightarrow> Panic
     | Some (RawPtr (Some r)) \<Rightarrow> Ok (type_string (raw_type r) \<noteq> ''None'')
     | Some (ObjPtr x) \<Rightarrow> Ok (type_string (otype x) \<noteq> ''None''))"

definition elements :: "'a slice \<Rightarrow> 'a list" where
  "elements s = (case s of None \<Rightarrow> [] | Some xs \<Rightarrow> xs)"

text \<open>The first violation found by a loop that returns at it.\<close>

fun first_failure :: "('a \<Rightarrow> ('e, unit) outcome) \<Rightarrow> 'a list \<Rightarrow> ('e, unit) outcome" where
  "first_failure f [] = Ok ()"
| "first_failure f (x # xs) = bind_outcome (f x) (\<lambda>_. first_failure f xs)"

definition check_reference_hash :: "reference \<Rightarrow> (digest_error, unit) outcome" where
  "check_reference_hash r = (let alg = dig_hash (ref_digest r) in
     if alg \<noteq> [] \<and> \<not> approved_hash alg then Fail (Unsupported_Digest_Hash alg) else Ok ())"

definition check_resource_hash :: "('r, 'd) resource \<Rightarrow> (digest_error, unit) outcome" where
  "check_resource_hash r = (case res_digest r of
       None \<Rightarrow> Ok ()
     | Some d \<Rightarrow> if dig_hash d = [] \<or> excluded_from_signature d then Ok ()
                else if \<not> approved_hash (dig_hash d) then Fail (Unsupported_Digest_Hash (dig_hash d))
                else Ok ())"

definition validate_digest_hash_algorithms :: "('r, 'd) component \<Rightarrow> (digest_error, unit) outcome" where
  "validate_digest_hash_algorithms cd =
     bind_outcome (first_failure check_reference_hash (elements (comp_references cd)))
       (\<lambda>_. first_failure check_resource_hash (elements (comp_resources cd)))"

definition complete_digest :: "digest \<Rightarrow> bool" where
  "complete_digest d \<longleftrightarrow> dig_hash d \<noteq> [] \<and> dig_norm d \<noteq> [] \<and> dig_value d \<noteq> []"

definition check_reference_digest :: "reference \<Rightarrow> (digest_error, unit) outcome" where
  "check_reference_digest r =
     (if complete_digest (ref_digest r) then Ok () else Fail (Missing_Digest (el_name r) (el_version r)))"

definition check_resource_digest :: "('r, 'd) resource \<Rightarrow> (digest_error, unit) outcome" where
  "check_resource_digest r = bind_outcome (usable_access (res_access r)) (\<lambda>usable.
     if usable then
       (case res_digest r of
          Some d \<Rightarrow> if complete_digest d then Ok () else Fail (Missing_Digest (el_name r) (el_version r))
        | None \<Rightarrow> Fail (Missing_Digest (el_name r) (el_version r)))
     else if res_digest r \<noteq> None then Fail (Digest_Without_Access (el_name r) (el_version r))
     else Ok ())"

definition is_safely_digestible :: "bool \<Rightarrow> ('r, 'd) component \<Rightarrow> (digest_error, unit) outcome" where
  "is_safely_digestible fips cd =
     bind_outcome (if fips then validate_digest_hash_algorithms cd else Ok ()) (\<lambda>_.
     bind_outcome (first_failure check_reference_digest (elements (comp_references cd))) (\<lambda>_.
     first_failure check_resource_digest (elements (comp_resources cd))))"

section \<open>Digests of content\<close>

text \<open>A digest of the digest library: an algorithm and an encoded value.\<close>

type_synonym content_digest = "hash \<times> string"

definition hash_length :: "hash \<Rightarrow> nat" where
  "hash_length h = (case h of SHA256 \<Rightarrow> 64 | SHA512 \<Rightarrow> 128)"

definition lower_hex :: "char \<Rightarrow> bool" where
  "lower_hex c \<longleftrightarrow> (CHR ''0'' \<le> c \<and> c \<le> CHR ''9'') \<or> (CHR ''a'' \<le> c \<and> c \<le> CHR ''f'')"

text \<open>\<open>Digest.Validate\<close> of the digest library for the two algorithms: lower-case hex of their length.\<close>

definition encoded_ok :: "hash \<Rightarrow> string \<Rightarrow> bool" where
  "encoded_ok h v \<longleftrightarrow> length v = hash_length h \<and> list_all lower_hex v"

text \<open>\<open>None\<close> is the empty digest: nothing to verify against.\<close>

definition parse_content_digest :: "digest option \<Rightarrow> (digest_error, content_digest option) outcome" where
  "parse_content_digest d = (case d of
       None \<Rightarrow> Ok None
     | Some d \<Rightarrow>
         if excluded_from_signature d then Ok None
         else if dig_value d = [] \<and> dig_hash d = [] then Ok None
         else if dig_value d = [] \<or> dig_hash d = [] then Fail Incomplete_Digest
         else bind_outcome (hash_of (dig_hash d)) (\<lambda>h. let v = to_lower (dig_value d) in
           (case cut_at CHR '':'' v of
              Some (pre, encoded) \<Rightarrow>
                if hash_of pre \<noteq> Ok h then Fail Conflicting_Prefix
                else if encoded_ok h encoded then Ok (Some (h, encoded)) else Fail Invalid_Encoding
            | None \<Rightarrow> if encoded_ok h v then Ok (Some (h, v)) else Fail Invalid_Encoding)))"

datatype content_kind = Kind_None | Kind_Blob | Kind_Artifact

definition classify :: "digest option \<Rightarrow> (digest_error, (content_kind \<times> content_digest) option) outcome" where
  "classify expected = bind_outcome (parse_content_digest expected) (\<lambda>want.
     case (want, expected) of
       (Some w, Some d) \<Rightarrow>
         if dig_norm d = [] \<or> dig_norm d = ''genericBlobDigest/v1'' then Ok (Some (Kind_Blob, w))
         else if dig_norm d = ''ociArtifactDigest/v1'' then Ok (Some (Kind_Artifact, w))
         else Fail Unverifiable
     | _ \<Rightarrow> Ok None)"

text \<open>
  Content as a caller hands it over: bytes with a media type, or a blob that verifies its bytes
  against a digest it may know. What \<open>Verify\<close> returns is the content itself, a blob bound to a
  digest that is checked when it is read or was checked before, or an archive whose root is
  checked when it is read.
\<close>

datatype content =
    Plain "string option" string
  | Verified "content_digest option" "string option" string

datatype bound_content =
    Unbound content
  | Digest_Bound content content_digest bool
  | Artifact_Bound content content_digest

fun content_bytes :: "content \<Rightarrow> string" where
  "content_bytes (Plain m b) = b"
| "content_bytes (Verified d m b) = b"

fun content_media :: "content \<Rightarrow> string option" where
  "content_media (Plain m b) = m"
| "content_media (Verified d m b) = m"

text \<open>The verifier of archives: the media types it accepts and whether an archive has a root.\<close>

record artifact_verifier =
  av_accepts :: "string \<Rightarrow> bool"
  av_root :: "string \<Rightarrow> content_digest \<Rightarrow> bool"

definition new_artifact_blob ::
    "artifact_verifier option \<Rightarrow> content \<Rightarrow> content_digest \<Rightarrow> (digest_error, bound_content) outcome" where
  "new_artifact_blob artifacts c root = (case artifacts of
       None \<Rightarrow> Fail Unverifiable
     | Some av \<Rightarrow> if av_accepts av (case content_media c of Some m \<Rightarrow> m | None \<Rightarrow> [])
         then Ok (Artifact_Bound c root) else Fail Unverifiable)"

definition verify_content_digest ::
    "artifact_verifier option \<Rightarrow> digest option \<Rightarrow> content \<Rightarrow> (digest_error, bound_content) outcome" where
  "verify_content_digest artifacts expected c = bind_outcome (classify expected) (\<lambda>k. case k of
       None \<Rightarrow> Ok (Unbound c)
     | Some (Kind_Artifact, want) \<Rightarrow> new_artifact_blob artifacts c want
     | Some (_, want) \<Rightarrow> (case c of
           Verified (Some got) m b \<Rightarrow>
             if got = want then Ok (Unbound c)
             else if fst got = fst want then Fail Digest_Mismatch
             else Ok (Digest_Bound c want True)
         | _ \<Rightarrow> Ok (Digest_Bound c want True)))"

definition verify_precomputed ::
    "artifact_verifier option \<Rightarrow> digest option \<Rightarrow> content_digest option \<Rightarrow> content
      \<Rightarrow> (digest_error, bound_content) outcome" where
  "verify_precomputed artifacts expected computed c = (case (classify expected, computed) of
       (Ok (Some (Kind_Blob, want)), Some got) \<Rightarrow>
         if fst got = fst want then
           (if got \<noteq> want then Fail Digest_Mismatch else Ok (Digest_Bound c want False))
         else verify_content_digest artifacts expected c
     | _ \<Rightarrow> verify_content_digest artifacts expected c)"

fun verified_on_read :: "bound_content \<Rightarrow> bool" where
  "verified_on_read (Digest_Bound c d on_read) = on_read"
| "verified_on_read (Artifact_Bound c d) = True"
| "verified_on_read (Unbound c) = False"

definition precompute_algorithm :: "digest option \<Rightarrow> hash option" where
  "precompute_algorithm expected = (case classify expected of
       Ok (Some (Kind_Blob, want)) \<Rightarrow> Some (fst want)
     | _ \<Rightarrow> None)"

definition verify_oci_artifact :: "digest option \<Rightarrow> content_digest \<Rightarrow> (digest_error, unit) outcome" where
  "verify_oci_artifact expected root = bind_outcome (parse_content_digest expected) (\<lambda>want.
     case (want, expected) of
       (Some w, Some d) \<Rightarrow>
         if dig_norm d \<in> {[], ''genericBlobDigest/v1'', ''ociArtifactDigest/v1''}
         then (if w \<noteq> root then Fail Digest_Mismatch else Ok ())
         else Fail Unverifiable
     | _ \<Rightarrow> Ok ())"

text \<open>Reading content to its end, with the checks of the readers.\<close>

fun read_content :: "(hash \<Rightarrow> string \<Rightarrow> string) \<Rightarrow> content \<Rightarrow> (digest_error, string) outcome" where
  "read_content hsum (Plain m b) = Ok b"
| "read_content hsum (Verified None m b) = Ok b"
| "read_content hsum (Verified (Some (h, v)) m b) = (if hsum h b = v then Ok b else Fail Digest_Mismatch)"

fun read_bound ::
    "(hash \<Rightarrow> string \<Rightarrow> string) \<Rightarrow> artifact_verifier option \<Rightarrow> bound_content \<Rightarrow> (digest_error, string) outcome" where
  "read_bound hsum av (Unbound c) = read_content hsum c"
| "read_bound hsum av (Digest_Bound c (h, v) on_read) = bind_outcome (read_content hsum c) (\<lambda>b.
     if on_read \<and> hsum h b \<noteq> v then Fail Digest_Mismatch else Ok b)"
| "read_bound hsum av (Artifact_Bound c root) = bind_outcome (read_content hsum c) (\<lambda>b.
     case av of
       Some a \<Rightarrow> if av_root a b root then Ok b else Fail Digest_Mismatch
     | None \<Rightarrow> Panic)"

definition verify_whole_content ::
    "(hash \<Rightarrow> string \<Rightarrow> string) \<Rightarrow> artifact_verifier option \<Rightarrow> digest option \<Rightarrow> content \<Rightarrow> (digest_error, unit) outcome" where
  "verify_whole_content hsum artifacts expected c = bind_outcome (classify expected) (\<lambda>k. case k of
       None \<Rightarrow> Ok ()
     | Some (Kind_Artifact, want) \<Rightarrow> bind_outcome (new_artifact_blob artifacts c want)
         (\<lambda>v. bind_outcome (read_bound hsum artifacts v) (\<lambda>_. Ok ()))
     | Some (_, want) \<Rightarrow> bind_outcome (read_bound hsum artifacts (Digest_Bound c want True)) (\<lambda>_. Ok ()))"

end
