(* ===== verification/Pins.thy ===== *)
theory Pins
  imports Digests
begin

text \<open>
  Pinned component references, \<open>bindings/go/repository/pin.go\<close>: the notation of a digest pin, and
  reading a component version through a repository so that it is the pinned one. Repositories
  are the environment: what they answer is a record of functions on their states.
\<close>

section \<open>The notation of a pin\<close>

definition letter :: "char \<Rightarrow> bool" where
  "letter c \<longleftrightarrow> (CHR ''a'' \<le> c \<and> c \<le> CHR ''z'') \<or> (CHR ''A'' \<le> c \<and> c \<le> CHR ''Z'')"

definition digit :: "char \<Rightarrow> bool" where
  "digit c \<longleftrightarrow> CHR ''0'' \<le> c \<and> c \<le> CHR ''9''"

definition hex_char :: "char \<Rightarrow> bool" where
  "hex_char c \<longleftrightarrow> digit c \<or> (CHR ''a'' \<le> c \<and> c \<le> CHR ''f'') \<or> (CHR ''A'' \<le> c \<and> c \<le> CHR ''F'')"

text \<open>
  The regular expression of a pin: words of letters and digits that start with a letter, joined by
  single separators, are the normalisation; one word is the hash. No part contains the plus sign
  or the colon that end it.
\<close>

fun words :: "bool \<Rightarrow> string \<Rightarrow> bool" where
  "words started [] = started"
| "words started (c # cs) =
     (if letter c then words True cs
      else if started \<and> digit c then words True cs
      else if started \<and> (c = CHR ''-'' \<or> c = CHR ''_'' \<or> c = CHR ''.'') then words False cs
      else False)"

definition word :: "string \<Rightarrow> bool" where
  "word s \<longleftrightarrow> s \<noteq> [] \<and> letter (hd s) \<and> list_all (\<lambda>c. letter c \<or> digit c) s"

definition match_pin :: "string \<Rightarrow> (string \<times> string \<times> string) option" where
  "match_pin pin = (case cut_at CHR '':'' pin of
       None \<Rightarrow> None
     | Some (front, hex) \<Rightarrow>
         if hex = [] \<or> \<not> list_all hex_char hex then None
         else (case cut_at CHR ''+'' front of
             Some (norm, name) \<Rightarrow> if words False norm \<and> word name then Some (norm, name, hex) else None
           | None \<Rightarrow> if word front then Some ([], front, hex) else None))"

datatype pin_error =
    Invalid_Pin string
  | Unsupported_Pin_Hash string
  | Pin_Length nat
  | Pin_Hash_Rejected string
  | Pin_Not_Addressable
  | Pin_Needs_Version
  | Pin_Repository string
  | Pin_Unsupported
  | Pin_Digest_Failed digest_error
  | Pin_Mismatch

definition replace_char :: "char \<Rightarrow> char \<Rightarrow> string \<Rightarrow> string" where
  "replace_char a b s = map (\<lambda>c. if c = a then b else c) s"

definition parse_digest_pin :: "string \<Rightarrow> (pin_error, digest) outcome" where
  "parse_digest_pin pin = (case match_pin pin of
       None \<Rightarrow> Fail (Invalid_Pin pin)
     | Some (norm, name, hex) \<Rightarrow> (case hash_of (to_lower name) of
           Ok h \<Rightarrow>
             if length hex \<noteq> hash_length h then Fail (Pin_Length (length hex))
             else Ok \<lparr>dig_hash = hash_name h, dig_norm = replace_char CHR ''.'' CHR ''/'' norm,
                      dig_value = to_lower hex\<rparr>
         | _ \<Rightarrow> Fail (Unsupported_Pin_Hash name)))"

definition format_digest_pin :: "digest \<Rightarrow> string" where
  "format_digest_pin d =
     (if dig_norm d \<noteq> [] then replace_char CHR ''/'' CHR ''.'' (dig_norm d) @ ''+'' else [])
     @ to_lower (filter (\<lambda>c. c \<noteq> CHR ''-'') (dig_hash d)) @ '':'' @ dig_value d"

section \<open>Reading through a pin\<close>

text \<open>
  A repository answers with a descriptor; one that stores component versions by content can be
  pinned to a digest, which is another repository, and resolves a version to a digest. A wrapper
  may report that the repository it wraps cannot.
\<close>

record ('repo, 'r, 'd) repositories =
  rp_get :: "'repo \<Rightarrow> string \<Rightarrow> string \<Rightarrow> (pin_error, ('r, 'd) descriptor) outcome"
  rp_pinnable :: "'repo \<Rightarrow> bool"
  rp_pin :: "'repo \<Rightarrow> string \<Rightarrow> string \<Rightarrow> string \<Rightarrow> (pin_error, 'repo) outcome"
  rp_resolve :: "'repo \<Rightarrow> string \<Rightarrow> string \<Rightarrow> (pin_error, string) outcome"

definition verify_normalized_pin ::
    "('r, 'd) digest_env \<Rightarrow> ('r, 'd) descriptor \<Rightarrow> digest \<Rightarrow> (pin_error, unit) outcome" where
  "verify_normalized_pin env cd pin = (case generate_digest env cd (dig_norm pin) (dig_hash pin) of
       Ok resolved \<Rightarrow> if equal_fold (dig_value resolved) (dig_value pin) then Ok () else Fail Pin_Mismatch
     | Fail e \<Rightarrow> Fail (Pin_Digest_Failed e)
     | Panic \<Rightarrow> Panic)"

definition pin_repository ::
    "('repo, 'r, 'd) repositories \<Rightarrow> 'repo \<Rightarrow> string \<Rightarrow> string \<Rightarrow> string \<Rightarrow> (pin_error, 'repo) outcome" where
  "pin_repository ops repo component version pin =
     (if pin = [] then Ok repo
      else if \<not> rp_pinnable ops repo then Fail Pin_Not_Addressable
      else rp_pin ops repo component version pin)"

definition get_pinned ::
    "('r, 'd) digest_env \<Rightarrow> ('repo, 'r, 'd) repositories \<Rightarrow> 'repo \<Rightarrow> string \<Rightarrow> string \<Rightarrow> digest option
      \<Rightarrow> (pin_error, 'repo \<times> ('r, 'd) descriptor) outcome" where
  "get_pinned env ops repo component version pin = (case pin of
       None \<Rightarrow> bind_outcome (rp_get ops repo component version) (\<lambda>cd. Ok (repo, cd))
     | Some p \<Rightarrow>
         if \<not> approved_hash (dig_hash p) then Fail (Pin_Hash_Rejected (dig_hash p))
         else if dig_norm p = [] then
           (if \<not> rp_pinnable ops repo then Fail Pin_Not_Addressable
            else (case rp_pin ops repo component version (format_digest_pin p) of
                Ok pinned \<Rightarrow> bind_outcome (rp_get ops pinned component version) (\<lambda>cd. Ok (pinned, cd))
              | Fail e \<Rightarrow> Fail (if e = Pin_Unsupported then Pin_Not_Addressable else e)
              | Panic \<Rightarrow> Panic))
         else if version = [] then Fail Pin_Needs_Version
         else bind_outcome (rp_get ops repo component version) (\<lambda>cd.
           bind_outcome (verify_normalized_pin env cd p) (\<lambda>_. Ok (repo, cd))))"

text \<open>Reading through the artifact a version resolves to; the third part of the result is its pin.\<close>

definition unbound_read ::
    "('r, 'd) digest_env \<Rightarrow> ('repo, 'r, 'd) repositories \<Rightarrow> 'repo \<Rightarrow> string \<Rightarrow> string \<Rightarrow> digest option
      \<Rightarrow> (pin_error, 'repo \<times> ('r, 'd) descriptor \<times> digest option) outcome" where
  "unbound_read env ops repo component version pin =
     bind_outcome (get_pinned env ops repo component version pin) (\<lambda>(r, cd). Ok (r, cd, None))"

definition artifact_read ::
    "('r, 'd) digest_env \<Rightarrow> ('repo, 'r, 'd) repositories \<Rightarrow> 'repo \<Rightarrow> string \<Rightarrow> string \<Rightarrow> digest option \<Rightarrow> string
      \<Rightarrow> (pin_error, 'repo \<times> ('r, 'd) descriptor \<times> digest option) outcome" where
  "artifact_read env ops repo component version pin dgst =
     bind_outcome (parse_digest_pin dgst) (\<lambda>artifact.
     bind_outcome (get_pinned env ops repo component version (Some artifact)) (\<lambda>(pinned, cd).
     case pin of
       None \<Rightarrow> Ok (pinned, cd, Some artifact)
     | Some p \<Rightarrow>
         if \<not> approved_hash (dig_hash p) then Fail (Pin_Hash_Rejected (dig_hash p))
         else bind_outcome (verify_normalized_pin env cd p) (\<lambda>_. Ok (pinned, cd, Some artifact))))"

definition get_by_artifact ::
    "('r, 'd) digest_env \<Rightarrow> ('repo, 'r, 'd) repositories \<Rightarrow> 'repo \<Rightarrow> string \<Rightarrow> string \<Rightarrow> digest option
      \<Rightarrow> (pin_error, 'repo \<times> ('r, 'd) descriptor \<times> digest option) outcome" where
  "get_by_artifact env ops repo component version pin =
     (if (case pin of Some p \<Rightarrow> dig_norm p = [] | None \<Rightarrow> False)
      then bind_outcome (get_pinned env ops repo component version pin) (\<lambda>(pinned, cd). Ok (pinned, cd, pin))
      else if \<not> rp_pinnable ops repo \<or> version = [] then unbound_read env ops repo component version pin
      else (case rp_resolve ops repo component version of
          Fail e \<Rightarrow> if e = Pin_Unsupported then unbound_read env ops repo component version pin else Fail e
        | Panic \<Rightarrow> Panic
        | Ok dgst \<Rightarrow> artifact_read env ops repo component version pin dgst))"

end
