(* ===== verification/Digest_Properties.thy ===== *)
theory Digest_Properties
  imports Pins Normalisation_Properties
begin

text \<open>
  Properties of digests, signatures, pins and verified content: a generated digest verifies and
  survives the notation of a pin, two descriptors that verify against one signature agree on what
  it covers, no read through a pin returns an unverified descriptor, and content that is read
  through the blob \<open>Verify\<close> returns has the recorded digest.
\<close>

section \<open>Letters without case\<close>

lemma lower_hex_lower: "lower_hex c \<Longrightarrow> lower_char c = c"
  by (auto simp: lower_hex_def lower_char_def less_eq_char_def)

lemma to_lower_hex: "list_all lower_hex s \<Longrightarrow> to_lower s = s"
  by (induction s) (auto simp: to_lower_def lower_hex_lower)

lemma lower_hex_hex: "lower_hex c \<Longrightarrow> hex_char c"
  by (auto simp: lower_hex_def hex_char_def digit_def)

lemma hex_no_colon: "list_all hex_char s \<Longrightarrow> CHR '':'' \<notin> set s"
  by (auto simp: list_all_iff hex_char_def digit_def less_eq_char_def)

lemma length_to_lower [simp]: "length (to_lower s) = length s"
  by (simp add: to_lower_def)

section \<open>Registered algorithms\<close>

lemma normalise_v4:
  "normalise (registered_algorithms env) cd (v4_name alg) =
     (case v4_normalise (de_codec env) alg cd of
        Ok j \<Rightarrow> Ok (de_text env j) | Fail e \<Rightarrow> Fail (Normalise_Failed e) | Panic \<Rightarrow> Panic)"
  by (cases alg; cases "v4_normalise (de_codec env) alg cd")
    (simp_all add: normalise_def registered_algorithms_def register_normalisation_def v4_name_def v1_name_def
      written_def)

definition algorithm_names :: "string list" where
  "algorithm_names = [v1_name, v4_name V4alpha1, v4_name V4alpha2, v4_name V4alpha3]"

lemma normalise_registered: "normalise (registered_algorithms env) cd n = Ok b \<Longrightarrow> n \<in> set algorithm_names"
  by (auto simp: normalise_def registered_algorithms_def register_normalisation_def algorithm_names_def
      split: if_splits option.splits)

lemma resolved_again: "fst (resolve_normalisation (fst (resolve_normalisation n))) = fst (resolve_normalisation n)"
  by (simp add: resolve_normalisation_def v4_name_def legacy_v3_def)

lemma hash_of_sha256: "hash_of (hash_name SHA256) = Ok SHA256" by code_simp

lemma hash_of_sha512: "hash_of (hash_name SHA512) = Ok SHA512" by code_simp

lemma hash_of_name: "hash_of (hash_name h) = Ok h"
  by (cases h) (simp_all only: hash_of_sha256 hash_of_sha512)

lemma generate_digest_Ok:
  assumes "generate_digest env cd norm hname = Ok d"
  obtains h b where "hash_of hname = Ok h" and "dig_norm d = fst (resolve_normalisation norm)"
    and "normalise (registered_algorithms env) cd (dig_norm d) = Ok b"
    and "d = \<lparr>dig_hash = hash_name h, dig_norm = dig_norm d, dig_value = de_sum env h b\<rparr>"
  using assms
  by (auto simp: generate_digest_def descriptor_digest_def descriptor_sum_def Let_def bind_outcome_Ok_iff
      resolved_again)

section \<open>Pins\<close>

text \<open>Hashes are written as lower-case hex of their length.\<close>

definition hex_sums :: "('r, 'd) digest_env \<Rightarrow> bool" where
  "hex_sums env \<longleftrightarrow> (\<forall>h b. encoded_ok h (de_sum env h b))"

definition pinned_algorithm :: "string \<Rightarrow> bool" where
  "pinned_algorithm n \<longleftrightarrow> (let m = replace_char CHR ''/'' CHR ''.'' n in
     words False m \<and> replace_char CHR ''.'' CHR ''/'' m = n
     \<and> CHR '':'' \<notin> set m \<and> CHR ''+'' \<notin> set m \<and> n \<noteq> [])"

lemma pinned_algorithms: "list_all pinned_algorithm algorithm_names" by code_simp

lemma algorithm_pin:
  assumes "n \<in> set algorithm_names"
  shows "words False (replace_char CHR ''/'' CHR ''.'' n)"
    and "replace_char CHR ''.'' CHR ''/'' (replace_char CHR ''/'' CHR ''.'' n) = n"
    and "CHR '':'' \<notin> set (replace_char CHR ''/'' CHR ''.'' n)"
    and "CHR ''+'' \<notin> set (replace_char CHR ''/'' CHR ''.'' n)" and "n \<noteq> []"
  using pinned_algorithms assms by (auto simp: list_all_iff pinned_algorithm_def Let_def)

definition pin_name :: "hash \<Rightarrow> string" where
  "pin_name h = (case h of SHA256 \<Rightarrow> ''sha256'' | SHA512 \<Rightarrow> ''sha512'')"

definition pinned_hash :: "hash \<Rightarrow> bool" where
  "pinned_hash h \<longleftrightarrow> to_lower (filter (\<lambda>c. c \<noteq> CHR ''-'') (hash_name h)) = pin_name h
     \<and> word (pin_name h) \<and> CHR '':'' \<notin> set (pin_name h) \<and> CHR ''+'' \<notin> set (pin_name h)"

lemma pinned_hashes: "list_all pinned_hash [SHA256, SHA512]" by code_simp

lemma hash_of_sha256_pin: "hash_of (to_lower (pin_name SHA256)) = Ok SHA256" by code_simp

lemma hash_of_sha512_pin: "hash_of (to_lower (pin_name SHA512)) = Ok SHA512" by code_simp

lemma hash_pin:
  "to_lower (filter (\<lambda>c. c \<noteq> CHR ''-'') (hash_name h)) = pin_name h"
  "word (pin_name h)" "hash_of (to_lower (pin_name h)) = Ok h"
  "CHR '':'' \<notin> set (pin_name h)" "CHR ''+'' \<notin> set (pin_name h)"
  using pinned_hashes hash_of_sha256_pin hash_of_sha512_pin
  by (cases h; simp add: pinned_hash_def)+

text \<open>A digest with a hash name of the code and a value it could have comes back from its pin.\<close>

lemma parse_format_pin:
  assumes n: "n = [] \<or> n \<in> set algorithm_names" and v: "encoded_ok h v"
  shows "parse_digest_pin (format_digest_pin \<lparr>dig_hash = hash_name h, dig_norm = n, dig_value = v\<rparr>)
    = Ok \<lparr>dig_hash = hash_name h, dig_norm = n, dig_value = v\<rparr>"
proof -
  let ?norm = "replace_char CHR ''/'' CHR ''.'' n"
  let ?m = "if n \<noteq> [] then ?norm else []"
  let ?front = "(if n \<noteq> [] then ?norm @ ''+'' else []) @ pin_name h"
  have hex: "list_all hex_char v" "v \<noteq> []" "length v = hash_length h" "to_lower v = v"
    using v by (auto simp: encoded_ok_def list_all_iff hash_length_def to_lower_hex lower_hex_hex split: hash.splits)
  have parts: "CHR '':'' \<notin> set ?front" "n \<noteq> [] \<Longrightarrow> CHR ''+'' \<notin> set ?norm" "n \<noteq> [] \<Longrightarrow> words False ?norm"
    using n algorithm_pin(1,3,4) [of n] hash_pin(4) [of h] by auto
  have "cut_at CHR '':'' (?front @ '':'' @ v) = Some (?front, v)"
    using parts(1) by (simp add: cut_at_Some_iff)
  moreover have "cut_at CHR ''+'' ?front = (if n \<noteq> [] then Some (?norm, pin_name h) else None)"
    using parts(2) hash_pin(5) [of h] by (simp add: cut_at_Some_iff cut_at_None_iff)
  ultimately have "match_pin (?front @ '':'' @ v) = Some (?m, pin_name h, v)"
    unfolding match_pin_def using parts(3) hex(1,2) hash_pin(2) [of h] by simp
  moreover have "format_digest_pin \<lparr>dig_hash = hash_name h, dig_norm = n, dig_value = v\<rparr> = ?front @ '':'' @ v"
    by (simp add: format_digest_pin_def hash_pin(1))
  moreover have "replace_char CHR ''.'' CHR ''/'' ?m = n"
    using n algorithm_pin(2) [of n] by (auto simp: replace_char_def)
  ultimately show ?thesis by (simp only: parse_digest_pin_def) (simp add: hash_pin(3) hex)
qed

lemma generated_verifies:
  assumes "generate_digest env cd norm hname = Ok d"
  shows "verify_digest env cd d = Ok ()"
proof -
  obtain h b where d: "hash_of hname = Ok h" "dig_norm d = fst (resolve_normalisation norm)"
      "normalise (registered_algorithms env) cd (dig_norm d) = Ok b"
      "d = \<lparr>dig_hash = hash_name h, dig_norm = dig_norm d, dig_value = de_sum env h b\<rparr>"
    using generate_digest_Ok [OF assms] .
  have h: "dig_hash d = hash_name h" and v: "dig_value d = de_sum env h b"
    by (subst d(4), simp)+
  have n: "fst (resolve_normalisation (dig_norm d)) = dig_norm d" by (simp add: d(2) resolved_again)
  have "descriptor_sum env cd (dig_norm d) (dig_hash d) = Ok (dig_value d, h)"
    by (simp add: descriptor_sum_def d(3) h v hash_of_name)
  then show ?thesis by (simp add: verify_digest_def n equal_fold_def)
qed

lemma verify_normalized_pin_Ok: "verify_normalized_pin env cd p = Ok () \<longleftrightarrow> verify_digest env cd p = Ok ()"
  by (cases "descriptor_sum env cd (fst (resolve_normalisation (dig_norm p))) (dig_hash p)")
    (auto simp: verify_normalized_pin_def verify_digest_def generate_digest_def descriptor_digest_def resolved_again
      Let_def split: if_splits)

text \<open>A digest generated for a descriptor verifies against it, as a digest and as a pin, and writing it
  as a pin and parsing the pin gives the digest back; it names the algorithm an alias stands for
  and the canonical name of the hash.\<close>

theorem generated_digest_roundtrip:
  assumes "generate_digest env cd norm hname = Ok d" and "hex_sums env"
  shows "verify_digest env cd d = Ok () \<and> verify_normalized_pin env cd d = Ok ()
    \<and> parse_digest_pin (format_digest_pin d) = Ok d
    \<and> dig_norm d = fst (resolve_normalisation norm)"
proof -
  obtain h b where d: "dig_norm d = fst (resolve_normalisation norm)"
      "normalise (registered_algorithms env) cd (dig_norm d) = Ok b"
      "d = \<lparr>dig_hash = hash_name h, dig_norm = dig_norm d, dig_value = de_sum env h b\<rparr>"
    using generate_digest_Ok [OF assms(1)] .
  have v: "dig_value d = de_sum env h b" by (subst d(3), simp)
  have "parse_digest_pin (format_digest_pin d) = Ok d"
    using parse_format_pin [of "dig_norm d" h "dig_value d"] normalise_registered [OF d(2)] assms(2) d(3) v
    by (simp add: hex_sums_def)
  then show ?thesis using generated_verifies [OF assms(1)] d(1) by (simp add: verify_normalized_pin_Ok)
qed

section \<open>Signatures bind components\<close>

text \<open>The canonical text of a signed document determines the document up to the order of fields, and the
  hash does not collide on the texts at hand. The numbers of a signed document are decoded, one
  token for each float64, so texts that spell one number differently do not arise.\<close>

definition canonical_texts :: "('r, 'd) digest_env \<Rightarrow> json \<Rightarrow> json \<Rightarrow> bool" where
  "canonical_texts env w w' \<longleftrightarrow> (\<forall>c c'. canonicalize (de_codec env) w = Some c
     \<longrightarrow> canonicalize (de_codec env) w' = Some c' \<longrightarrow> de_text env c = de_text env c' \<longrightarrow> same_json w w')"

definition collision_free :: "('r, 'd) digest_env \<Rightarrow> json \<Rightarrow> json \<Rightarrow> bool" where
  "collision_free env w w' \<longleftrightarrow> (\<forall>h c c'. canonicalize (de_codec env) w = Some c
     \<longrightarrow> canonicalize (de_codec env) w' = Some c' \<longrightarrow> to_lower (de_sum env h (de_text env c)) = to_lower (de_sum env h (de_text env c'))
     \<longrightarrow> de_text env c = de_text env c')"

lemma resolved_v4: "fst (resolve_normalisation (v4_name alg)) = v4_name alg"
  by (cases alg) (simp_all add: resolve_normalisation_def v4_name_def legacy_v3_def)

lemma verified_text:
  assumes "normalisable (de_codec env) cd v j n ls" and "verify_digest env cd d = Ok ()"
    and "fst (resolve_normalisation (dig_norm d)) = v4_name alg"
  shows "\<exists>c h. canonicalize (de_codec env) (signed_view alg n ls (vdesc_component v)) = Some c
    \<and> hash_of (dig_hash d) = Ok h \<and> to_lower (de_sum env h (de_text env c)) = to_lower (dig_value d)"
  using assms(2) v4_view [OF assms(1), of alg]
  by (auto simp: verify_digest_def descriptor_sum_def assms(3) normalise_v4 bind_outcome_Ok_iff equal_fold_def
      split: outcome.splits option.splits if_splits)

text \<open>C3: A signature binds its component: two descriptors that verify against one signature made with
  a v4 algorithm, or with the legacy name of one, have the same name, version, provider and
  creation time, the same resources, sources and references, and the same signed labels with their
  values (of references, the labels the algorithm keeps), compared as they are signed. The hash
  must not collide on the two signed documents, and their canonical texts must differ where the
  documents differ by more than the order of fields; numbers there are float64 already, and
  strings valid UTF-8.\<close>

theorem signature_binds_component:
  assumes "verify_signature_digest env cd sig = Ok ()" and "verify_signature_digest env cd' sig = Ok ()"
    and "fst (resolve_normalisation (dig_norm (sig_digest sig))) = v4_name alg"
    and "normalisable (de_codec env) cd v j n ls" and "normalisable (de_codec env) cd' v' j' n' ls'"
    and "canonical_texts env (signed_view alg n ls (vdesc_component v)) (signed_view alg n' ls' (vdesc_component v'))"
    and "collision_free env (signed_view alg n ls (vdesc_component v)) (signed_view alg n' ls' (vdesc_component v'))"
  shows "same_component alg (n, ls, vdesc_component v) (n', ls', vdesc_component v')"
proof (rule signed_view_binds)
  let ?d = "(sig_digest sig)\<lparr>dig_norm := fst (resolve_normalisation (dig_norm (sig_digest sig)))\<rparr>"
  have d: "verify_digest env cd ?d = Ok ()" "verify_digest env cd' ?d = Ok ()"
    using assms(1,2) by (simp_all add: verify_signature_digest_def)
  have alg: "fst (resolve_normalisation (dig_norm ?d)) = v4_name alg"
    by (simp add: assms(3) resolved_v4)
  obtain c h where c: "canonicalize (de_codec env) (signed_view alg n ls (vdesc_component v)) = Some c"
      "hash_of (dig_hash ?d) = Ok h" "to_lower (de_sum env h (de_text env c)) = to_lower (dig_value ?d)"
    using verified_text [OF assms(4) d(1) alg] by blast
  obtain c' h' where c': "canonicalize (de_codec env) (signed_view alg n' ls' (vdesc_component v')) = Some c'"
      "hash_of (dig_hash ?d) = Ok h'" "to_lower (de_sum env h' (de_text env c')) = to_lower (dig_value ?d)"
    using verified_text [OF assms(5) d(2) alg] by blast
  then have "to_lower (de_sum env h (de_text env c)) = to_lower (de_sum env h (de_text env c'))" using c by simp
  then have "de_text env c = de_text env c'" using assms(7) c(1) c'(1) unfolding collision_free_def by blast
  then show "same_json (signed_view alg n ls (vdesc_component v)) (signed_view alg n' ls' (vdesc_component v'))"
    using assms(6) c(1) c'(1) unfolding canonical_texts_def by blast
qed

section \<open>What may be signed\<close>

lemma first_failure_Ok: "first_failure f xs = Ok () \<longleftrightarrow> (\<forall>x\<in>set xs. f x = Ok ())"
  by (induction xs) (auto simp: bind_outcome_Ok_iff)

definition digestible_resource :: "bool \<Rightarrow> ('r, 'd) resource \<Rightarrow> bool" where
  "digestible_resource fips r \<longleftrightarrow>
     (case usable_access (res_access r) of
        Ok True \<Rightarrow> (case res_digest r of Some d \<Rightarrow> complete_digest d | None \<Rightarrow> False)
      | Ok False \<Rightarrow> res_digest r = None
      | _ \<Rightarrow> False)
   \<and> (case res_digest r of
        Some d \<Rightarrow> fips \<and> dig_hash d \<noteq> [] \<longrightarrow> excluded_from_signature d \<or> approved_hash (dig_hash d)
      | None \<Rightarrow> True)"

definition digestible_reference :: "bool \<Rightarrow> reference \<Rightarrow> bool" where
  "digestible_reference fips r \<longleftrightarrow>
     complete_digest (ref_digest r) \<and> (fips \<longrightarrow> approved_hash (dig_hash (ref_digest r)))"

lemma reference_digest_checks:
  "digestible_reference fips r \<longleftrightarrow> check_reference_digest r = Ok () \<and> (fips \<longrightarrow> check_reference_hash r = Ok ())"
  by (auto simp: digestible_reference_def check_reference_digest_def check_reference_hash_def complete_digest_def Let_def)

lemma resource_checks:
  "digestible_resource fips r \<longleftrightarrow> check_resource_digest r = Ok () \<and> (fips \<longrightarrow> check_resource_hash r = Ok ())"
  by (cases "usable_access (res_access r)"; cases "res_digest r")
    (auto simp: digestible_resource_def check_resource_digest_def check_resource_hash_def split: bool.splits)

text \<open>A component may be signed exactly if each reference carries a complete digest, each resource
  with an access a complete one and each resource without an access none, with approved hashes in
  FIPS mode, where a digest excluded from signatures is exempt.\<close>

theorem safely_digestible_iff:
  "is_safely_digestible fips cd = Ok () \<longleftrightarrow>
     list_all (digestible_reference fips) (elements (comp_references cd))
   \<and> list_all (digestible_resource fips) (elements (comp_resources cd))"
  by (cases fips)
    (auto simp: is_safely_digestible_def validate_digest_hash_algorithms_def bind_outcome_Ok_iff first_failure_Ok
      list_all_iff reference_digest_checks resource_checks)

section \<open>Reading through a pin\<close>

definition pinned_read ::
    "('repo, 'r, 'd) repositories \<Rightarrow> 'repo \<Rightarrow> string \<Rightarrow> string \<Rightarrow> digest \<Rightarrow> 'repo \<Rightarrow> ('r, 'd) descriptor \<Rightarrow> bool" where
  "pinned_read ops repo component version p r cd \<longleftrightarrow>
     rp_pinnable ops repo \<and> rp_pin ops repo component version (format_digest_pin p) = Ok r
   \<and> rp_get ops r component version = Ok cd"

definition reads_verified ::
    "('r, 'd) digest_env \<Rightarrow> ('repo, 'r, 'd) repositories \<Rightarrow> 'repo \<Rightarrow> string \<Rightarrow> string \<Rightarrow> digest \<Rightarrow> 'repo
      \<Rightarrow> ('r, 'd) descriptor \<Rightarrow> bool" where
  "reads_verified env ops repo component version p r cd \<longleftrightarrow> approved_hash (dig_hash p) \<and>
     (if dig_norm p = [] then pinned_read ops repo component version p r cd
      else version \<noteq> [] \<and> r = repo \<and> rp_get ops repo component version = Ok cd \<and> verify_digest env cd p = Ok ())"

lemma get_pinned_Ok:
  "get_pinned env ops repo component version (Some p) = Ok (r, cd)
    \<longleftrightarrow> reads_verified env ops repo component version p r cd"
  by (auto simp: get_pinned_def reads_verified_def pinned_read_def bind_outcome_Ok_iff verify_normalized_pin_Ok
      split: outcome.splits if_splits)

text \<open>C12: A component version read by its artifact under a pin is the pinned one: an OCI pin is read
  from the artifact it names; under a normalised pin the descriptor verifies against the pin, and
  it was read by its version, or from the artifact its version resolved to, which is the pin that
  is returned.\<close>

theorem pinned_read_verified:
  assumes "get_by_artifact env ops repo component version (Some p) = Ok (r, cd, q)"
  shows "approved_hash (dig_hash p) \<and>
    (if dig_norm p = [] then q = Some p \<and> pinned_read ops repo component version p r cd
     else verify_digest env cd p = Ok () \<and> version \<noteq> [] \<and>
       (case q of
          None \<Rightarrow> r = repo \<and> rp_get ops repo component version = Ok cd
        | Some a \<Rightarrow> (\<exists>dgst. rp_resolve ops repo component version = Ok dgst \<and> parse_digest_pin dgst = Ok a)
            \<and> reads_verified env ops repo component version a r cd))"
  using assms
  by (auto simp: get_by_artifact_def unbound_read_def artifact_read_def bind_outcome_Ok_iff get_pinned_Ok
      verify_normalized_pin_Ok reads_verified_def split: if_splits outcome.splits)

section \<open>Content bound to its digest\<close>

text \<open>A digest handed over with content was computed from it.\<close>

definition computed_from :: "(hash \<Rightarrow> string \<Rightarrow> string) \<Rightarrow> content_digest option \<Rightarrow> content \<Rightarrow> bool" where
  "computed_from hsum computed c \<longleftrightarrow> (case computed of None \<Rightarrow> True | Some (h, v) \<Rightarrow> hsum h (content_bytes c) = v)"

lemma read_content_Ok:
  "read_content hsum c = Ok b \<longleftrightarrow> b = content_bytes c
    \<and> (case c of Verified (Some (h, v)) m b' \<Rightarrow> hsum h b' = v | _ \<Rightarrow> True)"
  by (cases "(hsum, c)" rule: read_content.cases) auto

lemma verify_content_blob:
  assumes "classify expected = Ok (Some (Kind_Blob, h, v))"
  shows "(\<exists>bc. verify_content_digest av expected c = Ok bc \<and> read_bound hsum av bc = Ok b)
    \<longleftrightarrow> read_content hsum c = Ok b \<and> hsum h b = v"
  using assms
  by (auto simp: verify_content_digest_def read_content_Ok bind_outcome_Ok_iff
      split: content.splits option.splits if_splits)

text \<open>C22: Content with a digest of its bytes can be read to its end through what \<open>Verify\<close> returns
  exactly if it can be read and has that digest, whether its producer computed a digest of it
  or not; nothing else is ever read.\<close>

theorem verified_content_iff:
  assumes "classify expected = Ok (Some (Kind_Blob, h, v))" and "computed_from hsum computed c"
  shows "(\<exists>bc. verify_precomputed av expected computed c = Ok bc \<and> read_bound hsum av bc = Ok b)
    \<longleftrightarrow> read_content hsum c = Ok b \<and> hsum h b = v"
proof (cases "\<exists>v'. computed = Some (h, v')")
  case True
  then show ?thesis using assms
    by (auto simp: verify_precomputed_def computed_from_def read_content_Ok bind_outcome_Ok_iff split: if_splits)
next
  case False
  then have "verify_precomputed av expected computed c = verify_content_digest av expected c"
    using assms(1) by (auto simp: verify_precomputed_def split: option.splits)
  then show ?thesis using verify_content_blob [OF assms(1)] by simp
qed

section \<open>Witnesses\<close>

text \<open>An environment with the codec of the sample descriptors, whose hash is the number of bytes modulo 10.\<close>

definition sample_sum :: "hash \<Rightarrow> string \<Rightarrow> string" where
  "sample_sum h b = replicate (hash_length h - 1) CHR ''0'' @ [char_of (48 + length b mod 10)]"

definition sample_digests :: "(nat, json) digest_env" where
  "sample_digests = \<lparr>de_codec = sample_env, de_clock = Some, de_reload = Some,
     de_text = (\<lambda>j. case j of JObj fs \<Rightarrow> concat (map fst fs) | _ \<Rightarrow> ''?''),
     de_v1_text = (\<lambda>j. ''?''), de_sum = sample_sum\<rparr>"

lemma sample_hex: "hex_sums sample_digests"
proof -
  have "lower_hex (char_of (48 + n mod 10 :: nat))" for n :: nat
  proof -
    have le: "n mod 10 \<le> 9" using mod_less_divisor [of 10 n] by linarith
    then have "of_char (char_of (48 + n mod 10 :: nat)) = (48 + n mod 10 :: nat)"
      by (simp add: of_char_of)
    then show ?thesis using le by (simp add: lower_hex_def less_eq_char_def)
  qed
  then show ?thesis
    by (simp add: hex_sums_def encoded_ok_def sample_digests_def sample_sum_def list_all_iff lower_hex_def
        hash_length_def split: hash.splits)
qed

definition released_image :: "(nat, json) descriptor" where "released_image = sample_descriptor [image_resource]"

definition moved_image :: "(nat, json) descriptor" where "moved_image = sample_descriptor [moved_resource]"

lemma images_normalisable:
  "normalisable sample_env released_image (v2_of released_image) (json_of released_image) ''ocm'' provider_labels"
  "normalisable sample_env moved_image (v2_of moved_image) (json_of moved_image) ''ocm'' provider_labels"
  unfolding released_image_def moved_image_def by (rule sample_normalisable, simp)+

lemma moved_view:
  "signed_view V4alpha2 n ls (vdesc_component (v2_of moved_image)) = signed_view V4alpha2 n ls (vdesc_component (v2_of released_image))"
proof -
  have "covered V4alpha2 (vdesc_component (v2_of released_image)) = covered V4alpha2 (vdesc_component (v2_of moved_image))"
    by code_simp
  then show ?thesis
    using signed_view_covered [of V4alpha2 n ls "vdesc_component (v2_of released_image)"]
      signed_view_covered [of V4alpha2 n ls "vdesc_component (v2_of moved_image)"] by simp
qed

definition image_digest :: digest where
  "image_digest = \<lparr>dig_hash = ''SHA-256'', dig_norm = v4_name V4alpha2, dig_value = sample_sum SHA256
     (de_text sample_digests (signed_view V4alpha2 ''ocm'' provider_labels (vdesc_component (v2_of released_image))))\<rparr>"

lemma legacy_resolved: "fst (resolve_normalisation ''jsonNormalisation/v3'') = v4_name V4alpha2"
  by (simp add: resolve_normalisation_def legacy_v3_def)

lemma sample_env_canonicalize: "canonicalize sample_env j = Some j" "de_codec sample_digests = sample_env"
    "de_sum sample_digests = sample_sum"
  by (simp_all add: sample_codec_def sample_digests_def)

lemma images_sum:
  "normalise (registered_algorithms sample_digests) released_image (v4_name V4alpha2) = Ok (de_text sample_digests
     (signed_view V4alpha2 ''ocm'' provider_labels (vdesc_component (v2_of released_image))))"
  "normalise (registered_algorithms sample_digests) moved_image (v4_name V4alpha2) = Ok (de_text sample_digests
     (signed_view V4alpha2 ''ocm'' provider_labels (vdesc_component (v2_of released_image))))"
  using v4_view [OF images_normalisable(1), of V4alpha2] v4_view [OF images_normalisable(2), of V4alpha2]
  by (simp_all add: normalise_v4 sample_env_canonicalize moved_view)

lemma lower_sha256: "hash_of ''sha256'' = Ok SHA256" by code_simp

lemma images_signed:
  "generate_digest sample_digests released_image ''jsonNormalisation/v3'' ''sha256'' = Ok image_digest"
  "generate_digest sample_digests moved_image ''jsonNormalisation/v3'' ''sha256'' = Ok image_digest"
  unfolding generate_digest_def descriptor_digest_def legacy_resolved resolved_v4 descriptor_sum_def Let_def images_sum
  by (simp_all add: lower_sha256 hash_name_def image_digest_def sample_env_canonicalize)

lemmas images_verify = images_signed [THEN generated_verifies]

theorem generated_digest_roundtrip_witness:
  "verify_digest sample_digests released_image image_digest = Ok ()
   \<and> parse_digest_pin (format_digest_pin image_digest) = Ok image_digest"
  using generated_digest_roundtrip [OF images_signed(1) sample_hex] by blast

definition image_signature :: signature where
  "image_signature = \<lparr>sig_name = ''release'', sig_digest = image_digest,
     sig_signature = \<lparr>si_algorithm = ''RSASSA-PSS'', si_value = ''00'', si_media = [], si_issuer = []\<rparr>,
     sig_timestamp = None\<rparr>"

lemma image_verifies:
  "verify_signature_digest sample_digests released_image image_signature = Ok ()"
  "verify_signature_digest sample_digests moved_image image_signature = Ok ()"
  "fst (resolve_normalisation (dig_norm (sig_digest image_signature))) = v4_name V4alpha2"
proof -
  have n: "dig_norm image_digest = v4_name V4alpha2" by (simp add: image_digest_def)
  then have same: "image_digest\<lparr>dig_norm := v4_name V4alpha2\<rparr> = image_digest" by simp
  then show "verify_signature_digest sample_digests released_image image_signature = Ok ()"
    "verify_signature_digest sample_digests moved_image image_signature = Ok ()"
    by (simp_all add: verify_signature_digest_def image_signature_def n resolved_v4 same images_verify)
  show "fst (resolve_normalisation (dig_norm (sig_digest image_signature))) = v4_name V4alpha2"
    by (simp add: image_signature_def n resolved_v4)
qed

lemma distinct_view:
  "json_distinct (signed_view V4alpha2 ''ocm'' provider_labels (vdesc_component (v2_of released_image)))"
  by code_simp

theorem signature_binds_component_witness:
  "same_component V4alpha2 (''ocm'', provider_labels, vdesc_component (v2_of released_image))
     (''ocm'', provider_labels, vdesc_component (v2_of moved_image))"
proof (rule signature_binds_component [OF image_verifies])
  show "normalisable (de_codec sample_digests) released_image (v2_of released_image) (json_of released_image) ''ocm'' provider_labels"
    "normalisable (de_codec sample_digests) moved_image (v2_of moved_image) (json_of moved_image) ''ocm'' provider_labels"
    using images_normalisable by (simp_all add: sample_digests_def)
  show "canonical_texts sample_digests (signed_view V4alpha2 ''ocm'' provider_labels (vdesc_component (v2_of released_image)))
      (signed_view V4alpha2 ''ocm'' provider_labels (vdesc_component (v2_of moved_image)))"
    by (simp add: canonical_texts_def moved_view same_json_refl distinct_view)
  show "collision_free sample_digests (signed_view V4alpha2 ''ocm'' provider_labels (vdesc_component (v2_of released_image)))
      (signed_view V4alpha2 ''ocm'' provider_labels (vdesc_component (v2_of moved_image)))"
    by (simp add: collision_free_def moved_view)
qed

text \<open>A repository whose versions resolve to one artifact, and its view of that artifact.\<close>

definition sample_repositories :: "(bool, nat, json) repositories" where
  "sample_repositories = \<lparr>rp_get = (\<lambda>_ _ _. Ok released_image), rp_pinnable = (\<lambda>_. True),
     rp_pin = (\<lambda>_ _ _ _. Ok True),
     rp_resolve = (\<lambda>_ _ _. Ok (''sha256:'' @ replicate 64 CHR ''a''))\<rparr>"

definition image_artifact :: digest where
  "image_artifact = \<lparr>dig_hash = ''SHA-256'', dig_norm = [], dig_value = replicate 64 CHR ''a''\<rparr>"

lemma artifact_parsed:
  "parse_digest_pin (''sha256:'' @ replicate 64 CHR ''a'') = Ok image_artifact"
  "approved_hash ''SHA-256''" "v4_name V4alpha2 \<noteq> []"
  by code_simp+

lemma image_read:
  "get_by_artifact sample_digests sample_repositories False ''acme.org/app'' ''1.0.0'' (Some image_digest)
    = Ok (True, released_image, Some image_artifact)"
proof -
  have "get_pinned sample_digests sample_repositories False ''acme.org/app'' ''1.0.0'' (Some image_artifact)
      = Ok (True, released_image)"
    unfolding get_pinned_Ok
    by (simp add: reads_verified_def image_artifact_def artifact_parsed(2) pinned_read_def sample_repositories_def)
  moreover have "verify_normalized_pin sample_digests released_image image_digest = Ok ()"
    by (simp add: verify_normalized_pin_Ok images_verify)
  moreover have "dig_norm image_digest \<noteq> []" "dig_hash image_digest = ''SHA-256''"
    by (simp_all add: image_digest_def artifact_parsed(3))
  ultimately have "artifact_read sample_digests sample_repositories False ''acme.org/app'' ''1.0.0'' (Some image_digest)
      (''sha256:'' @ replicate 64 CHR ''a'') = Ok (True, released_image, Some image_artifact)"
    unfolding artifact_read_def artifact_parsed(1) by (simp add: artifact_parsed(2))
  moreover have "rp_pinnable sample_repositories False"
      "rp_resolve sample_repositories False ''acme.org/app'' ''1.0.0'' = Ok (''sha256:'' @ replicate 64 CHR ''a'')"
    by (simp_all add: sample_repositories_def)
  ultimately show ?thesis
    unfolding get_by_artifact_def using \<open>dig_norm image_digest \<noteq> []\<close> by simp
qed

theorem pinned_read_verified_witness:
  "approved_hash (dig_hash image_digest) \<and> dig_norm image_digest \<noteq> [] \<and> verify_digest sample_digests released_image image_digest = Ok ()"
proof -
  have "dig_norm image_digest \<noteq> []" by (simp add: image_digest_def artifact_parsed(3))
  with pinned_read_verified [OF image_read] show ?thesis by simp
qed

definition image_content :: content where "image_content = Plain (Some ''text/plain'') ''layer''"

definition layer_digest :: digest where
  "layer_digest = \<lparr>dig_hash = ''sha256'', dig_norm = ''genericBlobDigest/v1'', dig_value = sample_sum SHA256 ''layer''\<rparr>"

theorem verified_content_iff_witness:
  "\<exists>bc. verify_precomputed None (Some layer_digest) (Some (SHA512, sample_sum SHA512 ''layer'')) image_content = Ok bc
    \<and> read_bound sample_sum None bc = Ok ''layer''"
proof -
  have "classify (Some layer_digest) = Ok (Some (Kind_Blob, SHA256, sample_sum SHA256 ''layer''))" by code_simp
  moreover have "computed_from sample_sum (Some (SHA512, sample_sum SHA512 ''layer'')) image_content" by code_simp
  moreover have "read_content sample_sum image_content = Ok ''layer''" by code_simp
  ultimately show ?thesis using verified_content_iff by blast
qed

end
