(* ===== verification/Constructor_Spec.thy ===== *)
theory Constructor_Spec
  imports Digests Versioning
begin

text \<open>
  The component constructor's own data, \<open>bindings/go/constructor/runtime/constructor.go\<close>, its
  conversions to and from descriptors (\<open>convert_desc.go\<close>), the validation of an access or input
  (\<open>validateSpecification\<close>), and \<open>Validate\<close> of \<open>descriptor/runtime/validate.go\<close>.

  The constructor has labels, digests, references and so on of its own, which the conversions
  copy field by field.
\<close>

section \<open>Data\<close>

record cons_label =
  cl_name :: string
  cl_value :: raw_message
  cl_signing :: bool
  cl_version :: string

record cons_digest =
  cdig_hash :: string
  cdig_norm :: string
  cdig_value :: string

record cons_source_ref =
  csr_selector :: "identity option"
  csr_labels :: "cons_label slice"

record cons_provider =
  cprov_name :: string
  cprov_labels :: "cons_label slice"

record cons_element =
  ce_name :: string
  ce_version :: string
  ce_labels :: "cons_label slice"
  ce_extra :: "identity option"

record ('r, 'd) cons_resource = cons_element +
  cr_source_refs :: "cons_source_ref slice"
  cr_type :: string
  cr_relation :: string
  cr_ownership :: string
  cr_digest :: "cons_digest option"
  cr_access :: "('r, 'd) typed_value option"
  cr_input :: "('r, 'd) typed_value option"

record ('r, 'd) cons_source = cons_element +
  cs_type :: string
  cs_access :: "('r, 'd) typed_value option"
  cs_input :: "('r, 'd) typed_value option"

record cons_reference = cons_element +
  cf_component :: string
  cf_digest :: "cons_digest option"

record ('r, 'd) cons_component =
  cc_name :: string
  cc_version :: string
  cc_labels :: "cons_label slice"
  cc_created :: string
  cc_provider :: cons_provider
  cc_resources :: "('r, 'd) cons_resource slice"
  cc_sources :: "('r, 'd) cons_source slice"
  cc_references :: "cons_reference slice"

section \<open>Identities\<close>

definition cons_identity :: "'a cons_element_scheme \<Rightarrow> identity" where
  "cons_identity m =
     put_nonempty ''version'' (ce_version m)
       (put_nonempty ''name'' (ce_name m) (case ce_extra m of None \<Rightarrow> [] | Some i \<Rightarrow> i))"

definition cons_component_identity :: "('r, 'd) cons_component \<Rightarrow> identity" where
  "cons_component_identity c = put_nonempty ''version'' (cc_version c) (put_nonempty ''name'' (cc_name c) [])"

definition cons_reference_identity :: "cons_reference \<Rightarrow> identity" where
  "cons_reference_identity r = put_nonempty ''version'' (ce_version r) (put_nonempty ''name'' (cf_component r) [])"

section \<open>To descriptors\<close>

definition to_desc_label :: "cons_label \<Rightarrow> label" where
  "to_desc_label l = \<lparr>lab_name = cl_name l, lab_value = cl_value l, lab_signing = cl_signing l, lab_version = cl_version l\<rparr>"

definition to_desc_labels :: "cons_label slice \<Rightarrow> label slice" where
  "to_desc_labels = map_slice to_desc_label"

definition to_desc_digest :: "cons_digest \<Rightarrow> digest" where
  "to_desc_digest d = \<lparr>dig_hash = cdig_hash d, dig_norm = cdig_norm d, dig_value = cdig_value d\<rparr>"

definition to_desc_source_ref :: "cons_source_ref \<Rightarrow> source_ref" where
  "to_desc_source_ref r = \<lparr>sr_selector = csr_selector r, sr_labels = to_desc_labels (csr_labels r)\<rparr>"

definition to_desc_source_refs :: "cons_source_ref slice \<Rightarrow> source_ref slice" where
  "to_desc_source_refs = map_slice to_desc_source_ref"

text \<open>\<open>DeepCopyTyped\<close> of a nil object is a nil interface.\<close>

definition copy_access :: "('r, 'd) typed_value option \<Rightarrow> ('r, 'd) typed_value option" where
  "copy_access acc = (case acc of Some (RawPtr None) \<Rightarrow> None | _ \<Rightarrow> acc)"

definition to_desc_resource :: "('r, 'd) cons_resource \<Rightarrow> ('r, 'd) resource" where
  "to_desc_resource r =
     \<lparr>el_name = ce_name r, el_version = ce_version r, el_labels = to_desc_labels (ce_labels r), el_extra = ce_extra r,
      res_source_refs = to_desc_source_refs (cr_source_refs r), res_type = cr_type r, res_relation = cr_relation r,
      res_access = copy_access (cr_access r), res_digest = map_option to_desc_digest (cr_digest r), res_created = 0\<rparr>"

definition to_desc_source :: "('r, 'd) cons_source \<Rightarrow> ('r, 'd) source" where
  "to_desc_source s =
     \<lparr>el_name = ce_name s, el_version = ce_version s, el_labels = to_desc_labels (ce_labels s), el_extra = ce_extra s,
      src_type = cs_type s, src_access = copy_access (cs_access s)\<rparr>"

definition to_desc_reference :: "cons_reference \<Rightarrow> reference" where
  "to_desc_reference r =
     \<lparr>el_name = ce_name r, el_version = ce_version r, el_labels = to_desc_labels (ce_labels r), el_extra = ce_extra r,
      ref_component = cf_component r,
      ref_digest = (case cf_digest r of
          Some d \<Rightarrow> to_desc_digest d | None \<Rightarrow> \<lparr>dig_hash = [], dig_norm = [], dig_value = []\<rparr>)\<rparr>"

definition to_desc_component :: "('r, 'd) cons_component \<Rightarrow> ('r, 'd) component" where
  "to_desc_component c =
     \<lparr>comp_name = cc_name c, comp_version = cc_version c, comp_labels = to_desc_labels (cc_labels c),
      comp_created = cc_created c, comp_contexts = None,
      comp_provider = \<lparr>prov_name = cprov_name (cc_provider c), prov_labels = to_desc_labels (cprov_labels (cc_provider c))\<rparr>,
      comp_resources = map_slice to_desc_resource (cc_resources c),
      comp_sources = map_slice to_desc_source (cc_sources c),
      comp_references = map_slice to_desc_reference (cc_references c)\<rparr>"

text \<open>\<open>ConvertToDescriptor\<close> converts the first component of a constructor.\<close>

definition to_descriptor :: "('r, 'd) cons_component list option \<Rightarrow> ('r, 'd) descriptor option" where
  "to_descriptor cs = (case cs of
       Some (c # _) \<Rightarrow> Some \<lparr>desc_schema = ''v2'', desc_component = to_desc_component c, desc_signatures = None\<rparr>
     | _ \<Rightarrow> None)"

section \<open>From descriptors\<close>

definition from_desc_label :: "label \<Rightarrow> cons_label" where
  "from_desc_label l = \<lparr>cl_name = lab_name l, cl_value = lab_value l, cl_signing = lab_signing l, cl_version = lab_version l\<rparr>"

definition from_desc_labels :: "label slice \<Rightarrow> cons_label slice" where
  "from_desc_labels = map_slice from_desc_label"

definition from_desc_digest :: "digest \<Rightarrow> cons_digest" where
  "from_desc_digest d = \<lparr>cdig_hash = dig_hash d, cdig_norm = dig_norm d, cdig_value = dig_value d\<rparr>"

definition from_desc_source_ref :: "source_ref \<Rightarrow> cons_source_ref" where
  "from_desc_source_ref r = \<lparr>csr_selector = sr_selector r, csr_labels = from_desc_labels (sr_labels r)\<rparr>"

definition from_desc_source_refs :: "source_ref slice \<Rightarrow> cons_source_ref slice" where
  "from_desc_source_refs = map_slice from_desc_source_ref"

definition from_desc_resource :: "('r, 'd) resource \<Rightarrow> ('r, 'd) cons_resource" where
  "from_desc_resource r =
     \<lparr>ce_name = el_name r, ce_version = el_version r, ce_labels = from_desc_labels (el_labels r), ce_extra = el_extra r,
      cr_source_refs = from_desc_source_refs (res_source_refs r), cr_type = res_type r, cr_relation = res_relation r,
      cr_ownership = [], cr_digest = map_option from_desc_digest (res_digest r),
      cr_access = copy_access (res_access r), cr_input = None\<rparr>"

definition from_desc_source :: "('r, 'd) source \<Rightarrow> ('r, 'd) cons_source" where
  "from_desc_source s =
     \<lparr>ce_name = el_name s, ce_version = el_version s, ce_labels = from_desc_labels (el_labels s), ce_extra = el_extra s,
      cs_type = src_type s, cs_access = copy_access (src_access s), cs_input = None\<rparr>"

definition from_desc_reference :: "reference \<Rightarrow> cons_reference" where
  "from_desc_reference r = (let d = ref_digest r in
     \<lparr>ce_name = el_name r, ce_version = el_version r, ce_labels = from_desc_labels (el_labels r), ce_extra = el_extra r,
      cf_component = ref_component r,
      cf_digest = (if dig_hash d \<noteq> [] \<or> dig_norm d \<noteq> [] \<or> dig_value d \<noteq> [] then Some (from_desc_digest d) else None)\<rparr>)"

definition from_desc_component :: "('r, 'd) component \<Rightarrow> ('r, 'd) cons_component" where
  "from_desc_component c =
     \<lparr>cc_name = comp_name c, cc_version = comp_version c, cc_labels = from_desc_labels (comp_labels c),
      cc_created = comp_created c,
      cc_provider = \<lparr>cprov_name = prov_name (comp_provider c), cprov_labels = from_desc_labels (prov_labels (comp_provider c))\<rparr>,
      cc_resources = map_slice from_desc_resource (comp_resources c),
      cc_sources = map_slice from_desc_source (comp_sources c),
      cc_references = map_slice from_desc_reference (comp_references c)\<rparr>"

section \<open>Validation\<close>

datatype element_kind = Resources | Sources | References

text \<open>Elements whose identities have the same hash are reported as duplicates.\<close>

definition has_duplicates :: "identity list \<Rightarrow> bool" where
  "has_duplicates ids \<longleftrightarrow> \<not> distinct (map canonical_hash_v1 ids)"

definition validate_descriptor :: "('r, 'd) descriptor \<Rightarrow> (element_kind list, unit) outcome" where
  "validate_descriptor d = (let c = desc_component d;
       errs = (if has_duplicates (map to_identity (elements (comp_resources c))) then [Resources] else [])
         @ (if has_duplicates (map to_identity (elements (comp_sources c))) then [Sources] else [])
         @ (if has_duplicates (map to_identity (elements (comp_references c))) then [References] else [])
     in if errs = [] then Ok () else Fail errs)"

datatype spec_error = Neither_Set | Both_Set | Spec_Undecodable | Spec_Invalid | Spec_Not_Normalised

text \<open>
  What a decoded specification can do: strict decoding into a fresh object, and for types that
  have them, their validation and their normal form.
\<close>

record ('r, 'd) spec_codec =
  sc_decode :: "('r, 'd) typed_value \<Rightarrow> ('r, 'd) object \<Rightarrow> ('r, 'd) typed option"
  sc_validate :: "('r, 'd) typed \<Rightarrow> bool option"
  sc_normalize :: "('r, 'd) typed \<Rightarrow> ('r, 'd) typed option option"

definition spec_type :: "('r, 'd) typed_value \<Rightarrow> (spec_error, go_type) outcome" where
  "spec_type spec = (case spec of
       RawPtr None \<Rightarrow> Panic | RawPtr (Some r) \<Rightarrow> Ok (raw_type r) | ObjPtr x \<Rightarrow> Ok (otype x))"

definition decode_specification ::
    "('r, 'd) spec_codec \<Rightarrow> ('r, 'd) scheme \<Rightarrow> ('r, 'd) typed_value \<Rightarrow> go_type \<Rightarrow> (spec_error, ('r, 'd) typed) outcome" where
  "decode_specification sc s spec t = (case new_object s t of
       Ok obj \<Rightarrow> (case sc_decode sc spec obj of Some x \<Rightarrow> Ok x | None \<Rightarrow> Fail Spec_Undecodable)
     | Fail e \<Rightarrow> Fail Spec_Undecodable
     | Panic \<Rightarrow> Panic)"

definition validate_specification ::
    "('r, 'd) codec \<Rightarrow> ('r, 'd) spec_codec \<Rightarrow> ('r, 'd) scheme option \<Rightarrow> ('r, 'd) typed_value
      \<Rightarrow> (spec_error, ('r, 'd) typed_value) outcome" where
  "validate_specification env sc scheme spec = (case scheme of
       None \<Rightarrow> Ok spec
     | Some s \<Rightarrow> bind_outcome (spec_type spec) (\<lambda>t.
         if type_is_empty t \<or> \<not> is_registered s t then Ok spec
         else bind_outcome (decode_specification sc s spec t) (\<lambda>x.
           (case sc_validate sc x of
              None \<Rightarrow> Ok spec
            | Some False \<Rightarrow> Fail Spec_Invalid
            | Some True \<Rightarrow> (case sc_normalize sc x of
                  None \<Rightarrow> Ok spec
                | Some None \<Rightarrow> Fail Spec_Not_Normalised
                | Some (Some n) \<Rightarrow> (case convert_to_raw env s (Some (ObjPtr n)) of
                      Ok r \<Rightarrow> Ok (RawPtr (Some r)) | Fail e \<Rightarrow> Fail Spec_Not_Normalised | Panic \<Rightarrow> Panic))))))"

text \<open>Returns the access to keep: a valid access that has a normal form is replaced by it.\<close>

definition validate_with_schemes ::
    "('r, 'd) codec \<Rightarrow> ('r, 'd) spec_codec \<Rightarrow> ('r, 'd) scheme option \<Rightarrow> ('r, 'd) scheme option
      \<Rightarrow> ('r, 'd) typed_value option \<Rightarrow> ('r, 'd) typed_value option
      \<Rightarrow> (spec_error, ('r, 'd) typed_value option) outcome" where
  "validate_with_schemes env sc accesses inputs acc inp = (case (acc, inp) of
       (None, None) \<Rightarrow> Fail Neither_Set
     | (Some _, Some _) \<Rightarrow> Fail Both_Set
     | (Some a, None) \<Rightarrow> bind_outcome (validate_specification env sc accesses a) (\<lambda>a'. Ok (Some a'))
     | (None, Some i) \<Rightarrow> bind_outcome (validate_specification env sc inputs i) (\<lambda>_. Ok acc))"

end
