(* ===== verification/Constructor.thy ===== *)
theory Constructor
  imports Constructor_Spec
begin

text \<open>
  Construction of component versions, \<open>bindings/go/constructor\<close>: the resources, sources and
  references of one component (\<open>construct.go\<close>), the components of a graph in the order of the
  processor (\<open>processor.go\<close>), and what the discovery asks for (\<open>discoverer.go\<close>).

  Everything outside the constructor is a state of its own that the environment's functions read
  and change: repositories, input methods, digest processors, credentials, callbacks. They are
  known by handles. A worker of the processor, and each goroutine of a component, is taken as atomic:
  the model has them one after the other, workers in the order of a list the theorems leave open and
  goroutines in an order the environment chooses. Callbacks do not change the values they are shown.
\<close>

section \<open>Actions\<close>

datatype cons_error =
    Outside_Failed string
  | Outside_Not_Found
  | Invalid_Specification "spec_error list"
  | No_Access_Or_Input
  | No_Access_Present
  | Nothing_Processed
  | Ownership_Unsupported
  | Incomplete_Reference_Digest
  | Verify_Only_Reference_Digest string
  | Reference_Hash digest_error
  | Reference_Digest_Mismatch
  | Reference_Digest_Failed digest_error
  | Version_Exists
  | Invalid_Component_Version string
  | Invalid_Element_Versions "(element_kind \<times> string) list"
  | Duplicate_Elements "element_kind list"
  | Missing_Dependency string
  | Not_In_Graph string
  | Already_Processed string
  | Invalid_Identity string
  | Neither_Component

type_synonym handle = nat

type_synonym ('s, 'a) outside_call = "'s \<Rightarrow> (cons_error, 'a) outcome \<times> 's"

text \<open>
  The state of a construction: the outside, the digests of components computed so far, the
  vertices of the graph with the descriptors of those that were processed, and the component
  versions handed to a target repository.
\<close>

record ('s, 'r, 'd) cons_state =
  st_outside :: 's
  st_cache :: "(string, digest) gomap"
  st_graph :: "(string, ('r, 'd) descriptor option) gomap"
  st_added :: "('r, 'd) descriptor list"

type_synonym ('s, 'r, 'd, 'a) action = "('s, 'r, 'd) cons_state \<Rightarrow> (cons_error, 'a) outcome \<times> ('s, 'r, 'd) cons_state"

definition give :: "(cons_error, 'a) outcome \<Rightarrow> ('s, 'r, 'd, 'a) action" where
  "give r st = (r, st)"

definition bind_action :: "('s, 'r, 'd, 'a) action \<Rightarrow> ('a \<Rightarrow> ('s, 'r, 'd, 'b) action) \<Rightarrow> ('s, 'r, 'd, 'b) action" where
  "bind_action m f st = (case m st of
       (Ok a, st') \<Rightarrow> f a st' | (Fail e, st') \<Rightarrow> (Fail e, st') | (Panic, st') \<Rightarrow> (Panic, st'))"

definition outside :: "('s, 'a) outside_call \<Rightarrow> ('s, 'r, 'd, 'a) action" where
  "outside c st = (case c (st_outside st) of (r, s) \<Rightarrow> (r, st\<lparr>st_outside := s\<rparr>))"

text \<open>The result of an action, failed or not, as a value.\<close>

definition attempt :: "('s, 'r, 'd, 'a) action \<Rightarrow> ('s, 'r, 'd, (cons_error, 'a) outcome) action" where
  "attempt m st = (case m st of (Panic, st') \<Rightarrow> (Panic, st') | (r, st') \<Rightarrow> (Ok r, st'))"

definition deref :: "'a option \<Rightarrow> (cons_error, 'a) outcome" where
  "deref p = (case p of None \<Rightarrow> Panic | Some a \<Rightarrow> Ok a)"

section \<open>The environment\<close>

datatype conflict_policy = Conflict_Replace | Conflict_Abort | Conflict_Skip

text \<open>What an input method returns: a blob to upload, or the element itself.\<close>

record 'a input_result =
  ir_processed :: "'a option"
  ir_blob :: "handle option"

record ('s, 'r, 'd, 'v) cons_env =
  en_digests :: "('r, 'd) digest_env"
  en_semver :: "'v semver"
  en_registry :: "registry option"
  en_policy :: conflict_policy
  en_copy :: bool
  en_spec_codec :: "('r, 'd) spec_codec"
  en_accesses :: "('r, 'd) scheme option"
  en_inputs :: "('r, 'd) scheme option"
  \<comment> \<open>the order in which the goroutines of a component finish\<close>
  en_order :: "('r, 'd) cons_component \<Rightarrow> nat list"
  en_upload_order :: "nat list \<Rightarrow> nat list"
  \<comment> \<open>repositories\<close>
  en_target :: "('r, 'd) cons_component \<Rightarrow> ('s, handle) outside_call"
  en_external :: "(string \<Rightarrow> string \<Rightarrow> ('s, handle) outside_call) option"
  en_get :: "handle \<Rightarrow> string \<Rightarrow> string \<Rightarrow> ('s, ('r, 'd) descriptor) outside_call"
  en_add :: "handle \<Rightarrow> ('r, 'd) descriptor \<Rightarrow> ('s, unit) outside_call"
  en_add_resource :: "handle \<Rightarrow> string \<Rightarrow> string \<Rightarrow> ('r, 'd) resource \<Rightarrow> handle \<Rightarrow> ('s, ('r, 'd) resource option) outside_call"
  en_add_source :: "handle \<Rightarrow> string \<Rightarrow> string \<Rightarrow> ('r, 'd) source \<Rightarrow> handle \<Rightarrow> ('s, ('r, 'd) source option) outside_call"
  en_local :: "handle \<Rightarrow> string \<Rightarrow> string \<Rightarrow> identity \<Rightarrow> ('s, handle \<times> ('r, 'd) resource) outside_call"
  en_owns :: "handle \<Rightarrow> bool"
  en_add_ownership :: "handle \<Rightarrow> string \<Rightarrow> string \<Rightarrow> ('r, 'd) resource option \<Rightarrow> handle option \<Rightarrow> ('s, unit) outside_call"
  en_resource_repository :: "(('r, 'd) cons_resource \<Rightarrow> ('s, handle) outside_call) option"
  en_repository_identity :: "handle \<Rightarrow> ('r, 'd) cons_resource \<Rightarrow> (cons_error, identity option) outcome"
  \<comment> \<open>accesses\<close>
  en_is_local :: "('r, 'd) typed_value option \<Rightarrow> bool"
  en_local_blob :: "string \<Rightarrow> ('r, 'd) typed_value"
  en_media :: "handle \<Rightarrow> string option"
  \<comment> \<open>input methods, digest processors, credentials\<close>
  en_resource_method :: "('r, 'd) cons_resource \<Rightarrow> ('s, handle) outside_call"
  en_resource_identity :: "handle \<Rightarrow> ('r, 'd) cons_resource \<Rightarrow> (cons_error, identity option) outcome"
  en_run_resource :: "handle \<Rightarrow> ('r, 'd) cons_resource \<Rightarrow> handle option \<Rightarrow> ('s, ('r, 'd) resource input_result option) outside_call"
  en_source_method :: "('r, 'd) cons_source \<Rightarrow> ('s, handle) outside_call"
  en_source_identity :: "handle \<Rightarrow> ('r, 'd) cons_source \<Rightarrow> (cons_error, identity option) outcome"
  en_run_source :: "handle \<Rightarrow> ('r, 'd) cons_source \<Rightarrow> handle option \<Rightarrow> ('s, ('r, 'd) source input_result option) outside_call"
  en_digest_processor :: "(('r, 'd) resource \<Rightarrow> ('s, handle option) outside_call) option"
  en_processor_identity :: "handle \<Rightarrow> ('r, 'd) resource \<Rightarrow> (cons_error, identity option) outcome"
  en_process_digest :: "handle \<Rightarrow> ('r, 'd) resource \<Rightarrow> handle option \<Rightarrow> ('s, ('r, 'd) resource option) outside_call"
  en_resolver :: "(identity \<Rightarrow> ('s, handle option) outside_call) option"
  \<comment> \<open>callbacks\<close>
  on_start_component :: "('r, 'd) cons_component \<Rightarrow> ('s, unit) outside_call"
  on_end_component :: "(cons_error, ('r, 'd) descriptor) outcome \<Rightarrow> ('s, unit) outside_call"
  on_start_resource :: "('r, 'd) cons_resource \<Rightarrow> ('s, unit) outside_call"
  on_end_resource :: "(cons_error, ('r, 'd) resource) outcome \<Rightarrow> ('s, unit) outside_call"
  on_start_source :: "('r, 'd) cons_source \<Rightarrow> ('s, unit) outside_call"
  on_end_source :: "(cons_error, ('r, 'd) source) outcome \<Rightarrow> ('s, unit) outside_call"
  on_start_reference :: "cons_reference \<Rightarrow> ('s, unit) outside_call"
  on_end_reference :: "(cons_error, reference) outcome \<Rightarrow> ('s, unit) outside_call"

section \<open>Credentials and versions\<close>

definition resolve_creds :: "('s, 'r, 'd, 'v) cons_env \<Rightarrow> identity option \<Rightarrow> ('s, 'r, 'd, handle option) action" where
  "resolve_creds env identity = (case (en_resolver env, identity) of
       (Some resolve, Some i) \<Rightarrow> bind_action (attempt (outside (resolve i))) (\<lambda>r.
         give (if r = Fail Outside_Not_Found then Ok None else r))
     | _ \<Rightarrow> give (Ok None))"

text \<open>An identity that cannot be determined means no credentials.\<close>

definition creds_for ::
    "('s, 'r, 'd, 'v) cons_env \<Rightarrow> (cons_error, identity option) outcome \<Rightarrow> ('s, 'r, 'd, handle option) action" where
  "creds_for env identity = (case identity of
       Ok i \<Rightarrow> resolve_creds env i | Fail _ \<Rightarrow> give (Ok None) | Panic \<Rightarrow> give Panic)"

definition creds_if_resolver ::
    "('s, 'r, 'd, 'v) cons_env \<Rightarrow> (cons_error, identity option) outcome \<Rightarrow> ('s, 'r, 'd, handle option) action" where
  "creds_if_resolver env identity = (if en_resolver env = None then give (Ok None) else creds_for env identity)"

definition version_valid :: "('s, 'r, 'd, 'v) cons_env \<Rightarrow> string \<Rightarrow> bool" where
  "version_valid env v = registry_valid (en_semver env)
     (case en_registry env of Some r \<Rightarrow> r | None \<Rightarrow> default_registry) v"

definition validate_component_version :: "('s, 'r, 'd, 'v) cons_env \<Rightarrow> string \<Rightarrow> (cons_error, unit) outcome" where
  "validate_component_version env v = (if version_valid env v then Ok () else Fail (Invalid_Component_Version v))"

definition invalid_versions :: "('s, 'r, 'd, 'v) cons_env \<Rightarrow> element_kind \<Rightarrow> 'a element_meta_scheme list \<Rightarrow> (element_kind \<times> string) list" where
  "invalid_versions env kind es = map (\<lambda>e. (kind, el_name e)) (filter (\<lambda>e. \<not> version_valid env (el_version e)) es)"

definition validate_versions :: "('s, 'r, 'd, 'v) cons_env \<Rightarrow> ('r, 'd) descriptor \<Rightarrow> (cons_error, unit) outcome" where
  "validate_versions env d = (let c = desc_component d;
       errs = invalid_versions env Resources (elements (comp_resources c))
         @ invalid_versions env Sources (elements (comp_sources c))
         @ invalid_versions env References (elements (comp_references c))
     in if errs = [] then Ok () else Fail (Invalid_Element_Versions errs))"

section \<open>Resources\<close>

definition colocated_media :: "string option \<Rightarrow> string" where
  "colocated_media media = (case media of
       Some m \<Rightarrow> if m = [] then ''application/octet-stream'' else m | None \<Rightarrow> ''application/octet-stream'')"

definition always_owned :: "('r, 'd) cons_resource \<Rightarrow> bool" where
  "always_owned r \<longleftrightarrow> cr_ownership r = ''Always''"

definition default_resource :: "string \<Rightarrow> string \<Rightarrow> ('r, 'd) cons_resource \<Rightarrow> ('r, 'd) cons_resource" where
  "default_resource relation version r =
     (let r1 = (if cr_relation r = [] then r\<lparr>cr_relation := relation\<rparr> else r) in
      if ce_version r1 = [] then r1\<lparr>ce_version := version\<rparr> else r1)"

definition add_colocated_resource ::
    "('s, 'r, 'd, 'v) cons_env \<Rightarrow> handle \<Rightarrow> string \<Rightarrow> string \<Rightarrow> ('r, 'd) cons_resource \<Rightarrow> handle
      \<Rightarrow> ('s, 'r, 'd, ('r, 'd) resource option) action" where
  "add_colocated_resource env repo component version r0 blob =
     (let r = default_resource ''local'' version r0;
          res = (to_desc_resource r)\<lparr>res_access := Some (en_local_blob env (colocated_media (en_media env blob)))\<rparr>
      in bind_action (outside (en_add_resource env repo component version res blob)) (\<lambda>uploaded.
         if always_owned r then
           (if en_owns env repo then
              bind_action (outside (en_add_ownership env repo component version uploaded None)) (\<lambda>_. give (Ok uploaded))
            else give (Fail Ownership_Unsupported))
         else give (Ok uploaded)))"

definition process_resource_with_input ::
    "('s, 'r, 'd, 'v) cons_env \<Rightarrow> handle \<Rightarrow> ('r, 'd) cons_resource \<Rightarrow> string \<Rightarrow> string
      \<Rightarrow> ('s, 'r, 'd, ('r, 'd) resource) action" where
  "process_resource_with_input env repo r component version =
     bind_action (outside (en_resource_method env r)) (\<lambda>m.
     bind_action (creds_for env (en_resource_identity env m r)) (\<lambda>creds.
     bind_action (outside (en_run_resource env m r creds)) (\<lambda>p.
     bind_action (give (deref p)) (\<lambda>result.
     bind_action (case (ir_blob result, ir_processed result) of
         (Some b, _) \<Rightarrow> add_colocated_resource env repo component version r b
       | (None, Some q) \<Rightarrow> if always_owned r then give (Fail Ownership_Unsupported) else give (Ok (Some q))
       | (None, None) \<Rightarrow> give (Ok None)) (\<lambda>processed.
     give (case processed of Some q \<Rightarrow> Ok q | None \<Rightarrow> Fail Nothing_Processed))))))"

text \<open>Without a processor the resource keeps no digest; the warning names the type of its access.\<close>

definition process_digest :: "('s, 'r, 'd, 'v) cons_env \<Rightarrow> ('r, 'd) resource \<Rightarrow> ('s, 'r, 'd, ('r, 'd) resource option) action" where
  "process_digest env res = (case en_digest_processor env of
       None \<Rightarrow> give (Ok (Some res))
     | Some get \<Rightarrow> bind_action (attempt (outside (get res))) (\<lambda>r. case r of
         Ok (Some p) \<Rightarrow> bind_action (creds_if_resolver env (en_processor_identity env p res)) (\<lambda>creds.
           outside (en_process_digest env p res creds))
       | _ \<Rightarrow> give (bind_outcome (deref (res_access res)) (\<lambda>_. Ok (Some res)))))"

definition record_ownership ::
    "('s, 'r, 'd, 'v) cons_env \<Rightarrow> ('r, 'd) cons_resource \<Rightarrow> string \<Rightarrow> string \<Rightarrow> ('r, 'd) resource option
      \<Rightarrow> ('s, 'r, 'd, unit) action" where
  "record_ownership env r component version res =
     (if \<not> always_owned r then give (Ok ())
      else (case en_resource_repository env of
          None \<Rightarrow> give (Fail Ownership_Unsupported)
        | Some get \<Rightarrow> bind_action (outside (get r)) (\<lambda>repo.
            if \<not> en_owns env repo then give (Fail Ownership_Unsupported)
            else bind_action (creds_if_resolver env (en_repository_identity env repo r)) (\<lambda>creds.
              outside (en_add_ownership env repo component version res creds)))))"

definition process_resource_with_access ::
    "('s, 'r, 'd, 'v) cons_env \<Rightarrow> ('r, 'd) cons_resource \<Rightarrow> string \<Rightarrow> string
      \<Rightarrow> ('s, 'r, 'd, ('r, 'd) resource) action" where
  "process_resource_with_access env r0 component version =
     (let r = default_resource ''external'' version r0 in
      bind_action (process_digest env (to_desc_resource r)) (\<lambda>res.
      bind_action (record_ownership env r component version res) (\<lambda>_. give (deref res))))"

definition process_resource ::
    "('s, 'r, 'd, 'v) cons_env \<Rightarrow> handle \<Rightarrow> ('r, 'd) cons_resource \<Rightarrow> string \<Rightarrow> string
      \<Rightarrow> ('s, 'r, 'd, ('r, 'd) resource) action" where
  "process_resource env repo r component version =
     bind_action
       (if cr_input r \<noteq> None then process_resource_with_input env repo r component version
        else if cr_access r \<noteq> None then process_resource_with_access env r component version
        else give (Fail No_Access_Or_Input))
       (\<lambda>res. give (if res_access res = None then Fail No_Access_Present else Ok res))"

section \<open>Sources\<close>

definition default_source :: "string \<Rightarrow> ('r, 'd) cons_source \<Rightarrow> ('r, 'd) cons_source" where
  "default_source version s = (if ce_version s = [] then s\<lparr>ce_version := version\<rparr> else s)"

definition add_colocated_source ::
    "('s, 'r, 'd, 'v) cons_env \<Rightarrow> handle \<Rightarrow> string \<Rightarrow> string \<Rightarrow> ('r, 'd) cons_source \<Rightarrow> handle
      \<Rightarrow> ('s, 'r, 'd, ('r, 'd) source option) action" where
  "add_colocated_source env repo component version s0 blob =
     (let s = default_source version s0;
          src = (to_desc_source s)\<lparr>src_access := Some (en_local_blob env (case en_media env blob of Some m \<Rightarrow> m | None \<Rightarrow> []))\<rparr>
      in outside (en_add_source env repo component version src blob))"

definition process_source_with_input ::
    "('s, 'r, 'd, 'v) cons_env \<Rightarrow> handle \<Rightarrow> ('r, 'd) cons_source \<Rightarrow> string \<Rightarrow> string
      \<Rightarrow> ('s, 'r, 'd, ('r, 'd) source) action" where
  "process_source_with_input env repo s component version =
     bind_action (outside (en_source_method env s)) (\<lambda>m.
     bind_action (creds_for env (en_source_identity env m s)) (\<lambda>creds.
     bind_action (outside (en_run_source env m s creds)) (\<lambda>p.
     bind_action (give (deref p)) (\<lambda>result.
     bind_action (case (ir_blob result, ir_processed result) of
         (Some b, _) \<Rightarrow> add_colocated_source env repo component version s b
       | (None, q) \<Rightarrow> give (Ok q)) (\<lambda>processed.
     give (case processed of Some q \<Rightarrow> Ok q | None \<Rightarrow> Fail Nothing_Processed))))))"

definition process_source ::
    "('s, 'r, 'd, 'v) cons_env \<Rightarrow> handle \<Rightarrow> ('r, 'd) cons_source \<Rightarrow> string \<Rightarrow> string
      \<Rightarrow> ('s, 'r, 'd, ('r, 'd) source) action" where
  "process_source env repo s component version =
     bind_action
       (if cs_input s \<noteq> None then process_source_with_input env repo s component version
        else give (Ok (to_desc_source (default_source version s))))
       (\<lambda>src. give (if src_access src = None then Fail No_Access_Present else Ok src))"

section \<open>References\<close>

definition calculate_digest :: "('s, 'r, 'd, 'v) cons_env \<Rightarrow> ('r, 'd) descriptor \<Rightarrow> (cons_error, digest) outcome" where
  "calculate_digest env d = (case descriptor_digest (en_digests env) d (v4_name V4alpha3) ''SHA-256'' of
       Ok dig \<Rightarrow> Ok dig | Fail e \<Rightarrow> Fail (Reference_Digest_Failed e) | Panic \<Rightarrow> Panic)"

definition get_component_digest ::
    "('s, 'r, 'd, 'v) cons_env \<Rightarrow> string \<Rightarrow> ('r, 'd) descriptor \<Rightarrow> ('s, 'r, 'd, digest) action" where
  "get_component_digest env key d st = (case map_of (st_cache st) key of
       Some dig \<Rightarrow> (Ok dig, st)
     | None \<Rightarrow> (case calculate_digest env d of
           Ok dig \<Rightarrow> (Ok dig, st\<lparr>st_cache := mput key dig (st_cache st)\<rparr>)
         | Fail e \<Rightarrow> (Fail e, st)
         | Panic \<Rightarrow> (Panic, st)))"

text \<open>A digest that is given is verified and kept, in canonical spelling.\<close>

definition keep_pinned ::
    "('s, 'r, 'd, 'v) cons_env \<Rightarrow> ('r, 'd) descriptor \<Rightarrow> reference \<Rightarrow> (cons_error, reference) outcome" where
  "keep_pinned env d ref = (let pinned = ref_digest ref in
     if \<not> complete_digest pinned then Fail Incomplete_Reference_Digest
     else if verify_only (dig_norm pinned) then Fail (Verify_Only_Reference_Digest (dig_norm pinned))
     else (case hash_of (dig_hash pinned) of
         Fail e \<Rightarrow> Fail (Reference_Hash e)
       | Panic \<Rightarrow> Panic
       | Ok h \<Rightarrow> (case verify_digest (en_digests env) d pinned of
             Fail e \<Rightarrow> Fail (if e = Digest_Mismatch then Reference_Digest_Mismatch else Reference_Digest_Failed e)
           | Panic \<Rightarrow> Panic
           | Ok _ \<Rightarrow> Ok (ref\<lparr>ref_digest := pinned\<lparr>dig_hash := hash_name h, dig_value := to_lower (dig_value pinned)\<rparr>\<rparr>))))"

definition process_reference ::
    "('s, 'r, 'd, 'v) cons_env \<Rightarrow> cons_reference \<Rightarrow> ('r, 'd) descriptor \<Rightarrow> ('s, 'r, 'd, reference) action" where
  "process_reference env r d =
     (if cf_digest r \<noteq> None then give (keep_pinned env d (to_desc_reference r))
      else bind_action (get_component_digest env (identity_string (cons_reference_identity r)) d)
        (\<lambda>dig. give (Ok ((to_desc_reference r)\<lparr>ref_digest := dig\<rparr>))))"

section \<open>One component\<close>

datatype cons_task = Resource_task nat | Source_task nat | Reference_task nat

definition cons_tasks :: "('r, 'd) cons_component \<Rightarrow> cons_task list" where
  "cons_tasks c = map Resource_task [0..<length (elements (cc_resources c))]
     @ map Source_task [0..<length (elements (cc_sources c))]
     @ map Reference_task [0..<length (elements (cc_references c))]"

text \<open>An element is processed between its callbacks; the second one may replace its error.\<close>

definition with_callbacks ::
    "('s, unit) outside_call \<Rightarrow> ((cons_error, 'a) outcome \<Rightarrow> ('s, unit) outside_call)
      \<Rightarrow> ('s, 'r, 'd, 'a) action \<Rightarrow> ('s, 'r, 'd, 'a) action" where
  "with_callbacks start finish body =
     bind_action (outside start) (\<lambda>_.
     bind_action (attempt body) (\<lambda>r.
     bind_action (outside (finish r)) (\<lambda>_. give r)))"

definition set_at :: "nat \<Rightarrow> 'a \<Rightarrow> 'a slice \<Rightarrow> 'a slice" where
  "set_at i x s = map_option (\<lambda>xs. xs[i := x]) s"

definition run_task ::
    "('s, 'r, 'd, 'v) cons_env \<Rightarrow> handle \<Rightarrow> ('r, 'd) cons_component \<Rightarrow> (string, ('r, 'd) descriptor) gomap
      \<Rightarrow> cons_task \<Rightarrow> ('r, 'd) component \<Rightarrow> ('s, 'r, 'd, ('r, 'd) component) action" where
  "run_task env repo c referenced t d = (case t of
       Resource_task i \<Rightarrow> (let r = elements (cc_resources c) ! i in
         bind_action (with_callbacks (on_start_resource env r) (on_end_resource env)
             (process_resource env repo r (cc_name c) (cc_version c)))
           (\<lambda>x. give (Ok (d\<lparr>comp_resources := set_at i x (comp_resources d)\<rparr>))))
     | Source_task i \<Rightarrow> (let s = elements (cc_sources c) ! i in
         bind_action (with_callbacks (on_start_source env s) (on_end_source env)
             (process_source env repo s (cc_name c) (cc_version c)))
           (\<lambda>x. give (Ok (d\<lparr>comp_sources := set_at i x (comp_sources d)\<rparr>))))
     | Reference_task i \<Rightarrow> (let r = elements (cc_references c) ! i in
         bind_action (with_callbacks (on_start_reference env r) (on_end_reference env)
             (bind_action (give (deref (map_of referenced (identity_string (cons_identity r)))))
               (process_reference env r)))
           (\<lambda>x. give (Ok (d\<lparr>comp_references := set_at i x (comp_references d)\<rparr>)))))"

text \<open>All goroutines run; the group returns the first error.\<close>

fun run_tasks ::
    "('t \<Rightarrow> ('r, 'd) component \<Rightarrow> ('s, 'r, 'd, ('r, 'd) component) action) \<Rightarrow> 't list \<Rightarrow> ('r, 'd) component
      \<Rightarrow> cons_error option \<Rightarrow> ('s, 'r, 'd, ('r, 'd) component) action" where
  "run_tasks f [] d err st = (case err of None \<Rightarrow> (Ok d, st) | Some e \<Rightarrow> (Fail e, st))"
| "run_tasks f (t # ts) d err st = (case f t d st of
       (Ok d', st') \<Rightarrow> run_tasks f ts d' err st'
     | (Fail e, st') \<Rightarrow> run_tasks f ts d (case err of None \<Rightarrow> Some e | Some e' \<Rightarrow> Some e') st'
     | (Panic, st') \<Rightarrow> (Panic, st'))"

definition process_descriptor ::
    "('s, 'r, 'd, 'v) cons_env \<Rightarrow> handle \<Rightarrow> ('r, 'd) cons_component \<Rightarrow> (string, ('r, 'd) descriptor) gomap
      \<Rightarrow> ('r, 'd) component \<Rightarrow> ('s, 'r, 'd, ('r, 'd) component) action" where
  "process_descriptor env repo c referenced d =
     run_tasks (run_task env repo c referenced) (map (\<lambda>k. cons_tasks c ! k) (en_order env c)) d None"

text \<open>The existing version to keep, if any.\<close>

definition process_conflict ::
    "('s, 'r, 'd, 'v) cons_env \<Rightarrow> handle \<Rightarrow> ('r, 'd) cons_component \<Rightarrow> ('s, 'r, 'd, ('r, 'd) descriptor option) action" where
  "process_conflict env repo c =
     (if en_policy env = Conflict_Replace then give (Ok None)
      else bind_action (attempt (outside (en_get env repo (cc_name c) (cc_version c)))) (\<lambda>r.
        give (case r of
            Ok d \<Rightarrow> if en_policy env = Conflict_Abort then Fail Version_Exists else Ok (Some d)
          | Fail e \<Rightarrow> if e = Outside_Not_Found then Ok None else Fail e
          | Panic \<Rightarrow> Panic)))"

definition add_component_version :: "('s, 'r, 'd, 'v) cons_env \<Rightarrow> handle \<Rightarrow> ('r, 'd) descriptor \<Rightarrow> ('s, 'r, 'd, unit) action" where
  "add_component_version env repo d st = outside (en_add env repo d) (st\<lparr>st_added := st_added st @ [d]\<rparr>)"

definition create_base_descriptor :: "('r, 'd) cons_component \<Rightarrow> ('r, 'd) descriptor" where
  "create_base_descriptor c = \<lparr>desc_schema = ''v2'', desc_component = to_desc_component c, desc_signatures = None\<rparr>"

definition finish_component ::
    "('s, 'r, 'd, 'v) cons_env \<Rightarrow> handle \<Rightarrow> ('r, 'd) descriptor \<Rightarrow> ('s, 'r, 'd, ('r, 'd) descriptor) action" where
  "finish_component env repo d =
     bind_action (give (case validate_descriptor d of
         Ok u \<Rightarrow> Ok u | Fail ks \<Rightarrow> Fail (Duplicate_Elements ks) | Panic \<Rightarrow> Panic)) (\<lambda>_.
     bind_action (give (validate_versions env d)) (\<lambda>_.
     bind_action (add_component_version env repo d) (\<lambda>_. give (Ok d))))"

definition construct_component ::
    "('s, 'r, 'd, 'v) cons_env \<Rightarrow> ('r, 'd) cons_component \<Rightarrow> (string, ('r, 'd) descriptor) gomap
      \<Rightarrow> ('s, 'r, 'd, ('r, 'd) descriptor) action" where
  "construct_component env c referenced =
     bind_action (outside (en_target env c)) (\<lambda>repo.
     bind_action (process_conflict env repo c) (\<lambda>existing. case existing of
       Some d \<Rightarrow> give (Ok d)
     | None \<Rightarrow>
         bind_action (give (validate_component_version env (cc_version c))) (\<lambda>_.
         bind_action (process_descriptor env repo c referenced (desc_component (create_base_descriptor c))) (\<lambda>comp.
         finish_component env repo ((create_base_descriptor c)\<lparr>desc_component := comp\<rparr>)))))"

section \<open>The components of a graph\<close>

definition load_descriptor :: "string \<Rightarrow> ('s, 'r, 'd, ('r, 'd) descriptor) action" where
  "load_descriptor key st = ((case map_of (st_graph st) key of
       Some (Some d) \<Rightarrow> Ok d | _ \<Rightarrow> Fail (Missing_Dependency key)), st)"

definition store_descriptor :: "('r, 'd) descriptor \<Rightarrow> ('s, 'r, 'd, unit) action" where
  "store_descriptor d st = (let key = identity_string (component_identity (desc_component d)) in
     case map_of (st_graph st) key of
       None \<Rightarrow> (Fail (Not_In_Graph key), st)
     | Some (Some _) \<Rightarrow> (Fail (Already_Processed key), st)
     | Some None \<Rightarrow> (Ok (), st\<lparr>st_graph := mput key (Some d) (st_graph st)\<rparr>))"

text \<open>The descriptors a component refers to, by the identities of its references.\<close>

fun load_referenced ::
    "cons_reference list \<Rightarrow> (string, ('r, 'd) descriptor) gomap
      \<Rightarrow> ('s, 'r, 'd, (string, ('r, 'd) descriptor) gomap) action" where
  "load_referenced [] m = give (Ok m)"
| "load_referenced (r # rs) m =
     bind_action (load_descriptor (identity_string (cons_reference_identity r)))
       (\<lambda>d. load_referenced rs (mput (identity_string (cons_identity r)) d m))"

definition process_constructor_component ::
    "('s, 'r, 'd, 'v) cons_env \<Rightarrow> ('r, 'd) cons_component \<Rightarrow> ('s, 'r, 'd, unit) action" where
  "process_constructor_component env c =
     bind_action (load_referenced (elements (cc_references c)) []) (\<lambda>referenced.
     bind_action (with_callbacks (on_start_component env c) (on_end_component env)
       (construct_component env c referenced)) store_descriptor)"

text \<open>A component of another repository, with the resources stored there as local blobs.\<close>

record ('r, 'd) external_component =
  xc_descriptor :: "('r, 'd) descriptor"
  xc_source :: "handle option"
  xc_local :: "nat list"

definition copy_resource ::
    "('s, 'r, 'd, 'v) cons_env \<Rightarrow> handle \<Rightarrow> handle option \<Rightarrow> nat \<Rightarrow> ('r, 'd) component \<Rightarrow> ('s, 'r, 'd, ('r, 'd) component) action" where
  "copy_resource env repo source i d =
     bind_action (give (deref source)) (\<lambda>s.
     bind_action (outside (en_local env s (comp_name d) (comp_version d) (to_identity (elements (comp_resources d) ! i))))
       (\<lambda>(content, res).
     bind_action (outside (en_add_resource env repo (comp_name d) (comp_version d) res content)) (\<lambda>uploaded.
     bind_action (give (deref uploaded)) (\<lambda>x.
       give (Ok (d\<lparr>comp_resources := set_at i x (comp_resources d)\<rparr>))))))"

definition process_external_component ::
    "('s, 'r, 'd, 'v) cons_env \<Rightarrow> ('r, 'd) external_component \<Rightarrow> ('s, 'r, 'd, unit) action" where
  "process_external_component env x =
     (if \<not> en_copy env then store_descriptor (xc_descriptor x)
      else
        bind_action (outside (en_target env (from_desc_component (desc_component (xc_descriptor x))))) (\<lambda>repo.
        bind_action (run_tasks (copy_resource env repo (xc_source x)) (en_upload_order env (xc_local x))
            (desc_component (xc_descriptor x)) None) (\<lambda>c.
        (let d = (xc_descriptor x)\<lparr>desc_component := c\<rparr> in
           bind_action (add_component_version env repo d) (\<lambda>_. store_descriptor d)))))"

record ('r, 'd) node_value =
  nv_constructor :: "('r, 'd) cons_component option"
  nv_external :: "('r, 'd) external_component option"

definition process_value :: "('s, 'r, 'd, 'v) cons_env \<Rightarrow> ('r, 'd) node_value \<Rightarrow> ('s, 'r, 'd, unit) action" where
  "process_value env v = (case (nv_constructor v, nv_external v) of
       (Some c, _) \<Rightarrow> process_constructor_component env c
     | (None, Some x) \<Rightarrow> process_external_component env x
     | (None, None) \<Rightarrow> give (Fail Neither_Component))"

text \<open>
  The workers of the processor that were started, in the order in which they finish. A failure does
  not undo or stop the others: they run on, and the group returns the first error. A panic ends the
  program.
\<close>

fun process_values ::
    "('s, 'r, 'd, 'v) cons_env \<Rightarrow> (string \<Rightarrow> ('r, 'd) node_value) \<Rightarrow> string list \<Rightarrow> ('s, 'r, 'd, unit) action" where
  "process_values env vals [] = give (Ok ())"
| "process_values env vals (k # ks) =
     bind_action (attempt (process_value env (vals k))) (\<lambda>r.
     bind_action (attempt (process_values env vals ks)) (\<lambda>rs. give (bind_outcome r (\<lambda>_. rs))))"

section \<open>Discovery\<close>

definition resolve_constructor_component ::
    "('r, 'd) cons_component list \<Rightarrow> string \<Rightarrow> ('r, 'd) cons_component option" where
  "resolve_constructor_component cs key = find (\<lambda>c. identity_string (cons_component_identity c) = key) cs"

fun local_indices :: "(('r, 'd) typed_value option \<Rightarrow> bool) \<Rightarrow> nat \<Rightarrow> ('r, 'd) resource list \<Rightarrow> nat list" where
  "local_indices is_local i [] = []"
| "local_indices is_local i (r # rs) =
     (if is_local (res_access r) then i # local_indices is_local (Suc i) rs else local_indices is_local (Suc i) rs)"

definition resolve_external_component ::
    "('s, 'r, 'd, 'v) cons_env \<Rightarrow> string \<Rightarrow> ('s, 'r, 'd, ('r, 'd) external_component) action" where
  "resolve_external_component env key = (case parse_identity key of
       Fail _ \<Rightarrow> give (Fail (Invalid_Identity key))
     | Panic \<Rightarrow> give Panic
     | Ok i \<Rightarrow> (case en_external env of
           None \<Rightarrow> give Panic
         | Some provide \<Rightarrow>
             bind_action (outside (provide (lookup i ''name'') (lookup i ''version''))) (\<lambda>repo.
             bind_action (outside (en_get env repo (lookup i ''name'') (lookup i ''version''))) (\<lambda>d.
             give (Ok (if en_copy env
               then \<lparr>xc_descriptor = d, xc_source = Some repo,
                     xc_local = local_indices (en_is_local env) 0 (elements (comp_resources (desc_component d)))\<rparr>
               else \<lparr>xc_descriptor = d, xc_source = None, xc_local = []\<rparr>))))))"

definition resolve_component_node ::
    "('s, 'r, 'd, 'v) cons_env \<Rightarrow> ('r, 'd) cons_component list \<Rightarrow> string \<Rightarrow> ('s, 'r, 'd, ('r, 'd) node_value) action" where
  "resolve_component_node env cs key = (case resolve_constructor_component cs key of
       Some c \<Rightarrow> give (Ok \<lparr>nv_constructor = Some c, nv_external = None\<rparr>)
     | None \<Rightarrow> bind_action (resolve_external_component env key)
         (\<lambda>x. give (Ok \<lparr>nv_constructor = None, nv_external = Some x\<rparr>)))"

definition discover_children :: "('r, 'd) node_value \<Rightarrow> (cons_error, string list) outcome" where
  "discover_children v = (case (nv_constructor v, nv_external v) of
       (Some c, _) \<Rightarrow> Ok (map (\<lambda>r. identity_string (cons_reference_identity r)) (elements (cc_references c)))
     | (None, Some x) \<Rightarrow> Ok (map (\<lambda>r. identity_string (to_component_identity r))
         (elements (comp_references (desc_component (xc_descriptor x)))))
     | (None, None) \<Rightarrow> Fail Neither_Component)"

section \<open>The specifications of a constructor\<close>

text \<open>All violations are collected; a normal form replaces the access it belongs to.\<close>

definition validate_resource_spec ::
    "('s, 'r, 'd, 'v) cons_env \<Rightarrow> ('r, 'd) cons_resource \<Rightarrow> ('r, 'd) cons_resource \<times> (spec_error, unit) outcome" where
  "validate_resource_spec env r =
     (case validate_with_schemes (de_codec (en_digests env)) (en_spec_codec env) (en_accesses env) (en_inputs env)
         (cr_access r) (cr_input r) of
        Ok a \<Rightarrow> (r\<lparr>cr_access := a\<rparr>, Ok ()) | Fail e \<Rightarrow> (r, Fail e) | Panic \<Rightarrow> (r, Panic))"

definition validate_source_spec ::
    "('s, 'r, 'd, 'v) cons_env \<Rightarrow> ('r, 'd) cons_source \<Rightarrow> ('r, 'd) cons_source \<times> (spec_error, unit) outcome" where
  "validate_source_spec env s =
     (case validate_with_schemes (de_codec (en_digests env)) (en_spec_codec env) (en_accesses env) (en_inputs env)
         (cs_access s) (cs_input s) of
        Ok a \<Rightarrow> (s\<lparr>cs_access := a\<rparr>, Ok ()) | Fail e \<Rightarrow> (s, Fail e) | Panic \<Rightarrow> (s, Panic))"

fun collect_spec_errors :: "(spec_error, unit) outcome list \<Rightarrow> (unit, spec_error list) outcome" where
  "collect_spec_errors [] = Ok []"
| "collect_spec_errors (Ok _ # rs) = collect_spec_errors rs"
| "collect_spec_errors (Fail e # rs) = bind_outcome (collect_spec_errors rs) (\<lambda>es. Ok (e # es))"
| "collect_spec_errors (Panic # rs) = Panic"

definition validate_specifications ::
    "('s, 'r, 'd, 'v) cons_env \<Rightarrow> ('r, 'd) cons_component list
      \<Rightarrow> ('r, 'd) cons_component list \<times> (cons_error, unit) outcome" where
  "validate_specifications env cs =
     (if en_accesses env = None \<and> en_inputs env = None then (cs, Ok ())
      else
        (map (\<lambda>c. c\<lparr>cc_resources := map_slice (\<lambda>r. fst (validate_resource_spec env r)) (cc_resources c),
                     cc_sources := map_slice (\<lambda>s. fst (validate_source_spec env s)) (cc_sources c)\<rparr>) cs,
         (case collect_spec_errors (concat (map (\<lambda>c.
              map (\<lambda>r. snd (validate_resource_spec env r)) (elements (cc_resources c))
              @ map (\<lambda>s. snd (validate_source_spec env s)) (elements (cc_sources c))) cs)) of
            Ok [] \<Rightarrow> Ok () | Ok es \<Rightarrow> Fail (Invalid_Specification es) | Fail _ \<Rightarrow> Panic | Panic \<Rightarrow> Panic)))"

end
