(* ===== verification/Constructor_Properties.thy ===== *)
theory Constructor_Properties
  imports Constructor Digest_Properties
begin

text \<open>
  Properties of the construction of component versions. An action is described by what it keeps
  of the state: processing resources and sources only touches the outside, processing references
  only the cache of digests, whose entries are digests of the processed descriptors they are
  recorded for. From this follows the invariant of a construction: whatever is handed to a target
  repository is valid and its references carry digests that verify.
\<close>

section \<open>What an action keeps\<close>

named_theorems framed

definition same_records :: "('s, 'r, 'd) cons_state \<Rightarrow> ('s, 'r, 'd) cons_state \<Rightarrow> bool" where
  "same_records st st' \<longleftrightarrow> st_cache st' = st_cache st \<and> st_graph st' = st_graph st \<and> st_added st' = st_added st"

definition frame :: "('s, 'r, 'd, 'a) action \<Rightarrow> bool" where
  "frame m \<longleftrightarrow> (\<forall>st. same_records st (snd (m st)))"

lemma frame_give [framed]: "frame (give r)"
  by (simp add: frame_def give_def same_records_def)

lemma frame_outside [framed]: "frame (outside c)"
  by (simp add: frame_def outside_def same_records_def split: prod.split)

lemma frame_bind [framed]: "frame m \<Longrightarrow> (\<And>a. frame (f a)) \<Longrightarrow> frame (bind_action m f)"
  by (auto simp: frame_def bind_action_def same_records_def split: prod.splits outcome.splits) (metis snd_conv)+

lemma frame_attempt [framed]: "frame m \<Longrightarrow> frame (attempt m)"
  by (auto simp: frame_def attempt_def split: prod.splits outcome.splits) (metis snd_conv)+

lemma bind_action_Ok_iff:
  "bind_action m f st = (Ok b, st'') \<longleftrightarrow> (\<exists>a st'. m st = (Ok a, st') \<and> f a st' = (Ok b, st''))"
  by (auto simp: bind_action_def split: prod.splits outcome.splits)

lemma give_iff [simp]: "give r st = (r', st') \<longleftrightarrow> r' = r \<and> st' = st"
  by (auto simp: give_def)

lemma frame_creds [framed]: "frame (resolve_creds env i)" "frame (creds_for env r)" "frame (creds_if_resolver env r)"
  by (auto simp: resolve_creds_def creds_for_def creds_if_resolver_def intro!: framed split: option.splits outcome.splits)

lemma frame_process_digest [framed]: "frame (process_digest env res)"
  by (auto simp: process_digest_def intro!: framed split: option.splits outcome.splits)

lemma frame_record_ownership [framed]: "frame (record_ownership env r component version res)"
  by (auto simp: record_ownership_def intro!: framed split: option.splits)

lemma frame_add_colocated [framed]:
  "frame (add_colocated_resource env repo component version r b)"
  "frame (add_colocated_source env repo component version s b)"
  by (auto simp: add_colocated_resource_def add_colocated_source_def Let_def intro!: framed)

lemma frame_process_resource [framed]: "frame (process_resource env repo r component version)"
  by (auto simp: process_resource_def process_resource_with_input_def process_resource_with_access_def Let_def
      intro!: framed split: option.splits)

lemma frame_process_source [framed]: "frame (process_source env repo s component version)"
  by (auto simp: process_source_def process_source_with_input_def intro!: framed split: option.splits)

lemma frame_process_conflict [framed]: "frame (process_conflict env repo c)"
  by (auto simp: process_conflict_def intro!: framed)

lemma frame_copy_resource [framed]: "frame (copy_resource env repo source i d)"
  by (auto simp: copy_resource_def intro!: framed)

lemma frame_with_callbacks [framed]: "frame m \<Longrightarrow> frame (with_callbacks start finish m)"
  by (auto simp: with_callbacks_def intro!: framed)

lemma frame_records: "frame m \<Longrightarrow> m st = (r, st') \<Longrightarrow> same_records st st'"
  by (metis frame_def snd_conv)

lemma run_tasks_Ok:
  "run_tasks f (t # ts) d err st = (Ok d', st')
    \<longleftrightarrow> err = None \<and> (\<exists>d1 st1. f t d st = (Ok d1, st1) \<and> run_tasks f ts d1 None st1 = (Ok d', st'))"
proof -
  have some: "run_tasks f ts d (Some e) st = (Ok d', st') \<longleftrightarrow> False" for ts d e st
    by (induction ts arbitrary: d st) (auto split: prod.splits outcome.splits)
  show ?thesis by (cases err) (auto simp: some split: prod.splits outcome.splits)
qed

lemma frame_run_tasks [framed]: "(\<And>t d. frame (f t d)) \<Longrightarrow> frame (run_tasks f ts d err)"
proof (induction ts arbitrary: d err)
  case Nil
  then show ?case by (simp add: frame_def same_records_def split: option.split)
next
  case (Cons t ts)
  have "same_records st (snd (run_tasks f (t # ts) d err st))" for st
  proof (cases "f t d st")
    case (Pair r st1)
    then have "same_records st st1" using frame_records [OF Cons.prems] by blast
    moreover have "same_records st1 (snd (run_tasks f ts d1 err1 st1))" for d1 err1
      using Cons by (simp add: frame_def)
    ultimately show ?thesis using Pair by (cases r) (auto simp: same_records_def)
  qed
  then show ?case by (simp add: frame_def)
qed

section \<open>The cache of digests\<close>

definition verified_for :: "('s, 'r, 'd, 'v) cons_env \<Rightarrow> (string, ('r, 'd) descriptor option) gomap \<Rightarrow> string \<Rightarrow> digest \<Rightarrow> bool" where
  "verified_for env g key dig \<longleftrightarrow> (\<exists>d. map_of g key = Some (Some d) \<and> verify_digest (en_digests env) d dig = Ok ())"

definition cache_ok :: "('s, 'r, 'd, 'v) cons_env \<Rightarrow> ('s, 'r, 'd) cons_state \<Rightarrow> bool" where
  "cache_ok env st \<longleftrightarrow> (\<forall>key dig. map_of (st_cache st) key = Some dig \<longrightarrow> verified_for env (st_graph st) key dig)"

lemma same_records_cache_ok: "same_records st st' \<Longrightarrow> cache_ok env st' \<longleftrightarrow> cache_ok env st"
  by (simp add: same_records_def cache_ok_def)

text \<open>What only adds digests of processed descriptors to the cache.\<close>

definition caches :: "('s, 'r, 'd, 'v) cons_env \<Rightarrow> ('s, 'r, 'd) cons_state \<Rightarrow> ('s, 'r, 'd) cons_state \<Rightarrow> bool" where
  "caches env st st' \<longleftrightarrow> st_graph st' = st_graph st \<and> st_added st' = st_added st \<and> (cache_ok env st \<longrightarrow> cache_ok env st')"

lemma caches_trans: "caches env st st1 \<Longrightarrow> caches env st1 st2 \<Longrightarrow> caches env st st2"
  by (simp add: caches_def)

lemma caches_same: "same_records st st' \<Longrightarrow> caches env st st'"
  by (simp add: caches_def same_records_def cache_ok_def)

lemma calculated_digest_verifies:
  "calculate_digest env d = Ok dig \<Longrightarrow> verify_digest (en_digests env) d dig = Ok ()"
  using generated_verifies [of "en_digests env" d "v4_name V4alpha3" "''SHA-256''" dig]
  by (simp add: calculate_digest_def generate_digest_def resolved_v4 split: outcome.splits)

lemma get_component_digest_caches:
  assumes "get_component_digest env key d st = (r, st')" and "map_of (st_graph st) key = Some (Some d)"
  shows "caches env st st'" and "cache_ok env st \<Longrightarrow> r = Ok dig \<Longrightarrow> verify_digest (en_digests env) d dig = Ok ()"
proof -
  have new: "caches env st (st\<lparr>st_cache := mput key dig (st_cache st)\<rparr>)" if "calculate_digest env d = Ok dig" for dig
    using calculated_digest_verifies [OF that] assms(2) by (auto simp: caches_def cache_ok_def verified_for_def)
  show "caches env st st'"
    using assms(1) new by (auto simp: get_component_digest_def caches_same same_records_def split: option.splits outcome.splits)
  show "verify_digest (en_digests env) d dig = Ok ()" if "cache_ok env st" "r = Ok dig"
    using assms that calculated_digest_verifies
    by (fastforce simp: get_component_digest_def cache_ok_def verified_for_def split: option.splits outcome.splits)
qed

lemma to_lower_again: "to_lower (to_lower s) = to_lower s"
proof -
  have "lower_char (lower_char c) = lower_char c" for c
  proof (cases "CHR ''A'' \<le> c \<and> c \<le> CHR ''Z''")
    case True
    then have "(of_char c :: nat) + 32 < 256" by (simp add: less_eq_char_def)
    then have "(of_char (char_of ((of_char c :: nat) + 32)) :: nat) = of_char c + 32" by (simp add: of_char_of)
    with True show ?thesis by (simp add: lower_char_def less_eq_char_def)
  next
    case False
    then have "lower_char c = c" by (auto simp: lower_char_def)
    then show ?thesis by simp
  qed
  then show ?thesis by (simp add: to_lower_def)
qed

lemma keep_pinned_Ok:
  assumes "keep_pinned env d ref = Ok ref'"
  shows "verify_digest (en_digests env) d (ref_digest ref') = Ok () \<and> (\<exists>dig. ref' = ref\<lparr>ref_digest := dig\<rparr>)"
  using assms
  by (auto simp: keep_pinned_def Let_def verify_digest_def descriptor_sum_def equal_fold_def to_lower_again hash_of_name
      bind_outcome_Ok_iff split: if_splits outcome.splits)

lemma to_component_identity_to_desc:
  "to_component_identity ((to_desc_reference r)\<lparr>ref_digest := dig\<rparr>) = cons_reference_identity r"
  "to_component_identity (to_desc_reference r) = cons_reference_identity r"
  by (simp_all add: to_component_identity_def cons_reference_identity_def to_desc_reference_def)

definition reference_verified :: "('s, 'r, 'd, 'v) cons_env \<Rightarrow> (string, ('r, 'd) descriptor option) gomap \<Rightarrow> reference \<Rightarrow> bool" where
  "reference_verified env g r \<longleftrightarrow> verified_for env g (identity_string (to_component_identity r)) (ref_digest r)"

lemma process_reference_caches:
  assumes "process_reference env r d st = (x, st')"
    and "map_of (st_graph st) (identity_string (cons_reference_identity r)) = Some (Some d)"
  shows "caches env st st'" and "cache_ok env st \<Longrightarrow> x = Ok ref \<Longrightarrow> reference_verified env (st_graph st) ref"
proof -
  note digest = get_component_digest_caches [OF _ assms(2)]
  show "caches env st st'"
    using assms(1) digest(1)
    by (auto simp: process_reference_def bind_action_def caches_same same_records_def
        split: if_splits prod.splits outcome.splits)
  show "reference_verified env (st_graph st) ref" if ok: "cache_ok env st" and x: "x = Ok ref"
  proof (cases "cf_digest r")
    case None
    then obtain dig st1 where dig: "get_component_digest env (identity_string (cons_reference_identity r)) d st = (Ok dig, st1)"
        "ref = (to_desc_reference r)\<lparr>ref_digest := dig\<rparr>"
      using assms(1) x by (auto simp: process_reference_def bind_action_Ok_iff)
    show ?thesis
      using digest(2) [OF dig(1) ok] dig(2) assms(2)
      by (auto simp: reference_verified_def verified_for_def to_component_identity_to_desc)
  next
    case (Some p)
    then have "keep_pinned env d (to_desc_reference r) = Ok ref"
      using assms(1) x by (simp add: process_reference_def)
    then show ?thesis
      using keep_pinned_Ok assms(2)
      by (fastforce simp: reference_verified_def verified_for_def to_component_identity_to_desc)
  qed
qed

section \<open>One component\<close>

named_theorems caching

text \<open>Actions that, on a graph, only add to the cache.\<close>

definition caching_action :: "('s, 'r, 'd, 'v) cons_env \<Rightarrow> (string, ('r, 'd) descriptor option) gomap \<Rightarrow> ('s, 'r, 'd, 'a) action \<Rightarrow> bool" where
  "caching_action env g m \<longleftrightarrow> (\<forall>st. st_graph st = g \<longrightarrow> caches env st (snd (m st)))"

lemma caching_frame [caching]: "frame m \<Longrightarrow> caching_action env g m"
  by (simp add: caching_action_def frame_def caches_same)

lemma caching_D: "caching_action env g m \<Longrightarrow> m st = (r, st') \<Longrightarrow> st_graph st = g \<Longrightarrow> caches env st st'"
  by (metis caching_action_def snd_conv)

lemma caching_bind: "caching_action env g m \<Longrightarrow> (\<And>a. caching_action env g (f a)) \<Longrightarrow> caching_action env g (bind_action m f)"
  unfolding caching_action_def bind_action_def
  by (auto split: prod.splits outcome.splits) (metis caches_def caches_trans snd_conv)+

lemma bind_give:
  "bind_action (give r) f st = (case r of Ok a \<Rightarrow> f a st | Fail e \<Rightarrow> (Fail e, st) | Panic \<Rightarrow> (Panic, st))"
  by (simp add: bind_action_def give_def split: outcome.split)

lemma caching_give_bind: "(\<And>a. r = Ok a \<Longrightarrow> caching_action env g (f a)) \<Longrightarrow> caching_action env g (bind_action (give r) f)"
  by (cases r) (auto simp: caching_action_def bind_give caches_def)

lemma caching_attempt: "caching_action env g m \<Longrightarrow> caching_action env g (attempt m)"
  unfolding caching_action_def attempt_def by (auto split: prod.splits outcome.splits)

lemma caching_with_callbacks: "caching_action env g m \<Longrightarrow> caching_action env g (with_callbacks start finish m)"
  unfolding with_callbacks_def
  by (intro caching_bind caching_attempt) (auto intro: caching_frame framed)

lemma caching_run_tasks:
  assumes "\<And>t d. t \<in> set ts \<Longrightarrow> caching_action env g (f t d)"
  shows "caching_action env g (run_tasks f ts d err)"
  using assms
proof (induction ts arbitrary: d err)
  case Nil
  then show ?case by (simp add: caching_action_def caches_def split: option.split)
next
  case (Cons t ts)
  have "caches env st (snd (run_tasks f (t # ts) d err st))" if g: "st_graph st = g" for st
  proof (cases "f t d st")
    case (Pair r st1)
    then have one: "caches env st st1"
      using caching_D [OF Cons.prems [of t d] Pair g] by simp
    then have "caches env st1 (snd (run_tasks f ts d1 err1 st1))" for d1 err1
      using Cons g by (simp add: caching_action_def caches_def)
    with one show ?thesis using Pair by (cases r) (auto intro: caches_trans)
  qed
  then show ?case by (simp add: caching_action_def)
qed

text \<open>Descriptors that were loaded are those of the components the references name.\<close>

definition referenced_ok ::
    "(string, ('r, 'd) descriptor option) gomap \<Rightarrow> ('r, 'd) cons_component \<Rightarrow> (string, ('r, 'd) descriptor) gomap \<Rightarrow> bool" where
  "referenced_ok g c m \<longleftrightarrow> (\<forall>r\<in>set (elements (cc_references c)). \<forall>d. map_of m (identity_string (cons_identity r)) = Some d
     \<longrightarrow> map_of g (identity_string (cons_reference_identity r)) = Some (Some d))"

definition reference_action ::
    "('s, 'r, 'd, 'v) cons_env \<Rightarrow> (string, ('r, 'd) descriptor) gomap \<Rightarrow> cons_reference \<Rightarrow> ('s, 'r, 'd, reference) action" where
  "reference_action env m r = with_callbacks (on_start_reference env r) (on_end_reference env)
     (bind_action (give (deref (map_of m (identity_string (cons_identity r))))) (process_reference env r))"

lemma caching_process_reference:
  "map_of g (identity_string (cons_reference_identity r)) = Some (Some d) \<Longrightarrow> caching_action env g (process_reference env r d)"
  unfolding caching_action_def using process_reference_caches(1) by (metis prod.collapse)

lemma deref_Ok [simp]: "deref p = Ok a \<longleftrightarrow> p = Some a"
  and deref_Ok' [simp]: "Ok a = deref p \<longleftrightarrow> p = Some a"
  by (auto simp: deref_def split: option.split)

lemma caching_reference_action:
  assumes "referenced_ok g c m" and "r \<in> set (elements (cc_references c))"
  shows "caching_action env g (reference_action env m r)"
  unfolding reference_action_def
  using assms by (intro caching_with_callbacks caching_give_bind caching_process_reference) (auto simp: referenced_ok_def)

lemma with_callbacks_Ok:
  assumes "with_callbacks start finish m st = (Ok x, st')"
  obtains st1 st2 where "same_records st st1" and "m st1 = (Ok x, st2)" and "same_records st2 st'"
proof -
  obtain u st1 r st2 v where a: "outside start st = (Ok u, st1)" "attempt m st1 = (Ok r, st2)"
      "outside (finish r) st2 = (Ok v, st')" "r = Ok x"
    using assms unfolding with_callbacks_def bind_action_Ok_iff by (auto simp: give_def)
  have "m st1 = (Ok x, st2)" using a(2,4) by (auto simp: attempt_def split: prod.splits outcome.splits)
  then show ?thesis using that frame_records [OF frame_outside a(1)] frame_records [OF frame_outside a(3)] by blast
qed

lemma reference_action_Ok:
  assumes "reference_action env m r st = (Ok ref, st')" and "referenced_ok (st_graph st) c m"
    and "r \<in> set (elements (cc_references c))" and "cache_ok env st"
  shows "reference_verified env (st_graph st) ref"
proof -
  obtain st1 st2 where st: "same_records st st1"
      and run: "bind_action (give (deref (map_of m (identity_string (cons_identity r))))) (process_reference env r) st1 = (Ok ref, st2)"
    using with_callbacks_Ok [OF assms(1) [unfolded reference_action_def]] by blast
  then obtain d where d: "map_of m (identity_string (cons_identity r)) = Some d" "process_reference env r d st1 = (Ok ref, st2)"
    by (auto simp: bind_action_Ok_iff)
  have "map_of (st_graph st) (identity_string (cons_reference_identity r)) = Some (Some d)"
    using assms(2,3) d(1) by (auto simp: referenced_ok_def)
  moreover have "cache_ok env st1" "st_graph st1 = st_graph st"
    using st assms(4) by (simp_all add: same_records_def cache_ok_def)
  ultimately show ?thesis using process_reference_caches(2) [OF d(2)] by simp
qed

text \<open>What a task leaves of a component: everything but the elements themselves.\<close>

definition same_shape :: "('r, 'd) component \<Rightarrow> ('r, 'd) component \<Rightarrow> bool" where
  "same_shape d d' \<longleftrightarrow> comp_name d' = comp_name d \<and> comp_version d' = comp_version d \<and> comp_labels d' = comp_labels d
     \<and> comp_created d' = comp_created d \<and> comp_contexts d' = comp_contexts d \<and> comp_provider d' = comp_provider d
     \<and> map_option length (comp_resources d') = map_option length (comp_resources d)
     \<and> map_option length (comp_sources d') = map_option length (comp_sources d)
     \<and> map_option length (comp_references d') = map_option length (comp_references d)"

lemma same_shape_refl [simp]: "same_shape d d"
  by (simp add: same_shape_def)

lemma same_shape_trans: "same_shape d d1 \<Longrightarrow> same_shape d1 d2 \<Longrightarrow> same_shape d d2"
  by (simp add: same_shape_def)

lemma set_at_length [simp]: "map_option length (set_at i x s) = map_option length s"
  by (cases s) (simp_all add: set_at_def)

lemma elements_set_at [simp]: "elements (set_at i x s) = (elements s)[i := x]"
  by (cases s) (simp_all add: set_at_def elements_def)

lemma run_task_reference:
  "run_task env repo c m (Reference_task i) d = bind_action (reference_action env m (elements (cc_references c) ! i))
     (\<lambda>x. give (Ok (d\<lparr>comp_references := set_at i x (comp_references d)\<rparr>)))"
  by (rule ext) (simp add: run_task_def reference_action_def Let_def)

lemma caching_run_task:
  assumes "referenced_ok g c m" and "t \<in> set (cons_tasks c)"
  shows "caching_action env g (run_task env repo c m t d)"
proof (cases t)
  case (Reference_task i)
  then have "elements (cc_references c) ! i \<in> set (elements (cc_references c))"
    using assms(2) by (auto simp: cons_tasks_def)
  then show ?thesis unfolding Reference_task run_task_reference
    by (intro caching_bind caching_reference_action [OF assms(1)]) (auto intro: caching framed)
qed (auto simp: run_task_def Let_def intro!: caching framed)

lemma run_task_Ok:
  assumes "run_task env repo c m t d st = (Ok d', st')" and "t \<in> set (cons_tasks c)"
    and "referenced_ok (st_graph st) c m" and "cache_ok env st"
  shows "same_shape d d'"
    and "comp_references d' = comp_references d \<and> (\<forall>i. t \<noteq> Reference_task i)
      \<or> (\<exists>i ref. t = Reference_task i \<and> comp_references d' = set_at i ref (comp_references d)
           \<and> reference_verified env (st_graph st) ref)"
proof -
  show "same_shape d d'"
    using assms(1)
    by (auto simp: run_task_def Let_def bind_action_Ok_iff same_shape_def split: cons_task.splits)
  show "comp_references d' = comp_references d \<and> (\<forall>i. t \<noteq> Reference_task i)
      \<or> (\<exists>i ref. t = Reference_task i \<and> comp_references d' = set_at i ref (comp_references d)
           \<and> reference_verified env (st_graph st) ref)"
  proof (cases t)
    case (Reference_task i)
    then have r: "elements (cc_references c) ! i \<in> set (elements (cc_references c))"
      using assms(2) by (auto simp: cons_tasks_def)
    obtain ref st1 where "reference_action env m (elements (cc_references c) ! i) st = (Ok ref, st1)"
        "d' = d\<lparr>comp_references := set_at i ref (comp_references d)\<rparr>"
      using assms(1) unfolding Reference_task run_task_reference by (auto simp: bind_action_Ok_iff)
    then show ?thesis
      using reference_action_Ok [OF _ assms(3) r assms(4)] Reference_task by auto
  qed (use assms(1) in \<open>auto simp: run_task_def Let_def bind_action_Ok_iff\<close>)
qed


lemma references_after:
  assumes "run_tasks (run_task env repo c m) ts d None st = (Ok d', st')" and "set ts \<subseteq> set (cons_tasks c)"
    and "referenced_ok (st_graph st) c m" and "cache_ok env st"
    and "\<And>i. i \<in> done_refs \<Longrightarrow> i < length (elements (comp_references d))
      \<Longrightarrow> reference_verified env (st_graph st) (elements (comp_references d) ! i)"
  shows "same_shape d d' \<and> (\<forall>i < length (elements (comp_references d')).
    i \<in> done_refs \<or> Reference_task i \<in> set ts \<longrightarrow> reference_verified env (st_graph st) (elements (comp_references d') ! i))"
  using assms
proof (induction ts arbitrary: d st done_refs)
  case Nil
  then show ?case by simp
next
  case (Cons t ts)
  obtain d1 st1 where t: "run_task env repo c m t d st = (Ok d1, st1)"
      and rest: "run_tasks (run_task env repo c m) ts d1 None st1 = (Ok d', st')"
    using Cons.prems(1) unfolding run_tasks_Ok by auto
  have in_tasks: "t \<in> set (cons_tasks c)" using Cons.prems(2) by simp
  have "caches env st st1"
    using caching_D [OF caching_run_task [OF Cons.prems(3) in_tasks] t refl] .
  then have g: "st_graph st1 = st_graph st" and ok: "cache_ok env st1"
    using Cons.prems(4) by (simp_all add: caches_def)
  note after = run_task_Ok [OF t in_tasks Cons.prems(3,4)]
  let ?done = "done_refs \<union> {i. t = Reference_task i}"
  have "reference_verified env (st_graph st1) (elements (comp_references d1) ! i)"
    if "i \<in> ?done" "i < length (elements (comp_references d1))" for i
    using after(2)
  proof (elim disjE exE conjE)
    assume "comp_references d1 = comp_references d" "\<forall>i. t \<noteq> Reference_task i"
    then show ?thesis using that Cons.prems(5) g by auto
  next
    fix j ref
    assume "t = Reference_task j" "comp_references d1 = set_at j ref (comp_references d)"
      "reference_verified env (st_graph st) ref"
    then show ?thesis using that Cons.prems(5) g by (cases "i = j") auto
  qed
  then have "same_shape d1 d' \<and> (\<forall>i < length (elements (comp_references d')).
      i \<in> ?done \<or> Reference_task i \<in> set ts \<longrightarrow> reference_verified env (st_graph st1) (elements (comp_references d') ! i))"
    using Cons.prems(2,3) g by (intro Cons.IH [OF rest _ _ ok]) auto
  then show ?case using same_shape_trans [OF after(1)] g by auto
qed

text \<open>The goroutines of a component finish in some order.\<close>

definition fair_order :: "('s, 'r, 'd, 'v) cons_env \<Rightarrow> bool" where
  "fair_order env \<longleftrightarrow> (\<forall>c. set (en_order env c) = {..<length (cons_tasks c)})"

lemma ordered_tasks: "fair_order env \<Longrightarrow> set (map ((!) (cons_tasks c)) (en_order env c)) = set (cons_tasks c)"
proof -
  assume "fair_order env"
  then have "set (map ((!) (cons_tasks c)) (en_order env c)) = (!) (cons_tasks c) ` {..<length (cons_tasks c)}"
    by (simp add: fair_order_def)
  also have "\<dots> = set (cons_tasks c)" by (auto simp: set_conv_nth)
  finally show ?thesis .
qed

lemma reference_task_mem: "Reference_task i \<in> set (cons_tasks c) \<longleftrightarrow> i < length (elements (cc_references c))"
  by (auto simp: cons_tasks_def)

lemma elements_map_slice [simp]: "elements (map_slice f s) = map f (elements s)"
  by (cases s) (simp_all add: map_slice_def elements_def)

lemma same_shape_references: "same_shape d d' \<Longrightarrow> length (elements (comp_references d')) = length (elements (comp_references d))"
  by (cases "comp_references d"; cases "comp_references d'") (simp_all add: same_shape_def elements_def)

lemma process_descriptor_Ok:
  assumes "process_descriptor env repo c m (to_desc_component c) st = (Ok d, st')" and "fair_order env"
    and "referenced_ok (st_graph st) c m" and "cache_ok env st"
  shows "same_shape (to_desc_component c) d \<and> list_all (reference_verified env (st_graph st)) (elements (comp_references d))"
proof -
  have run: "same_shape (to_desc_component c) d \<and> (\<forall>i < length (elements (comp_references d)).
      i \<in> {} \<or> Reference_task i \<in> set (map ((!) (cons_tasks c)) (en_order env c))
        \<longrightarrow> reference_verified env (st_graph st) (elements (comp_references d) ! i))"
    by (rule references_after [OF assms(1) [unfolded process_descriptor_def]])
      (use assms in \<open>auto simp: ordered_tasks simp del: set_map\<close>)
  then have "length (elements (comp_references d)) = length (elements (cc_references c))"
    using same_shape_references [of "to_desc_component c" d] by (simp add: to_desc_component_def)
  with run show ?thesis
    by (auto simp: list_all_length ordered_tasks [OF assms(2)] reference_task_mem simp del: set_map)
qed

lemma caching_process_descriptor:
  "fair_order env \<Longrightarrow> referenced_ok g c m \<Longrightarrow> caching_action env g (process_descriptor env repo c m d)"
  unfolding process_descriptor_def
  by (intro caching_run_tasks caching_run_task) (auto simp: ordered_tasks simp del: set_map)

text \<open>A version that may be handed to a target repository.\<close>

definition good_version ::
    "('s, 'r, 'd, 'v) cons_env \<Rightarrow> (string, ('r, 'd) descriptor option) gomap \<Rightarrow> ('r, 'd) descriptor \<Rightarrow> bool" where
  "good_version env g d \<longleftrightarrow> version_valid env (comp_version (desc_component d))
     \<and> validate_descriptor d = Ok () \<and> validate_versions env d = Ok ()
     \<and> list_all (reference_verified env g) (elements (comp_references (desc_component d)))"

definition constructed_as :: "('r, 'd) cons_component \<Rightarrow> ('r, 'd) descriptor \<Rightarrow> bool" where
  "constructed_as c d \<longleftrightarrow> desc_schema d = ''v2'' \<and> desc_signatures d = None \<and> same_shape (to_desc_component c) (desc_component d)"

definition adds_only :: "('s, 'r, 'd) cons_state \<Rightarrow> ('s, 'r, 'd) cons_state \<Rightarrow> ('r, 'd) descriptor list \<Rightarrow> bool" where
  "adds_only st st' ds \<longleftrightarrow> st_graph st' = st_graph st \<and> st_cache st' = st_cache st \<and> st_added st' = st_added st @ ds"

lemma add_component_version_adds:
  "add_component_version env repo d st = (r, st') \<Longrightarrow> adds_only st st' [d]"
  by (auto simp: add_component_version_def outside_def adds_only_def split: prod.splits)

lemma finish_component_cases:
  assumes "finish_component env repo d st = (r, st')"
  shows "st' = st \<and> (\<forall>x. r \<noteq> Ok x)
    \<or> adds_only st st' [d] \<and> validate_descriptor d = Ok () \<and> validate_versions env d = Ok () \<and> (\<forall>x. r = Ok x \<longrightarrow> x = d)"
  using assms
  by (auto simp: finish_component_def bind_give bind_action_def [of "add_component_version env repo d"] give_def
      dest: add_component_version_adds split: outcome.splits prod.splits)

lemma process_conflict_Some:
  assumes "process_conflict env repo c st = (Ok (Some d), st')"
  shows "en_policy env = Conflict_Skip"
proof (cases "en_policy env")
  case Conflict_Abort
  obtain a where "(case a of
        Ok d \<Rightarrow> if en_policy env = Conflict_Abort then Fail Version_Exists else Ok (Some d)
      | Fail e \<Rightarrow> if e = Outside_Not_Found then Ok None else Fail e | Panic \<Rightarrow> Panic) = Ok (Some d)"
    using assms Conflict_Abort by (auto simp: process_conflict_def bind_action_Ok_iff intro: sym)
  then show ?thesis using Conflict_Abort by (cases a) (auto split: if_splits)
qed (use assms in \<open>simp_all add: process_conflict_def\<close>)

text \<open>The result of constructing one component, whether it succeeds or not.\<close>

lemma construct_component_cases:
  assumes "construct_component env c m st = (r, st')" and "fair_order env"
    and "referenced_ok (st_graph st) c m" and "cache_ok env st"
  shows "st_graph st' = st_graph st \<and> cache_ok env st'
    \<and> (st_added st' = st_added st \<and> (en_policy env = Conflict_Skip \<or> (\<forall>d. r \<noteq> Ok d))
       \<or> (\<exists>d. st_added st' = st_added st @ [d] \<and> constructed_as c d \<and> good_version env (st_graph st) d
            \<and> (\<forall>x. r = Ok x \<longrightarrow> x = d)))"
proof -
  obtain r1 st1 where target: "outside (en_target env c) st = (r1, st1)" by force
  have s1: "same_records st st1" using frame_records [OF frame_outside target] .
  show ?thesis
  proof (cases r1)
    case (Ok repo)
    obtain r2 st2 where conflict: "process_conflict env repo c st1 = (r2, st2)" by force
    have s2: "same_records st st2"
      using s1 frame_records [OF frame_process_conflict conflict] by (simp add: same_records_def)
    then have ok2: "cache_ok env st2" and g2: "st_graph st2 = st_graph st" "st_added st2 = st_added st"
      using assms(4) by (simp_all add: same_records_def cache_ok_def)
    let ?rest = "bind_action (process_descriptor env repo c m (desc_component (create_base_descriptor c)))
        (\<lambda>comp. finish_component env repo ((create_base_descriptor c)\<lparr>desc_component := comp\<rparr>))"
    show ?thesis
    proof (cases "r2 = Ok None \<and> version_valid env (cc_version c)")
      case True
      then have rest: "?rest st2 = (r, st')"
        using assms(1) target Ok conflict
        by (simp add: construct_component_def bind_action_def [of "outside (en_target env c)"]
            bind_action_def [of "process_conflict env repo c"] bind_give validate_component_version_def)
      obtain r3 st3 where desc: "process_descriptor env repo c m (to_desc_component c) st2 = (r3, st3)" by force
      have "caches env st2 st3"
        using caching_D [OF caching_process_descriptor [OF assms(2,3)] desc] g2 by simp
      then have s3: "st_graph st3 = st_graph st" "st_added st3 = st_added st" "cache_ok env st3"
        using ok2 g2 by (simp_all add: caches_def)
      show ?thesis
      proof (cases r3)
        case (Ok comp)
        let ?d = "(create_base_descriptor c)\<lparr>desc_component := comp\<rparr>"
        have comp: "same_shape (to_desc_component c) comp" "list_all (reference_verified env (st_graph st)) (elements (comp_references comp))"
          using process_descriptor_Ok [OF desc [unfolded Ok] assms(2) _ ok2] assms(3) g2 by auto
        then have "constructed_as c ?d" "version_valid env (comp_version comp)"
          using True by (simp_all add: constructed_as_def create_base_descriptor_def same_shape_def to_desc_component_def)
        moreover have "finish_component env repo ?d st3 = (r, st')"
          using rest desc Ok by (simp add: bind_action_def create_base_descriptor_def)
        note finish_component_cases [OF this]
        ultimately show ?thesis
          using s3 comp(2) by (auto simp: adds_only_def good_version_def cache_ok_def)
      qed (use rest desc s3 in \<open>auto simp: bind_action_def create_base_descriptor_def\<close>)
    next
      case False
      have "en_policy env = Conflict_Skip" if "r2 = Ok (Some d)" for d
        using conflict that process_conflict_Some by blast
      then have "st' = st2 \<and> (en_policy env = Conflict_Skip \<or> (\<forall>d. r \<noteq> Ok d))"
        using assms(1) target Ok conflict False
        by (auto simp: construct_component_def bind_action_def [of "outside (en_target env c)"]
            bind_action_def [of "process_conflict env repo c"] bind_give validate_component_version_def
            split: outcome.splits option.splits)
      then show ?thesis using g2 ok2 by auto
    qed
  qed (use assms(1,4) target s1 in \<open>auto simp: construct_component_def bind_action_def same_records_def cache_ok_def\<close>)
qed


section \<open>The components of a graph\<close>

definition graph_le ::
    "(string, ('r, 'd) descriptor option) gomap \<Rightarrow> (string, ('r, 'd) descriptor option) gomap \<Rightarrow> bool" where
  "graph_le g g' \<longleftrightarrow> (\<forall>key d. map_of g key = Some (Some d) \<longrightarrow> map_of g' key = Some (Some d))"

lemma graph_le_refl [simp]: "graph_le g g"
  by (simp add: graph_le_def)

lemma graph_le_trans: "graph_le g g1 \<Longrightarrow> graph_le g1 g2 \<Longrightarrow> graph_le g g2"
  by (simp add: graph_le_def)

lemma verified_for_mono: "verified_for env g key dig \<Longrightarrow> graph_le g g' \<Longrightarrow> verified_for env g' key dig"
  by (auto simp: verified_for_def graph_le_def)

lemma cache_ok_mono:
  assumes "cache_ok env st" and "st_cache st' = st_cache st" and "graph_le (st_graph st) (st_graph st')"
  shows "cache_ok env st'"
  unfolding cache_ok_def using assms verified_for_mono by (metis cache_ok_def)

lemma good_version_mono: "good_version env g d \<Longrightarrow> graph_le g g' \<Longrightarrow> good_version env g' d"
  by (auto simp: good_version_def list_all_iff reference_verified_def intro: verified_for_mono)

lemma store_descriptor_cases:
  assumes "store_descriptor d st = (r, st')"
  shows "st_cache st' = st_cache st \<and> st_added st' = st_added st \<and> graph_le (st_graph st) (st_graph st')
    \<and> (r = Ok () \<longrightarrow> map_of (st_graph st') (identity_string (component_identity (desc_component d))) = Some (Some d))"
  using assms by (auto simp: store_descriptor_def Let_def graph_le_def split: option.splits)

lemma load_descriptor_cases:
  "load_descriptor key st = (r, st') \<Longrightarrow> st' = st \<and> (\<forall>d. r = Ok d \<longleftrightarrow> map_of (st_graph st) key = Some (Some d))"
  by (auto simp: load_descriptor_def split: option.splits)

lemma load_referenced_state: "load_referenced rs m st = (r, st') \<Longrightarrow> st' = st"
proof (induction rs arbitrary: m)
  case (Cons x rs)
  then show ?case
    by (auto simp: bind_action_def dest!: load_descriptor_cases split: prod.splits outcome.splits)
qed simp

lemma load_referenced_Ok:
  assumes "load_referenced rs m0 st = (Ok m, st')" and "map_of m key = Some d"
  shows "map_of m0 key = Some d \<or> (\<exists>r\<in>set rs. identity_string (cons_identity r) = key
    \<and> map_of (st_graph st) (identity_string (cons_reference_identity r)) = Some (Some d))"
  using assms(1)
proof (induction rs arbitrary: m0)
  case Nil
  then show ?case using assms(2) by simp
next
  case (Cons x rs)
  obtain e where e: "map_of (st_graph st) (identity_string (cons_reference_identity x)) = Some (Some e)"
      "load_referenced rs (mput (identity_string (cons_identity x)) e m0) st = (Ok m, st')"
    using Cons.prems by (auto simp: bind_action_Ok_iff dest: load_descriptor_cases)
  show ?case using Cons.IH [OF e(2)] e(1) by (auto split: if_splits)
qed

text \<open>References with the same identity string name the same component.\<close>

definition clean_references :: "('r, 'd) cons_component \<Rightarrow> bool" where
  "clean_references c \<longleftrightarrow> (\<forall>r\<in>set (elements (cc_references c)). \<forall>r'\<in>set (elements (cc_references c)).
     identity_string (cons_identity r) = identity_string (cons_identity r')
     \<longrightarrow> identity_string (cons_reference_identity r) = identity_string (cons_reference_identity r'))"

lemma loaded_referenced_ok:
  assumes "load_referenced (elements (cc_references c)) [] st = (Ok m, st')" and "clean_references c"
  shows "referenced_ok (st_graph st) c m"
  unfolding referenced_ok_def
proof (intro ballI allI impI)
  fix r d
  assume r: "r \<in> set (elements (cc_references c))" and d: "map_of m (identity_string (cons_identity r)) = Some d"
  obtain r' where "r' \<in> set (elements (cc_references c))" "identity_string (cons_identity r') = identity_string (cons_identity r)"
      "map_of (st_graph st) (identity_string (cons_reference_identity r')) = Some (Some d)"
    using load_referenced_Ok [OF assms(1) d] by auto
  then show "map_of (st_graph st) (identity_string (cons_reference_identity r)) = Some (Some d)"
    using assms(2) r unfolding clean_references_def by metis
qed

lemma callbacks_cases:
  assumes "with_callbacks start finish m st = (r, st')"
  obtains "same_records st st'" and "\<forall>x. r \<noteq> Ok x"
  | st1 r' st2 where "same_records st st1" and "m st1 = (r', st2)" and "same_records st2 st'"
      and "\<forall>x. r = Ok x \<longrightarrow> r' = Ok x"
proof -
  obtain r1 st1 where start: "outside start st = (r1, st1)" by force
  have s1: "same_records st st1" using frame_records [OF frame_outside start] .
  show ?thesis
  proof (cases r1)
    case (Ok u)
    obtain r2 st2 where m: "m st1 = (r2, st2)" by force
    obtain r3 st3 where fin: "outside (finish r2) st2 = (r3, st3)" by force
    have "same_records st2 st3" using frame_records [OF frame_outside fin] .
    moreover have "same_records st2 st2" by (simp add: same_records_def)
    ultimately have "same_records st2 st' \<and> (\<forall>x. r = Ok x \<longrightarrow> r2 = Ok x)"
      using assms start Ok m fin
      by (cases r2; cases r3) (auto simp: with_callbacks_def bind_action_def attempt_def give_def)
    then show ?thesis using that(2) [OF s1 m] by blast
  qed (use assms start s1 that(1) in \<open>auto simp: with_callbacks_def bind_action_def\<close>)
qed

text \<open>The step of a constructed component.\<close>

lemma process_constructor_component_cases:
  assumes "process_constructor_component env c st = (r, st')" and "fair_order env" and "clean_references c"
    and "cache_ok env st"
  shows "cache_ok env st' \<and> graph_le (st_graph st) (st_graph st')
    \<and> (st_added st' = st_added st \<or> (\<exists>d. st_added st' = st_added st @ [d] \<and> constructed_as c d \<and> good_version env (st_graph st) d))"
proof -
  obtain r1 st1 where load: "load_referenced (elements (cc_references c)) [] st = (r1, st1)" by force
  have [simp]: "st1 = st" using load_referenced_state [OF load] .
  show ?thesis
  proof (cases r1)
    case (Ok m)
    have m: "referenced_ok (st_graph st) c m"
      using loaded_referenced_ok [OF _ assms(3)] load Ok by simp
    obtain r2 st2 where run: "with_callbacks (on_start_component env c) (on_end_component env)
        (construct_component env c m) st = (r2, st2)" by force
    have step: "st_graph st2 = st_graph st \<and> cache_ok env st2 \<and> (st_added st2 = st_added st
        \<or> (\<exists>d. st_added st2 = st_added st @ [d] \<and> constructed_as c d \<and> good_version env (st_graph st) d))"
      using run
    proof (cases rule: callbacks_cases)
      case 1
      then show ?thesis using assms(4) by (simp add: same_records_def cache_ok_def)
    next
      case (2 sta r' stb)
      then have "cache_ok env sta" and g: "st_graph sta = st_graph st" "st_added sta = st_added st"
        using assms(4) by (simp_all add: same_records_def cache_ok_def)
      then have "st_graph stb = st_graph st \<and> cache_ok env stb \<and> (st_added stb = st_added st
          \<or> (\<exists>d. st_added stb = st_added st @ [d] \<and> constructed_as c d \<and> good_version env (st_graph st) d))"
        using construct_component_cases [OF 2(2) assms(2)] m by auto
      with 2(3) show ?thesis using same_records_cache_ok [OF 2(3), of env] by (simp add: same_records_def)
    qed
    show ?thesis
    proof (cases r2)
      case Ok': (Ok d)
      then have "store_descriptor d st2 = (r, st')"
        using assms(1) load Ok run by (simp add: process_constructor_component_def bind_action_def)
      note stored = store_descriptor_cases [OF this]
      then have "cache_ok env st'" using step cache_ok_mono [of env st2 st'] by simp
      with stored step show ?thesis by auto
    qed (use assms(1) load Ok run step in \<open>auto simp: process_constructor_component_def bind_action_def\<close>)
  qed (use assms(1,4) load in \<open>auto simp: process_constructor_component_def bind_action_def\<close>)
qed

text \<open>The step of an external component.\<close>

definition copied_from :: "('r, 'd) external_component \<Rightarrow> ('r, 'd) descriptor \<Rightarrow> bool" where
  "copied_from x d \<longleftrightarrow> (\<exists>rs. d = (xc_descriptor x)\<lparr>desc_component := (desc_component (xc_descriptor x))\<lparr>comp_resources := rs\<rparr>\<rparr>)"

lemma copy_resources_Ok:
  "run_tasks (copy_resource env repo source) is d None st = (Ok d', st') \<Longrightarrow> \<exists>rs. d' = d\<lparr>comp_resources := rs\<rparr>"
proof (induction "is" arbitrary: d st)
  case Nil
  then have "d' = d\<lparr>comp_resources := comp_resources d\<rparr>" by simp
  then show ?case by blast
next
  case (Cons i "is")
  then obtain d1 st1 where "copy_resource env repo source i d st = (Ok d1, st1)"
      "run_tasks (copy_resource env repo source) is d1 None st1 = (Ok d', st')"
    unfolding run_tasks_Ok by auto
  moreover from this(1) have "\<exists>rs. d1 = d\<lparr>comp_resources := rs\<rparr>"
    by (auto simp: copy_resource_def bind_action_Ok_iff split: prod.splits)
  ultimately show ?case using Cons.IH by fastforce
qed

lemma process_external_component_cases:
  assumes "process_external_component env x st = (r, st')"
  shows "st_cache st' = st_cache st \<and> graph_le (st_graph st) (st_graph st')
    \<and> (st_added st' = st_added st \<or> (\<exists>d. st_added st' = st_added st @ [d] \<and> copied_from x d))"
proof (cases "en_copy env")
  case False
  then show ?thesis using assms store_descriptor_cases by (auto simp: process_external_component_def)
next
  case True
  let ?c0 = "desc_component (xc_descriptor x)"
  obtain r1 st1 where target: "outside (en_target env (from_desc_component ?c0)) st = (r1, st1)" by force
  have s1: "same_records st st1" using frame_records [OF frame_outside target] .
  show ?thesis
  proof (cases r1)
    case (Ok repo)
    obtain r2 st2 where copy: "run_tasks (copy_resource env repo (xc_source x)) (en_upload_order env (xc_local x)) ?c0 None st1
        = (r2, st2)" by force
    have s2: "same_records st st2"
      using s1 frame_records [OF frame_run_tasks [OF frame_copy_resource] copy] by (simp add: same_records_def)
    show ?thesis
    proof (cases r2)
      case Ok2: (Ok c)
      let ?d = "(xc_descriptor x)\<lparr>desc_component := c\<rparr>"
      have "copied_from x ?d" using copy_resources_Ok copy Ok2 by (fastforce simp: copied_from_def)
      obtain r3 st3 where add: "add_component_version env repo ?d st2 = (r3, st3)" by force
      note s3 = add_component_version_adds [OF add]
      show ?thesis
      proof (cases r3)
        case Ok3: (Ok u)
        then have "store_descriptor ?d st3 = (r, st')"
          using assms True target Ok copy Ok2 add by (simp add: process_external_component_def bind_action_def Let_def)
        from store_descriptor_cases [OF this] s2 s3 \<open>copied_from x ?d\<close> show ?thesis
          by (auto simp: adds_only_def same_records_def)
      qed (use assms True target Ok copy Ok2 add s2 s3 \<open>copied_from x ?d\<close> in
          \<open>auto simp: process_external_component_def bind_action_def Let_def adds_only_def same_records_def\<close>)
    qed (use assms True target Ok copy s2 in
        \<open>auto simp: process_external_component_def bind_action_def same_records_def\<close>)
  qed (use assms True target s1 in \<open>auto simp: process_external_component_def bind_action_def same_records_def\<close>)
qed

text \<open>What holds throughout a construction.\<close>

definition cons_inv :: "('s, 'r, 'd, 'v) cons_env \<Rightarrow> (string \<Rightarrow> ('r, 'd) node_value) \<Rightarrow> ('s, 'r, 'd) cons_state \<Rightarrow> bool" where
  "cons_inv env vals st \<longleftrightarrow> cache_ok env st \<and> (\<forall>d\<in>set (st_added st).
     good_version env (st_graph st) d \<or> (\<exists>key x. nv_external (vals key) = Some x \<and> copied_from x d))"

lemma cons_inv_extend:
  assumes "cons_inv env vals st" and "cache_ok env st'" and "graph_le (st_graph st) (st_graph st')"
    and "st_added st' = st_added st \<or> (\<exists>d. st_added st' = st_added st @ [d]
      \<and> (good_version env (st_graph st) d \<or> (\<exists>key x. nv_external (vals key) = Some x \<and> copied_from x d)))"
  shows "cons_inv env vals st'"
proof -
  let ?ok = "\<lambda>g d. good_version env g d \<or> (\<exists>key x. nv_external (vals key) = Some x \<and> copied_from x d)"
  have mono: "?ok (st_graph st') d" if "?ok (st_graph st) d" for d
    using that good_version_mono [of env "st_graph st" d "st_graph st'"] assms(3) by blast
  have "?ok (st_graph st) d" if "d \<in> set (st_added st')" for d
    using that assms(1,4) unfolding cons_inv_def by auto
  then show ?thesis using assms(2) mono unfolding cons_inv_def by blast
qed

lemma process_value_inv:
  assumes "process_value env (vals key) st = (r, st')" and "fair_order env"
    and "\<And>c. nv_constructor (vals key) = Some c \<Longrightarrow> clean_references c" and "cons_inv env vals st"
  shows "cons_inv env vals st' \<and> graph_le (st_graph st) (st_graph st')"
proof -
  have cache: "cache_ok env st" using assms(4) by (simp add: cons_inv_def)
  consider (constructor) c where "nv_constructor (vals key) = Some c"
    | (external) x where "nv_constructor (vals key) = None" "nv_external (vals key) = Some x"
    | (neither) "nv_constructor (vals key) = None" "nv_external (vals key) = None"
    by (cases "nv_constructor (vals key)"; cases "nv_external (vals key)") auto
  then show ?thesis
  proof cases
    case constructor
    then have "process_constructor_component env c st = (r, st')"
      using assms(1) by (simp add: process_value_def split: option.splits)
    from process_constructor_component_cases [OF this assms(2) assms(3) [OF constructor] cache] show ?thesis
      using cons_inv_extend [OF assms(4)] by blast
  next
    case external
    then have "process_external_component env x st = (r, st')" using assms(1) by (simp add: process_value_def)
    note step = process_external_component_cases [OF this]
    then have "cache_ok env st'" using cache cache_ok_mono [of env st st'] by simp
    then show ?thesis using cons_inv_extend [OF assms(4)] step external(2) by blast
  next
    case neither
    then show ?thesis using assms(1,4) by (simp add: process_value_def)
  qed
qed

lemma attempt_iff:
  "attempt m st = (Ok x, st') \<longleftrightarrow> x \<noteq> Panic \<and> m st = (x, st')"
  "attempt m st = (Fail e, st') \<longleftrightarrow> False" "attempt m st = (Panic, st') \<longleftrightarrow> m st = (Panic, st')"
  by (auto simp: attempt_def split: prod.splits outcome.splits)

lemma process_values_step:
  assumes "process_values env vals (key # keys) st = (Ok (), st')"
  obtains st1 where "process_value env (vals key) st = (Ok (), st1)" and "process_values env vals keys st1 = (Ok (), st')"
proof -
  obtain r st1 rs where step: "process_value env (vals key) st = (r, st1)" "process_values env vals keys st1 = (rs, st')"
      and ok: "bind_outcome r (\<lambda>_. rs) = Ok ()"
    using assms by (auto simp: bind_action_Ok_iff attempt_iff dest: sym)
  then have "r = Ok ()" "rs = Ok ()" by (auto simp: bind_outcome_Ok_iff)
  with step that show thesis by simp
qed

lemma process_values_state:
  assumes "process_value env (vals key) st = (r, st1)"
  shows "snd (process_values env vals (key # keys) st)
    = (if r = Panic then st1 else snd (process_values env vals keys st1))"
  using assms by (cases r; cases "process_values env vals keys st1"; cases "fst (process_values env vals keys st1)")
    (simp_all add: bind_action_def attempt_def give_def)

text \<open>C4: Throughout a construction, whether it succeeds or fails, everything handed to a target
  repository is either a valid version, without duplicate elements, with valid versions of
  itself and its elements, and with reference digests that verify against the descriptors of the
  components they name, or a copy of an external component; and the cache holds only digests of the
  processed components it names. The references of a component must be told apart by the text of
  their identities.\<close>

theorem construction_invariant:
  assumes "fair_order env" and "cons_inv env vals st"
    and "\<And>key c. key \<in> set keys \<Longrightarrow> nv_constructor (vals key) = Some c \<Longrightarrow> clean_references c"
  shows "cons_inv env vals (snd (process_values env vals keys st))"
  using assms(2,3)
proof (induction keys arbitrary: st)
  case Nil
  then show ?case by (simp add: give_def)
next
  case (Cons key keys)
  obtain r st1 where step: "process_value env (vals key) st = (r, st1)" by force
  have "cons_inv env vals st1"
    using Cons.prems by (intro conjunct1 [OF process_value_inv [where vals = vals and key = key, OF step assms(1)]]) auto
  then have "cons_inv env vals (snd (process_values env vals keys st1))"
    using Cons.prems(2) by (intro Cons.IH) auto
  then show ?case using \<open>cons_inv env vals st1\<close> by (simp add: process_values_state [where vals = vals and key = key, OF step] del: process_values.simps)
qed

section \<open>The order of construction\<close>

lemma run_task_shape: "run_task env repo c m t d st = (Ok d', st') \<Longrightarrow> same_shape d d'"
  by (auto simp: run_task_def Let_def bind_action_Ok_iff same_shape_def split: cons_task.splits)

lemma run_tasks_shape: "run_tasks (run_task env repo c m) ts d None st = (Ok d', st') \<Longrightarrow> same_shape d d'"
proof (induction ts arbitrary: d st)
  case (Cons t ts)
  then obtain d1 st1 where "run_task env repo c m t d st = (Ok d1, st1)" "same_shape d1 d'"
    unfolding run_tasks_Ok by blast
  then show ?case using run_task_shape same_shape_trans by blast
qed simp

text \<open>A repository answers with the component version it was asked for.\<close>

definition honest_get :: "('s, 'r, 'd, 'v) cons_env \<Rightarrow> bool" where
  "honest_get env \<longleftrightarrow> (\<forall>repo n v s d s'. en_get env repo n v s = (Ok d, s')
     \<longrightarrow> comp_name (desc_component d) = n \<and> comp_version (desc_component d) = v)"

lemma construct_component_identity:
  assumes "construct_component env c m st = (Ok d, st')" and "honest_get env"
  shows "component_identity (desc_component d) = cons_component_identity c"
proof -
  obtain repo st1 existing st2 where conflict: "process_conflict env repo c st1 = (Ok existing, st2)"
      and rest: "(case existing of Some d \<Rightarrow> give (Ok d) | None \<Rightarrow>
         bind_action (give (validate_component_version env (cc_version c))) (\<lambda>_.
         bind_action (process_descriptor env repo c m (desc_component (create_base_descriptor c))) (\<lambda>comp.
         finish_component env repo ((create_base_descriptor c)\<lparr>desc_component := comp\<rparr>)))) st2 = (Ok d, st')"
    using assms(1) unfolding construct_component_def bind_action_Ok_iff by blast
  show ?thesis
  proof (cases existing)
    case None
    then obtain comp st3 where comp: "process_descriptor env repo c m (to_desc_component c) st2 = (Ok comp, st3)"
        "finish_component env repo ((create_base_descriptor c)\<lparr>desc_component := comp\<rparr>) st3 = (Ok d, st')"
      using rest by (auto simp: bind_action_Ok_iff create_base_descriptor_def)
    have "same_shape (to_desc_component c) comp"
      using run_tasks_shape [OF comp(1) [unfolded process_descriptor_def]] .
    moreover have "desc_component d = comp"
      using finish_component_cases [OF comp(2)] by auto
    ultimately show ?thesis
      by (simp add: component_identity_def cons_component_identity_def same_shape_def to_desc_component_def)
  next
    case (Some e)
    then have e: "e = d" using rest by simp
    then have "en_policy env = Conflict_Skip"
      using process_conflict_Some conflict Some by auto
    then obtain r where r: "attempt (outside (en_get env repo (cc_name c) (cc_version c))) st1 = (Ok r, st2)"
        and "(case r of
          Ok d \<Rightarrow> if en_policy env = Conflict_Abort then Fail Version_Exists else Ok (Some d)
        | Fail e \<Rightarrow> if e = Outside_Not_Found then Ok None else Fail e | Panic \<Rightarrow> Panic) = Ok (Some d)"
      using conflict Some e unfolding process_conflict_def by (auto simp: bind_action_Ok_iff intro: sym)
    then have "r = Ok d" by (cases r) (auto split: if_splits)
    then obtain s s' where "en_get env repo (cc_name c) (cc_version c) s = (Ok d, s')"
      using r by (auto simp: attempt_def outside_def split: prod.splits outcome.splits)
    then have "comp_name (desc_component d) = cc_name c \<and> comp_version (desc_component d) = cc_version c"
      using assms(2) unfolding honest_get_def by blast
    then show ?thesis by (simp add: component_identity_def cons_component_identity_def)
  qed
qed

text \<open>The value of a vertex is the component its key names, as the discovery resolves it.\<close>

definition keyed :: "(string \<Rightarrow> ('r, 'd) node_value) \<Rightarrow> string list \<Rightarrow> bool" where
  "keyed vals keys \<longleftrightarrow> (\<forall>key\<in>set keys.
     (case (nv_constructor (vals key), nv_external (vals key)) of
        (Some c, _) \<Rightarrow> identity_string (cons_component_identity c) = key
      | (None, Some x) \<Rightarrow> identity_string (component_identity (desc_component (xc_descriptor x))) = key
      | (None, None) \<Rightarrow> True))"

lemma keyed_member: "keyed vals keys \<Longrightarrow> key \<in> set keys \<Longrightarrow> keyed vals [key]"
  unfolding keyed_def by (simp only: list.set) blast

lemma process_external_component_stores:
  assumes "process_external_component env x st = (Ok (), st')"
  obtains d st1 where "store_descriptor d st1 = (Ok (), st')"
    and "component_identity (desc_component d) = component_identity (desc_component (xc_descriptor x))"
proof (cases "en_copy env")
  case True
  then obtain repo st1 st2 c st4 where
      copy: "run_tasks (copy_resource env repo (xc_source x)) (en_upload_order env (xc_local x))
         (desc_component (xc_descriptor x)) None st1 = (Ok c, st2)"
      and stored: "store_descriptor ((xc_descriptor x)\<lparr>desc_component := c\<rparr>) st4 = (Ok (), st')"
    using assms by (auto simp: process_external_component_def bind_action_Ok_iff Let_def)
  show ?thesis using that [OF stored] copy_resources_Ok [OF copy] by (auto simp: component_identity_def)
qed (use assms that in \<open>auto simp: process_external_component_def\<close>)

lemma process_value_stores:
  assumes "process_value env (vals key) st = (Ok (), st')" and "keyed vals [key]" and "honest_get env"
  shows "\<exists>d. map_of (st_graph st') key = Some (Some d)"
proof (cases "nv_constructor (vals key)")
  case (Some c)
  then obtain m st1 d st2 where construct: "with_callbacks (on_start_component env c) (on_end_component env)
      (construct_component env c m) st1 = (Ok d, st2)" and stored: "store_descriptor d st2 = (Ok (), st')"
    using assms(1) by (auto simp: process_value_def process_constructor_component_def bind_action_Ok_iff split: option.splits)
  obtain st3 st4 where "construct_component env c m st3 = (Ok d, st4)"
    using with_callbacks_Ok [OF construct] by blast
  from construct_component_identity [OF this assms(3)]
  have "identity_string (component_identity (desc_component d)) = key"
    using assms(2) Some by (simp add: keyed_def)
  then show ?thesis using store_descriptor_cases [OF stored] by auto
next
  case None
  then obtain x where x: "nv_external (vals key) = Some x" "process_external_component env x st = (Ok (), st')"
    using assms(1) by (auto simp: process_value_def split: option.splits)
  obtain d st1 where stored: "store_descriptor d st1 = (Ok (), st')"
      and "component_identity (desc_component d) = component_identity (desc_component (xc_descriptor x))"
    using process_external_component_stores [OF x(2)] .
  then have "identity_string (component_identity (desc_component d)) = key"
    using assms(2) None x(1) by (simp add: keyed_def)
  then show ?thesis using store_descriptor_cases [OF stored] by auto
qed

text \<open>The graph only grows, whatever the workers and their outcomes.\<close>

named_theorems growing

definition grows :: "('s, 'r, 'd, 'a) action \<Rightarrow> bool" where
  "grows m \<longleftrightarrow> (\<forall>st. graph_le (st_graph st) (st_graph (snd (m st))))"

lemma growsD: "grows m \<Longrightarrow> m st = (r, st') \<Longrightarrow> graph_le (st_graph st) (st_graph st')"
  by (metis grows_def snd_conv)

lemma grows_frame [growing]: "frame m \<Longrightarrow> grows m"
  by (simp add: grows_def frame_def same_records_def)

lemma grows_bind [growing]: "grows m \<Longrightarrow> (\<And>a. grows (f a)) \<Longrightarrow> grows (bind_action m f)"
  by (auto simp: grows_def bind_action_def split: prod.splits outcome.splits) (metis graph_le_trans snd_conv)+

lemma grows_attempt [growing]: "grows m \<Longrightarrow> grows (attempt m)"
  by (auto simp: grows_def attempt_def split: prod.splits outcome.splits) (metis snd_conv)+

lemma grows_with_callbacks [growing]: "grows m \<Longrightarrow> grows (with_callbacks start finish m)"
  unfolding with_callbacks_def by (intro grows_bind grows_attempt) (auto intro: grows_frame framed)

lemma grows_run_tasks [growing]: "(\<And>t d. grows (f t d)) \<Longrightarrow> grows (run_tasks f ts d err)"
proof (induction ts arbitrary: d err)
  case Nil
  then show ?case by (simp add: grows_def split: option.split)
next
  case (Cons t ts)
  have "graph_le (st_graph st) (st_graph (snd (run_tasks f (t # ts) d err st)))" for st
  proof (cases "f t d st")
    case (Pair r st1)
    then have "graph_le (st_graph st) (st_graph st1)" using growsD [OF Cons.prems] by blast
    moreover have "graph_le (st_graph st1) (st_graph (snd (run_tasks f ts d1 err1 st1)))" for d1 err1
      using Cons by (simp add: grows_def)
    ultimately show ?thesis using Pair by (cases r) (auto intro: graph_le_trans)
  qed
  then show ?case by (simp add: grows_def)
qed

lemma grows_process_reference [growing]: "grows (process_reference env r d)"
proof -
  have "grows (get_component_digest env key d)" for key
    by (auto simp: grows_def get_component_digest_def split: option.splits outcome.splits)
  then show ?thesis by (auto simp: process_reference_def intro!: grows_bind intro: grows_frame framed split: option.splits)
qed

lemma grows_process_descriptor [growing]: "grows (process_descriptor env repo c m d)"
proof -
  have "grows (run_task env repo c m t d)" for t d
    by (cases t) (auto simp: run_task_def Let_def intro!: grows_bind grows_with_callbacks grows_process_reference
        intro: grows_frame framed)
  then show ?thesis unfolding process_descriptor_def by (rule grows_run_tasks)
qed

lemma grows_add_component_version [growing]: "grows (add_component_version env repo d)"
proof -
  have "st_graph (snd (add_component_version env repo d st)) = st_graph st" for st
    using add_component_version_adds [of env repo d st] by (simp add: adds_only_def prod_eq_iff)
  then show ?thesis by (simp add: grows_def)
qed

lemma grows_store_descriptor [growing]: "grows (store_descriptor d)"
  using store_descriptor_cases unfolding grows_def by (metis prod.collapse)

lemma grows_load_referenced [growing]: "grows (load_referenced rs m)"
  using load_referenced_state unfolding grows_def by (metis graph_le_refl prod.collapse)

lemma grows_construct_component [growing]: "grows (construct_component env c m)"
  unfolding construct_component_def finish_component_def
  by (intro grows_bind) (auto intro!: grows_bind grows_process_descriptor grows_add_component_version
      intro: grows_frame framed split: option.splits)

lemma grows_process_value [growing]: "grows (process_value env v)"
  by (auto simp: process_value_def process_constructor_component_def process_external_component_def Let_def
      intro!: grows_bind grows_with_callbacks grows_run_tasks grows_load_referenced grows_construct_component
        grows_store_descriptor grows_add_component_version
      intro: grows_frame framed split: option.splits)

lemma grows_process_values: "grows (process_values env vals keys)"
  by (induction keys) (auto intro!: grows_bind grows_attempt grows_process_value intro: grows_frame framed)

lemma process_values_store:
  assumes "process_values env vals keys st = (Ok (), st')" and "keyed vals keys" and "honest_get env"
  shows "\<forall>key\<in>set keys. \<exists>d. map_of (st_graph st') key = Some (Some d)"
  using assms
proof (induction keys arbitrary: st)
  case (Cons key keys)
  obtain st1 where step: "process_value env (vals key) st = (Ok (), st1)"
      and rest: "process_values env vals keys st1 = (Ok (), st')"
    using process_values_step [OF Cons.prems(1)] .
  have "keyed vals [key]" by (rule keyed_member [OF Cons.prems(2)]) simp
  from process_value_stores [OF step this assms(3)]
  obtain d where "map_of (st_graph st1) key = Some (Some d)" by blast
  then have "map_of (st_graph st') key = Some (Some d)"
    using growsD [OF grows_process_values rest] by (simp add: graph_le_def)
  moreover have "\<forall>key\<in>set keys. \<exists>d. map_of (st_graph st') key = Some (Some d)"
    using Cons.prems by (intro Cons.IH [OF rest]) (auto simp: keyed_def)
  ultimately show ?case by simp
qed simp

lemma load_referenced_available:
  assumes "\<And>r. r \<in> set rs \<Longrightarrow> \<exists>d. map_of (st_graph st) (identity_string (cons_reference_identity r)) = Some (Some d)"
  shows "\<exists>m. load_referenced rs m0 st = (Ok m, st)"
  using assms
proof (induction rs arbitrary: m0)
  case (Cons r rs)
  obtain d where "map_of (st_graph st) (identity_string (cons_reference_identity r)) = Some (Some d)"
    using Cons.prems by auto
  then show ?case using Cons by (simp add: bind_action_def load_descriptor_def)
qed simp

text \<open>C13: When the workers that finished so far, in whatever order, returned without an error, and those of the
  vertices a component refers to are among them, as the order of the processor guarantees, the
  descriptors of all its references are loaded: constructing it does not stop at a missing dependency.
  This needs that the values of the vertices are keyed by the identity of their component, as the
  discovery resolves them, and that a repository asked for a version of a component answers with that
  version of that component: the descriptor of a kept version is stored under the identity it carries.\<close>

theorem dependencies_processed:
  assumes "process_values env vals keys st = (Ok (), st')" and "keyed vals keys" and "honest_get env"
    and "nv_constructor v = Some c" and "discover_children v = Ok children" and "set children \<subseteq> set keys"
  shows "\<exists>m. load_referenced (elements (cc_references c)) [] st' = (Ok m, st')"
proof (rule load_referenced_available)
  fix r
  assume "r \<in> set (elements (cc_references c))"
  then have "identity_string (cons_reference_identity r) \<in> set keys"
    using assms(4,5,6) by (auto simp: discover_children_def)
  then show "\<exists>d. map_of (st_graph st') (identity_string (cons_reference_identity r)) = Some (Some d)"
    using process_values_store [OF assms(1-3)] by blast
qed


section \<open>References that are not told apart\<close>

text \<open>C35: The descriptors of referenced components are kept by the text of the references' identities. A
  component has two references with the same text but different components, both processed; the
  first carries no digest and none is cached for its component. Then the first one gets the digest
  of the component the second one names, and the cache records it for the component of the first.\<close>

theorem ambiguous_reference_digest:
  assumes "identity_string (cons_identity r1) = identity_string (cons_identity r2)" and "cf_digest r1 = None"
    and "map_of (st_graph st) (identity_string (cons_reference_identity r1)) = Some (Some d1)"
    and "map_of (st_graph st) (identity_string (cons_reference_identity r2)) = Some (Some d2)"
    and "map_of (st_cache st) (identity_string (cons_reference_identity r1)) = None"
    and "calculate_digest env d2 = Ok dig"
  shows "\<exists>m st'. load_referenced [r1, r2] [] st = (Ok m, st)
    \<and> bind_action (give (deref (map_of m (identity_string (cons_identity r1))))) (process_reference env r1) st
        = (Ok ((to_desc_reference r1)\<lparr>ref_digest := dig\<rparr>), st')
    \<and> map_of (st_cache st') (identity_string (cons_reference_identity r1)) = Some dig"
proof -
  have "load_referenced [r1, r2] [] st = (Ok [(identity_string (cons_identity r1), d2)], st)"
    using assms(1,3,4) by (simp add: bind_action_def load_descriptor_def)
  moreover have "bind_action (give (deref (Some d2))) (process_reference env r1) st
      = (Ok ((to_desc_reference r1)\<lparr>ref_digest := dig\<rparr>),
         st\<lparr>st_cache := mput (identity_string (cons_reference_identity r1)) dig (st_cache st)\<rparr>)"
    using assms(2,5,6) by (simp add: bind_action_def process_reference_def get_component_digest_def deref_def give_def)
  ultimately show ?thesis by fastforce
qed

section \<open>Conversions\<close>

lemma map_slice_map_slice: "map_slice f (map_slice g s) = map_slice (\<lambda>x. f (g x)) s"
  by (cases s) (simp_all add: map_slice_def)

lemma map_slice_same: "(\<And>x. f x = x) \<Longrightarrow> map_slice f s = s"
  by (cases s) (simp_all add: map_slice_def map_idI)

lemma labels_again: "to_desc_labels (from_desc_labels ls) = ls"
  unfolding to_desc_labels_def from_desc_labels_def map_slice_map_slice
  by (rule map_slice_same) (simp add: to_desc_label_def from_desc_label_def)

lemma digest_again: "to_desc_digest (from_desc_digest d) = d"
  by (simp add: to_desc_digest_def from_desc_digest_def)

lemma source_refs_again: "to_desc_source_refs (from_desc_source_refs rs) = rs"
  unfolding to_desc_source_refs_def from_desc_source_refs_def map_slice_map_slice
  by (rule map_slice_same) (simp add: to_desc_source_ref_def from_desc_source_ref_def labels_again)

lemma copy_access_again: "copy_access (copy_access a) = copy_access a"
  by (simp add: copy_access_def split: option.split typed_value.split)

lemma resource_again:
  "to_desc_resource (from_desc_resource r) = r\<lparr>res_access := copy_access (res_access r), res_created := 0\<rparr>"
  by (cases "res_digest r")
    (simp_all add: to_desc_resource_def from_desc_resource_def labels_again source_refs_again digest_again copy_access_again)

lemma source_again: "to_desc_source (from_desc_source s) = s\<lparr>src_access := copy_access (src_access s)\<rparr>"
  by (simp add: to_desc_source_def from_desc_source_def labels_again copy_access_again)

lemma reference_again: "to_desc_reference (from_desc_reference r) = r"
  by (simp add: to_desc_reference_def from_desc_reference_def Let_def labels_again digest_again)

text \<open>A component read into the constructor's form and converted back is the component, without its
  repository contexts, the creation times of its resources, and accesses that are nil objects.\<close>

theorem constructor_form_roundtrip:
  "to_desc_component (from_desc_component c) = c\<lparr>comp_contexts := None,
     comp_resources := map_slice (\<lambda>r. r\<lparr>res_access := copy_access (res_access r), res_created := 0\<rparr>) (comp_resources c),
     comp_sources := map_slice (\<lambda>s. s\<lparr>src_access := copy_access (src_access s)\<rparr>) (comp_sources c)\<rparr>"
  by (simp add: to_desc_component_def from_desc_component_def labels_again map_slice_map_slice resource_again
      source_again reference_again map_slice_same)

section \<open>Existing versions\<close>

text \<open>C31: A component version that exists in its target repository is not touched unless the policy is to
  replace it: it is taken over, or the construction of the component fails, and nothing is uploaded.\<close>

theorem existing_version_kept:
  assumes "en_policy env \<noteq> Conflict_Replace" and "en_target env c s = (Ok repo, s1)"
    and "en_get env repo (cc_name c) (cc_version c) s1 = (Ok d, s2)" and "st_outside st = s"
  shows "construct_component env c m st
    = (if en_policy env = Conflict_Skip then Ok d else Fail Version_Exists, st\<lparr>st_outside := s2\<rparr>)"
  using assms
  by (cases "en_policy env")
    (simp_all add: construct_component_def bind_action_def process_conflict_def outside_def attempt_def give_def)


section \<open>Witnesses\<close>

text \<open>A target repository that keeps what it is given, and no inputs.\<close>

definition refused :: "('s, 'a) outside_call" where
  "refused s = (Fail (Outside_Failed ''unused''), s)"

definition accepted :: "('s, unit) outside_call" where
  "accepted s = (Ok (), s)"

definition library_env :: "conflict_policy \<Rightarrow> ((nat, json) descriptor list, nat, json, string) cons_env" where
  "library_env policy =
    \<lparr>en_digests = sample_digests,
     en_semver = \<lparr>new_version = Some, compare_versions = (\<lambda>_ _. 0), new_constraint = (\<lambda>_. None)\<rparr>,
     en_registry = None, en_policy = policy, en_copy = False,
     en_spec_codec = \<lparr>sc_decode = (\<lambda>_ _. None), sc_validate = (\<lambda>_. None), sc_normalize = (\<lambda>_. None)\<rparr>,
     en_accesses = None, en_inputs = None,
     en_order = (\<lambda>c. [0..<length (cons_tasks c)]), en_upload_order = (\<lambda>is. is),
     en_target = (\<lambda>_ s. (Ok 0, s)), en_external = None,
     en_get = (\<lambda>_ n v s. (case find (\<lambda>d. comp_name (desc_component d) = n \<and> comp_version (desc_component d) = v) s of
        Some d \<Rightarrow> Ok d | None \<Rightarrow> Fail Outside_Not_Found, s)),
     en_add = (\<lambda>_ d s. (Ok (), d # s)), en_add_resource = (\<lambda>_ _ _ _ _. refused), en_add_source = (\<lambda>_ _ _ _ _. refused),
     en_local = (\<lambda>_ _ _ _. refused), en_owns = (\<lambda>_. False), en_add_ownership = (\<lambda>_ _ _ _ _. refused),
     en_resource_repository = None, en_repository_identity = (\<lambda>_ _. Ok None),
     en_is_local = (\<lambda>_. False), en_local_blob = (\<lambda>_. RawPtr None), en_media = (\<lambda>_. None),
     en_resource_method = (\<lambda>_. refused), en_resource_identity = (\<lambda>_ _. Ok None), en_run_resource = (\<lambda>_ _ _. refused),
     en_source_method = (\<lambda>_. refused), en_source_identity = (\<lambda>_ _. Ok None), en_run_source = (\<lambda>_ _ _. refused),
     en_digest_processor = None, en_processor_identity = (\<lambda>_ _. Ok None), en_process_digest = (\<lambda>_ _ _. refused),
     en_resolver = None,
     on_start_component = (\<lambda>_. accepted), on_end_component = (\<lambda>_. accepted),
     on_start_resource = (\<lambda>_. accepted), on_end_resource = (\<lambda>_. accepted),
     on_start_source = (\<lambda>_. accepted), on_end_source = (\<lambda>_. accepted),
     on_start_reference = (\<lambda>_. accepted), on_end_reference = (\<lambda>_. accepted)\<rparr>"

definition library :: "(nat, json) cons_component" where
  "library = \<lparr>cc_name = ''acme.org/lib'', cc_version = ''1.0.0'', cc_labels = None, cc_created = [],
     cc_provider = \<lparr>cprov_name = ''acme'', cprov_labels = None\<rparr>,
     cc_resources = None, cc_sources = None, cc_references = None\<rparr>"

definition lib_reference :: cons_reference where
  "lib_reference = \<lparr>ce_name = ''lib'', ce_version = ''1.0.0'', ce_labels = None, ce_extra = None,
     cf_component = ''acme.org/lib'', cf_digest = None\<rparr>"

definition application :: "(nat, json) cons_component" where
  "application = library\<lparr>cc_name := ''acme.org/app'', cc_references := Some [lib_reference]\<rparr>"

definition library_key :: string where "library_key = identity_string (cons_component_identity library)"

definition library_start :: "((nat, json) descriptor list, nat, json) cons_state" where
  "library_start = \<lparr>st_outside = [], st_cache = [], st_graph = [(library_key, None)], st_added = []\<rparr>"

definition library_values :: "string \<Rightarrow> (nat, json) node_value" where
  "library_values key = \<lparr>nv_constructor = Some library, nv_external = None\<rparr>"

lemma library_env_props: "fair_order (library_env policy)" "honest_get (library_env policy)"
  by (auto simp: fair_order_def honest_get_def library_env_def find_Some_iff split: option.splits)

lemma library_clean: "clean_references library"
  by (simp add: clean_references_def library_def elements_def)

lemma library_inv: "cons_inv (library_env policy) vals library_start"
  by (simp add: cons_inv_def cache_ok_def library_start_def)

lemma library_keyed: "keyed library_values [library_key]"
  by (simp add: keyed_def library_values_def library_key_def)

lemma library_component: "desc_component (create_base_descriptor library) =
    \<lparr>comp_name = ''acme.org/lib'', comp_version = ''1.0.0'', comp_labels = None, comp_created = [], comp_contexts = None,
     comp_provider = \<lparr>prov_name = ''acme'', prov_labels = None\<rparr>,
     comp_resources = None, comp_sources = None, comp_references = None\<rparr>"
  by (simp add: create_base_descriptor_def to_desc_component_def library_def map_slice_def to_desc_labels_def)

lemma library_fields: "cc_name library = ''acme.org/lib''" "cc_version library = ''1.0.0''" "cc_references library = None"
  by (simp_all add: library_def)

lemma library_tasks: "cons_tasks library = []"
  by (simp add: cons_tasks_def library_def elements_def)

lemma library_valid:
  "validate_descriptor (create_base_descriptor library) = Ok ()"
  "validate_versions (library_env policy) (create_base_descriptor library) = Ok ()"
  "validate_component_version (library_env policy) (cc_version library) = Ok ()"
  by (simp_all add: validate_descriptor_def validate_versions_def library_component has_duplicates_def elements_def
      invalid_versions_def validate_component_version_def version_valid_def library_env_def default_registry_def
      scheme_valid_def)

lemma library_constructed:
  "process_values (library_env Conflict_Replace) library_values [library_key] library_start
    = (Ok (), \<lparr>st_outside = [create_base_descriptor library], st_cache = [],
         st_graph = [(library_key, Some (create_base_descriptor library))], st_added = [create_base_descriptor library]\<rparr>)"
proof -
  let ?env = "library_env Conflict_Replace"
  have parts: "en_policy ?env = Conflict_Replace" "en_target ?env library = (\<lambda>s. (Ok 0, s))"
      "en_add ?env 0 = (\<lambda>d s. (Ok (), d # s))" "en_order ?env library = []"
      "on_start_component ?env library = accepted" "\<And>r. on_end_component ?env r = accepted"
    by (simp_all add: library_env_def library_tasks)
  have "finish_component ?env 0 (create_base_descriptor library) library_start
      = (Ok (create_base_descriptor library), library_start\<lparr>st_outside := [create_base_descriptor library],
           st_added := [create_base_descriptor library]\<rparr>)"
    by (simp add: finish_component_def bind_give library_valid bind_action_def add_component_version_def outside_def
        parts give_def library_start_def)
  then have "construct_component ?env library [] library_start
      = (Ok (create_base_descriptor library), library_start\<lparr>st_outside := [create_base_descriptor library],
           st_added := [create_base_descriptor library]\<rparr>)"
    by (simp add: construct_component_def bind_action_def outside_def parts process_conflict_def give_def library_valid
        process_descriptor_def library_start_def)
  moreover have "identity_string (component_identity (desc_component (create_base_descriptor library))) = library_key"
    by (simp add: library_key_def library_component component_identity_def cons_component_identity_def library_fields)
  ultimately show ?thesis
    by (simp add: process_value_def library_values_def process_constructor_component_def bind_action_def give_def
        library_fields elements_def with_callbacks_def outside_def parts accepted_def
        attempt_def store_descriptor_def library_start_def)
qed

theorem construction_invariant_witness:
  "good_version (library_env Conflict_Replace) [(library_key, Some (create_base_descriptor library))]
     (create_base_descriptor library)"
proof -
  have "cons_inv (library_env Conflict_Replace) library_values
      (snd (process_values (library_env Conflict_Replace) library_values [library_key] library_start))"
    by (rule construction_invariant [OF library_env_props(1) library_inv]) (auto simp: library_values_def library_clean)
  then show ?thesis unfolding library_constructed by (auto simp: cons_inv_def library_values_def)
qed

theorem dependencies_processed_witness:
  "\<exists>m. load_referenced [lib_reference] []
      (snd (process_values (library_env Conflict_Replace) library_values [library_key] library_start))
    = (Ok m, snd (process_values (library_env Conflict_Replace) library_values [library_key] library_start))"
proof -
  let ?v = "\<lparr>nv_constructor = Some application, nv_external = None\<rparr>"
  have refs: "elements (cc_references application) = [lib_reference]" by (simp add: application_def elements_def)
  have key: "identity_string (cons_reference_identity lib_reference) = library_key"
    by (simp add: library_key_def cons_reference_identity_def lib_reference_def cons_component_identity_def library_def)
  have "discover_children ?v = Ok [library_key]" by (simp add: discover_children_def refs key)
  then show ?thesis unfolding library_constructed snd_conv
    using dependencies_processed [OF library_constructed library_keyed library_env_props(2), of ?v application "[library_key]"]
    by (simp add: refs)
qed

text \<open>The extra identities of the two references differ, their texts do not.\<close>

definition first_reference :: cons_reference where
  "first_reference = lib_reference\<lparr>cf_component := ''acme.org/moved'', ce_extra := Some [(''os'', ''linux,release=eu'')]\<rparr>"

definition second_reference :: cons_reference where
  "second_reference = lib_reference\<lparr>ce_extra := Some [(''os'', ''linux''), (''release'', ''eu'')]\<rparr>"

lemma references_same_text:
  "identity_string (cons_identity first_reference) = identity_string (cons_identity second_reference)
   \<and> cons_identity first_reference \<noteq> cons_identity second_reference
   \<and> identity_string (cons_reference_identity first_reference) \<noteq> identity_string (cons_reference_identity second_reference)"
  by code_simp

definition ambiguous_start :: "((nat, json) descriptor list, nat, json) cons_state" where
  "ambiguous_start = \<lparr>st_outside = [], st_cache = [],
     st_graph = [(identity_string (cons_reference_identity first_reference), Some moved_image),
                 (identity_string (cons_reference_identity second_reference), Some released_image)], st_added = []\<rparr>"

lemma released_calculated:
  "\<exists>dig. calculate_digest (library_env policy) released_image = Ok dig"
proof -
  have "normalise (registered_algorithms sample_digests) released_image (v4_name V4alpha3) = Ok (de_text sample_digests
     (signed_view V4alpha3 ''ocm'' provider_labels (vdesc_component (v2_of released_image))))"
    using v4_view [OF images_normalisable(1), of V4alpha3] by (simp add: normalise_v4 sample_env_canonicalize)
  then show ?thesis
    using hash_of_sha256
    by (simp add: calculate_digest_def library_env_def descriptor_digest_def resolved_v4 descriptor_sum_def hash_name_def)
qed

theorem ambiguous_reference_digest_witness:
  "\<exists>dig m st'. calculate_digest (library_env Conflict_Replace) released_image = Ok dig
    \<and> bind_action (give (deref (map_of m (identity_string (cons_identity first_reference)))))
          (process_reference (library_env Conflict_Replace) first_reference) ambiguous_start
        = (Ok ((to_desc_reference first_reference)\<lparr>ref_digest := dig\<rparr>), st')"
proof -
  obtain dig where "calculate_digest (library_env Conflict_Replace) released_image = Ok dig"
    using released_calculated by blast
  with ambiguous_reference_digest [of first_reference second_reference ambiguous_start moved_image released_image
      "library_env Conflict_Replace" dig] references_same_text
  show ?thesis by (fastforce simp: ambiguous_start_def first_reference_def lib_reference_def)
qed

theorem existing_version_kept_witness:
  "fst (construct_component (library_env Conflict_Abort) library [] (library_start\<lparr>st_outside := [create_base_descriptor library]\<rparr>))
    = Fail Version_Exists"
proof -
  have "en_target (library_env Conflict_Abort) library [create_base_descriptor library] = (Ok 0, [create_base_descriptor library])"
    "en_get (library_env Conflict_Abort) 0 (cc_name library) (cc_version library) [create_base_descriptor library]
      = (Ok (create_base_descriptor library), [create_base_descriptor library])"
    by (simp_all add: library_env_def library_component library_fields)
  from existing_version_kept [OF _ this] show ?thesis by (simp add: library_env_def)
qed

end
