(* ===== verification/Cel_Escape.thy ===== *)
theory Cel_Escape
  imports Go_Strings
begin

text \<open>
  The names of properties as CEL identifiers, \<open>bindings/go/cel/jsonschema/escape.go\<close>. The source
  ranges over the code points of a string, the model over its bytes: a byte of a longer code
  point is no valid character, and neither is its code point.
\<close>

section \<open>Reserved symbols and valid characters\<close>

definition reserved_symbols :: "string list" where
  "reserved_symbols =
     [''true'', ''false'', ''null'', ''in'',
      ''as'', ''break'', ''const'', ''continue'', ''else'',
      ''for'', ''function'', ''if'', ''import'', ''let'',
      ''loop'', ''package'', ''namespace'', ''return'',
      ''var'', ''void'', ''while'']"

definition has_reserved :: "string \<Rightarrow> bool" where
  "has_reserved item = (item \<in> set reserved_symbols)"

text \<open>The table is as long as its greatest character demands.\<close>

definition new_character_filter :: "string \<Rightarrow> bool list" where
  "new_character_filter characters =
     (let max_char = fold (\<lambda>c m. if m < of_char c then of_char c else m) characters 0
      in fold (\<lambda>c f. f[of_char c := True]) characters (replicate (max_char + 1) False))"

definition identifier_characters :: string where
  "identifier_characters =
     ''abcdefghijklmnopqrstuvwxyzABCDEFGHIJKLMNOPQRSTUVWXYZ0123456789_''"

definition valid_character_filter :: "bool list" where
  "valid_character_filter = new_character_filter identifier_characters"

definition valid_character :: "char \<Rightarrow> bool" where
  "valid_character c =
     (of_char c < length valid_character_filter \<and> valid_character_filter ! of_char c)"

section \<open>Escape\<close>

record escape_check =
  ec_can_skip_regex :: bool
  ec_invalid_char_found :: bool

definition special_character :: "char \<Rightarrow> bool" where
  "special_character c = (c = CHR ''/'' \<or> c = CHR ''-'' \<or> c = CHR ''.'')"

text \<open>The loop of \<open>skipRegexCheck\<close>; its first argument is \<open>previousUnderscore\<close>.\<close>

fun skip_scan :: "bool \<Rightarrow> string \<Rightarrow> escape_check" where
  "skip_scan previous [] = \<lparr>ec_can_skip_regex = True, ec_invalid_char_found = False\<rparr>"
| "skip_scan previous (c # cs) =
     (if special_character c then \<lparr>ec_can_skip_regex = False, ec_invalid_char_found = False\<rparr>
      else if \<not> valid_character c then \<lparr>ec_can_skip_regex = True, ec_invalid_char_found = True\<rparr>
      else if c = CHR ''_'' \<and> previous
           then \<lparr>ec_can_skip_regex = False, ec_invalid_char_found = False\<rparr>
      else skip_scan (c = CHR ''_'') cs)"

definition skip_regex_check :: "string \<Rightarrow> escape_check" where
  "skip_regex_check ident = skip_scan False ident"

text \<open>
  One character of the input: a special one is written out, one of the identifier characters
  stays, any other clears \<open>ok\<close>.
\<close>

definition replace_character :: "char \<Rightarrow> string option" where
  "replace_character c =
     (if c = CHR ''.'' then Some ''__dot__''
      else if c = CHR ''-'' then Some ''__dash__''
      else if c = CHR ''/'' then Some ''__slash__''
      else if valid_character c then Some [c]
      else None)"

text \<open>
  \<open>expandMatcher.ReplaceAllStringFunc\<close>: the matches of \<open>__|[-./]|[^a-zA-Z0-9-./_]\<close>, from left to
  right, are replaced; the result counts only when \<open>ok\<close> is still set.
\<close>

definition append_opt :: "string option \<Rightarrow> string option \<Rightarrow> string option" where
  "append_opt a b = (case a of None \<Rightarrow> None | Some s \<Rightarrow> map_option (\<lambda>t. s @ t) b)"

fun replace_all :: "string \<Rightarrow> string option" where
  "replace_all [] = Some []"
| "replace_all [c] = replace_character c"
| "replace_all (c # d # cs) =
     (if c = CHR ''_'' \<and> d = CHR ''_''
      then append_opt (Some ''__underscores__'') (replace_all cs)
      else append_opt (replace_character c) (replace_all (d # cs)))"

definition leading_digit :: "char \<Rightarrow> bool" where
  "leading_digit c = (CHR ''0'' \<le> c \<and> c \<le> CHR ''9'')"

definition escape :: "string \<Rightarrow> string option" where
  "escape ident =
     (if ident = [] \<or> leading_digit (ident ! 0) then None
      else if has_reserved ident then Some (''__'' @ ident @ ''__'')
      else (let check = skip_regex_check ident
            in if ec_invalid_char_found check then None
               else if ec_can_skip_regex check then Some ident
               else replace_all ident))"

section \<open>Valid characters\<close>

lemma filter_bound:
  "m \<le> fold (\<lambda>c m. if m < (of_char c :: nat) then of_char c else m) cs m"
  "c \<in> set cs \<Longrightarrow> of_char c \<le> fold (\<lambda>c m. if m < (of_char c :: nat) then of_char c else m) cs m"
proof (induction cs arbitrary: m)
  case (Cons a cs)
  { case 1 then show ?case using Cons.IH(1)[of "if m < of_char a then of_char a else m"] by auto
  next
    case 2 then show ?case
      using Cons.IH(1)[of "if m < of_char a then of_char a else m"]
        Cons.IH(2)[of "if m < of_char a then of_char a else m"] by auto }
qed auto

lemma filter_marks:
  "\<forall>c \<in> set cs. (of_char c :: nat) < length f \<Longrightarrow>
   length (fold (\<lambda>c f. f[of_char c := True]) cs f) = length f \<and>
   (i < length f \<longrightarrow> fold (\<lambda>c f. f[of_char c := True]) cs f ! i = (f ! i \<or> i \<in> of_char ` set cs))"
  by (induction cs arbitrary: f) (auto simp: nth_list_update)

lemma new_character_filter_iff:
  "of_char c < length (new_character_filter cs) \<and> new_character_filter cs ! of_char c \<longleftrightarrow> c \<in> set cs"
proof -
  let ?m = "fold (\<lambda>c m. if m < (of_char c :: nat) then of_char c else m) cs 0"
  define table where "table = replicate (?m + 1) False"
  have bound: "\<forall>c \<in> set cs. (of_char c :: nat) < length table"
    using filter_bound(2)[of _ cs 0] by (auto simp: less_Suc_eq_le table_def)
  have unset: "i < length table \<Longrightarrow> \<not> table ! i" for i
    unfolding table_def by (simp del: replicate.simps)
  have "new_character_filter cs = fold (\<lambda>c f. f[of_char c := True]) cs table"
    by (simp add: new_character_filter_def Let_def table_def)
  then show ?thesis
    using bound unset filter_marks[OF bound, of "of_char c"] by auto
qed

lemma valid_character_iff: "valid_character c \<longleftrightarrow> c \<in> set identifier_characters"
  by (simp add: valid_character_def valid_character_filter_def new_character_filter_iff)

lemma valid_not_special: "valid_character c \<Longrightarrow> \<not> special_character c"
  by (auto simp: valid_character_iff identifier_characters_def special_character_def)

lemma valid_underscore: "valid_character CHR ''_''"
  by (simp add: valid_character_iff identifier_characters_def)

section \<open>What is accepted\<close>

text \<open>The inputs the comment of the source promises to accept: \<open>[a-zA-Z_.-/][a-zA-Z0-9_.-/]*\<close>.\<close>

definition supported_character :: "char \<Rightarrow> bool" where
  "supported_character c = (valid_character c \<or> special_character c)"

definition supported :: "string \<Rightarrow> bool" where
  "supported s = (s \<noteq> [] \<and> \<not> leading_digit (hd s) \<and> list_all supported_character s)"

text \<open>A CEL identifier, \<open>[a-zA-Z_][a-zA-Z0-9_]*\<close>.\<close>

definition cel_identifier :: "string \<Rightarrow> bool" where
  "cel_identifier s = (s \<noteq> [] \<and> \<not> leading_digit (hd s) \<and> list_all valid_character s)"

lemma append_opt_eq_Some:
  "append_opt a b = Some s \<longleftrightarrow> (\<exists>x y. a = Some x \<and> b = Some y \<and> s = x @ y)"
  by (auto simp: append_opt_def split: option.splits)

lemma append_opt_eq_None: "append_opt a b = None \<longleftrightarrow> a = None \<or> b = None"
  by (auto simp: append_opt_def split: option.splits)

lemma append_opt_Some [simp]: "append_opt (Some x) (Some y) = Some (x @ y)"
  by (simp add: append_opt_def)

lemma replace_character_None_iff: "replace_character c = None \<longleftrightarrow> \<not> supported_character c"
  by (auto simp: replace_character_def supported_character_def special_character_def)

lemma replace_all_None_iff: "replace_all s = None \<longleftrightarrow> \<not> list_all supported_character s"
  by (induction s rule: replace_all.induct)
     (auto simp: append_opt_eq_None replace_character_None_iff supported_character_def
        valid_underscore)

lemma skip_scan_skips:
  "ec_can_skip_regex (skip_scan p s) \<Longrightarrow> \<not> ec_invalid_char_found (skip_scan p s) \<Longrightarrow>
   list_all valid_character s \<and> replace_all s = Some s \<and> (p \<longrightarrow> s = [] \<or> hd s \<noteq> CHR ''_'')"
proof (induction p s rule: skip_scan.induct)
  case (2 p c cs)
  from 2 have v: "valid_character c" "\<not> special_character c" by (auto split: if_splits)
  have rest: "list_all valid_character cs \<and> replace_all cs = Some cs \<and>
      (c = CHR ''_'' \<longrightarrow> cs = [] \<or> hd cs \<noteq> CHR ''_'')"
    using 2 by (auto split: if_splits)
  have "replace_character c = Some [c]"
    using v by (auto simp: replace_character_def special_character_def)
  with rest have "replace_all (c # cs) = Some (c # cs)"
    by (cases cs) auto
  with v rest 2 show ?case by (auto split: if_splits)
qed auto

lemma skip_scan_invalid:
  "ec_invalid_char_found (skip_scan p s) \<Longrightarrow> \<not> list_all supported_character s"
  by (induction p s rule: skip_scan.induct)
     (auto simp: supported_character_def split: if_splits)

text \<open>The early exits of \<open>Escape\<close> only save the regular expression.\<close>

lemma escape_eq:
  "escape s =
     (if s = [] \<or> leading_digit (hd s) then None
      else if has_reserved s then Some (''__'' @ s @ ''__'')
      else replace_all s)"
proof -
  have "ec_invalid_char_found (skip_scan False s) \<Longrightarrow> replace_all s = None"
    using skip_scan_invalid[of False s] by (simp add: replace_all_None_iff)
  then show ?thesis
    using skip_scan_skips[of False s]
    by (auto simp: escape_def Let_def skip_regex_check_def hd_conv_nth)
qed

lemma reserved_supported: "has_reserved s \<Longrightarrow> list_all valid_character s"
  by (auto simp: has_reserved_def reserved_symbols_def valid_character_iff identifier_characters_def)

lemma escape_defined: "escape s \<noteq> None \<longleftrightarrow> supported s"
proof -
  have "replace_all s = None \<Longrightarrow> \<not> has_reserved s \<or> \<not> list_all valid_character s"
    using replace_all_None_iff[of s]
    by (auto simp: supported_character_def list_all_iff)
  moreover have "list_all valid_character s \<Longrightarrow> list_all supported_character s"
    by (auto simp: supported_character_def list_all_iff)
  ultimately show ?thesis
    using reserved_supported[of s] replace_all_None_iff[of s]
    by (auto simp: escape_eq supported_def)
qed

section \<open>Injectivity\<close>

text \<open>An inverse of the replacement, on its results.\<close>

function unescape :: "string \<Rightarrow> string" where
  "unescape s =
     (if has_prefix s ''__underscores__'' then ''__'' @ unescape (drop 15 s)
      else if has_prefix s ''__dot__'' then CHR ''.'' # unescape (drop 7 s)
      else if has_prefix s ''__dash__'' then CHR ''-'' # unescape (drop 8 s)
      else if has_prefix s ''__slash__'' then CHR ''/'' # unescape (drop 9 s)
      else (case s of [] \<Rightarrow> [] | c # cs \<Rightarrow> c # unescape cs))"
  by pat_completeness auto
termination
  by (relation "measure length") (auto simp: has_prefix_iff)

declare unescape.simps [simp del]

lemma unescape_Nil [simp]: "unescape [] = []"
  by (simp add: unescape.simps[of "[]"] has_prefix_def)

lemma unescape_word [simp]:
  "unescape (''__underscores__'' @ t) = ''__'' @ unescape t"
  "unescape (''__dot__'' @ t) = CHR ''.'' # unescape t"
  "unescape (''__dash__'' @ t) = CHR ''-'' # unescape t"
  "unescape (''__slash__'' @ t) = CHR ''/'' # unescape t"
  by (simp_all add: unescape.simps[of "_ # _"] has_prefix_def)

text \<open>
  A character that is no underscore before a letter of an escape word stands for itself. So
  does an underscore before a word: the three underscores cannot open a word at the first.
\<close>

lemma unescape_Cons:
  "c \<noteq> CHR ''_'' \<or> t = [] \<or> hd t \<noteq> CHR ''_'' \<or> has_prefix t ''__'' \<Longrightarrow> unescape (c # t) = c # unescape t"
  by (subst unescape.simps) (auto simp: has_prefix_iff)

lemma replace_character_word:
  "replace_character c = Some w \<Longrightarrow>
   (w = [c] \<and> valid_character c) \<or> (special_character c \<and> has_prefix w ''__'')"
  by (auto simp: replace_character_def special_character_def has_prefix_def split: if_splits)

lemma replace_all_start:
  "replace_all s = Some t \<Longrightarrow>
   (s = [] \<and> t = []) \<or> (\<exists>c. valid_character c \<and> hd s = c \<and> hd t = c \<and> s \<noteq> [] \<and> t \<noteq> []) \<or> has_prefix t ''__''"
  by (induction s rule: replace_all.induct)
     (auto simp: append_opt_eq_Some has_prefix_iff split: if_splits
        dest!: replace_character_word)

lemma unescape_character:
  "replace_character c = Some w \<Longrightarrow> c \<noteq> CHR ''_'' \<or> t = [] \<or> hd t \<noteq> CHR ''_'' \<or> has_prefix t ''__'' \<Longrightarrow>
   unescape (w @ t) = c # unescape t"
  using unescape_word(2-4)[of t]
  by (auto simp: replace_character_def unescape_Cons split: if_splits)

lemma unescape_replace_all: "replace_all s = Some t \<Longrightarrow> unescape t = s"
proof (induction s arbitrary: t rule: replace_all.induct)
  case (2 c)
  then show ?case using unescape_character[of c t "[]"] by simp
next
  case (3 c d cs)
  show ?case
  proof (cases "c = CHR ''_'' \<and> d = CHR ''_''")
    case True
    with 3 obtain u where "replace_all cs = Some u" "t = ''__underscores__'' @ u"
      by (auto simp: append_opt_eq_Some)
    with 3(1) True show ?thesis using unescape_word(1)[of u] by simp
  next
    case False
    then obtain w u where w: "replace_character c = Some w" "replace_all (d # cs) = Some u" "t = w @ u"
      using 3(3) by (auto simp: append_opt_eq_Some)
    with False have "c \<noteq> CHR ''_'' \<or> u = [] \<or> hd u \<noteq> CHR ''_'' \<or> has_prefix u ''__''"
      using replace_all_start[OF w(2)] by auto
    with w 3(2) False show ?thesis by (simp add: unescape_character)
  qed
qed simp

text \<open>No reserved word begins like an escape word.\<close>

lemma reserved_start:
  "has_reserved w \<Longrightarrow> \<exists>c v. w = c # v \<and> c \<noteq> CHR ''_'' \<and> c \<noteq> CHR ''u'' \<and> c \<noteq> CHR ''d'' \<and> c \<noteq> CHR ''s''"
  by (auto simp: has_reserved_def reserved_symbols_def)

lemma replace_all_word_start:
  "replace_all s = Some (CHR ''_'' # CHR ''_'' # c # v) \<Longrightarrow>
   c = CHR ''_'' \<or> c = CHR ''u'' \<or> c = CHR ''d'' \<or> c = CHR ''s''"
proof (induction s rule: replace_all.induct)
  case (3 a b cs)
  show ?case
  proof (cases "a = CHR ''_'' \<and> b = CHR ''_''")
    case False
    then obtain w u where w: "replace_character a = Some w" "replace_all (b # cs) = Some u"
      "CHR ''_'' # CHR ''_'' # c # v = w @ u"
      using 3(3) by (auto simp: append_opt_eq_Some)
    show ?thesis
    proof (cases "w = [a]")
      case True
      with w have u: "u = CHR ''_'' # c # v" "a = CHR ''_''" by auto
      with False replace_all_start[OF w(2)] show ?thesis by (auto simp: has_prefix_def)
    next
      case False
      with w(1,3) show ?thesis by (auto simp: replace_character_def split: if_splits)
    qed
  qed (use 3(3) in \<open>auto simp: append_opt_eq_Some\<close>)
qed (auto simp: replace_character_def split: if_splits)

lemma replace_all_not_reserved: "has_reserved w \<Longrightarrow> replace_all s \<noteq> Some (''__'' @ w @ ''__'')"
  using reserved_start[of w] replace_all_word_start[of s] by fastforce

lemma escape_inj: "escape s = Some t \<Longrightarrow> escape s' = Some t \<Longrightarrow> s = s'"
  using unescape_replace_all[of s t] unescape_replace_all[of s' t]
    replace_all_not_reserved[of s s'] replace_all_not_reserved[of s' s]
  by (auto simp: escape_eq split: if_splits)

section \<open>Results\<close>

lemma words_valid:
  "list_all valid_character ''__underscores__''" "list_all valid_character ''__dot__''"
  "list_all valid_character ''__dash__''" "list_all valid_character ''__slash__''"
  by (simp_all add: valid_character_iff identifier_characters_def)

lemma replace_character_valid: "replace_character c = Some w \<Longrightarrow> list_all valid_character w"
  using words_valid by (auto simp: replace_character_def split: if_splits)

lemma replace_all_valid: "replace_all s = Some t \<Longrightarrow> list_all valid_character t"
proof (induction s arbitrary: t rule: replace_all.induct)
  case (3 c d cs)
  then show ?case
    using words_valid(1) replace_character_valid[of c]
    by (auto simp: append_opt_eq_Some split: if_splits)
qed (auto dest: replace_character_valid)

lemma replace_all_hd:
  "replace_all s = Some t \<Longrightarrow> s \<noteq> [] \<Longrightarrow> \<not> leading_digit (hd s) \<Longrightarrow> t \<noteq> [] \<and> \<not> leading_digit (hd t)"
  using replace_all_start[of s t] by (auto simp: has_prefix_iff leading_digit_def less_eq_char_def)

lemma escape_identifier: "escape s = Some t \<Longrightarrow> cel_identifier t"
  using replace_all_valid[of s t] replace_all_hd[of s t] reserved_supported[of s]
  by (auto simp: escape_eq cel_identifier_def leading_digit_def less_eq_char_def valid_underscore
      split: if_splits)

lemma replace_all_plain: "replace_all s = Some t \<Longrightarrow> CHR ''_'' \<notin> set t \<Longrightarrow> s = t"
proof (induction s arbitrary: t rule: replace_all.induct)
  case (3 c d cs)
  then show ?case
    by (auto simp: append_opt_eq_Some replace_character_def split: if_splits)
qed (auto simp: replace_character_def split: if_splits)

lemma reserved_plain: "has_reserved w \<Longrightarrow> CHR ''_'' \<notin> set w"
  by (auto simp: has_reserved_def reserved_symbols_def)

lemma escape_not_reserved:
  assumes "escape s = Some t"
  shows "\<not> has_reserved t"
proof
  assume r: "has_reserved t"
  with assms have "replace_all s = Some t" "\<not> has_reserved s"
    using reserved_plain[OF r] by (auto simp: escape_eq split: if_splits)
  with r show False using replace_all_plain reserved_plain[OF r] by blast
qed

text \<open>Escaping decides and separates names. The early exits for reserved words and plain
  identifiers change nothing: a name is escaped exactly when it has the format the comment
  promises, the result is a CEL identifier that is no reserved symbol, and two names never
  share a result, although plain underscores and escape words may meet.
\<close>

theorem escape_correct:
  "case escape s of
     None \<Rightarrow> \<not> supported s
   | Some t \<Rightarrow> supported s \<and> cel_identifier t \<and> \<not> has_reserved t \<and> (\<forall>s'. (escape s' = Some t) = (s' = s))"
proof (cases "escape s")
  case None
  then show ?thesis using escape_defined[of s] by simp
next
  case (Some t)
  then have unique: "(escape s' = Some t) = (s' = s)" for s'
    using escape_inj[of s' t s] by auto
  have "supported s" using Some escape_defined[of s] by simp
  with unique show ?thesis
    unfolding Some using escape_identifier[OF Some] escape_not_reserved[OF Some] by simp
qed

end
