(* ===== verification/Cel_Decl.thy ===== *)
theory Cel_Decl
  imports Cel_Escape Json "HOL-Library.Word"
begin

text \<open>
  The types that JSON schemas declare to CEL, \<open>bindings/go/cel/jsonschema/decl\<close> (\<open>type.go\<close>,
  \<open>field.go\<close>, \<open>scalar.go\<close>), the paths of \<open>bindings/go/cel/expression/fieldpath/path.go\<close> and the
  type map of \<open>bindings/go/cel/jsonschema/provider/provider.go\<close>. The types of the CEL library
  are not part of the repository: they are a type variable, and what the sources call of the
  library is the record \<open>cel_lib\<close>. Default values and traits, which only the CEL runtime reads,
  are left out.
\<close>

section \<open>Field paths\<close>

text \<open>An index is a pointer: its address and the integer it points to.\<close>

record path_segment =
  seg_name :: string
  seg_index :: "(nat \<times> int) option"

definition named_segment :: "string \<Rightarrow> path_segment" where
  "named_segment n = \<lparr>seg_name = n, seg_index = None\<rparr>"

text \<open>\<open>Path.Equals\<close>; equal pointers, two nil pointers included, end the comparison at once.\<close>

fun same_segments :: "path_segment list \<Rightarrow> path_segment list \<Rightarrow> bool" where
  "same_segments (a # p) (b # q) =
     (if seg_name a \<noteq> seg_name b then False
      else case (seg_index a, seg_index b) of
             (None, None) \<Rightarrow> True
           | (Some x, Some y) \<Rightarrow>
               if fst x = fst y then True
               else if snd x \<noteq> snd y then False
               else same_segments p q
           | _ \<Rightarrow> False)"
| "same_segments _ _ = True"

definition path_equals :: "path_segment list \<Rightarrow> path_segment list \<Rightarrow> bool" where
  "path_equals p other = (if length p \<noteq> length other then False else same_segments p other)"

section \<open>The CEL library\<close>

datatype cel_kind =
  Dyn_Kind | Opaque_Kind | Struct_Kind | Map_Kind | List_Kind | String_Kind | Other_Kind nat

text \<open>
  The first fields are the library's types and constructors of types (\<open>cel.BoolType\<close>,
  \<open>cel.ListType\<close>, \<open>cel.ObjectType\<close>, \<open>cel.OptionalType\<close> and so on), the others the methods
  \<open>Kind\<close>, \<open>TypeName\<close>, \<open>Parameters\<close>, \<open>String\<close> and \<open>IsAssignableType\<close> of a type.
\<close>

record 'ct cel_lib =
  cl_any :: 'ct
  cl_bool :: 'ct
  cl_bytes :: 'ct
  cl_double :: 'ct
  cl_duration :: 'ct
  cl_dyn :: 'ct
  cl_int :: 'ct
  cl_null :: 'ct
  cl_string :: 'ct
  cl_timestamp :: 'ct
  cl_uint :: 'ct
  cl_list :: "'ct \<Rightarrow> 'ct"
  cl_map :: "'ct \<Rightarrow> 'ct \<Rightarrow> 'ct"
  cl_object :: "string \<Rightarrow> 'ct"
  cl_optional :: "'ct \<Rightarrow> 'ct"
  cl_kind :: "'ct \<Rightarrow> cel_kind"
  cl_type_name :: "'ct \<Rightarrow> string"
  cl_parameters :: "'ct \<Rightarrow> 'ct list"
  cl_text :: "'ct \<Rightarrow> string"
  cl_assignable :: "'ct option \<Rightarrow> 'ct option \<Rightarrow> bool"

section \<open>Declared types\<close>

text \<open>
  The package holds one variable for each of these types; every use of one is a pointer to the
  same struct.
\<close>

datatype shared_type =
  Any_Type | Bool_Type | Bytes_Type | Double_Type | Duration_Type | Dyn_Type | Int_Type
| Null_Type | String_Type | Timestamp_Type | Uint_Type | List_Type | Map_Type

text \<open>
  \<open>decl.Type\<close> and \<open>decl.Field\<close>. A pointer to a type is to a package variable or to a struct built
  for this use; the fields of the latter are \<open>name\<close>, \<open>Fields\<close>, \<open>KeyType\<close>, \<open>ElemType\<close>, \<open>Metadata\<close>,
  \<open>MaxElements\<close>, \<open>MinSerializedSize\<close> and \<open>celType\<close>.
\<close>

datatype 'ct decl_type =
  Shared shared_type
| Built string "(string \<times> 'ct decl_field) list option" "'ct decl_type option" "'ct decl_type option"
    "(string \<times> string) list option" "64 word" "64 word" 'ct
and 'ct decl_field =
  Decl_Field string "'ct decl_type option" bool "json list" "json option"

text \<open>What methods may change of the package variables: their CEL type and their metadata.\<close>

record 'ct shared_cell =
  sc_cel :: 'ct
  sc_metadata :: "(string, string) gomap option"

type_synonym 'ct shared_store = "shared_type \<Rightarrow> 'ct shared_cell"

definition no_max_length :: "64 word" where
  "no_max_length = 9223372036854775807"

definition max_request_size_bytes :: "64 word" where
  "max_request_size_bytes = 3 * 1024 * 1024"

fun shared_name :: "shared_type \<Rightarrow> string" where
  "shared_name Any_Type = ''any''"
| "shared_name Bool_Type = ''bool''"
| "shared_name Bytes_Type = ''bytes''"
| "shared_name Double_Type = ''double''"
| "shared_name Duration_Type = ''duration''"
| "shared_name Dyn_Type = ''dyn''"
| "shared_name Int_Type = ''int''"
| "shared_name Null_Type = ''null_type''"
| "shared_name String_Type = ''string''"
| "shared_name Timestamp_Type = ''timestamp''"
| "shared_name Uint_Type = ''uint''"
| "shared_name List_Type = ''list''"
| "shared_name Map_Type = ''map''"

fun shared_min_size :: "shared_type \<Rightarrow> 64 word" where
  "shared_min_size Bool_Type = 4"
| "shared_min_size Bytes_Type = 2"
| "shared_min_size Duration_Type = 3"
| "shared_min_size Null_Type = 4"
| "shared_min_size String_Type = 2"
| "shared_min_size Timestamp_Type = 12"
| "shared_min_size List_Type = 2"
| "shared_min_size Map_Type = 2"
| "shared_min_size _ = 1"

fun initial_cel :: "'ct cel_lib \<Rightarrow> shared_type \<Rightarrow> 'ct" where
  "initial_cel lib Any_Type = cl_any lib"
| "initial_cel lib Bool_Type = cl_bool lib"
| "initial_cel lib Bytes_Type = cl_bytes lib"
| "initial_cel lib Double_Type = cl_double lib"
| "initial_cel lib Duration_Type = cl_duration lib"
| "initial_cel lib Dyn_Type = cl_dyn lib"
| "initial_cel lib Int_Type = cl_int lib"
| "initial_cel lib Null_Type = cl_null lib"
| "initial_cel lib String_Type = cl_string lib"
| "initial_cel lib Timestamp_Type = cl_timestamp lib"
| "initial_cel lib Uint_Type = cl_uint lib"
| "initial_cel lib List_Type = cl_list lib (cl_any lib)"
| "initial_cel lib Map_Type = cl_map lib (cl_any lib) (cl_any lib)"

definition initial_shared :: "'ct cel_lib \<Rightarrow> 'ct shared_store" where
  "initial_shared lib = (\<lambda>s. \<lparr>sc_cel = initial_cel lib s, sc_metadata = None\<rparr>)"

fun type_name :: "'ct decl_type \<Rightarrow> string" where
  "type_name (Shared s) = shared_name s"
| "type_name (Built n fs k e m mx mn ct) = n"

fun cel_type :: "'ct shared_store \<Rightarrow> 'ct decl_type \<Rightarrow> 'ct" where
  "cel_type st (Shared s) = sc_cel (st s)"
| "cel_type st (Built n fs k e m mx mn ct) = ct"

fun decl_fields :: "'ct decl_type \<Rightarrow> (string, 'ct decl_field) gomap option" where
  "decl_fields (Shared s) = None"
| "decl_fields (Built n fs k e m mx mn ct) = fs"

fun key_type :: "'ct decl_type \<Rightarrow> 'ct decl_type option" where
  "key_type (Shared s) = (if s = Map_Type then Some (Shared Any_Type) else None)"
| "key_type (Built n fs k e m mx mn ct) = k"

fun elem_type :: "'ct decl_type \<Rightarrow> 'ct decl_type option" where
  "elem_type (Shared s) = (if s = List_Type \<or> s = Map_Type then Some (Shared Any_Type) else None)"
| "elem_type (Built n fs k e m mx mn ct) = e"

fun decl_metadata :: "'ct shared_store \<Rightarrow> 'ct decl_type \<Rightarrow> (string, string) gomap option" where
  "decl_metadata st (Shared s) = sc_metadata (st s)"
| "decl_metadata st (Built n fs k e m mx mn ct) = m"

fun max_elements :: "'ct decl_type \<Rightarrow> 64 word" where
  "max_elements (Shared s) = (if s = List_Type \<or> s = Map_Type then no_max_length else 0)"
| "max_elements (Built n fs k e m mx mn ct) = mx"

fun min_serialized_size :: "'ct decl_type \<Rightarrow> 64 word" where
  "min_serialized_size (Shared s) = shared_min_size s"
| "min_serialized_size (Built n fs k e m mx mn ct) = mn"

fun field_type :: "'ct decl_field \<Rightarrow> 'ct decl_type option" where
  "field_type (Decl_Field n t r en d) = t"

fun field_name :: "'ct decl_field \<Rightarrow> string" where
  "field_name (Decl_Field n t r en d) = n"

fun field_required :: "'ct decl_field \<Rightarrow> bool" where
  "field_required (Decl_Field n t r en d) = r"

definition is_map :: "'ct decl_type \<Rightarrow> bool" where
  "is_map t = (key_type t \<noteq> None \<and> elem_type t \<noteq> None \<and> decl_fields t = None)"

definition is_object :: "'ct decl_type \<Rightarrow> bool" where
  "is_object t = (key_type t = None \<and> elem_type t = None \<and> decl_fields t \<noteq> None)"

definition is_list :: "'ct decl_type \<Rightarrow> bool" where
  "is_list t = (key_type t = None \<and> elem_type t \<noteq> None \<and> decl_fields t = None)"

section \<open>Constructors\<close>

definition new_simple_type :: "string \<Rightarrow> 'ct \<Rightarrow> 64 word \<Rightarrow> 'ct decl_type" where
  "new_simple_type n ct mn = Built n None None None None 0 mn ct"

definition new_list_type :: "'ct cel_lib \<Rightarrow> 'ct shared_store \<Rightarrow> 'ct decl_type \<Rightarrow> 64 word \<Rightarrow> 'ct decl_type" where
  "new_list_type lib st elem max_items =
     Built ''list'' None None (Some elem) None max_items 2 (cl_list lib (cel_type st elem))"

definition new_map_type ::
  "'ct cel_lib \<Rightarrow> 'ct shared_store \<Rightarrow> 'ct decl_type \<Rightarrow> 'ct decl_type \<Rightarrow> 64 word \<Rightarrow> 'ct decl_type" where
  "new_map_type lib st key elem max_properties =
     Built ''map'' None (Some key) (Some elem) None max_properties 2
       (cl_map lib (cel_type st key) (cel_type st elem))"

definition new_object_type :: "'ct cel_lib \<Rightarrow> string \<Rightarrow> (string, 'ct decl_field) gomap \<Rightarrow> 'ct decl_type" where
  "new_object_type lib n fs = Built n (Some fs) None None None 0 2 (cl_object lib n)"

text \<open>\<open>Scalar\<close>: the package variable of a name; \<open>any\<close> and \<open>dyn\<close> are not looked up.\<close>

definition scalar :: "string \<Rightarrow> 'ct decl_type option" where
  "scalar n =
     map_option Shared
       (List.find (\<lambda>s. shared_name s = n)
          [Bool_Type, Bytes_Type, Double_Type, Duration_Type, Int_Type, Null_Type, String_Type,
           Timestamp_Type, Uint_Type, List_Type, Map_Type])"

section \<open>Methods that change a type\<close>

text \<open>On a package variable they change what every other holder of the pointer sees.\<close>

fun set_optional ::
  "'ct cel_lib \<Rightarrow> 'ct decl_type \<Rightarrow> 'ct shared_store \<Rightarrow> 'ct decl_type \<times> 'ct shared_store" where
  "set_optional lib (Shared s) st =
     (Shared s, st(s := (st s)\<lparr>sc_cel := cl_optional lib (sc_cel (st s))\<rparr>))"
| "set_optional lib (Built n fs k e m mx mn ct) st =
     (Built n fs k e m mx mn (cl_optional lib ct), st)"

definition put_metadata :: "string \<Rightarrow> string \<Rightarrow> (string, string) gomap option \<Rightarrow> (string, string) gomap option" where
  "put_metadata k v m = Some (mput k v (case m of None \<Rightarrow> [] | Some m' \<Rightarrow> m'))"

fun add_metadata ::
  "string \<Rightarrow> string \<Rightarrow> 'ct decl_type \<Rightarrow> 'ct shared_store \<Rightarrow> 'ct decl_type \<times> 'ct shared_store" where
  "add_metadata key v (Shared s) st =
     (Shared s, st(s := (st s)\<lparr>sc_metadata := put_metadata key v (sc_metadata (st s))\<rparr>))"
| "add_metadata key v (Built n fs k e m mx mn ct) st =
     (Built n fs k e (put_metadata key v m) mx mn ct, st)"

definition additional_properties_key :: string where
  "additional_properties_key = ''additionalProperties''"

definition set_additional_properties_metadata ::
  "bool \<Rightarrow> 'ct decl_type \<Rightarrow> 'ct shared_store \<Rightarrow> 'ct decl_type \<times> 'ct shared_store" where
  "set_additional_properties_metadata allowed =
     add_metadata additional_properties_key (if allowed then ''true'' else ''false'')"

definition allows_additional_properties :: "'ct shared_store \<Rightarrow> 'ct decl_type \<Rightarrow> bool" where
  "allows_additional_properties st t =
     (case decl_metadata st t of
        None \<Rightarrow> False
      | Some m \<Rightarrow> map_of m additional_properties_key = Some ''true'')"

section \<open>Resolving a path\<close>

datatype resolve_error = Invalid_Field_Name string | Field_Not_Found string | Not_Resolvable

fun resolve_from ::
  "'ct cel_lib \<Rightarrow> 'ct shared_store \<Rightarrow> 'ct decl_type option \<Rightarrow> path_segment list
     \<Rightarrow> (resolve_error, 'ct decl_type option) outcome" where
  "resolve_from lib st current [] = Ok current"
| "resolve_from lib st None (seg # path) = Panic"
| "resolve_from lib st (Some t) (seg # path) =
     (if cel_type st t = cl_dyn lib then Ok (Some t)
      else if is_object t then
        (case escape (seg_name seg) of
           None \<Rightarrow> Fail (Invalid_Field_Name (seg_name seg))
         | Some n \<Rightarrow>
             (case Option.bind (decl_fields t) (\<lambda>fs. map_of fs n) of
                None \<Rightarrow>
                  if allows_additional_properties st t then Ok (Some (Shared Dyn_Type))
                  else Fail (Field_Not_Found (seg_name seg))
              | Some f \<Rightarrow> resolve_from lib st (field_type f) path))
      else if is_list t then resolve_from lib st (elem_type t) path
      else if is_map t then resolve_from lib st (elem_type t) path
      else Fail Not_Resolvable)"

definition type_resolve ::
  "'ct cel_lib \<Rightarrow> 'ct shared_store \<Rightarrow> 'ct decl_type option \<Rightarrow> path_segment list
     \<Rightarrow> (resolve_error, 'ct decl_type option) outcome" where
  "type_resolve lib st t path =
     (case t of None \<Rightarrow> Ok (Some (Shared Null_Type)) | Some _ \<Rightarrow> resolve_from lib st t path)"

section \<open>Assigning names\<close>

text \<open>
  \<open>MaybeAssignTypeName\<close>: the new type and whether it is another pointer than the receiver. A nil
  field type is a panic.
\<close>

fun assign_name ::
  "'ct cel_lib \<Rightarrow> 'ct shared_store \<Rightarrow> string \<Rightarrow> 'ct decl_type \<Rightarrow> (resolve_error, 'ct decl_type \<times> bool) outcome" and
  assign_fields ::
  "'ct cel_lib \<Rightarrow> 'ct shared_store \<Rightarrow> string \<Rightarrow> (string \<times> 'ct decl_field) list
     \<Rightarrow> (resolve_error, (string \<times> 'ct decl_field) list \<times> bool) outcome" where
  "assign_name lib st n (Shared s) = Ok (Shared s, False)"
| "assign_name lib st n (Built tn (Some fs) None None m mx mn ct) =
     (let name = (if tn \<noteq> ''object'' then tn else n)
      in bind_outcome (assign_fields lib st name fs)
           (\<lambda>(fs', changed).
              if \<not> changed \<and> tn \<noteq> ''object'' then Ok (Built tn (Some fs) None None m mx mn ct, False)
              else Ok (Built name (Some fs') None None m 0 mn (cl_object lib name), True)))"
| "assign_name lib st n (Built tn None (Some k) (Some e) m mx mn ct) =
     bind_outcome (assign_name lib st (n @ ''.@elem'') e)
       (\<lambda>(e', changed).
          Ok (if changed then (new_map_type lib st k e' mx, True)
              else (Built tn None (Some k) (Some e) m mx mn ct, False)))"
| "assign_name lib st n (Built tn None None (Some e) m mx mn ct) =
     bind_outcome (assign_name lib st (n @ ''.@idx'') e)
       (\<lambda>(e', changed).
          Ok (if changed then (new_list_type lib st e' mx, True)
              else (Built tn None None (Some e) m mx mn ct, False)))"
| "assign_name lib st n (Built tn fs k e m mx mn ct) = Ok (Built tn fs k e m mx mn ct, False)"
| "assign_fields lib st n [] = Ok ([], False)"
| "assign_fields lib st n ((fn, Decl_Field fnm None r en d) # fs) = Panic"
| "assign_fields lib st n ((fn, Decl_Field fnm (Some t) r en d) # fs) =
     bind_outcome (assign_name lib st (n @ ''.'' @ fn) t)
       (\<lambda>(t', changed).
          bind_outcome (assign_fields lib st n fs)
            (\<lambda>(fs', rest).
               Ok ((if changed then (fn, Decl_Field fn (Some t') r en d)
                    else (fn, Decl_Field fnm (Some t) r en d)) # fs', changed \<or> rest)))"

section \<open>The type map of a provider\<close>

text \<open>\<open>buildDeclTypes\<close> and \<open>FieldTypeMap\<close>; the map is written in the order of the calls.\<close>

fun build_decl_types ::
  "string \<Rightarrow> 'ct decl_type \<Rightarrow> (string, 'ct decl_type) gomap
     \<Rightarrow> (resolve_error, (string, 'ct decl_type) gomap) outcome" and
  build_field_types ::
  "string \<Rightarrow> (string \<times> 'ct decl_field) list \<Rightarrow> (string, 'ct decl_type) gomap
     \<Rightarrow> (resolve_error, (string, 'ct decl_type) gomap) outcome" where
  "build_decl_types path (Shared s) types =
     (if s = Map_Type then Ok (mput path (Shared s) types)
      else if s = List_Type then Ok (mput path (Shared s) types)
      else Ok types)"
| "build_decl_types path (Built tn (Some fs) None None m mx mn ct) types =
     build_field_types path fs (mput tn (Built tn (Some fs) None None m mx mn ct) types)"
| "build_decl_types path (Built tn None (Some k) (Some e) m mx mn ct) types =
     bind_outcome (build_decl_types (path @ ''.@elem'') e types)
       (\<lambda>types'. Ok (mput path (Built tn None (Some k) (Some e) m mx mn ct) types'))"
| "build_decl_types path (Built tn None None (Some e) m mx mn ct) types =
     bind_outcome (build_decl_types (path @ ''.@idx'') e types)
       (\<lambda>types'. Ok (mput path (Built tn None None (Some e) m mx mn ct) types'))"
| "build_decl_types path (Built tn fs k e m mx mn ct) types = Ok types"
| "build_field_types path [] types = Ok types"
| "build_field_types path ((n, Decl_Field fnm None r en d) # fs) types = Panic"
| "build_field_types path ((n, Decl_Field fnm (Some t) r en d) # fs) types =
     bind_outcome (build_decl_types (path @ ''.'' @ n) t types)
       (build_field_types path fs)"

definition field_type_map ::
  "string \<Rightarrow> 'ct decl_type \<Rightarrow> (resolve_error, (string, 'ct decl_type) gomap) outcome" where
  "field_type_map path t =
     build_decl_types (if is_object t \<and> type_name t \<noteq> ''object'' then type_name t else path) t []"

text \<open>\<open>allTypesForDecl\<close> copies the maps of the roots into one; \<open>New\<close> makes it a provider.\<close>

definition all_types_for_decl ::
  "'ct decl_type list \<Rightarrow> (resolve_error, (string, 'ct decl_type) gomap) outcome" where
  "all_types_for_decl ts =
     fold (\<lambda>t acc. bind_outcome acc (\<lambda>all.
             bind_outcome (field_type_map (type_name t) t) (\<lambda>types. Ok (mcopy all types))))
       ts (Ok [])"

text \<open>
  \<open>findDeclType\<close> and \<open>FindDeclType\<close>: a provider is its registered types, and a nil provider finds
  nothing.
\<close>

type_synonym 'ct provider = "(string, 'ct decl_type) gomap"

definition find_registered :: "'ct provider \<Rightarrow> string \<Rightarrow> 'ct decl_type option" where
  "find_registered types n =
     (case map_of types n of Some t \<Rightarrow> Some t | None \<Rightarrow> scalar n)"

definition find_decl_type :: "'ct provider option \<Rightarrow> string \<Rightarrow> 'ct decl_type option" where
  "find_decl_type p n = (case p of None \<Rightarrow> None | Some types \<Rightarrow> find_registered types n)"

text \<open>
  \<open>FindStructFieldType\<close>: the CEL type of a field; the flag is \<open>recognizeKeywordAsFieldName\<close>, the
  last argument the provider of the library that is asked about unknown types. A field without a
  type is a panic.
\<close>

definition find_struct_field_type ::
  "'ct cel_lib \<Rightarrow> 'ct shared_store \<Rightarrow> bool \<Rightarrow> 'ct provider \<Rightarrow> (string \<Rightarrow> string \<Rightarrow> 'ct option)
     \<Rightarrow> string \<Rightarrow> string \<Rightarrow> (resolve_error, 'ct option) outcome" where
  "find_struct_field_type lib st keyword p fallback type_nm field_nm =
     (case find_registered p type_nm of
        None \<Rightarrow> Ok (fallback type_nm field_nm)
      | Some t \<Rightarrow>
          (let fs = (case decl_fields t of None \<Rightarrow> [] | Some fs \<Rightarrow> fs);
               found = (case map_of fs field_nm of
                          Some f \<Rightarrow> Some f
                        | None \<Rightarrow> if keyword \<and> has_reserved field_nm
                                  then map_of fs (''__'' @ field_nm @ ''__'') else None)
           in case found of
                Some f \<Rightarrow>
                  (case field_type f of None \<Rightarrow> Panic | Some ft \<Rightarrow> Ok (Some (cel_type st ft)))
              | None \<Rightarrow>
                  if allows_additional_properties st t then Ok (Some (cl_dyn lib))
                  else if is_map t then Ok (map_option (cel_type st) (elem_type t))
                  else Ok None))"

end
