(* ===== verification/Cel_Schema.thy ===== *)
theory Cel_Schema
  imports Cel_Decl
begin

text \<open>
  JSON schemas as declared types, \<open>bindings/go/cel/jsonschema/santhosh-tekuri/v6\<close>
  (\<open>decl_type.go\<close>, \<open>schema.go\<close>, \<open>scalar.go\<close>). A compiled schema is a graph of structs: an address
  leads to a \<open>schema_node\<close>, whose fields are those the sources read of the JSON schema library's
  struct. A reference may lead back to a schema around it. The conversion works on the package's
  shared types, so it takes and returns their store.
\<close>

section \<open>Compiled schemas\<close>

type_synonym schema_id = nat

datatype schema_items = No_Items | One_Item schema_id | Tuple_Items "schema_id list"

datatype additional = No_Additional | Additional_Flag bool | Additional_Schema schema_id

text \<open>
  \<open>Properties\<close> and the branches may hold nil pointers. The bounds are pointers to an \<open>int\<close>. A
  constant may be the value nil, JSON's null.
\<close>

record schema_node =
  sn_flag :: "bool option"
  sn_types :: "string list"
  sn_items :: schema_items
  sn_items2020 :: "schema_id option"
  sn_properties :: "(string, schema_id option) gomap"
  sn_additional :: additional
  sn_required :: "string list"
  sn_enum :: "json list"
  sn_max_items :: "64 word option"
  sn_max_properties :: "64 word option"
  sn_max_length :: "64 word option"
  sn_default :: "json option"
  sn_format :: string
  sn_ref :: "schema_id option"
  sn_const :: "json option"
  sn_one_of :: "schema_id option list"
  sn_any_of :: "schema_id option list"

type_synonym schema_graph = "schema_id \<Rightarrow> schema_node"

definition schema_type :: "schema_node \<Rightarrow> string" where
  "schema_type s = (case sn_types s of [] \<Rightarrow> [] | t # _ \<Rightarrow> t)"

definition schema_items_of :: "schema_node \<Rightarrow> schema_id option" where
  "schema_items_of s =
     (case sn_items2020 s of
        Some i \<Rightarrow> Some i
      | None \<Rightarrow>
          (case sn_items s of
             No_Items \<Rightarrow> None
           | One_Item i \<Rightarrow> Some i
           | Tuple_Items [] \<Rightarrow> None
           | Tuple_Items (i # _) \<Rightarrow> Some i))"

definition schema_properties :: "schema_node \<Rightarrow> (string, schema_id) gomap" where
  "schema_properties s =
     List.map_filter (\<lambda>(n, p). map_option (Pair n) p) (sn_properties s)"

definition additional_as_bool :: "schema_node \<Rightarrow> bool option" where
  "additional_as_bool s = (case sn_additional s of Additional_Flag b \<Rightarrow> Some b | _ \<Rightarrow> None)"

definition additional_schema :: "schema_node \<Rightarrow> schema_id option" where
  "additional_schema s = (case sn_additional s of Additional_Schema i \<Rightarrow> Some i | _ \<Rightarrow> None)"

definition safe_int :: "64 word \<Rightarrow> 64 word" where
  "safe_int u = (if 0 <s u then u else 0)"

definition schema_const :: "schema_node \<Rightarrow> json option" where
  "schema_const s = (case sn_const s of Some JNull \<Rightarrow> None | c \<Rightarrow> c)"

definition schema_one_of :: "schema_node \<Rightarrow> schema_id list" where
  "schema_one_of s = List.map_filter (\<lambda>b. b) (sn_one_of s)"

definition schema_any_of :: "schema_node \<Rightarrow> schema_id list" where
  "schema_any_of s = List.map_filter (\<lambda>b. b) (sn_any_of s)"

section \<open>Results\<close>

text \<open>
  What a call ends with: a value, a panic, or, when the fuel of the model is used up before, no
  result. A chain of references that never ends is the only source of the last.
\<close>

datatype 'a run = Finished 'a | Crashed | Unfinished

fun run_bind :: "'a run \<Rightarrow> ('a \<Rightarrow> 'b run) \<Rightarrow> 'b run" where
  "run_bind (Finished x) f = f x"
| "run_bind Crashed f = Crashed"
| "run_bind Unfinished f = Unfinished"

section \<open>Sizes\<close>

definition estimate_max_string_length :: "schema_node \<Rightarrow> 64 word" where
  "estimate_max_string_length s =
     (if sn_format s = ''duration'' then 32
      else if sn_format s = ''date'' then 12
      else if sn_format s = ''date-time'' then 32
      else max_request_size_bytes - 2)"

definition estimate_max_enum_length :: "schema_node \<Rightarrow> 64 word" where
  "estimate_max_enum_length s =
     fold (\<lambda>v m. case v of
                   JStr t \<Rightarrow> if m < of_nat (length t) then of_nat (length t) else m
                 | _ \<Rightarrow> m)
       (sn_enum s) 0"

text \<open>A division by zero is a panic; it takes a size that wraps around.\<close>

definition estimate_max_array_items :: "64 word \<Rightarrow> 64 word run" where
  "estimate_max_array_items min_size =
     (if min_size + 1 = 0 then Crashed
      else Finished ((max_request_size_bytes - 2) div (min_size + 1)))"

definition estimate_max_additional_properties :: "64 word \<Rightarrow> 64 word run" where
  "estimate_max_additional_properties min_size =
     (let key_value_pair_size = min_size + 6
      in if key_value_pair_size = 0 then Crashed
         else Finished ((max_request_size_bytes - 2) div key_value_pair_size))"

section \<open>Literal values\<close>

text \<open>A key of a Go map with interface keys must be comparable; a slice or a map is not.\<close>

fun hashable :: "json \<Rightarrow> bool" where
  "hashable (JArr xs) = False"
| "hashable (JObj fs) = False"
| "hashable _ = True"

fun add_values :: "json list \<Rightarrow> json list \<Rightarrow> json list run" where
  "add_values acc [] = Finished acc"
| "add_values acc (v # vs) =
     (if \<not> hashable v then Crashed
      else add_values (if v \<in> set acc then acc else acc @ [v]) vs)"

text \<open>\<open>collectEnumAndConstValues\<close>.\<close>

primrec collect_values :: "nat \<Rightarrow> schema_graph \<Rightarrow> schema_id \<Rightarrow> json list run" where
  "collect_values 0 g i = Unfinished"
| "collect_values (Suc n) g i =
     (let s = g i
      in case schema_const s of
           Some c \<Rightarrow> Finished [c]
         | None \<Rightarrow>
             run_bind (add_values []
                         (sn_enum s @ List.map_filter (schema_const \<circ> g) (schema_one_of s @ schema_any_of s)))
               (\<lambda>out. if out = []
                       then (case sn_ref s of None \<Rightarrow> Finished out | Some r \<Rightarrow> collect_values n g r)
                       else Finished out))"

section \<open>Conversion\<close>

definition with_max :: "64 word \<Rightarrow> 'ct decl_type \<Rightarrow> 'ct decl_type" where
  "with_max mx' t =
     (case t of Shared s \<Rightarrow> Shared s | Built n fs k e m mx mn ct \<Rightarrow> Built n fs k e m mx' mn ct)"

definition with_min :: "64 word \<Rightarrow> 'ct decl_type \<Rightarrow> 'ct decl_type" where
  "with_min mn' t =
     (case t of Shared s \<Rightarrow> Shared s | Built n fs k e m mx mn ct \<Rightarrow> Built n fs k e m mx mn' ct)"

definition string_decl :: "'ct cel_lib \<Rightarrow> schema_node \<Rightarrow> 'ct decl_type" where
  "string_decl lib s =
     (let simple = (\<lambda>n ct mn mx. with_max mx (new_simple_type n ct mn));
          by_format = estimate_max_string_length s
      in if sn_format s = ''byte'' then
           simple ''bytes'' (cl_bytes lib) 2
             (case sn_max_length s of Some u \<Rightarrow> safe_int u | None \<Rightarrow> by_format)
         else if sn_format s = ''duration'' then simple ''duration'' (cl_duration lib) 3 by_format
         else if sn_format s = ''date'' then simple ''timestamp'' (cl_timestamp lib) 12 by_format
         else if sn_format s = ''date-time'' then simple ''timestamp'' (cl_timestamp lib) 21 by_format
         else simple ''string'' (cl_string lib) 2
                (case sn_max_length s of
                   Some u \<Rightarrow> safe_int u
                 | None \<Rightarrow> if sn_enum s \<noteq> [] then estimate_max_enum_length s else by_format))"

text \<open>
  A converted schema is its type and the schema it was made from. The conversion of the schemas
  inside is a parameter of the loops: it takes an address and the store.
\<close>

type_synonym 'ct converted = "('ct decl_type \<times> schema_id) option \<times> 'ct shared_store"

type_synonym 'ct conversion = "schema_id \<Rightarrow> 'ct shared_store \<Rightarrow> 'ct converted run"

fun convert_properties ::
  "'ct conversion \<Rightarrow> (schema_id \<Rightarrow> json list run) \<Rightarrow> schema_graph \<Rightarrow> string list
     \<Rightarrow> (string \<times> schema_id) list \<Rightarrow> (string, 'ct decl_field) gomap \<Rightarrow> 64 word \<Rightarrow> 'ct shared_store
     \<Rightarrow> (((string, 'ct decl_field) gomap \<times> 64 word) \<times> 'ct shared_store) run" where
  "convert_properties conv values g required [] fs mn st = Finished ((fs, mn), st)"
| "convert_properties conv values g required ((n, p) # ps) fs mn st =
     run_bind (values p) (\<lambda>enum.
     run_bind (conv p st) (\<lambda>(r, st').
       case r of
         None \<Rightarrow> convert_properties conv values g required ps fs mn st'
       | Some (t, _) \<Rightarrow>
           (let default = sn_default (g p);
                fs' = (case escape n of
                         Some pn \<Rightarrow> mput pn (Decl_Field pn (Some t) (n \<in> set required) enum default) fs
                       | None \<Rightarrow> fs);
                mn' = (if n \<in> set required \<and> default = None
                       then mn + of_nat (length n) + min_serialized_size t + 4 else mn)
            in convert_properties conv values g required ps fs' mn' st')))"

text \<open>\<open>nonNullIdx\<close> is -1 when every branch is null; indexing with it is a panic.\<close>

definition as_optional_schema ::
  "'ct cel_lib \<Rightarrow> 'ct conversion \<Rightarrow> schema_graph \<Rightarrow> schema_id list \<Rightarrow> 'ct shared_store \<Rightarrow> 'ct converted run" where
  "as_optional_schema lib conv g branches st =
     (let has_null = list_ex (\<lambda>b. schema_type (g b) = ''null'') branches;
          non_null = fold (\<lambda>b acc. if schema_type (g b) = ''null'' then acc else Some b) branches None
      in if length branches \<noteq> 2 \<or> \<not> has_null then Finished (None, st)
         else case non_null of
                None \<Rightarrow> Crashed
              | Some b \<Rightarrow>
                  run_bind (conv b st) (\<lambda>(r, st').
                    case r of
                      None \<Rightarrow> Crashed
                    | Some (t, i) \<Rightarrow>
                        (let (t', st'') = set_optional lib t st' in Finished (Some (t', i), st''))))"

definition dyn_map :: "'ct cel_lib \<Rightarrow> 'ct shared_store \<Rightarrow> 'ct decl_type" where
  "dyn_map lib st = new_map_type lib st (Shared String_Type) (Shared Dyn_Type) no_max_length"

definition array_decl ::
  "'ct cel_lib \<Rightarrow> 'ct conversion \<Rightarrow> schema_graph \<Rightarrow> schema_id \<Rightarrow> 'ct shared_store \<Rightarrow> 'ct converted run" where
  "array_decl lib conv g i st =
     (let s = g i
      in case schema_items_of s of
           None \<Rightarrow> Finished (Some (new_list_type lib st (Shared Dyn_Type) no_max_length, i), st)
         | Some it \<Rightarrow>
             run_bind (conv it st) (\<lambda>(r, st').
               (let t = (case r of None \<Rightarrow> Shared Dyn_Type | Some (t, _) \<Rightarrow> t)
                in run_bind (case sn_max_items s of
                               Some u \<Rightarrow> Finished (safe_int u)
                             | None \<Rightarrow> estimate_max_array_items (min_serialized_size t))
                     (\<lambda>mx. Finished (Some (new_list_type lib st' t mx, i), st')))))"

text \<open>
  An object: a map when \<open>additionalProperties\<close> is a schema, or when no property can be declared;
  otherwise a type with a field for each property that has an escaped name and a type.
\<close>

definition object_decl ::
  "'ct cel_lib \<Rightarrow> 'ct conversion \<Rightarrow> (schema_id \<Rightarrow> json list run) \<Rightarrow> schema_graph \<Rightarrow> schema_id
     \<Rightarrow> 'ct shared_store \<Rightarrow> 'ct converted run" where
  "object_decl lib conv values g i st =
     (let s = g i
      in case additional_schema s of
           Some a \<Rightarrow>
             run_bind (conv a st) (\<lambda>(r, st').
               case r of
                 None \<Rightarrow> Finished (Some (dyn_map lib st', i), st')
               | Some (t, _) \<Rightarrow>
                   run_bind (case sn_max_properties s of
                               Some u \<Rightarrow> Finished (safe_int u)
                             | None \<Rightarrow> estimate_max_additional_properties (min_serialized_size t))
                     (\<lambda>mx. Finished (Some (new_map_type lib st' (Shared String_Type) t mx, i), st')))
         | None \<Rightarrow>
             run_bind (convert_properties conv values g (sn_required s) (schema_properties s) [] 2 st)
               (\<lambda>((fs, mn), st').
                  if fs = [] then Finished (Some (dyn_map lib st', i), st')
                  else (let t = with_min mn (new_object_type lib ''object'' fs)
                        in case additional_as_bool s of
                             None \<Rightarrow> Finished (Some (t, i), st')
                           | Some b \<Rightarrow>
                               (let (t', st'') = set_additional_properties_metadata b t st'
                                in Finished (Some (with_max no_max_length t', i), st'')))))"

definition branches_decl ::
  "'ct cel_lib \<Rightarrow> 'ct conversion \<Rightarrow> schema_graph \<Rightarrow> schema_id \<Rightarrow> schema_id list \<Rightarrow> 'ct shared_store
     \<Rightarrow> 'ct converted run" where
  "branches_decl lib conv g i branches st =
     (if length branches = 1 then conv (hd branches) st
      else run_bind (as_optional_schema lib conv g branches st) (\<lambda>(r, st').
             case r of
               Some t \<Rightarrow> Finished (Some t, st')
             | None \<Rightarrow> Finished (Some (Shared Dyn_Type, i), st')))"

text \<open>\<open>NewDeclType\<close> on a schema, given the conversion of the schemas it refers to.\<close>

definition convert_schema ::
  "'ct cel_lib \<Rightarrow> 'ct conversion \<Rightarrow> (schema_id \<Rightarrow> json list run) \<Rightarrow> schema_graph \<Rightarrow> 'ct conversion" where
  "convert_schema lib conv values g i st =
     (let s = g i; ty = schema_type s
      in if ty = ''array'' then array_decl lib conv g i st
         else if ty = ''object'' then object_decl lib conv values g i st
         else if ty = ''string'' then Finished (Some (string_decl lib s, i), st)
         else if ty = ''boolean'' then Finished (Some (Shared Bool_Type, i), st)
         else if ty = ''number'' then Finished (Some (Shared Double_Type, i), st)
         else if ty = ''integer'' then Finished (Some (Shared Int_Type, i), st)
         else case sn_ref s of
                Some r \<Rightarrow> conv r st
              | None \<Rightarrow>
                  if schema_one_of s \<noteq> [] then branches_decl lib conv g i (schema_one_of s) st
                  else if schema_any_of s \<noteq> [] then branches_decl lib conv g i (schema_any_of s) st
                  else if sn_flag s = Some True then Finished (Some (Shared Dyn_Type, i), st)
                  else Finished (None, st))"

primrec new_decl_type :: "nat \<Rightarrow> 'ct cel_lib \<Rightarrow> schema_graph \<Rightarrow> 'ct conversion" where
  "new_decl_type 0 lib g i st = Unfinished"
| "new_decl_type (Suc n) lib g i st =
     convert_schema lib (new_decl_type n lib g) (collect_values n g) g i st"

text \<open>\<open>NewSchemaDeclType\<close>: the second argument is the identifier of the schema.\<close>

definition new_schema_decl_type ::
  "nat \<Rightarrow> 'ct cel_lib \<Rightarrow> schema_graph \<Rightarrow> string \<Rightarrow> 'ct conversion" where
  "new_schema_decl_type n lib g ident i st =
     run_bind (new_decl_type n lib g i st) (\<lambda>(r, st').
       case r of
         None \<Rightarrow> Finished (None, st')
       | Some (t, j) \<Rightarrow>
           if ident = [] then Finished (Some (t, j), st')
           else (case escape ident of
                   None \<Rightarrow> Finished (None, st')
                 | Some name \<Rightarrow>
                     (case assign_name lib st' name t of
                        Ok (t', _) \<Rightarrow> Finished (Some (t', j), st')
                      | _ \<Rightarrow> Crashed)))"

text \<open>\<open>DeclTypeFromProperty\<close> of a declared type and its schema.\<close>

definition decl_type_from_property ::
  "schema_graph \<Rightarrow> ('ct decl_type \<times> schema_id) option \<Rightarrow> string \<Rightarrow> ('ct decl_type option \<times> schema_id) option" where
  "decl_type_from_property g t property =
     (case t of
        None \<Rightarrow> None
      | Some (ty, i) \<Rightarrow>
          (case Option.bind (decl_fields ty) (\<lambda>fs. map_of fs property) of
             None \<Rightarrow> None
           | Some f \<Rightarrow>
               (case map_of (schema_properties (g i)) property of
                  None \<Rightarrow> None
                | Some p \<Rightarrow> Some (field_type f, p))))"

end
