(* ===== verification/Cel_Conversion.thy ===== *)
theory Cel_Conversion
  imports Cel_Schema
begin

text \<open>
  What the conversion of a schema yields: \<open>declared\<close> is the typing of declared types, the store
  changes by optional wrapping only, and on a graph of schemas without a cycle the conversion
  ends.
\<close>

section \<open>Well-formed declared types\<close>

text \<open>
  Exactly one of the shapes object, map, list and simple type; an object has fields, under
  distinct identifiers that are also their names, each with a type; the first argument restricts
  the names of objects.
\<close>

fun declared :: "(string \<Rightarrow> bool) \<Rightarrow> 'ct decl_type \<Rightarrow> bool" and
  declared_fields :: "(string \<Rightarrow> bool) \<Rightarrow> (string \<times> 'ct decl_field) list \<Rightarrow> bool" where
  "declared P (Shared s) = True"
| "declared P (Built n (Some fs) None None m mx mn ct) =
     (P n \<and> fs \<noteq> [] \<and> distinct (map fst fs) \<and> declared_fields P fs)"
| "declared P (Built n None (Some k) (Some e) m mx mn ct) = (k = Shared String_Type \<and> declared P e)"
| "declared P (Built n None None (Some e) m mx mn ct) = declared P e"
| "declared P (Built n None None None m mx mn ct) = True"
| "declared P (Built n fs k e m mx mn ct) = False"
| "declared_fields P [] = True"
| "declared_fields P ((k, Decl_Field fn None r en d) # fs) = False"
| "declared_fields P ((k, Decl_Field fn (Some t) r en d) # fs) =
     (cel_identifier k \<and> fn = k \<and> declared P t \<and> declared_fields P fs)"

lemma declared_fields_iff:
  "declared_fields P fs \<longleftrightarrow>
     (\<forall>(k, f) \<in> set fs. cel_identifier k \<and> field_name f = k \<and>
        (\<exists>t. field_type f = Some t \<and> declared P t))"
proof (induction fs)
  case (Cons x fs)
  obtain k fn ty r en d where "x = (k, Decl_Field fn ty r en d)"
    by (metis decl_field.exhaust surj_pair)
  with Cons show ?case by (cases ty) auto
qed simp

lemma declared_mono:
  fixes t :: "'ct decl_type" and fs :: "(string \<times> 'ct decl_field) list"
  shows "declared P t \<Longrightarrow> (\<And>n. P n \<Longrightarrow> Q n) \<Longrightarrow> declared Q t"
    and "declared_fields P fs \<Longrightarrow> (\<And>n. P n \<Longrightarrow> Q n) \<Longrightarrow> declared_fields Q fs"
  by (induction P t and P fs rule: declared_declared_fields.induct) auto

lemma declared_fields_mput:
  assumes "declared_fields P fs" "cel_identifier k" "declared P t"
  shows "declared_fields P (mput k (Decl_Field k (Some t) r en d) fs)"
proof -
  have "\<forall>(k', f) \<in> set (mput k (Decl_Field k (Some t) r en d) fs).
          (k', f) \<in> set fs \<or> (k', f) = (k, Decl_Field k (Some t) r en d)"
    using set_mput[of k "Decl_Field k (Some t) r en d" fs] by auto
  with assms show ?thesis
    unfolding declared_fields_iff by fastforce
qed

abbreviation unnamed :: "string \<Rightarrow> bool" where
  "unnamed n \<equiv> (n = ''object'')"

lemma declared_simple [simp]: "declared P (new_simple_type n ct mn)"
  by (simp add: new_simple_type_def)

lemma declared_list [simp]: "declared P (new_list_type lib st e mx) = declared P e"
  by (simp add: new_list_type_def)

lemma declared_map [simp]: "declared P (new_map_type lib st (Shared String_Type) e mx) = declared P e"
  by (simp add: new_map_type_def)

lemma declared_object [simp]:
  "declared P (new_object_type lib n fs) =
     (P n \<and> fs \<noteq> [] \<and> distinct (map fst fs) \<and> declared_fields P fs)"
  by (simp add: new_object_type_def)

text \<open>The typing looks at neither sizes, metadata nor CEL types.\<close>

lemma declared_Built_cong: "declared P (Built n fs k e m mx mn ct) = declared P (Built n fs k e m' mx' mn' ct')"
  by (cases fs; cases k; cases e) simp_all

lemma declared_with [simp]:
  "declared P (with_max mx t) = declared P t" "declared P (with_min mn t) = declared P t"
  by (cases t; simp add: with_max_def with_min_def declared_Built_cong[of P _ _ _ _ _ mx] declared_Built_cong[of P _ _ _ _ _ _ mn];
      rule declared_Built_cong)+

lemma declared_set_optional: "set_optional lib t st = (t', st') \<Longrightarrow> declared P t' = declared P t"
  by (cases t) (simp, metis declared_Built_cong prod.inject set_optional.simps(2))

lemma declared_set_additional:
  "set_additional_properties_metadata b t st = (t', st') \<Longrightarrow> declared P t' = declared P t"
  unfolding set_additional_properties_metadata_def
  by (cases t) (simp, metis declared_Built_cong prod.inject add_metadata.simps(2))

lemma declared_string [simp]: "declared P (string_decl lib s)"
  by (simp add: string_decl_def Let_def)

lemma declared_dyn_map [simp]: "declared P (dyn_map lib st)"
  by (simp add: dyn_map_def)

section \<open>The store\<close>

definition wrapped :: "'ct cel_lib \<Rightarrow> 'ct shared_store \<Rightarrow> 'ct shared_store \<Rightarrow> bool" where
  "wrapped lib st st' =
     (\<forall>s. sc_metadata (st' s) = sc_metadata (st s) \<and>
          (\<exists>k. sc_cel (st' s) = (cl_optional lib ^^ k) (sc_cel (st s))))"

lemma wrapped_refl [simp]: "wrapped lib st st"
  unfolding wrapped_def by (metis funpow_0)

lemma wrapped_trans: "wrapped lib st st' \<Longrightarrow> wrapped lib st' st'' \<Longrightarrow> wrapped lib st st''"
  unfolding wrapped_def by (metis funpow_add comp_apply)

lemma wrapped_set_optional: "set_optional lib t st = (t', st') \<Longrightarrow> wrapped lib st st'"
proof (cases t)
  case (Shared s)
  assume "set_optional lib t st = (t', st')"
  with Shared have "sc_metadata (st' r) = sc_metadata (st r) \<and>
      sc_cel (st' r) = (cl_optional lib ^^ (if r = s then 1 else 0)) (sc_cel (st r))" for r
    by auto
  then show ?thesis unfolding wrapped_def by blast
qed simp

lemma wrapped_then_optional:
  "wrapped lib st st' \<Longrightarrow> set_optional lib t st' = (t', st'') \<Longrightarrow> wrapped lib st st''"
  using wrapped_trans wrapped_set_optional by blast

section \<open>The conversion preserves both\<close>

lemma run_bind_Finished: "run_bind r f = Finished y \<longleftrightarrow> (\<exists>x. r = Finished x \<and> f x = Finished y)"
  by (cases r) auto

definition sound_result :: "'ct cel_lib \<Rightarrow> 'ct shared_store \<Rightarrow> 'ct converted run \<Rightarrow> bool" where
  "sound_result lib st m =
     (\<forall>r st'. m = Finished (r, st') \<longrightarrow> wrapped lib st st' \<and> (\<forall>t j. r = Some (t, j) \<longrightarrow> declared unnamed t))"

definition sound_conversion :: "'ct cel_lib \<Rightarrow> 'ct conversion \<Rightarrow> bool" where
  "sound_conversion lib conv = (\<forall>i st. sound_result lib st (conv i st))"

lemma sound_result_simps [simp]:
  "sound_result lib st (Finished (r, st')) =
     (wrapped lib st st' \<and> (\<forall>t j. r = Some (t, j) \<longrightarrow> declared unnamed t))"
  "sound_result lib st Crashed" "sound_result lib st Unfinished"
  by (simp_all add: sound_result_def)

lemma sound_bind:
  assumes "sound_result lib st m"
    "\<And>r st'. wrapped lib st st' \<Longrightarrow> \<forall>t j. r = Some (t, j) \<longrightarrow> declared unnamed t \<Longrightarrow> sound_result lib st (f (r, st'))"
  shows "sound_result lib st (run_bind m f)"
  using assms by (cases m) auto

lemma sound_bind_value:
  assumes "\<And>x. m = Finished x \<Longrightarrow> sound_result lib st (f x)"
  shows "sound_result lib st (run_bind m f)"
  using assms by (cases m) auto

lemma sound_conversionD:
  "sound_conversion lib conv \<Longrightarrow> conv i st = Finished (r, st') \<Longrightarrow> wrapped lib st st'"
  "sound_conversion lib conv \<Longrightarrow> conv i st = Finished (Some (t, j), st') \<Longrightarrow> declared unnamed t"
  "sound_conversion lib conv \<Longrightarrow> sound_result lib st (conv i st)"
  unfolding sound_conversion_def sound_result_def by blast+

lemma convert_properties_sound:
  assumes "sound_conversion lib conv"
  shows "convert_properties conv values g required ps fs mn st = Finished ((fs', mn'), st') \<Longrightarrow>
    declared_fields unnamed fs \<Longrightarrow> distinct (map fst fs) \<Longrightarrow>
    declared_fields unnamed fs' \<and> distinct (map fst fs') \<and> wrapped lib st st'"
proof (induction ps arbitrary: fs mn st)
  case (Cons x ps)
  obtain n p where x: "x = (n, p)" by (cases x)
  from Cons.prems(1) obtain enum r st1 where
    conv: "conv p st = Finished (r, st1)" and
    rest: "(case r of None \<Rightarrow> convert_properties conv values g required ps fs mn st1
       | Some (t, _) \<Rightarrow>
           (let default = sn_default (g p);
                fs' = (case escape n of
                         Some pn \<Rightarrow> mput pn (Decl_Field pn (Some t) (n \<in> set required) enum default) fs
                       | None \<Rightarrow> fs);
                mn' = (if n \<in> set required \<and> default = None
                       then mn + of_nat (length n) + min_serialized_size t + 4 else mn)
            in convert_properties conv values g required ps fs' mn' st1)) = Finished ((fs', mn'), st')"
    by (auto simp: x run_bind_Finished)
  have st: "wrapped lib st st1" using sound_conversionD(1)[OF assms conv] .
  show ?case
  proof (cases r)
    case None
    with rest have "convert_properties conv values g required ps fs mn st1 = Finished ((fs', mn'), st')" by simp
    from Cons.IH[OF this Cons.prems(2,3)] st show ?thesis using wrapped_trans by blast
  next
    case (Some tj)
    obtain t j where tj: "tj = (t, j)" by (cases tj)
    have t: "declared unnamed t" using sound_conversionD(2)[OF assms] conv Some tj by blast
    let ?fs = "case escape n of
                 Some pn \<Rightarrow> mput pn (Decl_Field pn (Some t) (n \<in> set required) enum (sn_default (g p))) fs
               | None \<Rightarrow> fs"
    have "declared_fields unnamed ?fs \<and> distinct (map fst ?fs)"
      using Cons.prems(2,3) t
      by (auto split: option.splits intro: declared_fields_mput escape_identifier)
    moreover obtain mn1 where "convert_properties conv values g required ps ?fs mn1 st1 = Finished ((fs', mn'), st')"
      using rest Some tj by (auto simp: Let_def)
    ultimately show ?thesis using Cons.IH st wrapped_trans by blast
  qed
qed simp

lemma as_optional_schema_sound:
  assumes "sound_conversion lib conv"
  shows "sound_result lib st (as_optional_schema lib conv g bs st)"
  unfolding as_optional_schema_def Let_def
  by (auto split: option.splits prod.splits intro!: sound_bind sound_conversionD(3)[OF assms]
      simp: declared_set_optional intro: wrapped_then_optional)

lemma branches_decl_sound:
  assumes "sound_conversion lib conv"
  shows "sound_result lib st (branches_decl lib conv g i bs st)"
  unfolding branches_decl_def
  by (auto split: option.splits intro!: sound_bind as_optional_schema_sound[OF assms]
      sound_conversionD(3)[OF assms])

lemma array_decl_sound:
  assumes "sound_conversion lib conv"
  shows "sound_result lib st (array_decl lib conv g i st)"
proof (cases "schema_items_of (g i)")
  case (Some it)
  then show ?thesis
    unfolding array_decl_def Let_def
    by (auto split: option.splits intro!: sound_bind_value dest: sound_conversionD(1,2)[OF assms])
qed (simp add: array_decl_def)

lemma wrapped_set_additional:
  "set_additional_properties_metadata b (with_min mn (new_object_type lib n fs)) st = (t', st') \<Longrightarrow> st' = st"
  by (auto simp: set_additional_properties_metadata_def with_min_def new_object_type_def)

lemma object_decl_sound:
  assumes "sound_conversion lib conv"
  shows "sound_result lib st (object_decl lib conv values g i st)"
proof (cases "additional_schema (g i)")
  case (Some a)
  have "object_decl lib conv values g i st =
          run_bind (conv a st) (\<lambda>(r, st').
            case r of
              None \<Rightarrow> Finished (Some (dyn_map lib st', i), st')
            | Some (t, _) \<Rightarrow>
                run_bind (case sn_max_properties (g i) of
                            Some u \<Rightarrow> Finished (safe_int u)
                          | None \<Rightarrow> estimate_max_additional_properties (min_serialized_size t))
                  (\<lambda>mx. Finished (Some (new_map_type lib st' (Shared String_Type) t mx, i), st')))"
    by (simp add: object_decl_def Let_def Some)
  then show ?thesis
    by (simp only:, intro sound_bind[OF sound_conversionD(3)[OF assms]])
       (auto split: option.splits intro!: sound_bind_value)
next
  case None
  have "sound_result lib st (case ((fs, mn), st1) of ((fs, mn), st') \<Rightarrow>
         if fs = [] then Finished (Some (dyn_map lib st', i), st')
         else (let t = with_min mn (new_object_type lib ''object'' fs)
               in case additional_as_bool (g i) of
                    None \<Rightarrow> Finished (Some (t, i), st')
                  | Some b \<Rightarrow>
                      (let (t', st'') = set_additional_properties_metadata b t st'
                       in Finished (Some (with_max no_max_length t', i), st''))))"
    if "convert_properties conv values g (sn_required (g i)) (schema_properties (g i)) [] 2 st
          = Finished ((fs, mn), st1)" for fs mn st1
  proof -
    from convert_properties_sound[OF assms that]
    have fs: "declared_fields unnamed fs" "distinct (map fst fs)" "wrapped lib st st1" by auto
    then have "fs \<noteq> [] \<Longrightarrow> declared unnamed (with_min mn (new_object_type lib ''object'' fs))" by simp
    with fs show ?thesis
      by (auto simp: Let_def split: option.splits prod.splits
          dest: wrapped_set_additional declared_set_additional[where P = unnamed])
  qed
  then show ?thesis
    using None unfolding object_decl_def Let_def
    by (auto intro!: sound_bind_value)
qed

lemma convert_schema_sound:
  assumes "sound_conversion lib conv"
  shows "sound_conversion lib (convert_schema lib conv values g)"
  unfolding sound_conversion_def convert_schema_def Let_def
  by (auto split: option.splits intro!: sound_conversionD(3)[OF assms] array_decl_sound[OF assms]
      object_decl_sound[OF assms] branches_decl_sound[OF assms])

lemma new_decl_type_sound: "sound_conversion lib (new_decl_type n lib g)"
proof (induction n)
  case (Suc n)
  have "new_decl_type (Suc n) lib g = convert_schema lib (new_decl_type n lib g) (collect_values n g) g"
    by (intro ext) simp
  with convert_schema_sound[OF Suc] show ?case by simp
qed (simp add: sound_conversion_def)

section \<open>Termination\<close>

text \<open>The schemas the conversion of a schema may go on to.\<close>

definition schema_children :: "schema_node \<Rightarrow> schema_id set" where
  "schema_children s =
     set_option (schema_items_of s) \<union> set_option (additional_schema s) \<union> snd ` set (schema_properties s)
     \<union> set_option (sn_ref s) \<union> set (schema_one_of s) \<union> set (schema_any_of s)"

text \<open>A rank that falls along every edge: the graph has no cycle.\<close>

definition ranked :: "schema_graph \<Rightarrow> (schema_id \<Rightarrow> nat) \<Rightarrow> bool" where
  "ranked g rank = (\<forall>i. \<forall>c \<in> schema_children (g i). rank c < rank i)"

definition ends :: "'a run \<Rightarrow> bool" where
  "ends m = (m \<noteq> Unfinished)"

lemma ends_simps [simp]: "ends (Finished x)" "ends Crashed" "\<not> ends Unfinished"
  by (simp_all add: ends_def)

lemma ends_bind: "ends m \<Longrightarrow> (\<And>x. m = Finished x \<Longrightarrow> ends (f x)) \<Longrightarrow> ends (run_bind m f)"
  by (cases m) auto

lemma add_values_ends: "ends (add_values acc vs)"
  by (induction vs arbitrary: acc) auto

lemma collect_values_ends: "ranked g rank \<Longrightarrow> rank i < n \<Longrightarrow> ends (collect_values n g i)"
proof (induction n arbitrary: i)
  case (Suc n)
  have "ends (collect_values n g r)" if "sn_ref (g i) = Some r" for r
  proof -
    from that have "r \<in> schema_children (g i)" by (simp add: schema_children_def)
    with Suc show ?thesis unfolding ranked_def by fastforce
  qed
  then show ?case
    by (auto simp: Let_def split: option.splits intro!: ends_bind add_values_ends)
qed simp

lemma convert_properties_ends:
  "(\<And>q st. q \<in> snd ` set ps \<Longrightarrow> ends (conv q st)) \<Longrightarrow>
   (\<And>q. q \<in> snd ` set ps \<Longrightarrow> ends (values q)) \<Longrightarrow>
ends (convert_properties conv values g required ps fs mn st)"
proof (induction ps arbitrary: fs mn st)
  case (Cons x ps)
  have rest: "ends (convert_properties conv values g required ps fs mn st)" for fs mn st
    using Cons by auto
  obtain n p where x: "x = (n, p)" by (cases x)
  with Cons.prems have "ends (conv p st)" "ends (values p)" by auto
  then show ?case
    using rest by (auto simp: x Let_def split: option.splits intro!: ends_bind)
qed simp

lemma estimates_end:
  "ends (estimate_max_array_items m)" "ends (estimate_max_additional_properties m)"
  by (simp_all add: estimate_max_array_items_def estimate_max_additional_properties_def Let_def)

lemma as_optional_schema_ends:
  assumes "\<And>b st. b \<in> set bs \<Longrightarrow> ends (conv b st)"
  shows "ends (as_optional_schema lib conv g bs st)"
proof -
  have member: "fold (\<lambda>b acc. if schema_type (g b) = ''null'' then acc else Some b) bs acc = Some b \<Longrightarrow>
      b \<in> set bs \<or> acc = Some b" for acc b
    by (induction bs arbitrary: acc) (fastforce split: if_splits)+
  show ?thesis
    unfolding as_optional_schema_def Let_def
    using assms member[of None]
    by (auto split: option.splits prod.splits intro!: ends_bind)
qed

lemma branches_decl_ends:
  assumes "\<And>b st. b \<in> set bs \<Longrightarrow> ends (conv b st)"
  shows "ends (branches_decl lib conv g i bs st)"
  using assms as_optional_schema_ends[of bs conv]
  by (cases bs) (auto simp: branches_decl_def split: option.splits intro!: ends_bind)

lemma convert_schema_ends:
  assumes conv: "\<And>c st. c \<in> schema_children (g i) \<Longrightarrow> ends (conv c st)"
    and vals: "\<And>c. c \<in> schema_children (g i) \<Longrightarrow> ends (values c)"
  shows "ends (convert_schema lib conv values g i st)"
proof -
  have arr: "ends (array_decl lib conv g i st)"
    using conv unfolding array_decl_def Let_def schema_children_def
    by (auto split: option.splits intro!: ends_bind estimates_end)
  have props: "ends (convert_properties conv values g (sn_required (g i)) (schema_properties (g i)) [] 2 st)"
    by (rule convert_properties_ends) (use conv vals in \<open>auto simp: schema_children_def\<close>)
  have obj: "ends (object_decl lib conv values g i st)"
    using conv props unfolding object_decl_def Let_def schema_children_def
    by (auto split: option.splits prod.splits intro!: ends_bind estimates_end)
  have "ends (branches_decl lib conv g i (schema_one_of (g i)) st)"
    "ends (branches_decl lib conv g i (schema_any_of (g i)) st)"
    by (rule branches_decl_ends; use conv in \<open>simp add: schema_children_def\<close>)+
  with arr obj show ?thesis
    using conv unfolding convert_schema_def Let_def schema_children_def
    by (auto split: option.splits)
qed

lemma new_decl_type_ends: "ranked g rank \<Longrightarrow> rank i < n \<Longrightarrow> ends (new_decl_type n lib g i st)"
proof (induction n arbitrary: i st)
  case (Suc n)
  have "rank c < n" if "c \<in> schema_children (g i)" for c
    using Suc.prems that unfolding ranked_def by fastforce
  with Suc have "ends (convert_schema lib (new_decl_type n lib g) (collect_values n g) g i st)"
    by (intro convert_schema_ends collect_values_ends) auto
  then show ?case by simp
qed simp

text \<open>
  A schema that contains itself, through a property that refers back to it, is never converted:
  the recursion of the source has no end, unless a property panics first.
\<close>

definition back_reference :: "schema_graph \<Rightarrow> schema_id \<Rightarrow> schema_id \<Rightarrow> bool" where
  "back_reference g i p \<longleftrightarrow> schema_type (g p) = [] \<and> sn_ref (g p) = Some i"

lemma back_reference_step:
  "back_reference g i p \<Longrightarrow> new_decl_type k lib g p st = (case k of 0 \<Rightarrow> Unfinished | Suc l \<Rightarrow> new_decl_type l lib g i st)"
  by (cases k) (simp_all add: back_reference_def convert_schema_def)

lemma convert_properties_unfinished:
  assumes "(n, p) \<in> set ps" "\<And>st z. conv p st \<noteq> Finished z"
  shows "convert_properties conv values g required ps fs mn st \<noteq> Finished z"
  using assms(1)
proof (induction ps arbitrary: fs mn st)
  case (Cons x ps)
  obtain m q where x: "x = (m, q)" by (cases x)
  show ?case
  proof (cases "(n, p) = (m, q)")
    case False
    then have "convert_properties conv values g required ps fs mn st \<noteq> Finished z" for fs mn st
      using Cons x by auto
    then show ?thesis by (auto simp: x run_bind_Finished Let_def split: option.splits)
  qed (use assms(2) in \<open>auto simp: x run_bind_Finished\<close>)
qed simp

lemma object_conversion:
  assumes "schema_type (g i) = ''object''" "additional_schema (g i) = None"
  shows "\<exists>f. (\<forall>y. f y \<noteq> Crashed) \<and> new_decl_type (Suc m) lib g i st
    = run_bind (convert_properties (new_decl_type m lib g) (collect_values m g) g (sn_required (g i))
        (schema_properties (g i)) [] 2 st) f"
  using assms
  by (intro exI[of _ "\<lambda>((fs, mn), st'). if fs = [] then Finished (Some (dyn_map lib st', i), st')
      else (let t = with_min mn (new_object_type lib ''object'' fs)
            in case additional_as_bool (g i) of
                 None \<Rightarrow> Finished (Some (t, i), st')
               | Some b \<Rightarrow> (let (t', st'') = set_additional_properties_metadata b t st'
                            in Finished (Some (with_max no_max_length t', i), st'')))"])
    (auto simp: convert_schema_def object_decl_def Let_def split: prod.splits option.splits)

lemma recursive_object_step:
  assumes "schema_type (g i) = ''object''" "additional_schema (g i) = None"
    "(n, p) \<in> set (schema_properties (g i))" "back_reference g i p"
  shows "new_decl_type k lib g i st \<noteq> Finished y"
proof (induction k arbitrary: st y rule: less_induct)
  case (less k)
  show ?case
  proof (cases k)
    case (Suc m)
    have "new_decl_type m lib g p st \<noteq> Finished z" for st z
      using less Suc by (simp add: back_reference_step[OF assms(4)] split: nat.split)
    from convert_properties_unfinished[where conv = "new_decl_type m lib g", OF assms(3) this]
      object_conversion[where g = g and i = i, OF assms(1,2), of m lib st] Suc
    show ?thesis by (auto simp del: new_decl_type.simps simp: run_bind_Finished dest: sym)
  qed simp
qed

lemma run_bind_Crashed: "run_bind r f = Crashed \<longleftrightarrow> r = Crashed \<or> (\<exists>x. r = Finished x \<and> f x = Crashed)"
  by (cases r) auto

lemma convert_properties_calm:
  assumes "\<And>q st. q \<in> snd ` set ps \<Longrightarrow> conv q st \<noteq> Crashed" "\<And>q. q \<in> snd ` set ps \<Longrightarrow> values q \<noteq> Crashed"
  shows "convert_properties conv values g required ps fs mn st \<noteq> Crashed"
  using assms
proof (induction ps arbitrary: fs mn st)
  case (Cons x ps)
  obtain m q where x: "x = (m, q)" by (cases x)
  have "convert_properties conv values g required ps fs mn st \<noteq> Crashed" for fs mn st
    using Cons by auto
  moreover have "conv q st \<noteq> Crashed" "values q \<noteq> Crashed" for st using Cons.prems x by auto
  ultimately show ?case by (auto simp: x run_bind_Crashed Let_def split: option.splits)
qed simp

lemma recursive_object_calm:
  assumes "schema_type (g i) = ''object''" "additional_schema (g i) = None"
    "\<And>q k st. q \<in> snd ` set (schema_properties (g i)) \<Longrightarrow> back_reference g i q \<or> new_decl_type k lib g q st \<noteq> Crashed"
    "\<And>q k. q \<in> snd ` set (schema_properties (g i)) \<Longrightarrow> collect_values k g q \<noteq> Crashed"
  shows "new_decl_type k lib g i st \<noteq> Crashed"
proof (induction k arbitrary: st rule: less_induct)
  case (less k)
  show ?case
  proof (cases k)
    case (Suc m)
    have "new_decl_type m lib g q st \<noteq> Crashed" if "q \<in> snd ` set (schema_properties (g i))" for q st
    proof (cases "back_reference g i q")
      case True
      then show ?thesis using less Suc by (simp add: back_reference_step split: nat.split)
    qed (use assms(3) that in blast)
    from convert_properties_calm[of "schema_properties (g i)" "new_decl_type m lib g" "collect_values m g", OF this assms(4)]
      object_conversion[where g = g and i = i, OF assms(1,2), of m lib st] Suc
    show ?thesis by (auto simp del: new_decl_type.simps simp: run_bind_Crashed dest: sym)
  qed simp
qed

end
