(* ===== verification/Cel_Naming.thy ===== *)
theory Cel_Naming
  imports Cel_Conversion
begin

text \<open>
  The names \<open>MaybeAssignTypeName\<close> gives to the objects inside a declared type, and the map of
  types that a provider makes of them: a name is the path to the object, paths are
  distinguishable in their text, so every object is found under its own name.
\<close>

section \<open>Positions\<close>

datatype position_step = At_Field string | At_Elem | At_Idx

fun step_name :: "position_step \<Rightarrow> string" where
  "step_name (At_Field n) = n"
| "step_name At_Elem = ''@elem''"
| "step_name At_Idx = ''@idx''"

fun sub_type :: "'ct decl_type \<Rightarrow> position_step list \<Rightarrow> 'ct decl_type option" where
  "sub_type t [] = Some t"
| "sub_type t (At_Field n # p) =
     (if is_object t
      then Option.bind (Option.bind (Option.bind (decl_fields t) (\<lambda>fs. map_of fs n)) field_type) (\<lambda>u. sub_type u p)
      else None)"
| "sub_type t (At_Elem # p) = (if is_map t then Option.bind (elem_type t) (\<lambda>u. sub_type u p) else None)"
| "sub_type t (At_Idx # p) = (if is_list t then Option.bind (elem_type t) (\<lambda>u. sub_type u p) else None)"

definition qualified_name :: "string \<Rightarrow> position_step list \<Rightarrow> string" where
  "qualified_name root p = root @ concat (map (\<lambda>s. ''.'' @ step_name s) p)"

definition container :: "'ct decl_type \<Rightarrow> bool" where
  "container t = (is_object t \<or> is_map t \<or> is_list t)"

fun valid_step :: "position_step \<Rightarrow> bool" where
  "valid_step (At_Field n) = cel_identifier n"
| "valid_step _ = True"

lemma qualified_name_Nil [simp]: "qualified_name root [] = root"
  by (simp add: qualified_name_def)

lemma qualified_name_Cons: "qualified_name root (s # p) = qualified_name (root @ ''.'' @ step_name s) p"
  by (simp add: qualified_name_def)

lemma identifier_chars: "cel_identifier n \<Longrightarrow> c \<in> set n \<Longrightarrow> c \<noteq> CHR ''.'' \<and> c \<noteq> CHR ''@''"
proof -
  have "CHR ''.'' \<notin> set identifier_characters" "CHR ''@'' \<notin> set identifier_characters"
    by (simp_all add: identifier_characters_def)
  moreover assume "cel_identifier n" "c \<in> set n"
  then have "c \<in> set identifier_characters"
    by (simp add: cel_identifier_def list_all_iff valid_character_iff)
  ultimately show ?thesis by metis
qed

lemma step_name_no_dot: "valid_step s \<Longrightarrow> CHR ''.'' \<notin> set (step_name s)"
  using identifier_chars by (cases s) auto

lemma step_name_inj: "valid_step s \<Longrightarrow> valid_step r \<Longrightarrow> step_name s = step_name r \<Longrightarrow> s = r"
proof -
  have "cel_identifier n \<Longrightarrow> n \<noteq> ''@elem'' \<and> n \<noteq> ''@idx''" for n
    using identifier_chars[of n "CHR ''@''"] by auto
  then show "valid_step s \<Longrightarrow> valid_step r \<Longrightarrow> step_name s = step_name r \<Longrightarrow> s = r"
    by (cases s; cases r) auto
qed

lemma dotted_tail:
  "concat (map (\<lambda>s. ''.'' @ step_name s) p) = [] \<or> hd (concat (map (\<lambda>s. ''.'' @ step_name s) p)) = CHR ''.''"
  by (cases p) auto

lemma until_dot: "c \<notin> set a \<Longrightarrow> r = [] \<or> hd r = c \<Longrightarrow> takeWhile (\<lambda>x. x \<noteq> c) (a @ r) = a"
  by (cases r) (auto simp: takeWhile_append)

lemma dotted_inj:
  "list_all valid_step p \<Longrightarrow> list_all valid_step q \<Longrightarrow>
   concat (map (\<lambda>s. ''.'' @ step_name s) p) = concat (map (\<lambda>s. ''.'' @ step_name s) q) \<Longrightarrow> p = q"
proof (induction p arbitrary: q)
  case Nil
  then show ?case by (cases q) auto
next
  case (Cons s p)
  from Cons.prems obtain r q' where q: "q = r # q'" by (cases q) auto
  let ?p = "concat (map (\<lambda>s. ''.'' @ step_name s) p)" and ?q = "concat (map (\<lambda>s. ''.'' @ step_name s) q')"
  have eq: "step_name s @ ?p = step_name r @ ?q" using Cons.prems(3) by (simp add: q)
  have "step_name s = takeWhile (\<lambda>x. x \<noteq> CHR ''.'') (step_name s @ ?p)"
    using until_dot[OF step_name_no_dot dotted_tail] Cons.prems(1) by simp
  also have "\<dots> = step_name r"
    unfolding eq using until_dot[OF step_name_no_dot dotted_tail] Cons.prems(2) by (simp add: q)
  finally have n: "step_name s = step_name r" .
  then have "s = r" using Cons.prems step_name_inj by (simp add: q)
  with n eq Cons q show ?case by simp
qed

lemma qualified_name_inj:
  "list_all valid_step p \<Longrightarrow> list_all valid_step q \<Longrightarrow> qualified_name root p = qualified_name root q \<Longrightarrow> p = q"
  using dotted_inj by (simp add: qualified_name_def)

section \<open>Shapes of declared types\<close>

lemma shape_simps [simp]:
  "is_object (Built n (Some fs) None None m mx mn ct)"
  "is_map (Built n None (Some k) (Some e) m mx mn ct)"
  "is_list (Built n None None (Some e) m mx mn ct)"
  "\<not> is_object (Built n None k' e' m mx mn ct)" "\<not> is_map (Built n fs' None e' m mx mn ct)"
  "\<not> is_list (Built n fs' (Some k) e' m mx mn ct)" "\<not> is_object (Shared s)"
  "\<not> is_object (Built n fs' (Some k) e' m mx mn ct)" "\<not> is_object (Built n fs' k' (Some e) m mx mn ct)"
  "\<not> is_map (Built n (Some fs) k' e' m mx mn ct)" "\<not> is_list (Built n (Some fs) k' e' m mx mn ct)"
  "\<not> is_list (Built n fs' k' None m mx mn ct)" "\<not> is_map (Built n fs' k' None m mx mn ct)"
  by (simp_all add: is_object_def is_map_def is_list_def)

lemma declared_objectE:
  assumes "declared P t" "is_object t"
  obtains n fs m mx mn ct where "t = Built n (Some fs) None None m mx mn ct" "P n" "fs \<noteq> []"
    "distinct (map fst fs)" "declared_fields P fs"
  using assms by (cases t) (auto simp: is_object_def)

lemma declared_mapE:
  assumes "declared P t" "is_map t"
  obtains "t = Shared Map_Type" | n e m mx mn ct where
    "t = Built n None (Some (Shared String_Type)) (Some e) m mx mn ct" "declared P e"
  using assms by (cases t) (auto simp: is_map_def split: if_splits)

lemma declared_listE:
  assumes "declared P t" "is_list t"
  obtains "t = Shared List_Type" | n e m mx mn ct where
    "t = Built n None None (Some e) m mx mn ct" "declared P e"
  using assms by (cases t) (auto simp: is_list_def split: if_splits)

lemma sub_type_shared_any: "sub_type (Shared Any_Type) p = Some u \<Longrightarrow> p = [] \<and> u = Shared Any_Type"
  by (cases p; cases "hd p") (auto simp: is_map_def is_list_def split: if_splits)

lemma declared_sub_type:
  "declared P t \<Longrightarrow> sub_type t p = Some u \<Longrightarrow> list_all valid_step p \<and> declared P u"
proof (induction t p rule: sub_type.induct)
  case (2 t n p)
  from 2(3) have obj: "is_object t" by (simp split: if_splits)
  from declared_objectE[OF 2(2) this] obtain tn fs m mx mn ct where
    t: "t = Built tn (Some fs) None None m mx mn ct" and fs: "declared_fields P fs" by metis
  from 2(3) obj obtain f v where f: "map_of fs n = Some f" "field_type f = Some v" "sub_type v p = Some u"
    by (auto simp: t bind_eq_Some_conv)
  have "cel_identifier n" "declared P v"
    using fs map_of_SomeD[OF f(1)] f(2) unfolding declared_fields_iff by auto
  with 2(1)[OF obj, of v] f show ?case by (simp add: t)
next
  case (3 t p)
  from 3(3) have m: "is_map t" by (simp split: if_splits)
  show ?case
    by (rule declared_mapE[OF 3(2) m])
      (use 3 m in \<open>auto dest: sub_type_shared_any\<close>)
next
  case (4 t p)
  from 4(3) have m: "is_list t" by (simp split: if_splits)
  show ?case
    by (rule declared_listE[OF 4(2) m])
      (use 4 m in \<open>auto dest: sub_type_shared_any\<close>)
qed simp

section \<open>Assigned names\<close>

text \<open>Every object inside the type carries the path to it.\<close>

definition named :: "string \<Rightarrow> 'ct decl_type \<Rightarrow> bool" where
  "named n t = (\<forall>p u. sub_type t p = Some u \<longrightarrow> is_object u \<longrightarrow> type_name u = qualified_name n p)"

definition named_fields :: "string \<Rightarrow> (string \<times> 'ct decl_field) list \<Rightarrow> bool" where
  "named_fields n fs =
     (\<forall>(k, f) \<in> set fs. \<forall>u. field_type f = Some u \<longrightarrow> named (n @ ''.'' @ k) u)"

lemma named_shared [simp]: "named n (Shared s)"
proof -
  have "sub_type (Shared s) p = Some u \<Longrightarrow> \<not> is_object u" for p and u :: "'a decl_type"
  proof (cases p)
    case (Cons x q)
    then show "sub_type (Shared s) p = Some u \<Longrightarrow> \<not> is_object u"
      by (cases x) (auto dest: sub_type_shared_any split: if_splits)
  qed auto
  then show ?thesis unfolding named_def by blast
qed

lemma named_object:
  assumes "named_fields n fs"
  shows "named n (Built n (Some fs) None None m mx mn ct)"
  unfolding named_def
proof (intro allI impI)
  fix p and u :: "'a decl_type"
  assume s: "sub_type (Built n (Some fs) None None m mx mn ct) p = Some u" and o: "is_object u"
  show "type_name u = qualified_name n p"
  proof (cases p)
    case (Cons x q)
    with s obtain k where x: "x = At_Field k" by (cases x) auto
    with s Cons obtain f v where f: "map_of fs k = Some f" "field_type f = Some v" "sub_type v q = Some u"
      by (auto simp: bind_eq_Some_conv)
    with assms have "named (n @ ''.'' @ k) v"
      unfolding named_fields_def using map_of_SomeD[OF f(1)] by fastforce
    with f o show ?thesis by (simp add: Cons x named_def qualified_name_Cons)
  qed (use s in auto)
qed

lemma named_map: "named (n @ ''.@elem'') e \<Longrightarrow> named n (Built tn None (Some k) (Some e) m mx mn ct)"
  unfolding named_def
proof (intro allI impI)
  fix p and u :: "'a decl_type"
  assume e: "\<forall>p u. sub_type e p = Some u \<longrightarrow> is_object u \<longrightarrow> type_name u = qualified_name (n @ ''.@elem'') p"
    and s: "sub_type (Built tn None (Some k) (Some e) m mx mn ct) p = Some u" and o: "is_object u"
  show "type_name u = qualified_name n p"
  proof (cases p)
    case (Cons x q)
    with s have "x = At_Elem" "sub_type e q = Some u" by (cases x; simp)+
    with e o show ?thesis by (simp add: Cons qualified_name_Cons)
  qed (use s o in auto)
qed

lemma named_list: "named (n @ ''.@idx'') e \<Longrightarrow> named n (Built tn None None (Some e) m mx mn ct)"
  unfolding named_def
proof (intro allI impI)
  fix p and u :: "'a decl_type"
  assume e: "\<forall>p u. sub_type e p = Some u \<longrightarrow> is_object u \<longrightarrow> type_name u = qualified_name (n @ ''.@idx'') p"
    and s: "sub_type (Built tn None None (Some e) m mx mn ct) p = Some u" and o: "is_object u"
  show "type_name u = qualified_name n p"
  proof (cases p)
    case (Cons x q)
    with s have "x = At_Idx" "sub_type e q = Some u" by (cases x; simp)+
    with e o show ?thesis by (simp add: Cons qualified_name_Cons)
  qed (use s o in auto)
qed

lemma named_simple: "named n (Built tn None None None m mx mn ct)"
  unfolding named_def
proof (intro allI impI)
  fix p and u :: "'a decl_type"
  assume s: "sub_type (Built tn None None None m mx mn ct) p = Some u" "is_object u"
  then show "type_name u = qualified_name n p" by (cases p; cases "hd p") auto
qed

text \<open>
  On what the conversion yields, naming does not panic, keeps the typing and names every object;
  the result is the same pointer only when nothing inside was an object.
\<close>

lemma declared_key_only [simp]: "declared P (Built n None k None m mx mn ct) = (k = None)"
  by (cases k) simp_all

lemma assign_name_spec:
  fixes t :: "'ct decl_type" and fs :: "(string \<times> 'ct decl_field) list"
  shows "declared unnamed t \<Longrightarrow> \<exists>t' ch. assign_name lib st n t = Ok (t', ch) \<and>
      declared (\<lambda>_. True) t' \<and> named n t' \<and> (\<not> ch \<longrightarrow> t' = t)"
    and "declared_fields unnamed fs \<Longrightarrow> \<exists>fs' ch. assign_fields lib st n fs = Ok (fs', ch) \<and>
      declared_fields (\<lambda>_. True) fs' \<and> named_fields n fs' \<and> map fst fs' = map fst fs"
proof (induction lib st n t and lib st n fs rule: assign_name_assign_fields.induct)
  case (2 lib st n tn fs m mx mn ct)
  then obtain fs' ch where f: "assign_fields lib st n fs = Ok (fs', ch)" "declared_fields (\<lambda>_. True) fs'"
    "named_fields n fs'" "map fst fs' = map fst fs" by auto
  with 2(2) have "fs' \<noteq> []" "distinct (map fst fs')" by auto
  with f 2(2) show ?case by (auto simp: named_object)
next
  case (3 lib st n tn k e m mx mn ct)
  then obtain e' ch where "assign_name lib st (n @ ''.@elem'') e = Ok (e', ch)" "declared (\<lambda>_. True) e'"
    "named (n @ ''.@elem'') e'" "\<not> ch \<longrightarrow> e' = e" by auto
  with 3(2) show ?case by (cases ch) (auto simp: new_map_type_def named_map)
next
  case (4 lib st n tn e m mx mn ct)
  then obtain e' ch where "assign_name lib st (n @ ''.@idx'') e = Ok (e', ch)" "declared (\<lambda>_. True) e'"
    "named (n @ ''.@idx'') e'" "\<not> ch \<longrightarrow> e' = e" by auto
  with 4(2) show ?case by (cases ch) (auto simp: new_list_type_def named_list)
next
  case (8 lib st n fn fnm t r en d fs)
  then obtain t' ch fs' rest where
    "assign_name lib st (n @ ''.'' @ fn) t = Ok (t', ch)" "declared (\<lambda>_. True) t'" "named (n @ ''.'' @ fn) t'"
    "\<not> ch \<longrightarrow> t' = t"
    "assign_fields lib st n fs = Ok (fs', rest)" "declared_fields (\<lambda>_. True) fs'" "named_fields n fs'"
    "map fst fs' = map fst fs" by fastforce
  with 8(3) show ?case by (cases ch) (auto simp: named_fields_def)
qed (auto simp: named_simple named_fields_def)

section \<open>The type map\<close>

text \<open>
  The entries a declared type makes: each container inside it, under its path. Everything else of
  the map stays.
\<close>

definition maps_to ::
  "(string, 'ct decl_type) gomap \<Rightarrow> (string, 'ct decl_type) gomap \<Rightarrow> string \<Rightarrow> 'ct decl_type \<Rightarrow> bool" where
  "maps_to old new n t =
     (\<forall>k. (\<forall>p u. sub_type t p = Some u \<longrightarrow> container u \<longrightarrow> k = qualified_name n p \<longrightarrow> map_of new k = Some u) \<and>
          ((\<forall>p u. sub_type t p = Some u \<longrightarrow> container u \<longrightarrow> k \<noteq> qualified_name n p) \<longrightarrow> map_of new k = map_of old k))"

definition maps_fields ::
  "(string, 'ct decl_type) gomap \<Rightarrow> (string, 'ct decl_type) gomap \<Rightarrow> string
     \<Rightarrow> (string \<times> 'ct decl_field) list \<Rightarrow> bool" where
  "maps_fields old new n fs =
     (\<forall>k. (\<forall>i f t p u. (i, f) \<in> set fs \<longrightarrow> field_type f = Some t \<longrightarrow> sub_type t p = Some u \<longrightarrow> container u \<longrightarrow>
             k = qualified_name n (At_Field i # p) \<longrightarrow> map_of new k = Some u) \<and>
          ((\<forall>i f t p u. (i, f) \<in> set fs \<longrightarrow> field_type f = Some t \<longrightarrow> sub_type t p = Some u \<longrightarrow> container u \<longrightarrow>
             k \<noteq> qualified_name n (At_Field i # p)) \<longrightarrow> map_of new k = map_of old k))"

lemma field_position_inj:
  assumes "qualified_name n (At_Field i # p) = qualified_name n (At_Field j # q)"
    "cel_identifier i" "cel_identifier j" "list_all valid_step p" "list_all valid_step q"
  shows "i = j"
  using qualified_name_inj[of "At_Field i # p" "At_Field j # q" n] assms by simp

lemma maps_fields_Cons:
  assumes "maps_to old mid (n @ ''.'' @ i) t" "maps_fields mid new n fs"
    and f: "field_type f = Some t" "declared P t" "cel_identifier i" and fs: "declared_fields P fs" "i \<notin> fst ` set fs"
  shows "maps_fields old new n ((i, f) # fs)"
proof -
  have apart: "qualified_name n (At_Field i # p) \<noteq> qualified_name n (At_Field j # q)"
    if "(j, g) \<in> set fs" "field_type g = Some v" "sub_type v q = Some w" "sub_type t p = Some u" for j g v q w p u
  proof
    assume eq: "qualified_name n (At_Field i # p) = qualified_name n (At_Field j # q)"
    have "cel_identifier j" "declared P v"
      using fs(1) that(1,2) unfolding declared_fields_iff by auto
    then have "i = j"
      using field_position_inj[OF eq f(3)] declared_sub_type[OF f(2) that(4)] declared_sub_type[OF _ that(3)] by auto
    with fs(2) that(1) show False by force
  qed
  show ?thesis
    unfolding maps_fields_def
  proof (intro allI conjI impI)
    fix k j g v p u
    assume e: "(j, g) \<in> set ((i, f) # fs)" "field_type g = Some v" "sub_type v p = Some u" "container u"
      "k = qualified_name n (At_Field j # p)"
    show "map_of new k = Some u"
    proof (cases "(j, g) \<in> set fs")
      case True
      with e assms(2) show ?thesis unfolding maps_fields_def by blast
    next
      case False
      with e(1) have "j = i" "g = f" by auto
      with e f have k: "k = qualified_name n (At_Field i # p)" "sub_type t p = Some u" by auto
      then have "map_of mid k = Some u"
        using assms(1) e(4) unfolding maps_to_def by (metis qualified_name_Cons step_name.simps(1))
      moreover have "map_of new k = map_of mid k"
        using assms(2) apart k unfolding maps_fields_def by metis
      ultimately show ?thesis by simp
    qed
  next
    fix k
    assume none: "\<forall>j g v p u. (j, g) \<in> set ((i, f) # fs) \<longrightarrow> field_type g = Some v \<longrightarrow> sub_type v p = Some u \<longrightarrow>
      container u \<longrightarrow> k \<noteq> qualified_name n (At_Field j # p)"
    then have "map_of new k = map_of mid k"
      using assms(2) unfolding maps_fields_def by (metis list.set_intros(2))
    moreover have "map_of mid k = map_of old k"
      using assms(1) none f(1) unfolding maps_to_def by (metis list.set_intros(1) qualified_name_Cons step_name.simps(1))
    ultimately show "map_of new k = map_of old k" by simp
  qed
qed

lemma qualified_name_longer: "n \<noteq> qualified_name n (x # p)"
  by (simp add: qualified_name_def)

lemma maps_to_object:
  assumes "maps_fields (mput n (Built n (Some fs) None None m mx mn ct) old) new n fs" "distinct (map fst fs)"
  shows "maps_to old new n (Built n (Some fs) None None m mx mn ct)" (is "maps_to _ _ _ ?t")
  unfolding maps_to_def
proof (intro allI conjI impI)
  fix k p u
  assume s: "sub_type ?t p = Some u" "container u" "k = qualified_name n p"
  show "map_of new k = Some u"
  proof (cases p)
    case Nil
    have "map_of new n = map_of (mput n ?t old) n"
      using assms(1) qualified_name_longer unfolding maps_fields_def by metis
    with Nil s show ?thesis by simp
  next
    case (Cons x q)
    with s obtain i where x: "x = At_Field i" by (cases x) auto
    with s(1) Cons obtain f v where f: "map_of fs i = Some f" "field_type f = Some v" "sub_type v q = Some u"
      by (auto simp: bind_eq_Some_conv)
    from map_of_SomeD[OF f(1)] f(2,3) s(2,3) assms(1) show ?thesis
      unfolding maps_fields_def Cons x by blast
  qed
next
  fix k
  assume none: "\<forall>p u. sub_type ?t p = Some u \<longrightarrow> container u \<longrightarrow> k \<noteq> qualified_name n p"
  have "k \<noteq> n" using none[rule_format, of "[]" ?t] by (simp add: container_def)
  moreover have "k \<noteq> qualified_name n (At_Field i # p)"
    if "(i, f) \<in> set fs" "field_type f = Some v" "sub_type v p = Some u" "container u" for i f v p u
    using none[rule_format, of "At_Field i # p" u] that assms(2) by simp
  then have "map_of new k = map_of (mput n ?t old) k"
    using assms(1) unfolding maps_fields_def by blast
  ultimately show "map_of new k = map_of old k" by simp
qed

lemma maps_to_element:
  assumes "maps_to old mid (n @ ''.'' @ step_name x) e" "container t"
    "\<And>p. sub_type t p = (case p of [] \<Rightarrow> Some t | y # q \<Rightarrow> if y = x then sub_type e q else None)"
  shows "maps_to old (mput n t mid) n t"
  unfolding maps_to_def
proof (intro allI conjI impI)
  fix k p u
  assume s: "sub_type t p = Some u" "container u" "k = qualified_name n p"
  show "map_of (mput n t mid) k = Some u"
  proof (cases p)
    case (Cons y q)
    with s(1) assms(3)[of p] have "y = x" "sub_type e q = Some u" by (auto split: if_splits)
    with assms(1) s Cons qualified_name_longer[of n x q] show ?thesis
      unfolding maps_to_def by (simp add: qualified_name_Cons)
  qed (use s in auto)
next
  fix k
  assume none: "\<forall>p u. sub_type t p = Some u \<longrightarrow> container u \<longrightarrow> k \<noteq> qualified_name n p"
  have "k \<noteq> n" using none[rule_format, of "[]" t] assms(2) by simp
  moreover have "k \<noteq> qualified_name (n @ ''.'' @ step_name x) p" if "sub_type e p = Some u" "container u" for p u
    using none[rule_format, of "x # p" u] that assms(3)[of "x # p"] by (simp add: qualified_name_Cons)
  then have "map_of mid k = map_of old k" using assms(1) unfolding maps_to_def by blast
  ultimately show "map_of (mput n t mid) k = map_of old k" by simp
qed

lemma sub_type_any:
  "sub_type (Shared Any_Type) p = (case p of [] \<Rightarrow> Some (Shared Any_Type) | _ \<Rightarrow> None)"
  by (cases p; cases "hd p") (auto simp: is_map_def is_list_def)

lemma maps_to_any: "maps_to m m n (Shared Any_Type)"
  by (auto simp: maps_to_def sub_type_any container_def is_map_def is_list_def split: list.splits)

lemma sub_type_element:
  "sub_type (Shared Map_Type) p =
     (case p of [] \<Rightarrow> Some (Shared Map_Type) | y # q \<Rightarrow> if y = At_Elem then sub_type (Shared Any_Type) q else None)"
  "sub_type (Shared List_Type) p =
     (case p of [] \<Rightarrow> Some (Shared List_Type) | y # q \<Rightarrow> if y = At_Idx then sub_type (Shared Any_Type) q else None)"
  "sub_type (Built n None (Some k) (Some e) m mx mn ct) p =
     (case p of [] \<Rightarrow> Some (Built n None (Some k) (Some e) m mx mn ct) | y # q \<Rightarrow> if y = At_Elem then sub_type e q else None)"
  "sub_type (Built n None None (Some e) m mx mn ct) p =
     (case p of [] \<Rightarrow> Some (Built n None None (Some e) m mx mn ct) | y # q \<Rightarrow> if y = At_Idx then sub_type e q else None)"
  by (cases p; cases "hd p"; force simp: is_map_def is_list_def)+

lemma maps_to_plain: "\<not> container t \<Longrightarrow> (\<And>x p. sub_type t (x # p) = None) \<Longrightarrow> maps_to m m n t"
  unfolding maps_to_def by (metis neq_Nil_conv option.distinct(1) option.inject sub_type.simps(1))

lemma sub_type_simple [simp]: "sub_type (Built n None None None m mx mn ct) (x # p) = None"
  by (cases x) simp_all

lemma named_inside:
  assumes "named n t" "\<And>q. sub_type t (x # q) = sub_type e q"
  shows "named (n @ ''.'' @ step_name x) e"
  unfolding named_def
proof (intro allI impI)
  fix p u
  assume "sub_type e p = Some u" "is_object u"
  then show "type_name u = qualified_name (n @ ''.'' @ step_name x) p"
    using assms(1)[unfolded named_def, rule_format, of "x # p" u] assms(2) by (simp add: qualified_name_Cons)
qed

lemma build_decl_types_spec:
  fixes t :: "'ct decl_type" and fs :: "(string \<times> 'ct decl_field) list"
  shows "declared P t \<Longrightarrow> named n t \<Longrightarrow> \<exists>new. build_decl_types n t old = Ok new \<and>
      (mok old \<longrightarrow> mok new) \<and> maps_to old new n t"
    and "declared_fields P fs \<Longrightarrow> distinct (map fst fs) \<Longrightarrow> named_fields n fs \<Longrightarrow>
      \<exists>new. build_field_types n fs old = Ok new \<and> (mok old \<longrightarrow> mok new) \<and> maps_fields old new n fs"
proof (induction n t old and n fs old rule: build_decl_types_build_field_types.induct)
  case (1 n s types)
  consider "s = Map_Type" | "s = List_Type" | "s \<noteq> Map_Type" "s \<noteq> List_Type" by blast
  then show ?case
  proof cases
    case 1
    then show ?thesis
      by (auto intro!: maps_to_element[where x = At_Elem] maps_to_any simp: sub_type_element container_def is_map_def)
  next
    case 2
    then show ?thesis
      by (auto intro!: maps_to_element[where x = At_Idx] maps_to_any simp: sub_type_element container_def is_list_def)
  next
    case 3
    have "sub_type (Shared s) (x # p) = (None :: 'ct decl_type option)" for x p
      using 3 by (cases x) (auto simp: is_map_def is_list_def)
    with 3 show ?thesis
      by (auto intro!: maps_to_plain simp: container_def is_map_def is_list_def)
  qed
next
  case (2 n tn fs m mx mn ct types)
  have tn: "tn = n" using 2(3) unfolding named_def by (metis qualified_name_Nil shape_simps(1) sub_type.simps(1) type_name.simps(2))
  have fields: "declared_fields P fs" "distinct (map fst fs)" using 2(2) by auto
  have "named_fields n fs"
    unfolding named_fields_def named_def
  proof (intro ballI, clarify)
    fix k f u p v
    assume f: "(k, f) \<in> set fs" "field_type f = Some u" "sub_type u p = Some v" "is_object v"
    with 2(2) have "sub_type (Built tn (Some fs) None None m mx mn ct) (At_Field k # p) = Some v" by simp
    with 2(3) f(4) show "type_name v = qualified_name (n @ ''.'' @ k) p"
      unfolding named_def by (metis qualified_name_Cons step_name.simps(1))
  qed
  from 2(1)[OF fields this] obtain new where new: "build_field_types n fs (mput tn (Built tn (Some fs) None None m mx mn ct) types) = Ok new"
    "mok (mput tn (Built tn (Some fs) None None m mx mn ct) types) \<longrightarrow> mok new"
    "maps_fields (mput tn (Built tn (Some fs) None None m mx mn ct) types) new n fs"
    by (elim exE conjE)
  have "mok types \<longrightarrow> mok new" by (intro impI new(2)[rule_format] mok_mput)
  moreover have "maps_to types new n (Built n (Some fs) None None m mx mn ct)"
    by (rule maps_to_object) (use new(3) tn 2(2) in simp_all)
  ultimately show ?case using new(1) tn by simp
next
  case (3 n tn k e m mx mn ct types)
  have "named (n @ ''.@elem'') e"
    using named_inside[OF 3(3), of At_Elem e] by (simp add: sub_type_element)
  with 3 obtain new where "build_decl_types (n @ ''.@elem'') e types = Ok new" "mok types \<longrightarrow> mok new"
    "maps_to types new (n @ ''.'' @ step_name At_Elem) e" by auto
  then show ?case
    by (auto intro!: maps_to_element[where x = At_Elem] simp: sub_type_element container_def)
next
  case (4 n tn e m mx mn ct types)
  have "named (n @ ''.@idx'') e"
    using named_inside[OF 4(3), of At_Idx e] by (simp add: sub_type_element)
  with 4 obtain new where "build_decl_types (n @ ''.@idx'') e types = Ok new" "mok types \<longrightarrow> mok new"
    "maps_to types new (n @ ''.'' @ step_name At_Idx) e" by auto
  then show ?case
    by (auto intro!: maps_to_element[where x = At_Idx] simp: sub_type_element container_def)
next
  case (8 n i fnm t r en d fs types)
  then obtain mid where mid: "build_decl_types (n @ ''.'' @ i) t types = Ok mid" "mok types \<longrightarrow> mok mid"
    "maps_to types mid (n @ ''.'' @ i) t" by (auto simp: named_fields_def)
  have "declared_fields P fs" "distinct (map fst fs)" "named_fields n fs"
    using 8(3-5) by (auto simp: named_fields_def)
  from 8(2)[OF this] obtain new where new: "build_field_types n fs mid = Ok new" "mok mid \<longrightarrow> mok new"
    "maps_fields mid new n fs" by metis
  have "maps_fields types new n ((i, Decl_Field fnm (Some t) r en d) # fs)"
    by (rule maps_fields_Cons[OF mid(3) new(3), of _ P]) (use 8(3,4) in auto)
  with mid new show ?case by auto
qed (auto simp: maps_fields_def intro!: maps_to_plain simp: container_def split: if_splits)

end
