(* ===== verification/Cel_Properties.thy ===== *)
theory Cel_Properties
  imports Cel_Naming
begin

text \<open>
  The properties of the CEL typing: what the conversion of a schema yields and when it ends, how
  a nullable branch reaches every other use of a shared type, paths, names, and the comparison of
  paths.
\<close>

section \<open>Examples\<close>

text \<open>A record of the CEL library whose types are terms.\<close>

datatype cel_term =
  Cel_Const string | Cel_List cel_term | Cel_Map cel_term cel_term | Cel_Object string | Cel_Optional cel_term

fun term_kind :: "cel_term \<Rightarrow> cel_kind" where
  "term_kind (Cel_Const n) =
     (if n = ''dyn'' then Dyn_Kind else if n = ''string'' then String_Kind else Other_Kind (length n))"
| "term_kind (Cel_List e) = List_Kind"
| "term_kind (Cel_Map k e) = Map_Kind"
| "term_kind (Cel_Object n) = Struct_Kind"
| "term_kind (Cel_Optional t) = Opaque_Kind"

fun term_parameters :: "cel_term \<Rightarrow> cel_term list" where
  "term_parameters (Cel_List e) = [e]"
| "term_parameters (Cel_Map k e) = [k, e]"
| "term_parameters (Cel_Optional t) = [t]"
| "term_parameters _ = []"

fun term_name :: "cel_term \<Rightarrow> string" where
  "term_name (Cel_Const n) = n"
| "term_name (Cel_List e) = ''list''"
| "term_name (Cel_Map k e) = ''map''"
| "term_name (Cel_Object n) = n"
| "term_name (Cel_Optional t) = ''optional_type''"

definition term_lib :: "cel_term cel_lib" where
  "term_lib = \<lparr>
     cl_any = Cel_Const ''any'', cl_bool = Cel_Const ''bool'', cl_bytes = Cel_Const ''bytes'',
     cl_double = Cel_Const ''double'', cl_duration = Cel_Const ''duration'', cl_dyn = Cel_Const ''dyn'',
     cl_int = Cel_Const ''int'', cl_null = Cel_Const ''null_type'', cl_string = Cel_Const ''string'',
     cl_timestamp = Cel_Const ''timestamp'', cl_uint = Cel_Const ''uint'', cl_list = Cel_List,
     cl_map = Cel_Map, cl_object = Cel_Object, cl_optional = Cel_Optional, cl_kind = term_kind,
     cl_type_name = term_name, cl_parameters = term_parameters, cl_text = term_name,
     cl_assignable = (=)\<rparr>"

definition plain_schema :: schema_node where
  "plain_schema = \<lparr>
     sn_flag = None, sn_types = [], sn_items = No_Items, sn_items2020 = None, sn_properties = [],
     sn_additional = No_Additional, sn_required = [], sn_enum = [], sn_max_items = None,
     sn_max_properties = None, sn_max_length = None, sn_default = None, sn_format = [],
     sn_ref = None, sn_const = None, sn_one_of = [], sn_any_of = []\<rparr>"

definition typed_schema :: "string \<Rightarrow> schema_node" where
  "typed_schema ty = plain_schema\<lparr>sn_types := [ty]\<rparr>"

text \<open>
  An object with the properties \<open>spec\<close>, an object with a boolean \<open>in\<close>, and \<open>tags\<close>, an array of
  strings; a nullable boolean; and a list node that refers back to itself.
\<close>

definition sample_graph :: schema_graph where
  "sample_graph i =
     (if i = 0 then (typed_schema ''object'')\<lparr>sn_properties := [(''spec'', Some 7), (''tags'', Some 3)],
                                               sn_required := [''spec'']\<rparr>
      else if i = 7 then (typed_schema ''object'')\<lparr>sn_properties := [(''in'', Some 2)]\<rparr>
      else if i = 2 then typed_schema ''boolean''
      else if i = 3 then (typed_schema ''array'')\<lparr>sn_items := One_Item 4\<rparr>
      else if i = 4 then typed_schema ''string''
      else if i = 5 then plain_schema\<lparr>sn_one_of := [Some 6, Some 2]\<rparr>
      else if i = 6 then typed_schema ''null''
      else plain_schema)"

definition recursive_graph :: schema_graph where
  "recursive_graph i =
     (if i = 0 then (typed_schema ''object'')\<lparr>sn_properties := [(''name'', Some 1), (''next'', Some 2)]\<rparr>
      else if i = 1 then typed_schema ''string''
      else if i = 2 then plain_schema\<lparr>sn_ref := Some 0\<rparr>
      else plain_schema)"

section \<open>Conversion\<close>

text \<open>C18: The typing of declared types. Whatever the schema, a type that the conversion yields has
  exactly one of the shapes object, map, list and simple type; an object has at least one field,
  its fields have distinct names that are CEL identifiers, and every field has a type of the same
  kind. The only trace a conversion leaves on the package's shared types is optional wrapping.\<close>

theorem declared_types:
  assumes "new_decl_type n lib g i st = Finished (Some (t, j), st')"
  shows "declared (\<lambda>name. name = ''object'') t \<and>
    (\<forall>s. sc_metadata (st' s) = sc_metadata (st s) \<and>
         (\<exists>k. sc_cel (st' s) = (cl_optional lib ^^ k) (sc_cel (st s))))"
  using sound_conversionD(1,2)[OF new_decl_type_sound assms] assms
    sound_conversionD(2)[OF new_decl_type_sound[of lib n g]]
  by (simp add: wrapped_def)

text \<open>C28: The conversion ends. On a graph of schemas without a cycle, a recursion as deep as the
  rank of a schema suffices to convert it, whatever state the shared types are in.\<close>

theorem conversion_ends:
  assumes "ranked g rank" "rank i < n"
  shows "new_decl_type n lib g i st \<noteq> Unfinished"
  using new_decl_type_ends[OF assms] by (auto simp: ends_def)

text \<open>C29: A recursive schema is never converted. When one of the properties of an object without a schema of
  additional properties refers back to the object, no depth of recursion yields a result, whatever
  the other properties are; and when none of the properties panics, no depth is enough: the source
  calls itself without end.\<close>

theorem recursive_schema_never_converts:
  assumes "schema_type (g i) = ''object''" "additional_schema (g i) = None"
    "(n, p) \<in> set (schema_properties (g i))" "back_reference g i p"
  shows "(\<nexists>k r. new_decl_type k lib g i st = Finished r)
    \<and> ((\<forall>q \<in> snd ` set (schema_properties (g i)). \<forall>k. collect_values k g q \<noteq> Crashed
          \<and> (back_reference g i q \<or> (\<forall>st. new_decl_type k lib g q st \<noteq> Crashed)))
       \<longrightarrow> (\<forall>k. new_decl_type k lib g i st = Unfinished))"
proof (intro conjI impI allI)
  show none: "\<nexists>k r. new_decl_type k lib g i st = Finished r"
    using recursive_object_step[OF assms] by blast
  fix k
  assume calm: "\<forall>q \<in> snd ` set (schema_properties (g i)). \<forall>k. collect_values k g q \<noteq> Crashed
      \<and> (back_reference g i q \<or> (\<forall>st. new_decl_type k lib g q st \<noteq> Crashed))"
  have "new_decl_type k lib g i st \<noteq> Crashed"
    by (rule recursive_object_calm[where g = g and i = i, OF assms(1,2)]) (use calm in blast)+
  with none show "new_decl_type k lib g i st = Unfinished" by (cases "new_decl_type k lib g i st") auto
qed

text \<open>C19: A nullable boolean changes every boolean. Converting a schema that is oneOf the branches null and
  boolean, in that order, wraps the package's own boolean type: from then on the conversion of a
  plain boolean schema, nullable or not, yields a type that CEL takes for optional.\<close>

theorem nullable_boolean_changes_booleans:
  assumes "schema_type (g i) = []" "sn_ref (g i) = None" "schema_one_of (g i) = [a, b]"
    "schema_type (g a) = ''null''" "schema_type (g b) = ''boolean''" "schema_type (g' c) = ''boolean''"
  shows "\<exists>st' t. new_decl_type (Suc (Suc n)) lib g i st = Finished (Some (t, b), st') \<and>
    new_decl_type (Suc m) lib g' c st' = Finished (Some (t, c), st') \<and>
    cel_type st' t = cl_optional lib (cel_type st (Shared Bool_Type))"
proof -
  let ?st = "st(Bool_Type := (st Bool_Type)\<lparr>sc_cel := cl_optional lib (sc_cel (st Bool_Type))\<rparr>)"
  have "new_decl_type (Suc n) lib g b st = Finished (Some (Shared Bool_Type, b), st)"
    using assms(5) by (simp add: convert_schema_def Let_def)
  then have "new_decl_type (Suc (Suc n)) lib g i st = Finished (Some (Shared Bool_Type, b), ?st)"
    using assms(1-5)
    by (simp add: convert_schema_def branches_decl_def as_optional_schema_def Let_def)
  moreover have "new_decl_type (Suc m) lib g' c ?st = Finished (Some (Shared Bool_Type, c), ?st)"
    using assms(6) by (simp add: convert_schema_def Let_def)
  ultimately show ?thesis by (intro exI conjI) auto
qed

section \<open>Paths and names\<close>

lemma resolve_from_declared:
  "declared P t \<Longrightarrow> resolve_from lib st (Some t) path \<noteq> Panic \<and>
     (\<forall>r. resolve_from lib st (Some t) path = Ok r \<longrightarrow> (\<exists>u. r = Some u \<and> declared P u))"
proof (induction path arbitrary: t)
  case (Cons seg path)
  show ?case
  proof (cases "cel_type st t = cl_dyn lib")
    case False
    consider (obj) "is_object t" | (lst) "\<not> is_object t" "is_list t"
      | (mp) "\<not> is_object t" "\<not> is_list t" "is_map t" | (none) "\<not> is_object t" "\<not> is_list t" "\<not> is_map t"
      by blast
    then show ?thesis
    proof cases
      case obj
      from declared_objectE[OF Cons.prems obj] obtain n fs m mx mn ct where
        t: "t = Built n (Some fs) None None m mx mn ct" and fs: "declared_fields P fs" by metis
      have inner: "\<exists>u. field_type f = Some u \<and> declared P u" if "map_of fs k = Some f" for k f
        using fs map_of_SomeD[OF that] unfolding declared_fields_iff by auto
      show ?thesis
      proof (cases "escape (seg_name seg)")
        case (Some k)
        show ?thesis
        proof (cases "map_of fs k")
          case (Some f)
          with inner obtain u where "field_type f = Some u" "declared P u" by blast
          with Some \<open>escape (seg_name seg) = Some k\<close> False Cons.IH show ?thesis by (simp add: t)
        qed (use Some False in \<open>simp add: t\<close>)
      qed (use False in \<open>simp add: t\<close>)
    next
      case lst
      show ?thesis
        by (rule declared_listE[OF Cons.prems lst(2)])
          (use False lst Cons.IH[of "Shared Any_Type"] Cons.IH in auto)
    next
      case mp
      show ?thesis
        by (rule declared_mapE[OF Cons.prems mp(3)])
          (use False mp Cons.IH[of "Shared Any_Type"] Cons.IH in auto)
    qed (use False in simp)
  qed (use Cons in simp)
qed simp

text \<open>Resolving a path in a converted schema is safe. It never panics, and when it succeeds the
  result is again a declared type; the only failures are names that cannot be escaped, unknown
  fields, and segments below a type without parts.\<close>

lemma resolve_converted_type:
  assumes "new_decl_type n lib g i st = Finished (Some (t, j), st')"
  shows "type_resolve lib now (Some t) path \<noteq> Panic \<and>
    (\<forall>r. type_resolve lib now (Some t) path = Ok r \<longrightarrow> (\<exists>u. r = Some u \<and> declared (\<lambda>name. name = ''object'') u))"
  using resolve_from_declared[OF sound_conversionD(2)[OF new_decl_type_sound assms], of lib now path]
  by (simp add: type_resolve_def)

lemma mok_empty_copy: "mok m \<Longrightarrow> map_of (mcopy [] m) = map_of m"
  by (simp add: map_of_mcopy)

text \<open>Every object is found under its name. In a converted schema with an identifier, each
  object inside is named by the path to it, two objects at different places have different
  names, and the provider built from the type finds each object under its name.\<close>

theorem objects_found_by_name:
  assumes "new_schema_decl_type n lib g ident i st = Finished (Some (t, j), st')" "ident \<noteq> []" "is_object t"
  shows "\<exists>root types. escape ident = Some root \<and> all_types_for_decl [t] = Ok types \<and>
    (\<forall>p u. sub_type t p = Some u \<and> is_object u \<longrightarrow>
       type_name u = qualified_name root p \<and> find_registered types (type_name u) = Some u) \<and>
    (\<forall>p q u v. sub_type t p = Some u \<and> is_object u \<and> sub_type t q = Some v \<and> is_object v \<and>
       type_name u = type_name v \<longrightarrow> p = q)"
proof -
  from assms(1) obtain r st1 where
    conv: "new_decl_type n lib g i st = Finished (r, st1)" and
    named: "(case r of None \<Rightarrow> Finished (None, st1)
       | Some (t, j) \<Rightarrow>
           if ident = [] then Finished (Some (t, j), st1)
           else (case escape ident of
                   None \<Rightarrow> Finished (None, st1)
                 | Some name \<Rightarrow>
                     (case assign_name lib st1 name t of
                        Ok (t', _) \<Rightarrow> Finished (Some (t', j), st1)
                      | _ \<Rightarrow> Crashed))) = Finished (Some (t, j), st')"
    by (auto simp: new_schema_decl_type_def run_bind_Finished)
  from named assms(2) obtain t0 root ch where r: "r = Some (t0, j)" and
    root: "escape ident = Some root" and t: "assign_name lib st1 root t0 = Ok (t, ch)"
    by (cases r; cases "escape ident"; cases "assign_name lib st1 (the (escape ident)) (fst (the r))")
       auto
  have "declared unnamed t0" using sound_conversionD(2)[OF new_decl_type_sound] conv r by blast
  from assign_name_spec(1)[OF this, of lib st1 root] t
  have decl: "declared (\<lambda>_. True) t" and nm: "named root t" by auto
  have top: "type_name t = root" using nm assms(3) unfolding named_def
    by (metis qualified_name_Nil sub_type.simps(1))
  from build_decl_types_spec(1)[OF decl nm, of "[]"] obtain types where
    types: "build_decl_types root t [] = Ok types" "mok types" "maps_to [] types root t" by auto
  have "all_types_for_decl [t] = Ok (mcopy [] types)"
    using types(1) top by (simp add: all_types_for_decl_def field_type_map_def)
  moreover have "find_registered (mcopy [] types) (type_name u) = Some u \<and> type_name u = qualified_name root p"
    if "sub_type t p = Some u" "is_object u" for p u
  proof -
    have "type_name u = qualified_name root p" using nm that unfolding named_def by blast
    with types(3) that show ?thesis
      unfolding maps_to_def by (simp add: find_registered_def mok_empty_copy[OF types(2)] container_def)
  qed
  moreover have "p = q" if "sub_type t p = Some u" "is_object u" "sub_type t q = Some v" "is_object v"
    "type_name u = type_name v" for p q u v
    using nm that qualified_name_inj[of p q root] declared_sub_type[OF decl]
    unfolding named_def by metis
  ultimately show ?thesis using root by blast
qed

text \<open>Only the first name counts. Two paths of the same length whose first segments are plain
  names are equal for \<open>Path.Equals\<close> as soon as these two names agree, whatever follows.\<close>

lemma path_equals_first_name:
  "path_equals (named_segment a # p) (named_segment b # q) = (a = b \<and> length p = length q)"
  by (auto simp: path_equals_def named_segment_def)

text \<open>Naming drops the optional wrapping of an object: its CEL type becomes the plain object type.\<close>

lemma naming_drops_optional:
  "set_optional lib (Built ''object'' (Some fs) None None m mx mn ct) st = (t, st') \<Longrightarrow>
   assign_name lib st' n t = Ok (t', ch) \<Longrightarrow> cel_type st' t' = cl_object lib n"
  by (cases "assign_fields lib st' n fs") auto

text \<open>Two null branches index with -1, and an array among the literals is no map key: both panic.\<close>

lemma two_null_branches_panic:
  assumes "schema_type (g i) = []" "sn_ref (g i) = None" "schema_one_of (g i) = [a, b]"
    "schema_type (g a) = ''null''" "schema_type (g b) = ''null''"
  shows "new_decl_type (Suc n) lib g i st = Crashed"
  using assms by (simp add: convert_schema_def branches_decl_def as_optional_schema_def Let_def)

lemma composite_literal_panics:
  assumes "schema_const (g i) = None" "sn_enum (g i) = JArr xs # vs"
  shows "collect_values (Suc n) g i = Crashed"
  using assms by (simp add: Let_def)

section \<open>The properties at concrete schemas\<close>

definition sample_type :: "cel_term decl_type" where
  "sample_type = Built ''object''
    (Some
      [(''spec'',
        Decl_Field ''spec''
         (Some (Built ''object''
           (Some [(''__in__'', Decl_Field ''__in__'' (Some (Shared Bool_Type)) False [] None)])
           None None None 0 2 (Cel_Object ''object'')))
         True [] None),
       (''tags'',
        Decl_Field ''tags''
         (Some (Built ''list'' None None
           (Some (Built ''string'' None None None None 3145726 2 (Cel_Const ''string'')))
           None 1048575 2 (Cel_List (Cel_Const ''string''))))
         False [] None)])
    None None None 0 12 (Cel_Object ''object'')"

definition named_sample :: "cel_term decl_type" where
  "named_sample = Built ''root''
    (Some
      [(''spec'',
        Decl_Field ''spec''
         (Some (Built ''root.spec''
           (Some [(''__in__'', Decl_Field ''__in__'' (Some (Shared Bool_Type)) False [] None)])
           None None None 0 2 (Cel_Object ''root.spec'')))
         True [] None),
       (''tags'',
        Decl_Field ''tags''
         (Some (Built ''list'' None None
           (Some (Built ''string'' None None None None 3145726 2 (Cel_Const ''string'')))
           None 1048575 2 (Cel_List (Cel_Const ''string''))))
         False [] None)])
    None None None 0 12 (Cel_Object ''root'')"

lemma sample_escapes:
  "escape ''spec'' = Some ''spec''" "escape ''tags'' = Some ''tags''" "escape ''in'' = Some ''__in__''"
  "escape ''root'' = Some ''root''"
  by (simp_all add: escape_eq leading_digit_def less_eq_char_def has_reserved_def reserved_symbols_def
      replace_character_def valid_character_iff identifier_characters_def)

lemma sample_estimates:
  "estimate_max_array_items 2 = Finished 1048575" "max_request_size_bytes - 2 = 3145726"
  by code_simp+

lemma plain_simps [simp]:
  "schema_type plain_schema = []" "schema_type (typed_schema ty) = ty" "sn_ref plain_schema = None"
  "sn_enum (typed_schema ty) = []" "sn_const (typed_schema ty) = None" "sn_one_of (typed_schema ty) = []"
  "sn_any_of (typed_schema ty) = []" "sn_ref (typed_schema ty) = None" "sn_default (typed_schema ty) = None"
  "sn_max_items (typed_schema ty) = None" "sn_required (typed_schema ty) = []"
  "sn_additional (typed_schema ty) = No_Additional" "sn_items2020 (typed_schema ty) = None"
  "sn_types (typed_schema ty) = [ty]" "sn_format (typed_schema ty) = []" "sn_max_length (typed_schema ty) = None"
  "sn_types plain_schema = []"
  by (simp_all add: typed_schema_def plain_schema_def schema_type_def)

lemma sample_nodes:
  "sample_graph 0 = (typed_schema ''object'')\<lparr>sn_properties := [(''spec'', Some 7), (''tags'', Some 3)],
                                               sn_required := [''spec'']\<rparr>"
  "sample_graph 7 = (typed_schema ''object'')\<lparr>sn_properties := [(''in'', Some 2)]\<rparr>"
  "sample_graph 2 = typed_schema ''boolean''"
  "sample_graph 3 = (typed_schema ''array'')\<lparr>sn_items := One_Item 4\<rparr>"
  "sample_graph 4 = typed_schema ''string''"
  "sample_graph 5 = plain_schema\<lparr>sn_one_of := [Some 6, Some 2]\<rparr>"
  "sample_graph 6 = typed_schema ''null''"
  by (simp_all add: sample_graph_def)

lemma sample_values: "i = 2 \<or> i = 3 \<or> i = 7 \<Longrightarrow> collect_values (Suc n) sample_graph i = Finished []"
  by (auto simp: sample_nodes schema_const_def schema_one_of_def schema_any_of_def Let_def
      map_filter_simps)

lemma sample_conversions:
  "new_decl_type (Suc n) term_lib sample_graph 2 st = Finished (Some (Shared Bool_Type, 2), st)"
  "new_decl_type (Suc n) term_lib sample_graph 4 st =
     Finished (Some (Built ''string'' None None None None 3145726 2 (Cel_Const ''string''), 4), st)"
  "new_decl_type (Suc (Suc n)) term_lib sample_graph 3 st =
     Finished (Some (Built ''list'' None None
       (Some (Built ''string'' None None None None 3145726 2 (Cel_Const ''string'')))
       None 1048575 2 (Cel_List (Cel_Const ''string'')), 3), st)"
  "new_decl_type (Suc (Suc n)) term_lib sample_graph 7 st =
     Finished (Some (Built ''object''
       (Some [(''__in__'', Decl_Field ''__in__'' (Some (Shared Bool_Type)) False [] None)])
       None None None 0 2 (Cel_Object ''object''), 7), st)"
proof -
  show a: "new_decl_type (Suc n) term_lib sample_graph 2 st = Finished (Some (Shared Bool_Type, 2), st)" for n st
    by (simp add: convert_schema_def sample_nodes Let_def)
  show b: "new_decl_type (Suc n) term_lib sample_graph 4 st =
     Finished (Some (Built ''string'' None None None None 3145726 2 (Cel_Const ''string''), 4), st)" for n st
    by (simp add: convert_schema_def sample_nodes Let_def string_decl_def new_simple_type_def with_max_def
        estimate_max_string_length_def sample_estimates term_lib_def)
  show "new_decl_type (Suc (Suc n)) term_lib sample_graph 3 st =
     Finished (Some (Built ''list'' None None
       (Some (Built ''string'' None None None None 3145726 2 (Cel_Const ''string'')))
       None 1048575 2 (Cel_List (Cel_Const ''string'')), 3), st)"
    unfolding new_decl_type.simps(2)[of "Suc n"]
    using b[of n st]
    by (simp add: convert_schema_def sample_nodes Let_def schema_type_def array_decl_def schema_items_of_def
        sample_estimates new_list_type_def del: new_decl_type.simps) (simp add: term_lib_def)
  show "new_decl_type (Suc (Suc n)) term_lib sample_graph 7 st =
     Finished (Some (Built ''object''
       (Some [(''__in__'', Decl_Field ''__in__'' (Some (Shared Bool_Type)) False [] None)])
       None None None 0 2 (Cel_Object ''object''), 7), st)"
    unfolding new_decl_type.simps(2)[of "Suc n"]
    using a[of n st] sample_values[of 2 n]
    by (simp add: convert_schema_def sample_nodes Let_def schema_type_def object_decl_def schema_properties_def
        additional_schema_def additional_as_bool_def map_filter_simps sample_escapes with_min_def new_object_type_def
        del: new_decl_type.simps collect_values.simps) (simp add: term_lib_def)
qed

lemma sample_converted:
  "new_decl_type (Suc (Suc (Suc n))) term_lib sample_graph 0 st = Finished (Some (sample_type, 0), st)"
  unfolding new_decl_type.simps(2)[of "Suc (Suc n)"]
  using sample_conversions(4)[of n st] sample_conversions(3)[of n st] sample_values[of 7 "Suc n"] sample_values[of 3 "Suc n"]
  by (simp add: convert_schema_def sample_nodes Let_def schema_type_def object_decl_def schema_properties_def
      additional_schema_def additional_as_bool_def map_filter_simps sample_escapes with_min_def new_object_type_def
      del: new_decl_type.simps collect_values.simps) (simp add: term_lib_def sample_type_def)

lemma sample_named:
  "new_schema_decl_type (Suc (Suc (Suc n))) term_lib sample_graph ''root'' 0 st = Finished (Some (named_sample, 0), st)"
  by (simp add: new_schema_decl_type_def sample_converted sample_escapes del: new_decl_type.simps)
     (simp add: sample_type_def named_sample_def term_lib_def Let_def)

theorem declared_types_witness:
  "new_decl_type 3 term_lib sample_graph 0 (initial_shared term_lib)
     = Finished (Some (sample_type, 0), initial_shared term_lib) \<and>
   declared (\<lambda>name. name = ''object'') sample_type"
  using sample_converted[of 0 "initial_shared term_lib"]
    declared_types[of 3 term_lib sample_graph 0 "initial_shared term_lib" sample_type 0 "initial_shared term_lib"]
  by (simp add: numeral_eq_Suc del: new_decl_type.simps)

definition sample_rank :: "schema_id \<Rightarrow> nat" where
  "sample_rank i = (if i = 0 then 3 else if i \<in> {3, 5, 7} then 2 else 0)"

theorem conversion_ends_witness:
  "ranked sample_graph sample_rank \<and> new_decl_type 4 term_lib sample_graph 0 (initial_shared term_lib) \<noteq> Unfinished"
proof -
  have "\<forall>c \<in> schema_children (sample_graph i). sample_rank c < sample_rank i" for i
    by (simp add: sample_graph_def schema_children_def schema_items_of_def additional_schema_def
        schema_properties_def schema_one_of_def schema_any_of_def map_filter_simps sample_rank_def
        typed_schema_def plain_schema_def)
  then have "ranked sample_graph sample_rank" by (simp add: ranked_def)
  with conversion_ends[OF this, of 0 4] show ?thesis by (simp add: sample_rank_def del: new_decl_type.simps)
qed

theorem recursive_schema_never_converts_witness:
  "\<forall>k. new_decl_type k term_lib recursive_graph 0 (initial_shared term_lib) = Unfinished"
proof -
  have object: "schema_type (recursive_graph 0) = ''object''" "additional_schema (recursive_graph 0) = None"
    "schema_properties (recursive_graph 0) = [(''name'', 1), (''next'', 2)]" "back_reference recursive_graph 0 2"
    by (simp_all add: recursive_graph_def schema_type_def additional_schema_def schema_properties_def back_reference_def
        map_filter_simps typed_schema_def plain_schema_def)
  have plain: "collect_values k recursive_graph q \<noteq> Crashed" for k q
    by (induction k arbitrary: q)
      (simp_all add: recursive_graph_def typed_schema_def plain_schema_def schema_const_def schema_one_of_def
        schema_any_of_def map_filter_simps)
  have name: "new_decl_type k term_lib recursive_graph 1 st \<noteq> Crashed" for k st
    by (cases k) (simp_all add: convert_schema_def recursive_graph_def typed_schema_def schema_type_def plain_schema_def)
  show ?thesis
    using recursive_schema_never_converts[where g = recursive_graph and i = 0 and n = "''next''" and p = 2, OF object(1,2)] object(3,4) plain name by auto
qed

theorem nullable_boolean_changes_booleans_witness:
  "\<exists>st' t. new_decl_type 2 term_lib sample_graph 5 (initial_shared term_lib) = Finished (Some (t, 2), st') \<and>
     new_decl_type 1 term_lib sample_graph 2 st' = Finished (Some (t, 2), st') \<and>
     cel_type st' t = Cel_Optional (Cel_Const ''bool'')"
proof -
  have nodes: "schema_type (sample_graph 5) = []" "sn_ref (sample_graph 5) = None"
    "schema_one_of (sample_graph 5) = [6, 2]" "schema_type (sample_graph 6) = ''null''"
    "schema_type (sample_graph 2) = ''boolean''"
    by (simp_all add: sample_nodes schema_type_def schema_one_of_def map_filter_simps)
  have cel: "cl_optional term_lib (cel_type (initial_shared term_lib) (Shared Bool_Type))
      = Cel_Optional (Cel_Const ''bool'')"
    by (simp add: initial_shared_def term_lib_def)
  show ?thesis
    using nullable_boolean_changes_booleans[where g = sample_graph and i = 5 and a = 6 and b = 2 and
        g' = sample_graph and c = 2 and n = 0 and m = 0 and lib = term_lib and st = "initial_shared term_lib"]
      nodes cel
    by (simp add: numeral_2_eq_2[symmetric] del: new_decl_type.simps cel_type.simps)
qed

lemma resolve_converted_sample:
  "type_resolve term_lib (initial_shared term_lib) (Some sample_type) [named_segment ''spec'', named_segment ''in'']
     = Ok (Some (Shared Bool_Type)) \<and>
   type_resolve term_lib (initial_shared term_lib) (Some sample_type) [named_segment ''spec''] \<noteq> Panic"
proof
  show "type_resolve term_lib (initial_shared term_lib) (Some sample_type)
      [named_segment ''spec'', named_segment ''in''] = Ok (Some (Shared Bool_Type))"
    by (simp add: type_resolve_def sample_type_def named_segment_def sample_escapes) (simp add: term_lib_def)
  show "type_resolve term_lib (initial_shared term_lib) (Some sample_type) [named_segment ''spec''] \<noteq> Panic"
    using resolve_converted_type[OF sample_converted[of 0 "initial_shared term_lib"]] by blast
qed

theorem objects_found_by_name_witness:
  "\<exists>types u. all_types_for_decl [named_sample] = Ok types \<and>
     sub_type named_sample [At_Field ''spec''] = Some u \<and> type_name u = ''root.spec'' \<and>
     find_registered types ''root.spec'' = Some u"
proof -
  have sub: "sub_type named_sample [At_Field ''spec''] =
      Some (Built ''root.spec''
        (Some [(''__in__'', Decl_Field ''__in__'' (Some (Shared Bool_Type)) False [] None)])
        None None None 0 2 (Cel_Object ''root.spec''))" (is "_ = Some ?u")
    by (simp add: named_sample_def)
  have "is_object named_sample" by (simp add: named_sample_def)
  from objects_found_by_name[OF sample_named[of 0 "initial_shared term_lib"] _ this] obtain types where
    types: "all_types_for_decl [named_sample] = Ok types" and
    found: "\<forall>p u. sub_type named_sample p = Some u \<and> is_object u \<longrightarrow> find_registered types (type_name u) = Some u"
    by auto
  from found[rule_format, of "[At_Field ''spec'']" ?u] sub have "find_registered types ''root.spec'' = Some ?u"
    by simp
  with types sub show ?thesis by simp
qed

end
