(* ===== verification/Cel_Compat.thy ===== *)
theory Cel_Compat
  imports Cel_Properties
begin

text \<open>
  The comparison of CEL types by their structure,
  \<open>bindings/go/cel/jsonschema/decl/check/structural_compatibility.go\<close>. The result is the boolean
  of the source; the text of its error is left out. A CEL type may be a nil pointer. Named types
  lead back into the provider, so the comparison recurses on fuel.
\<close>

section \<open>Finding a declared type by its path\<close>

definition type_name_prefix :: string where
  "type_name_prefix = ''__type_''"

fun walk_segments :: "'ct decl_type \<Rightarrow> string list \<Rightarrow> 'ct decl_type option" where
  "walk_segments t [] = Some t"
| "walk_segments t (seg # segs) =
     (if seg = ''@idx'' \<or> seg = ''@elem'' then
        (case elem_type t of None \<Rightarrow> None | Some e \<Rightarrow> walk_segments e segs)
      else
        (let name = (case cut_at CHR ''['' seg of Some (a, _) \<Rightarrow> a | None \<Rightarrow> seg)
         in case decl_fields t of
              None \<Rightarrow> None
            | Some fs \<Rightarrow>
                (case map_of fs name of
                   None \<Rightarrow> None
                 | Some f \<Rightarrow>
                     (case field_type f of None \<Rightarrow> None | Some u \<Rightarrow> walk_segments u segs))))"

definition resolve_decl_type_from_path :: "string \<Rightarrow> 'ct provider option \<Rightarrow> 'ct decl_type option" where
  "resolve_decl_type_from_path type_path p =
     (if p = None \<or> type_path = [] then None
      else (case split_at CHR ''.'' type_path of
              [] \<Rightarrow> None
            | root # segs \<Rightarrow>
                (let found = (case find_decl_type p root of
                                Some t \<Rightarrow> Some t
                              | None \<Rightarrow> if has_prefix root type_name_prefix
                                        then find_decl_type p (trim_prefix root type_name_prefix)
                                        else None)
                 in case found of None \<Rightarrow> None | Some t \<Rightarrow> walk_segments t segs)))"

section \<open>Comparison\<close>

text \<open>
  The comparison of the types inside is a parameter: the output type first, then the expected
  one. An answer that is not true ends the surrounding comparison.
\<close>

type_synonym 'ct comparison = "'ct option \<Rightarrow> 'ct option \<Rightarrow> bool run"

definition and_then :: "bool run \<Rightarrow> bool run \<Rightarrow> bool run" where
  "and_then a b = run_bind a (\<lambda>ok. if ok then b else Finished False)"

definition list_types_compatible :: "'ct cel_lib \<Rightarrow> 'ct comparison \<Rightarrow> 'ct \<Rightarrow> 'ct \<Rightarrow> bool run" where
  "list_types_compatible lib cmp out expect =
     (case (cl_parameters lib out, cl_parameters lib expect) of
        (a # _, b # _) \<Rightarrow> and_then (cmp (Some a) (Some b)) (Finished True)
      | (as, bs) \<Rightarrow> Finished (length as = length bs))"

definition map_types_compatible :: "'ct cel_lib \<Rightarrow> 'ct comparison \<Rightarrow> 'ct \<Rightarrow> 'ct \<Rightarrow> bool run" where
  "map_types_compatible lib cmp out expect =
     (case (cl_parameters lib out, cl_parameters lib expect) of
        (k # v # _, k' # v' # _) \<Rightarrow>
          and_then (cmp (Some k) (Some k')) (and_then (cmp (Some v) (Some v')) (Finished True))
      | (as, bs) \<Rightarrow> Finished (length as = length bs))"

text \<open>The loop over the fields of the output; \<open>expected_fs\<close> are the fields of the expected type.\<close>

fun fields_compatible ::
  "'ct shared_store \<Rightarrow> 'ct comparison \<Rightarrow> (string, 'ct decl_field) gomap \<Rightarrow> (string \<times> 'ct decl_field) list \<Rightarrow> bool run" where
  "fields_compatible st cmp expected_fs [] = Finished True"
| "fields_compatible st cmp expected_fs ((n, f) # fs) =
     (case map_of expected_fs n of
        None \<Rightarrow> Finished False
      | Some f' \<Rightarrow>
          (case (field_type f', field_type f) of
             (Some t', Some t) \<Rightarrow>
               and_then (cmp (Some (cel_type st t)) (Some (cel_type st t')))
                 (fields_compatible st cmp expected_fs fs)
           | _ \<Rightarrow> fields_compatible st cmp expected_fs fs))"

definition struct_fields_compatible ::
  "'ct shared_store \<Rightarrow> 'ct comparison \<Rightarrow> 'ct decl_type option \<Rightarrow> 'ct decl_type option \<Rightarrow> bool run" where
  "struct_fields_compatible st cmp out expect =
     (case expect of
        None \<Rightarrow> Finished True
      | Some e \<Rightarrow>
          if allows_additional_properties st e then Finished True
          else (case out of
                  None \<Rightarrow> Finished False
                | Some d \<Rightarrow>
                    (case (decl_fields d, decl_fields e) of
                       (None, _) \<Rightarrow> Finished True
                     | (Some fs, None) \<Rightarrow> Finished (fs = [])
                     | (Some fs, Some es) \<Rightarrow> fields_compatible st cmp es fs)))"

definition struct_types_compatible ::
  "'ct cel_lib \<Rightarrow> 'ct shared_store \<Rightarrow> 'ct provider option \<Rightarrow> 'ct comparison \<Rightarrow> 'ct \<Rightarrow> 'ct \<Rightarrow> bool run" where
  "struct_types_compatible lib st p cmp out expect =
     (if p = None then Finished True
      else (case (resolve_decl_type_from_path (cl_text lib expect) p,
                  resolve_decl_type_from_path (cl_text lib out) p) of
              (Some e, Some d) \<Rightarrow> struct_fields_compatible st cmp (Some d) (Some e)
            | _ \<Rightarrow> Finished True))"

text \<open>
  One side is a map: each field is compared with the value type of the map, in the direction the
  parameter \<open>against\<close> says. A field without a type is a panic.
\<close>

fun each_field :: "'ct shared_store \<Rightarrow> ('ct \<Rightarrow> bool run) \<Rightarrow> (string \<times> 'ct decl_field) list \<Rightarrow> bool run" where
  "each_field st against [] = Finished True"
| "each_field st against ((n, f) # fs) =
     (case field_type f of
        None \<Rightarrow> Crashed
      | Some t \<Rightarrow> and_then (against (cel_type st t)) (each_field st against fs))"

definition map_assignable_to_struct ::
  "'ct cel_lib \<Rightarrow> 'ct shared_store \<Rightarrow> 'ct provider option \<Rightarrow> 'ct comparison \<Rightarrow> 'ct \<Rightarrow> 'ct \<Rightarrow> bool run" where
  "map_assignable_to_struct lib st p cmp out expect =
     (case Option.bind (resolve_decl_type_from_path (cl_text lib expect) p) decl_fields of
        None \<Rightarrow> Finished True
      | Some fs \<Rightarrow>
          (case cl_parameters lib out of
             k # v # _ \<Rightarrow>
               if cl_kind lib k \<noteq> String_Kind then Finished False
               else each_field st (\<lambda>t. cmp (Some v) (Some t)) fs
           | _ \<Rightarrow> Finished False))"

definition struct_assignable_to_map ::
  "'ct cel_lib \<Rightarrow> 'ct shared_store \<Rightarrow> 'ct provider option \<Rightarrow> 'ct comparison \<Rightarrow> 'ct \<Rightarrow> 'ct \<Rightarrow> bool run" where
  "struct_assignable_to_map lib st p cmp out expect =
     (case Option.bind (resolve_decl_type_from_path (cl_text lib out) p) decl_fields of
        None \<Rightarrow> Finished True
      | Some fs \<Rightarrow>
          (case cl_parameters lib expect of
             k # v # _ \<Rightarrow>
               if cl_kind lib k \<noteq> String_Kind then Finished False
               else each_field st (\<lambda>t. cmp (Some t) (Some v)) fs
           | _ \<Rightarrow> Finished False))"

definition is_optional :: "'ct cel_lib \<Rightarrow> 'ct \<Rightarrow> bool" where
  "is_optional lib t = (cl_kind lib t = Opaque_Kind \<and> cl_type_name lib t = ''optional_type'')"

text \<open>One call of \<open>AreTypesStructurallyCompatible\<close>; an optional type without a parameter is a panic.\<close>

definition compare_cel_types ::
  "'ct cel_lib \<Rightarrow> 'ct shared_store \<Rightarrow> 'ct provider option \<Rightarrow> 'ct comparison \<Rightarrow> 'ct comparison" where
  "compare_cel_types lib st p cmp out expect =
     (if cl_assignable lib expect out then Finished True
      else case (out, expect) of
             (Some a, Some b) \<Rightarrow>
               (let ka = cl_kind lib a; kb = cl_kind lib b
                in if kb = Dyn_Kind \<or> ka = Dyn_Kind then Finished True
                   else if is_optional lib a then
                     (case cl_parameters lib a of [] \<Rightarrow> Crashed | a' # _ \<Rightarrow> cmp (Some a') (Some b))
                   else if is_optional lib b then
                     (case cl_parameters lib b of [] \<Rightarrow> Crashed | b' # _ \<Rightarrow> cmp (Some a) (Some b'))
                   else if kb = Struct_Kind \<and> ka = Map_Kind then map_assignable_to_struct lib st p cmp a b
                   else if kb = Map_Kind \<and> ka = Struct_Kind then struct_assignable_to_map lib st p cmp a b
                   else if kb = List_Kind then list_types_compatible lib cmp a b
                   else if kb = Map_Kind then map_types_compatible lib cmp a b
                   else if kb = Struct_Kind then struct_types_compatible lib st p cmp a b
                   else Finished (ka = kb))
           | _ \<Rightarrow> Finished False)"

primrec types_compatible ::
  "nat \<Rightarrow> 'ct cel_lib \<Rightarrow> 'ct shared_store \<Rightarrow> 'ct provider option \<Rightarrow> 'ct comparison" where
  "types_compatible 0 lib st p out expect = Unfinished"
| "types_compatible (Suc n) lib st p out expect = compare_cel_types lib st p (types_compatible n lib st p) out expect"

section \<open>More fuel changes no answer\<close>

definition run_le :: "'a run \<Rightarrow> 'a run \<Rightarrow> bool" where
  "run_le a b = (a = Unfinished \<or> b = a)"

definition extended :: "'ct comparison \<Rightarrow> 'ct comparison \<Rightarrow> bool" where
  "extended c c' = (\<forall>a b. run_le (c a b) (c' a b))"

lemma run_le_refl [simp]: "run_le a a"
  by (simp add: run_le_def)

lemma and_then_True: "and_then a b = Finished True \<longleftrightarrow> a = Finished True \<and> b = Finished True"
  by (cases a) (auto simp: and_then_def)

lemma run_le_and_then: "run_le a a' \<Longrightarrow> run_le b b' \<Longrightarrow> run_le (and_then a b) (and_then a' b')"
  by (cases a) (auto simp: and_then_def run_le_def)

lemma extendedD: "extended c c' \<Longrightarrow> run_le (c a b) (c' a b)"
  by (simp add: extended_def)

lemma fields_compatible_extended:
  "extended c c' \<Longrightarrow> run_le (fields_compatible st c es fs) (fields_compatible st c' es fs)"
  by (induction st c es fs rule: fields_compatible.induct)
     (auto split: option.splits simp: extended_def intro!: run_le_and_then)

lemma each_field_extended:
  "(\<And>t. run_le (g t) (g' t)) \<Longrightarrow> run_le (each_field st g fs) (each_field st g' fs)"
  by (induction st g fs rule: each_field.induct) (auto split: option.splits intro!: run_le_and_then)

lemma compare_cel_types_extended:
  assumes "extended c c'"
  shows "extended (compare_cel_types lib st p c) (compare_cel_types lib st p c')"
proof -
  note le = extendedD[OF assms] run_le_and_then fields_compatible_extended[OF assms] each_field_extended
  have "run_le (list_types_compatible lib c a b) (list_types_compatible lib c' a b)" for a b
    unfolding list_types_compatible_def by (auto split: list.splits intro!: le)
  moreover have "run_le (map_types_compatible lib c a b) (map_types_compatible lib c' a b)" for a b
    unfolding map_types_compatible_def by (auto split: list.splits intro!: le)
  moreover have "run_le (struct_types_compatible lib st p c a b) (struct_types_compatible lib st p c' a b)" for a b
    unfolding struct_types_compatible_def struct_fields_compatible_def by (auto split: option.splits intro!: le)
  moreover have "run_le (map_assignable_to_struct lib st p c a b) (map_assignable_to_struct lib st p c' a b)" for a b
    unfolding map_assignable_to_struct_def by (auto split: option.splits list.splits intro!: le)
  moreover have "run_le (struct_assignable_to_map lib st p c a b) (struct_assignable_to_map lib st p c' a b)" for a b
    unfolding struct_assignable_to_map_def by (auto split: option.splits list.splits intro!: le)
  ultimately show ?thesis
    unfolding extended_def compare_cel_types_def Let_def
    by (auto split: option.splits list.splits intro: extendedD[OF assms])
qed

lemma compatible_extended: "n \<le> m \<Longrightarrow> extended (types_compatible n lib st p) (types_compatible m lib st p)"
proof (induction n arbitrary: m)
  case (Suc n)
  then obtain k where m: "m = Suc k" "n \<le> k" by (cases m) auto
  have "types_compatible (Suc j) lib st p = compare_cel_types lib st p (types_compatible j lib st p)" for j
    by (intro ext) simp
  with m Suc.IH[of k] show ?case by (simp add: compare_cel_types_extended)
qed (simp add: extended_def run_le_def)

section \<open>Structs\<close>

lemma fields_compatible_True:
  "fields_compatible st cmp es fs = Finished True \<longleftrightarrow>
     (\<forall>(k, f) \<in> set fs. \<exists>f'. map_of es k = Some f' \<and>
        (\<forall>t t'. field_type f = Some t \<longrightarrow> field_type f' = Some t' \<longrightarrow>
           cmp (Some (cel_type st t)) (Some (cel_type st t')) = Finished True))"
proof (induction fs)
  case (Cons x fs)
  obtain n f where x: "x = (n, f)" by (cases x)
  show ?case
  proof (cases "map_of es n")
    case (Some f')
    with Cons show ?thesis
      by (cases "field_type f'"; cases "field_type f") (auto simp: x and_then_True)
  qed (simp add: x)
qed simp

text \<open>The fields of a declared type, none for a nil map.\<close>

definition declared_fields :: "'ct decl_type \<Rightarrow> (string, 'ct decl_field) gomap" where
  "declared_fields d = (case decl_fields d of None \<Rightarrow> [] | Some fs \<Rightarrow> fs)"

text \<open>C25: What makes a struct acceptable. Between two named struct types that the provider knows, the first not
  being assignable to the second for CEL itself, the answer is yes exactly when the expected type
  allows additional properties, then whatever the output's fields are, or when every field of the
  output is a field of the expected type and its type, where both types are known, is acceptable in
  turn. A field that the expected type requires and the output lacks is never looked at, against the
  comment of the function.\<close>

theorem struct_compatible_iff:
  assumes "cl_kind lib a = Struct_Kind" "cl_kind lib b = Struct_Kind" "\<not> cl_assignable lib (Some b) (Some a)"
    "resolve_decl_type_from_path (cl_text lib a) p = Some d" "resolve_decl_type_from_path (cl_text lib b) p = Some e"
  shows "(types_compatible (Suc n) lib st p (Some a) (Some b) = Finished True) =
    (allows_additional_properties st e
     \<or> (\<forall>(k, f) \<in> set (declared_fields d). \<exists>f'. map_of (declared_fields e) k = Some f' \<and>
       (\<forall>t t'. field_type f = Some t \<longrightarrow> field_type f' = Some t' \<longrightarrow>
          types_compatible n lib st p (Some (cel_type st t)) (Some (cel_type st t')) = Finished True)))"
proof -
  let ?cmp = "types_compatible n lib st p"
  obtain types where "p = Some types" using assms(4) by (cases p) (auto simp: resolve_decl_type_from_path_def)
  with assms have eq: "types_compatible (Suc n) lib st p (Some a) (Some b) = struct_fields_compatible st ?cmp (Some d) (Some e)"
    by (simp add: compare_cel_types_def is_optional_def struct_types_compatible_def)
  have "struct_fields_compatible st ?cmp (Some d) (Some e) = Finished True \<longleftrightarrow>
      allows_additional_properties st e \<or> fields_compatible st ?cmp (declared_fields e) (declared_fields d) = Finished True"
  proof (cases "decl_fields d")
    case None
    then show ?thesis by (simp add: struct_fields_compatible_def declared_fields_def)
  next
    case (Some fs)
    then show ?thesis
      by (cases "decl_fields e"; cases fs) (auto simp: struct_fields_compatible_def declared_fields_def)
  qed
  then show ?thesis by (simp only: eq fields_compatible_True)
qed

text \<open>A struct that lacks a required field is accepted: the type \<open>part\<close> has no \<open>spec\<close>.\<close>

definition part_type :: "cel_term decl_type" where
  "part_type = Built ''part''
     (Some [(''tags'', Decl_Field ''tags''
        (Some (Built ''list'' None None
          (Some (Built ''string'' None None None None 3145726 2 (Cel_Const ''string'')))
          None 1048575 2 (Cel_List (Cel_Const ''string''))))
        False [] None)])
     None None None 0 2 (Cel_Object ''part'')"

definition part_provider :: "cel_term provider" where
  "part_provider = [(''root'', named_sample), (''part'', part_type)]"

theorem struct_compatible_iff_witness:
  "types_compatible 2 term_lib (initial_shared term_lib) (Some part_provider)
     (Some (Cel_Object ''part'')) (Some (Cel_Object ''root'')) = Finished True \<and>
   map_option field_required (Option.bind (decl_fields named_sample) (\<lambda>fs. map_of fs ''spec'')) = Some True"
proof
  have a: "resolve_decl_type_from_path (cl_text term_lib (Cel_Object ''part'')) (Some part_provider) = Some part_type"
    and b: "resolve_decl_type_from_path (cl_text term_lib (Cel_Object ''root'')) (Some part_provider) = Some named_sample"
    by (simp_all add: resolve_decl_type_from_path_def find_decl_type_def find_registered_def part_provider_def)
       (simp_all add: term_lib_def find_decl_type_def find_registered_def part_provider_def)
  have kinds: "cl_kind term_lib (Cel_Object ''part'') = Struct_Kind" "cl_kind term_lib (Cel_Object ''root'') = Struct_Kind"
    "\<not> cl_assignable term_lib (Some (Cel_Object ''root'')) (Some (Cel_Object ''part''))"
    by (simp_all add: term_lib_def)
  have same: "types_compatible (Suc 0) term_lib (initial_shared term_lib) (Some part_provider) (Some t) (Some t) = Finished True" for t
    by (simp add: compare_cel_types_def term_lib_def)
  show "types_compatible 2 term_lib (initial_shared term_lib) (Some part_provider)
     (Some (Cel_Object ''part'')) (Some (Cel_Object ''root'')) = Finished True"
    unfolding numeral_2_eq_2 struct_compatible_iff[OF kinds a b]
    by (simp add: part_type_def named_sample_def declared_fields_def same del: types_compatible.simps)
qed (simp add: named_sample_def)

end
