(* ===== verification/Resolvers.thy ===== *)
theory Resolvers
  imports Versioning
begin

text \<open>
  Which repository holds a component: the deprecated fallback repository
  (\<open>bindings/go/repository/component/fallback/v1/repository.go\<close>), the path matcher
  (\<open>repository/component/pathmatcher/v1alpha1/spec_provider.go\<close>) and the resolvers built from them
  (\<open>repository/component/resolvers\<close>). Repositories are handles; what they contain is a state \<open>'w\<close> of
  the outside. The provider of repositories, the credential resolver, the canonical JSON of a
  specification and the glob library are fields of an environment. Pointers to resolvers and to
  their specifications are taken to be not nil.
\<close>

section \<open>The outside\<close>

datatype repo_error = Version_Not_Found | Repo_Error string

datatype resolver_error =
  Canonical_Failed | Credentials_Failed | Repository_Failed | From_Repository repo_error
| Not_In_Any_Repository | No_Repository_For_Component | Listing_Failed
| Name_Missing | No_Resolver_Matches | Bad_Pattern nat | Bad_Constraint nat
| No_Provider | Both_Kinds | Raw_Failed

text \<open>
  \<open>errors.Is(err, repository.ErrNotFound)\<close>: an error of a repository is wrapped, the path matcher
  returns the value itself, and the fallback repository's own message wraps nothing.
\<close>

fun is_not_found :: "resolver_error \<Rightarrow> bool" where
  "is_not_found (From_Repository Version_Not_Found) = True"
| "is_not_found No_Resolver_Matches = True"
| "is_not_found _ = False"

record ('spec, 'ident, 'cred) credential_ops =
  co_identity :: "'spec \<Rightarrow> 'ident option"
  co_resolve :: "('ident \<Rightarrow> (bool, 'cred option) outcome) option"

text \<open>
  \<open>co_identity\<close> yields nothing on an error; \<open>co_resolve\<close> is nil or fails with whether the error is
  \<open>credentials.ErrNotFound\<close>. \<open>rv_canonical\<close> marshals and canonicalises a specification. \<open>rv_open\<close>
  yields nothing on an error; a provider never answers with a nil repository and no error (the
  source would take such an entry of the cache for a missing one), and what it answers depends on
  the specification and the credentials only.
\<close>

record ('spec, 'ident, 'cred, 'repo, 'desc, 'w) resolver_env = "('spec, 'ident, 'cred) credential_ops" +
  rv_canonical :: "'spec \<Rightarrow> string option"
  rv_open :: "'spec \<Rightarrow> 'cred option \<Rightarrow> 'repo option"
  rv_get :: "'repo \<Rightarrow> string \<Rightarrow> string \<Rightarrow> 'w \<Rightarrow> (repo_error, 'desc) outcome"
  rv_list :: "'repo \<Rightarrow> string \<Rightarrow> 'w \<Rightarrow> (repo_error, string list) outcome"
  rv_add :: "'repo \<Rightarrow> 'desc \<Rightarrow> 'w \<Rightarrow> (repo_error, unit) outcome \<times> 'w"

section \<open>The fallback repository\<close>

record 'spec fallback_resolver =
  fr_repository :: 'spec
  fr_prefix :: string
  fr_priority :: int

record ('spec, 'repo) fallback_repository =
  fb_resolvers :: "'spec fallback_resolver list"
  fb_cache :: "(string, 'repo) gomap"

text \<open>\<open>slices.SortStableFunc\<close> with the priorities compared in reverse.\<close>

definition new_fallback_repository :: "'spec fallback_resolver list \<Rightarrow> ('spec, 'repo) fallback_repository" where
  "new_fallback_repository res =
     \<lparr>fb_resolvers = sort_key (\<lambda>r. - fr_priority r) res, fb_cache = []\<rparr>"

definition prefix_admits :: "string \<Rightarrow> string \<Rightarrow> bool" where
  "prefix_admits prefix_str component =
     (\<not> (prefix_str \<noteq> [] \<and> prefix_str \<noteq> component \<and>
          \<not> has_prefix component (trim_suffix prefix_str ''/'' @ ''/'')))"

text \<open>
  \<open>getRepositoryForSpecification\<close>: without an identity, and with an identity for which no
  credentials are found, the repository is opened without credentials.
\<close>

definition open_repository ::
  "('spec, 'ident, 'cred, 'repo, 'desc, 'w) resolver_env \<Rightarrow> 'spec \<Rightarrow> (resolver_error, 'repo) outcome" where
  "open_repository env spec =
     bind_outcome
       (case co_identity env spec of
          None \<Rightarrow> Ok None
        | Some i \<Rightarrow>
            (case co_resolve env of
               None \<Rightarrow> Ok None
             | Some resolve \<Rightarrow>
                 (case resolve i of
                    Ok c \<Rightarrow> Ok c
                  | Fail missing \<Rightarrow> if missing then Ok None else Fail Credentials_Failed
                  | Panic \<Rightarrow> Panic)))
       (\<lambda>creds. case rv_open env spec creds of None \<Rightarrow> Fail Repository_Failed | Some r \<Rightarrow> Ok r)"

text \<open>\<open>getRepositoryFromCache\<close>, and the path matcher's \<open>getRepository\<close>.\<close>

definition repository_from_cache ::
  "('spec, 'ident, 'cred, 'repo, 'desc, 'w) resolver_env \<Rightarrow> (string, 'repo) gomap \<Rightarrow> 'spec
     \<Rightarrow> (resolver_error, 'repo) outcome \<times> (string, 'repo) gomap" where
  "repository_from_cache env cache spec =
     (case rv_canonical env spec of
        None \<Rightarrow> (Fail Canonical_Failed, cache)
      | Some key \<Rightarrow>
          (case map_of cache key of
             Some r \<Rightarrow> (Ok r, cache)
           | None \<Rightarrow>
               (case open_repository env spec of
                  Ok r \<Rightarrow> (Ok r, mput key r cache)
                | Fail e \<Rightarrow> (Fail e, cache)
                | Panic \<Rightarrow> (Panic, cache))))"

text \<open>
  \<open>RepositoriesForComponentIterator\<close> with the loop of its consumer: \<open>body\<close> is what the consumer
  does with a repository, a result ends the loop. An error of the iterator ends it too; a loop
  that runs out yields nothing.
\<close>

fun visit_repositories ::
  "('spec, 'ident, 'cred, 'repo, 'desc, 'w) resolver_env \<Rightarrow> string
     \<Rightarrow> ('spec \<Rightarrow> 'repo \<Rightarrow> 'w \<Rightarrow> (resolver_error, 'a) outcome option \<times> 'w)
     \<Rightarrow> 'spec fallback_resolver list \<Rightarrow> (string, 'repo) gomap \<Rightarrow> 'w
     \<Rightarrow> (resolver_error, 'a) outcome option \<times> (string, 'repo) gomap \<times> 'w" where
  "visit_repositories env component body [] cache w = (None, cache, w)"
| "visit_repositories env component body (r # rs) cache w =
     (if \<not> prefix_admits (fr_prefix r) component
      then visit_repositories env component body rs cache w
      else (case repository_from_cache env cache (fr_repository r) of
              (Ok repo, cache') \<Rightarrow>
                (case body (fr_repository r) repo w of
                   (Some result, w') \<Rightarrow> (Some result, cache', w')
                 | (None, w') \<Rightarrow> visit_repositories env component body rs cache' w')
            | (Fail e, cache') \<Rightarrow> (Some (Fail e), cache', w)
            | (Panic, cache') \<Rightarrow> (Some Panic, cache', w)))"

fun from_repository :: "(repo_error, 'a) outcome \<Rightarrow> (resolver_error, 'a) outcome" where
  "from_repository (Ok x) = Ok x"
| "from_repository (Fail e) = Fail (From_Repository e)"
| "from_repository Panic = Panic"

text \<open>A missing version sends the loop on to the next repository, any other outcome ends it.\<close>

definition unless_missing :: "(repo_error, 'a) outcome \<Rightarrow> (resolver_error, 'a) outcome option" where
  "unless_missing r = (case r of Fail Version_Not_Found \<Rightarrow> None | _ \<Rightarrow> Some (from_repository r))"

definition finish_visit ::
  "resolver_error \<Rightarrow> ('spec, 'repo) fallback_repository
     \<Rightarrow> (resolver_error, 'a) outcome option \<times> (string, 'repo) gomap \<times> 'w
     \<Rightarrow> (resolver_error, 'a) outcome \<times> ('spec, 'repo) fallback_repository \<times> 'w" where
  "finish_visit none f v =
     (case v of (r, cache, w) \<Rightarrow>
        (case r of None \<Rightarrow> Fail none | Some x \<Rightarrow> x, f\<lparr>fb_cache := cache\<rparr>, w))"

definition fallback_add_version ::
  "('spec, 'ident, 'cred, 'repo, 'desc, 'w) resolver_env \<Rightarrow> ('spec, 'repo) fallback_repository \<Rightarrow> string \<Rightarrow> 'desc
     \<Rightarrow> 'w \<Rightarrow> (resolver_error, unit) outcome \<times> ('spec, 'repo) fallback_repository \<times> 'w" where
  "fallback_add_version env f component desc w =
     finish_visit No_Repository_For_Component f
       (visit_repositories env component
          (\<lambda>_ repo w. case rv_add env repo desc w of (r, w') \<Rightarrow> (Some (from_repository r), w'))
          (fb_resolvers f) (fb_cache f) w)"

definition fallback_get_version ::
  "('spec, 'ident, 'cred, 'repo, 'desc, 'w) resolver_env \<Rightarrow> ('spec, 'repo) fallback_repository \<Rightarrow> string \<Rightarrow> string
     \<Rightarrow> 'w \<Rightarrow> (resolver_error, 'desc) outcome \<times> ('spec, 'repo) fallback_repository \<times> 'w" where
  "fallback_get_version env f component version w =
     finish_visit Not_In_Any_Repository f
       (visit_repositories env component
          (\<lambda>_ repo w. (unless_missing (rv_get env repo component version w), w))
          (fb_resolvers f) (fb_cache f) w)"

text \<open>\<open>GetRepositorySpecificationForComponent\<close> probes in the same way and returns the specification.\<close>

definition fallback_specification ::
  "('spec, 'ident, 'cred, 'repo, 'desc, 'w) resolver_env \<Rightarrow> ('spec, 'repo) fallback_repository \<Rightarrow> string \<Rightarrow> string
     \<Rightarrow> 'w \<Rightarrow> (resolver_error, 'spec) outcome \<times> ('spec, 'repo) fallback_repository \<times> 'w" where
  "fallback_specification env f component version w =
     finish_visit Not_In_Any_Repository f
       (visit_repositories env component
          (\<lambda>spec repo w. (unless_missing (bind_outcome (rv_get env repo component version w) (\<lambda>_. Ok spec)), w))
          (fb_resolvers f) (fb_cache f) w)"

text \<open>
  \<open>AddLocalResource\<close> and \<open>AddLocalSource\<close> give the call \<open>add\<close> to the first repository,
  \<open>GetLocalResource\<close> and \<open>GetLocalSource\<close> try the call \<open>get\<close> on one after the other.
\<close>

definition fallback_add_local ::
  "('spec, 'ident, 'cred, 'repo, 'desc, 'w) resolver_env \<Rightarrow> ('repo \<Rightarrow> 'w \<Rightarrow> (repo_error, 'a) outcome \<times> 'w)
     \<Rightarrow> ('spec, 'repo) fallback_repository \<Rightarrow> string
     \<Rightarrow> 'w \<Rightarrow> (resolver_error, 'a) outcome \<times> ('spec, 'repo) fallback_repository \<times> 'w" where
  "fallback_add_local env add f component w =
     finish_visit No_Repository_For_Component f
       (visit_repositories env component
          (\<lambda>_ repo w. case add repo w of (r, w') \<Rightarrow> (Some (from_repository r), w'))
          (fb_resolvers f) (fb_cache f) w)"

definition fallback_get_local ::
  "('spec, 'ident, 'cred, 'repo, 'desc, 'w) resolver_env \<Rightarrow> ('repo \<Rightarrow> 'w \<Rightarrow> (repo_error, 'a) outcome)
     \<Rightarrow> ('spec, 'repo) fallback_repository \<Rightarrow> string
     \<Rightarrow> 'w \<Rightarrow> (resolver_error, 'a) outcome \<times> ('spec, 'repo) fallback_repository \<times> 'w" where
  "fallback_get_local env get f component w =
     finish_visit Not_In_Any_Repository f
       (visit_repositories env component (\<lambda>_ repo w. (unless_missing (get repo w), w))
          (fb_resolvers f) (fb_cache f) w)"

text \<open>
  \<open>ListComponentVersions\<close>: the repositories are listed concurrently, the versions collected in a
  map, and sorted; one failure, of the iterator or of a listing, fails the whole.
\<close>

fun collect_versions ::
  "('spec, 'ident, 'cred, 'repo, 'desc, 'w) resolver_env \<Rightarrow> string \<Rightarrow> 'spec fallback_resolver list
     \<Rightarrow> (string, 'repo) gomap \<Rightarrow> 'w \<Rightarrow> (resolver_error, string list) outcome \<times> (string, 'repo) gomap" where
  "collect_versions env component [] cache w = (Ok [], cache)"
| "collect_versions env component (r # rs) cache w =
     (if \<not> prefix_admits (fr_prefix r) component then collect_versions env component rs cache w
      else (case repository_from_cache env cache (fr_repository r) of
              (Ok repo, cache') \<Rightarrow>
                (case collect_versions env component rs cache' w of
                   (rest, cache'') \<Rightarrow>
                     (bind_outcome (from_repository (rv_list env repo component w))
                        (\<lambda>vs. bind_outcome rest (\<lambda>vs'. Ok (vs @ vs'))), cache''))
            | (Fail e, cache') \<Rightarrow> (Fail Listing_Failed, cache')
            | (Panic, cache') \<Rightarrow> (Panic, cache')))"

definition fallback_list_versions ::
  "('spec, 'ident, 'cred, 'repo, 'desc, 'w) resolver_env \<Rightarrow> ('spec, 'repo) fallback_repository \<Rightarrow> string
     \<Rightarrow> 'w \<Rightarrow> (resolver_error, string list) outcome \<times> ('spec, 'repo) fallback_repository" where
  "fallback_list_versions env f component w =
     (case collect_versions env component (fb_resolvers f) (fb_cache f) w of
        (r, cache) \<Rightarrow>
          (case r of Ok vs \<Rightarrow> Ok (sort (remdups vs)) | Fail _ \<Rightarrow> Fail Listing_Failed | Panic \<Rightarrow> Panic,
           f\<lparr>fb_cache := cache\<rparr>))"

section \<open>The path matcher\<close>

record 'spec path_resolver =
  pr_repository :: 'spec
  pr_pattern :: string
  pr_constraint :: string

text \<open>The pattern of a compiled resolver is its match function.\<close>

record 'spec compiled_resolver =
  cr_resolver :: "'spec path_resolver"
  cr_match :: "string \<Rightarrow> bool"

record 'spec spec_provider =
  sp_resolvers :: "'spec compiled_resolver list"
  sp_registry :: registry

text \<open>\<open>glob\<close> is \<open>glob.Compile\<close>; the counter is the index of the resolver.\<close>

fun compile_resolvers ::
  "'v semver \<Rightarrow> (string \<Rightarrow> (string \<Rightarrow> bool) option) \<Rightarrow> registry \<Rightarrow> nat \<Rightarrow> 'spec path_resolver list
     \<Rightarrow> (resolver_error, 'spec compiled_resolver list) outcome" where
  "compile_resolvers sv glob reg i [] = Ok []"
| "compile_resolvers sv glob reg i (r # rs) =
     (let trimmed = trim_space (pr_pattern r);
          pattern_text = (if trimmed = [] then ''*'' else trimmed)
      in case glob pattern_text of
           None \<Rightarrow> Fail (Bad_Pattern i)
         | Some g \<Rightarrow>
             if pr_constraint r \<noteq> [] \<and> \<not> is_ok (validate_constraint sv reg (pr_constraint r))
             then Fail (Bad_Constraint i)
             else bind_outcome (compile_resolvers sv glob reg (Suc i) rs)
                    (\<lambda>cs. Ok (\<lparr>cr_resolver = r, cr_match = g\<rparr> # cs)))"

definition new_spec_provider ::
  "'v semver \<Rightarrow> (string \<Rightarrow> (string \<Rightarrow> bool) option) \<Rightarrow> registry option \<Rightarrow> 'spec path_resolver list
     \<Rightarrow> (resolver_error, 'spec spec_provider) outcome" where
  "new_spec_provider sv glob reg rs =
     (let registry = (case reg of None \<Rightarrow> default_registry | Some r \<Rightarrow> r)
      in bind_outcome (compile_resolvers sv glob registry 0 rs)
           (\<lambda>cs. Ok \<lparr>sp_resolvers = cs, sp_registry = registry\<rparr>))"

text \<open>Whether a resolver is taken for a component: its pattern, then its constraint.\<close>

definition resolver_accepts :: "'v semver \<Rightarrow> registry \<Rightarrow> 'spec compiled_resolver \<Rightarrow> string \<Rightarrow> string \<Rightarrow> bool" where
  "resolver_accepts sv reg cr component version =
     (if \<not> cr_match cr component then False
      else if pr_constraint (cr_resolver cr) \<noteq> [] then
        (if version = [] then False
         else (case registry_satisfies sv reg version (pr_constraint (cr_resolver cr)) of
                 Ok b \<Rightarrow> b
               | _ \<Rightarrow> False))
      else True)"

fun first_accepting ::
  "'v semver \<Rightarrow> registry \<Rightarrow> 'spec compiled_resolver list \<Rightarrow> string \<Rightarrow> string \<Rightarrow> (resolver_error, 'spec) outcome" where
  "first_accepting sv reg [] component version = Fail No_Resolver_Matches"
| "first_accepting sv reg (cr # crs) component version =
     (if resolver_accepts sv reg cr component version then Ok (pr_repository (cr_resolver cr))
      else first_accepting sv reg crs component version)"

definition get_repository_spec ::
  "'v semver \<Rightarrow> 'spec spec_provider \<Rightarrow> (string, string) gomap \<Rightarrow> (resolver_error, 'spec) outcome" where
  "get_repository_spec sv sp ident =
     (case map_of ident ''name'' of
        None \<Rightarrow> Fail Name_Missing
      | Some component \<Rightarrow>
          first_accepting sv (sp_registry sp) (sp_resolvers sp) component
            (case map_of ident ''version'' of None \<Rightarrow> [] | Some v \<Rightarrow> v))"

section \<open>Building a resolver\<close>

text \<open>The two implementations of \<open>ComponentVersionRepositoryResolver\<close>.\<close>

datatype ('spec, 'repo) component_resolver =
  Fallback_Resolver "('spec, 'repo) fallback_repository"
| Path_Matcher_Resolver "'spec spec_provider" "(string, 'repo) gomap"

record 'spec resolver_options =
  ro_has_provider :: bool
  ro_path_matchers :: "'spec path_resolver list"
  ro_fallbacks :: "'spec fallback_resolver list"
  ro_component_patterns :: "string list"
  ro_registry :: "registry option"

definition new_fallback_provider ::
  "'spec resolver_options \<Rightarrow> 'spec option \<Rightarrow> ('spec, 'repo) component_resolver" where
  "new_fallback_provider opts base =
     Fallback_Resolver (new_fallback_repository
       ((case base of
           None \<Rightarrow> []
         | Some b \<Rightarrow> [\<lparr>fr_repository = b, fr_prefix = [], fr_priority = 9223372036854775807\<rparr>])
        @ ro_fallbacks opts))"

text \<open>\<open>to_raw\<close> converts the base repository to its raw form.\<close>

definition path_matcher_resolvers ::
  "'spec resolver_options \<Rightarrow> 'spec option \<Rightarrow> 'spec path_resolver list" where
  "path_matcher_resolvers opts raw =
     (case raw of
        None \<Rightarrow> ro_path_matchers opts
      | Some b \<Rightarrow>
          map (\<lambda>p. \<lparr>pr_repository = b, pr_pattern = p, pr_constraint = []\<rparr>) (ro_component_patterns opts)
          @ ro_path_matchers opts
          @ [\<lparr>pr_repository = b, pr_pattern = ''*'', pr_constraint = []\<rparr>])"

definition new_path_matcher_provider ::
  "'v semver \<Rightarrow> (string \<Rightarrow> (string \<Rightarrow> bool) option) \<Rightarrow> ('spec \<Rightarrow> 'spec option) \<Rightarrow> 'spec resolver_options
     \<Rightarrow> 'spec option \<Rightarrow> (resolver_error, ('spec, 'repo) component_resolver option) outcome" where
  "new_path_matcher_provider sv glob to_raw opts base =
     bind_outcome
       (case base of
          None \<Rightarrow> Ok None
        | Some b \<Rightarrow> (case to_raw b of None \<Rightarrow> Fail Raw_Failed | Some raw \<Rightarrow> Ok (Some raw)))
       (\<lambda>raw. let final = path_matcher_resolvers opts raw
               in if final = [] then Ok None
                  else bind_outcome (new_spec_provider sv glob (ro_registry opts) final)
                         (\<lambda>sp. Ok (Some (Path_Matcher_Resolver sp []))))"

definition new_resolver ::
  "'v semver \<Rightarrow> (string \<Rightarrow> (string \<Rightarrow> bool) option) \<Rightarrow> ('spec \<Rightarrow> 'spec option) \<Rightarrow> 'spec resolver_options
     \<Rightarrow> 'spec option \<Rightarrow> (resolver_error, ('spec, 'repo) component_resolver option) outcome" where
  "new_resolver sv glob to_raw opts base =
     (if \<not> ro_has_provider opts then Fail No_Provider
      else if ro_path_matchers opts \<noteq> [] \<and> ro_fallbacks opts \<noteq> [] then Fail Both_Kinds
      else if ro_fallbacks opts \<noteq> [] then Ok (Some (new_fallback_provider opts base))
      else new_path_matcher_provider sv glob to_raw opts base)"

text \<open>\<open>GetRepositorySpecificationForComponent\<close> of either.\<close>

definition component_identity_map :: "string \<Rightarrow> string \<Rightarrow> (string, string) gomap" where
  "component_identity_map component version = [(''name'', component), (''version'', version)]"

definition specification_for_component ::
  "'v semver \<Rightarrow> ('spec, 'ident, 'cred, 'repo, 'desc, 'w) resolver_env \<Rightarrow> ('spec, 'repo) component_resolver
     \<Rightarrow> string \<Rightarrow> string \<Rightarrow> 'w \<Rightarrow> (resolver_error, 'spec) outcome \<times> ('spec, 'repo) component_resolver" where
  "specification_for_component sv env cr component version w =
     (case cr of
        Fallback_Resolver f \<Rightarrow>
          (case fallback_specification env f component version w of (r, f', _) \<Rightarrow> (r, Fallback_Resolver f'))
      | Path_Matcher_Resolver sp cache \<Rightarrow>
          (get_repository_spec sv sp (component_identity_map component version), Path_Matcher_Resolver sp cache))"

text \<open>
  \<open>GetComponentVersionRepositoryForComponent\<close>: the fallback repository itself, or the repository
  of the matching specification, opened once.
\<close>

datatype ('spec, 'repo) resolved_repository =
  Whole_Fallback "('spec, 'repo) fallback_repository" | Single_Repository 'repo

definition repository_for_component ::
  "'v semver \<Rightarrow> ('spec, 'ident, 'cred, 'repo, 'desc, 'w) resolver_env \<Rightarrow> ('spec, 'repo) component_resolver
     \<Rightarrow> string \<Rightarrow> string \<Rightarrow> (resolver_error, ('spec, 'repo) resolved_repository) outcome \<times> ('spec, 'repo) component_resolver" where
  "repository_for_component sv env cr component version =
     (case cr of
        Fallback_Resolver f \<Rightarrow> (Ok (Whole_Fallback f), cr)
      | Path_Matcher_Resolver sp cache \<Rightarrow>
          (case get_repository_spec sv sp (component_identity_map component version) of
             Ok spec \<Rightarrow>
               (case repository_from_cache env cache spec of
                  (r, cache') \<Rightarrow> (bind_outcome r (\<lambda>repo. Ok (Single_Repository repo)), Path_Matcher_Resolver sp cache'))
           | Fail e \<Rightarrow> (Fail e, cr)
           | Panic \<Rightarrow> (Panic, cr)))"

text \<open>\<open>GetComponentVersionRepositoryForSpecification\<close> of either.\<close>

definition repository_for_specification ::
  "('spec, 'ident, 'cred, 'repo, 'desc, 'w) resolver_env \<Rightarrow> ('spec, 'repo) component_resolver
     \<Rightarrow> 'spec \<Rightarrow> (resolver_error, 'repo) outcome \<times> ('spec, 'repo) component_resolver" where
  "repository_for_specification env cr spec =
     (case cr of
        Fallback_Resolver f \<Rightarrow>
          (case repository_from_cache env (fb_cache f) spec of
             (r, cache) \<Rightarrow> (r, Fallback_Resolver (f\<lparr>fb_cache := cache\<rparr>)))
      | Path_Matcher_Resolver sp cache \<Rightarrow>
          (case repository_from_cache env cache spec of (r, cache') \<Rightarrow> (r, Path_Matcher_Resolver sp cache')))"

end
