(* ===== verification/Resolver_Properties.thy ===== *)
theory Resolver_Properties
  imports Resolvers Versioning_Properties
begin

text \<open>
  What the resolvers promise: the cache of repositories is never seen, a lookup takes the first
  repository in the order of priorities that has the version, the path matcher takes the first
  match, and a base repository catches what nothing else matches.
\<close>

section \<open>The cache\<close>

text \<open>Two specifications with the same canonical form are the same repository.\<close>

definition canonical_keys :: "('spec, 'ident, 'cred, 'repo, 'desc, 'w) resolver_env \<Rightarrow> bool" where
  "canonical_keys env =
     (\<forall>s s' k. rv_canonical env s = Some k \<longrightarrow> rv_canonical env s' = Some k \<longrightarrow>
        open_repository env s = open_repository env s')"

definition cache_faithful ::
  "('spec, 'ident, 'cred, 'repo, 'desc, 'w) resolver_env \<Rightarrow> (string, 'repo) gomap \<Rightarrow> bool" where
  "cache_faithful env cache =
     (\<forall>k r. map_of cache k = Some r \<longrightarrow> (\<exists>s. rv_canonical env s = Some k \<and> open_repository env s = Ok r))"

text \<open>A repository as it is without a cache.\<close>

definition repository_of ::
  "('spec, 'ident, 'cred, 'repo, 'desc, 'w) resolver_env \<Rightarrow> 'spec \<Rightarrow> (resolver_error, 'repo) outcome" where
  "repository_of env s = (case rv_canonical env s of None \<Rightarrow> Fail Canonical_Failed | Some _ \<Rightarrow> open_repository env s)"

lemma cache_faithful_Nil [simp]: "cache_faithful env []"
  by (simp add: cache_faithful_def)

lemma repository_from_cache_spec:
  assumes "canonical_keys env" "cache_faithful env cache"
  shows "\<exists>cache'. repository_from_cache env cache s = (repository_of env s, cache') \<and> cache_faithful env cache'"
proof (cases "rv_canonical env s")
  case (Some k)
  show ?thesis
  proof (cases "map_of cache k")
    case None
    then show ?thesis
      using Some assms(2)
      by (cases "open_repository env s")
         (auto simp: repository_from_cache_def repository_of_def cache_faithful_def)
  next
    case (Some r)
    with assms(2) obtain s' where "rv_canonical env s' = Some k" "open_repository env s' = Ok r"
      unfolding cache_faithful_def by blast
    with assms(1) \<open>rv_canonical env s = Some k\<close> have "open_repository env s = Ok r"
      unfolding canonical_keys_def by metis
    with Some \<open>rv_canonical env s = Some k\<close> assms(2) show ?thesis
      by (simp add: repository_from_cache_def repository_of_def)
  qed
qed (use assms(2) in \<open>simp add: repository_from_cache_def repository_of_def\<close>)

section \<open>Lookups\<close>

text \<open>The loop without the cache, over the admitted resolvers; a body that leaves the outside alone.\<close>

fun first_result ::
  "('spec, 'ident, 'cred, 'repo, 'desc, 'w) resolver_env \<Rightarrow> ('spec \<Rightarrow> 'repo \<Rightarrow> (resolver_error, 'a) outcome option)
     \<Rightarrow> 'spec list \<Rightarrow> (resolver_error, 'a) outcome option" where
  "first_result env body [] = None"
| "first_result env body (s # ss) =
     (case repository_of env s of
        Ok repo \<Rightarrow> (case body s repo of Some r \<Rightarrow> Some r | None \<Rightarrow> first_result env body ss)
      | Fail e \<Rightarrow> Some (Fail e)
      | Panic \<Rightarrow> Some Panic)"

definition admitted :: "string \<Rightarrow> 'spec fallback_resolver list \<Rightarrow> 'spec list" where
  "admitted component rs = map fr_repository (filter (\<lambda>r. prefix_admits (fr_prefix r) component) rs)"

lemma visit_first_result:
  assumes "canonical_keys env"
  shows "cache_faithful env cache \<Longrightarrow>
    \<exists>cache'. visit_repositories env component (\<lambda>s repo w. (body s repo w, w)) rs cache w
       = (first_result env (\<lambda>s repo. body s repo w) (admitted component rs), cache', w) \<and> cache_faithful env cache'"
proof (induction rs arbitrary: cache)
  case (Cons r rs)
  show ?case
  proof (cases "prefix_admits (fr_prefix r) component")
    case True
    from repository_from_cache_spec[OF assms Cons.prems, of "fr_repository r"] obtain cache1 where
      c: "repository_from_cache env cache (fr_repository r) = (repository_of env (fr_repository r), cache1)"
      "cache_faithful env cache1" by blast
    show ?thesis
    proof (cases "repository_of env (fr_repository r)")
      case (Ok repo)
      with c True Cons.IH[OF c(2)] show ?thesis
        by (cases "body (fr_repository r) repo w") (auto simp: admitted_def)
    qed (use c True in \<open>auto simp: admitted_def\<close>)
  qed (use Cons in \<open>simp add: admitted_def\<close>)
qed (simp add: admitted_def)

lemma fallback_get_version_eq:
  assumes "canonical_keys env" "cache_faithful env (fb_cache f)"
  shows "fst (fallback_get_version env f component version w) =
    (case first_result env (\<lambda>_ repo. unless_missing (rv_get env repo component version w))
            (admitted component (fb_resolvers f)) of
       None \<Rightarrow> Fail Not_In_Any_Repository | Some r \<Rightarrow> r)"
  using visit_first_result[OF assms, of component
      "\<lambda>_ repo w. unless_missing (rv_get env repo component version w)" "fb_resolvers f" w]
  by (auto simp: fallback_get_version_def finish_visit_def split: option.splits)

lemma fallback_specification_eq:
  assumes "canonical_keys env" "cache_faithful env (fb_cache f)"
  shows "fst (fallback_specification env f component version w) =
    (case first_result env (\<lambda>s repo. unless_missing (bind_outcome (rv_get env repo component version w) (\<lambda>_. Ok s)))
            (admitted component (fb_resolvers f)) of
       None \<Rightarrow> Fail Not_In_Any_Repository | Some r \<Rightarrow> r)"
  using visit_first_result[OF assms, of component
      "\<lambda>s repo w. unless_missing (bind_outcome (rv_get env repo component version w) (\<lambda>_. Ok s))" "fb_resolvers f" w]
  by (auto simp: fallback_specification_def finish_visit_def split: option.splits)

text \<open>The version is missing there.\<close>

definition reports_missing ::
  "('spec, 'ident, 'cred, 'repo, 'desc, 'w) resolver_env \<Rightarrow> string \<Rightarrow> string \<Rightarrow> 'w \<Rightarrow> 'spec \<Rightarrow> bool" where
  "reports_missing env component version w s =
     (\<exists>repo. repository_of env s = Ok repo \<and> rv_get env repo component version w = Fail Version_Not_Found)"

lemma unless_missing_None_iff: "unless_missing r = None \<longleftrightarrow> r = Fail Version_Not_Found"
  by (simp add: unless_missing_def split: outcome.split repo_error.split)

lemma unless_missing_Ok_iff: "unless_missing r = Some (Ok x) \<longleftrightarrow> r = Ok x"
  by (simp add: unless_missing_def split: outcome.split repo_error.split)

lemmas unless_missing_simps = unless_missing_None_iff unless_missing_Ok_iff

lemma bind_missing: "bind_outcome r (\<lambda>_. Ok s) = Fail e \<longleftrightarrow> r = Fail e"
  by (cases r) auto

lemma split_Cons_iff:
  "(\<exists>before t after repo. s # ss = before @ t # after \<and> P before \<and> Q t repo) \<longleftrightarrow>
     (\<exists>repo. P [] \<and> Q s repo) \<or> (\<exists>before t after repo. ss = before @ t # after \<and> P (s # before) \<and> Q t repo)"
  (is "?l \<longleftrightarrow> ?r")
proof
  assume ?l
  then obtain before t after repo where l: "s # ss = before @ t # after" "P before" "Q t repo" by blast
  then show ?r by (cases before) auto
next
  assume ?r
  then show ?l by (metis append_Cons append_Nil)
qed

lemma first_result_Some_Ok:
  assumes "\<And>s repo. body s repo = None \<longleftrightarrow> rv_get env repo component version w = Fail Version_Not_Found"
  shows "first_result env body ss = Some (Ok x) \<longleftrightarrow>
    (\<exists>before s after repo. ss = before @ s # after \<and> list_all (reports_missing env component version w) before \<and>
       repository_of env s = Ok repo \<and> body s repo = Some (Ok x))"
proof (induction ss)
  case (Cons s ss)
  note split = split_Cons_iff[where s = s and ss = ss]
  show ?case
  proof (cases "repository_of env s")
    case (Ok repo)
    show ?thesis
    proof (cases "body s repo")
      case None
      then have "reports_missing env component version w s"
        using Ok assms by (simp add: reports_missing_def)
      with Ok None Cons.IH show ?thesis
        using split[of "list_all (reports_missing env component version w)"
            "\<lambda>t repo. repository_of env t = Ok repo \<and> body t repo = Some (Ok x)"] by auto
    next
      case (Some r)
      then have "\<not> reports_missing env component version w s"
        using Ok assms[of s repo] by (auto simp: reports_missing_def)
      with Ok Some show ?thesis
        using split[of "list_all (reports_missing env component version w)"
            "\<lambda>t repo. repository_of env t = Ok repo \<and> body t repo = Some (Ok x)"] by auto
    qed
  next
    case (Fail e)
    then have "\<not> reports_missing env component version w s" by (simp add: reports_missing_def)
    with Fail show ?thesis
      using split[of "list_all (reports_missing env component version w)"
          "\<lambda>t repo. repository_of env t = Ok repo \<and> body t repo = Some (Ok x)"] by auto
  next
    case Panic
    then have "\<not> reports_missing env component version w s" by (simp add: reports_missing_def)
    with Panic show ?thesis
      using split[of "list_all (reports_missing env component version w)"
          "\<lambda>t repo. repository_of env t = Ok repo \<and> body t repo = Some (Ok x)"] by auto
  qed
qed simp

lemma get_version_found_iff:
  assumes "canonical_keys env" "cache_faithful env (fb_cache f)"
  shows "fst (fallback_get_version env f component version w) = Ok d \<longleftrightarrow>
      (\<exists>before s after repo. admitted component (fb_resolvers f) = before @ s # after \<and>
         list_all (reports_missing env component version w) before \<and>
         repository_of env s = Ok repo \<and> rv_get env repo component version w = Ok d)"
proof -
  have "(fst (fallback_get_version env f component version w) = Ok d) =
      (first_result env (\<lambda>_ repo. unless_missing (rv_get env repo component version w))
         (admitted component (fb_resolvers f)) = Some (Ok d))"
    by (auto simp: fallback_get_version_eq[OF assms] split: option.splits)
  also have "\<dots> = (\<exists>before s after repo. admitted component (fb_resolvers f) = before @ s # after \<and>
         list_all (reports_missing env component version w) before \<and>
         repository_of env s = Ok repo \<and> rv_get env repo component version w = Ok d)"
    by (subst first_result_Some_Ok) (simp_all add: unless_missing_simps)
  finally show ?thesis .
qed

text \<open>C37: The fallback repository takes the first hit. A component version is found exactly when, among the
  resolvers whose prefix admits the component and in their order, some repository has it and every
  one before reports it missing; the answer is what that repository holds. The order is by falling
  priority, and the configured order within one priority. The cache has no influence as long as it
  is faithful, as every lookup keeps it: each entry is what opening a specification with its key
  yields, and specifications with the same canonical form open the same repository.\<close>

theorem fallback_finds_first:
  assumes "canonical_keys env" "cache_faithful env (fb_cache f)"
  shows "(fst (fallback_get_version env f component version w) = Ok d) =
      (\<exists>before s after repo. admitted component (fb_resolvers f) = before @ s # after \<and>
         list_all (reports_missing env component version w) before \<and>
         repository_of env s = Ok repo \<and> rv_get env repo component version w = Ok d) \<and>
    sorted (map (\<lambda>r. - fr_priority r) (fb_resolvers (new_fallback_repository rs))) \<and>
    (\<forall>p. filter (\<lambda>r. fr_priority r = p) (fb_resolvers (new_fallback_repository rs)) = filter (\<lambda>r. fr_priority r = p) rs)"
  using get_version_found_iff[OF assms, of component version w d] sort_key_stable[of "\<lambda>r. - fr_priority r" "- p" rs for p]
  by (auto simp: new_fallback_repository_def)

text \<open>The specification that is reported is the one the version comes from.\<close>

lemma specification_is_source:
  assumes "canonical_keys env" "cache_faithful env (fb_cache f)"
    "fst (fallback_specification env f component version w) = Ok s"
  shows "\<exists>repo d. repository_of env s = Ok repo \<and> rv_get env repo component version w = Ok d \<and>
    fst (fallback_get_version env f component version w) = Ok d"
proof -
  from assms(3) have "first_result env
      (\<lambda>s repo. unless_missing (bind_outcome (rv_get env repo component version w) (\<lambda>_. Ok s)))
      (admitted component (fb_resolvers f)) = Some (Ok s)"
    by (auto simp: fallback_specification_eq[OF assms(1,2)] split: option.splits)
  then obtain before t after repo where h: "admitted component (fb_resolvers f) = before @ t # after"
    "list_all (reports_missing env component version w) before" "repository_of env t = Ok repo"
    "unless_missing (bind_outcome (rv_get env repo component version w) (\<lambda>_. Ok t)) = Some (Ok s)"
    by (subst (asm) first_result_Some_Ok) (auto simp: unless_missing_simps bind_missing)
  then obtain d where "rv_get env repo component version w = Ok d" "t = s"
    by (auto simp: unless_missing_simps bind_outcome_Ok_iff)
  with h get_version_found_iff[OF assms(1,2), of component version w d] show ?thesis by blast
qed

text \<open>C39: A version that is nowhere is not reported as not found. When every admitted repository can be opened
  and answers with the error that \<open>repository.ErrNotFound\<close> identifies, the fallback repository fails
  with an error that it does not identify. Each entry of the cache is what opening a specification
  with its key yields, and specifications with the same canonical form open the same repository.\<close>

theorem missing_version_not_reported:
  assumes "canonical_keys env" "cache_faithful env (fb_cache f)"
    "list_all (reports_missing env component version w) (admitted component (fb_resolvers f))"
  shows "\<exists>e. fst (fallback_get_version env f component version w) = Fail e \<and> \<not> is_not_found e"
proof -
  have "first_result env (\<lambda>_ repo. unless_missing (rv_get env repo component version w)) ss = None"
    if "list_all (reports_missing env component version w) ss" for ss
    using that by (induction ss) (auto simp: reports_missing_def unless_missing_def)
  from this[OF assms(3)] show ?thesis by (simp add: fallback_get_version_eq[OF assms(1,2)])
qed

section \<open>The path matcher\<close>

lemma first_accepting_append:
  "first_accepting sv reg (xs @ ys) component version =
     (if list_ex (\<lambda>cr. resolver_accepts sv reg cr component version) xs
      then first_accepting sv reg xs component version
      else first_accepting sv reg ys component version)"
  by (induction xs) auto

lemma first_accepting_same:
  "list_all (\<lambda>cr. pr_repository (cr_resolver cr) = s) xs \<Longrightarrow>
   list_ex (\<lambda>cr. resolver_accepts sv reg cr component version) xs \<Longrightarrow>
   first_accepting sv reg xs component version = Ok s"
  by (induction xs) auto

lemma compile_resolvers_append:
  "compile_resolvers sv glob reg i (xs @ ys) = Ok cs \<longleftrightarrow>
     (\<exists>cx cy. compile_resolvers sv glob reg i xs = Ok cx \<and>
        compile_resolvers sv glob reg (i + length xs) ys = Ok cy \<and> cs = cx @ cy)"
proof (induction xs arbitrary: i cs)
  case (Cons x xs)
  show ?case
    by (auto simp: Let_def bind_outcome_Ok_iff Cons.IH split: option.splits)
qed simp

text \<open>The pattern of a resolver, as it is compiled, matches a component.\<close>

definition pattern_matches :: "(string \<Rightarrow> (string \<Rightarrow> bool) option) \<Rightarrow> string \<Rightarrow> string \<Rightarrow> bool" where
  "pattern_matches glob p component =
     (case glob (if trim_space p = [] then ''*'' else trim_space p) of Some g \<Rightarrow> g component | None \<Rightarrow> False)"

abbreviation unconstrained :: "'spec \<Rightarrow> string \<Rightarrow> 'spec path_resolver" where
  "unconstrained s p \<equiv> \<lparr>pr_repository = s, pr_pattern = p, pr_constraint = []\<rparr>"

lemma compiled_patterns:
  "compile_resolvers sv glob reg i (map (unconstrained s) ps) = Ok cs \<Longrightarrow>
   list_all (\<lambda>cr. pr_repository (cr_resolver cr) = s) cs \<and>
   list_ex (\<lambda>cr. resolver_accepts sv reg' cr component version) cs = list_ex (\<lambda>p. pattern_matches glob p component) ps"
proof (induction ps arbitrary: i cs)
  case (Cons p ps)
  let ?text = "if trim_space p = [] then ''*'' else trim_space p"
  from Cons.prems obtain g cs' where g: "glob ?text = Some g" and
    cs: "compile_resolvers sv glob reg (Suc i) (map (unconstrained s) ps) = Ok cs'"
    "cs = \<lparr>cr_resolver = unconstrained s p, cr_match = g\<rparr> # cs'"
    by (cases "glob ?text") (auto simp: Let_def bind_outcome_Ok_iff)
  have "resolver_accepts sv reg' \<lparr>cr_resolver = unconstrained s p, cr_match = g\<rparr> component version = g component"
    by (simp add: resolver_accepts_def)
  moreover have "pattern_matches glob p component = g component"
    using g by (simp only: pattern_matches_def option.case)
  ultimately show ?case using Cons.IH[OF cs(1)] cs(2) by simp
qed simp

lemma trim_star: "trim_space ''*'' = ''*''"
  by code_simp

text \<open>The registry of version schemes that versions are matched with.\<close>

definition options_registry :: "'spec resolver_options \<Rightarrow> registry" where
  "options_registry opts = (case ro_registry opts of None \<Rightarrow> default_registry | Some r \<Rightarrow> r)"

text \<open>C38: The path matcher with a base repository. Every component gets a specification: that of the base
  repository when one of the component patterns matches, whatever is configured, else that of the
  first configured resolver that accepts the component and the version, under the configured registry
  of version schemes or the default one, else that of the base repository.\<close>

theorem path_matcher_precedence:
  assumes "new_resolver sv glob to_raw opts (Some b) = Ok (Some r)" "ro_fallbacks opts = []"
    "to_raw b = Some raw" "glob ''*'' = Some (\<lambda>_. True)"
  shows "\<exists>configured. compile_resolvers sv glob (options_registry opts) (length (ro_component_patterns opts)) (ro_path_matchers opts) = Ok configured \<and>
    fst (specification_for_component sv env r component version w) =
      (if list_ex (\<lambda>p. pattern_matches glob p component) (ro_component_patterns opts) then Ok raw
       else if list_ex (\<lambda>cr. resolver_accepts sv (options_registry opts) cr component version) configured
       then first_accepting sv (options_registry opts) configured component version
       else Ok raw)"
proof -
  let ?reg = "case ro_registry opts of None \<Rightarrow> default_registry | Some r \<Rightarrow> r"
  from assms(1-3) obtain cs where
    c: "compile_resolvers sv glob ?reg 0 (map (unconstrained raw) (ro_component_patterns opts)
          @ ro_path_matchers opts @ map (unconstrained raw) [''*'']) = Ok cs" and
    r: "r = Path_Matcher_Resolver \<lparr>sp_resolvers = cs, sp_registry = ?reg\<rparr> []"
    by (auto simp: new_resolver_def new_path_matcher_provider_def path_matcher_resolvers_def
        new_spec_provider_def bind_outcome_Ok_iff Let_def split: if_splits)
  from c obtain cp cm cb where
    p: "compile_resolvers sv glob ?reg 0 (map (unconstrained raw) (ro_component_patterns opts)) = Ok cp" and
    m: "compile_resolvers sv glob ?reg (length (ro_component_patterns opts)) (ro_path_matchers opts) = Ok cm" and
    b: "compile_resolvers sv glob ?reg (length (ro_component_patterns opts) + length (ro_path_matchers opts))
          (map (unconstrained raw) [''*'']) = Ok cb" and cs: "cs = cp @ cm @ cb"
    unfolding compile_resolvers_append by auto
  note patterns = compiled_patterns[OF p, of ?reg component version]
  note base = compiled_patterns[OF b, of ?reg component version]
  have "list_ex (\<lambda>p. pattern_matches glob p component) [''*'']"
    using assms(4) by (simp add: pattern_matches_def trim_star)
  with base have "first_accepting sv ?reg cb component version = Ok raw"
    by (intro first_accepting_same) simp_all
  moreover have "list_ex (\<lambda>p. pattern_matches glob p component) (ro_component_patterns opts) \<Longrightarrow>
      first_accepting sv ?reg cp component version = Ok raw"
    using patterns by (intro first_accepting_same) simp_all
  ultimately have "fst (specification_for_component sv env r component version w) =
      (if list_ex (\<lambda>p. pattern_matches glob p component) (ro_component_patterns opts) then Ok raw
       else if list_ex (\<lambda>cr. resolver_accepts sv ?reg cr component version) cm
       then first_accepting sv ?reg cm component version
       else Ok raw)"
    using patterns
    by (simp add: r cs specification_for_component_def get_repository_spec_def component_identity_map_def
        first_accepting_append)
  with m show ?thesis by (simp add: options_registry_def)
qed

section \<open>The properties at concrete resolvers\<close>

text \<open>
  Three repositories named by their specifications: \<open>second\<close> holds version 1.0 of every component,
  the others hold nothing. The first two resolvers are tried in the order of their priorities.
\<close>

definition sample_resolver_env :: "(string, unit, unit, string, string, unit) resolver_env" where
  "sample_resolver_env = \<lparr>
     co_identity = (\<lambda>_. None), co_resolve = None, rv_canonical = Some, rv_open = (\<lambda>s _. Some s),
     rv_get = (\<lambda>repo c v _. if repo = ''second'' \<and> v = ''1.0'' then Ok c else Fail Version_Not_Found),
     rv_list = (\<lambda>repo c _. Ok (if repo = ''second'' then [''1.0''] else [])),
     rv_add = (\<lambda>_ _ w. (Ok (), w))\<rparr>"

definition sample_fallbacks :: "string fallback_resolver list" where
  "sample_fallbacks =
     [\<lparr>fr_repository = ''second'', fr_prefix = ''acme.org'', fr_priority = 10\<rparr>,
      \<lparr>fr_repository = ''first'', fr_prefix = [], fr_priority = 20\<rparr>,
      \<lparr>fr_repository = ''third'', fr_prefix = ''other.org'', fr_priority = 30\<rparr>]"

abbreviation sample_fallback :: "(string, string) fallback_repository" where
  "sample_fallback \<equiv> new_fallback_repository sample_fallbacks"

lemma sample_keys: "canonical_keys sample_resolver_env" "cache_faithful sample_resolver_env (fb_cache sample_fallback)"
  by (simp_all add: canonical_keys_def sample_resolver_env_def new_fallback_repository_def)

lemma sample_admitted: "admitted ''acme.org/app'' (fb_resolvers sample_fallback) = [''first'', ''second'']"
  by (simp add: admitted_def new_fallback_repository_def sample_fallbacks_def prefix_admits_def trim_suffix_def
      has_suffix_def has_prefix_def)

lemma sample_missing:
  "reports_missing sample_resolver_env ''acme.org/app'' v () ''first''"
  "reports_missing sample_resolver_env ''acme.org/app'' ''2.0'' () ''second''"
  by (simp_all add: reports_missing_def repository_of_def open_repository_def sample_resolver_env_def)

theorem fallback_finds_first_witness:
  "fst (fallback_get_version sample_resolver_env sample_fallback ''acme.org/app'' ''1.0'' ()) = Ok ''acme.org/app''"
proof -
  have "admitted ''acme.org/app'' (fb_resolvers sample_fallback) = [''first''] @ ''second'' # []"
    by (simp add: sample_admitted)
  moreover have "repository_of sample_resolver_env ''second'' = Ok ''second''"
    "rv_get sample_resolver_env ''second'' ''acme.org/app'' ''1.0'' () = Ok ''acme.org/app''"
    by (simp_all add: repository_of_def open_repository_def sample_resolver_env_def)
  moreover have "list_all (reports_missing sample_resolver_env ''acme.org/app'' ''1.0'' ()) [''first'']"
    by (simp add: sample_missing)
  ultimately show ?thesis
    using fallback_finds_first[OF sample_keys, of "''acme.org/app''" "''1.0''" "()" "''acme.org/app''" sample_fallbacks]
    by blast
qed

theorem missing_version_not_reported_witness:
  "\<exists>e. fst (fallback_get_version sample_resolver_env sample_fallback ''acme.org/app'' ''2.0'' ()) = Fail e
     \<and> \<not> is_not_found e"
  by (rule missing_version_not_reported[OF sample_keys]) (simp add: sample_admitted sample_missing)

definition sample_glob :: "string \<Rightarrow> (string \<Rightarrow> bool) option" where
  "sample_glob p = Some (\<lambda>c. p = ''*'' \<or> c = p)"

definition sample_options :: "string resolver_options" where
  "sample_options = \<lparr>
     ro_has_provider = True,
     ro_path_matchers = [\<lparr>pr_repository = ''configured'', pr_pattern = ''acme.org/lib'', pr_constraint = []\<rparr>],
     ro_fallbacks = [], ro_component_patterns = [''acme.org/app''], ro_registry = None\<rparr>"

definition sample_path_provider :: "string spec_provider" where
  "sample_path_provider = \<lparr>
     sp_resolvers =
       [\<lparr>cr_resolver = unconstrained ''base'' ''acme.org/app'', cr_match = (\<lambda>c. c = ''acme.org/app'')\<rparr>,
        \<lparr>cr_resolver = unconstrained ''configured'' ''acme.org/lib'', cr_match = (\<lambda>c. c = ''acme.org/lib'')\<rparr>,
        \<lparr>cr_resolver = unconstrained ''base'' ''*'', cr_match = (\<lambda>_. True)\<rparr>],
     sp_registry = default_registry\<rparr>"

lemma sample_resolver:
  "new_resolver int_semver sample_glob Some sample_options (Some ''base'')
     = Ok (Some (Path_Matcher_Resolver sample_path_provider ([] :: (string, string) gomap)))"
proof -
  have "trim_space ''acme.org/app'' = ''acme.org/app''" "trim_space ''acme.org/lib'' = ''acme.org/lib''"
    by code_simp+
  then show ?thesis
    by (simp add: new_resolver_def new_path_matcher_provider_def path_matcher_resolvers_def new_spec_provider_def
        sample_options_def sample_path_provider_def sample_glob_def trim_star Let_def)
qed

theorem path_matcher_precedence_witness:
  "fst (specification_for_component int_semver sample_resolver_env
          (Path_Matcher_Resolver sample_path_provider []) ''acme.org/app'' ''1.0'' ()) = Ok ''base''"
proof -
  have star: "sample_glob ''*'' = Some (\<lambda>_. True)" by (simp add: sample_glob_def)
  have "pattern_matches sample_glob ''acme.org/app'' ''acme.org/app''"
    by (simp add: pattern_matches_def sample_glob_def) code_simp
  then have "list_ex (\<lambda>p. pattern_matches sample_glob p ''acme.org/app'') (ro_component_patterns sample_options)"
    by (simp add: sample_options_def)
  moreover have "ro_fallbacks sample_options = []" by (simp add: sample_options_def)
  ultimately show ?thesis
    using path_matcher_precedence[OF sample_resolver _ refl star,
        of sample_resolver_env "''acme.org/app''" "''1.0''" "()"] by auto
qed

end
