(* ===== verification/Oci_Repository.thy ===== *)
theory Oci_Repository
  imports Ctf_Store Versioning Descriptor_Convert
begin

text \<open>
  Component versions in an OCI repository: \<open>bindings/go/oci/repository.go\<close>, \<open>store_descriptor.go\<close>,
  \<open>pin.go\<close> and the lister (\<open>internal/lister\<close>, \<open>internal/validate\<close>). A descriptor is a layer of an image
  manifest, found through the config of the manifest; local blobs are further layers, or manifests
  next to it in an image index; the version is a tag.

  A store is the record of its operations on a state \<open>'w\<close> of the outside; the archive of
  \<open>Ctf_Store\<close> is one. JSON, YAML and tar codecs, digests and the resolver are fields of an environment.
  The platform of a descriptor, the fields \<open>schemaVersion\<close> and \<open>mediaType\<close> of documents, which are
  constants, and the size limit of a descriptor in a tar archive are left out; text after the first
  document, which the listing tolerates and the reading does not, is not told apart.
\<close>

section \<open>Stores\<close>

text \<open>
  \<open>os_resolve_blob\<close> is the resolver of the blob store where the store has one of its own, else
  \<open>os_resolve\<close>; the last three operations are optional interfaces.
\<close>

record 'w oci_store =
  os_resolve :: "'w \<Rightarrow> string \<Rightarrow> (store_error, oci_descriptor) outcome"
  os_resolve_blob :: "'w \<Rightarrow> string \<Rightarrow> (store_error, oci_descriptor) outcome"
  os_fetch :: "'w \<Rightarrow> oci_descriptor \<Rightarrow> (store_error, string) outcome"
  os_exists :: "'w \<Rightarrow> oci_descriptor \<Rightarrow> (store_error, bool) outcome"
  os_push :: "'w \<Rightarrow> oci_descriptor \<Rightarrow> string \<Rightarrow> 'w \<times> (store_error, unit) outcome"
  os_tag :: "'w \<Rightarrow> oci_descriptor \<Rightarrow> string \<Rightarrow> 'w \<times> (store_error, unit) outcome"
  os_untag :: "('w \<Rightarrow> string \<Rightarrow> 'w \<times> (store_error, unit) outcome) option"
  os_tags :: "('w \<Rightarrow> (store_error, string list) outcome) option"
  os_referrers :: "('w \<Rightarrow> oci_descriptor \<Rightarrow> string \<Rightarrow> (store_error, oci_descriptor list) outcome) option"

definition new_state :: "'w \<Rightarrow> ('e, 'w) outcome \<Rightarrow> 'w \<times> ('e, unit) outcome" where
  "new_state w r = (case r of Ok w' \<Rightarrow> (w', Ok ()) | Fail e \<Rightarrow> (w, Fail e) | Panic \<Rightarrow> (w, Panic))"

text \<open>A repository of an archive as a store.\<close>

definition ctf_store :: "oci_env \<Rightarrow> string \<Rightarrow> archive oci_store" where
  "ctf_store env repo = \<lparr>
     os_resolve = (\<lambda>ar. resolve_reference env repo ar), os_resolve_blob = (\<lambda>ar. resolve_reference env repo ar),
     os_fetch = fetch_blob env, os_exists = (\<lambda>ar d. Ok (blob_exists ar d)),
     os_push = push env repo, os_tag = (\<lambda>ar d reference. new_state ar (tag_descriptor env repo ar d reference)),
     os_untag = Some (\<lambda>ar reference. new_state ar (untag env repo ar reference)),
     os_tags = Some (\<lambda>ar. Ok (case tags repo ar of None \<Rightarrow> [] | Some ts \<Rightarrow> ts)),
     os_referrers = Some (referrers env repo)\<rparr>"

section \<open>Documents\<close>

record oci_manifest =
  om_subject :: "oci_descriptor option"
  om_artifact_type :: string
  om_config :: oci_descriptor
  om_layers :: "oci_descriptor list"
  om_annotations :: "(string, string) gomap option"

datatype artifact_kind = Resource_Kind | Source_Kind

text \<open>
  \<open>og_read_index\<close> yields nothing inside for the document \<open>null\<close>; \<open>og_read_config\<close> for a config
  without the layer. \<open>og_untar\<close> lists the files of an archive up to its end or an error.
  \<open>og_local_blob\<close> converts an access to a local blob: the object, its reference and media type.
\<close>

record ('r, 'd, 'w) oci_ops =
  og_reference :: "string \<Rightarrow> string \<Rightarrow> string"
  og_store :: "string \<Rightarrow> 'w oci_store option"
  og_checks :: reference_checks
  og_digest_ok :: "string \<Rightarrow> bool"
  og_digest_of :: "string \<Rightarrow> string"
  og_matches :: "string \<Rightarrow> string \<Rightarrow> bool"
  og_codec :: "('r, 'd) codec"
  og_scheme :: "('r, 'd) scheme"
  og_yaml :: "v2_descriptor \<Rightarrow> string option"
  og_yaml_to_json :: "string \<Rightarrow> string option"
  og_read_yaml :: "string \<Rightarrow> v2_descriptor option"
  og_tar :: "string \<Rightarrow> string \<Rightarrow> string"
  og_untar :: "string \<Rightarrow> (string \<times> string) list"
  og_config :: "oci_descriptor option \<Rightarrow> string option"
  og_read_config :: "string \<Rightarrow> oci_descriptor option option"
  og_manifest :: "oci_manifest \<Rightarrow> string option"
  og_read_manifest :: "string \<Rightarrow> oci_manifest option"
  og_index :: "image_index \<Rightarrow> string option"
  og_read_index :: "string \<Rightarrow> image_index option option"
  og_artifacts :: "(identity \<times> artifact_kind) list \<Rightarrow> string option"
  og_read_artifacts :: "string \<Rightarrow> (identity \<times> artifact_kind) list option"
  og_local_blob :: "('r, 'd) typed_value option \<Rightarrow> (('r, 'd) typed \<times> string \<times> string) option"

record oci_pin =
  pn_component :: string
  pn_version :: string
  pn_digest :: string

record oci_repository =
  rp_author :: string
  rp_tracking :: bool
  rp_encoding :: string
  rp_pin :: "oci_pin option"

datatype oci_error =
  Bad_Version_Tag | No_Store | Store_Failed store_error | Node_Bad_Digest | Node_Size | Node_Digest
| Bad_Document | Empty_Index | Not_An_Image_Manifest | Unsupported_Artifact | No_Descriptor_Layer
| Descriptor_Encoding | Descriptor_Decoding | Bad_Pin | Pin_Not_Found | Pin_Mismatch | Tag_Moved
| Version_Missing oci_error | Alias_Is_Version | Not_A_Component_Version | Bad_Version_Annotation
| Untag_Unsupported | Lister_Unavailable | Comparison_Failed

text \<open>\<open>errors.Is\<close> with ORAS's \<open>errdef.ErrNotFound\<close>, and with \<open>repository.ErrNotFound\<close>.\<close>

fun is_missing :: "oci_error \<Rightarrow> bool" where
  "is_missing (Store_Failed e) = (e = Not_Found)"
| "is_missing Pin_Not_Found = True"
| "is_missing (Version_Missing e) = is_missing e"
| "is_missing _ = False"

fun reports_not_found :: "oci_error \<Rightarrow> bool" where
  "reports_not_found (Version_Missing _) = True"
| "reports_not_found _ = False"

fun from_store :: "(store_error, 'a) outcome \<Rightarrow> (oci_error, 'a) outcome" where
  "from_store (Ok x) = Ok x"
| "from_store (Fail e) = Fail (Store_Failed e)"
| "from_store Panic = Panic"

section \<open>Encoding descriptors\<close>

definition component_descriptor_type :: string where
  "component_descriptor_type = ''application/vnd.ocm.software.component-descriptor.v2''"

definition json_types :: "string list" where
  "json_types = [component_descriptor_type @ ''+json'',
     ''application/vnd.gardener.cloud.cnudie.component-descriptor.v2+json'']"

definition yaml_types :: "string list" where
  "yaml_types = [component_descriptor_type @ ''+yaml'',
     ''application/vnd.gardener.cloud.cnudie.component-descriptor.v2+yaml'']"

definition tar_types :: "string list" where
  "tar_types = [component_descriptor_type @ ''+yaml+tar'',
     ''application/vnd.gardener.cloud.cnudie.component-descriptor.v2+yaml+tar'',
     ''application/vnd.oci.gardener.cloud.cnudie.component-descriptor.config.v2+yaml+tar'']"

definition descriptor_file_name :: string where
  "descriptor_file_name = ''component-descriptor.yaml''"

definition encode_descriptor ::
  "('r, 'd, 'w) oci_ops \<Rightarrow> ('r, 'd) descriptor \<Rightarrow> string \<Rightarrow> (oci_error, string) outcome" where
  "encode_descriptor env desc media =
     (case convert_to_v2 (og_codec env) (og_scheme env) desc of
        Fail _ \<Rightarrow> Fail Descriptor_Encoding
      | Panic \<Rightarrow> Panic
      | Ok v \<Rightarrow>
          (case og_yaml env v of
             None \<Rightarrow> Fail Descriptor_Encoding
           | Some y \<Rightarrow>
               if media \<in> set yaml_types then Ok y
               else if media \<in> set json_types then
                 (case og_yaml_to_json env y of None \<Rightarrow> Fail Descriptor_Encoding | Some j \<Rightarrow> Ok j)
               else if media \<in> set tar_types then Ok (og_tar env descriptor_file_name y)
               else Fail Descriptor_Encoding))"

fun descriptor_file :: "(string \<times> string) list \<Rightarrow> (oci_error, string) outcome" where
  "descriptor_file [] = Fail Descriptor_Decoding"
| "descriptor_file ((name, content) # fs) =
     (if dropWhile (\<lambda>c. c = CHR ''/'') name = descriptor_file_name then Ok content else descriptor_file fs)"

text \<open>\<open>DefaultDescriptorUnmarshalFunc\<close>: a failed validation is only logged.\<close>

definition unmarshal_descriptor ::
  "('r, 'd, 'w) oci_ops \<Rightarrow> string \<Rightarrow> string \<Rightarrow> (oci_error, v2_descriptor) outcome" where
  "unmarshal_descriptor env media raw =
     (if media \<notin> set json_types \<and> media \<notin> set yaml_types then Fail Descriptor_Decoding
      else case og_read_yaml env raw of None \<Rightarrow> Fail Descriptor_Decoding | Some v \<Rightarrow> Ok v)"

definition decode_descriptor ::
  "('r, 'd, 'w) oci_ops \<Rightarrow> string \<Rightarrow> string \<Rightarrow> (oci_error, ('r, 'd) descriptor) outcome" where
  "decode_descriptor env media raw =
     bind_outcome
       (if media \<in> set tar_types then
          bind_outcome (descriptor_file (og_untar env raw)) (unmarshal_descriptor env (yaml_types ! 1))
        else unmarshal_descriptor env media raw)
       (\<lambda>v. case convert_from_v2 (og_codec env) v of
              Ok d \<Rightarrow> Ok d | Fail _ \<Rightarrow> Fail Descriptor_Decoding | Panic \<Rightarrow> Panic)"

section \<open>Reading\<close>

definition fetch_verified ::
  "('r, 'd, 'w) oci_ops \<Rightarrow> 'w oci_store \<Rightarrow> 'w \<Rightarrow> oci_descriptor \<Rightarrow> (oci_error, string) outcome" where
  "fetch_verified env st w d =
     (if \<not> og_digest_ok env (od_digest d) then Fail Node_Bad_Digest
      else bind_outcome (from_store (os_fetch st w d)) (\<lambda>content.
        let got = (if 0 < od_size d then take (nat (od_size d + 1)) content else content)
        in if 0 < od_size d \<and> int (length got) \<noteq> od_size d then Fail Node_Size
           else if \<not> og_matches env (od_digest d) got then Fail Node_Digest
           else Ok got))"

definition decode_manifest :: "('r, 'd, 'w) oci_ops \<Rightarrow> string \<Rightarrow> (oci_error, oci_manifest) outcome" where
  "decode_manifest env raw = (case og_read_manifest env raw of None \<Rightarrow> Fail Bad_Document | Some m \<Rightarrow> Ok m)"

text \<open>\<open>getDescriptorOCIImageManifest\<close>: the index is a pointer, nil after the document \<open>null\<close>.\<close>

definition read_index_manifest ::
  "('r, 'd, 'w) oci_ops \<Rightarrow> 'w oci_store \<Rightarrow> 'w \<Rightarrow> string \<Rightarrow> (oci_error, oci_manifest \<times> image_index option) outcome" where
  "read_index_manifest env st w raw =
     (case og_read_index env raw of
        None \<Rightarrow> Fail Bad_Document
      | Some None \<Rightarrow> Panic
      | Some (Some ix) \<Rightarrow>
          (case ix_manifests ix of
             [] \<Rightarrow> Fail Empty_Index
           | d # _ \<Rightarrow>
               if od_media_type d \<noteq> image_manifest_type then Fail Not_An_Image_Manifest
               else bind_outcome (fetch_verified env st w d) (\<lambda>raw'.
                    bind_outcome (decode_manifest env raw') (\<lambda>m. Ok (m, Some ix)))))"

definition read_manifest ::
  "('r, 'd, 'w) oci_ops \<Rightarrow> 'w oci_store \<Rightarrow> 'w \<Rightarrow> string \<Rightarrow> (oci_error, oci_manifest \<times> image_index option) outcome" where
  "read_manifest env st w reference =
     bind_outcome (from_store (os_resolve st w reference)) (\<lambda>base.
     bind_outcome (fetch_verified env st w (no_descriptor\<lparr>od_media_type := od_media_type base,
         od_digest := od_digest base, od_size := od_size base\<rparr>)) (\<lambda>raw.
       if od_media_type base = image_index_type then read_index_manifest env st w raw
       else if od_media_type base = image_manifest_type
       then bind_outcome (decode_manifest env raw) (\<lambda>m. Ok (m, None))
       else Fail Unsupported_Artifact))"

definition read_descriptor ::
  "('r, 'd, 'w) oci_ops \<Rightarrow> 'w oci_store \<Rightarrow> 'w \<Rightarrow> string
     \<Rightarrow> (oci_error, ('r, 'd) descriptor \<times> oci_manifest \<times> image_index option) outcome" where
  "read_descriptor env st w reference =
     bind_outcome (read_manifest env st w reference) (\<lambda>(m, ix).
     bind_outcome (fetch_verified env st w (om_config m)) (\<lambda>raw.
       case og_read_config env raw of
         None \<Rightarrow> Fail Bad_Document
       | Some None \<Rightarrow> Fail No_Descriptor_Layer
       | Some (Some layer) \<Rightarrow>
           bind_outcome (fetch_verified env st w layer) (\<lambda>content.
           bind_outcome (decode_descriptor env (od_media_type layer) content) (\<lambda>d. Ok (d, m, ix)))))"

definition get_store ::
  "('r, 'd, 'w) oci_ops \<Rightarrow> string \<Rightarrow> string \<Rightarrow> (oci_error, string \<times> 'w oci_store) outcome" where
  "get_store env component version =
     (if \<not> snd (version_to_oci_tag version) then Fail Bad_Version_Tag
      else let reference = og_reference env component version
           in case og_store env reference of None \<Rightarrow> Fail No_Store | Some st \<Rightarrow> Ok (reference, st))"

definition with_digest :: "('r, 'd, 'w) oci_ops \<Rightarrow> string \<Rightarrow> string \<Rightarrow> (oci_error, string) outcome" where
  "with_digest env reference dgst =
     (case parse_reference (og_checks env) reference of
        Ok r \<Rightarrow> Ok (print_reference (og_checks env) (r\<lparr>lr_tag := [], lr_reference := dgst\<rparr>))
      | Fail _ \<Rightarrow> Fail Bad_Pin
      | Panic \<Rightarrow> Panic)"

definition get_pinned_store ::
  "('r, 'd, 'w) oci_ops \<Rightarrow> oci_pin \<Rightarrow> (oci_error, string \<times> 'w oci_store) outcome" where
  "get_pinned_store env pin =
     bind_outcome (with_digest env (og_reference env (pn_component pin) ''latest'') (pn_digest pin)) (\<lambda>reference.
       case og_store env reference of None \<Rightarrow> Fail No_Store | Some st \<Rightarrow> Ok (reference, st))"

definition pin_component_version ::
  "('r, 'd, 'w) oci_ops \<Rightarrow> oci_repository \<Rightarrow> string \<Rightarrow> string \<Rightarrow> string \<Rightarrow> (oci_error, oci_repository) outcome" where
  "pin_component_version env rp component version dgst =
     (if \<not> og_digest_ok env dgst then Fail Bad_Pin
      else Ok (rp\<lparr>rp_pin := Some \<lparr>pn_component = component, pn_version = version, pn_digest = dgst\<rparr>\<rparr>))"

definition resolve_version_digest ::
  "('r, 'd, 'w) oci_ops \<Rightarrow> 'w \<Rightarrow> string \<Rightarrow> string \<Rightarrow> (oci_error, string) outcome" where
  "resolve_version_digest env w component version =
     bind_outcome (get_store env component version) (\<lambda>(reference, st).
     bind_outcome (from_store (os_resolve st w reference)) (\<lambda>d. Ok (od_digest d)))"

record ('r, 'd, 'w) stored_version =
  sv_reference :: string
  sv_store :: "'w oci_store"
  sv_descriptor :: "('r, 'd) descriptor"
  sv_manifest :: oci_manifest
  sv_index :: "image_index option"

definition stored_version_at ::
  "('r, 'd, 'w) oci_ops \<Rightarrow> 'w oci_store \<Rightarrow> 'w \<Rightarrow> string \<Rightarrow> (oci_error, ('r, 'd, 'w) stored_version) outcome" where
  "stored_version_at env st w reference =
     bind_outcome (read_descriptor env st w reference) (\<lambda>(d, m, ix).
       Ok \<lparr>sv_reference = reference, sv_store = st, sv_descriptor = d, sv_manifest = m, sv_index = ix\<rparr>)"

text \<open>The descriptor has the component, and each wanted version that is not empty.\<close>

definition holds_version :: "('r, 'd) descriptor \<Rightarrow> string \<Rightarrow> string list \<Rightarrow> bool" where
  "holds_version d component wanted =
     list_all (\<lambda>v. comp_name (desc_component d) = component \<and> (v = [] \<or> comp_version (desc_component d) = v)) wanted"

definition read_component_version ::
  "('r, 'd, 'w) oci_ops \<Rightarrow> oci_repository \<Rightarrow> 'w \<Rightarrow> string \<Rightarrow> string
     \<Rightarrow> (oci_error, ('r, 'd, 'w) stored_version) outcome" where
  "read_component_version env rp w component version =
     (case rp_pin rp of
        Some pin \<Rightarrow>
          if pn_component pin = component then
            bind_outcome (get_pinned_store env pin) (\<lambda>(reference, st).
              case stored_version_at env st w reference of
                Ok sv \<Rightarrow>
                  if holds_version (sv_descriptor sv) component [pn_version pin, version] then Ok sv else Fail Pin_Mismatch
              | Fail e \<Rightarrow> if is_missing e then Fail Pin_Not_Found else Fail e
              | Panic \<Rightarrow> Panic)
          else bind_outcome (get_store env component version) (\<lambda>(reference, st). stored_version_at env st w reference)
      | None \<Rightarrow>
          bind_outcome (get_store env component version) (\<lambda>(reference, st). stored_version_at env st w reference))"

definition oci_get_version ::
  "('r, 'd, 'w) oci_ops \<Rightarrow> oci_repository \<Rightarrow> 'w \<Rightarrow> string \<Rightarrow> string \<Rightarrow> (oci_error, ('r, 'd) descriptor) outcome" where
  "oci_get_version env rp w component version =
     (case read_component_version env rp w component version of
        Ok sv \<Rightarrow> Ok (sv_descriptor sv)
      | Fail e \<Rightarrow> Fail (if is_missing e then Version_Missing e else e)
      | Panic \<Rightarrow> Panic)"

section \<open>Writing\<close>

text \<open>The component index, to which versions refer as their subject, and ORAS's empty JSON blob.\<close>

definition empty_json :: oci_descriptor where
  "empty_json = \<lparr>od_media_type = ''application/vnd.oci.empty.v1+json'',
     od_digest = ''sha256:44136fa355b3678a1146ad16f7e8649e94fb4fc21fe77e8310c060f61caaff8a'', od_size = 2,
     od_annotations = None, od_artifact_type = []\<rparr>"

definition component_index_type :: string where
  "component_index_type = ''application/vnd.ocm.software.component-index.v1+json''"

definition component_index :: oci_descriptor where
  "component_index = \<lparr>od_media_type = image_manifest_type,
     od_digest = ''sha256:9717cda41c478af11cba7ed29f4aa3e4882bab769d006788169cbccafc0fcd05'', od_size = 837,
     od_annotations = None, od_artifact_type = component_index_type\<rparr>"

definition component_index_manifest :: oci_manifest where
  "component_index_manifest = \<lparr>om_subject = None, om_artifact_type = component_index_type, om_config = empty_json,
     om_layers = [empty_json],
     om_annotations = Some [(''org.opencontainers.image.title'', ''OCM Component Index V1''),
       (''org.opencontainers.image.description'',
        ''This is an OCM component index. It is an empty json'' @
        ''that can be used as referrer for OCM component descriptors. It is used as a subject'' @
        ''for all OCM Component Version Top-Level Manifests and can be used to reference back all'' @
        ''OCM Component Versions'')]\<rparr>"

definition push_node :: "'w oci_store \<Rightarrow> 'w \<Rightarrow> oci_descriptor \<Rightarrow> string \<Rightarrow> 'w \<times> (oci_error, unit) outcome" where
  "push_node st w d content = (case os_push st w d content of (w', r) \<Rightarrow> (w', from_store r))"

definition create_component_index ::
  "('r, 'd, 'w) oci_ops \<Rightarrow> 'w oci_store \<Rightarrow> 'w \<Rightarrow> 'w \<times> (oci_error, unit) outcome" where
  "create_component_index env st w =
     (case (case os_exists st w empty_json of
              Ok b \<Rightarrow> if b then (w, Ok ()) else push_node st w empty_json ''{}''
            | Fail e \<Rightarrow> (w, Fail (Store_Failed e))
            | Panic \<Rightarrow> (w, Panic)) of
        (w1, Ok _) \<Rightarrow>
          (case os_exists st w1 component_index of
             Ok b \<Rightarrow>
               if b then (w1, Ok ())
               else (case og_manifest env component_index_manifest of
                       None \<Rightarrow> (w1, Fail Bad_Document)
                     | Some raw \<Rightarrow> push_node st w1 component_index raw)
           | Fail e \<Rightarrow> (w1, Fail (Store_Failed e))
           | Panic \<Rightarrow> (w1, Panic))
      | r \<Rightarrow> r)"

text \<open>
  A group of concurrent writes: all of them run, here in the order they are started, and the first
  failure is the result.
\<close>

fun run_group ::
  "('w \<Rightarrow> 'w \<times> (oci_error, unit) outcome) list \<Rightarrow> 'w \<Rightarrow> 'w \<times> (oci_error, unit) outcome" where
  "run_group [] w = (w, Ok ())"
| "run_group (f # fs) w =
     (case f w of (w1, r) \<Rightarrow>
        (case run_group fs w1 of (w2, r2) \<Rightarrow> (w2, bind_outcome r (\<lambda>_. r2))))"

definition version_annotation_key :: string where
  "version_annotation_key = ''software.ocm.componentversion''"

definition new_version_annotation :: "string \<Rightarrow> string \<Rightarrow> string" where
  "new_version_annotation component version = component @ '':'' @ version"

definition version_annotations :: "string \<Rightarrow> string \<Rightarrow> string \<Rightarrow> string \<Rightarrow> string \<Rightarrow> (string, string) gomap" where
  "version_annotations component version author title description =
     [(version_annotation_key, new_version_annotation component version),
      (''software.ocm.creator'', author),
      (''org.opencontainers.image.title'', title),
      (''org.opencontainers.image.description'', trim_space description),
      (''org.opencontainers.image.authors'', author),
      (''org.opencontainers.image.url'', ''https://ocm.software''),
      (''org.opencontainers.image.documentation'', ''https://ocm.software''),
      (''org.opencontainers.image.source'', ''https://github.com/open-component-model/open-component-model''),
      (''org.opencontainers.image.version'', version)]"

definition newline :: string where
  "newline = [CHR 0x0A]"

definition descriptor_manifest ::
  "oci_repository \<Rightarrow> string \<Rightarrow> string \<Rightarrow> oci_descriptor \<Rightarrow> oci_descriptor \<Rightarrow> oci_descriptor list \<Rightarrow> oci_manifest" where
  "descriptor_manifest rp component version config layer layers =
     \<lparr>om_subject = (if rp_tracking rp then Some component_index else None),
      om_artifact_type = component_descriptor_type, om_config = config, om_layers = layer # layers,
      om_annotations = Some (version_annotations component version (rp_author rp)
        (''OCM Component Descriptor OCI Artifact Manifest for '' @ component @ '' in version '' @ version)
        (newline @ ''This is an OCM OCI Artifact Manifest that contains the component descriptor for the component ''
           @ component @ ''.'' @ newline
           @ ''It is used to store the component descriptor in an OCI registry and can be referrenced by the official OCM Binding Library.''
           @ newline))\<rparr>"

definition descriptor_index ::
  "oci_repository \<Rightarrow> string \<Rightarrow> string \<Rightarrow> oci_descriptor list \<Rightarrow> image_index" where
  "descriptor_index rp component version ds =
     \<lparr>ix_subject = (if rp_tracking rp then Some component_index else None), ix_artifact_type = [],
      ix_annotations = Some (version_annotations component version (rp_author rp)
        (''OCM Component Descriptor OCI Artifact Manifest Index for '' @ component @ '' in version '' @ version)
        (newline @ ''This is an OCM OCI Artifact Manifest Index that contains the component descriptor manifest for the component ''
           @ component @ ''.'' @ newline
           @ ''It is used to store the component descriptor manifest and other related blob manifests in an OCI registry and can be referrenced by the official OCM Binding Library.''
           @ newline)),
      ix_manifests = ds\<rparr>"

definition node_descriptor :: "('r, 'd, 'w) oci_ops \<Rightarrow> string \<Rightarrow> string \<Rightarrow> oci_descriptor" where
  "node_descriptor env media content =
     \<lparr>od_media_type = media, od_digest = og_digest_of env content, od_size = int (length content),
      od_annotations = None, od_artifact_type = []\<rparr>"

definition config_type :: string where
  "config_type = ''application/vnd.ocm.software.component.config.v1+json''"

text \<open>A write followed by another, which only runs after a success.\<close>

definition and_then_write ::
  "'w \<times> (oci_error, unit) outcome \<Rightarrow> ('w \<Rightarrow> 'w \<times> (oci_error, 'a) outcome) \<Rightarrow> 'w \<times> (oci_error, 'a) outcome" where
  "and_then_write r f =
     (case r of (w, Ok _) \<Rightarrow> f w | (w, Fail e) \<Rightarrow> (w, Fail e) | (w, Panic) \<Rightarrow> (w, Panic))"

definition push_version_manifest ::
  "('r, 'd, 'w) oci_ops \<Rightarrow> oci_repository \<Rightarrow> 'w oci_store \<Rightarrow> string \<Rightarrow> string \<Rightarrow> oci_manifest
     \<Rightarrow> oci_descriptor list \<Rightarrow> 'w \<Rightarrow> 'w \<times> (oci_error, oci_descriptor) outcome" where
  "push_version_manifest env rp st component version m manifests w =
     (case og_manifest env m of
        None \<Rightarrow> (w, Fail Bad_Document)
      | Some raw \<Rightarrow>
          let md = (node_descriptor env image_manifest_type raw)
                \<lparr>od_annotations := om_annotations m, od_artifact_type := om_artifact_type m\<rparr>
          in and_then_write (push_node st w md raw) (\<lambda>w1.
               if manifests = [] then (w1, Ok md)
               else let ix = descriptor_index rp component version (md # manifests)
                    in (case og_index env ix of
                          None \<Rightarrow> (w1, Fail Bad_Document)
                        | Some iraw \<Rightarrow>
                            let xd = (node_descriptor env image_index_type iraw)\<lparr>od_annotations := ix_annotations ix\<rparr>
                            in and_then_write (push_node st w1 xd iraw) (\<lambda>w2. (w2, Ok xd)))))"

text \<open>
  \<open>AddDescriptorToStore\<close>. A failure to encode leaves the creation of the index running, which is
  taken to have ended.
\<close>

definition add_descriptor ::
  "('r, 'd, 'w) oci_ops \<Rightarrow> oci_repository \<Rightarrow> 'w oci_store \<Rightarrow> ('r, 'd) descriptor \<Rightarrow> oci_descriptor list
     \<Rightarrow> oci_descriptor list \<Rightarrow> 'w \<Rightarrow> 'w \<times> (oci_error, oci_descriptor) outcome" where
  "add_descriptor env rp st desc manifests layers w =
     (let component = comp_name (desc_component desc);
          version = comp_version (desc_component desc);
          tracking = (if rp_tracking rp then [create_component_index env st] else []);
          media = (if rp_encoding rp = [] then hd json_types else rp_encoding rp)
      in case encode_descriptor env desc media of
           Fail e \<Rightarrow> (fst (run_group tracking w), Fail e)
         | Panic \<Rightarrow> (fst (run_group tracking w), Panic)
         | Ok raw \<Rightarrow>
             let layer = node_descriptor env media raw;
                 push_layer = (\<lambda>w. push_node st w layer raw)
             in (case og_config env (Some layer) of
                   None \<Rightarrow> (fst (run_group (tracking @ [push_layer]) w), Fail Bad_Document)
                 | Some craw \<Rightarrow>
                     let config = node_descriptor env config_type craw
                     in and_then_write (run_group (tracking @ [push_layer, \<lambda>w. push_node st w config craw]) w)
                          (push_version_manifest env rp st component version
                             (descriptor_manifest rp component version config layer layers) manifests)))"

definition tag_idempotent ::
  "'w oci_store \<Rightarrow> oci_descriptor \<Rightarrow> string \<Rightarrow> 'w \<Rightarrow> 'w \<times> (oci_error, unit) outcome" where
  "tag_idempotent st d reference w =
     (case os_tag st w d reference of
        (w', Ok _) \<Rightarrow> (w', Ok ())
      | (w', Fail e) \<Rightarrow>
          (case os_resolve st w' reference of
             Ok existing \<Rightarrow> if od_digest existing = od_digest d then (w', Ok ()) else (w', Fail (Store_Failed e))
           | Fail _ \<Rightarrow> (w', Fail (Store_Failed e))
           | Panic \<Rightarrow> (w', Panic))
      | (w', Panic) \<Rightarrow> (w', Panic))"

definition check_pinned_tag ::
  "oci_repository \<Rightarrow> 'w oci_store \<Rightarrow> 'w \<Rightarrow> string \<Rightarrow> string \<Rightarrow> (oci_error, unit) outcome" where
  "check_pinned_tag rp st w reference component =
     (case rp_pin rp of
        None \<Rightarrow> Ok ()
      | Some pin \<Rightarrow>
          if pn_component pin \<noteq> component then Ok ()
          else (case os_resolve st w reference of
                  Ok current \<Rightarrow> if od_digest current \<noteq> pn_digest pin then Fail Tag_Moved else Ok ()
                | Fail e \<Rightarrow> if e = Not_Found then Ok () else Fail (Store_Failed e)
                | Panic \<Rightarrow> Panic))"

section \<open>Local blobs\<close>

text \<open>
  The accesses that convert are replaced in the descriptor; with them come the identity and kind
  of the artifact, the reference and the media type of the blob.
\<close>

type_synonym local_artifact = "identity \<times> artifact_kind \<times> string \<times> string"

definition scan_resource ::
  "('r, 'd, 'w) oci_ops \<Rightarrow> ('r, 'd) resource \<Rightarrow> ('r, 'd) resource \<times> local_artifact list" where
  "scan_resource env r =
     (case og_local_blob env (res_access r) of
        None \<Rightarrow> (r, [])
      | Some (t, reference, media) \<Rightarrow>
          (r\<lparr>res_access := Some (ObjPtr t)\<rparr>, [(to_identity r, Resource_Kind, reference, media)]))"

definition scan_source ::
  "('r, 'd, 'w) oci_ops \<Rightarrow> ('r, 'd) source \<Rightarrow> ('r, 'd) source \<times> local_artifact list" where
  "scan_source env s =
     (case og_local_blob env (src_access s) of
        None \<Rightarrow> (s, [])
      | Some (t, reference, media) \<Rightarrow>
          (s\<lparr>src_access := Some (ObjPtr t)\<rparr>, [(to_identity s, Source_Kind, reference, media)]))"

definition scan_local_blobs ::
  "('r, 'd, 'w) oci_ops \<Rightarrow> ('r, 'd) descriptor \<Rightarrow> ('r, 'd) descriptor \<times> local_artifact list" where
  "scan_local_blobs env desc =
     (let c = desc_component desc;
          rs = map_slice (scan_resource env) (comp_resources c);
          ss = map_slice (scan_source env) (comp_sources c)
      in (desc\<lparr>desc_component := c\<lparr>comp_resources := map_slice fst rs, comp_sources := map_slice fst ss\<rparr>\<rparr>,
          concat (map snd (case rs of None \<Rightarrow> [] | Some xs \<Rightarrow> xs))
          @ concat (map snd (case ss of None \<Rightarrow> [] | Some xs \<Rightarrow> xs))))"

definition artifact_annotation_key :: string where
  "artifact_annotation_key = ''software.ocm.artifact''"

definition adopt ::
  "('r, 'd, 'w) oci_ops \<Rightarrow> oci_descriptor \<Rightarrow> identity \<Rightarrow> artifact_kind \<Rightarrow> (oci_error, oci_descriptor) outcome" where
  "adopt env d ident kind =
     (let given = (case od_annotations d of None \<Rightarrow> [] | Some a \<Rightarrow> a)
      in bind_outcome
           (case map_of given artifact_annotation_key of
              None \<Rightarrow> Ok []
            | Some text \<Rightarrow> (case og_read_artifacts env text of None \<Rightarrow> Fail Bad_Document | Some l \<Rightarrow> Ok l))
           (\<lambda>l. case og_artifacts env (l @ [(ident, kind)]) of
                  None \<Rightarrow> Fail Bad_Document
                | Some text \<Rightarrow> Ok (d\<lparr>od_annotations := Some (mput artifact_annotation_key text given)\<rparr>)))"

definition identify_blob ::
  "('r, 'd, 'w) oci_ops \<Rightarrow> 'w oci_store \<Rightarrow> 'w \<Rightarrow> local_artifact \<Rightarrow> (oci_error, oci_descriptor) outcome" where
  "identify_blob env st w a =
     (case a of (ident, kind, reference, media) \<Rightarrow>
        bind_outcome (from_store ((if oci_compliant media then os_resolve st else os_resolve_blob st) w reference)) (\<lambda>d.
          adopt env (if media \<noteq> [] then d\<lparr>od_media_type := media\<rparr> else d) ident kind))"

definition identify_blobs ::
  "('r, 'd, 'w) oci_ops \<Rightarrow> 'w oci_store \<Rightarrow> 'w \<Rightarrow> local_artifact list
     \<Rightarrow> (oci_error, oci_descriptor list \<times> oci_descriptor list) outcome" where
  "identify_blobs env st w as =
     bind_outcome (traverse (identify_blob env st w) as) (\<lambda>ds.
       Ok (filter (\<lambda>d. oci_compliant (od_media_type d)) ds, filter (\<lambda>d. \<not> oci_compliant (od_media_type d)) ds))"

definition oci_add_version ::
  "('r, 'd, 'w) oci_ops \<Rightarrow> oci_repository \<Rightarrow> ('r, 'd) descriptor \<Rightarrow> 'w \<Rightarrow> 'w \<times> (oci_error, unit) outcome" where
  "oci_add_version env rp desc w =
     (let component = comp_name (desc_component desc); version = comp_version (desc_component desc)
      in case bind_outcome (get_store env component version) (\<lambda>(reference, st).
              bind_outcome (check_pinned_tag rp st w reference component) (\<lambda>_.
              case scan_local_blobs env desc of (desc', blobs) \<Rightarrow>
              bind_outcome (identify_blobs env st w blobs) (\<lambda>(manifests, layers).
                Ok (reference, st, desc', manifests, layers)))) of
           Fail e \<Rightarrow> (w, Fail e)
         | Panic \<Rightarrow> (w, Panic)
         | Ok (reference, st, desc', manifests, layers) \<Rightarrow>
             (case add_descriptor env rp st desc' manifests layers w of
                (w1, Ok d) \<Rightarrow> tag_idempotent st d reference w1
              | (w1, Fail e) \<Rightarrow> (w1, Fail e)
              | (w1, Panic) \<Rightarrow> (w1, Panic)))"

section \<open>Component versions among artifacts\<close>

definition strip_component :: "string \<Rightarrow> string" where
  "strip_component s = trim_prefix s component_prefix"

definition parse_version_annotation :: "string \<Rightarrow> (string \<times> string) option" where
  "parse_version_annotation s =
     (case cut_at CHR '':'' (strip_component s) of
        None \<Rightarrow> None
      | Some (c, v) \<Rightarrow> if CHR '':'' \<in> set v \<or> v = [] then None else Some (c, v))"

definition legacy_config_types :: "string list" where
  "legacy_config_types = [config_type, ''application/vnd.gardener.cloud.cnudie.component.config.v1+json'',
     ''application/vnd.oci.gardener.cloud.cnudie.component-descriptor-metadata.config.v2+json'']"

text \<open>\<open>validate.ComponentVersionDescriptor\<close>: the annotations and whether it is an old version.\<close>

definition version_annotations_of ::
  "('r, 'd, 'w) oci_ops \<Rightarrow> 'w oci_store \<Rightarrow> 'w \<Rightarrow> oci_descriptor
     \<Rightarrow> (oci_error, (string, string) gomap option \<times> bool) outcome" where
  "version_annotations_of env st w d =
     (if od_media_type d = image_manifest_type then
        bind_outcome (from_store (os_fetch st w d)) (\<lambda>raw.
        bind_outcome (decode_manifest env raw) (\<lambda>m.
          Ok (om_annotations m, od_media_type (om_config m) \<in> set legacy_config_types)))
      else if od_media_type d = image_index_type then
        bind_outcome (from_store (os_fetch st w d)) (\<lambda>raw.
          case og_read_index env raw of
            None \<Rightarrow> Fail Bad_Document
          | Some None \<Rightarrow> Ok (None, False)
          | Some (Some ix) \<Rightarrow> Ok (ix_annotations ix, False))
      else Fail Not_A_Component_Version)"

definition validate_version ::
  "('r, 'd, 'w) oci_ops \<Rightarrow> 'w oci_store \<Rightarrow> 'w \<Rightarrow> oci_descriptor \<Rightarrow> string \<Rightarrow> string \<Rightarrow> (oci_error, string) outcome" where
  "validate_version env st w d component reference =
     bind_outcome (version_annotations_of env st w d) (\<lambda>(annotations, old).
       case map_of (case annotations of None \<Rightarrow> [] | Some a \<Rightarrow> a) version_annotation_key of
         None \<Rightarrow> if old then Ok reference else Fail Not_A_Component_Version
       | Some text \<Rightarrow>
           (case parse_version_annotation text of
              None \<Rightarrow> Fail Bad_Version_Annotation
            | Some (candidate, version) \<Rightarrow>
                if candidate \<noteq> strip_component component then Fail Not_A_Component_Version else Ok version))"

text \<open>\<open>None\<close> is \<open>lister.ErrSkip\<close>.\<close>

definition tag_version ::
  "('r, 'd, 'w) oci_ops \<Rightarrow> 'w oci_store \<Rightarrow> 'w \<Rightarrow> string \<Rightarrow> string \<Rightarrow> (oci_error, string option) outcome" where
  "tag_version env st w component tag =
     bind_outcome (from_store (os_resolve st w tag)) (\<lambda>d.
       case validate_version env st w d component tag of
         Ok v \<Rightarrow> Ok (Some v)
       | Fail e \<Rightarrow> if e = Not_A_Component_Version then Ok None else Fail e
       | Panic \<Rightarrow> Panic)"

text \<open>The resolver of referrers strips the prefix of the component it captured at every call; here once.\<close>

definition referrer_version :: "string \<Rightarrow> oci_descriptor \<Rightarrow> (oci_error, string option) outcome" where
  "referrer_version component d =
     (case od_annotations d of
        None \<Rightarrow> Ok None
      | Some a \<Rightarrow>
          (case map_of a version_annotation_key of
             None \<Rightarrow> Ok None
           | Some text \<Rightarrow>
               (case parse_version_annotation text of
                  None \<Rightarrow> Fail Bad_Version_Annotation
                | Some (candidate, version) \<Rightarrow> Ok (if candidate \<noteq> strip_component component then None else Some version))))"

text \<open>The versions are collected concurrently; here in the order of the candidates.\<close>

definition kept :: "'a option list \<Rightarrow> 'a list" where
  "kept xs = List.map_filter (\<lambda>x. x) xs"

definition list_via_tags ::
  "('r, 'd, 'w) oci_ops \<Rightarrow> 'w oci_store \<Rightarrow> string \<Rightarrow> 'w \<Rightarrow> (oci_error, string list) outcome" where
  "list_via_tags env st component w =
     (case os_tags st of
        None \<Rightarrow> Fail Lister_Unavailable
      | Some list_tags \<Rightarrow>
          bind_outcome (from_store (list_tags w)) (\<lambda>ts.
          bind_outcome (traverse (tag_version env st w component) ts) (\<lambda>vs. Ok (kept vs))))"

definition list_via_referrers ::
  "'w oci_store \<Rightarrow> string \<Rightarrow> 'w \<Rightarrow> (oci_error, string list) outcome" where
  "list_via_referrers st component w =
     (case os_referrers st of
        None \<Rightarrow> Fail Lister_Unavailable
      | Some refs \<Rightarrow>
          bind_outcome (from_store (refs w component_index component_descriptor_type)) (\<lambda>rs.
          bind_outcome (traverse (referrer_version component) rs) (\<lambda>vs. Ok (kept vs))))"

definition list_unsorted ::
  "('r, 'd, 'w) oci_ops \<Rightarrow> oci_repository \<Rightarrow> 'w oci_store \<Rightarrow> string \<Rightarrow> 'w \<Rightarrow> (oci_error, string list) outcome" where
  "list_unsorted env rp st component w =
     (if rp_tracking rp then
        (case list_via_referrers st component w of
           Ok (v # vs) \<Rightarrow> Ok (v # vs)
         | Panic \<Rightarrow> Panic
         | _ \<Rightarrow> list_via_tags env st component w)
      else list_via_tags env st component w)"

text \<open>Sorted by the loose semver comparator, equal neighbours dropped.\<close>

definition sort_versions :: "'v semver \<Rightarrow> string list \<Rightarrow> (oci_error, string list) outcome" where
  "sort_versions sv candidates =
     (case sort_descending sv default_registry candidates of
        (sorted_vs, Ok _) \<Rightarrow> Ok (remdups_adj sorted_vs)
      | (_, Fail _) \<Rightarrow> Fail Comparison_Failed
      | (_, Panic) \<Rightarrow> Panic)"

definition oci_list_versions ::
  "'v semver \<Rightarrow> ('r, 'd, 'w) oci_ops \<Rightarrow> oci_repository \<Rightarrow> string \<Rightarrow> 'w \<Rightarrow> (oci_error, string list) outcome" where
  "oci_list_versions sv env rp component w =
     bind_outcome (get_store env component ''latest'') (\<lambda>(_, st).
       if os_referrers st = None \<and> os_tags st = None then Fail Lister_Unavailable
       else bind_outcome (list_unsorted env rp st component w) (sort_versions sv))"

section \<open>Aliases\<close>

text \<open>The expression \<open>compref.VersionRegex\<close>.\<close>

definition plain_number :: "string \<Rightarrow> bool" where
  "plain_number s \<longleftrightarrow> s \<noteq> [] \<and> list_all is_digit s \<and> (s = ''0'' \<or> hd s \<noteq> CHR ''0'')"

definition version_char :: "char \<Rightarrow> bool" where
  "version_char c \<longleftrightarrow> (word_char c \<and> c \<noteq> CHR ''_'') \<or> c = CHR ''-''"

definition prerelease_part :: "string \<Rightarrow> bool" where
  "prerelease_part s \<longleftrightarrow> plain_number s \<or> (list_all version_char s \<and> list_ex (\<lambda>c. \<not> is_digit c) s)"

definition build_part :: "string \<Rightarrow> bool" where
  "build_part s \<longleftrightarrow> s \<noteq> [] \<and> list_all version_char s"

definition core_version :: "string \<Rightarrow> bool" where
  "core_version s \<longleftrightarrow> (let parts = split_at CHR ''.'' s in length parts \<le> 3 \<and> list_all plain_number parts)"

definition with_prerelease :: "string \<Rightarrow> bool" where
  "with_prerelease s =
     (case cut_at CHR ''-'' s of
        None \<Rightarrow> core_version s
      | Some (core, pre) \<Rightarrow> core_version core \<and> list_all prerelease_part (split_at CHR ''.'' pre))"

definition is_loose_version :: "string \<Rightarrow> bool" where
  "is_loose_version s =
     (let t = trim_prefix s ''v''
      in case cut_at CHR ''+'' t of
           None \<Rightarrow> with_prerelease t
         | Some (version, build) \<Rightarrow> with_prerelease version \<and> list_all build_part (split_at CHR ''.'' build))"

text \<open>The resolved target of an alias operation, which must be a component version.\<close>

definition alias_target ::
  "('r, 'd, 'w) oci_ops \<Rightarrow> string \<Rightarrow> string \<Rightarrow> 'w \<Rightarrow> (oci_error, oci_descriptor \<times> 'w oci_store) outcome" where
  "alias_target env component version w =
     bind_outcome (get_store env component version) (\<lambda>(reference, st).
       case os_resolve st w reference of
         Fail e \<Rightarrow> Fail (if e = Not_Found then Version_Missing (Store_Failed e) else Store_Failed e)
       | Panic \<Rightarrow> Panic
       | Ok base \<Rightarrow> bind_outcome (validate_version env st w base component reference) (\<lambda>_. Ok (base, st)))"

definition add_alias ::
  "('r, 'd, 'w) oci_ops \<Rightarrow> string \<Rightarrow> string \<Rightarrow> string \<Rightarrow> 'w \<Rightarrow> 'w \<times> (oci_error, unit) outcome" where
  "add_alias env component version alias w =
     (if is_loose_version alias then (w, Fail Alias_Is_Version)
      else (case alias_target env component version w of
              Fail e \<Rightarrow> (w, Fail e)
            | Panic \<Rightarrow> (w, Panic)
            | Ok (base, st) \<Rightarrow> (case os_tag st w base alias of (w', r) \<Rightarrow> (w', from_store r))))"

definition remove_alias ::
  "('r, 'd, 'w) oci_ops \<Rightarrow> string \<Rightarrow> string \<Rightarrow> 'w \<Rightarrow> 'w \<times> (oci_error, unit) outcome" where
  "remove_alias env component alias w =
     (if is_loose_version alias then (w, Fail Alias_Is_Version)
      else (case alias_target env component alias w of
              Fail e \<Rightarrow> (w, Fail e)
            | Panic \<Rightarrow> (w, Panic)
            | Ok (base, st) \<Rightarrow>
                (case os_untag st of
                   None \<Rightarrow> (w, Fail Untag_Unsupported)
                 | Some untag_op \<Rightarrow>
                     (case untag_op w alias of
                        (w', Ok _) \<Rightarrow> (w', Ok ())
                      | (w', Fail e) \<Rightarrow>
                          (w', Fail (if e = Not_Found then Version_Missing (Store_Failed e) else Store_Failed e))
                      | (w', Panic) \<Rightarrow> (w', Panic)))))"

end
