(* ===== verification/Oci_Store.thy ===== *)
theory Oci_Store
  imports Oci_Repository Ctf_Store_Properties
begin

text \<open>
  The contract between the repository of component versions and its store, as a locale; what the
  repository gets from it; and the archive of \<open>Ctf_Store\<close> as a store that keeps it.
\<close>

section \<open>The contract\<close>

text \<open>
  \<open>kind\<close> is the media type of the artifact with a digest, \<open>plain\<close> says that a document has no subject,
  \<open>tag_of\<close> is the tag a reference stands for. \<open>good\<close> is the invariant of the states, and \<open>contents\<close>
  has all that is stored.
\<close>

definition writable_node :: "(string \<Rightarrow> string) \<Rightarrow> (string \<Rightarrow> bool) \<Rightarrow> oci_descriptor \<Rightarrow> string \<Rightarrow> bool" where
  "writable_node kind plain d c =
     (oci_compliant (od_media_type d) \<longrightarrow> od_media_type d = kind (od_digest d) \<and> plain c)"

locale version_store =
  fixes st :: "'w oci_store" and good :: "'w \<Rightarrow> bool" and kind :: "string \<Rightarrow> string"
    and checks :: "string \<Rightarrow> string \<Rightarrow> bool" and plain :: "string \<Rightarrow> bool" and tag_of :: "string \<Rightarrow> string option"
    and contents :: "'w \<Rightarrow> string set"
  assumes fetch_contents: "os_fetch st w d = Ok c \<Longrightarrow> c \<in> contents w"
    and push_contents: "good w \<Longrightarrow> writable_node kind plain d c \<Longrightarrow> os_push st w d c = (w', r) \<Longrightarrow>
      contents w' \<subseteq> insert c (contents w)"
    and fetch_checks: "good w \<Longrightarrow> os_fetch st w d = Ok c \<Longrightarrow> checks (od_digest d) c"
    and fetch_digest: "od_digest d = od_digest e \<Longrightarrow> os_fetch st w d = os_fetch st w e"
    and push_good: "good w \<Longrightarrow> writable_node kind plain d c \<Longrightarrow> os_push st w d c = (w', r) \<Longrightarrow> good w'"
    and push_stored: "good w \<Longrightarrow> writable_node kind plain d c \<Longrightarrow> os_push st w d c = (w', Ok u) \<Longrightarrow> \<exists>b. os_fetch st w' d = Ok b"
    and push_keeps: "good w \<Longrightarrow> writable_node kind plain d c \<Longrightarrow> os_push st w d c = (w', r) \<Longrightarrow>
      os_fetch st w e = Ok b \<Longrightarrow> os_fetch st w' e = Ok b"
    and tag_good: "good w \<Longrightarrow> od_media_type d = kind (od_digest d) \<Longrightarrow> od_media_type d \<noteq> [] \<Longrightarrow>
      os_tag st w d reference = (w', r) \<Longrightarrow> good w'"
    and tag_keeps: "os_tag st w d reference = (w', r) \<Longrightarrow> os_fetch st w' = os_fetch st w"
    and tag_resolves: "good w \<Longrightarrow> od_media_type d = kind (od_digest d) \<Longrightarrow> od_media_type d \<noteq> [] \<Longrightarrow>
      os_tag st w d reference = (w', Ok u) \<Longrightarrow> tag_of reference = Some t \<Longrightarrow>
      \<exists>x. os_resolve st w' reference = Ok x \<and> od_digest x = od_digest d"
    and resolve_tag: "good w \<Longrightarrow> tag_of reference = Some t \<Longrightarrow> tag_of reference' = Some t \<Longrightarrow>
      os_resolve st w reference = os_resolve st w reference'"
    and resolve_good: "good w \<Longrightarrow> tag_of reference = Some t \<Longrightarrow> os_resolve st w reference = Ok x \<Longrightarrow>
      od_media_type x = kind (od_digest x) \<and> od_media_type x \<noteq> [] \<and> (\<exists>c. os_fetch st w x = Ok c \<and> od_size x = int (length c))"
    and resolve_listed: "good w \<Longrightarrow> tag_of reference = Some t \<Longrightarrow> os_resolve st w reference = Ok x \<Longrightarrow>
      os_tags st = Some f \<Longrightarrow> f w = Ok ts \<Longrightarrow> t \<in> set ts"

section \<open>Documents and digests\<close>

definition digest_determines :: "('r, 'd, 'w) oci_ops \<Rightarrow> bool" where
  "digest_determines env = (\<forall>d a b. og_matches env d a \<longrightarrow> og_matches env d b \<longrightarrow> a = b)"

definition annotation_at :: "(string, string) gomap option \<Rightarrow> string \<Rightarrow> string option" where
  "annotation_at a k = map_of (case a of None \<Rightarrow> [] | Some l \<Rightarrow> l) k"

text \<open>
  The digest of content is valid and matches it; a document that is written is read back with its
  config, annotations and manifests, and is plain when it is written without a subject. A config
  has no annotations, so \<open>omitempty\<close> drops none of it.
\<close>

definition documented_ops :: "('r, 'd, 'w) oci_ops \<Rightarrow> (string \<Rightarrow> bool) \<Rightarrow> bool" where
  "documented_ops env plain \<longleftrightarrow>
     (\<forall>b. og_digest_ok env (og_digest_of env b) \<and> og_matches env (og_digest_of env b) b)
     \<and> (\<forall>d b. od_annotations d = None \<longrightarrow> og_config env (Some d) = Some b \<longrightarrow> og_read_config env b = Some (Some d))
     \<and> (\<forall>m b. og_manifest env m = Some b \<longrightarrow> (om_subject m = None \<longrightarrow> plain b) \<and>
          (\<exists>m'. og_read_manifest env b = Some m' \<and> (od_annotations (om_config m) = None \<longrightarrow> om_config m' = om_config m)
             \<and> annotation_at (om_annotations m') = annotation_at (om_annotations m)))
     \<and> (\<forall>ix b. og_index env ix = Some b \<longrightarrow> (ix_subject ix = None \<longrightarrow> plain b) \<and>
          (\<exists>ix'. og_read_index env b = Some (Some ix') \<and> annotation_at (ix_annotations ix') = annotation_at (ix_annotations ix)
             \<and> map referrer_key (ix_manifests ix') = map referrer_key (ix_manifests ix)))"

lemma documented_opsD:
  assumes "documented_ops env plain"
  shows "og_digest_ok env (og_digest_of env b)" "og_matches env (og_digest_of env b) b"
    and "od_annotations d = None \<Longrightarrow> og_config env (Some d) = Some b \<Longrightarrow> og_read_config env b = Some (Some d)"
    and "og_manifest env m = Some b \<Longrightarrow> od_annotations (om_config m) = None \<Longrightarrow>
      (om_subject m = None \<longrightarrow> plain b) \<and> (\<exists>m'. og_read_manifest env b = Some m' \<and> om_config m' = om_config m
             \<and> annotation_at (om_annotations m') = annotation_at (om_annotations m))"
    and "og_index env ix = Some b \<Longrightarrow> (ix_subject ix = None \<longrightarrow> plain b) \<and>
          (\<exists>ix'. og_read_index env b = Some (Some ix') \<and> annotation_at (ix_annotations ix') = annotation_at (ix_annotations ix)
             \<and> map referrer_key (ix_manifests ix') = map referrer_key (ix_manifests ix))"
  using assms unfolding documented_ops_def by blast+

text \<open>Contents no two of which have the same digest, where the digest of a manifest or an index tells its kind.\<close>

definition distinct_contents :: "('r, 'd, 'w) oci_ops \<Rightarrow> (string \<Rightarrow> string) \<Rightarrow> string set \<Rightarrow> bool" where
  "distinct_contents env kind C \<longleftrightarrow>
     (\<forall>b \<in> C. (\<forall>c \<in> C. og_matches env (og_digest_of env b) c \<longrightarrow> c = b)
        \<and> (\<forall>m. og_manifest env m = Some b \<longrightarrow> kind (og_digest_of env b) = image_manifest_type)
        \<and> (\<forall>ix. og_index env ix = Some b \<longrightarrow> kind (og_digest_of env b) = image_index_type))"

definition encoding_of :: "oci_repository \<Rightarrow> string" where
  "encoding_of rp = (if rp_encoding rp = [] then hd json_types else rp_encoding rp)"

text \<open>
  The documents that adding a version writes: the encoded descriptor, its config, the manifest and, if
  there are manifests of local blobs, the index.
\<close>

definition manifest_documents ::
  "('r, 'd, 'w) oci_ops \<Rightarrow> oci_repository \<Rightarrow> string \<Rightarrow> string \<Rightarrow> oci_manifest \<Rightarrow> oci_descriptor list \<Rightarrow> string list" where
  "manifest_documents env rp component version m manifests =
     (case og_manifest env m of
        None \<Rightarrow> []
      | Some raw \<Rightarrow>
          raw # (if manifests = [] then []
            else let md = (node_descriptor env image_manifest_type raw)
                   \<lparr>od_annotations := om_annotations m, od_artifact_type := om_artifact_type m\<rparr>
                 in case og_index env (descriptor_index rp component version (md # manifests)) of
                      None \<Rightarrow> [] | Some iraw \<Rightarrow> [iraw]))"

definition version_documents ::
  "('r, 'd, 'w) oci_ops \<Rightarrow> oci_repository \<Rightarrow> ('r, 'd) descriptor \<Rightarrow> oci_descriptor list \<Rightarrow> oci_descriptor list
     \<Rightarrow> string list" where
  "version_documents env rp desc manifests layers =
     (let component = comp_name (desc_component desc); version = comp_version (desc_component desc)
      in case encode_descriptor env desc (encoding_of rp) of
           Ok raw \<Rightarrow>
             let layer = node_descriptor env (encoding_of rp) raw
             in raw # (case og_config env (Some layer) of
                  None \<Rightarrow> []
                | Some craw \<Rightarrow> craw # manifest_documents env rp component version
                    (descriptor_manifest rp component version (node_descriptor env config_type craw) layer layers) manifests)
         | _ \<Rightarrow> [])"

definition written_documents ::
  "('r, 'd, 'w) oci_ops \<Rightarrow> oci_repository \<Rightarrow> ('r, 'd) descriptor \<Rightarrow> 'w \<Rightarrow> string list" where
  "written_documents env rp desc w =
     (case bind_outcome (get_store env (comp_name (desc_component desc)) (comp_version (desc_component desc)))
             (\<lambda>(reference, st). identify_blobs env st w (snd (scan_local_blobs env desc))) of
        Ok (manifests, layers) \<Rightarrow> version_documents env rp (fst (scan_local_blobs env desc)) manifests layers
      | _ \<Rightarrow> [])"

lemma encoded_not_compliant:
  assumes "encode_descriptor env desc media = Ok raw"
  shows "\<not> oci_compliant media"
proof -
  have "media \<in> set (yaml_types @ json_types @ tar_types)"
    using assms by (auto simp: encode_descriptor_def split: outcome.splits option.splits if_splits)
  moreover have "list_all (\<lambda>m. \<not> oci_compliant m) (yaml_types @ json_types @ tar_types)" by code_simp
  ultimately show ?thesis by (auto simp: list_all_iff)
qed

lemma config_not_compliant: "\<not> oci_compliant config_type"
  by code_simp

lemma fetch_verified_stored:
  assumes "documented_ops env plain" "os_fetch st w d = Ok b" "od_digest d = og_digest_of env b" "od_size d = int (length b)"
  shows "fetch_verified env st w d = Ok b"
  using assms documented_opsD(1,2)[OF assms(1), of b] by (auto simp: fetch_verified_def Let_def)

lemma push_node_eq: "push_node st w d c = (w', r) \<longleftrightarrow> (\<exists>s. os_push st w d c = (w', s) \<and> r = from_store s)"
  by (auto simp: push_node_def split: prod.splits)

lemma from_store_Ok_iff [simp]:
  "from_store r = Ok x \<longleftrightarrow> r = Ok x" "Ok x = from_store r \<longleftrightarrow> r = Ok x"
  by (cases r; auto)+

lemma and_then_write_Ok:
  "and_then_write r f = (w', Ok x) \<longleftrightarrow> (\<exists>w1 u. r = (w1, Ok u) \<and> f w1 = (w', Ok x))"
  by (auto simp: and_then_write_def split: prod.splits outcome.splits)

section \<open>What the repository gets from it\<close>

text \<open>The artifact that \<open>d\<close> describes is stored, with its descriptor encoded as \<open>raw\<close>.\<close>

definition version_stored ::
  "('r, 'd, 'w) oci_ops \<Rightarrow> 'w oci_store \<Rightarrow> 'w \<Rightarrow> oci_descriptor \<Rightarrow> string \<Rightarrow> string \<Rightarrow> string \<Rightarrow> string \<Rightarrow> bool" where
  "version_stored env st w d component version media raw \<longleftrightarrow>
     (\<forall>w' reference x c. os_fetch st w' = os_fetch st w \<longrightarrow> os_resolve st w' reference = Ok x \<longrightarrow>
        od_digest x = od_digest d \<longrightarrow> od_media_type x = od_media_type d \<longrightarrow> os_fetch st w d = Ok c \<longrightarrow>
        od_size x = int (length c) \<longrightarrow>
        (\<exists>m ix. read_descriptor env st w' reference = bind_outcome (decode_descriptor env media raw) (\<lambda>d. Ok (d, m, ix))) \<and>
        (\<exists>a old. version_annotations_of env st w' x = Ok (a, old) \<and>
           annotation_at a version_annotation_key = Some (new_version_annotation component version)))"

lemma manifest_fields:
  "om_config (descriptor_manifest rp component version config layer layers) = config"
  "\<not> rp_tracking rp \<Longrightarrow> om_subject (descriptor_manifest rp component version config layer layers) = None"
  "annotation_at (om_annotations (descriptor_manifest rp component version config layer layers)) version_annotation_key
     = Some (new_version_annotation component version)"
  by (simp_all add: descriptor_manifest_def annotation_at_def version_annotations_def)

lemma index_fields:
  "ix_manifests (descriptor_index rp component version ds) = ds"
  "\<not> rp_tracking rp \<Longrightarrow> ix_subject (descriptor_index rp component version ds) = None"
  "annotation_at (ix_annotations (descriptor_index rp component version ds)) version_annotation_key
     = Some (new_version_annotation component version)"
  by (simp_all add: descriptor_index_def annotation_at_def version_annotations_def)

text \<open>Reading the descriptor once the manifest is known.\<close>

lemma read_descriptor_of_manifest:
  assumes "documented_ops env plain" "read_manifest env st w reference = Ok (m, ix)"
    "om_config m = config" "os_fetch st w config = Ok craw" "config = node_descriptor env config_type craw"
    "og_config env (Some layer) = Some craw" "os_fetch st w layer = Ok raw" "layer = node_descriptor env media raw"
  shows "read_descriptor env st w reference = bind_outcome (decode_descriptor env media raw) (\<lambda>d. Ok (d, m, ix))"
proof -
  have "fetch_verified env st w config = Ok craw" "fetch_verified env st w layer = Ok raw"
    using assms by (auto intro!: fetch_verified_stored[OF assms(1)] simp: node_descriptor_def)
  moreover have "og_read_config env craw = Some (Some layer)"
    using documented_opsD(3)[OF assms(1) _ assms(6)] assms(8) by (simp add: node_descriptor_def)
  moreover have "od_media_type layer = media" using assms(8) by (simp add: node_descriptor_def)
  ultimately show ?thesis using assms(2,3) by (simp add: read_descriptor_def)
qed

text \<open>A descriptor whose content is stored, with its digest and size.\<close>

definition content_node :: "('r, 'd, 'w) oci_ops \<Rightarrow> 'w oci_store \<Rightarrow> 'w \<Rightarrow> oci_descriptor \<Rightarrow> string \<Rightarrow> bool" where
  "content_node env st w x b \<longleftrightarrow> od_digest x = og_digest_of env b \<and> od_size x = int (length b)
     \<and> (\<forall>e. od_digest e = od_digest x \<longrightarrow> os_fetch st w e = Ok b)"

lemma content_node_fetch:
  assumes "documented_ops env plain" "content_node env st w x b"
  shows "fetch_verified env st w x = Ok b"
    "fetch_verified env st w (no_descriptor\<lparr>od_media_type := od_media_type x, od_digest := od_digest x, od_size := od_size x\<rparr>) = Ok b"
  using assms(2) by (auto simp: content_node_def intro!: fetch_verified_stored[OF assms(1)])

lemma media_types_differ: "image_manifest_type \<noteq> image_index_type"
  by (simp add: image_manifest_type_def image_index_type_def)

lemma read_manifest_alone:
  assumes "documented_ops env plain" "os_resolve st w reference = Ok x" "content_node env st w x mraw"
    "od_media_type x = image_manifest_type" "og_read_manifest env mraw = Some m"
  shows "read_manifest env st w reference = Ok (m, None)"
  using assms(2-) content_node_fetch(2)[OF assms(1,3)] media_types_differ
  by (simp add: read_manifest_def decode_manifest_def)

lemma read_manifest_indexed:
  assumes "documented_ops env plain" "os_resolve st w reference = Ok x" "content_node env st w x iraw"
    "od_media_type x = image_index_type" "og_read_index env iraw = Some (Some ix)" "ix_manifests ix = e # es"
    "content_node env st w e mraw" "od_media_type e = image_manifest_type" "og_read_manifest env mraw = Some m"
  shows "read_manifest env st w reference = Ok (m, Some ix)"
  using assms(2-) content_node_fetch(2)[OF assms(1,3)] content_node_fetch(1)[OF assms(1,7)]
  by (simp add: read_manifest_def read_index_manifest_def decode_manifest_def)

lemma annotations_alone:
  "content_node env st w x mraw \<Longrightarrow> od_media_type x = image_manifest_type \<Longrightarrow> og_read_manifest env mraw = Some m \<Longrightarrow>
   \<exists>old. version_annotations_of env st w x = Ok (om_annotations m, old)"
  by (simp add: version_annotations_of_def decode_manifest_def content_node_def)

lemma annotations_indexed:
  "content_node env st w x iraw \<Longrightarrow> od_media_type x = image_index_type \<Longrightarrow> og_read_index env iraw = Some (Some ix) \<Longrightarrow>
   version_annotations_of env st w x = Ok (ix_annotations ix, False)"
  using media_types_differ by (simp add: version_annotations_of_def content_node_def)

lemma fetch_verified_cong: "os_fetch st w' = os_fetch st w \<Longrightarrow> fetch_verified env st w' = fetch_verified env st w"
  by (rule ext) (simp add: fetch_verified_def)

lemma read_descriptor_cong:
  assumes "os_fetch st w' = os_fetch st w" "os_resolve st w' reference' = Ok x" "os_resolve st w reference = Ok y"
    "od_digest x = od_digest y" "od_media_type x = od_media_type y" "od_size x = od_size y"
  shows "read_descriptor env st w' reference' = read_descriptor env st w reference"
proof -
  have "read_index_manifest env st w' raw = read_index_manifest env st w raw" for raw
    by (simp add: read_index_manifest_def fetch_verified_cong[OF assms(1)] split: list.split option.split)
  then have "read_manifest env st w' reference' = read_manifest env st w reference"
    using assms(2-) by (simp add: read_manifest_def fetch_verified_cong[OF assms(1)] cong: if_cong)
  then show ?thesis unfolding read_descriptor_def fetch_verified_cong[OF assms(1)] by (simp only:)
qed

lemma parse_new_annotation:
  assumes "CHR '':'' \<notin> set component" "CHR '':'' \<notin> set version" "version \<noteq> []" "\<not> has_prefix component component_prefix"
  shows "parse_version_annotation (new_version_annotation component version) = Some (component, version)"
proof -
  have "\<not> has_prefix (component @ '':'' @ version) component_prefix"
  proof
    assume "has_prefix (component @ '':'' @ version) component_prefix"
    then obtain t where "component @ '':'' @ version = component_prefix @ t" by (auto simp: has_prefix_iff)
    then obtain us where "component = component_prefix @ us \<or> component @ us = component_prefix \<and> '':'' @ version = us @ t"
      unfolding append_eq_append_conv2 by blast
    moreover have "CHR '':'' \<notin> set component_prefix" by (simp add: component_prefix_def)
    then have "CHR '':'' # list \<noteq> us" if "component @ us = component_prefix" for list
      using that by (metis Un_iff list.set_intros(1) set_append)
    ultimately show False using assms(4) by (cases us) (auto simp: has_prefix_def)
  qed
  then show ?thesis
    using assms by (simp add: parse_version_annotation_def new_version_annotation_def strip_component_def trim_prefix_def cut_at_append)
qed

context version_store
begin

lemma content_nodeI:
  assumes "os_fetch st w d = Ok b" "os_fetch st w' = os_fetch st w" "od_digest d = og_digest_of env b"
    "od_digest x = od_digest d" "od_size x = int (length b)"
  shows "content_node env st w' x b"
proof -
  have "os_fetch st w' e = Ok b" if "od_digest e = od_digest x" for e
    using assms(1) fetch_digest[of e d w] that assms(4) by (simp add: assms(2))
  then show ?thesis using assms(3-5) by (simp add: content_node_def)
qed

lemma node_stored:
  assumes "distinct_contents env kind C" "contents w \<subseteq> C" "b \<in> C" "og_matches env = checks" "good w"
    "writable_node kind plain d b" "od_digest d = og_digest_of env b" "push_node st w d b = (w', Ok u)"
  shows "good w'" "os_fetch st w' d = Ok b" "\<And>e c. os_fetch st w e = Ok c \<Longrightarrow> os_fetch st w' e = Ok c"
    "contents w' \<subseteq> C"
proof -
  from assms(8) obtain v where p: "os_push st w d b = (w', Ok v)" by (auto simp: push_node_eq)
  show g: "good w'" by (rule push_good[OF assms(5,6) p])
  show C: "contents w' \<subseteq> C" using push_contents[OF assms(5,6) p] assms(2,3) by blast
  obtain c where c: "os_fetch st w' d = Ok c" using push_stored[OF assms(5,6) p] ..
  have "og_matches env (og_digest_of env b) c" using fetch_checks[OF g c] assms(4,7) by simp
  moreover have "c \<in> C" using fetch_contents[OF c] C by blast
  ultimately have "c = b" using assms(1,3) unfolding distinct_contents_def by blast
  with c show "os_fetch st w' d = Ok b" by simp
  show "os_fetch st w' e = Ok c" if "os_fetch st w e = Ok c" for e c
    by (rule push_keeps[OF assms(5,6) p that])
qed

lemma distinct_contents_kind:
  assumes "distinct_contents env kind C" "b \<in> C"
  shows "og_manifest env m = Some b \<Longrightarrow> kind (og_digest_of env b) = image_manifest_type"
    "og_index env ix = Some b \<Longrightarrow> kind (og_digest_of env b) = image_index_type"
  using assms unfolding distinct_contents_def by blast+

text \<open>The manifest of a version, alone or at the head of an index.\<close>

lemma pushed_version_stored:
  assumes doc: "documented_ops env plain" "og_matches env = checks" and plain_docs: "\<not> rp_tracking rp"
    and apart: "distinct_contents env kind C" "contents w \<subseteq> C"
    and docs: "set (manifest_documents env rp component version
        (descriptor_manifest rp component version config layer layers) manifests) \<subseteq> C"
    and g: "good w" and l: "os_fetch st w layer = Ok raw" "layer = node_descriptor env media raw"
    and c: "os_fetch st w config = Ok craw" "config = node_descriptor env config_type craw"
      "og_config env (Some layer) = Some craw"
    and p: "push_version_manifest env rp st component version
        (descriptor_manifest rp component version config layer layers) manifests w = (w', Ok d)"
  shows "good w' \<and> od_media_type d = kind (od_digest d) \<and> od_media_type d \<noteq> [] \<and>
    version_stored env st w' d component version media raw"
proof -
  let ?m = "descriptor_manifest rp component version config layer layers"
  let ?note = "\<lambda>a. annotation_at a version_annotation_key = Some (new_version_annotation component version)"
  from p obtain mraw where mraw: "og_manifest env ?m = Some mraw"
    by (auto simp: push_version_manifest_def split: option.splits)
  define md where "md = (node_descriptor env image_manifest_type mraw)
      \<lparr>od_annotations := om_annotations ?m, od_artifact_type := om_artifact_type ?m\<rparr>"
  have md: "od_digest md = og_digest_of env mraw" "od_media_type md = image_manifest_type" "od_size md = int (length mraw)"
    by (simp_all add: md_def node_descriptor_def)
  have mC: "mraw \<in> C" using docs mraw by (simp add: manifest_documents_def)
  have kind_m: "kind (og_digest_of env mraw) = image_manifest_type" by (rule distinct_contents_kind(1)[OF apart(1) mC mraw])
  have "od_annotations (om_config ?m) = None" by (simp add: manifest_fields(1) c(2) node_descriptor_def)
  from documented_opsD(4)[OF doc(1) mraw this] obtain m' where m': "plain mraw" "og_read_manifest env mraw = Some m'"
    "om_config m' = config" "?note (om_annotations m')"
    using manifest_fields(2)[OF plain_docs] by (metis manifest_fields(1,3))
  let ?rest = "\<lambda>w1. if manifests = [] then (w1, Ok md)
       else let ix = descriptor_index rp component version (md # manifests)
            in (case og_index env ix of
                  None \<Rightarrow> (w1, Fail Bad_Document)
                | Some iraw \<Rightarrow>
                    let xd = (node_descriptor env image_index_type iraw)\<lparr>od_annotations := ix_annotations ix\<rparr>
                    in and_then_write (push_node st w1 xd iraw) (\<lambda>w2. (w2, Ok xd)))"
  have "and_then_write (push_node st w md mraw) ?rest = (w', Ok d)"
    using p unfolding push_version_manifest_def mraw option.case Let_def md_def by (simp only:)
  then obtain w1 u where p1: "push_node st w md mraw = (w1, Ok u)" and rest: "?rest w1 = (w', Ok d)"
    unfolding and_then_write_Ok by blast
  have wn: "writable_node kind plain md mraw" using m'(1) kind_m md by (simp add: writable_node_def)
  note s1 = node_stored[OF apart mC doc(2) g wn md(1) p1]
  show ?thesis
  proof (cases "manifests = []")
    case True
    with rest have d: "d = md" "w' = w1" by auto
    have "version_stored env st w1 md component version media raw"
      unfolding version_stored_def
    proof (intro allI impI)
      fix w2 reference x c'
      assume a: "os_fetch st w2 = os_fetch st w1" "os_resolve st w2 reference = Ok x" "od_digest x = od_digest md"
        "od_media_type x = od_media_type md" "os_fetch st w1 md = Ok c'" "od_size x = int (length c')"
      have x: "content_node env st w2 x mraw" "od_media_type x = image_manifest_type"
        using content_nodeI[OF s1(2) a(1) md(1) a(3)] a(4-6) s1(2) md(2) by simp_all
      note rm = read_manifest_alone[OF doc(1) a(2) x m'(2)]
      show "(\<exists>m ix. read_descriptor env st w2 reference = bind_outcome (decode_descriptor env media raw) (\<lambda>d. Ok (d, m, ix))) \<and>
        (\<exists>a old. version_annotations_of env st w2 x = Ok (a, old) \<and> ?note a)"
        using read_descriptor_of_manifest[OF doc(1) rm m'(3) _ c(2,3) _ l(2)] a(1) s1(3)[OF c(1)] s1(3)[OF l(1)]
          annotations_alone[OF x m'(2)] m'(4) by fastforce
    qed
    then show ?thesis using d s1(1) md kind_m by (simp add: image_manifest_type_def)
  next
    case False
    define ix where "ix = descriptor_index rp component version (md # manifests)"
    from rest False obtain iraw v where iraw: "og_index env ix = Some iraw" and
      d: "d = (node_descriptor env image_index_type iraw)\<lparr>od_annotations := ix_annotations ix\<rparr>" and
      p2: "push_node st w1 d iraw = (w', Ok v)"
      by (auto simp: and_then_write_Ok Let_def ix_def[symmetric] split: option.splits)
    have xd: "od_digest d = og_digest_of env iraw" "od_media_type d = image_index_type"
      by (simp_all add: d node_descriptor_def)
    have iC: "iraw \<in> C"
      using docs mraw iraw False by (simp add: manifest_documents_def Let_def ix_def md_def)
    have kind_i: "kind (og_digest_of env iraw) = image_index_type" by (rule distinct_contents_kind(2)[OF apart(1) iC iraw])
    from documented_opsD(5)[OF doc(1) iraw] obtain ix' where ix': "plain iraw" "og_read_index env iraw = Some (Some ix')" "?note (ix_annotations ix')"
      "map referrer_key (ix_manifests ix') = map referrer_key (md # manifests)"
      unfolding ix_def using index_fields(2)[OF plain_docs] by (metis index_fields(1,3))
    have "writable_node kind plain d iraw" using ix'(1) kind_i xd by (simp add: writable_node_def)
    note s2 = node_stored[OF apart(1) s1(4) iC doc(2) s1(1) this xd(1) p2]
    have md_fetch: "os_fetch st w' md = Ok mraw" by (rule s2(3)[OF s1(2)])
    have "version_stored env st w' d component version media raw"
      unfolding version_stored_def
    proof (intro allI impI)
      fix w2 reference x c'
      assume a: "os_fetch st w2 = os_fetch st w'" "os_resolve st w2 reference = Ok x" "od_digest x = od_digest d"
        "od_media_type x = od_media_type d" "os_fetch st w' d = Ok c'" "od_size x = int (length c')"
      have x: "content_node env st w2 x iraw" "od_media_type x = image_index_type"
        using content_nodeI[OF s2(2) a(1) xd(1) a(3)] a(4-6) s2(2) xd(2) by simp_all
      from ix'(4) obtain e es where e: "ix_manifests ix' = e # es" "referrer_key e = referrer_key md"
        by (cases "ix_manifests ix'") auto
      then have e_node: "content_node env st w2 e mraw" "od_media_type e = image_manifest_type"
        using content_nodeI[OF md_fetch a(1) md(1), of e] md(2,3) by (simp_all add: referrer_key_def)
      note rm = read_manifest_indexed[OF doc(1) a(2) x ix'(2) e(1) e_node m'(2)]
      show "(\<exists>m ix. read_descriptor env st w2 reference = bind_outcome (decode_descriptor env media raw) (\<lambda>d. Ok (d, m, ix))) \<and>
        (\<exists>a old. version_annotations_of env st w2 x = Ok (a, old) \<and> ?note a)"
        using read_descriptor_of_manifest[OF doc(1) rm m'(3) _ c(2,3) _ l(2)] a(1) s2(3)[OF s1(3)[OF c(1)]] s2(3)[OF s1(3)[OF l(1)]]
          annotations_indexed[OF x ix'(2)] ix'(3) by fastforce
    qed
    then show ?thesis using s2(1) xd kind_i by (simp add: image_index_type_def)
  qed
qed

lemma add_descriptor_stored:
  assumes doc: "documented_ops env plain" "og_matches env = checks" and plain_docs: "\<not> rp_tracking rp"
    and apart: "distinct_contents env kind C" "contents w \<subseteq> C" "set (version_documents env rp desc manifests layers) \<subseteq> C"
    and g: "good w" and a: "add_descriptor env rp st desc manifests layers w = (w', Ok d)"
  obtains raw where "encode_descriptor env desc (encoding_of rp) = Ok raw" "good w'"
    "od_media_type d = kind (od_digest d)" "od_media_type d \<noteq> []"
    "version_stored env st w' d (comp_name (desc_component desc)) (comp_version (desc_component desc)) (encoding_of rp) raw"
proof -
  let ?media = "encoding_of rp"
  from a plain_docs obtain raw where raw: "encode_descriptor env desc ?media = Ok raw"
    by (auto simp: add_descriptor_def Let_def encoding_of_def split: outcome.splits)
  define layer where "layer = node_descriptor env ?media raw"
  from a plain_docs raw obtain craw where craw: "og_config env (Some layer) = Some craw"
    by (auto simp: add_descriptor_def Let_def encoding_of_def[symmetric] layer_def split: option.splits)
  define config where "config = node_descriptor env config_type craw"
  from a plain_docs raw craw obtain w2 u where group:
    "run_group [\<lambda>w. push_node st w layer raw, \<lambda>w. push_node st w config craw] w = (w2, Ok u)" and
    rest: "push_version_manifest env rp st (comp_name (desc_component desc)) (comp_version (desc_component desc))
       (descriptor_manifest rp (comp_name (desc_component desc)) (comp_version (desc_component desc)) config layer layers)
       manifests w2 = (w', Ok d)"
    by (auto simp: add_descriptor_def Let_def encoding_of_def[symmetric] layer_def config_def and_then_write_Ok)
  from group obtain w1 v v' where p: "push_node st w layer raw = (w1, Ok v)" "push_node st w1 config craw = (w2, Ok v')"
    by (auto simp: bind_outcome_Ok_iff split: prod.splits)
  have nodes: "writable_node kind plain layer raw" "writable_node kind plain config craw"
    "od_digest layer = og_digest_of env raw" "od_digest config = og_digest_of env craw"
    using encoded_not_compliant[OF raw] config_not_compliant
    by (simp_all add: writable_node_def layer_def config_def node_descriptor_def)
  have docs: "raw \<in> C" "craw \<in> C" "set (manifest_documents env rp (comp_name (desc_component desc)) (comp_version (desc_component desc))
      (descriptor_manifest rp (comp_name (desc_component desc)) (comp_version (desc_component desc)) config layer layers) manifests) \<subseteq> C"
    using apart(3) raw craw by (auto simp: version_documents_def Let_def layer_def config_def)
  note s1 = node_stored[OF apart(1,2) docs(1) doc(2) g nodes(1,3) p(1)]
  note s2 = node_stored[OF apart(1) s1(4) docs(2) doc(2) s1(1) nodes(2,4) p(2)]
  from pushed_version_stored[OF doc plain_docs apart(1) s2(4) docs(3) s2(1) s2(3)[OF s1(2)] layer_def s2(2) config_def craw rest]
  show thesis using that[OF raw] by blast
qed

lemma tag_idempotent_good:
  assumes "good w" "od_media_type d = kind (od_digest d)" "od_media_type d \<noteq> []"
    "tag_idempotent st d reference w = (w', Ok u)" "tag_of reference = Some t"
  obtains x c where "good w'" "os_fetch st w' = os_fetch st w" "os_resolve st w' reference = Ok x" "od_digest x = od_digest d"
    "od_media_type x = od_media_type d" "os_fetch st w d = Ok c" "od_size x = int (length c)"
proof -
  obtain r where r: "os_tag st w d reference = (w', r)"
    using assms(4) by (cases "os_tag st w d reference") (auto simp: tag_idempotent_def split: outcome.splits if_splits)
  have g: "good w'" by (rule tag_good[OF assms(1-3) r])
  have "\<exists>x. os_resolve st w' reference = Ok x \<and> od_digest x = od_digest d"
    using assms(4) tag_resolves[OF assms(1-3) _ assms(5)] r
    by (cases r) (auto simp: tag_idempotent_def split: outcome.splits if_splits)
  then obtain x where x: "os_resolve st w' reference = Ok x" "od_digest x = od_digest d" by blast
  with resolve_good[OF g assms(5) x(1)] obtain c where
    c: "od_media_type x = kind (od_digest x)" "os_fetch st w' x = Ok c" "od_size x = int (length c)" by blast
  have "os_fetch st w d = Ok c"
    using c(2) fetch_digest[OF x(2)] by (simp add: tag_keeps[OF r])
  then show thesis using that[OF g tag_keeps[OF r] x] c x(2) assms(2) by simp
qed

text \<open>A version that is added is read back, under its reference and under its bare tag.\<close>

lemma added_version:
  assumes doc: "documented_ops env plain" "og_matches env = checks" and plain_docs: "\<not> rp_tracking rp"
    and apart: "distinct_contents env kind (contents w \<union> set (written_documents env rp desc w))"
    and g: "good w" and store: "get_store env (comp_name (desc_component desc)) (comp_version (desc_component desc)) = Ok (reference, st)"
    and t: "tag_of reference = Some t" and a: "oci_add_version env rp desc w = (w', Ok u)"
  obtains raw x where "encode_descriptor env (fst (scan_local_blobs env desc)) (encoding_of rp) = Ok raw" "good w'"
    "os_resolve st w' reference = Ok x"
    "\<exists>m ix. read_descriptor env st w' reference = bind_outcome (decode_descriptor env (encoding_of rp) raw) (\<lambda>d. Ok (d, m, ix))"
    "\<exists>a old. version_annotations_of env st w' x = Ok (a, old) \<and> annotation_at a version_annotation_key
       = Some (new_version_annotation (comp_name (desc_component desc)) (comp_version (desc_component desc)))"
proof -
  obtain desc' blobs where scan: "scan_local_blobs env desc = (desc', blobs)" by (cases "scan_local_blobs env desc")
  then have same: "comp_name (desc_component desc') = comp_name (desc_component desc)"
    "comp_version (desc_component desc') = comp_version (desc_component desc)"
    by (auto simp: scan_local_blobs_def Let_def)
  from a store scan obtain manifests layers w1 d where
    ids: "identify_blobs env st w blobs = Ok (manifests, layers)" and
    add: "add_descriptor env rp st desc' manifests layers w = (w1, Ok d)" and tag: "tag_idempotent st d reference w1 = (w', Ok u)"
    by (auto simp: oci_add_version_def Let_def bind_outcome_Ok_iff split: outcome.splits prod.splits)
  have docs: "contents w \<subseteq> contents w \<union> set (written_documents env rp desc w)"
    "set (version_documents env rp desc' manifests layers) \<subseteq> contents w \<union> set (written_documents env rp desc w)"
    using store ids scan by (auto simp: written_documents_def)
  from add_descriptor_stored[OF doc plain_docs apart docs g add] obtain raw where
    raw: "encode_descriptor env desc' (encoding_of rp) = Ok raw" "good w1" "od_media_type d = kind (od_digest d)" "od_media_type d \<noteq> []"
    "version_stored env st w1 d (comp_name (desc_component desc)) (comp_version (desc_component desc)) (encoding_of rp) raw"
    unfolding same by metis
  from tag_idempotent_good[OF raw(2-4) tag t] obtain x c where
    x: "good w'" "os_fetch st w' = os_fetch st w1" "os_resolve st w' reference = Ok x" "od_digest x = od_digest d"
    "od_media_type x = od_media_type d" "os_fetch st w1 d = Ok c" "od_size x = int (length c)" by metis
  from raw(5)[unfolded version_stored_def, rule_format, OF x(2-7)] show thesis
    using that[of raw x] raw(1) x(1,3) scan by simp
qed

text \<open>An alias stands for its target.\<close>

lemma alias_reads:
  assumes g: "good w" and a: "add_alias env component version alias w = (w', Ok u)"
    and store: "get_store env component version = Ok (reference, st)" and t: "tag_of reference = Some t"
    and ta: "tag_of alias = Some t'" "tag_of reference' = Some t'"
  shows "read_descriptor env st w' reference' = read_descriptor env st w reference"
proof -
  from a obtain base st' where target: "alias_target env component version w = Ok (base, st')" and
    tag: "os_tag st' w base alias = (w', Ok u)"
    by (auto simp: add_alias_def split: if_splits outcome.splits prod.splits)
  with store have base: "os_resolve st w reference = Ok base" and st': "st' = st"
    by (auto simp: alias_target_def bind_outcome_Ok_iff split: outcome.splits)
  obtain c where c: "od_media_type base = kind (od_digest base)" "od_media_type base \<noteq> []"
    "os_fetch st w base = Ok c" "od_size base = int (length c)"
    using resolve_good[OF g t base] by blast
  note tag = tag[unfolded st']
  have g': "good w'" and keeps: "os_fetch st w' = os_fetch st w"
    using tag_good[OF g c(1,2) tag] tag_keeps[OF tag] by simp_all
  from tag_resolves[OF g c(1,2) tag ta(1)] obtain x where
    x: "os_resolve st w' alias = Ok x" "od_digest x = od_digest base" by blast
  then have y: "os_resolve st w' reference' = Ok x" using resolve_tag[OF g' ta] by simp
  obtain c' where c': "od_media_type x = kind (od_digest x)" "os_fetch st w' x = Ok c'" "od_size x = int (length c')"
    using resolve_good[OF g' ta(2) y] by blast
  have "c' = c" using c(3) c'(2) fetch_digest[OF x(2), of w] by (simp add: keeps)
  with c c' x(2) have "od_media_type x = od_media_type base" "od_size x = od_size base" by simp_all
  with y base x(2) show ?thesis by (intro read_descriptor_cong[OF keeps y base]) simp_all
qed

text \<open>A reference that stands for a version is among the versions listed by tags.\<close>

lemma resolved_version_listed:
  assumes "good w" "tag_of reference = Some t" "tag_of t = Some t" "os_resolve st w reference = Ok x"
    and "version_annotations_of env st w x = Ok (a, old)"
    and "annotation_at a version_annotation_key = Some (new_version_annotation component version)"
    and "CHR '':'' \<notin> set component" "CHR '':'' \<notin> set version" "version \<noteq> []" "\<not> has_prefix component component_prefix"
    and "list_via_tags env st component w = Ok vs"
  shows "version \<in> set vs"
proof -
  have x: "os_resolve st w t = Ok x" using resolve_tag[OF assms(1-3)] assms(4) by simp
  have "parse_version_annotation (new_version_annotation component version) = Some (component, version)"
    by (rule parse_new_annotation[OF assms(7-10)])
  then have "validate_version env st w x component t = Ok version"
    using assms(5,6,10) by (simp add: validate_version_def annotation_at_def strip_component_def trim_prefix_def)
  then have v: "tag_version env st w component t = Ok (Some version)" using x by (simp add: tag_version_def)
  from assms(11) obtain f ts ys where f: "os_tags st = Some f" "f w = Ok ts" and
    ys: "traverse (tag_version env st w component) ts = Ok ys" "vs = kept ys"
    by (auto simp: list_via_tags_def bind_outcome_Ok_iff split: option.splits)
  have "t \<in> set ts" by (rule resolve_listed[OF assms(1,2,4) f])
  with ys(1) v have "Some version \<in> set ys"
    by (fastforce simp: traverse_Ok_iff list_all2_conv_all_nth in_set_conv_nth)
  then show ?thesis by (simp add: ys(2) kept_def map_filter_def image_iff)
      (metis option.sel option.distinct(1))
qed

end

section \<open>The archive\<close>

definition ctf_tag :: "oci_env \<Rightarrow> string \<Rightarrow> string option" where
  "ctf_tag env reference =
     (case artifact_for_reference env [] no_descriptor reference of
        Ok a \<Rightarrow> if am_tag a = [] then None else Some (am_tag a)
      | _ \<Rightarrow> None)"

definition ctf_plain :: "oci_env \<Rightarrow> string \<Rightarrow> bool" where
  "ctf_plain env c \<longleftrightarrow> (\<forall>m. ce_manifest env c = Some m \<longrightarrow> mf_subject m = None)
     \<and> (\<forall>ix. ce_index env c = Some ix \<longrightarrow> ix_subject ix = None)"

definition typed_entry :: "(string \<Rightarrow> string) \<Rightarrow> artifact \<Rightarrow> bool" where
  "typed_entry kind a \<longleftrightarrow> am_media_type a = kind (am_digest a) \<and> am_media_type a \<noteq> []"

definition ctf_good :: "oci_env \<Rightarrow> (string \<Rightarrow> string) \<Rightarrow> archive \<Rightarrow> bool" where
  "ctf_good env kind ar \<longleftrightarrow> documented_env env \<and> store_ok env ar
     \<and> (\<forall>a \<in> set (ar_index ar). typed_entry kind a)"

lemma artifact_any_repository:
  "artifact_for_reference env repo d reference = Ok (entry_for repo t d) \<longleftrightarrow>
   artifact_for_reference env repo' d' reference = Ok (entry_for repo' t d')"
  by (auto simp: artifact_for_reference_def Let_def entry_for_def split: outcome.splits if_splits)

lemma ctf_tag_Some:
  assumes "ctf_tag env reference = Some t"
  shows "artifact_for_reference env repo d reference = Ok (entry_for repo t d) \<and> t \<noteq> []"
proof -
  from assms obtain a where a: "artifact_for_reference env [] no_descriptor reference = Ok a" "am_tag a = t" "t \<noteq> []"
    by (auto simp: ctf_tag_def split: outcome.splits if_splits)
  with artifact_for_reference_entry[OF a(1)] have "artifact_for_reference env [] no_descriptor reference = Ok (entry_for [] t no_descriptor)"
    by (auto simp: entry_for_def)
  with a(3) show ?thesis
    by (simp add: artifact_any_repository[of env repo d reference t "[]" no_descriptor])
qed

lemma media_add_artifact:
  assumes "\<forall>a \<in> set idx. typed_entry kind a" "typed_entry kind e"
  shows "\<forall>a \<in> set (add_artifact e idx). typed_entry kind a"
proof -
  have v: "am_media_type (visited e a) = am_media_type a \<and> am_digest (visited e a) = am_digest a" for a
    by (simp add: visited_def)
  show ?thesis
    by (cases rule: add_artifact_cases[of idx e]) (use assms v in \<open>auto simp: ball_Un typed_entry_def\<close>)
qed

lemma push_plain:
  assumes "ctf_plain env c" "documented_env env"
  shows "push_manifest env repo ar d c = (case save_blob env ar d c of
      Ok ar1 \<Rightarrow> finish_push ar1 (add_artifact (entry_for repo [] d) (ar_index ar1))
    | Fail e \<Rightarrow> (ar, Fail e) | Panic \<Rightarrow> (ar, Panic))"
proof (cases "save_blob env ar d c")
  case (Ok ar1)
  have "snd (referrer_of_push env d c) = None"
    using assms(1) by (auto simp: referrer_of_push_def referrer_from_manifest_def ctf_plain_def split: option.splits)
  moreover have "apply_tag env repo (ar_index ar1) d (od_digest d) = Ok (add_artifact (entry_for repo [] d) (ar_index ar1))"
    using artifact_for_digest[OF assms(2), of d repo] save_blob_Ok[OF Ok] by (simp add: apply_tag_def)
  ultimately show ?thesis
    using Ok by (cases "referrer_of_push env d c") (simp add: push_manifest_def)
qed (simp_all add: push_manifest_def)

text \<open>A push of a plain document saves a blob and may add an entry.\<close>

lemma push_shape:
  assumes "push env repo ar d c = (ar', r)" "writable_node kind (ctf_plain env) d c" "ctf_good env kind ar"
  shows "ctf_good env kind ar' \<and> (\<forall>e b. get_blob env ar e = Ok b \<longrightarrow> get_blob env ar' e = Ok b)
    \<and> (\<forall>u. r = Ok u \<longrightarrow> (\<exists>b. get_blob env ar' (od_digest d) = Ok b))"
proof -
  have doc: "documented_env env" using assms(3) by (simp add: ctf_good_def)
  have ok: "store_ok env ar'" using push_ok[OF doc _ assms(1)] assms(3) by (simp add: ctf_good_def)
  have idx: "\<forall>a \<in> set (ar_index ar). typed_entry kind a" using assms(3) by (simp add: ctf_good_def)
  consider (unchanged) "ar' = ar" "\<forall>u. r \<noteq> Ok u"
    | (saved) ar1 where "save_blob env ar d c = Ok ar1" "ar_blobs ar' = ar_blobs ar1"
        "\<forall>a \<in> set (ar_index ar'). typed_entry kind a"
  proof (cases "oci_compliant (od_media_type d)")
    case False
    show thesis
    proof (cases "save_blob env ar d c")
      case (Ok ar1)
      then have "ar' = ar1" using assms(1) False by (simp add: push_def)
      then show thesis using saved[OF Ok] save_blob_Ok[OF Ok] idx by simp
    qed (use assms(1) False unchanged in \<open>auto simp: push_def\<close>)
  next
    case True
    then have plain: "ctf_plain env c" and media: "od_media_type d = kind (od_digest d)" "od_media_type d \<noteq> []"
      using assms(2) True by (auto simp: writable_node_def oci_compliant_def image_manifest_type_def image_index_type_def)
    show thesis
    proof (cases "save_blob env ar d c")
      case (Ok ar1)
      have "\<forall>a \<in> set (add_artifact (entry_for repo [] d) (ar_index ar1)). typed_entry kind a"
        using save_blob_Ok[OF Ok] idx media by (intro media_add_artifact) (auto simp: entry_for_def typed_entry_def)
      moreover have "ar' = ar \<and> (\<forall>u. r \<noteq> Ok u) \<or> ar_blobs ar' = ar_blobs ar1 \<and>
          (ar_index ar' = ar_index ar1 \<or> ar_index ar' = add_artifact (entry_for repo [] d) (ar_index ar1))"
        using assms(1) True Ok
        by (auto simp: push_def push_plain[OF plain doc] finish_push_def set_index_def split: if_splits)
      ultimately show thesis
        using unchanged saved[OF Ok] idx save_blob_Ok[OF Ok] by metis
    qed (use assms(1) True unchanged in \<open>auto simp: push_def push_plain[OF plain doc] split: if_splits\<close>)
  qed
  then show ?thesis
  proof cases
    case unchanged
    then show ?thesis using assms(3) by simp
  next
    case saved
    then show ?thesis
      using save_blob_get[OF saved(1)] ok doc get_blob_cong[OF saved(2)] by (auto simp: ctf_good_def)
  qed
qed

lemma new_state_eq:
  "new_state w r = (w', r') \<longleftrightarrow> (case r of Ok x \<Rightarrow> w' = x \<and> r' = Ok () | Fail e \<Rightarrow> w' = w \<and> r' = Fail e | Panic \<Rightarrow> w' = w \<and> r' = Panic)"
  by (auto simp: new_state_def split: outcome.splits)

lemma tag_shape:
  assumes "tag_descriptor env repo ar d reference = Ok ar'"
  shows "ar_blobs ar' = ar_blobs ar \<and> (\<exists>t. ar_index ar' = add_artifact (entry_for repo t d) (ar_index ar))"
  using assms by (auto simp: tag_descriptor_def set_index_def bind_outcome_Ok_iff dest!: apply_tag_Ok split: if_splits)

lemma tag_ctf_good:
  assumes "ctf_good env kind ar" "od_media_type d = kind (od_digest d)" "od_media_type d \<noteq> []"
    "tag_descriptor env repo ar d reference = Ok ar'"
  shows "ctf_good env kind ar'"
proof -
  from tag_shape[OF assms(4)] obtain t where "ar_index ar' = add_artifact (entry_for repo t d) (ar_index ar)" by blast
  moreover have "typed_entry kind (entry_for repo t d)"
    using assms(2,3) by (simp add: typed_entry_def entry_for_def)
  ultimately show ?thesis
    using assms(1) tag_descriptor_ok[OF _ _ assms(4)] media_add_artifact[of "ar_index ar" kind "entry_for repo t d"]
    by (simp add: ctf_good_def)
qed

text \<open>A reference that stands for a tag resolves to the first entry with the tag.\<close>

lemma resolve_ctf_tag:
  assumes "ctf_good env kind ar" "ctf_tag env reference = Some t"
  shows "resolve_reference env repo ar reference = (case find (carries repo t) (ar_index ar) of
      Some a \<Rightarrow> bind_outcome (get_blob env ar (am_digest a)) (\<lambda>content.
         Ok (no_descriptor\<lparr>od_media_type := am_media_type a, od_digest := am_digest a, od_size := int (length content)\<rparr>))
    | None \<Rightarrow> Fail Not_Found)"
proof -
  have doc: "documented_env env" and idx: "index_ok env (ar_index ar)"
    using assms(1) by (simp_all add: ctf_good_def store_ok_def)
  note entry = ctf_tag_Some[OF assms(2), of repo no_descriptor]
  have t: "am_tag (entry_for repo t no_descriptor) = t" by (simp add: entry_for_def)
  note key = resolve_key_tag[OF doc entry[THEN conjunct1], unfolded t, OF entry[THEN conjunct2]]
  have "am_media_type a \<noteq> []" if "find (carries repo t) (ar_index ar) = Some a" for a
    using find_SomeD[OF that] assms(1) by (auto simp: ctf_good_def typed_entry_def)
  then show ?thesis
    unfolding resolve_reference_def resolve_in_tag[OF doc idx key] by (simp split: option.split)
qed

lemma resolve_ctf_Ok:
  assumes "ctf_good env kind ar" "ctf_tag env reference = Some t" "resolve_reference env repo ar reference = Ok x"
  obtains a c where "a \<in> set (ar_index ar)" "am_repository a = repo" "am_tag a = t" "t \<noteq> []" "typed_entry kind a"
    "od_digest x = am_digest a" "od_media_type x = am_media_type a" "get_blob env ar (od_digest x) = Ok c"
    "od_size x = int (length c)"
proof -
  from assms(3) obtain a c where a: "find (carries repo t) (ar_index ar) = Some a" "get_blob env ar (am_digest a) = Ok c"
    "x = no_descriptor\<lparr>od_media_type := am_media_type a, od_digest := am_digest a, od_size := int (length c)\<rparr>"
    unfolding resolve_ctf_tag[OF assms(1,2)] by (auto simp: bind_outcome_Ok_iff split: option.splits)
  with find_SomeD[OF a(1)] assms(1) ctf_tag_Some[OF assms(2), of repo no_descriptor] show thesis
    by (intro that[of a c]) (auto simp: carries_def ctf_good_def)
qed

lemma tag_resolves_ctf:
  assumes "ctf_good env kind ar" "od_media_type d = kind (od_digest d)" "od_media_type d \<noteq> []"
    "tag_descriptor env repo ar d reference = Ok ar'" "ctf_tag env reference = Some t"
  shows "\<exists>x. resolve_reference env repo ar' reference = Ok x \<and> od_digest x = od_digest d"
proof -
  have good: "ctf_good env kind ar'" by (rule tag_ctf_good[OF assms(1-4)])
  note entry = ctf_tag_Some[OF assms(5), of repo d]
  note tagged = tag_descriptor_Ok[OF assms(4) entry[THEN conjunct1]]
  from add_artifact_own[of "entry_for repo t d" "ar_index ar"] entry tagged(3) obtain x where
    x: "find (carries repo t) (ar_index ar') = Some x" "am_digest x = od_digest d"
    by (auto simp: entry_for_def)
  moreover obtain c where "get_blob env ar' (od_digest d) = Ok c"
    using blob_exists_digest[of env ar d] tagged(1) assms(1) get_blob_cong[OF tagged(2), of env]
    by (auto simp: ctf_good_def store_ok_def)
  ultimately show ?thesis by (simp add: resolve_ctf_tag[OF good assms(5)])
qed

lemma push_blobs:
  assumes "push env repo ar d c = (ar', r)" "writable_node kind (ctf_plain env) d c" "ctf_good env kind ar"
  shows "snd ` set (ar_blobs ar') \<subseteq> insert c (snd ` set (ar_blobs ar))"
proof -
  have doc: "documented_env env" using assms(3) by (simp add: ctf_good_def)
  have plain: "ctf_plain env c" if "oci_compliant (od_media_type d)" using assms(2) that by (simp add: writable_node_def)
  show ?thesis
  proof (cases "save_blob env ar d c")
    case (Ok ar1)
    have "ar' = ar \<or> ar_blobs ar' = ar_blobs ar1"
      using assms(1) Ok plain push_plain[OF _ doc, of c repo ar d]
      by (auto simp: push_def finish_push_def set_index_def split: if_splits)
    then show ?thesis using save_blob_contents[OF Ok] by (elim disjE) auto
  qed (use assms(1) plain push_plain[OF _ doc, of c repo ar d] in \<open>auto simp: push_def split: if_splits\<close>)
qed

interpretation ctf: version_store "ctf_store env repo" "ctf_good env kind" kind "ce_verifies env" "ctf_plain env" "ctf_tag env"
    "\<lambda>ar. snd ` set (ar_blobs ar)"
  for env repo kind
proof
  show "c \<in> snd ` set (ar_blobs w)" if "os_fetch (ctf_store env repo) w d = Ok c" for w d c
    using that get_blob_contents[of env w "od_digest d" c] by (simp add: ctf_store_def fetch_blob_def)
  show "snd ` set (ar_blobs w') \<subseteq> insert c (snd ` set (ar_blobs w))"
    if "ctf_good env kind w" "writable_node kind (ctf_plain env) d c" "os_push (ctf_store env repo) w d c = (w', r)" for w d c w' r
    using push_blobs[of env repo w d c w' r kind] that by (simp add: ctf_store_def)
  show "ce_verifies env (od_digest d) c"
    if "ctf_good env kind w" "os_fetch (ctf_store env repo) w d = Ok c" for w d c
    using that blobs_ok_get[of env w "od_digest d" c] by (simp add: ctf_good_def store_ok_def ctf_store_def fetch_blob_def)
  show "os_fetch (ctf_store env repo) w d = os_fetch (ctf_store env repo) w e"
    if "od_digest d = od_digest e" for w d e
    using that by (simp add: ctf_store_def fetch_blob_def)
  show "ctf_good env kind w'"
    if "ctf_good env kind w" "writable_node kind (ctf_plain env) d c" "os_push (ctf_store env repo) w d c = (w', r)" for w d c w' r
    using push_shape[of env repo w d c w' r kind] that by (simp add: ctf_store_def)
  show "\<exists>b. os_fetch (ctf_store env repo) w' d = Ok b"
    if "ctf_good env kind w" "writable_node kind (ctf_plain env) d c" "os_push (ctf_store env repo) w d c = (w', Ok u)" for w d c w' u
    using push_shape[of env repo w d c w' "Ok u" kind] that by (auto simp: ctf_store_def fetch_blob_def)
  show "os_fetch (ctf_store env repo) w' e = Ok b"
    if "ctf_good env kind w" "writable_node kind (ctf_plain env) d c" "os_push (ctf_store env repo) w d c = (w', r)"
      "os_fetch (ctf_store env repo) w e = Ok b" for w d c w' r e b
    using push_shape[of env repo w d c w' r kind] that by (simp add: ctf_store_def fetch_blob_def)
  show "ctf_good env kind w'"
    if "ctf_good env kind w" "od_media_type d = kind (od_digest d)" "od_media_type d \<noteq> []"
      "os_tag (ctf_store env repo) w d reference = (w', r)" for w d reference w' r
    using that tag_ctf_good[of env kind w d repo reference] by (auto simp: ctf_store_def new_state_eq split: outcome.splits)
  show "os_fetch (ctf_store env repo) w' = os_fetch (ctf_store env repo) w"
    if "os_tag (ctf_store env repo) w d reference = (w', r)" for w d reference w' r
    using that tag_shape[of env repo w d reference]
    by (auto simp: ctf_store_def new_state_eq fetch_blob_def fun_eq_iff intro: get_blob_cong split: outcome.splits)
  show "\<exists>x. os_resolve (ctf_store env repo) w' reference = Ok x \<and> od_digest x = od_digest d"
    if "ctf_good env kind w" "od_media_type d = kind (od_digest d)" "od_media_type d \<noteq> []"
      "os_tag (ctf_store env repo) w d reference = (w', Ok u)" "ctf_tag env reference = Some t"
    for w d reference w' u t
    using that tag_resolves_ctf[of env kind w d repo reference w' t]
    by (auto simp: ctf_store_def new_state_eq split: outcome.splits)
  show "os_resolve (ctf_store env repo) w reference = os_resolve (ctf_store env repo) w reference'"
    if "ctf_good env kind w" "ctf_tag env reference = Some t" "ctf_tag env reference' = Some t" for w reference reference' t
    using that by (simp add: ctf_store_def resolve_ctf_tag)
  show "od_media_type x = kind (od_digest x) \<and> od_media_type x \<noteq> [] \<and>
      (\<exists>c. os_fetch (ctf_store env repo) w x = Ok c \<and> od_size x = int (length c))"
    if r: "ctf_good env kind w" "ctf_tag env reference = Some t" "os_resolve (ctf_store env repo) w reference = Ok x"
    for w reference t x
  proof -
    from r(3) have "resolve_reference env repo w reference = Ok x" by (simp add: ctf_store_def)
    from resolve_ctf_Ok[OF r(1,2) this] obtain a c where "typed_entry kind a" "od_digest x = am_digest a"
      "od_media_type x = am_media_type a" "get_blob env w (od_digest x) = Ok c" "od_size x = int (length c)" .
    then show ?thesis by (auto simp: ctf_store_def fetch_blob_def typed_entry_def)
  qed
  show "t \<in> set ts"
    if r: "ctf_good env kind w" "ctf_tag env reference = Some t" "os_resolve (ctf_store env repo) w reference = Ok x"
      "os_tags (ctf_store env repo) = Some f" "f w = Ok ts" for w reference t x f ts
  proof -
    from r(3) have "resolve_reference env repo w reference = Ok x" by (simp add: ctf_store_def)
    from resolve_ctf_Ok[OF r(1,2) this] obtain a where "a \<in> set (ar_index w)" "am_repository a = repo" "am_tag a = t" "t \<noteq> []" .
    with r(4,5) show ?thesis by (auto simp: ctf_store_def tags_def split: if_splits)
  qed
qed

end
