(* ===== verification/Oci_Properties.thy ===== *)
theory Oci_Properties
  imports Oci_Store Versioning_Properties Descriptor_Properties
begin

text \<open>
  What the repository of component versions promises. A pinned read depends on nothing but the pin and
  the media type of the artifact. On an archive, through the interpretation \<open>ctf\<close> of the contract
  \<open>version_store\<close>: a version that is added is read back and listed, and an alias reads as its target;
  an alias with a colon can replace a version. The laws are instantiated on a concrete archive.
\<close>

section \<open>Reading by digest\<close>

lemma fetch_verified_Ok:
  "fetch_verified env st w d = Ok a \<Longrightarrow> og_matches env (od_digest d) a"
  by (auto simp: fetch_verified_def bind_outcome_Ok_iff Let_def split: if_splits)

lemma fetch_verified_same:
  assumes "digest_determines env" "fetch_verified env st w d = Ok a"
    "fetch_verified (env\<lparr>og_store := other\<rparr>) st' w' d' = Ok b" "od_digest d = od_digest d'"
  shows "a = b"
proof -
  have "og_matches env (od_digest d') b"
    using fetch_verified_Ok[OF assms(3)] by simp
  with fetch_verified_Ok[OF assms(2)] assms(1,4) show ?thesis
    unfolding digest_determines_def by metis
qed

lemma decode_other_store [simp]:
  "unmarshal_descriptor (env\<lparr>og_store := other\<rparr>) = unmarshal_descriptor env"
  "decode_descriptor (env\<lparr>og_store := other\<rparr>) = decode_descriptor env"
  "decode_manifest (env\<lparr>og_store := other\<rparr>) = decode_manifest env"
proof -
  show u: "unmarshal_descriptor (env\<lparr>og_store := other\<rparr>) = unmarshal_descriptor env"
    by (intro ext) (simp add: unmarshal_descriptor_def)
  show "decode_descriptor (env\<lparr>og_store := other\<rparr>) = decode_descriptor env"
    by (intro ext) (simp add: decode_descriptor_def u)
  show "decode_manifest (env\<lparr>og_store := other\<rparr>) = decode_manifest env"
    by (intro ext) (simp add: decode_manifest_def)
qed

lemma read_manifest_same:
  assumes c: "digest_determines env"
    and r: "os_resolve st w reference = Ok b" "os_resolve st' w' reference' = Ok b'"
      "od_digest b = od_digest b'" "od_media_type b = od_media_type b'"
    and m: "read_manifest env st w reference = Ok x" "read_manifest (env\<lparr>og_store := other\<rparr>) st' w' reference' = Ok y"
  shows "x = y"
proof -
  let ?env' = "env\<lparr>og_store := other\<rparr>"
  let ?base = "\<lambda>b. no_descriptor\<lparr>od_media_type := od_media_type b, od_digest := od_digest b, od_size := od_size b\<rparr>"
  from m r(1,2) obtain raw raw' where f: "fetch_verified env st w (?base b) = Ok raw"
    "fetch_verified ?env' st' w' (?base b') = Ok raw'"
    by (auto simp: read_manifest_def bind_outcome_Ok_iff)
  have eq: "raw' = raw" using fetch_verified_same[OF c f] r(3) by simp
  show ?thesis
  proof (cases "od_media_type b = image_index_type")
    case True
    with m r f eq obtain ix d ds where ix: "og_read_index env raw = Some (Some ix)" "ix_manifests ix = d # ds" and
      x: "read_index_manifest env st w raw = Ok x" "read_index_manifest ?env' st' w' raw = Ok y"
      by (auto simp: read_manifest_def read_index_manifest_def split: option.splits list.splits)
    from x ix obtain n n' where n: "fetch_verified env st w d = Ok n" "fetch_verified ?env' st' w' d = Ok n'"
      by (auto simp: read_index_manifest_def bind_outcome_Ok_iff split: if_splits)
    have "n' = n" using fetch_verified_same[OF c n] by simp
    with x ix n show ?thesis by (auto simp: read_index_manifest_def bind_outcome_Ok_iff split: if_splits)
  next
    case False
    with m r f eq show ?thesis by (auto simp: read_manifest_def bind_outcome_Ok_iff split: if_splits)
  qed
qed

lemma read_descriptor_same:
  assumes "digest_determines env"
    and "os_resolve st w reference = Ok b" "os_resolve st' w' reference' = Ok b'"
      "od_digest b = od_digest b'" "od_media_type b = od_media_type b'"
    and r: "read_descriptor env st w reference = Ok x" "read_descriptor (env\<lparr>og_store := other\<rparr>) st' w' reference' = Ok y"
  shows "x = y"
proof -
  let ?env' = "env\<lparr>og_store := other\<rparr>"
  from r obtain m ix m' ix' where m: "read_manifest env st w reference = Ok (m, ix)"
    "read_manifest ?env' st' w' reference' = Ok (m', ix')"
    by (auto simp: read_descriptor_def bind_outcome_Ok_iff)
  have same: "(m', ix') = (m, ix)" using read_manifest_same[OF assms(1-5) m] by simp
  with r m obtain raw raw' where f: "fetch_verified env st w (om_config m) = Ok raw"
    "fetch_verified ?env' st' w' (om_config m) = Ok raw'"
    by (auto simp: read_descriptor_def bind_outcome_Ok_iff)
  have raw: "raw' = raw" using fetch_verified_same[OF assms(1) f] by simp
  with r m same f obtain layer c c' where l: "og_read_config env raw = Some (Some layer)"
    "fetch_verified env st w layer = Ok c" "fetch_verified ?env' st' w' layer = Ok c'"
    by (auto simp: read_descriptor_def bind_outcome_Ok_iff split: option.splits)
  have "c' = c" using fetch_verified_same[OF assms(1) l(2,3)] by simp
  with r m same f raw l show ?thesis by (auto simp: read_descriptor_def bind_outcome_Ok_iff)
qed

text \<open>A store resolves the reference of an artifact by digest to that digest.\<close>

definition resolves_digest :: "('r, 'd, 'w) oci_ops \<Rightarrow> 'w \<Rightarrow> oci_pin \<Rightarrow> string \<Rightarrow> bool" where
  "resolves_digest env w pin media =
     (\<forall>reference st b. get_pinned_store env pin = Ok (reference, st) \<longrightarrow> os_resolve st w reference = Ok b \<longrightarrow>
        od_digest b = pn_digest pin \<and> od_media_type b = media)"

lemma read_descriptor_resolves:
  "read_descriptor env st w reference = Ok x \<Longrightarrow> \<exists>b. os_resolve st w reference = Ok b"
  by (cases "os_resolve st w reference") (auto simp: read_descriptor_def read_manifest_def)

lemma stored_version_at_Ok:
  "stored_version_at env st w reference = Ok sv \<Longrightarrow>
    read_descriptor env st w reference = Ok (sv_descriptor sv, sv_manifest sv, sv_index sv) \<and>
    sv_reference sv = reference \<and> sv_store sv = st"
  by (auto simp: stored_version_at_def bind_outcome_Ok_iff)

lemma oci_get_version_Ok_iff:
  "oci_get_version env rp w component version = Ok d \<longleftrightarrow>
    (\<exists>sv. read_component_version env rp w component version = Ok sv \<and> sv_descriptor sv = d)"
  by (simp add: oci_get_version_def split: outcome.split)

lemma get_version_pinned:
  assumes "rp_pin rp = Some pin" "oci_get_version env rp w (pn_component pin) version = Ok d"
  obtains reference st m ix where "get_pinned_store env pin = Ok (reference, st)"
    "read_descriptor env st w reference = Ok (d, m, ix)"
    "holds_version d (pn_component pin) [pn_version pin, version]"
proof -
  from assms(2) obtain sv where sv: "read_component_version env rp w (pn_component pin) version = Ok sv"
    "sv_descriptor sv = d" by (auto simp: oci_get_version_Ok_iff)
  with assms(1) obtain reference st where st: "get_pinned_store env pin = Ok (reference, st)"
    by (auto simp: read_component_version_def bind_outcome_Ok_iff)
  have "stored_version_at env st w reference = Ok sv \<and> holds_version d (pn_component pin) [pn_version pin, version]"
  proof (cases "stored_version_at env st w reference")
    case (Ok sv')
    then show ?thesis using sv st assms(1) by (simp add: read_component_version_def split: if_splits)
  qed (use sv(1) st assms(1) in \<open>simp_all add: read_component_version_def split: if_splits\<close>)
  then have "read_descriptor env st w reference = Ok (d, sv_manifest sv, sv_index sv)"
    "holds_version d (pn_component pin) [pn_version pin, version]"
    using stored_version_at_Ok[of env st w reference sv] sv(2) by simp_all
  from that[OF st this] show thesis .
qed

text \<open>C10: A pinned read depends on the pin alone. Two repositories pinned to the same artifact, over
  any stores in any states, return the same descriptor whenever both succeed, provided that digests
  determine content and both stores report the same media type for the artifact; the descriptor has
  the pinned component and the versions asked for.\<close>

theorem pinned_reads_agree:
  assumes "digest_determines env" "rp_pin rp = Some pin" "rp_pin rp' = Some pin"
    "resolves_digest env w pin media" "resolves_digest (env\<lparr>og_store := other\<rparr>) w' pin media"
    "oci_get_version env rp w (pn_component pin) version = Ok d"
    "oci_get_version (env\<lparr>og_store := other\<rparr>) rp' w' (pn_component pin) version' = Ok d'"
  shows "d' = d \<and> comp_name (desc_component d) = pn_component pin \<and>
    (\<forall>v. v \<in> {pn_version pin, version, version'} \<and> v \<noteq> [] \<longrightarrow> comp_version (desc_component d) = v)"
proof -
  obtain reference st m ix where a: "get_pinned_store env pin = Ok (reference, st)"
    "read_descriptor env st w reference = Ok (d, m, ix)" "holds_version d (pn_component pin) [pn_version pin, version]"
    using get_version_pinned[OF assms(2,6)] .
  obtain reference' st' m' ix' where b: "get_pinned_store (env\<lparr>og_store := other\<rparr>) pin = Ok (reference', st')"
    "read_descriptor (env\<lparr>og_store := other\<rparr>) st' w' reference' = Ok (d', m', ix')"
    "holds_version d' (pn_component pin) [pn_version pin, version']"
    using get_version_pinned[OF assms(3,7)] .
  obtain x y where r: "os_resolve st w reference = Ok x" "os_resolve st' w' reference' = Ok y"
    using read_descriptor_resolves a(2) b(2) by metis
  have "(d, m, ix) = (d', m', ix')"
    using assms(4,5) a(1) b(1) r
    by (intro read_descriptor_same[OF assms(1) r _ _ a(2) b(2)]) (auto simp: resolves_digest_def)
  with a(3) b(3) show ?thesis by (auto simp: holds_version_def)
qed

text \<open>A pinned repository leaves a version tag alone that has moved away from the pin.\<close>

lemma moved_tag_kept:
  assumes "rp_pin rp = Some pin" "pn_component pin = comp_name (desc_component desc)"
    "resolve_version_digest env w (pn_component pin) (comp_version (desc_component desc)) = Ok dgst" "dgst \<noteq> pn_digest pin"
  shows "oci_add_version env rp desc w = (w, Fail Tag_Moved)"
proof -
  obtain reference st d where "get_store env (pn_component pin) (comp_version (desc_component desc)) = Ok (reference, st)"
    "os_resolve st w reference = Ok d" "od_digest d = dgst"
    using assms(3) by (auto simp: resolve_version_digest_def bind_outcome_Ok_iff elim: from_store.elims)
  then show ?thesis using assms(1,2,4) by (simp add: oci_add_version_def check_pinned_tag_def)
qed

text \<open>An artifact of the media type of an index with the content \<open>null\<close> is a nil pointer, and reading it
  panics.\<close>

lemma null_index_panics:
  assumes "rp_pin rp = None" "get_store env component version = Ok (reference, st)" "os_resolve st w reference = Ok d"
    "od_media_type d = image_index_type" "og_read_index env raw = Some None"
    "fetch_verified env st w (no_descriptor\<lparr>od_media_type := od_media_type d, od_digest := od_digest d, od_size := od_size d\<rparr>) = Ok raw"
  shows "oci_get_version env rp w component version = Panic"
  using assms(1-5) assms(6)[unfolded assms(4)]
  by (simp add: oci_get_version_def read_component_version_def stored_version_at_def read_descriptor_def
      read_manifest_def read_index_manifest_def)

section \<open>Versions of an archive\<close>

text \<open>The repository of component versions over an archive, as \<open>ctf.Store\<close> resolves references.\<close>

definition archive_backed :: "('r, 'd, archive) oci_ops \<Rightarrow> oci_env \<Rightarrow> bool" where
  "archive_backed env ce \<longleftrightarrow> og_reference env = component_version_reference
     \<and> og_store env = (\<lambda>reference. case store_for_reference ce reference of Ok repo \<Rightarrow> Some (ctf_store ce repo) | _ \<Rightarrow> None)
     \<and> og_checks env = ce_checks ce \<and> og_matches env = ce_verifies ce \<and> rc_tag_ok (ce_checks ce) = tag_matches"

definition version_tag :: "string \<Rightarrow> string" where
  "version_tag version = fst (version_to_oci_tag version)"

lemma tag_no_at: "tag_matches t \<Longrightarrow> CHR ''@'' \<notin> set t"
  by (auto dest!: tag_chars simp: word_char_def)

lemma tagged_reference_parts:
  assumes "parse_reference c (host @ CHR ''/'' # repo @ CHR '':'' # t) = Ok r" "tag_matches t"
    "CHR '':'' \<notin> set host" "CHR ''/'' \<notin> set host" "CHR '':'' \<notin> set repo" "CHR ''@'' \<notin> set repo"
  shows "lr_repository r = repo \<and> lr_reference r = t \<and> lr_tag r = t"
proof -
  let ?s = "host @ CHR ''/'' # repo @ CHR '':'' # t"
  note t = tag_no_slash[OF assms(2)] tag_no_colon[OF assms(2)] tag_no_at[OF assms(2)]
  have colon: "cut_at CHR '':'' ?s = Some (host @ CHR ''/'' # repo, t)"
    using assms(3,5) cut_at_append[of "CHR '':''" "host @ CHR ''/'' # repo" t] by simp
  have "?s \<noteq> a @ CHR '':'' # CHR ''/'' # b" for a b
  proof
    assume s: "?s = a @ CHR '':'' # CHR ''/'' # b"
    show False
    proof (cases "CHR '':'' \<in> set a")
      case True
      then obtain a1 a2 where "a = a1 @ CHR '':'' # a2" "CHR '':'' \<notin> set a1" using split_list_first by fastforce
      with colon[unfolded s] t(2) show False
        using cut_at_append[of "CHR '':''" a1 "a2 @ CHR '':'' # CHR ''/'' # b"] by auto
    next
      case False
      with colon[unfolded s] t(1) show False using cut_at_append[of "CHR '':''" a "CHR ''/'' # b"] by auto
    qed
  qed
  then have "cut_str ''://'' ?s = None" by (simp add: cut_str_None_iff)
  then have "get_scheme ?s = ([], ?s)" by (simp add: get_scheme_def)
  moreover have "split_registry ?s = (False, host, repo @ CHR '':'' # t)"
    using assms(4) by (simp add: split_registry_def cut_at_append)
  moreover have "cut_at CHR ''@'' (repo @ CHR '':'' # t) = None" using assms(6) t(3) by (simp add: cut_at_absent)
  then have "split_path c False (repo @ CHR '':'' # t) = Ok (repo, t, t)"
    using assms(5) t(2) by (simp add: split_path_def cut_at_append)
  ultimately show ?thesis using parse_reference_Ok[OF assms(1)] by auto
qed

definition component_repository :: "string \<Rightarrow> string" where
  "component_repository component = ''component-descriptors/'' @ component"

lemma version_reference_parts:
  assumes "parse_reference c (component_version_reference component version) = Ok r"
    "tag_matches (version_tag version)" "CHR '':'' \<notin> set component" "CHR ''@'' \<notin> set component"
  shows "lr_repository r = component_repository component \<and> lr_reference r = version_tag version
    \<and> lr_tag r = version_tag version"
proof -
  have "component_version_reference component version
      = ''ctf.ocm.software'' @ CHR ''/'' # component_repository component @ CHR '':'' # version_tag version"
    by (simp add: component_version_reference_def component_repository_def version_tag_def)
  then show ?thesis
    using assms by (intro tagged_reference_parts[of c "''ctf.ocm.software''"]) (auto simp: component_repository_def)
qed

lemma archive_store:
  assumes "archive_backed env ce" "get_store env component version = Ok (reference, st)"
    "CHR '':'' \<notin> set component" "CHR ''@'' \<notin> set component"
  shows "reference = component_version_reference component version"
    "st = ctf_store ce (component_repository component)" "ctf_tag ce reference = Some (version_tag version)"
proof -
  from assms(1,2) obtain r where tag: "tag_matches (version_tag version)" and
    ref: "reference = component_version_reference component version" and
    r: "parse_reference (ce_checks ce) reference = Ok r" and st: "st = ctf_store ce (lr_repository r)"
    by (auto simp: get_store_def archive_backed_def store_for_reference_def bind_outcome_Ok_iff Let_def version_tag_def
        version_to_oci_tag_def split: if_splits option.splits outcome.splits)
  note parts = version_reference_parts[OF r[unfolded ref] tag assms(3,4)]
  show "reference = component_version_reference component version" by (rule ref)
  show "st = ctf_store ce (component_repository component)" using st parts by simp
  have "rc_tag_ok (ce_checks ce) (version_tag version)" using assms(1) tag by (simp add: archive_backed_def)
  then show "ctf_tag ce reference = Some (version_tag version)"
    using r parts tag by (auto simp: ctf_tag_def artifact_for_reference_def Let_def entry_for_def tag_matches_def)
qed

lemma plain_ctf_tag:
  assumes "documented_env ce" "rc_tag_ok (ce_checks ce) t"
    "\<And>r. parse_reference (ce_checks ce) t \<noteq> Panic"
  shows "ctf_tag ce t = Some t"
proof -
  note t = documented_tag[OF assms(1,2)]
  have "artifact_for_reference ce [] no_descriptor t = Ok (entry_for [] t no_descriptor)"
  proof (cases "parse_reference (ce_checks ce) t")
    case (Ok r)
    then have "lr_reference r = []" using parse_plain[of t "ce_checks ce" r] t by simp
    then show ?thesis
      using Ok documented_empty[OF assms(1)] assms(2) by (simp add: artifact_for_reference_def Let_def)
  qed (use assms(2,3) in \<open>simp_all add: artifact_for_reference_def Let_def\<close>)
  then show ?thesis using t by (simp add: ctf_tag_def entry_for_def)
qed

section \<open>A version that is added\<close>

lemma bind_outcome_Fail: "bind_outcome r f = Fail e \<longleftrightarrow> r = Fail e \<or> (\<exists>x. r = Ok x \<and> f x = Fail e)"
  by (cases r) auto

lemma decode_failure: "decode_descriptor env media raw = Fail e \<Longrightarrow> e = Descriptor_Decoding"
proof -
  have found: "descriptor_file fs = Fail e \<Longrightarrow> e = Descriptor_Decoding" for fs e
    by (induction fs rule: descriptor_file.induct) (auto split: if_splits)
  have read: "unmarshal_descriptor env m s = Fail e \<Longrightarrow> e = Descriptor_Decoding" for m s e
    by (auto simp: unmarshal_descriptor_def split: if_splits option.splits)
  have convert: "(case r of Ok d \<Rightarrow> Ok d | Fail _ \<Rightarrow> Fail Descriptor_Decoding | Panic \<Rightarrow> Panic) = Fail e
    \<Longrightarrow> e = Descriptor_Decoding" for r :: "(convert_error, ('a, 'b) descriptor) outcome" and e
    by (cases r) simp_all
  assume "decode_descriptor env media raw = Fail e"
  then show "e = Descriptor_Decoding"
    unfolding decode_descriptor_def bind_outcome_Fail
    by (auto simp: bind_outcome_Fail dest: found read convert split: if_splits)
qed

lemma get_unpinned:
  assumes "rp_pin rp = None" "get_store env component version = Ok (reference, st)"
  shows "oci_get_version env rp w component version = (case read_descriptor env st w reference of
      Ok (d, m, ix) \<Rightarrow> Ok d | Fail e \<Rightarrow> Fail (if is_missing e then Version_Missing e else e) | Panic \<Rightarrow> Panic)"
  using assms
  by (simp add: oci_get_version_def read_component_version_def stored_version_at_def split: outcome.split prod.split)

lemma added_store:
  assumes "oci_add_version env rp desc w = (w', Ok u)"
  obtains reference st where
    "get_store env (comp_name (desc_component desc)) (comp_version (desc_component desc)) = Ok (reference, st)"
proof (cases "get_store env (comp_name (desc_component desc)) (comp_version (desc_component desc))")
  case (Ok r)
  then show thesis using that by (cases r) simp
qed (use assms in \<open>simp_all add: oci_add_version_def\<close>)

lemma tagged_version:
  assumes "get_store env component version = Ok (reference, st)"
  shows "tag_matches (version_tag version)" "version \<noteq> []" "CHR '':'' \<notin> set version"
proof -
  show tag: "tag_matches (version_tag version)"
    using assms by (auto simp: get_store_def version_tag_def version_to_oci_tag_def Let_def split: if_splits)
  have "set version \<subseteq> insert CHR ''+'' (set (version_tag version))"
    by (auto simp: version_tag_def version_to_oci_tag_def Let_def cut_at_Some_iff split: option.splits)
  then show "CHR '':'' \<notin> set version" using tag_no_colon[OF tag] by auto
  show "version \<noteq> []" using tag by (auto simp: version_tag_def version_to_oci_tag_def Let_def tag_matches_def cut_at_absent)
qed

lemma parse_no_panic: "parse_reference c s \<noteq> Panic"
proof -
  have path: "split_path c lone path \<noteq> Panic" for lone path
    by (simp add: split_path_def split: option.split prod.split)
  have valid: "validate_reference c r \<noteq> Panic" for r by (simp add: validate_reference_def)
  obtain scheme rest where rest: "get_scheme s = (scheme, rest)" by force
  obtain lone registry p where p: "split_registry rest = (lone, registry, p)" by (metis surj_pair)
  show ?thesis
  proof (cases "split_path c lone p")
    case (Ok x)
    obtain repo reference tag where x: "x = (repo, reference, tag)" by (cases x)
    show ?thesis
      using valid[of "\<lparr>lr_scheme = scheme, lr_registry = registry, lr_repository = repo, lr_reference = reference, lr_tag = tag\<rparr>"]
      by (cases "validate_reference c \<lparr>lr_scheme = scheme, lr_registry = registry, lr_repository = repo, lr_reference = reference, lr_tag = tag\<rparr>")
        (simp_all add: parse_reference_def rest p Ok x Let_def)
  qed (use path in \<open>simp_all add: parse_reference_def rest p\<close>)
qed

lemma archive_tag:
  assumes "archive_backed env ce" "documented_env ce" "tag_matches t"
  shows "ctf_tag ce t = Some t"
proof (rule plain_ctf_tag[OF assms(2)])
  show "rc_tag_ok (ce_checks ce) t" using assms(1,3) by (simp add: archive_backed_def)
  show "parse_reference (ce_checks ce) t \<noteq> Panic" for r by (rule parse_no_panic)
qed

lemma sorted_versions_same:
  assumes "semver_lawful sv" "sort_versions sv us = Ok vs"
  shows "set vs = set us"
proof -
  obtain xs where "sort_descending sv default_registry us = (xs, Ok ())" "mset xs = mset us"
    using sort_descending_correct[OF assms(1), of default_registry us] by blast
  then have "vs = remdups_adj xs" "set xs = set us"
    using assms(2) mset_eq_setD[of xs us] by (simp_all add: sort_versions_def)
  then show ?thesis by simp
qed

text \<open>C9: A component version that is added to an archive is read back, without a pin: what
  \<open>GetComponentVersion\<close> answers is the decoding of the bytes that the descriptor, its accesses that became
  local blobs replaced, was encoded to, a failure to decode included; the archive stays well formed.
  The archive is well formed, the repository does not track referrers, the component has no colon
  and no at sign, and no two of the contents at hand, those stored and those written, have the same
  digest. The codecs of manifests, indexes and tar archives keep what is written with them.\<close>

theorem added_version_read_back:
  assumes "archive_backed env ce" "documented_ops env (ctf_plain ce)" "ctf_good ce kind ar"
    "distinct_contents env kind (snd ` set (ar_blobs ar) \<union> set (written_documents env rp desc ar))"
    "\<not> rp_tracking rp" "rp_pin rp' = None"
    "CHR '':'' \<notin> set (comp_name (desc_component desc))" "CHR ''@'' \<notin> set (comp_name (desc_component desc))"
    "oci_add_version env rp desc ar = (ar', Ok u)"
  shows "\<exists>raw. encode_descriptor env (fst (scan_local_blobs env desc)) (encoding_of rp) = Ok raw
    \<and> oci_get_version env rp' ar' (comp_name (desc_component desc)) (comp_version (desc_component desc))
      = decode_descriptor env (encoding_of rp) raw
    \<and> ctf_good ce kind ar'"
proof -
  obtain reference st where store:
    "get_store env (comp_name (desc_component desc)) (comp_version (desc_component desc)) = Ok (reference, st)"
    by (rule added_store[OF assms(9)])
  note at = archive_store[OF assms(1) store assms(7,8)]
  have m: "og_matches env = ce_verifies ce" using assms(1) by (simp add: archive_backed_def)
  obtain raw where raw: "encode_descriptor env (fst (scan_local_blobs env desc)) (encoding_of rp) = Ok raw"
    "ctf_good ce kind ar'"
    "\<exists>m ix. read_descriptor env st ar' reference = bind_outcome (decode_descriptor env (encoding_of rp) raw) (\<lambda>d. Ok (d, m, ix))"
    unfolding at(2) by (rule ctf.added_version[OF assms(2) m assms(5,4,3) store[unfolded at(2)] at(3) assms(9)])
  have "oci_get_version env rp' ar' (comp_name (desc_component desc)) (comp_version (desc_component desc))
      = decode_descriptor env (encoding_of rp) raw"
    using raw(3) get_unpinned[OF assms(6) store] decode_failure[of env "encoding_of rp" raw]
    by (cases "decode_descriptor env (encoding_of rp) raw") auto
  then show ?thesis using raw(1,2) by blast
qed

text \<open>C17: A component version that is added to an archive is listed afterwards, whenever the listing of
  its component succeeds. Neither of the repositories that add and list tracks referrers; the
  archive is well formed, the component has no colon, no at sign and does not begin with the
  prefix \<open>component-descriptors/\<close>, and no two of the contents at hand, those stored and those written,
  have the same digest. The codecs of manifests, indexes and tar archives keep what is written with
  them, and the comparison of the semver library is a total preorder.\<close>

theorem added_version_listed:
  assumes "semver_lawful sv"
    "archive_backed env ce" "documented_ops env (ctf_plain ce)" "ctf_good ce kind ar"
    "distinct_contents env kind (snd ` set (ar_blobs ar) \<union> set (written_documents env rp desc ar))"
    "\<not> rp_tracking rp" "\<not> rp_tracking rp'"
    "CHR '':'' \<notin> set (comp_name (desc_component desc))" "CHR ''@'' \<notin> set (comp_name (desc_component desc))"
    "\<not> has_prefix (comp_name (desc_component desc)) component_prefix"
    "oci_add_version env rp desc ar = (ar', Ok u)"
    "oci_list_versions sv env rp' (comp_name (desc_component desc)) ar' = Ok vs"
  shows "comp_version (desc_component desc) \<in> set vs"
proof -
  let ?c = "comp_name (desc_component desc)" and ?v = "comp_version (desc_component desc)"
  obtain reference st where store: "get_store env ?c ?v = Ok (reference, st)" by (rule added_store[OF assms(11)])
  note at = archive_store[OF assms(2) store assms(8,9)]
  have m: "og_matches env = ce_verifies ce" using assms(2) by (simp add: archive_backed_def)
  obtain x where x: "ctf_good ce kind ar'" "os_resolve st ar' reference = Ok x"
    "\<exists>a old. version_annotations_of env st ar' x = Ok (a, old)
      \<and> annotation_at a version_annotation_key = Some (new_version_annotation ?c ?v)"
    unfolding at(2) by (rule ctf.added_version[OF assms(3) m assms(6,5,4) store[unfolded at(2)] at(3) assms(11)])
  then obtain a old where a: "version_annotations_of env st ar' x = Ok (a, old)"
    "annotation_at a version_annotation_key = Some (new_version_annotation ?c ?v)" by blast
  obtain reference' st' us where l: "get_store env ?c ''latest'' = Ok (reference', st')"
    "list_unsorted env rp' st' ?c ar' = Ok us" "sort_versions sv us = Ok vs"
    using assms(12) by (auto simp: oci_list_versions_def bind_outcome_Ok_iff split: if_splits)
  have "list_via_tags env st ?c ar' = Ok us"
    using l(2) archive_store(2)[OF assms(2) l(1) assms(8,9)] at(2) assms(7) by (simp add: list_unsorted_def)
  moreover have "ctf_tag ce (version_tag ?v) = Some (version_tag ?v)"
    using archive_tag[OF assms(2) _ tagged_version(1)[OF store]] assms(4) by (simp add: ctf_good_def)
  ultimately have "?v \<in> set us"
    using ctf.resolved_version_listed[OF x(1) at(3) _ x(2)[unfolded at(2)] a(1)[unfolded at(2)] a(2) assms(8)
        tagged_version(3,2)[OF store] assms(10)] at(2) by blast
  then show ?thesis using sorted_versions_same[OF assms(1) l(3)] by simp
qed

lemma aliased_version:
  assumes "archive_backed env ce" "ctf_good ce kind ar" "rp_pin rp = None"
    "CHR '':'' \<notin> set component" "CHR ''@'' \<notin> set component"
    "add_alias env component target alias ar = (ar', Ok u)"
    "ctf_tag ce alias = Some (version_tag version)" "tag_matches (version_tag version)"
    "parse_reference (ce_checks ce) (component_version_reference component version) = Ok r"
  shows "oci_get_version env rp ar' component version = oci_get_version env rp ar component target"
proof -
  obtain reference st where store: "get_store env component target = Ok (reference, st)"
    using assms(6) by (cases "get_store env component target") (auto simp: add_alias_def alias_target_def split: if_splits)
  obtain reference' st' where store': "get_store env component version = Ok (reference', st')"
    using assms(1,8,9)
    by (simp add: get_store_def archive_backed_def store_for_reference_def version_tag_def version_to_oci_tag_def Let_def)
  note at = archive_store[OF assms(1) store assms(4,5)] and at' = archive_store[OF assms(1) store' assms(4,5)]
  have "read_descriptor env st ar' reference' = read_descriptor env st ar reference"
    using ctf.alias_reads[OF assms(2,6) store[unfolded at(2)] at(3) assms(7) at'(3)] at(2) by simp
  then show ?thesis
    using get_unpinned[OF assms(3) store] get_unpinned[OF assms(3) store'] at(2) at'(2) by simp
qed

text \<open>C16: An alias stands for its target: after \<open>AddComponentVersionAlias\<close> on a well-formed archive, every
  version whose tag the alias stands for reads as the target did before, its failures included, in a
  repository without a pin; the component has no colon and no at sign.\<close>

theorem alias_reads_target:
  assumes "archive_backed env ce" "ctf_good ce kind ar" "rp_pin rp = None"
    "CHR '':'' \<notin> set component" "CHR ''@'' \<notin> set component"
    "add_alias env component target alias ar = (ar', Ok u)"
    "ctf_tag ce alias = Some (version_tag version)" "tag_matches (version_tag version)"
    "parse_reference (ce_checks ce) (component_version_reference component version) = Ok r"
  shows "oci_get_version env rp ar' component version = oci_get_version env rp ar component target"
  using assms by (rule aliased_version)

text \<open>Versions have no colon, so the check that refuses versions as aliases lets references with one through.\<close>

lemma split_at_letters: "x \<in> set s \<Longrightarrow> x \<noteq> c \<Longrightarrow> \<exists>p \<in> set (split_at c s). x \<in> set p"
proof (induction s)
  case (Cons y s)
  then show ?case by (cases "split_at c s") auto
qed simp

lemma list_all_letters: "list_all P s \<Longrightarrow> \<not> P c \<Longrightarrow> c \<notin> set s"
  by (auto simp: list_all_iff)

lemma plain_letters: "\<not> is_digit CHR '':''" "\<not> version_char CHR '':''"
  by (simp_all add: is_digit_def version_char_def word_char_def)

lemma parts_no_colon:
  assumes "list_all P (split_at c s)" "c \<noteq> CHR '':''" "\<And>p. P p \<Longrightarrow> CHR '':'' \<notin> set p"
  shows "CHR '':'' \<notin> set s"
proof
  assume "CHR '':'' \<in> set s"
  with assms(2) obtain p where "p \<in> set (split_at c s)" "CHR '':'' \<in> set p"
    using split_at_letters[of "CHR '':''" s c] by auto
  with assms(1,3) show False by (auto simp: list_all_iff)
qed

lemma plain_parts:
  "plain_number t \<Longrightarrow> CHR '':'' \<notin> set t"
  "prerelease_part t \<Longrightarrow> CHR '':'' \<notin> set t"
  "build_part t \<Longrightarrow> CHR '':'' \<notin> set t"
  using plain_letters list_all_letters[of is_digit t "CHR '':''"] list_all_letters[of version_char t "CHR '':''"]
  by (auto simp: plain_number_def prerelease_part_def build_part_def)

lemma loose_version_no_colon:
  assumes "is_loose_version s"
  shows "CHR '':'' \<notin> set s"
proof -
  have core: "CHR '':'' \<notin> set t" if "core_version t" for t
  proof (rule parts_no_colon)
    show "list_all plain_number (split_at CHR ''.'' t)" using that by (simp add: core_version_def Let_def)
  qed (simp_all add: plain_parts)
  have pre: "CHR '':'' \<notin> set t" if "with_prerelease t" for t
  proof (cases "cut_at CHR ''-'' t")
    case None
    with that core show ?thesis by (simp add: with_prerelease_def)
  next
    case (Some p)
    obtain a b where p: "p = (a, b)" by (cases p)
    have "CHR '':'' \<notin> set b"
      using that Some p by (intro parts_no_colon[of prerelease_part "CHR ''.''", OF _ _ plain_parts(2)]) (simp_all add: with_prerelease_def)
    moreover have "CHR '':'' \<notin> set a" using that Some p core by (simp add: with_prerelease_def)
    ultimately show ?thesis using Some p by (auto simp: cut_at_Some_iff)
  qed
  have "CHR '':'' \<notin> set (trim_prefix s ''v'')"
  proof (cases "cut_at CHR ''+'' (trim_prefix s ''v'')")
    case None
    with assms pre show ?thesis by (simp add: is_loose_version_def)
  next
    case (Some p)
    obtain a b where p: "p = (a, b)" by (cases p)
    have "CHR '':'' \<notin> set b"
      using assms Some p by (intro parts_no_colon[of build_part "CHR ''.''", OF _ _ plain_parts(3)]) (simp_all add: is_loose_version_def)
    moreover have "CHR '':'' \<notin> set a" using assms Some p pre by (simp add: is_loose_version_def)
    ultimately show ?thesis using Some p by (auto simp: cut_at_Some_iff)
  qed
  then show ?thesis by (auto simp: trim_prefix_def has_prefix_iff split: if_splits)
qed

lemma tag_no_plus: "tag_matches t \<Longrightarrow> CHR ''+'' \<notin> set t"
  by (auto dest!: tag_chars simp: word_char_def)

lemma alias_reference:
  assumes "set x \<inter> {CHR '':'', CHR ''/'', CHR ''@''} = {}" "\<not> rc_algorithm c x" "rc_repository_ok c x"
    "rc_reference_ok c t" "tag_matches t"
  shows "parse_reference c (x @ CHR '':'' # t)
    = Ok \<lparr>lr_scheme = [], lr_registry = [], lr_repository = x, lr_reference = t, lr_tag = t\<rparr>"
proof -
  let ?s = "x @ CHR '':'' # t"
  note t = tag_no_slash[OF assms(5)] tag_no_colon[OF assms(5)] tag_no_at[OF assms(5)]
  have "get_scheme ?s = ([], ?s) \<and> split_registry ?s = (True, [], ?s)"
    using assms(1) t(1) by (intro no_scheme) auto
  moreover have "cut_at CHR '':'' ?s = Some (x, t)" "cut_at CHR ''@'' ?s = None"
    using assms(1) t by (auto simp: cut_at_append cut_at_absent)
  then have "split_path c True ?s = Ok (x, t, t)"
    using t(2) assms(2) by (simp add: split_path_def digest_prefixed_def)
  ultimately show ?thesis
    using assms(3-5) by (simp add: parse_reference_def Let_def validate_reference_def)
qed

lemma alias_target_Ok:
  assumes "alias_target env component target ar = Ok (base, st)"
  obtains reference where "get_store env component target = Ok (reference, st)" "os_resolve st ar reference = Ok base"
proof (cases "get_store env component target")
  case (Ok p)
  obtain reference st' where p: "p = (reference, st')" by (cases p)
  with assms Ok that show thesis
    by (cases "os_resolve st' ar reference") (auto simp: alias_target_def bind_outcome_Ok_iff)
qed (use assms in \<open>simp_all add: alias_target_def\<close>)

lemma resolved_exists:
  assumes "documented_env ce" "get_blob ce ar d = Ok c" "od_digest b = d"
  shows "blob_exists ar b"
proof -
  obtain f where f: "to_blob_file_name ce d = Ok f" "map_of (ar_blobs ar) f = Some c"
    using assms(2) by (auto simp: get_blob_Ok_iff)
  have "f \<in> set (mkeys (ar_blobs ar))" using map_of_SomeD[OF f(2)] by force
  then show ?thesis
    using file_digest(2,3)[OF assms(1) f(1)] assms(3) by (force simp: blob_exists_def list_blobs_def)
qed

text \<open>C40: An alias can replace a version. \<open>AddComponentVersionAlias\<close> refuses an alias that is a version and leaves
  the archive as it is; the same version after a repository name and a colon passes, since no version
  has a colon, and the archive takes it for a reference with the version as its tag: that version,
  whether it was stored before or not, then reads as the target of the alias does. For a well-formed
  archive that can be written, an unpinned repository, a target that is a component version, a
  version that can be a tag, and a repository name without a slash or an at sign that is no digest
  algorithm.\<close>

theorem alias_replaces_version:
  assumes "archive_backed env ce" "ctf_good ce kind ar" "ar_writable ar" "rp_pin rp = None"
    "CHR '':'' \<notin> set component" "CHR ''@'' \<notin> set component"
    "alias_target env component target ar = Ok (base, st)"
    "is_loose_version version" "tag_matches version" "rc_reference_ok (ce_checks ce) version"
    "parse_reference (ce_checks ce) (component_version_reference component version) = Ok r"
    "set x \<inter> {CHR '':'', CHR ''/'', CHR ''@''} = {}" "\<not> rc_algorithm (ce_checks ce) x" "rc_repository_ok (ce_checks ce) x"
  shows "add_alias env component target version ar = (ar, Fail Alias_Is_Version)
    \<and> (\<exists>ar'. add_alias env component target (x @ CHR '':'' # version) ar = (ar', Ok ())
        \<and> oci_get_version env rp ar' component version = oci_get_version env rp ar component target)"
proof -
  let ?name = "x @ CHR '':'' # version"
  have doc: "documented_env ce" using assms(2) by (simp add: ctf_good_def)
  obtain reference where store: "get_store env component target = Ok (reference, st)" and
    base: "os_resolve st ar reference = Ok base"
    using assms(7) by (rule alias_target_Ok)
  note at = archive_store[OF assms(1) store assms(5,6)]
  have tag_ok: "rc_tag_ok (ce_checks ce) version" using assms(1,9) by (simp add: archive_backed_def)
  have entry: "artifact_for_reference ce rp' d ?name = Ok (entry_for rp' version d)" for rp' d
    using alias_reference[OF assms(12-14,10,9)] tag_ok by (simp add: artifact_for_reference_def Let_def)
  have "resolve_reference ce (component_repository component) ar reference = Ok base" using base at(2) by (simp add: ctf_store_def)
  from resolve_ctf_Ok[OF assms(2) at(3) this] obtain c where "get_blob ce ar (od_digest base) = Ok c" .
  then have "blob_exists ar base" by (rule resolved_exists[OF doc]) simp
  then obtain ar' where "tag_descriptor ce (component_repository component) ar base ?name = Ok ar'"
    using entry assms(3) by (auto simp: tag_descriptor_def apply_tag_def set_index_def)
  moreover have "\<not> is_loose_version ?name" using loose_version_no_colon[of ?name] by auto
  ultimately have added: "add_alias env component target ?name ar = (ar', Ok ())"
    using assms(7) at(2) by (simp add: add_alias_def ctf_store_def new_state_def)
  have plain: "version_tag version = version"
    using cut_at_absent[OF tag_no_plus[OF assms(9)]] by (simp add: version_tag_def version_to_oci_tag_def Let_def)
  have "ctf_tag ce ?name = Some (version_tag version)"
    using entry[of "[]" no_descriptor] assms(9) by (simp add: ctf_tag_def entry_for_def plain tag_matches_def)
  then have "oci_get_version env rp ar' component version = oci_get_version env rp ar component target"
    using assms(9) by (intro aliased_version[OF assms(1,2,4-6) added _ _ assms(11)]) (simp_all add: plain)
  then show ?thesis using assms(8) added by (auto simp: add_alias_def)
qed

section \<open>A concrete repository\<close>

text \<open>An injective digest, and a tar archive of one file.\<close>

definition letters :: "string \<Rightarrow> string" where
  "letters s = concat (map (\<lambda>c. let n = of_char c :: nat in [char_of (97 + n div 16), char_of (97 + n mod 16)]) s)"

fun unletters :: "string \<Rightarrow> string" where
  "unletters (a # b # s) = char_of ((of_char a - 97) * 16 + (of_char b - 97) :: nat) # unletters s"
| "unletters _ = []"

lemma of_letter: "n < 16 \<Longrightarrow> of_char (char_of (97 + n :: nat) :: char) = 97 + n"
  by (simp add: of_char_of)

lemma letter_word: "n < 16 \<Longrightarrow> word_char (char_of (97 + n :: nat))"
  by (simp add: word_char_def less_eq_char_def of_letter)

lemma unletters_letters: "unletters (letters s) = s"
proof (induction s)
  case (Cons c s)
  have "(of_char c :: nat) div 16 < 16" "(of_char c :: nat) mod 16 < 16" by (simp_all add: div_less_iff_less_mult)
  with Cons.IH show ?case by (simp add: letters_def Let_def of_letter)
qed (simp add: letters_def)

definition tar_file :: "string \<Rightarrow> string \<Rightarrow> string" where
  "tar_file name content = concat (map (\<lambda>c. [CHR ''1'', c]) name) @ CHR ''0'' # content"

fun untar_file :: "string \<Rightarrow> (string \<times> string) list" where
  "untar_file [] = []"
| "untar_file [_] = [([], [])]"
| "untar_file (k # c # s) =
     (if k = CHR ''1'' then (case untar_file s of [] \<Rightarrow> [] | (n, x) # _ \<Rightarrow> [(c # n, x)]) else [([], c # s)])"

lemma untar_tar: "untar_file (tar_file name content) = [(name, content)]"
proof (induction name)
  case Nil
  show ?case by (cases content) (simp_all add: tar_file_def)
qed (simp add: tar_file_def)

definition content_hash :: "string \<Rightarrow> string" where
  "content_hash b = (if b \<noteq> [] \<and> hd b \<noteq> CHR ''_'' \<and> list_all word_char b then b else CHR ''_'' # letters b)"

definition content_digest :: "string \<Rightarrow> string" where
  "content_digest b = ''sha256:'' @ content_hash b"

lemma content_hash_inj: "content_hash a = content_hash b \<longleftrightarrow> a = b"
  by (auto simp: content_hash_def dest: arg_cong[of _ _ unletters] simp: unletters_letters split: if_splits)

text \<open>Two versions of a component, their descriptors and documents.\<close>

definition acme_repository :: oci_repository where
  "acme_repository = \<lparr>rp_author = ''me'', rp_tracking = False, rp_encoding = [], rp_pin = None\<rparr>"

definition acme :: "string \<Rightarrow> (nat, json) descriptor" where
  "acme version = \<lparr>desc_schema = ''v2'', desc_component = \<lparr>comp_name = ''acme'', comp_version = version, comp_labels = None,
     comp_created = [], comp_contexts = None, comp_provider = \<lparr>prov_name = ''ocm'', prov_labels = None\<rparr>,
     comp_resources = None, comp_sources = None, comp_references = None\<rparr>, desc_signatures = None\<rparr>"

definition acme_v2 :: "string \<Rightarrow> v2_descriptor" where
  "acme_v2 version = \<lparr>vdesc_schema = ''v2'', vdesc_component = \<lparr>vc_name = ''acme'', vc_version = version, vc_labels = None,
     vc_created = [], vc_contexts = None, vc_provider = ''ocm'', vc_resources = None, vc_sources = None,
     vc_references = None\<rparr>, vdesc_signatures = None, vdesc_nested = None\<rparr>"

definition acme_node :: "string \<Rightarrow> string \<Rightarrow> oci_descriptor" where
  "acme_node media content = \<lparr>od_media_type = media, od_digest = content_digest content, od_size = int (length content),
     od_annotations = None, od_artifact_type = []\<rparr>"

text \<open>The version \<open>1.0.0\<close> is stored as the blobs \<open>J1\<close>, \<open>C1\<close> and \<open>M1\<close>.\<close>

definition acme_versions :: "string list" where
  "acme_versions = [''1.0.0'', ''2.0.0'']"

definition blob_name :: "char \<Rightarrow> string \<Rightarrow> string" where
  "blob_name k v = [k, hd v]"

definition acme_layer :: "string \<Rightarrow> oci_descriptor" where
  "acme_layer v = acme_node (hd json_types) (blob_name CHR ''J'' v)"

definition acme_manifest :: "string \<Rightarrow> oci_manifest" where
  "acme_manifest v = descriptor_manifest acme_repository ''acme'' v (acme_node config_type (blob_name CHR ''C'' v)) (acme_layer v) []"

definition table :: "(string \<Rightarrow> 'a) \<Rightarrow> (string \<Rightarrow> 'b) \<Rightarrow> ('a \<times> 'b) list" where
  "table f g = map (\<lambda>v. (f v, g v)) acme_versions"

definition acme_document :: "string \<Rightarrow> image_manifest option" where
  "acme_document b = (if b \<in> set (map (blob_name CHR ''M'') acme_versions)
     then Some \<lparr>mf_subject = None, mf_artifact_type = [], mf_config_media_type = config_type, mf_annotations = None\<rparr> else None)"

definition acme_verifies :: "string \<Rightarrow> string \<Rightarrow> bool" where
  "acme_verifies d b \<longleftrightarrow> d = content_digest b"

definition acme_archive :: oci_env where
  "acme_archive = \<lparr>ce_checks = sample_checks\<lparr>rc_digest_ok := sample_digest_ok\<rparr>, ce_digest_ok = sample_digest_ok,
     ce_verifies = acme_verifies, ce_digest_of = content_digest, ce_manifest = acme_document,
     ce_index = Map.empty, ce_encode = Map.empty\<rparr>"

definition acme_store :: "string \<Rightarrow> archive oci_store option" where
  "acme_store reference = (case store_for_reference acme_archive reference of
     Ok repo \<Rightarrow> Some (ctf_store acme_archive repo) | _ \<Rightarrow> None)"

definition acme_yaml :: "v2_descriptor \<Rightarrow> string option" where
  "acme_yaml v = map_of (table acme_v2 (blob_name CHR ''Y'')) v"

definition acme_yaml_to_json :: "string \<Rightarrow> string option" where
  "acme_yaml_to_json y = map_of (table (blob_name CHR ''Y'') (blob_name CHR ''J'')) y"

definition acme_read_yaml :: "string \<Rightarrow> v2_descriptor option" where
  "acme_read_yaml s = map_of (table (blob_name CHR ''Y'') acme_v2 @ table (blob_name CHR ''J'') acme_v2) s"

definition acme_config :: "oci_descriptor option \<Rightarrow> string option" where
  "acme_config d = (case d of None \<Rightarrow> None | Some l \<Rightarrow> map_of (table acme_layer (blob_name CHR ''C'')) l)"

definition acme_read_config :: "string \<Rightarrow> oci_descriptor option option" where
  "acme_read_config b = map_option Some (map_of (table (blob_name CHR ''C'') acme_layer) b)"

definition acme_write_manifest :: "oci_manifest \<Rightarrow> string option" where
  "acme_write_manifest m = map_of (table acme_manifest (blob_name CHR ''M'')) m"

definition acme_read_manifest :: "string \<Rightarrow> oci_manifest option" where
  "acme_read_manifest b = map_of (table (blob_name CHR ''M'') acme_manifest) b"

definition acme_ops :: "(nat, json, archive) oci_ops" where
  "acme_ops = \<lparr>
     og_reference = component_version_reference, og_store = acme_store,
     og_checks = ce_checks acme_archive, og_digest_ok = sample_digest_ok, og_digest_of = content_digest,
     og_matches = acme_verifies, og_codec = sample_codec JNull, og_scheme = new_scheme True,
     og_yaml = acme_yaml, og_yaml_to_json = acme_yaml_to_json, og_read_yaml = acme_read_yaml,
     og_tar = tar_file, og_untar = untar_file, og_config = acme_config, og_read_config = acme_read_config,
     og_manifest = acme_write_manifest, og_read_manifest = acme_read_manifest,
     og_index = Map.empty, og_read_index = Map.empty, og_artifacts = Map.empty, og_read_artifacts = Map.empty,
     og_local_blob = Map.empty\<rparr>"

definition acme_kind :: "string \<Rightarrow> string" where
  "acme_kind d = (if d \<in> set (map (\<lambda>v. content_digest (blob_name CHR ''M'' v)) acme_versions) then image_manifest_type else [])"

definition acme_add :: "string \<Rightarrow> archive \<Rightarrow> archive" where
  "acme_add v ar = fst (oci_add_version acme_ops acme_repository (acme v) ar)"

section \<open>The laws hold\<close>

lemma content_digest_ok: "sample_digest_ok (content_digest b)"
proof -
  have "of_char c div 16 < (16 :: nat)" "of_char c mod 16 < (16 :: nat)" for c :: char
    by (simp_all add: div_less_iff_less_mult)
  then have l: "list_all word_char (letters b)"
    by (auto simp: letters_def Let_def list_all_iff letter_word)
  have w: "list_all word_char (content_hash b)" "content_hash b \<noteq> []"
    using l by (auto simp: content_hash_def word_char_def)
  have "has_prefix (content_digest b) ''sha256:''" by (simp add: content_digest_def has_prefix_def)
  moreover have "drop 7 (content_digest b) = content_hash b" by (simp add: content_digest_def)
  ultimately show ?thesis using w by (simp add: sample_digest_ok_def)
qed

lemma documented_acme_archive: "documented_env acme_archive"
proof -
  have c: "ce_checks acme_archive = ce_checks ctf_env" "ce_digest_ok acme_archive = ce_digest_ok ctf_env"
    by (simp_all add: acme_archive_def ctf_env_def)
  have "ce_digest_ok ctf_env (ce_digest_of acme_archive b) \<and> ce_verifies acme_archive (ce_digest_of acme_archive b) b" for b
    using content_digest_ok by (simp add: acme_archive_def ctf_env_def acme_verifies_def)
  moreover have "ce_encode acme_archive ds \<noteq> Some b" for ds b by (simp add: acme_archive_def)
  ultimately show ?thesis
    using documented_sample_env unfolding documented_env_def Let_def c by (elim conjE) (intro conjI, simp_all)
qed

lemma acme_backed: "archive_backed acme_ops acme_archive"
proof -
  have "rc_tag_ok (ce_checks acme_archive) = tag_matches" "ce_verifies acme_archive = acme_verifies"
    by (simp_all add: acme_archive_def sample_checks_def)
  then show ?thesis by (simp add: archive_backed_def acme_ops_def acme_store_def fun_eq_iff)
qed

lemma table_of: "map_of (table f g) x = Some y \<Longrightarrow> \<exists>v \<in> set acme_versions. x = f v \<and> y = g v"
  by (auto simp: table_def dest!: map_of_SomeD)

lemma each_version:
  assumes "P ''1.0.0''" "P ''2.0.0''" "v \<in> set acme_versions"
  shows "P v"
  using assms by (auto simp: acme_versions_def)

lemma acme_determines: "digest_determines acme_ops"
  by (auto simp: digest_determines_def acme_ops_def acme_verifies_def content_digest_def content_hash_inj)

lemma acme_written:
  assumes "og_manifest acme_ops m = Some b"
  obtains v where "v \<in> set acme_versions" "m = acme_manifest v" "b = blob_name CHR ''M'' v"
  using assms by (auto simp: acme_ops_def acme_write_manifest_def dest!: table_of)

lemma acme_distinct: "distinct_contents acme_ops acme_kind C"
  unfolding distinct_contents_def
proof (intro ballI conjI allI impI)
  show "c = b" if "og_matches acme_ops (og_digest_of acme_ops b) c" for b c
    using that by (simp add: acme_ops_def acme_verifies_def content_digest_def content_hash_inj)
  show "acme_kind (og_digest_of acme_ops b) = image_manifest_type" if "og_manifest acme_ops m = Some b" for b m
    using acme_written[OF that] by (auto simp: acme_kind_def acme_ops_def)
qed (simp add: acme_ops_def)

lemma documented_acme_ops: "documented_ops acme_ops (ctf_plain acme_archive)"
  unfolding documented_ops_def
proof (intro conjI allI impI)
  show "og_digest_ok acme_ops (og_digest_of acme_ops b)" for b by (simp add: acme_ops_def content_digest_ok)
  show "og_matches acme_ops (og_digest_of acme_ops b) b" for b by (simp add: acme_ops_def acme_verifies_def)
  show "og_read_config acme_ops b = Some (Some d)" if "og_config acme_ops (Some d) = Some b" for d b
  proof -
    from that obtain v where v: "v \<in> set acme_versions" "d = acme_layer v" "b = blob_name CHR ''C'' v"
      by (auto simp: acme_ops_def acme_config_def dest!: table_of)
    have "acme_read_config (blob_name CHR ''C'' v) = Some (Some (acme_layer v))"
      by (rule each_version[OF _ _ v(1)]; code_simp)
    with v show ?thesis by (simp add: acme_ops_def)
  qed
next
  fix m b assume m: "og_manifest acme_ops m = Some b"
  from acme_written[OF m] obtain v where v: "v \<in> set acme_versions" "m = acme_manifest v" "b = blob_name CHR ''M'' v" .
  show "ctf_plain acme_archive b" if "om_subject m = None"
    by (auto simp: ctf_plain_def acme_archive_def acme_document_def)
  have "acme_read_manifest (blob_name CHR ''M'' v) = Some (acme_manifest v)"
  proof (rule each_version[OF _ _ v(1)])
    show "acme_read_manifest (blob_name CHR ''M'' ''1.0.0'') = Some (acme_manifest ''1.0.0'')"
      "acme_read_manifest (blob_name CHR ''M'' ''2.0.0'') = Some (acme_manifest ''2.0.0'')"
      by (simp_all add: acme_read_manifest_def table_def acme_versions_def blob_name_def)
  qed
  then show "\<exists>m'. og_read_manifest acme_ops b = Some m' \<and> (od_annotations (om_config m) = None \<longrightarrow> om_config m' = om_config m)
      \<and> annotation_at (om_annotations m') = annotation_at (om_annotations m)"
    using v by (simp add: acme_ops_def)
qed (simp_all add: acme_ops_def)

lemma empty_good: "ctf_good acme_archive acme_kind empty_archive"
proof -
  have "store_ok acme_archive empty_archive" "ar_index empty_archive = []"
    by (simp_all add: store_ok_def blobs_ok_def index_ok_def empty_archive_def new_index_def coherent_def)
  then show ?thesis using documented_acme_archive by (simp add: ctf_good_def)
qed

section \<open>The properties on it\<close>

definition acme_one :: archive where
  "acme_one = acme_add ''1.0.0'' empty_archive"

definition acme_two :: archive where
  "acme_two = acme_add ''2.0.0'' acme_one"

lemma first_added: "oci_add_version acme_ops acme_repository (acme ''1.0.0'') empty_archive = (acme_one, Ok ())"
  by code_simp

lemma second_added: "oci_add_version acme_ops acme_repository (acme ''2.0.0'') acme_one = (acme_two, Ok ())"
  by code_simp

lemma acme_names:
  "CHR '':'' \<notin> set (comp_name (desc_component (acme v)))" "CHR ''@'' \<notin> set (comp_name (desc_component (acme v)))"
  "\<not> has_prefix (comp_name (desc_component (acme v))) component_prefix"
  by (simp_all add: acme_def component_prefix_def has_prefix_def)

lemma acme_plain: "\<not> rp_tracking acme_repository" "rp_pin acme_repository = None"
  by (simp_all add: acme_repository_def)

lemma acme_added_good:
  assumes "ctf_good acme_archive acme_kind ar" "oci_add_version acme_ops acme_repository (acme v) ar = (ar', Ok u)"
  shows "ctf_good acme_archive acme_kind ar'"
proof -
  obtain reference st where store:
    "get_store acme_ops (comp_name (desc_component (acme v))) (comp_version (desc_component (acme v))) = Ok (reference, st)"
    by (rule added_store[OF assms(2)])
  note at = archive_store[OF acme_backed store acme_names(1,2)]
  have "og_matches acme_ops = ce_verifies acme_archive" using acme_backed by (simp add: archive_backed_def)
  from ctf.added_version[OF documented_acme_ops this acme_plain(1) acme_distinct assms(1) store[unfolded at(2)] at(3) assms(2)]
  show ?thesis by blast
qed

lemma acme_good: "ctf_good acme_archive acme_kind acme_one" "ctf_good acme_archive acme_kind acme_two"
proof -
  show one: "ctf_good acme_archive acme_kind acme_one" by (rule acme_added_good[OF empty_good first_added])
  show "ctf_good acme_archive acme_kind acme_two" by (rule acme_added_good[OF one second_added])
qed

lemma added_version_read_back_witness:
  "(\<exists>raw. encode_descriptor acme_ops (fst (scan_local_blobs acme_ops (acme ''2.0.0''))) (encoding_of acme_repository) = Ok raw
    \<and> oci_get_version acme_ops acme_repository acme_two (comp_name (desc_component (acme ''2.0.0'')))
        (comp_version (desc_component (acme ''2.0.0''))) = decode_descriptor acme_ops (encoding_of acme_repository) raw
    \<and> ctf_good acme_archive acme_kind acme_two)
   \<and> oci_get_version acme_ops acme_repository acme_two ''acme'' ''2.0.0'' = Ok (acme ''2.0.0'')"
  using added_version_read_back[OF acme_backed documented_acme_ops acme_good(1) acme_distinct acme_plain
      acme_names(1,2) second_added]
proof (rule conjI)
  show "oci_get_version acme_ops acme_repository acme_two ''acme'' ''2.0.0'' = Ok (acme ''2.0.0'')" by code_simp
qed

lemma two_listed:
  "oci_list_versions int_semver acme_ops acme_repository (comp_name (desc_component (acme ''2.0.0''))) acme_two
    = Ok [''2.0.0'', ''1.0.0'']"
  by code_simp

lemma added_version_listed_witness: "comp_version (desc_component (acme ''2.0.0'')) \<in> set [''2.0.0'', ''1.0.0'']"
  by (rule added_version_listed[OF int_semver_lawful acme_backed documented_acme_ops acme_good(1) acme_distinct acme_plain(1,1)
      acme_names second_added two_listed])

definition acme_aliased :: "string \<Rightarrow> archive" where
  "acme_aliased a = fst (add_alias acme_ops ''acme'' ''1.0.0'' a acme_two)"

lemma alias_added:
  "add_alias acme_ops ''acme'' ''1.0.0'' ''x:2.0.0'' acme_two = (acme_aliased ''x:2.0.0'', Ok ())"
  by code_simp

lemma alias_reads_target_witness:
  "oci_get_version acme_ops acme_repository (acme_aliased ''x:2.0.0'') ''acme'' ''2.0.0''
     = oci_get_version acme_ops acme_repository acme_two ''acme'' ''1.0.0''"
proof (rule alias_reads_target[OF acme_backed acme_good(2) acme_plain(2) _ _ alias_added])
  show "ctf_tag acme_archive ''x:2.0.0'' = Some (version_tag ''2.0.0'')" by code_simp
  show "tag_matches (version_tag ''2.0.0'')" by code_simp
  show "parse_reference (ce_checks acme_archive) (component_version_reference ''acme'' ''2.0.0'')
     = Ok \<lparr>lr_scheme = [], lr_registry = ''ctf.ocm.software'', lr_repository = ''component-descriptors/acme'',
         lr_reference = ''2.0.0'', lr_tag = ''2.0.0''\<rparr>" by code_simp
qed simp_all

lemma alias_replaces_version_witness:
  "add_alias acme_ops ''acme'' ''1.0.0'' ''2.0.0'' acme_two = (acme_two, Fail Alias_Is_Version)
   \<and> (\<exists>ar'. add_alias acme_ops ''acme'' ''1.0.0'' ''x:2.0.0'' acme_two = (ar', Ok ())
        \<and> oci_get_version acme_ops acme_repository ar' ''acme'' ''2.0.0'' = Ok (acme ''1.0.0''))"
proof -
  let ?target = "alias_target acme_ops ''acme'' ''1.0.0'' acme_two"
  have "is_ok ?target" "ar_writable acme_two" "is_loose_version ''2.0.0''" "tag_matches ''2.0.0''"
    "rc_reference_ok (ce_checks acme_archive) ''2.0.0''" "\<not> rc_algorithm (ce_checks acme_archive) ''x''"
    "rc_repository_ok (ce_checks acme_archive) ''x''"
    "is_ok (parse_reference (ce_checks acme_archive) (component_version_reference ''acme'' ''2.0.0''))"
    "oci_get_version acme_ops acme_repository acme_two ''acme'' ''1.0.0'' = Ok (acme ''1.0.0'')"
    by code_simp+
  then show ?thesis
    using alias_replaces_version[OF acme_backed acme_good(2) _ acme_plain(2), of "''acme''" "''1.0.0''" _ _ "''2.0.0''" _ "''x''"]
    by (auto simp: is_ok_iff)
qed

text \<open>A pin to the second version.\<close>

definition acme_pin :: oci_pin where
  "acme_pin = \<lparr>pn_component = ''acme'', pn_version = [], pn_digest = content_digest ''M2''\<rparr>"

definition acme_pinned :: oci_repository where
  "acme_pinned = acme_repository\<lparr>rp_pin := Some acme_pin\<rparr>"

definition pinned_reference :: string where
  "pinned_reference = ''ctf.ocm.software/component-descriptors/acme@sha256:M2''"

lemma acme_pinned_store: "get_pinned_store acme_ops acme_pin = Ok (pinned_reference, ctf_store acme_archive ''component-descriptors/acme'')"
proof -
  have "with_digest acme_ops (og_reference acme_ops (pn_component acme_pin) ''latest'') (pn_digest acme_pin) = Ok pinned_reference"
    "store_for_reference acme_archive pinned_reference = Ok ''component-descriptors/acme''"
    by code_simp+
  then show ?thesis by (simp add: get_pinned_store_def acme_ops_def acme_store_def)
qed

lemma acme_resolves:
  assumes "resolve_reference acme_archive ''component-descriptors/acme'' ar pinned_reference = Ok b"
    "od_digest b = pn_digest acme_pin" "od_media_type b = image_manifest_type"
  shows "resolves_digest acme_ops ar acme_pin image_manifest_type"
  using assms by (simp add: resolves_digest_def acme_pinned_store ctf_store_def)

lemma pinned_node: "resolve_reference acme_archive ''component-descriptors/acme'' acme_two pinned_reference
    = Ok (acme_node image_manifest_type ''M2'')"
  "resolve_reference acme_archive ''component-descriptors/acme'' (acme_aliased ''x:2.0.0'') pinned_reference
    = Ok (acme_node image_manifest_type ''M2'')"
  by code_simp+

lemma pinned_reads_agree_witness:
  "acme ''2.0.0'' = acme ''2.0.0'' \<and> comp_name (desc_component (acme ''2.0.0'')) = ''acme''"
proof -
  have n: "od_digest (acme_node image_manifest_type ''M2'') = pn_digest acme_pin"
    "od_media_type (acme_node image_manifest_type ''M2'') = image_manifest_type"
    by (simp_all add: acme_node_def acme_pin_def)
  have p: "rp_pin acme_pinned = Some acme_pin" by (simp add: acme_pinned_def)
  have same: "acme_ops\<lparr>og_store := og_store acme_ops\<rparr> = acme_ops" by simp
  have "oci_get_version acme_ops acme_pinned acme_two (pn_component acme_pin) [] = Ok (acme ''2.0.0'')"
    "oci_get_version acme_ops acme_pinned (acme_aliased ''x:2.0.0'') (pn_component acme_pin) ''2.0.0'' = Ok (acme ''2.0.0'')"
    by code_simp+
  from pinned_reads_agree[of acme_ops, where other = "og_store acme_ops", unfolded same,
      OF acme_determines p p acme_resolves[OF pinned_node(1) n] acme_resolves[OF pinned_node(2) n] this]
  show ?thesis by (simp add: acme_pin_def)
qed
end
