(* ===== verification/Spec2Isabelle.thy ===== *)
theory Spec2Isabelle
  imports Dag_Process Discover_Properties Credential_Properties Versioning_Properties Normalisation_Properties Number_Properties
    Normalisation_V1_Properties Ctf_Store_Properties Digest_Properties Constructor_Properties
    Cel_Compat Resolver_Properties Oci_Properties
begin

text \<open>
  A verification library for the Go bindings of the Open Component Model, under
  \<open>src/bindings/go\<close>. Software is described by component descriptors; they are stored, signed
  over a normal form, ordered by version, connected by references into graphs, and reached with
  credentials found in another graph. The library models those parts.

  \<^bold>\<open>Conventions.\<close> A Go map is an association list with distinct keys (\<open>gomap\<close> in \<open>Prelude\<close>); an
  iteration over a map visits the list in its order, and a result that could depend on that order
  is stated for all orders. A struct is a record, a pointer or interface that may be nil is an
  option, a slice that may be nil is an optional list, and an interface with a closed set of
  implementations is a datatype. A deep copy is the identity. Every function that can fail
  returns an \<open>outcome\<close>: \<open>Ok\<close>, \<open>Fail\<close> with an error value, or \<open>Panic\<close>. The text of error messages,
  logging and locks are left out; a mutating method takes the state and returns the new one.

  \<^bold>\<open>Parts.\<close>

  \<^item> \<open>Dag\<close> (\<open>dag/dag.go\<close>): vertices with edges, attributes and degree counters, and every
    operation. \<open>Dag_Correctness\<close> proves the walks correct (path search, cycle search,
    topological order), \<open>Dag_Operations\<close> gives the invariant \<open>wf_dag\<close> and the abstract graph of a
    store, \<open>Dag_Properties\<close> the properties. The depth-first walks recurse on the number of
    vertices not yet visited.
  \<^item> \<open>Dag_Process\<close> (\<open>dag/sync/process.go\<close>): the coordinator, the worker pool, the channels and the
    context as the labelled steps \<open>proc_step\<close>; the user's processor is the environment. Order,
    result and progress hold for every interleaving; a run has at most seven steps for each
    vertex and five more.
  \<^item> \<open>Discover\<close>, \<open>Discover_Steps\<close>, \<open>Discover_Invariant\<close>, \<open>Discover_Properties\<close>
    (\<open>dag/sync/discover.go\<close>): every goroutine of a discovery is a task of the state, with its done
    channel and error group; the resolver and the discoverer are the environment and their answers
    part of the events. The step \<open>disc_exec\<close> takes any event that is enabled, so a list of events is
    an interleaving. With \<open>U\<close> the vertices that can be named and \<open>B\<close> a bound on the neighbours of
    one, a run has at most \<open>10 * (roots + card U * B) + 1\<close> steps.
  \<^item> \<open>Go_Strings\<close>, \<open>Identity\<close> (\<open>runtime/type.go\<close>, \<open>identity.go\<close>, \<open>identity_match.go\<close>): types and
    identities, their text, hash and matching. The glob library is a parameter.
  \<^item> \<open>Bimap\<close> (\<open>runtime/internal/bimap\<close>) and \<open>Type_Registry\<close> (\<open>runtime/registry.go\<close>): the scheme that
    maps types to prototypes, on the bidirectional map it is built from. A Go type is a tag.
  \<^item> \<open>Credential_Graph\<close>, \<open>Credential_Properties\<close> (\<open>credentials\<close>): ingestion of a configuration into
    a graph of identities and the resolution of credentials through it, directly and by
    repository plugins. Plugins, globs and codecs are the parameter \<open>env\<close>. The recursion of the
    resolution has fuel, one more than the number of vertices, and never runs out of it, since
    the graph is acyclic; the walk to parent paths has one more than the parents recorded.
  \<^item> \<open>Versioning\<close>, \<open>Versioning_Properties\<close> (\<open>runtime/versioning\<close>, \<open>configuration/versioning\<close>):
    version schemes, their registry, constraints, filtering and sorting. The semver library and
    the compilation of regular expressions are parameters; the built-in patterns are digit
    groups with separators.
  \<^item> \<open>Json\<close>, \<open>Descriptor\<close>, \<open>Descriptor_Convert\<close>, \<open>Descriptor_Properties\<close> (\<open>descriptor/runtime\<close>,
    \<open>descriptor/v2\<close>): the internal and the serialised descriptor and the conversions between
    them. The codec of JSON text, its canonicalisation and the marshalling of a user's object are
    the parameter \<open>codec\<close>.
  \<^item> \<open>Jcs\<close>, \<open>Jcs_Properties\<close> (\<open>descriptor/normalisation/engine/jcs\<close>): the rule engine that prepares a
    document; a call either shrinks the rules or keeps a plain rule and shrinks the document.
  \<^item> \<open>Json_Numbers\<close>, \<open>Number_Properties\<close>: what \<open>json.Unmarshal\<close> into \<open>interface{}\<close> makes of the numbers
    of a document. A token is read as an exact fraction and rounded to the nearest float64, ties to
    even; the number is again a token, the exact decimal of that float64, so that equal numbers are
    equal documents; a number out of range fails. \<open>Number_Properties\<close> shows that the rounding is to nearest.
  \<^item> \<open>Normalisation\<close>, \<open>Signed_View\<close>, \<open>Normalisation_Properties\<close> (\<open>normalisation/json\<close>): the three v4
    algorithms as rules on the document of a descriptor; \<open>Signed_View\<close> is the part of a
    descriptor that a signature covers, written down without rules.
  \<^item> \<open>Normalisation_V1\<close>, \<open>Normalisation_V1_Properties\<close> (\<open>json/v1\<close>, \<open>engine/entry\<close>): the legacy
    algorithm up to the document that is written.
  \<^item> \<open>Digests\<close>, \<open>Pins\<close>, \<open>Digest_Properties\<close> (\<open>descriptor/normalisation/algorithms\<close>,
    \<open>signing/digest.go\<close>, \<open>repository/integrity\<close>, \<open>repository/pin.go\<close>): digests over the normal forms,
    the rules of signing, the binding of content to its digest, and reading a component version
    through a pin. Hash functions, the text of a document and repositories are parameters; that
    equal texts come from equal documents is asked of documents with decoded numbers only.
  \<^item> \<open>Looseref\<close> (\<open>oci/looseref/parse.go\<close>): references to artifacts, parsed and printed. The grammars
    of ORAS are parameters.
  \<^item> \<open>Ctf_Index\<close> (\<open>ctf/index/v1/index.go\<close>), \<open>Ctf_Store\<close>, \<open>Ctf_Store_Properties\<close> (\<open>oci/ctf\<close>,
    \<open>ctf/filesystem_ctf.go\<close>): an OCI store over an archive, that is an index and blob files; pushing,
    tagging, resolving, fetching, referrers and the listing of components. Each operation holds
    the lock of the store and is one step. The codec of manifests and the digest algorithms are
    the parameter of the environment.
  \<^item> \<open>Constructor_Spec\<close>, \<open>Constructor\<close>, \<open>Constructor_Properties\<close> (\<open>constructor\<close>,
    \<open>descriptor/runtime/validate.go\<close>): the constructor's own form of components, and the construction of
    component versions as actions on a state: the outside (repositories, input methods, digest
    processors, credentials, callbacks), the cache of digests, the graph with the descriptors
    processed so far, and the versions handed to a repository. The goroutines of one component
    are atomic and finish in an order of the environment's choice. The workers of the vertices are
    atomic too, in the order of a list that the theorems leave open; a failed worker does not stop
    the others, as in \<open>Dag_Process\<close>.
  \<^item> \<open>Cel_Escape\<close>, \<open>Cel_Decl\<close>, \<open>Cel_Schema\<close>, \<open>Cel_Conversion\<close>, \<open>Cel_Naming\<close>, \<open>Cel_Properties\<close>,
    \<open>Cel_Compat\<close> (\<open>cel/jsonschema\<close>): property names as CEL identifiers, the types that schemas declare to CEL with
    the package variables as a store, the conversion of schemas, the names of nested objects,
    the type map of a provider, and the comparison of types by structure. The conversion recurses on fuel, because a schema may refer back
    to itself; on an acyclic graph a fuel above the rank of the schema is enough. The types of the
    CEL library and the compiled schemas are parameters.

  \<^item> \<open>Resolvers\<close>, \<open>Resolver_Properties\<close> (\<open>repository/component\<close>): the fallback repository with its
    loops over repositories and its cache, the path matcher, and the resolvers built from them.
    Repositories are handles whose contents are a state of the outside; the listing of versions,
    concurrent in the code, is one step.
  \<^item> \<open>Oci_Repository\<close>, \<open>Oci_Store\<close>, \<open>Oci_Properties\<close> (\<open>oci/repository.go\<close>, \<open>store_descriptor.go\<close>,
    \<open>pin.go\<close>, \<open>internal/lister\<close>): component versions as artifacts of an OCI store, read by tag or by
    pinned digest, written, listed and aliased. What the repository needs of a store is the locale
    \<open>version_store\<close>, interpreted on the archives of \<open>Ctf_Store\<close>, without the tracking of versions as
    referrers. No digest is taken to be injective: what is written must have no digest in common
    with other contents among the documents of the version and of the archive (\<open>distinct_contents\<close>).
    Reading back a descriptor is stated up to the codec's own reading of the document it wrote.

  \<^bold>\<open>How the parts meet.\<close> The credential graph is a \<open>Dag\<close> whose vertices carry identities, and its
  acyclicity is the termination argument of the resolution. The registry serves the descriptor
  conversion, which turns accesses into raw objects through it; normalisation starts from that
  conversion. Digests are taken over the normal forms, and the constructor records them in
  references. Contracts between parts are locales: \<open>pairing\<close> (a bidirectional map), \<open>graph_store\<close>
  (a store that refuses cycles), \<open>child_resolver\<close> (a resolver that always returns on the
  children), \<open>ordered_scheme\<close> and \<open>keyed_scheme\<close> (a version order),
  \<open>version_store\<close> (a store of artifacts), each interpreted on the model.

  \<^bold>\<open>What the properties show.\<close> Graph operations keep the store acyclic and compute what they
  promise; the processor handles every vertex after its dependencies, returns, and returns the
  right error. Identities and types survive printing; matching means what its parts say; the
  registry and the bidirectional map refine their abstract maps. A credential configuration
  yields an acyclic graph, resolution is total and respects precedence. Versions are totally
  preordered, sorting is stable, constraints mean the conjunction of their terms. Descriptors
  survive conversion both ways up to what storage changes. Normalisation does not depend on the
  order of fields, equals the signed view, ignores what it does not cover and fixes what it
  covers. A signature binds its component, a generated digest verifies and survives as a pin, and
  neither a pinned read nor a verified blob yields anything but what its digest names. Graph
  discovery reaches everything exactly once and always ends. What is pushed to an archive can be
  resolved, fetched and found as a referrer. A construction only hands out valid versions whose
  references carry digests that verify, finds the dependencies of every component, and leaves
  existing versions alone unless told to replace them. A lookup takes the first repository that
  has the version, and a path matcher the first match. A component version that is added to an
  archive is read back and listed, and an alias reads as its target. Where the code does not do what
  it means to or what a comment promises, a theorem says so: a referrer index shared between
  repositories is deleted by a push to one of them, an alias can replace a version, references with
  the same text are confused, recursive schemas never convert, a nullable boolean changes every
  boolean, and a version that is nowhere is not reported as not found.

  \<^bold>\<open>Not modelled.\<close> Network, file and archive access (registries, local artifacts, uploads and downloads of
  the OCI repository, the access and input methods, plugins, controllers), cryptography, the CEL library and the
  transformation graphs built on it, configuration files, the command line, and generated code.
\<close>

end
